(* ===== verification/Prelude.thy ===== *)
theory Prelude
  imports Main "HOL-Library.AList"
begin

text \<open>
  Shared vocabulary of the development.  Python methods that mutate objects and may raise are
  functions from a state to a result and a state: a raise is \<open>Inl\<close> of the exception, and the
  state that was reached when it was raised is kept, as it is in Python.  The theory holds the
  combinators for such methods, dictionaries with integer keys, and the generic lemmas the
  component theories share.
\<close>

named_theorems py_simps \<open>unfolding rules for the combinators of raising, state-changing methods\<close>
named_theorems dict_simps \<open>lookup and update rules of dictionaries\<close>

section \<open>Exceptions\<close>

text \<open>
  The exceptions the modelled code raises or reacts to.  \<open>GenericException\<close> is a bare
  \<open>raise Exception(...)\<close>.
\<close>

datatype exn =
    DDictCheckpointSyncError
  | DDictFutureCheckpointError
  | DDictFullError
  | DDictPersistCheckpointError
  | DDictError
  | DDictKeyError
  | DDictTimeoutError
  | TimeoutError
  | DragonMemoryError
  | DragonFLIOutOfMemoryError
  | DragonFLIObjectDestroyed
  | DragonFLIError
  | EOFError
  | KeyError
  | IndexError
  | AttributeError
  | ValueError
  | TypeError
  | ZeroDivisionError
  | AssertionError
  | RuntimeError
  | NotImplementedError
  | UnboundLocalError
  | FileNotFoundError
  | PolicyError
  | StructError
  | OverflowError
  | IncompleteReadError
  | UnicodeError
  | ConnectionError
  | ChannelError
  | ServerError
  | GenericException

type_synonym 'a res = "exn + 'a"

section \<open>Methods: state, result, exception\<close>

type_synonym ('s, 'a) pym = "'s \<Rightarrow> 'a res \<times> 's"

definition ret :: "'a \<Rightarrow> ('s, 'a) pym" where
  "ret x = (\<lambda>s. (Inr x, s))"

definition raise :: "exn \<Rightarrow> ('s, 'a) pym" where
  "raise e = (\<lambda>s. (Inl e, s))"

definition bnd :: "('s, 'a) pym \<Rightarrow> ('a \<Rightarrow> ('s, 'b) pym) \<Rightarrow> ('s, 'b) pym" where
  "bnd m f = (\<lambda>s. case m s of (Inl e, t) \<Rightarrow> (Inl e, t) | (Inr x, t) \<Rightarrow> f x t)"

definition sq :: "('s, 'a) pym \<Rightarrow> ('s, 'b) pym \<Rightarrow> ('s, 'b) pym" where
  "sq m n = bnd m (\<lambda>_. n)"

definition gets :: "('s \<Rightarrow> 'a) \<Rightarrow> ('s, 'a) pym" where
  "gets f = (\<lambda>s. (Inr (f s), s))"

definition modify :: "('s \<Rightarrow> 's) \<Rightarrow> ('s, unit) pym" where
  "modify f = (\<lambda>s. (Inr (), f s))"

definition lift_res :: "('s \<Rightarrow> 'a res) \<Rightarrow> ('s, 'a) pym" where
  "lift_res f = (\<lambda>s. (f s, s))"

definition whenM :: "bool \<Rightarrow> ('s, unit) pym \<Rightarrow> ('s, unit) pym" where
  "whenM b m = (if b then m else ret ())"

text \<open>\<open>try: m / except: h\<close> (the handler re-raises what it does not match) and
  \<open>try: m / finally: f\<close> (an exception of the \<open>finally\<close> block replaces the pending one).\<close>

definition try_except :: "('s, 'a) pym \<Rightarrow> (exn \<Rightarrow> ('s, 'a) pym) \<Rightarrow> ('s, 'a) pym" where
  "try_except m h = (\<lambda>s. case m s of (Inl e, t) \<Rightarrow> h e t | (Inr x, t) \<Rightarrow> (Inr x, t))"

definition try_finally :: "('s, 'a) pym \<Rightarrow> ('s, unit) pym \<Rightarrow> ('s, 'a) pym" where
  "try_finally m f = (\<lambda>s. case m s of (r, t) \<Rightarrow>
     (case f t of (Inl e, u) \<Rightarrow> (Inl e, u) | (Inr _, u) \<Rightarrow> (r, u)))"

text \<open>The outcome of a block as a value, for handlers that need what the block had bound.\<close>

definition attempt :: "('s, 'a) pym \<Rightarrow> ('s, 'a res) pym" where
  "attempt m = (\<lambda>s. case m s of (r, t) \<Rightarrow> (Inr r, t))"

fun for_each :: "'x list \<Rightarrow> ('x \<Rightarrow> ('s, unit) pym) \<Rightarrow> ('s, unit) pym" where
  "for_each [] f = ret ()"
| "for_each (x # xs) f = sq (f x) (for_each xs f)"

lemma ret_apply [simp, py_simps]: "ret x s = (Inr x, s)"
  by (simp add: ret_def)

lemma raise_apply [simp, py_simps]: "raise e s = (Inl e, s)"
  by (simp add: raise_def)

lemma gets_apply [simp, py_simps]: "gets f s = (Inr (f s), s)"
  by (simp add: gets_def)

lemma modify_apply [simp, py_simps]: "modify f s = (Inr (), f s)"
  by (simp add: modify_def)

lemma lift_res_apply [simp, py_simps]: "lift_res f s = (f s, s)"
  by (simp add: lift_res_def)

lemma bnd_apply [py_simps]:
  "bnd m f s = (case m s of (Inl e, t) \<Rightarrow> (Inl e, t) | (Inr x, t) \<Rightarrow> f x t)"
  by (simp add: bnd_def)

lemma sq_apply [py_simps]:
  "sq m n s = (case m s of (Inl e, t) \<Rightarrow> (Inl e, t) | (Inr x, t) \<Rightarrow> n t)"
  by (simp add: sq_def bnd_def)

lemma try_except_apply [py_simps]:
  "try_except m h s = (case m s of (Inl e, t) \<Rightarrow> h e t | (Inr x, t) \<Rightarrow> (Inr x, t))"
  by (simp add: try_except_def)

lemma attempt_apply [py_simps]: "attempt m s = (case m s of (r, t) \<Rightarrow> (Inr r, t))"
  by (simp add: attempt_def)

lemma attempt_run: "m s = (r, t) \<Longrightarrow> attempt m s = (Inr r, t)"
  by (simp add: attempt_def)

lemma try_finally_apply [py_simps]:
  "try_finally m f s = (case m s of (r, t) \<Rightarrow>
     (case f t of (Inl e, u) \<Rightarrow> (Inl e, u) | (Inr _, u) \<Rightarrow> (r, u)))"
  by (simp add: try_finally_def)

lemma whenM_apply [simp, py_simps]:
  "whenM True m = m" "whenM False m = ret ()"
  by (simp_all add: whenM_def)

lemma sq_Inr: "m s = (Inr x, t) \<Longrightarrow> sq m n s = n t"
  by (simp add: sq_apply)

lemma sq_Inl: "m s = (Inl e, t) \<Longrightarrow> sq m n s = (Inl e, t)"
  by (simp add: sq_apply)

lemma bnd_Inr: "m s = (Inr x, t) \<Longrightarrow> bnd m f s = f x t"
  by (simp add: bnd_apply)

lemma bnd_Inl: "m s = (Inl e, t) \<Longrightarrow> bnd m f s = (Inl e, t)"
  by (simp add: bnd_apply)

lemma try_except_Inr: "m s = (Inr x, t) \<Longrightarrow> try_except m h s = (Inr x, t)"
  by (simp add: try_except_apply)

lemma try_except_Inl: "m s = (Inl e, t) \<Longrightarrow> try_except m h s = h e t"
  by (simp add: try_except_apply)

lemmas run_steps = sq_Inr sq_Inl bnd_Inr bnd_Inl try_except_Inr try_except_Inl

text \<open>A relation every step of a loop keeps holds of the whole loop, whether it raises or not.\<close>

lemma for_each_rel:
  assumes refl: "\<And>s. R s s"
    and trans: "\<And>s t u. R s t \<Longrightarrow> R t u \<Longrightarrow> R s u"
    and step: "\<And>x s. x \<in> set xs \<Longrightarrow> R s (snd (f x s))"
  shows "R s (snd (for_each xs f s))"
  using step
proof (induction xs arbitrary: s)
  case Nil
  then show ?case by (simp add: refl)
next
  case (Cons x xs)
  obtain r t where fx: "f x s = (r, t)" by (cases "f x s")
  have st: "R s t" using Cons.prems [of x s] fx by simp
  have tl: "R t (snd (for_each xs f t))" using Cons.IH Cons.prems by simp
  show ?case using fx st trans [OF st tl] by (cases r) (simp_all add: sq_apply)
qed

section \<open>Dictionaries with integer keys\<close>

text \<open>
  A Python dictionary keeps insertion order: \<open>d[k] = v\<close> overwrites in place or appends
  (\<^const>\<open>AList.update\<close>), \<open>del d[k]\<close> removes (\<^const>\<open>AList.delete\<close>), \<open>d[k]\<close> raises
  \<open>KeyError\<close> when the key is missing.
\<close>

type_synonym ('k, 'v) pydict = "('k \<times> 'v) list"

definition d_keys :: "('k, 'v) pydict \<Rightarrow> 'k list" where
  "d_keys d = map fst d"

definition d_item :: "'k \<Rightarrow> ('k, 'v) pydict \<Rightarrow> 'v res" where
  "d_item k d = (case map_of d k of None \<Rightarrow> Inl KeyError | Some v \<Rightarrow> Inr v)"

definition d_del :: "'k \<Rightarrow> ('k, 'v) pydict \<Rightarrow> ('k, 'v) pydict res" where
  "d_del k d = (if map_of d k = None then Inl KeyError else Inr (AList.delete k d))"

lemma map_of_update [dict_simps, simp]: "map_of (AList.update k v d) = (map_of d)(k \<mapsto> v)"
  by (simp add: update_conv')

lemma map_of_delete [dict_simps, simp]: "map_of (AList.delete k d) = (map_of d)(k := None)"
  by (simp add: delete_conv')

lemma d_item_Some [simp]: "map_of d k = Some v \<Longrightarrow> d_item k d = Inr v"
  by (simp add: d_item_def)

lemma d_item_None [simp]: "map_of d k = None \<Longrightarrow> d_item k d = Inl KeyError"
  by (simp add: d_item_def)

lemma in_d_keys [simp]: "k \<in> set (d_keys d) \<longleftrightarrow> map_of d k \<noteq> None"
  by (auto simp: d_keys_def map_of_eq_None_iff image_iff)

lemma set_d_keys_update [simp]: "set (d_keys (AList.update k v d)) = insert k (set (d_keys d))"
  by (auto simp: d_keys_def dom_update)

lemma set_d_keys_delete [simp]: "set (d_keys (AList.delete k d)) = set (d_keys d) - {k}"
  by (auto simp: d_keys_def delete_keys)

lemma d_keys_Nil [simp]: "d_keys [] = []"
  by (simp add: d_keys_def)

lemma d_keys_eq_Nil [simp]: "d_keys d = [] \<longleftrightarrow> d = []"
  by (simp add: d_keys_def)

lemma length_d_keys [simp]: "length (d_keys d) = length d"
  by (simp add: d_keys_def)

lemma distinct_d_keys_update: "distinct (d_keys d) \<Longrightarrow> distinct (d_keys (AList.update k v d))"
  unfolding d_keys_def by (rule distinct_update)

lemma distinct_d_keys_delete: "distinct (d_keys d) \<Longrightarrow> distinct (d_keys (AList.delete k d))"
  unfolding d_keys_def by (rule distinct_delete)

lemma map_update_same_keys:
  "k \<in> set (d_keys d) \<Longrightarrow> d_keys (AList.update k v d) = d_keys d"
  by (auto simp: d_keys_def update_keys)

section \<open>Sorted lists\<close>

lemma sorted_le_last: "sorted xs \<Longrightarrow> x \<in> set xs \<Longrightarrow> x \<le> last xs"
  by (induction xs) (auto split: if_splits)

lemma takeWhile_butlast: "xs \<noteq> [] \<Longrightarrow> \<not> P (last xs) \<Longrightarrow> takeWhile P xs = takeWhile P (butlast xs)"
  by (induction xs) auto

end
