(* ===== verification/Policy.thy ===== *)
theory Policy
  imports Prelude
begin

text \<open>
  The placement policy of \<open>infrastructure/policy.py\<close>: the \<open>Policy\<close> dataclass, its
  serialisation dictionary, the thread-local stack used by the context manager, and the merge of
  two policies.  An \<open>IntEnum\<close> member is an integer; \<open>__post_init__\<close> turns the integers of
  \<open>placement\<close> and \<open>distribution\<close> into members and rejects unknown ones, but leaves
  \<open>wait_mode\<close> alone (it tests \<open>self.WaitMode\<close>, which is the class), so that field stays an
  integer here.  An affinity is a list or, since Python does not check it on construction, any
  other object, of which the code only asks the truth value.
\<close>

datatype placement = LOCAL | ANYWHERE | HOST_NAME | HOST_ID | PLACEMENT_DEFAULT

datatype distribution = ROUNDROBIN | BLOCK | DISTRIBUTION_DEFAULT

fun placement_int :: "placement \<Rightarrow> int" where
  "placement_int LOCAL = -5"
| "placement_int ANYWHERE = -4"
| "placement_int HOST_NAME = -3"
| "placement_int HOST_ID = -2"
| "placement_int PLACEMENT_DEFAULT = -1"

definition placement_of_int :: "int \<Rightarrow> placement res" where
  "placement_of_int i =
     (if i = -5 then Inr LOCAL else if i = -4 then Inr ANYWHERE else if i = -3 then Inr HOST_NAME
      else if i = -2 then Inr HOST_ID else if i = -1 then Inr PLACEMENT_DEFAULT
      else Inl ValueError)"

fun distribution_int :: "distribution \<Rightarrow> int" where
  "distribution_int ROUNDROBIN = 1"
| "distribution_int BLOCK = 2"
| "distribution_int DISTRIBUTION_DEFAULT = 3"

definition distribution_of_int :: "int \<Rightarrow> distribution res" where
  "distribution_of_int i =
     (if i = 1 then Inr ROUNDROBIN else if i = 2 then Inr BLOCK
      else if i = 3 then Inr DISTRIBUTION_DEFAULT else Inl ValueError)"

definition WAIT_IDLE :: int where "WAIT_IDLE = 1"
definition WAIT_SPIN :: int where "WAIT_SPIN = 2"
definition WAIT_DEFAULT :: int where "WAIT_DEFAULT = 3"

datatype affinity = AffList "int list" | AffOther bool

fun aff_truth :: "affinity \<Rightarrow> bool" where
  "aff_truth (AffList xs) = (xs \<noteq> [])"
| "aff_truth (AffOther b) = b"

record policy =
  placement :: placement
  host_name :: string
  host_id :: int
  distribution :: distribution
  cpu_affinity :: affinity
  gpu_env_str :: string
  gpu_affinity :: affinity
  wait_mode :: int
  refcounted :: bool

text \<open>\<open>Policy()\<close>: the defaults of the dataclass fields.\<close>

definition default_policy :: policy where
  "default_policy = \<lparr>placement = PLACEMENT_DEFAULT, host_name = '''', host_id = -1,
     distribution = DISTRIBUTION_DEFAULT, cpu_affinity = AffList [], gpu_env_str = '''',
     gpu_affinity = AffList [], wait_mode = WAIT_DEFAULT, refcounted = True\<rparr>"

text \<open>A dictionary of keyword arguments: the keys that are present, with their values.\<close>

record psdict =
  sd_placement :: "int option"
  sd_host_name :: "string option"
  sd_host_id :: "int option"
  sd_distribution :: "int option"
  sd_cpu_affinity :: "affinity option"
  sd_gpu_env_str :: "string option"
  sd_gpu_affinity :: "affinity option"
  sd_wait_mode :: "int option"
  sd_refcounted :: "bool option"

definition orD :: "'a option \<Rightarrow> 'a \<Rightarrow> 'a" where
  "orD x d = (case x of None \<Rightarrow> d | Some v \<Rightarrow> v)"

definition or_right :: "'a option \<Rightarrow> 'a option \<Rightarrow> 'a option" where
  "or_right low high = (case high of None \<Rightarrow> low | Some v \<Rightarrow> Some v)"

text \<open>\<open>{**low, **high}\<close>\<close>

definition sdict_union :: "psdict \<Rightarrow> psdict \<Rightarrow> psdict" where
  "sdict_union a b = \<lparr>
     sd_placement = or_right (sd_placement a) (sd_placement b),
     sd_host_name = or_right (sd_host_name a) (sd_host_name b),
     sd_host_id = or_right (sd_host_id a) (sd_host_id b),
     sd_distribution = or_right (sd_distribution a) (sd_distribution b),
     sd_cpu_affinity = or_right (sd_cpu_affinity a) (sd_cpu_affinity b),
     sd_gpu_env_str = or_right (sd_gpu_env_str a) (sd_gpu_env_str b),
     sd_gpu_affinity = or_right (sd_gpu_affinity a) (sd_gpu_affinity b),
     sd_wait_mode = or_right (sd_wait_mode a) (sd_wait_mode b),
     sd_refcounted = or_right (sd_refcounted a) (sd_refcounted b)\<rparr>"

text \<open>\<open>Policy(**kwargs)\<close>, with \<open>__post_init__\<close>.\<close>

definition make_policy :: "psdict \<Rightarrow> policy res" where
  "make_policy d =
     (case placement_of_int (orD (sd_placement d) (placement_int (placement default_policy))) of
        Inl e \<Rightarrow> Inl e
      | Inr pl \<Rightarrow>
     (case distribution_of_int
         (orD (sd_distribution d) (distribution_int (distribution default_policy))) of
        Inl e \<Rightarrow> Inl e
      | Inr di \<Rightarrow>
        Inr \<lparr>placement = pl,
             host_name = orD (sd_host_name d) (host_name default_policy),
             host_id = orD (sd_host_id d) (host_id default_policy),
             distribution = di,
             cpu_affinity = orD (sd_cpu_affinity d) (cpu_affinity default_policy),
             gpu_env_str = orD (sd_gpu_env_str d) (gpu_env_str default_policy),
             gpu_affinity = orD (sd_gpu_affinity d) (gpu_affinity default_policy),
             wait_mode = orD (sd_wait_mode d) (wait_mode default_policy),
             refcounted = orD (sd_refcounted d) (refcounted default_policy)\<rparr>))"

definition get_sdict :: "policy \<Rightarrow> psdict" where
  "get_sdict p = \<lparr>
     sd_placement = Some (placement_int (placement p)),
     sd_host_name = Some (host_name p),
     sd_host_id = Some (host_id p),
     sd_distribution = Some (distribution_int (distribution p)),
     sd_cpu_affinity = Some (cpu_affinity p),
     sd_gpu_env_str = Some (gpu_env_str p),
     sd_gpu_affinity = Some (gpu_affinity p),
     sd_wait_mode = Some (wait_mode p),
     sd_refcounted = Some (refcounted p)\<rparr>"

definition from_sdict :: "psdict \<Rightarrow> policy res" where
  "from_sdict d = make_policy d"

text \<open>
  The loop over the dataclass fields in \<open>merge\<close>: a scalar is retained when it differs from the
  field's default; a list field has no default value (only a factory), so it is retained unless it
  is an empty list.
\<close>

definition retain_scalar :: "'a \<Rightarrow> 'a \<Rightarrow> 'b \<Rightarrow> 'b option" where
  "retain_scalar v dflt enc = (if v = dflt then None else Some enc)"

fun retain_aff :: "affinity \<Rightarrow> affinity option" where
  "retain_aff (AffList xs) = (if xs = [] then None else Some (AffList xs))"
| "retain_aff (AffOther b) = Some (AffOther b)"

definition retain :: "policy \<Rightarrow> psdict" where
  "retain p = \<lparr>
     sd_placement =
       retain_scalar (placement p) (placement default_policy) (placement_int (placement p)),
     sd_host_name = retain_scalar (host_name p) (host_name default_policy) (host_name p),
     sd_host_id = retain_scalar (host_id p) (host_id default_policy) (host_id p),
     sd_distribution = retain_scalar (distribution p) (distribution default_policy)
       (distribution_int (distribution p)),
     sd_cpu_affinity = retain_aff (cpu_affinity p),
     sd_gpu_env_str = retain_scalar (gpu_env_str p) (gpu_env_str default_policy) (gpu_env_str p),
     sd_gpu_affinity = retain_aff (gpu_affinity p),
     sd_wait_mode = retain_scalar (wait_mode p) (wait_mode default_policy) (wait_mode p),
     sd_refcounted = retain_scalar (refcounted p) (refcounted default_policy) (refcounted p)\<rparr>"

text \<open>
  \<open>Policy.merge(low, high)\<close>.  The low policy may be \<open>None\<close> (an evaluator built without a
  default policy); then \<open>low_policy.get_sdict()\<close> raises.
\<close>

definition merge :: "policy option \<Rightarrow> policy \<Rightarrow> policy res" where
  "merge low high =
     (case low of
        None \<Rightarrow> Inl AttributeError
      | Some l \<Rightarrow> make_policy (sdict_union (get_sdict l) (retain high)))"

definition GS_GLOBAL_POLICY_SDICT :: psdict where
  "GS_GLOBAL_POLICY_SDICT = \<lparr>
     sd_placement = Some (placement_int ANYWHERE), sd_host_name = None, sd_host_id = None,
     sd_distribution = Some (distribution_int ROUNDROBIN), sd_cpu_affinity = None,
     sd_gpu_env_str = None, sd_gpu_affinity = None, sd_wait_mode = Some WAIT_IDLE,
     sd_refcounted = None\<rparr>"

definition global_policy :: "policy res" where
  "global_policy = from_sdict GS_GLOBAL_POLICY_SDICT"

section \<open>The thread-local policy stack\<close>

text \<open>
  \<open>_policy_local\<close>: the stack is created on first use, with the policy of the environment
  variable below it when that variable is set and parses (\<open>pl_env\<close> is the parsed dictionary).
\<close>

record policy_local =
  policy_stack :: "policy list option"
  pl_env :: "psdict option"

definition init_thread_policy :: "(policy_local, unit) pym" where
  "init_thread_policy = (\<lambda>s.
     case policy_stack s of
       Some _ \<Rightarrow> (Inr (), s)
     | None \<Rightarrow>
        (case pl_env s of
           None \<Rightarrow> (Inr (), s\<lparr>policy_stack := Some []\<rparr>)
         | Some d \<Rightarrow>
            (case from_sdict d of
               Inl e \<Rightarrow> (Inl e, s\<lparr>policy_stack := Some []\<rparr>)
             | Inr p \<Rightarrow> (Inr (), s\<lparr>policy_stack := Some [p]\<rparr>))))"

text \<open>The loop \<open>for i in range(-1, -len(stack) - 1, -1)\<close> visits the stack from its top.\<close>

fun merge_down :: "policy list \<Rightarrow> policy \<Rightarrow> policy res" where
  "merge_down [] acc = Inr acc"
| "merge_down (p # ps) acc =
     (case merge (Some p) acc of Inl e \<Rightarrow> Inl e | Inr acc' \<Rightarrow> merge_down ps acc')"

definition thread_policy :: "(policy_local, policy) pym" where
  "thread_policy =
     sq init_thread_policy
      (bnd (gets (\<lambda>s. orD (policy_stack s) []))
        (\<lambda>stack. bnd (lift_res (\<lambda>_. merge_down (rev stack) default_policy))
          (\<lambda>rv. lift_res (\<lambda>_. from_sdict (get_sdict rv)))))"

definition policy_enter :: "policy \<Rightarrow> (policy_local, unit) pym" where
  "policy_enter p =
     sq init_thread_policy
        (modify (\<lambda>s. s\<lparr>policy_stack := Some (orD (policy_stack s) [] @ [p])\<rparr>))"

definition policy_exit :: "(policy_local, unit) pym" where
  "policy_exit = (\<lambda>s.
     case policy_stack s of
       None \<Rightarrow> (Inl AttributeError, s)
     | Some [] \<Rightarrow> (Inl IndexError, s)
     | Some (p # ps) \<Rightarrow> (Inr (), s\<lparr>policy_stack := Some (butlast (p # ps))\<rparr>))"

section \<open>Merging is an overlay\<close>

text \<open>
  What a merge promises: field by field, the value of the high-priority policy unless that value
  is the field's default, then the value of the low-priority one.
\<close>

definition pick :: "'a \<Rightarrow> 'a \<Rightarrow> 'a \<Rightarrow> 'a" where
  "pick dflt low high = (if high = dflt then low else high)"

definition overlay :: "policy \<Rightarrow> policy \<Rightarrow> policy" where
  "overlay low high = \<lparr>
     placement = pick PLACEMENT_DEFAULT (placement low) (placement high),
     host_name = pick '''' (host_name low) (host_name high),
     host_id = pick (-1) (host_id low) (host_id high),
     distribution = pick DISTRIBUTION_DEFAULT (distribution low) (distribution high),
     cpu_affinity = pick (AffList []) (cpu_affinity low) (cpu_affinity high),
     gpu_env_str = pick '''' (gpu_env_str low) (gpu_env_str high),
     gpu_affinity = pick (AffList []) (gpu_affinity low) (gpu_affinity high),
     wait_mode = pick WAIT_DEFAULT (wait_mode low) (wait_mode high),
     refcounted = pick True (refcounted low) (refcounted high)\<rparr>"

lemma placement_of_int_inv [simp]: "placement_of_int (placement_int p) = Inr p"
  by (cases p) (simp_all add: placement_of_int_def)

lemma distribution_of_int_inv [simp]: "distribution_of_int (distribution_int d) = Inr d"
  by (cases d) (simp_all add: distribution_of_int_def)

lemma orD_retain [simp]:
  "orD (or_right (Some low) (retain_scalar v dflt v)) x = pick dflt low v"
  by (simp add: orD_def or_right_def retain_scalar_def pick_def)

lemma orD_retain_enc:
  "orD (or_right (Some (enc low)) (retain_scalar v dflt (enc v))) x = enc (pick dflt low v)"
  by (simp add: orD_def or_right_def retain_scalar_def pick_def)

lemma orD_retain_aff [simp]:
  "orD (or_right (Some low) (retain_aff a)) x = pick (AffList []) low a"
  by (cases a) (simp_all add: orD_def or_right_def pick_def)

lemma make_policy_get_sdict: "make_policy (get_sdict p) = Inr p"
  by (cases p) (simp add: make_policy_def get_sdict_def orD_def)

lemma merge_overlay: "merge (Some l) h = Inr (overlay l h)"
  by (simp add: merge_def make_policy_def sdict_union_def get_sdict_def retain_def overlay_def
      default_policy_def orD_retain_enc [of placement_int] orD_retain_enc [of distribution_int])

text \<open>The interface the stack of nested contexts relies on: overlaying is a monoid.\<close>

locale overlay_stack =
  fixes over :: "'p \<Rightarrow> 'p \<Rightarrow> 'p" and unset :: 'p
  assumes over_assoc: "over (over a b) c = over a (over b c)"
    and over_unset_right: "over p unset = p"
    and over_unset_left: "over unset p = p"
begin

lemma foldr_over_append:
  "foldr over (xs @ ys) unset = over (foldr over xs unset) (foldr over ys unset)"
  by (induction xs) (simp_all add: over_assoc over_unset_left)

lemma foldr_over_snoc: "foldr over (xs @ [p]) unset = over (foldr over xs unset) p"
  by (simp add: foldr_over_append over_unset_right del: foldr_append)

lemma foldl_over_rev: "foldl (\<lambda>acc p. over p acc) q (rev xs) = foldr over xs q"
  by (induction xs arbitrary: q) simp_all

end

lemma pick_assoc: "pick d (pick d a b) c = pick d a (pick d b c)"
  by (simp add: pick_def)

lemma pick_default [simp]: "pick d d x = x" "pick d x d = x"
  by (simp_all add: pick_def)

interpretation pol: overlay_stack overlay default_policy
  by unfold_locales (simp_all add: overlay_def pick_assoc default_policy_def)

lemma merge_down_foldr: "merge_down (rev ps) acc = Inr (foldr overlay ps acc)"
proof -
  have "merge_down qs acc = Inr (foldl (\<lambda>a p. overlay p a) acc qs)" for qs
    by (induction qs arbitrary: acc) (simp_all add: merge_overlay)
  then show ?thesis by (simp add: pol.foldl_over_rev)
qed

text \<open>The stack as the first use of it finds it.\<close>

definition the_stack :: "policy_local \<Rightarrow> policy list" where
  "the_stack s = (case policy_stack s of
     Some ps \<Rightarrow> ps
   | None \<Rightarrow> (case pl_env s of
       None \<Rightarrow> []
     | Some d \<Rightarrow> (case from_sdict d of Inl _ \<Rightarrow> [] | Inr p \<Rightarrow> [p])))"

definition env_parses :: "policy_local \<Rightarrow> bool" where
  "env_parses s = (case pl_env s of None \<Rightarrow> True | Some d \<Rightarrow> \<not> isl (from_sdict d))"

lemma init_thread_policy_ok:
  "env_parses s \<Longrightarrow> init_thread_policy s = (Inr (), s\<lparr>policy_stack := Some (the_stack s)\<rparr>)"
  by (cases s) (auto simp: env_parses_def init_thread_policy_def the_stack_def
      split: option.splits sum.splits)

lemma thread_policy_eq:
  "env_parses s \<Longrightarrow>
   thread_policy s =
     (Inr (foldr overlay (the_stack s) default_policy), s\<lparr>policy_stack := Some (the_stack s)\<rparr>)"
  by (simp add: thread_policy_def py_simps init_thread_policy_ok merge_down_foldr orD_def
      from_sdict_def make_policy_get_sdict)

section \<open>Properties of policies\<close>

text \<open>Merging a policy over another takes, for every field, the value of the high-priority
  policy unless that value is the field's default (for an affinity: the empty list), and then the
  value of the low-priority policy; it never raises.\<close>

lemma merge_fields:
  "\<exists>m. merge (Some low) high = Inr m \<and>
     placement m = pick PLACEMENT_DEFAULT (placement low) (placement high) \<and>
     host_name m = pick '''' (host_name low) (host_name high) \<and>
     host_id m = pick (-1) (host_id low) (host_id high) \<and>
     distribution m = pick DISTRIBUTION_DEFAULT (distribution low) (distribution high) \<and>
     cpu_affinity m = pick (AffList []) (cpu_affinity low) (cpu_affinity high) \<and>
     gpu_env_str m = pick '''' (gpu_env_str low) (gpu_env_str high) \<and>
     gpu_affinity m = pick (AffList []) (gpu_affinity low) (gpu_affinity high) \<and>
     wait_mode m = pick WAIT_DEFAULT (wait_mode low) (wait_mode high) \<and>
     refcounted m = pick True (refcounted low) (refcounted high)"
  by (simp add: merge_overlay overlay_def)

text \<open>The policy of a thread is the merge of its context stack with the innermost context on
  top: entering a context with policy \<open>p\<close> overlays \<open>p\<close> on the policy the thread had before, and
  leaving it gives the earlier policy back.\<close>

lemma with_policy_block:
  assumes "env_parses s"
  shows "\<exists>q s1 s2 s3. thread_policy s = (Inr q, s1) \<and> policy_enter p s1 = (Inr (), s2) \<and>
     thread_policy s2 = (Inr (overlay q p), s2) \<and>
     policy_exit s2 = (Inr (), s3) \<and> fst (thread_policy s3) = Inr q \<and>
     policy_stack s3 = policy_stack s1"
proof -
  let ?q = "foldr overlay (the_stack s) default_policy"
  let ?s1 = "s\<lparr>policy_stack := Some (the_stack s)\<rparr>"
  let ?s2 = "s\<lparr>policy_stack := Some (the_stack s @ [p])\<rparr>"
  have enter: "policy_enter p ?s1 = (Inr (), ?s2)"
    by (simp add: policy_enter_def py_simps init_thread_policy_def orD_def)
  have leave: "policy_exit ?s2 = (Inr (), ?s1)"
    by (cases "the_stack s") (simp_all add: policy_exit_def)
  have "env_parses ?s2" "env_parses ?s1" using assms by (simp_all add: env_parses_def)
  then have "thread_policy ?s2 = (Inr (overlay ?q p), ?s2)" and "thread_policy ?s1 = (Inr ?q, ?s1)"
    by (simp_all add: thread_policy_eq the_stack_def pol.foldr_over_snoc del: foldr_append)
  with thread_policy_eq [OF assms] enter leave show ?thesis
    by (intro exI [of _ ?q] exI [of _ ?s1] exI [of _ ?s2]) simp
qed

definition example_local :: policy_local where
  "example_local = \<lparr>policy_stack = None, pl_env = Some GS_GLOBAL_POLICY_SDICT\<rparr>"

text \<open>C16: Serialising a policy to its dictionary and building a policy from that dictionary gives
  the policy back.\<close>

theorem sdict_roundtrip: "from_sdict (get_sdict p) = Inr p"
  by (simp add: from_sdict_def make_policy_get_sdict)

end
