(* ===== verification/PolicyEval.thy ===== *)
theory PolicyEval
  imports Policy
begin

text \<open>
  The policy evaluator of \<open>globalservices/policy_eval.py\<close>.  Its state is the list of node
  descriptors (of which it changes the load counter \<open>num_policies\<close>), the number of nodes taken
  when it was built, the round-robin cursor and the overprovisioning flag.  A node is named by its
  index in the list, so that the counter of the very node is updated.
\<close>

record accelerator =
  device_list :: "int list"
  env_str :: string

record node_descriptor =
  h_uid :: int
  nd_host_name :: string
  num_cpus :: int
  cpu_devices :: "int list option"
  accelerators :: "accelerator option"
  num_policies :: int

record resource_layout =
  rl_h_uid :: int
  rl_host_name :: string
  node_specified :: bool
  numa_node :: int
  cpu_core :: "int list"
  gpu_core :: "int list"
  accelerator_env :: string

record evaluator =
  nodes :: "node_descriptor list"
  num_nodes :: nat
  ev_default :: "policy option"
  overprovision :: bool
  cur_node :: nat

definition make_evaluator :: "node_descriptor list \<Rightarrow> policy option \<Rightarrow> evaluator" where
  "make_evaluator ns dp = \<lparr>nodes = ns, num_nodes = length ns, ev_default = dp,
     overprovision = False, cur_node = 0\<rparr>"

definition has_slot :: "node_descriptor \<Rightarrow> bool" where
  "has_slot n = (num_policies n < num_cpus n)"

text \<open>
  The search loop of \<open>_find_next_open\<close>.  It runs until it is back at its starting point, which
  it never reaches when the starting index is not below the number of nodes; not returning is
  \<open>None\<close>.
\<close>

partial_function (option) find_open_loop ::
    "node_descriptor list \<Rightarrow> nat \<Rightarrow> nat \<Rightarrow> nat \<Rightarrow> nat option res option" where
  "find_open_loop ns n cur idx =
     (if idx = cur then Some (Inr None)
      else if length ns \<le> idx then Some (Inl IndexError)
      else if has_slot (ns ! idx) then Some (Inr (Some idx))
      else find_open_loop ns n cur ((idx + 1) mod n))"

definition find_next_open :: "evaluator \<Rightarrow> nat \<Rightarrow> nat option res option" where
  "find_next_open ev cur =
     (if num_nodes ev = 0 then Some (Inl ZeroDivisionError)
      else if num_nodes ev = 1 then Some (Inr None)
      else find_open_loop (nodes ev) (num_nodes ev) cur ((cur + 1) mod num_nodes ev))"

fun node_index :: "(node_descriptor \<Rightarrow> bool) \<Rightarrow> node_descriptor list \<Rightarrow> nat option" where
  "node_index q [] = None"
| "node_index q (n # ns) = (if q n then Some 0 else map_option Suc (node_index q ns))"

definition node_by_id :: "evaluator \<Rightarrow> int \<Rightarrow> nat res" where
  "node_by_id ev hid = (case node_index (\<lambda>n. h_uid n = hid) (nodes ev) of
     None \<Rightarrow> Inl ValueError | Some i \<Rightarrow> Inr i)"

definition node_by_name :: "evaluator \<Rightarrow> string \<Rightarrow> nat res" where
  "node_by_name ev name = (case node_index (\<lambda>n. nd_host_name n = name) (nodes ev) of
     None \<Rightarrow> Inl ValueError | Some i \<Rightarrow> Inr i)"

text \<open>
  \<open>_get_node\<close>: the result says whether the node was named by the policy, and which node it is.
  The outer option is \<open>None\<close> only if the search for an open node would not return.
\<close>

definition get_node :: "policy \<Rightarrow> evaluator \<Rightarrow> ((bool \<times> nat) res \<times> evaluator) option" where
  "get_node p ev0 =
     (let ev = (if num_nodes ev0 \<le> cur_node ev0 then ev0\<lparr>cur_node := 0\<rparr> else ev0) in
      if placement p = HOST_ID then
        Some (case node_by_id ev (host_id p) of Inl e \<Rightarrow> Inl e | Inr i \<Rightarrow> Inr (True, i), ev)
      else if placement p = HOST_NAME then
        Some (case node_by_name ev (host_name p) of Inl e \<Rightarrow> Inl e | Inr i \<Rightarrow> Inr (True, i), ev)
      else if length (nodes ev) \<le> cur_node ev then Some (Inl IndexError, ev)
      else
        (let node = cur_node ev;
             dist = (if distribution p = DISTRIBUTION_DEFAULT then ROUNDROBIN else distribution p)
         in if dist = ROUNDROBIN then
              Some (Inr (False, node), ev\<lparr>cur_node := cur_node ev + 1\<rparr>)
            else if overprovision ev then
              Some (Inr (False, node), ev\<lparr>cur_node := cur_node ev + 1\<rparr>)
            else if \<not> has_slot (nodes ev ! node) then
              (case find_next_open ev (cur_node ev) of
                 None \<Rightarrow> None
               | Some (Inl e) \<Rightarrow> Some (Inl e, ev)
               | Some (Inr None) \<Rightarrow>
                   Some (Inr (False, node), ev\<lparr>overprovision := True, cur_node := cur_node ev + 1\<rparr>)
               | Some (Inr (Some i)) \<Rightarrow> Some (Inr (False, i), ev))
            else Some (Inr (False, node), ev)))"

definition get_cpu_affinity :: "policy \<Rightarrow> node_descriptor \<Rightarrow> int list res" where
  "get_cpu_affinity p n =
     (if aff_truth (cpu_affinity p) then
        (case cpu_affinity p of
           AffOther _ \<Rightarrow> Inl PolicyError
         | AffList xs \<Rightarrow>
            (case cpu_devices n of
               None \<Rightarrow> Inl TypeError
             | Some ds \<Rightarrow> Inr (filter (\<lambda>x. x \<in> set xs) ds)))
      else (case cpu_devices n of Some ds \<Rightarrow> Inr ds | None \<Rightarrow> Inr []))"

definition get_gpu_affinity :: "policy \<Rightarrow> node_descriptor \<Rightarrow> int list res" where
  "get_gpu_affinity p n =
     (if aff_truth (gpu_affinity p) then
        (case gpu_affinity p of
           AffOther _ \<Rightarrow> Inl PolicyError
         | AffList xs \<Rightarrow>
            (case accelerators n of
               Some a \<Rightarrow> Inr (filter (\<lambda>x. x \<in> set (device_list a)) xs)
             | None \<Rightarrow> Inr []))
      else (case accelerators n of Some a \<Rightarrow> Inr (device_list a) | None \<Rightarrow> Inr []))"

definition add_layout ::
    "nat \<Rightarrow> bool \<Rightarrow> int list \<Rightarrow> int list \<Rightarrow> string \<Rightarrow> resource_layout list \<Rightarrow> evaluator \<Rightarrow>
     resource_layout list \<times> evaluator" where
  "add_layout i spec cpus gpus env layouts ev =
     (let n = nodes ev ! i in
      (layouts @ [\<lparr>rl_h_uid = h_uid n, rl_host_name = nd_host_name n, node_specified = spec,
                   numa_node = 0, cpu_core = cpus, gpu_core = gpus, accelerator_env = env\<rparr>],
       ev\<lparr>nodes := (nodes ev)[i := n\<lparr>num_policies := num_policies n + 1\<rparr>]\<rparr>))"

definition layout_env :: "int list \<Rightarrow> node_descriptor \<Rightarrow> string res" where
  "layout_env gpus n =
     (if gpus \<noteq> [] then (case accelerators n of None \<Rightarrow> Inl AttributeError | Some a \<Rightarrow> Inr (env_str a))
      else Inr '''')"

text \<open>One turn of the loop of \<open>evaluate\<close>, and the loop.\<close>

definition eval_one ::
    "policy \<Rightarrow> resource_layout list \<Rightarrow> evaluator \<Rightarrow> (resource_layout list res \<times> evaluator) option" where
  "eval_one p0 layouts ev =
     (case merge (ev_default ev) p0 of
        Inl e \<Rightarrow> Some (Inl e, ev)
      | Inr p \<Rightarrow>
     (case get_node p ev of
        None \<Rightarrow> None
      | Some (Inl e, ev1) \<Rightarrow> Some (Inl e, ev1)
      | Some (Inr (spec, i), ev1) \<Rightarrow>
     (case get_cpu_affinity p (nodes ev1 ! i) of
        Inl e \<Rightarrow> Some (Inl e, ev1)
      | Inr cpus \<Rightarrow>
     (case get_gpu_affinity p (nodes ev1 ! i) of
        Inl e \<Rightarrow> Some (Inl e, ev1)
      | Inr gpus \<Rightarrow>
     (case layout_env gpus (nodes ev1 ! i) of
        Inl e \<Rightarrow> Some (Inl e, ev1)
      | Inr env \<Rightarrow>
        (case add_layout i spec cpus gpus env layouts ev1 of (ls, ev2) \<Rightarrow> Some (Inr ls, ev2)))))))"

fun eval_loop ::
    "policy list \<Rightarrow> resource_layout list \<Rightarrow> evaluator \<Rightarrow> (resource_layout list res \<times> evaluator) option" where
  "eval_loop [] layouts ev = Some (Inr layouts, ev)"
| "eval_loop (p # ps) layouts ev =
     (case eval_one p layouts ev of
        None \<Rightarrow> None
      | Some (Inl e, ev') \<Rightarrow> Some (Inl e, ev')
      | Some (Inr ls, ev') \<Rightarrow> eval_loop ps ls ev')"

definition evaluate :: "policy list \<Rightarrow> evaluator \<Rightarrow> (resource_layout list res \<times> evaluator) option" where
  "evaluate ps ev = eval_loop ps [] ev"

section \<open>The search for an open node\<close>

definition ev_ok :: "evaluator \<Rightarrow> bool" where
  "ev_ok ev \<longleftrightarrow> num_nodes ev = length (nodes ev) \<and> nodes ev \<noteq> []"

text \<open>How far a cyclic search at \<open>idx\<close> still is from its starting point.\<close>

definition ring_dist :: "nat \<Rightarrow> nat \<Rightarrow> nat \<Rightarrow> nat" where
  "ring_dist n cur idx = (if idx \<le> cur then cur - idx else cur + n - idx)"

lemma ring_dist_0: "cur < n \<Longrightarrow> idx < n \<Longrightarrow> ring_dist n cur idx = 0 \<longleftrightarrow> idx = cur"
  by (auto simp: ring_dist_def)

lemma ring_next: "idx < n \<Longrightarrow> Suc idx mod n = (if Suc idx = n then 0 else Suc idx)" for n :: nat
  by auto

lemma ring_dist_step:
  "cur < n \<Longrightarrow> idx < n \<Longrightarrow> idx \<noteq> cur \<Longrightarrow>
   ring_dist n cur idx = Suc (ring_dist n cur ((idx + 1) mod n))"
  using ring_next [of idx n] by (auto simp: ring_dist_def split: if_splits)

lemma ring_dist_inj:
  "cur < n \<Longrightarrow> i < n \<Longrightarrow> j < n \<Longrightarrow> ring_dist n cur i = ring_dist n cur j \<Longrightarrow> i = j"
  by (auto simp: ring_dist_def split: if_splits)

lemma ring_dist_start:
  "cur < n \<Longrightarrow> 1 < n \<Longrightarrow> ring_dist n cur ((cur + 1) mod n) = n - 1"
  using ring_next [of cur n] by (auto simp: ring_dist_def split: if_splits)

lemma ring_dist_lt: "cur < n \<Longrightarrow> j < n \<Longrightarrow> ring_dist n cur j < n"
  by (auto simp: ring_dist_def)

definition open_result :: "node_descriptor list \<Rightarrow> nat \<Rightarrow> nat \<Rightarrow> nat option \<Rightarrow> bool" where
  "open_result ns cur d r = (case r of
     Some i \<Rightarrow> i < length ns \<and> i \<noteq> cur \<and> has_slot (ns ! i)
   | None \<Rightarrow> \<forall>j < length ns. j \<noteq> cur \<and> ring_dist (length ns) cur j \<le> d \<longrightarrow> \<not> has_slot (ns ! j))"

lemma find_open_loop_returns:
  assumes "cur < length ns" "idx < length ns"
  shows "\<exists>r. find_open_loop ns (length ns) cur idx = Some (Inr r) \<and>
             open_result ns cur (ring_dist (length ns) cur idx) r"
  using assms
proof (induction "ring_dist (length ns) cur idx" arbitrary: idx)
  case 0
  then have "idx = cur" by (simp add: ring_dist_0)
  then show ?case using 0
    by (subst find_open_loop.simps) (auto simp: open_result_def ring_dist_0 ring_dist_def)
next
  case (Suc d)
  let ?n = "length ns" and ?next = "(idx + 1) mod length ns"
  have ne: "idx \<noteq> cur" using Suc by (auto simp: ring_dist_def)
  have d: "d = ring_dist ?n cur ?next" using Suc ring_dist_step [of cur ?n idx] ne by simp
  show ?case
  proof (cases "has_slot (ns ! idx)")
    case True
    then show ?thesis using ne Suc.prems
      by (subst find_open_loop.simps) (auto simp: open_result_def)
  next
    case False
    from Suc.hyps(1) [OF d Suc.prems(1)] Suc.prems obtain r where
      r: "find_open_loop ns ?n cur ?next = Some (Inr r)" "open_result ns cur d r"
      using d by (metis mod_less_divisor not_less_zero gr_zeroI)
    have "\<not> has_slot (ns ! j)"
      if "r = None" "j < ?n" "j \<noteq> cur" "ring_dist ?n cur j \<le> Suc d" for j
    proof (cases "ring_dist ?n cur j = Suc d")
      case True
      then have "j = idx" using that Suc ring_dist_inj [of cur ?n j idx] by simp
      then show ?thesis using False by simp
    qed (use that r(2) in \<open>auto simp: open_result_def\<close>)
    then have "open_result ns cur (Suc d) r"
      using r(2) by (auto simp: open_result_def split: option.splits)
    with r(1) False ne Suc.hyps(2) Suc.prems show ?thesis
      by (subst find_open_loop.simps) simp
  qed
qed

lemma find_next_open_returns:
  assumes "ev_ok ev" "cur < length (nodes ev)"
  shows "\<exists>r. find_next_open ev cur = Some (Inr r) \<and> open_result (nodes ev) cur (length (nodes ev)) r"
proof (cases "length (nodes ev) = 1")
  case True
  then show ?thesis using assms by (simp add: find_next_open_def ev_ok_def open_result_def)
next
  case False
  let ?n = "length (nodes ev)"
  have n: "1 < ?n" using False assms by (cases "nodes ev") (auto simp: ev_ok_def)
  then have "(cur + 1) mod ?n < ?n" by (intro mod_less_divisor) linarith
  from find_open_loop_returns [OF assms(2) this] obtain r where
    r: "find_open_loop (nodes ev) ?n cur ((cur + 1) mod ?n) = Some (Inr r)"
    "open_result (nodes ev) cur (?n - 1) r"
    using ring_dist_start [OF assms(2) n] by auto
  have "open_result (nodes ev) cur ?n r"
    using r(2) ring_dist_lt [OF assms(2)] by (fastforce simp: open_result_def split: option.splits)
  with r(1) n assms show ?thesis by (auto simp: find_next_open_def ev_ok_def)
qed

lemma node_index_Some:
  "node_index q ns = Some i \<Longrightarrow> i < length ns \<and> q (ns ! i) \<and> (\<forall>j < i. \<not> q (ns ! j))"
proof (induction ns arbitrary: i)
  case (Cons n ns)
  then show ?case by (cases i) (auto split: if_splits simp: less_Suc_eq_0_disj)
qed simp

lemma node_index_None: "node_index q ns = None \<longleftrightarrow> (\<forall>n \<in> set ns. \<not> q n)"
  by (induction ns) auto

definition ev_frame :: "evaluator \<Rightarrow> evaluator \<Rightarrow> bool" where
  "ev_frame ev ev' \<longleftrightarrow> nodes ev' = nodes ev \<and> num_nodes ev' = num_nodes ev \<and>
     ev_default ev' = ev_default ev"

lemma get_node_returns:
  assumes "ev_ok ev"
  shows "\<exists>r ev'. get_node p ev = Some (r, ev') \<and> ev_frame ev ev' \<and>
           (\<forall>b i. r = Inr (b, i) \<longrightarrow> i < length (nodes ev))"
proof -
  define ev1 where "ev1 = (if num_nodes ev \<le> cur_node ev then ev\<lparr>cur_node := 0\<rparr> else ev)"
  have f: "ev_frame ev ev1" and cur: "cur_node ev1 < length (nodes ev1)" and ok: "ev_ok ev1"
    using assms by (auto simp: ev1_def ev_frame_def ev_ok_def)
  from find_next_open_returns [OF ok cur] obtain r where
    r: "find_next_open ev1 (cur_node ev1) = Some (Inr r)"
    "open_result (nodes ev1) (cur_node ev1) (length (nodes ev1)) r" by auto
  have "\<not> length (nodes ev1) \<le> cur_node ev1" using cur by simp
  then show ?thesis using f r cur
    unfolding get_node_def Let_def ev1_def [symmetric] node_by_id_def node_by_name_def
    by (auto simp: ev_frame_def open_result_def dest!: node_index_Some split: option.splits)
qed

section \<open>Evaluation\<close>

definition node_same :: "node_descriptor \<Rightarrow> node_descriptor \<Rightarrow> bool" where
  "node_same n m \<longleftrightarrow> h_uid m = h_uid n \<and> nd_host_name m = nd_host_name n \<and> num_cpus m = num_cpus n \<and>
     cpu_devices m = cpu_devices n \<and> accelerators m = accelerators n"

definition load :: "int \<Rightarrow> node_descriptor list \<Rightarrow> int" where
  "load u ns = sum_list (map num_policies (filter (\<lambda>n. h_uid n = u) ns))"

definition layouts_on :: "int \<Rightarrow> resource_layout list \<Rightarrow> int" where
  "layouts_on u ls = int (length (filter (\<lambda>l. rl_h_uid l = u) ls))"

text \<open>What a layout says of its policy, merged with the default, and of the node it is on.\<close>

definition layout_for :: "policy option \<Rightarrow> node_descriptor list \<Rightarrow> policy \<Rightarrow> resource_layout \<Rightarrow> bool" where
  "layout_for dp ns p l \<longleftrightarrow> (\<exists>q. merge dp p = Inr q \<and> (\<exists>n \<in> set ns.
     rl_h_uid l = h_uid n \<and> rl_host_name l = nd_host_name n \<and>
     (placement q = HOST_ID \<longrightarrow> h_uid n = host_id q) \<and>
     (placement q = HOST_NAME \<longrightarrow> nd_host_name n = host_name q) \<and>
     node_specified l = (placement q \<in> {HOST_ID, HOST_NAME}) \<and>
     get_cpu_affinity q n = Inr (cpu_core l) \<and> get_gpu_affinity q n = Inr (gpu_core l)))"

lemma load_bump:
  "i < length ns \<Longrightarrow>
   load u (ns[i := (ns ! i)\<lparr>num_policies := num_policies (ns ! i) + 1\<rparr>]) =
   load u ns + (if h_uid (ns ! i) = u then 1 else 0)"
proof (induction ns arbitrary: i)
  case (Cons n ns)
  then show ?case by (cases i) (simp_all add: load_def)
qed simp

lemma layouts_on_append: "layouts_on u (ls @ [l]) = layouts_on u ls + (if rl_h_uid l = u then 1 else 0)"
  by (simp add: layouts_on_def)

lemma node_same_refl: "list_all2 node_same ns ns"
  by (simp add: list_all2_conv_all_nth node_same_def)

lemma node_same_trans: "list_all2 node_same ns ms \<Longrightarrow> list_all2 node_same ms ks \<Longrightarrow> list_all2 node_same ns ks"
  by (rule list_all2_trans [of node_same node_same node_same]) (auto simp: node_same_def)

lemma node_same_bump:
  "i < length ns \<Longrightarrow> list_all2 node_same ns (ns[i := (ns ! i)\<lparr>num_policies := k\<rparr>])"
  by (simp add: list_all2_conv_all_nth node_same_def nth_list_update)

lemma layout_for_same:
  assumes "list_all2 node_same ns ms" "layout_for dp ms p l"
  shows "layout_for dp ns p l"
proof -
  obtain q m where q: "merge dp p = Inr q" "m \<in> set ms" "rl_h_uid l = h_uid m" "rl_host_name l = nd_host_name m"
    "placement q = HOST_ID \<longrightarrow> h_uid m = host_id q" "placement q = HOST_NAME \<longrightarrow> nd_host_name m = host_name q"
    "node_specified l = (placement q \<in> {HOST_ID, HOST_NAME})"
    "get_cpu_affinity q m = Inr (cpu_core l)" "get_gpu_affinity q m = Inr (gpu_core l)"
    using assms(2) by (auto simp: layout_for_def)
  obtain n where n: "n \<in> set ns" "node_same n m"
    using assms(1) q(2) by (metis in_set_conv_nth list_all2_conv_all_nth)
  have "get_cpu_affinity q n = get_cpu_affinity q m" "get_gpu_affinity q n = get_gpu_affinity q m"
    using n(2) by (auto simp: node_same_def get_cpu_affinity_def get_gpu_affinity_def split: affinity.splits)
  then show ?thesis using q n by (auto simp: layout_for_def node_same_def)
qed

text \<open>The node \<open>_get_node\<close> chooses is the one the policy names, if it names one.\<close>

lemma get_node_named:
  assumes "get_node p ev = Some (Inr (b, i), ev')"
  shows "b = (placement p \<in> {HOST_ID, HOST_NAME}) \<and> (placement p = HOST_ID \<longrightarrow> h_uid (nodes ev ! i) = host_id p) \<and>
     (placement p = HOST_NAME \<longrightarrow> nd_host_name (nodes ev ! i) = host_name p)"
  using assms unfolding get_node_def Let_def node_by_id_def node_by_name_def
  by (auto dest!: node_index_Some split: if_splits option.splits sum.splits)

definition placed_one :: "policy \<Rightarrow> resource_layout list \<Rightarrow> evaluator \<Rightarrow> resource_layout list \<Rightarrow> evaluator \<Rightarrow> bool" where
  "placed_one p ls ev ls' ev' \<longleftrightarrow> (\<exists>l. ls' = ls @ [l] \<and> layout_for (ev_default ev) (nodes ev) p l \<and>
     (\<forall>u. load u (nodes ev') = load u (nodes ev) + (if rl_h_uid l = u then 1 else 0)))"

lemma eval_one_cases:
  assumes "ev_ok ev"
  shows "\<exists>r ev'. eval_one p ls ev = Some (r, ev') \<and> ev_ok ev' \<and> ev_default ev' = ev_default ev \<and>
    list_all2 node_same (nodes ev) (nodes ev') \<and> (\<forall>ls'. r = Inr ls' \<longrightarrow> placed_one p ls ev ls' ev')"
proof (cases "merge (ev_default ev) p")
  case (Inl e)
  then show ?thesis using assms by (simp add: eval_one_def node_same_refl)
next
  case m: (Inr q)
  obtain r1 ev1 where g: "get_node q ev = Some (r1, ev1)" "ev_frame ev ev1"
    "\<forall>b i. r1 = Inr (b, i) \<longrightarrow> i < length (nodes ev)"
    using get_node_returns [OF assms] by blast
  have ok1: "ev_ok ev1" and n1: "nodes ev1 = nodes ev" "ev_default ev1 = ev_default ev"
    using g(2) assms by (auto simp: ev_frame_def ev_ok_def)
  show ?thesis
  proof (cases r1)
    case (Inl e)
    then show ?thesis using g m ok1 n1 by (simp add: eval_one_def node_same_refl)
  next
    case (Inr bi)
    obtain b i where bi: "bi = (b, i)" by (cases bi)
    have i: "i < length (nodes ev)" using g Inr bi by auto
    show ?thesis
    proof (cases "get_cpu_affinity q (nodes ev ! i)")
      case (Inl e)
      then show ?thesis using g(1) m \<open>r1 = Inr bi\<close> bi ok1 n1 by (simp add: eval_one_def node_same_refl)
    next
      case cpu: (Inr cpus)
      show ?thesis
      proof (cases "get_gpu_affinity q (nodes ev ! i)")
        case (Inl e)
        then show ?thesis using g(1) m \<open>r1 = Inr bi\<close> bi ok1 n1 cpu by (simp add: eval_one_def node_same_refl)
      next
        case gpu: (Inr gpus)
        show ?thesis
        proof (cases "layout_env gpus (nodes ev ! i)")
          case (Inl e)
          then show ?thesis using g(1) m \<open>r1 = Inr bi\<close> bi ok1 n1 cpu gpu by (simp add: eval_one_def node_same_refl)
        next
          case env: (Inr env)
          let ?n = "nodes ev ! i"
          let ?l = "\<lparr>rl_h_uid = h_uid ?n, rl_host_name = nd_host_name ?n, node_specified = b, numa_node = 0,
            cpu_core = cpus, gpu_core = gpus, accelerator_env = env\<rparr>"
          let ?ev = "ev1\<lparr>nodes := (nodes ev)[i := ?n\<lparr>num_policies := num_policies ?n + 1\<rparr>]\<rparr>"
          have "eval_one p ls ev = Some (Inr (ls @ [?l]), ?ev)"
            using g(1) m \<open>r1 = Inr bi\<close> bi n1 cpu gpu env by (simp add: eval_one_def add_layout_def Let_def)
          moreover have "layout_for (ev_default ev) (nodes ev) p ?l"
            unfolding layout_for_def
            using get_node_named [OF g(1) [unfolded \<open>r1 = Inr bi\<close> bi]] m cpu gpu nth_mem [OF i]
            by (intro exI [of _ q] conjI bexI [of _ ?n]) simp_all
          moreover have "ev_ok ?ev" using ok1 n1 by (simp add: ev_ok_def)
          ultimately show ?thesis using i n1 by (simp add: placed_one_def load_bump node_same_bump eq_commute)
        qed
      qed
    qed
  qed
qed

definition placed_all :: "policy list \<Rightarrow> resource_layout list \<Rightarrow> evaluator \<Rightarrow> resource_layout list \<Rightarrow> evaluator \<Rightarrow> bool" where
  "placed_all ps ls ev ls' ev' \<longleftrightarrow> (\<exists>new. ls' = ls @ new \<and> list_all2 (layout_for (ev_default ev) (nodes ev)) ps new \<and>
     (\<forall>u. load u (nodes ev') = load u (nodes ev) + layouts_on u new))"

lemma placed_all_Cons:
  assumes "placed_one p ls ev ls1 ev1" "placed_all ps ls1 ev1 ls2 ev2"
    "list_all2 node_same (nodes ev) (nodes ev1)" "ev_default ev1 = ev_default ev"
  shows "placed_all (p # ps) ls ev ls2 ev2"
proof -
  obtain l where l: "ls1 = ls @ [l]" "layout_for (ev_default ev) (nodes ev) p l"
    "\<And>u. load u (nodes ev1) = load u (nodes ev) + (if rl_h_uid l = u then 1 else 0)"
    using assms(1) by (auto simp: placed_one_def)
  obtain new where new: "ls2 = ls1 @ new" "list_all2 (layout_for (ev_default ev) (nodes ev1)) ps new"
    "\<And>u. load u (nodes ev2) = load u (nodes ev1) + layouts_on u new"
    using assms(2,4) by (auto simp: placed_all_def)
  have "list_all2 (layout_for (ev_default ev) (nodes ev)) ps new"
    using new(2) layout_for_same [OF assms(3)] by (auto elim: list_all2_mono)
  then show ?thesis using l new by (auto simp: placed_all_def layouts_on_def intro!: exI [of _ "l # new"])
qed

lemma eval_loop_cases:
  assumes "ev_ok ev"
  shows "\<exists>r ev'. eval_loop ps ls ev = Some (r, ev') \<and> ev_ok ev' \<and> (\<forall>ls'. r = Inr ls' \<longrightarrow> placed_all ps ls ev ls' ev')"
  using assms
proof (induction ps arbitrary: ls ev)
  case Nil
  then show ?case by (simp add: placed_all_def layouts_on_def)
next
  case (Cons p ps)
  obtain r1 ev1 where one: "eval_one p ls ev = Some (r1, ev1)" "ev_ok ev1" "ev_default ev1 = ev_default ev"
    "list_all2 node_same (nodes ev) (nodes ev1)" "\<forall>ls'. r1 = Inr ls' \<longrightarrow> placed_one p ls ev ls' ev1"
    using eval_one_cases [OF Cons.prems] by blast
  show ?case
  proof (cases r1)
    case (Inl e)
    with one show ?thesis by simp
  next
    case (Inr ls1)
    obtain r2 ev2 where two: "eval_loop ps ls1 ev1 = Some (r2, ev2)" "ev_ok ev2"
      "\<forall>ls'. r2 = Inr ls' \<longrightarrow> placed_all ps ls1 ev1 ls' ev2"
      using Cons.IH [OF one(2)] by blast
    then have "\<forall>ls'. r2 = Inr ls' \<longrightarrow> placed_all (p # ps) ls ev ls' ev2"
      using one Inr by (auto intro: placed_all_Cons)
    with one two Inr show ?thesis by simp
  qed
qed

text \<open>C15: Evaluating any list of policies on an evaluator with at least one node returns (the
  cyclic search for an open node always comes back).  When it does not raise it yields one layout per
  policy, in order: on the node the merged policy names if it names one, with the cores and
  accelerators of that node which its affinities ask for; and the load of every node grows by
  exactly the number of layouts that are on it.\<close>

theorem evaluate_returns:
  assumes "ns \<noteq> []"
  shows "\<exists>r ev'. evaluate ps (make_evaluator ns dp) = Some (r, ev') \<and>
    (\<forall>ls. r = Inr ls \<longrightarrow> list_all2 (layout_for dp ns) ps ls \<and>
       (\<forall>u. load u (nodes ev') = load u ns + layouts_on u ls))"
proof -
  have "ev_ok (make_evaluator ns dp)" using assms by (simp add: make_evaluator_def ev_ok_def)
  from eval_loop_cases [OF this, of ps "[]"] show ?thesis
    unfolding evaluate_def by (fastforce simp: placed_all_def make_evaluator_def)
qed

definition demo_nodes :: "node_descriptor list" where
  "demo_nodes = map (\<lambda>i. \<lparr>h_uid = i, nd_host_name = ''n'', num_cpus = 1, cpu_devices = Some [0, 1],
     accelerators = None, num_policies = 0\<rparr>) [10, 11, 12]"

theorem evaluate_returns_witness:
  "\<exists>r ev'. evaluate [default_policy] (make_evaluator demo_nodes (Some default_policy)) = Some (r, ev') \<and>
    (\<forall>ls. r = Inr ls \<longrightarrow> list_all2 (layout_for (Some default_policy) demo_nodes) [default_policy] ls \<and>
       (\<forall>u. load u (nodes ev') = load u demo_nodes + layouts_on u ls))"
  by (rule evaluate_returns) (simp add: demo_nodes_def)

subsection \<open>Round robin\<close>

text \<open>A policy that, merged with the default, is distributed round robin and constrains nothing
  that could raise.\<close>

definition rr_policy :: "policy \<Rightarrow> policy \<Rightarrow> bool" where
  "rr_policy dp p \<longleftrightarrow> (let q = overlay dp p in
     placement q \<noteq> HOST_ID \<and> placement q \<noteq> HOST_NAME \<and> distribution q \<noteq> BLOCK \<and>
     cpu_affinity q \<noteq> AffOther True \<and> gpu_affinity q \<noteq> AffOther True)"

definition norm_cur :: "evaluator \<Rightarrow> nat" where
  "norm_cur ev = (if num_nodes ev \<le> cur_node ev then 0 else cur_node ev)"

lemma affinities_ok:
  assumes "cpu_affinity q \<noteq> AffOther True" "gpu_affinity q \<noteq> AffOther True" "cpu_devices n \<noteq> None"
  shows "\<exists>cpus gpus env. get_cpu_affinity q n = Inr cpus \<and> get_gpu_affinity q n = Inr gpus \<and>
           layout_env gpus n = Inr env"
  using assms
  by (auto simp: get_cpu_affinity_def get_gpu_affinity_def layout_env_def
      split: affinity.splits option.splits)

lemma eval_one_rr:
  assumes ok: "ev_ok ev" and dp: "ev_default ev = Some dp" and p: "rr_policy dp p"
    and dev: "\<forall>n \<in> set (nodes ev). cpu_devices n \<noteq> None"
  shows "\<exists>l ev'. eval_one p ls ev = Some (Inr (ls @ [l]), ev') \<and>
           rl_h_uid l = h_uid (nodes ev ! norm_cur ev) \<and> ev_ok ev' \<and> ev_default ev' = Some dp \<and>
           list_all2 node_same (nodes ev) (nodes ev') \<and>
           norm_cur ev' = (norm_cur ev + 1) mod length (nodes ev)"
proof -
  let ?q = "overlay dp p" and ?i = "norm_cur ev"
  define ev1 where "ev1 = ev\<lparr>cur_node := ?i + 1\<rparr>"
  have i: "?i < length (nodes ev)" using ok by (auto simp: norm_cur_def ev_ok_def)
  have d: "distribution ?q = ROUNDROBIN \<or> distribution ?q = DISTRIBUTION_DEFAULT"
    using p by (cases "distribution ?q") (auto simp: rr_policy_def Let_def)
  have g: "get_node ?q ev = Some (Inr (False, ?i), ev1)"
    using p i ok d by (auto simp: get_node_def Let_def rr_policy_def norm_cur_def ev1_def ev_ok_def)
  have n1: "nodes ev1 = nodes ev" by (simp add: ev1_def)
  obtain cpus gpus env where
    a: "get_cpu_affinity ?q (nodes ev ! ?i) = Inr cpus"
    "get_gpu_affinity ?q (nodes ev ! ?i) = Inr gpus" "layout_env gpus (nodes ev ! ?i) = Inr env"
    using affinities_ok [of ?q "nodes ev ! ?i"] p dev i by (auto simp: rr_policy_def Let_def)
  obtain l ev2 where add: "add_layout ?i False cpus gpus env ls ev1 = (ls @ [l], ev2)"
    and l: "rl_h_uid l = h_uid (nodes ev ! ?i)"
    and ev2: "ev2 = ev1\<lparr>nodes := (nodes ev)[?i := (nodes ev ! ?i)\<lparr>num_policies := num_policies (nodes ev ! ?i) + 1\<rparr>]\<rparr>"
    by (simp add: add_layout_def Let_def n1)
  have same: "list_all2 node_same (nodes ev) (nodes ev2)"
    using i by (auto simp: ev2 list_all2_conv_all_nth nth_list_update node_same_def)
  have cur: "norm_cur ev2 = (?i + 1) mod length (nodes ev)"
    using i ok ring_next [OF i] by (auto simp: ev2 norm_cur_def ev1_def ev_ok_def)
  have "eval_one p ls ev = Some (Inr (ls @ [l]), ev2)"
    using dp g a add by (simp add: eval_one_def merge_overlay n1)
  moreover have "ev_ok ev2" "ev_default ev2 = Some dp"
    using ok dp by (auto simp: ev2 ev1_def ev_ok_def)
  ultimately show ?thesis using l same cur by blast
qed

lemma node_same_h_uid: "list_all2 node_same ns ms \<Longrightarrow> i < length ns \<Longrightarrow> h_uid (ms ! i) = h_uid (ns ! i)"
  by (auto simp: list_all2_conv_all_nth node_same_def)

lemma node_same_devices:
  "list_all2 node_same ns ms \<Longrightarrow> \<forall>n \<in> set ns. cpu_devices n \<noteq> None \<Longrightarrow>
   \<forall>n \<in> set ms. cpu_devices n \<noteq> None"
  by (fastforce simp: list_all2_conv_all_nth in_set_conv_nth node_same_def)

lemma eval_loop_rr:
  assumes "ev_ok ev" "ev_default ev = Some dp" "\<forall>p \<in> set ps. rr_policy dp p"
    "\<forall>n \<in> set (nodes ev). cpu_devices n \<noteq> None"
  shows "\<exists>new ev'. eval_loop ps ls ev = Some (Inr (ls @ new), ev') \<and> length new = length ps \<and>
    (\<forall>k < length ps.
       rl_h_uid (new ! k) = h_uid (nodes ev ! ((norm_cur ev + k) mod length (nodes ev))))"
  using assms
proof (induction ps arbitrary: ls ev)
  case Nil
  then show ?case by simp
next
  case (Cons p ps)
  obtain l ev1 where one: "eval_one p ls ev = Some (Inr (ls @ [l]), ev1)"
    "rl_h_uid l = h_uid (nodes ev ! norm_cur ev)" "ev_ok ev1" "ev_default ev1 = Some dp"
    "list_all2 node_same (nodes ev) (nodes ev1)"
    "norm_cur ev1 = (norm_cur ev + 1) mod length (nodes ev)"
    using eval_one_rr [OF Cons.prems(1,2) _ Cons.prems(4), of p ls] Cons.prems(3) by auto
  let ?n = "length (nodes ev)"
  have n: "length (nodes ev1) = ?n" "0 < ?n"
    using one(5) Cons.prems(1) by (auto dest: list_all2_lengthD simp: ev_ok_def)
  obtain new ev2 where rest: "eval_loop ps (ls @ [l]) ev1 = Some (Inr ((ls @ [l]) @ new), ev2)"
    "length new = length ps"
    "\<forall>k < length ps. rl_h_uid (new ! k) = h_uid (nodes ev1 ! ((norm_cur ev1 + k) mod ?n))"
    using Cons.IH [OF one(3,4) _ node_same_devices [OF one(5) Cons.prems(4)], of "ls @ [l]"]
      Cons.prems(3) n by auto
  have cur: "norm_cur ev < ?n" using Cons.prems(1) by (auto simp: norm_cur_def ev_ok_def)
  have "rl_h_uid ((l # new) ! k) = h_uid (nodes ev ! ((norm_cur ev + k) mod ?n))"
    if k: "k < length (p # ps)" for k
  proof (cases k)
    case 0
    then show ?thesis using one(2) cur by simp
  next
    case (Suc k')
    have m: "(norm_cur ev1 + k') mod ?n = (norm_cur ev + k) mod ?n"
      using one(6) Suc by (simp add: mod_add_left_eq)
    have "(norm_cur ev + k) mod ?n < ?n" using n by simp
    then show ?thesis using rest(3) k Suc m node_same_h_uid [OF one(5)] by simp
  qed
  with one(1) rest(1,2) show ?case by (intro exI [of _ "l # new"]) auto
qed

text \<open>Round robin: on a fresh evaluator over \<open>n\<close> nodes, the \<open>k\<close>-th of a list of policies
  that (merged with the default policy) name no host and are not distributed by block is placed on
  node \<open>k mod n\<close>.\<close>

lemma evaluate_round_robin:
  assumes "ns \<noteq> []" "\<forall>p \<in> set ps. rr_policy dp p" "\<forall>n \<in> set ns. cpu_devices n \<noteq> None"
  shows "\<exists>ls ev'. evaluate ps (make_evaluator ns (Some dp)) = Some (Inr ls, ev') \<and>
    length ls = length ps \<and>
    (\<forall>k < length ps. rl_h_uid (ls ! k) = h_uid (ns ! (k mod length ns)))"
  using eval_loop_rr [of "make_evaluator ns (Some dp)" dp ps "[]"] assms
  by (simp add: evaluate_def make_evaluator_def ev_ok_def norm_cur_def)

subsection \<open>Block distribution and named hosts\<close>

text \<open>Block distribution never overfills: as long as the evaluator is not overprovisioning and
  some node has a free slot, a policy distributed by block goes to a node with a free slot and the
  evaluator stays out of overprovisioning; when no node has one, it starts overprovisioning.\<close>

lemma block_prefers_open_node:
  assumes "ev_ok ev" "\<not> overprovision ev" "distribution p = BLOCK"
    "placement p \<noteq> HOST_ID" "placement p \<noteq> HOST_NAME"
  shows "\<exists>i ev'. get_node p ev = Some (Inr (False, i), ev') \<and> i < length (nodes ev) \<and>
     (if \<exists>n \<in> set (nodes ev). has_slot n
      then has_slot (nodes ev ! i) \<and> \<not> overprovision ev' else overprovision ev')"
proof -
  define ev1 where "ev1 = (if num_nodes ev \<le> cur_node ev then ev\<lparr>cur_node := 0\<rparr> else ev)"
  have n1: "nodes ev1 = nodes ev" "overprovision ev1 = overprovision ev" "ev_ok ev1"
    and cur: "cur_node ev1 < length (nodes ev1)"
    using assms by (auto simp: ev1_def ev_ok_def)
  obtain r where r: "find_next_open ev1 (cur_node ev1) = Some (Inr r)"
    "open_result (nodes ev1) (cur_node ev1) (length (nodes ev1)) r"
    using find_next_open_returns [OF n1(3) cur] by blast
  have none: "\<not> has_slot n"
    if r0: "r = None" and mem: "n \<in> set (nodes ev)" and full: "\<not> has_slot (nodes ev ! cur_node ev1)" for n
  proof -
    obtain j where j: "j < length (nodes ev)" "n = nodes ev ! j"
      using mem by (auto simp: in_set_conv_nth)
    have "ring_dist (length (nodes ev)) (cur_node ev1) j \<le> length (nodes ev)"
      using ring_dist_lt [of "cur_node ev1" "length (nodes ev)" j] j cur n1 by simp
    then show ?thesis using r(2) r0 full j n1 by (cases "j = cur_node ev1") (auto simp: open_result_def)
  qed
  have unfolded: "get_node p ev =
     (if \<not> has_slot (nodes ev ! cur_node ev1) then
        (case r of
           None \<Rightarrow> Some (Inr (False, cur_node ev1), ev1\<lparr>overprovision := True, cur_node := cur_node ev1 + 1\<rparr>)
         | Some i \<Rightarrow> Some (Inr (False, i), ev1))
      else Some (Inr (False, cur_node ev1), ev1))"
    using assms cur n1 r(1) unfolding get_node_def Let_def ev1_def [symmetric]
    by (simp split: option.splits)
  show ?thesis
  proof (cases "has_slot (nodes ev ! cur_node ev1)")
    case True
    then have "\<exists>n \<in> set (nodes ev). has_slot n" using cur n1 nth_mem by metis
    with True unfolded cur n1 assms(2) show ?thesis by simp
  next
    case False
    show ?thesis
    proof (cases r)
      case None
      then have "\<not> (\<exists>n \<in> set (nodes ev). has_slot n)" using none False by blast
      with None False unfolded cur n1 show ?thesis by simp
    next
      case (Some i)
      then have i: "i < length (nodes ev)" "has_slot (nodes ev ! i)"
        using r(2) n1 by (auto simp: open_result_def)
      then have "\<exists>n \<in> set (nodes ev). has_slot n" using nth_mem by blast
      with Some False unfolded i n1 assms(2) show ?thesis by simp
    qed
  qed
qed

definition block_policy :: policy where
  "block_policy = default_policy\<lparr>distribution := BLOCK\<rparr>"

text \<open>Placement by host id goes to the first node with that id, whatever its load, and raises
  \<open>ValueError\<close> exactly when no node has it; the nodes are not changed by the lookup.\<close>

lemma host_id_placement:
  assumes "placement p = HOST_ID"
  shows "\<exists>r ev'. get_node p ev = Some (r, ev') \<and> nodes ev' = nodes ev \<and>
    (if \<exists>n \<in> set (nodes ev). h_uid n = host_id p
     then \<exists>i. r = Inr (True, i) \<and> i < length (nodes ev) \<and> h_uid (nodes ev ! i) = host_id p \<and>
            (\<forall>j < i. h_uid (nodes ev ! j) \<noteq> host_id p)
     else r = Inl ValueError)"
proof (cases "node_index (\<lambda>n. h_uid n = host_id p) (nodes ev)")
  case None
  then have "\<forall>n \<in> set (nodes ev). h_uid n \<noteq> host_id p" by (simp add: node_index_None)
  with None assms show ?thesis by (simp add: get_node_def Let_def node_by_id_def)
next
  case (Some i)
  then have "i < length (nodes ev)" "h_uid (nodes ev ! i) = host_id p"
    "\<forall>j < i. h_uid (nodes ev ! j) \<noteq> host_id p"
    using node_index_Some [OF Some] by auto
  moreover from this have "\<exists>n \<in> set (nodes ev). h_uid n = host_id p"
    using nth_mem by blast
  ultimately show ?thesis using assms Some
    by (simp add: get_node_def Let_def node_by_id_def)
qed

definition host_policy :: policy where
  "host_policy = default_policy\<lparr>placement := HOST_ID, host_id := 12\<rparr>"

end
