(* ===== verification/Memory.thy ===== *)
theory Memory
  imports Prelude
begin

text \<open>
  Managed-memory handles as the dictionary manager uses them (\<open>pydragon_managed_memory.pyx\<close>, class
  \<open>MemoryAlloc\<close>), and the Python dictionaries and sets keyed by them.  A handle has an identity (its
  pool and its id in the pool) and contents that the manager never writes in place.  Hashing and
  \<open>==\<close> compare contents, \<open>is_the_same_as\<close> compares identity.  A dictionary keyed by handles is
  therefore looked up by contents, but it keeps the handle object that was inserted first, and
  that object is what iteration over its keys yields.
\<close>

type_synonym bytes = string

record alloc =
  al_muid :: nat
  al_id :: nat
  al_bytes :: bytes

definition is_the_same_as :: "alloc \<Rightarrow> alloc \<Rightarrow> bool" where
  "is_the_same_as a b = (al_muid a = al_muid b \<and> al_id a = al_id b)"

section \<open>Dictionaries keyed by handles\<close>

type_synonym 'v kdict = "(alloc \<times> 'v) list"

fun kd_get :: "bytes \<Rightarrow> 'v kdict \<Rightarrow> 'v option" where
  "kd_get b [] = None"
| "kd_get b ((k, v) # d) = (if al_bytes k = b then Some v else kd_get b d)"

text \<open>\<open>d[k] = v\<close>: an entry with equal contents keeps its key object.\<close>

fun kd_set :: "alloc \<Rightarrow> 'v \<Rightarrow> 'v kdict \<Rightarrow> 'v kdict" where
  "kd_set k v [] = [(k, v)]"
| "kd_set k v ((k', v') # d) =
     (if al_bytes k' = al_bytes k then (k', v) # d else (k', v') # kd_set k v d)"

definition kd_del :: "bytes \<Rightarrow> 'v kdict \<Rightarrow> 'v kdict" where
  "kd_del b d = filter (\<lambda>(k, v). al_bytes k \<noteq> b) d"

definition kd_mem :: "bytes \<Rightarrow> 'v kdict \<Rightarrow> bool" where
  "kd_mem b d = (kd_get b d \<noteq> None)"

definition kd_keys :: "'v kdict \<Rightarrow> alloc list" where
  "kd_keys d = map fst d"

definition kd_item :: "bytes \<Rightarrow> 'v kdict \<Rightarrow> 'v res" where
  "kd_item b d = (case kd_get b d of None \<Rightarrow> Inl KeyError | Some v \<Rightarrow> Inr v)"

text \<open>No two entries have keys with equal contents.\<close>

definition kd_ok :: "'v kdict \<Rightarrow> bool" where
  "kd_ok d = distinct (map (\<lambda>e. al_bytes (fst e)) d)"

section \<open>Sets of handles\<close>

text \<open>A Python set of handles as the list of its elements, no two with equal contents; adding an
  element that is already there keeps the old object.\<close>

type_synonym kset = "alloc list"

definition ks_mem :: "bytes \<Rightarrow> kset \<Rightarrow> bool" where
  "ks_mem b xs = list_ex (\<lambda>x. al_bytes x = b) xs"

definition ks_add :: "alloc \<Rightarrow> kset \<Rightarrow> kset" where
  "ks_add k xs = (if ks_mem (al_bytes k) xs then xs else xs @ [k])"

definition ks_discard :: "bytes \<Rightarrow> kset \<Rightarrow> kset" where
  "ks_discard b xs = filter (\<lambda>x. al_bytes x \<noteq> b) xs"

definition ks_remove :: "bytes \<Rightarrow> kset \<Rightarrow> kset res" where
  "ks_remove b xs = (if ks_mem b xs then Inr (ks_discard b xs) else Inl KeyError)"

definition ks_minus :: "kset \<Rightarrow> kset \<Rightarrow> kset" where
  "ks_minus xs ys = filter (\<lambda>x. \<not> ks_mem (al_bytes x) ys) xs"

definition ks_union :: "kset \<Rightarrow> kset \<Rightarrow> kset" where
  "ks_union xs ys = fold ks_add ys xs"

definition ks_ok :: "kset \<Rightarrow> bool" where
  "ks_ok xs = distinct (map al_bytes xs)"

definition ks_contents :: "kset \<Rightarrow> bytes set" where
  "ks_contents xs = al_bytes ` set xs"

section \<open>The dictionary interface\<close>

text \<open>What the code relies on of a dictionary keyed by handles, whatever implements it.\<close>

locale handle_dict =
  fixes look :: "bytes \<Rightarrow> 'd \<Rightarrow> 'v option"
    and store :: "alloc \<Rightarrow> 'v \<Rightarrow> 'd \<Rightarrow> 'd"
    and remove :: "bytes \<Rightarrow> 'd \<Rightarrow> 'd"
    and ok :: "'d \<Rightarrow> bool"
  assumes look_store: "look b (store k v d) = (if b = al_bytes k then Some v else look b d)"
    and look_remove: "look b (remove c d) = (if b = c then None else look b d)"
    and ok_store: "ok d \<Longrightarrow> ok (store k v d)"
    and ok_remove: "ok d \<Longrightarrow> ok (remove c d)"
begin

lemma look_store_same: "look (al_bytes k) (store k v d) = Some v"
  by (simp add: look_store)

lemma look_store_other: "b \<noteq> al_bytes k \<Longrightarrow> look b (store k v d) = look b d"
  by (simp add: look_store)

text \<open>A loop \<open>for k, v in entries: d[k] = v\<close>: the last entry for a key wins, other keys keep
  what they had.\<close>

lemma look_store_loop:
  "look b (foldl (\<lambda>d (k, v). store k v d) d es) =
     (case map_of (rev (map (\<lambda>(k, v). (al_bytes k, v)) es)) b of Some v \<Rightarrow> Some v | None \<Rightarrow> look b d)"
proof (induction es arbitrary: d)
  case Nil
  then show ?case by simp
next
  case (Cons e es)
  then show ?case
    by (cases e) (auto simp: look_store map_add_def split: option.splits)
qed

lemma ok_store_loop: "ok d \<Longrightarrow> ok (foldl (\<lambda>d (k, v). store k v d) d es)"
  by (induction es arbitrary: d) (auto intro: ok_store)

end

lemma kd_get_set [dict_simps, simp]:
  "kd_get b (kd_set k v d) = (if b = al_bytes k then Some v else kd_get b d)"
  by (induction d) auto

lemma kd_get_del [dict_simps, simp]: "kd_get b (kd_del c d) = (if b = c then None else kd_get b d)"
  by (induction d) (auto simp: kd_del_def)

lemma kd_get_None: "kd_get b d = None \<longleftrightarrow> b \<notin> (\<lambda>e. al_bytes (fst e)) ` set d"
  by (induction d) (auto split: if_splits)

lemma kd_set_contents:
  "map (\<lambda>e. al_bytes (fst e)) (kd_set k v d) =
     map (\<lambda>e. al_bytes (fst e)) d @ (if kd_get (al_bytes k) d = None then [al_bytes k] else [])"
  by (induction d) (auto split: if_splits)

lemma kd_ok_set [intro, simp]: "kd_ok d \<Longrightarrow> kd_ok (kd_set k v d)"
  by (auto simp: kd_ok_def kd_set_contents kd_get_None)

lemma kd_ok_del [intro, simp]: "kd_ok d \<Longrightarrow> kd_ok (kd_del b d)"
  by (induction d) (auto simp: kd_ok_def kd_del_def)

lemma kd_ok_Nil [simp]: "kd_ok []"
  by (simp add: kd_ok_def)

interpretation kd: handle_dict kd_get kd_set kd_del kd_ok
  by unfold_locales auto

lemma kd_mem_iff: "kd_mem b d \<longleftrightarrow> b \<in> (\<lambda>e. al_bytes (fst e)) ` set d"
  using kd_get_None [of b d] by (auto simp: kd_mem_def)

lemma kd_mem_keys: "kd_mem b d \<longleftrightarrow> (\<exists>k \<in> set (kd_keys d). al_bytes k = b)"
  by (auto simp: kd_mem_iff kd_keys_def image_iff)

lemma kd_get_in_set: "kd_get b d = Some v \<Longrightarrow> \<exists>k. (k, v) \<in> set d \<and> al_bytes k = b"
  by (induction d) (auto split: if_splits)

lemma kd_get_of_set: "kd_ok d \<Longrightarrow> (k, v) \<in> set d \<Longrightarrow> kd_get (al_bytes k) d = Some v"
  by (induction d) (force simp: kd_ok_def)+

lemma kd_set_keys: "kd_keys (kd_set k v d) = kd_keys d @ (if kd_mem (al_bytes k) d then [] else [k])"
  by (induction d) (auto simp: kd_keys_def kd_mem_def split: if_splits)

lemma kd_set_vals: "set (map snd (kd_set k v d)) \<subseteq> insert v (set (map snd d))"
proof (induction d)
  case (Cons e d)
  then show ?case by (cases e) auto
qed simp

lemma kd_del_subset: "set (kd_del b d) \<subseteq> set d"
  by (auto simp: kd_del_def)

lemma kd_item_iff [simp]: "kd_item b d = Inr v \<longleftrightarrow> kd_get b d = Some v"
  by (auto simp: kd_item_def split: option.splits)

lemma ks_mem_iff: "ks_mem b xs \<longleftrightarrow> b \<in> ks_contents xs"
  by (auto simp: ks_mem_def list_ex_iff ks_contents_def)

lemma ks_contents_simps [simp]:
  "ks_contents [] = {}"
  "ks_contents (ks_add k xs) = insert (al_bytes k) (ks_contents xs)"
  "ks_contents (ks_discard b xs) = ks_contents xs - {b}"
  "ks_contents (ks_minus xs ys) = ks_contents xs - ks_contents ys"
  by (auto simp: ks_add_def ks_mem_iff ks_discard_def ks_minus_def) (auto simp: ks_contents_def)

lemma ks_contents_union [simp]: "ks_contents (ks_union xs ys) = ks_contents xs \<union> ks_contents ys"
proof -
  have "ks_contents (fold ks_add ys xs) = ks_contents xs \<union> ks_contents ys"
  proof (induction ys arbitrary: xs)
    case (Cons y ys)
    have "ks_contents (y # ys) = insert (al_bytes y) (ks_contents ys)" by (simp add: ks_contents_def)
    with Cons show ?case by simp
  qed simp
  then show ?thesis by (simp add: ks_union_def)
qed

lemma ks_ok_add [intro, simp]: "ks_ok xs \<Longrightarrow> ks_ok (ks_add k xs)"
  by (auto simp: ks_ok_def ks_add_def ks_mem_def list_ex_iff)

lemma ks_ok_discard [intro, simp]: "ks_ok xs \<Longrightarrow> ks_ok (ks_discard b xs)"
  by (auto simp: ks_ok_def ks_discard_def distinct_map inj_on_def)

lemma ks_ok_minus [intro, simp]: "ks_ok xs \<Longrightarrow> ks_ok (ks_minus xs ys)"
  by (auto simp: ks_ok_def ks_minus_def distinct_map inj_on_def)

lemma ks_ok_union [intro, simp]: "ks_ok xs \<Longrightarrow> ks_ok (ks_union xs ys)"
proof -
  have "ks_ok xs \<Longrightarrow> ks_ok (fold ks_add ys xs)"
    by (induction ys arbitrary: xs) auto
  then show "ks_ok xs \<Longrightarrow> ks_ok (ks_union xs ys)" by (simp add: ks_union_def)
qed

lemma ks_ok_Nil [simp]: "ks_ok []"
  by (simp add: ks_ok_def)

text \<open>The number of elements of a set is the number of different contents.\<close>

lemma ks_ok_length: "ks_ok xs \<Longrightarrow> length xs = card (ks_contents xs)"
  using distinct_card [of "map al_bytes xs"] by (simp add: ks_ok_def ks_contents_def)

lemma ks_contents_kd_keys: "ks_contents (kd_keys d) = {b. kd_get b d \<noteq> None}"
  by (auto simp: ks_contents_def kd_keys_def kd_get_None image_iff)

end
