(* ===== verification/Checkpoint.thy ===== *)
theory Checkpoint
  imports Memory
begin

text \<open>
  The \<open>Checkpoint\<close> class of \<open>data/ddict/manager.py\<close>: one layer of the working set of a dictionary
  manager.  A value is a Python list of memory handles; the list object is shared (by a put
  operation and the layer it stored into, by a retiring layer and its child), so a layer holds a
  reference to it, and the lists themselves live in the manager's state.  The pickled form of a
  layer replaces every handle by its id; \<open>redirect\<close> turns ids back into handles of another pool.
\<close>

type_synonym lref = nat

record checkpoint =
  ck_id :: int
  ck_key_allocs :: "alloc kdict"
  ck_map :: "lref kdict"
  ck_deleted :: kset
  ck_persist :: kset
  ck_writers :: "int set"
  ck_kvs_to_clear :: kset
  ck_reattach :: "bool option"

definition new_checkpoint :: "int \<Rightarrow> checkpoint" where
  "new_checkpoint i = \<lparr>ck_id = i, ck_key_allocs = [], ck_map = [], ck_deleted = [], ck_persist = [],
     ck_writers = {}, ck_kvs_to_clear = [], ck_reattach = None\<rparr>"

text \<open>Return codes of the protocol (\<open>DragonError\<close>), as far as the manager uses them.\<close>

datatype derr =
    SUCCESS | KEY_NOT_FOUND | MEMORY_POOL_FULL | DDICT_CHECKPOINT_RETIRED | DDICT_FUTURE_CHECKPOINT
  | FAILURE | INVALID_OPERATION | DDICT_PERSIST_CHECKPOINT_UNAVAILABLE | EOT | OBJECT_DESTROYED
  | NO_MORE_KEYS | NOT_IMPLEMENTED | INVALID_ARGUMENT

definition contains_key :: "bytes \<Rightarrow> checkpoint \<Rightarrow> (derr \<times> alloc option) res" where
  "contains_key b ck =
     (if kd_mem b (ck_map ck) then
        (case kd_get b (ck_key_allocs ck) of None \<Rightarrow> Inl KeyError | Some k \<Rightarrow> Inr (SUCCESS, Some k))
      else Inr (KEY_NOT_FOUND, None))"

section \<open>Pickled layers\<close>

record pickled =
  pk_id :: int
  pk_key_allocs :: "(nat, nat) pydict"
  pk_map :: "(nat, nat list) pydict"
  pk_deleted :: "nat list"
  pk_persist :: "nat list"
  pk_writers :: "int set"
  pk_pool :: bool
  pk_reattach :: bool

definition id_set :: "kset \<Rightarrow> nat list" where
  "id_set xs = remdups (map al_id xs)"

text \<open>\<open>key_allocs_to_ids\<close> and \<open>map_to_ids\<close>; \<open>ls\<close> gives the contents of a list object.\<close>

definition key_allocs_to_ids :: "alloc kdict \<Rightarrow> (nat, nat) pydict" where
  "key_allocs_to_ids d = foldl (\<lambda>r (k, v). AList.update (al_id k) (al_id v) r) [] d"

definition map_to_ids :: "(lref \<Rightarrow> alloc list) \<Rightarrow> lref kdict \<Rightarrow> (nat, nat list) pydict" where
  "map_to_ids ls d = foldl (\<lambda>r (k, l). AList.update (al_id k) (map al_id (ls l)) r) [] d"

text \<open>\<open>__getstate__\<close>; \<open>mgr_reattach\<close> is the \<open>_reattach\<close> attribute of the manager.\<close>

definition effective_reattach :: "bool \<Rightarrow> checkpoint \<Rightarrow> bool" where
  "effective_reattach mgr_reattach ck =
     (case ck_reattach ck of None \<Rightarrow> mgr_reattach | Some r \<Rightarrow> r)"

definition getstate :: "bool \<Rightarrow> (lref \<Rightarrow> alloc list) \<Rightarrow> checkpoint \<Rightarrow> pickled" where
  "getstate mgr_reattach ls ck =
     \<lparr>pk_id = ck_id ck,
      pk_key_allocs = key_allocs_to_ids (ck_key_allocs ck),
      pk_map = map_to_ids ls (ck_map ck),
      pk_deleted = id_set (ck_deleted ck),
      pk_persist = id_set (ck_persist ck),
      pk_writers = ck_writers ck,
      pk_pool = effective_reattach mgr_reattach ck,
      pk_reattach = effective_reattach mgr_reattach ck\<rparr>"

text \<open>\<open>build_allocs\<close>: every key handle (the key objects of \<open>key_allocs\<close>) and every value handle,
  by id.\<close>

definition build_allocs ::
    "(lref \<Rightarrow> alloc list) \<Rightarrow> checkpoint \<Rightarrow> (nat, alloc) pydict \<Rightarrow> (nat, alloc) pydict" where
  "build_allocs ls ck allocs =
     (let a1 = foldl (\<lambda>r k. AList.update (al_id k) k r) allocs (kd_keys (ck_key_allocs ck))
      in foldl (\<lambda>r m. AList.update (al_id m) m r) a1 (concat (map (\<lambda>(k, l). ls l) (ck_map ck))))"

text \<open>\<open>redirect\<close> on an unpickled layer, whose dictionaries and sets still hold ids: a missing id is
  a \<open>KeyError\<close>.  The value lists it builds are returned as lists.\<close>

definition redirect_id :: "(nat, alloc) pydict \<Rightarrow> nat \<Rightarrow> alloc res" where
  "redirect_id indirect i = d_item i indirect"

fun redirect_list :: "(nat, alloc) pydict \<Rightarrow> nat list \<Rightarrow> alloc list res" where
  "redirect_list ind [] = Inr []"
| "redirect_list ind (i # is) =
     (case redirect_id ind i of Inl e \<Rightarrow> Inl e
      | Inr a \<Rightarrow> (case redirect_list ind is of Inl e \<Rightarrow> Inl e | Inr as \<Rightarrow> Inr (a # as)))"

fun redirect_map ::
    "(nat, alloc) pydict \<Rightarrow> (nat \<times> nat list) list \<Rightarrow> alloc list kdict \<Rightarrow> alloc list kdict res" where
  "redirect_map ind [] new = Inr new"
| "redirect_map ind ((k, is) # es) new =
     (case redirect_list ind is of Inl e \<Rightarrow> Inl e
      | Inr vs \<Rightarrow> (case redirect_id ind k of Inl e \<Rightarrow> Inl e
                  | Inr ka \<Rightarrow> redirect_map ind es (kd_set ka vs new)))"

fun redirect_keys ::
    "(nat, alloc) pydict \<Rightarrow> (nat \<times> nat) list \<Rightarrow> alloc kdict \<Rightarrow> alloc kdict res" where
  "redirect_keys ind [] new = Inr new"
| "redirect_keys ind ((k, v) # es) new =
     (case redirect_id ind k of Inl e \<Rightarrow> Inl e
      | Inr ka \<Rightarrow> (case redirect_id ind v of Inl e \<Rightarrow> Inl e
                  | Inr va \<Rightarrow> redirect_keys ind es (kd_set ka va new)))"

fun redirect_set :: "(nat, alloc) pydict \<Rightarrow> nat list \<Rightarrow> kset \<Rightarrow> kset res" where
  "redirect_set ind [] new = Inr new"
| "redirect_set ind (i # is) new =
     (case redirect_id ind i of Inl e \<Rightarrow> Inl e | Inr a \<Rightarrow> redirect_set ind is (ks_add a new))"

record redirected =
  rd_map :: "alloc list kdict"
  rd_key_allocs :: "alloc kdict"
  rd_deleted :: kset
  rd_persist :: kset

definition redirect :: "(nat, alloc) pydict \<Rightarrow> pickled \<Rightarrow> redirected res" where
  "redirect ind pk =
     (case redirect_map ind (pk_map pk) [] of Inl e \<Rightarrow> Inl e
      | Inr m \<Rightarrow> (case redirect_keys ind (pk_key_allocs pk) [] of Inl e \<Rightarrow> Inl e
      | Inr ka \<Rightarrow> (case redirect_set ind (pk_deleted pk) [] of Inl e \<Rightarrow> Inl e
      | Inr dl \<Rightarrow> (case redirect_set ind (pk_persist pk) [] of Inl e \<Rightarrow> Inl e
      | Inr ps \<Rightarrow> Inr \<lparr>rd_map = m, rd_key_allocs = ka, rd_deleted = dl, rd_persist = ps\<rparr>))))"

section \<open>Well-formed layers\<close>

text \<open>The dictionaries and sets are what Python dictionaries and sets are, and every key of the
  layer has its pool handle recorded.\<close>

definition ck_ok :: "checkpoint \<Rightarrow> bool" where
  "ck_ok ck \<longleftrightarrow> kd_ok (ck_map ck) \<and> kd_ok (ck_key_allocs ck) \<and> ks_ok (ck_deleted ck) \<and>
     ks_ok (ck_persist ck) \<and> (\<forall>b. kd_mem b (ck_map ck) \<longrightarrow> kd_mem b (ck_key_allocs ck))"

lemma ck_id_new [simp]: "ck_id (new_checkpoint i) = i"
  by (simp add: new_checkpoint_def)

lemma ck_ok_new [simp]: "ck_ok (new_checkpoint i)"
  by (simp add: ck_ok_def new_checkpoint_def kd_mem_def)

text \<open>What a layer says about a key: bound to a value, deleted, or nothing.\<close>

definition ck_entry :: "checkpoint \<Rightarrow> bytes \<Rightarrow> lref option option" where
  "ck_entry ck b = (case kd_get b (ck_map ck) of
      Some v \<Rightarrow> Some (Some v)
    | None \<Rightarrow> (if ks_mem b (ck_deleted ck) then Some None else None))"

lemma ck_entry_new [simp]: "ck_entry (new_checkpoint i) b = None"
  by (simp add: ck_entry_def new_checkpoint_def ks_mem_def)

lemma ck_entry_Some_Some [simp]: "ck_entry ck b = Some (Some v) \<longleftrightarrow> kd_get b (ck_map ck) = Some v"
  by (auto simp: ck_entry_def split: option.splits)

lemma contains_key_ok:
  "ck_ok ck \<Longrightarrow> contains_key b ck =
     (if kd_mem b (ck_map ck) then Inr (SUCCESS, kd_get b (ck_key_allocs ck)) else Inr (KEY_NOT_FOUND, None))"
  by (auto simp: ck_ok_def contains_key_def kd_mem_def split: option.splits)

end
