(* ===== verification/WorkingSet.thy ===== *)
theory WorkingSet
  imports Checkpoint
begin

text \<open>
  The \<open>WorkingSet\<close> class of \<open>data/ddict/manager.py\<close>: the window of checkpoints a manager keeps.
  The methods that only look at the window are functions of it; the ones that move it return the
  new window and the checkpoints handed to persisting threads.  A checkpoint object in the window
  is named by its id.  The mutual exclusion by \<open>self._lock\<close> is left out: each method is one step.
\<close>

record working_set =
  ws_chkpts :: "(int, checkpoint) pydict"
  ws_next_id :: int
  ws_size :: int
  ws_wait_for_keys :: bool
  ws_wait_for_writers :: bool
  ws_read_only :: "bool option" \<comment> \<open>no such attribute after unpickling\<close>
  ws_persist_freq :: int
  ws_linked :: bool \<comment> \<open>the deferred-operation table is the manager's own (not after unpickling)\<close>

definition make_working_set ::
    "int \<Rightarrow> bool \<Rightarrow> bool \<Rightarrow> int \<Rightarrow> bool \<Rightarrow> int \<Rightarrow> working_set" where
  "make_working_set wsz wfk wfw start ro freq =
     \<lparr>ws_chkpts = (if ro then [] else map (\<lambda>i. (i, new_checkpoint i)) [start..start + wsz - 1]),
      ws_next_id = (if ro then -1 else start + wsz),
      ws_size = (if ro then 0 else wsz),
      ws_wait_for_keys = wfk, ws_wait_for_writers = wfw, ws_read_only = Some ro, ws_persist_freq = freq,
      ws_linked = True\<rparr>"

definition newest_chkpt_id :: "working_set \<Rightarrow> int res" where
  "newest_chkpt_id ws =
     (if ws_chkpts ws = [] then Inl ValueError else Inr (Max (set (d_keys (ws_chkpts ws)))))"

definition oldest_chkpt_id :: "working_set \<Rightarrow> int" where
  "oldest_chkpt_id ws = max 0 (ws_next_id ws - ws_size ws)"

definition ws_range :: "working_set \<Rightarrow> (int \<times> int) res" where
  "ws_range ws =
     (if ws_chkpts ws = [] then Inl ValueError
      else Inr (Min (set (d_keys (ws_chkpts ws))), Max (set (d_keys (ws_chkpts ws)))))"

section \<open>Moving the window\<close>

text \<open>
  The loop over the parent's keys in \<open>_retire_checkpoint\<close>: a key the child neither has nor
  deleted is handed down, the others are to be cleared with the parent.
\<close>

fun retire_keys ::
    "bool \<Rightarrow> checkpoint \<Rightarrow> (alloc \<times> lref) list \<Rightarrow> checkpoint \<Rightarrow> kset \<Rightarrow> kset res \<times> checkpoint" where
  "retire_keys wfk parent [] child kvs = (Inr kvs, child)"
| "retire_keys wfk parent ((key, v) # rest) child kvs =
     (if \<not> kd_mem (al_bytes key) (ck_map child) \<and> \<not> ks_mem (al_bytes key) (ck_deleted child) then
        (let c1 = (if wfk then child\<lparr>ck_persist := ks_add key (ck_persist child)\<rparr> else child);
             c2 = c1\<lparr>ck_map := kd_set key v (ck_map c1)\<rparr>
         in case kd_get (al_bytes key) (ck_key_allocs parent) of
              None \<Rightarrow> (Inl KeyError, c2)
            | Some ka \<Rightarrow>
                retire_keys wfk parent rest
                  (c2\<lparr>ck_key_allocs := kd_set key ka (ck_key_allocs c2)\<rparr>) kvs)
      else retire_keys wfk parent rest child (ks_add key kvs))"

text \<open>\<open>_retire_checkpoint\<close>: the result is the retiring checkpoint (what its thread dumps and then
  clears) and the child that replaces it as the oldest.\<close>

definition retire_checkpoint :: "bool \<Rightarrow> checkpoint \<Rightarrow> checkpoint \<Rightarrow> checkpoint res \<times> checkpoint" where
  "retire_checkpoint wfk parent child =
     (case retire_keys wfk parent (ck_map parent) child [] of
        (Inl e, c) \<Rightarrow> (Inl e, c)
      | (Inr kvs, c) \<Rightarrow>
          (Inr (parent\<lparr>ck_kvs_to_clear := kvs, ck_reattach := Some False\<rparr>), c\<lparr>ck_deleted := []\<rparr>))"

definition must_wait_for_keys :: "checkpoint \<Rightarrow> checkpoint \<Rightarrow> bool" where
  "must_wait_for_keys parent child =
     (ks_minus (ks_minus (kd_keys (ck_map parent)) (ck_persist parent))
        (ks_minus (ks_minus (kd_keys (ck_map child)) (ck_persist child)) (ck_persist parent)) \<noteq> [])"

definition must_wait_for_writers :: "checkpoint \<Rightarrow> checkpoint \<Rightarrow> bool" where
  "must_wait_for_writers parent child = (ck_writers parent - ck_writers child \<noteq> {})"

text \<open>\<open>advance\<close>: whether the window moved, the window, and the checkpoints given to threads.\<close>

definition advance :: "working_set \<Rightarrow> bool res \<times> working_set \<times> checkpoint list" where
  "advance ws =
     (let nid = ws_next_id ws;
          cks = AList.update nid (new_checkpoint nid) (ws_chkpts ws)
      in if int (length (ws_chkpts ws)) = ws_size ws then
           (let rid = nid - ws_size ws in
            case d_item rid cks of Inl e \<Rightarrow> (Inl e, ws, [])
            | Inr parent \<Rightarrow>
            (case d_item (rid + 1) cks of Inl e \<Rightarrow> (Inl e, ws, [])
            | Inr child \<Rightarrow>
              if ws_wait_for_keys ws \<and> must_wait_for_keys parent child then (Inr False, ws, [])
              else if ws_wait_for_writers ws \<and> must_wait_for_writers parent child then (Inr False, ws, [])
              else
                (case retire_checkpoint (ws_wait_for_keys ws) parent child of
                   (Inl e, c) \<Rightarrow>
                     (Inl e,
                      (if rid + 1 = nid then ws
                       else ws\<lparr>ws_chkpts := AList.update (rid + 1) c (ws_chkpts ws)\<rparr>), [])
                 | (Inr p, c) \<Rightarrow>
                     (case d_del (ck_id parent) (AList.update (rid + 1) c cks) of
                        Inl e \<Rightarrow>
                          (Inl e,
                           (if rid + 1 = nid then ws
                            else ws\<lparr>ws_chkpts := AList.update (rid + 1) c (ws_chkpts ws)\<rparr>), [p])
                      | Inr cks' \<Rightarrow>
                          (Inr True, ws\<lparr>ws_chkpts := cks', ws_next_id := nid + 1\<rparr>, [p])))))
         else (Inr True, ws\<lparr>ws_chkpts := cks, ws_next_id := nid + 1\<rparr>, []))"

lemma advance_next_id: "advance ws = (Inr True, ws', ts) \<Longrightarrow> ws_next_id ws' = ws_next_id ws + 1"
  by (auto simp: advance_def Let_def split: if_splits sum.splits prod.splits)

text \<open>The loop of \<open>put\<close>: \<open>while chkpt_id > newest and self.advance(): newest = ...\<close>\<close>

function put_loop ::
    "int \<Rightarrow> int \<Rightarrow> working_set \<Rightarrow> checkpoint list \<Rightarrow> unit res \<times> working_set \<times> checkpoint list" where
  "put_loop c newest ws ts =
     (if newest < c then
        (case advance ws of
           (Inl e, ws', ts') \<Rightarrow> (Inl e, ws', ts @ ts')
         | (Inr moved, ws', ts') \<Rightarrow>
             if moved then put_loop c (min (ws_next_id ws' - 1) c) ws' (ts @ ts')
             else (Inr (), ws', ts @ ts'))
      else (Inr (), ws, ts))"
  by pat_completeness auto
termination
proof (relation "measures [\<lambda>(c, newest, ws, ts). nat (c + 1 - ws_next_id ws), \<lambda>(c, newest, ws, ts). nat (c - newest)]")
qed (auto dest!: advance_next_id [OF sym])

declare put_loop.simps [simp del]

definition ws_put :: "int \<Rightarrow> working_set \<Rightarrow> int option res \<times> working_set \<times> checkpoint list" where
  "ws_put c ws =
     (case newest_chkpt_id ws of
        Inl e \<Rightarrow> (Inl e, ws, [])
      | Inr newest \<Rightarrow>
          if c < oldest_chkpt_id ws then (Inl DDictCheckpointSyncError, ws, [])
          else (case put_loop c newest ws [] of
                  (Inl e, ws', ts) \<Rightarrow> (Inl e, ws', ts)
                | (Inr _, ws', ts) \<Rightarrow>
                    (Inr (if c \<in> set (d_keys (ws_chkpts ws')) then Some c else None), ws', ts)))"

text \<open>\<open>access\<close>: here the loop tests membership, so it need not end; not returning is \<open>None\<close>.\<close>

partial_function (option) access_loop ::
    "int \<Rightarrow> working_set \<Rightarrow> checkpoint list \<Rightarrow> (unit res \<times> working_set \<times> checkpoint list) option" where
  "access_loop c ws ts =
     (if c \<in> set (d_keys (ws_chkpts ws)) then Some (Inr (), ws, ts)
      else (case advance ws of
              (Inl e, ws', ts') \<Rightarrow> Some (Inl e, ws', ts @ ts')
            | (Inr moved, ws', ts') \<Rightarrow>
                if moved then access_loop c ws' (ts @ ts') else Some (Inr (), ws', ts @ ts')))"

definition ws_access ::
    "int \<Rightarrow> working_set \<Rightarrow> (int option res \<times> working_set \<times> checkpoint list) option" where
  "ws_access c ws =
     (if c < oldest_chkpt_id ws then Some (Inl DDictCheckpointSyncError, ws, [])
      else (case access_loop c ws [] of
              None \<Rightarrow> None
            | Some (Inl e, ws', ts) \<Rightarrow> Some (Inl e, ws', ts)
            | Some (Inr _, ws', ts) \<Rightarrow>
                Some (Inr (if c \<in> set (d_keys (ws_chkpts ws')) then Some c else None), ws', ts)))"

section \<open>Looking at the window\<close>

text \<open>The loop of \<open>get\<close> from newer to older: \<open>Some r\<close> when it returned \<open>r\<close>, \<open>None\<close> when it ran
  to its end.\<close>

fun get_loop ::
    "bytes \<Rightarrow> int \<Rightarrow> bool \<Rightarrow> (int, checkpoint) pydict \<Rightarrow> int list \<Rightarrow> int option option res" where
  "get_loop b c wfk cks [] = Inr None"
| "get_loop b c wfk cks (i # is) =
     (case d_item i cks of Inl e \<Rightarrow> Inl e
      | Inr ck \<Rightarrow>
          if kd_mem b (ck_map ck) then
            (if wfk \<and> \<not> ks_mem b (ck_persist ck) \<and> ck_id ck < c then Inr (Some None)
             else Inr (Some (Some i)))
          else if ks_mem b (ck_deleted ck) then Inr (Some (Some i))
          else get_loop b c wfk cks is)"

definition get_scan :: "bytes \<Rightarrow> int \<Rightarrow> int \<Rightarrow> int \<Rightarrow> working_set \<Rightarrow> int option res" where
  "get_scan b c newest oldest ws =
     (case get_loop b c (ws_wait_for_keys ws) (ws_chkpts ws) (rev [oldest..min c newest]) of
        Inl e \<Rightarrow> Inl e
      | Inr (Some r) \<Rightarrow> Inr r
      | Inr None \<Rightarrow>
          if c \<in> set (d_keys (ws_chkpts ws)) then
            (if ws_wait_for_keys ws then
               (if min c newest < oldest then Inl UnboundLocalError else Inr None)
             else Inr (Some c))
          else if oldest \<in> set (d_keys (ws_chkpts ws)) then Inr (Some oldest)
          else Inl KeyError)"

definition ws_get :: "bytes \<Rightarrow> int \<Rightarrow> bool \<Rightarrow> working_set \<Rightarrow> int option res" where
  "ws_get b c deferred ws =
     (case newest_chkpt_id ws of Inl e \<Rightarrow> Inl e
      | Inr newest \<Rightarrow>
        (let oldest = oldest_chkpt_id ws
         in if c < oldest then Inl DDictCheckpointSyncError
            else if newest < c then
              (case d_item oldest (ws_chkpts ws) of Inl e \<Rightarrow> Inl e
               | Inr ck \<Rightarrow>
                   if \<not> ks_mem b (ck_persist ck) \<and> (deferred \<or> ws_wait_for_keys ws) then Inr None
                   else get_scan b c newest oldest ws)
            else get_scan b c newest oldest ws))"

text \<open>The loops of \<open>keys\<close> and \<open>_items\<close>, from older to newer.\<close>

fun keys_loop :: "bool \<Rightarrow> (int, checkpoint) pydict \<Rightarrow> int list \<Rightarrow> kset \<Rightarrow> kset res" where
  "keys_loop wfk cks [] ks = Inr ks"
| "keys_loop wfk cks (i # is) ks =
     (case d_item i cks of Inl e \<Rightarrow> Inl e
      | Inr ck \<Rightarrow>
          keys_loop wfk cks is
            (ks_union (ks_minus ks (ck_deleted ck))
               (if wfk then ck_persist ck else kd_keys (ck_map ck))))"

definition ws_keys :: "int \<Rightarrow> working_set \<Rightarrow> kset res" where
  "ws_keys c ws =
     (case newest_chkpt_id ws of Inl e \<Rightarrow> Inl e
      | Inr newest \<Rightarrow>
          if c < oldest_chkpt_id ws then Inl DDictCheckpointSyncError
          else (case keys_loop (ws_wait_for_keys ws) (ws_chkpts ws)
                       [oldest_chkpt_id ws..min c newest] [] of
                  Inl e \<Rightarrow> Inl e
                | Inr ks \<Rightarrow>
                    Inr (case map_of (ws_chkpts ws) c of
                           None \<Rightarrow> ks
                         | Some ck \<Rightarrow> ks_union ks (kd_keys (ck_map ck)))))"

text \<open>\<open>items.remove(k)\<close> is called on a dictionary, which has no such method, whenever a deleted
  key was collected from an older checkpoint.\<close>

fun items_put :: "kset \<Rightarrow> lref kdict \<Rightarrow> lref kdict \<Rightarrow> lref kdict res" where
  "items_put [] m items = Inr items"
| "items_put (k # ks) m items =
     (case kd_item (al_bytes k) m of Inl e \<Rightarrow> Inl e
      | Inr v \<Rightarrow> items_put ks m (kd_set k v items))"

fun items_loop :: "bool \<Rightarrow> (int, checkpoint) pydict \<Rightarrow> int list \<Rightarrow> lref kdict \<Rightarrow> lref kdict res" where
  "items_loop wfk cks [] items = Inr items"
| "items_loop wfk cks (i # is) items =
     (case d_item i cks of Inl e \<Rightarrow> Inl e
      | Inr ck \<Rightarrow>
          if list_ex (\<lambda>k. kd_mem (al_bytes k) items) (ck_deleted ck) then Inl AttributeError
          else (case items_put (if wfk then ck_persist ck else kd_keys (ck_map ck)) (ck_map ck) items of
                  Inl e \<Rightarrow> Inl e
                | Inr items' \<Rightarrow> items_loop wfk cks is items'))"

definition ws_items :: "int \<Rightarrow> working_set \<Rightarrow> lref kdict res" where
  "ws_items c ws =
     (case newest_chkpt_id ws of Inl e \<Rightarrow> Inl e
      | Inr newest \<Rightarrow>
          if c < oldest_chkpt_id ws then Inl DDictCheckpointSyncError
          else (case items_loop (ws_wait_for_keys ws) (ws_chkpts ws)
                       [oldest_chkpt_id ws..min c newest] [] of
                  Inl e \<Rightarrow> Inl e
                | Inr items \<Rightarrow>
                    (case map_of (ws_chkpts ws) c of
                       None \<Rightarrow> Inr items
                     | Some ck \<Rightarrow> items_put (kd_keys (ck_map ck)) (ck_map ck) items)))"

definition ws_values :: "int \<Rightarrow> working_set \<Rightarrow> lref list res" where
  "ws_values c ws = (case ws_items c ws of Inl e \<Rightarrow> Inl e | Inr items \<Rightarrow> Inr (map snd items))"

text \<open>\<open>update_writer_checkpoint\<close>: both ranges stop before the client's own checkpoint.\<close>

definition add_writer :: "int \<Rightarrow> int \<Rightarrow> (int, checkpoint) pydict \<Rightarrow> (int, checkpoint) pydict" where
  "add_writer client i cks = (case map_of cks i of
     None \<Rightarrow> cks
   | Some ck \<Rightarrow> AList.update i (ck\<lparr>ck_writers := insert client (ck_writers ck)\<rparr>) cks)"

definition update_writer_checkpoint :: "int \<Rightarrow> int \<Rightarrow> working_set \<Rightarrow> unit res \<times> working_set" where
  "update_writer_checkpoint client c ws =
     (case newest_chkpt_id ws of Inl e \<Rightarrow> (Inl e, ws)
      | Inr newest \<Rightarrow>
        (let is = [oldest_chkpt_id ws..min c newest - 1] in
         if list_ex (\<lambda>i. map_of (ws_chkpts ws) i = None) is then (Inl KeyError, ws)
         else if list_ex (\<lambda>i. \<exists>ck. map_of (ws_chkpts ws) i = Some ck \<and> client \<in> ck_writers ck) is
         then (Inr (), ws\<lparr>ws_chkpts := fold (add_writer client) is (ws_chkpts ws)\<rparr>)
         else (Inr (), ws)))"

definition chkpt_avail :: "int \<Rightarrow> working_set \<Rightarrow> bool" where
  "chkpt_avail c ws = (c \<in> set (d_keys (ws_chkpts ws)))"

fun count_keys :: "(int, checkpoint) pydict \<Rightarrow> int list \<Rightarrow> nat \<Rightarrow> nat res" where
  "count_keys cks [] n = Inr n"
| "count_keys cks (i # is) n =
     (case d_item i cks of Inl e \<Rightarrow> Inl e | Inr ck \<Rightarrow> count_keys cks is (n + length (ck_map ck)))"

definition key_count :: "working_set \<Rightarrow> nat res" where
  "key_count ws =
     (case newest_chkpt_id ws of Inl e \<Rightarrow> Inl e
      | Inr newest \<Rightarrow> count_keys (ws_chkpts ws) [oldest_chkpt_id ws..newest] 0)"

section \<open>Handing keys down\<close>

definition handed_down :: "checkpoint \<Rightarrow> bytes \<Rightarrow> bool" where
  "handed_down child b \<longleftrightarrow> \<not> kd_mem b (ck_map child) \<and> \<not> ks_mem b (ck_deleted child)"

lemma kd_ok_Cons: "kd_ok ((k, v) # d) \<longleftrightarrow> kd_ok d \<and> kd_get (al_bytes k) d = None"
  by (auto simp: kd_ok_def kd_get_None)

text \<open>What the loop does, key by key: the keys the child says nothing about get the parent's value
  and the parent's handle, the others are the keys to clear.\<close>

definition retire_spec ::
    "bool \<Rightarrow> checkpoint \<Rightarrow> (alloc \<times> lref) list \<Rightarrow> checkpoint \<Rightarrow> kset \<Rightarrow> kset \<Rightarrow> checkpoint \<Rightarrow> bool" where
  "retire_spec wfk parent es child kvs kvs' c' \<longleftrightarrow>
     (\<forall>b. kd_get b (ck_map c') = (if handed_down child b then kd_get b es else kd_get b (ck_map child))) \<and>
     (\<forall>b. kd_get b (ck_key_allocs c') =
        (if handed_down child b \<and> kd_mem b es then kd_get b (ck_key_allocs parent)
         else kd_get b (ck_key_allocs child))) \<and>
     ck_deleted c' = ck_deleted child \<and> ck_writers c' = ck_writers child \<and> ck_id c' = ck_id child \<and>
     ks_contents (ck_persist c') =
       ks_contents (ck_persist child) \<union> (if wfk then {b. handed_down child b \<and> kd_mem b es} else {}) \<and>
     ks_contents kvs' = ks_contents kvs \<union> {b. \<not> handed_down child b \<and> kd_mem b es} \<and>
     (kd_ok (ck_map child) \<longrightarrow> kd_ok (ck_map c')) \<and>
     (kd_ok (ck_key_allocs child) \<longrightarrow> kd_ok (ck_key_allocs c')) \<and>
     (ks_ok (ck_persist child) \<longrightarrow> ks_ok (ck_persist c')) \<and> (ks_ok kvs \<longrightarrow> ks_ok kvs')"

lemma retire_keys_spec:
  assumes "kd_ok es" "\<forall>b. kd_mem b es \<longrightarrow> kd_mem b (ck_key_allocs parent)"
  shows "\<exists>kvs' c'. retire_keys wfk parent es child kvs = (Inr kvs', c') \<and>
           retire_spec wfk parent es child kvs kvs' c'"
  using assms
proof (induction es arbitrary: child kvs)
  case Nil
  have [simp]: "handed_down child b \<Longrightarrow> kd_get b (ck_map child) = None" for b
    by (auto simp: handed_down_def kd_mem_def)
  show ?case by (auto simp: retire_spec_def kd_mem_def)
next
  case (Cons e es)
  obtain key v where e: "e = (key, v)" by (cases e)
  let ?kb = "al_bytes key"
  have es: "kd_ok es" "kd_get ?kb es = None" "\<forall>b. kd_mem b es \<longrightarrow> kd_mem b (ck_key_allocs parent)"
    using Cons.prems e by (auto simp: kd_ok_Cons kd_mem_def)
  have mem: "kd_mem b ((key, v) # es) \<longleftrightarrow> b = ?kb \<or> kd_mem b es" for b
    by (auto simp: kd_mem_def)
  show ?case
  proof (cases "handed_down child ?kb")
    case True
    have "kd_mem ?kb (ck_key_allocs parent)"
      using Cons.prems(2) e mem by blast
    then obtain ka where ka: "kd_get ?kb (ck_key_allocs parent) = Some ka"
      by (auto simp: kd_mem_def)
    define c1 where "c1 = (if wfk then child\<lparr>ck_persist := ks_add key (ck_persist child)\<rparr> else child)"
    define c3 where "c3 = c1\<lparr>ck_map := kd_set key v (ck_map c1), ck_key_allocs := kd_set key ka (ck_key_allocs c1)\<rparr>"
    obtain kvs' c' where rec: "retire_keys wfk parent es c3 kvs = (Inr kvs', c')"
      "retire_spec wfk parent es c3 kvs kvs' c'"
      using Cons.IH [OF es(1,3)] by blast
    have hd3: "handed_down c3 b \<longleftrightarrow> handed_down child b \<and> b \<noteq> ?kb" for b
      by (auto simp: handed_down_def c3_def c1_def kd_mem_def)
    have fields: "ck_deleted c3 = ck_deleted child" "ck_writers c3 = ck_writers child" "ck_id c3 = ck_id child"
      "ck_map c3 = kd_set key v (ck_map child)" "ck_key_allocs c3 = kd_set key ka (ck_key_allocs child)"
      "ck_persist c3 = (if wfk then ks_add key (ck_persist child) else ck_persist child)"
      by (auto simp: c3_def c1_def)
    have "retire_keys wfk parent (e # es) child kvs = (Inr kvs', c')"
      using True e ka rec(1) by (simp add: handed_down_def c3_def c1_def Let_def)
    moreover have "retire_spec wfk parent (e # es) child kvs kvs' c'"
      using rec(2) True ka es(2) e
      by (auto simp: retire_spec_def hd3 fields mem kd_mem_def)
    ultimately show ?thesis by blast
  next
    case False
    obtain kvs' c' where rec: "retire_keys wfk parent es child (ks_add key kvs) = (Inr kvs', c')"
      "retire_spec wfk parent es child (ks_add key kvs) kvs' c'"
      using Cons.IH [OF es(1,3)] by blast
    have "retire_keys wfk parent (e # es) child kvs = (Inr kvs', c')"
      using False e rec(1) by (auto simp: handed_down_def)
    moreover have "retire_spec wfk parent (e # es) child kvs kvs' c'"
      using rec(2) False es(2) e by (auto simp: retire_spec_def mem kd_mem_def)
    ultimately show ?thesis by blast
  qed
qed

text \<open>The child after its parent retired.\<close>

definition absorb :: "bool \<Rightarrow> checkpoint \<Rightarrow> checkpoint \<Rightarrow> checkpoint" where
  "absorb wfk parent child = snd (retire_checkpoint wfk parent child)"

lemma retire_checkpoint_ok:
  assumes "ck_ok parent" "ck_ok child"
  obtains kvs where
    "retire_checkpoint wfk parent child =
       (Inr (parent\<lparr>ck_kvs_to_clear := kvs, ck_reattach := Some False\<rparr>), absorb wfk parent child)"
    "ks_contents kvs = {b. kd_mem b (ck_map parent) \<and> \<not> handed_down child b}" "ks_ok kvs"
    "retire_spec wfk parent (ck_map parent) child [] kvs ((absorb wfk parent child)\<lparr>ck_deleted := ck_deleted child\<rparr>)"
    "ck_deleted (absorb wfk parent child) = []"
    "ck_ok (absorb wfk parent child)"
proof -
  obtain kvs c' where r: "retire_keys wfk parent (ck_map parent) child [] = (Inr kvs, c')"
    "retire_spec wfk parent (ck_map parent) child [] kvs c'"
    using retire_keys_spec [of "ck_map parent" parent wfk child "[]"] assms by (auto simp: ck_ok_def)
  have a: "absorb wfk parent child = c'\<lparr>ck_deleted := []\<rparr>"
    using r(1) by (simp add: absorb_def retire_checkpoint_def)
  have del: "ck_deleted c' = ck_deleted child" using r(2) by (simp add: retire_spec_def)
  have same: "(absorb wfk parent child)\<lparr>ck_deleted := ck_deleted child\<rparr> = c'"
    using a del by simp
  have ok: "ck_ok (absorb wfk parent child)"
    using r(2) assms unfolding a ck_ok_def retire_spec_def
    by (auto simp: kd_mem_def handed_down_def split: if_splits)
  show thesis
    by (rule that [of kvs]) (use r a ok same in \<open>auto simp: retire_checkpoint_def retire_spec_def\<close>)
qed

section \<open>Layers\<close>

text \<open>
  The interface between the window and its layers: an entry of a layer is a value, a deletion or
  nothing, and absorbing a retiring parent keeps what the child says, drops the child's deletions
  (nothing is below them any more) and takes the parent's values for the rest.
\<close>

locale layering =
  fixes entry :: "'c \<Rightarrow> 'b \<Rightarrow> 'v option option"
    and merge_down :: "'c \<Rightarrow> 'c \<Rightarrow> 'c"
    and good :: "'c \<Rightarrow> bool"
  assumes keep: "good p \<Longrightarrow> good c \<Longrightarrow> entry c b = Some (Some v) \<Longrightarrow> entry (merge_down p c) b = Some (Some v)"
    and drop_deletion: "good p \<Longrightarrow> good c \<Longrightarrow> entry c b = Some None \<Longrightarrow> entry (merge_down p c) b = None"
    and inherit: "good p \<Longrightarrow> good c \<Longrightarrow> entry c b = None \<Longrightarrow>
        entry (merge_down p c) b = (case entry p b of Some (Some v) \<Rightarrow> Some (Some v) | _ \<Rightarrow> None)"
begin

text \<open>Lookup through layers, newest first.\<close>

fun find_value :: "'c list \<Rightarrow> 'b \<Rightarrow> 'v option" where
  "find_value [] b = None"
| "find_value (c # cs) b = (case entry c b of None \<Rightarrow> find_value cs b | Some r \<Rightarrow> r)"

lemma find_value_append:
  "find_value (cs @ ds) b =
     (if \<exists>c \<in> set cs. entry c b \<noteq> None then find_value cs b else find_value ds b)"
  by (induction cs) (auto split: option.splits)

lemma find_value_merge_bottom:
  assumes "good p" "good c"
  shows "find_value (cs @ [merge_down p c]) b = find_value (cs @ [c, p]) b"
proof -
  have "find_value [merge_down p c] b = find_value [c, p] b"
  proof (cases "entry c b")
    case None
    then show ?thesis using inherit [OF assms None] by (auto split: option.splits)
  next
    case (Some r)
    then show ?thesis using keep [OF assms, of b] drop_deletion [OF assms, of b] by (cases r) auto
  qed
  then show ?thesis by (simp add: find_value_append del: find_value.simps)
qed

end

lemma ck_entry_absorb:
  assumes "ck_ok p" "ck_ok c"
  shows "ck_entry (absorb wfk p c) b =
    (case ck_entry c b of
       Some (Some v) \<Rightarrow> Some (Some v) | Some None \<Rightarrow> None
     | None \<Rightarrow> (case ck_entry p b of Some (Some v) \<Rightarrow> Some (Some v) | _ \<Rightarrow> None))"
proof -
  obtain kvs where "retire_spec wfk p (ck_map p) c [] kvs ((absorb wfk p c)\<lparr>ck_deleted := ck_deleted c\<rparr>)"
    "ck_deleted (absorb wfk p c) = []"
    using retire_checkpoint_ok [OF assms] by metis
  then show ?thesis
    by (auto simp: retire_spec_def ck_entry_def handed_down_def kd_mem_def ks_mem_def split: option.splits)
qed

interpretation lay: layering ck_entry "absorb wfk" ck_ok for wfk
  by unfold_locales (simp_all add: ck_entry_absorb del: ck_entry_Some_Some)

section \<open>The window invariant\<close>

text \<open>The ids of the window are the \<open>ws_size\<close> ids below \<open>ws_next_id\<close>, each checkpoint stands under
  its own id and is well formed.\<close>

definition ws_inv :: "working_set \<Rightarrow> bool" where
  "ws_inv ws \<longleftrightarrow>
     1 \<le> ws_size ws \<and> ws_size ws \<le> ws_next_id ws \<and> distinct (d_keys (ws_chkpts ws)) \<and>
     set (d_keys (ws_chkpts ws)) = {ws_next_id ws - ws_size ws..<ws_next_id ws} \<and>
     (\<forall>i ck. map_of (ws_chkpts ws) i = Some ck \<longrightarrow> ck_id ck = i \<and> ck_ok ck)"

definition layer :: "working_set \<Rightarrow> int \<Rightarrow> checkpoint" where
  "layer ws i = the (map_of (ws_chkpts ws) i)"

lemma ws_inv_length: "ws_inv ws \<Longrightarrow> int (length (ws_chkpts ws)) = ws_size ws"
  using distinct_card [of "d_keys (ws_chkpts ws)"] by (auto simp: ws_inv_def)

lemma ws_inv_nonempty: "ws_inv ws \<Longrightarrow> ws_chkpts ws \<noteq> []"
  using ws_inv_length [of ws] by (auto simp: ws_inv_def)

lemma ws_inv_bounds:
  assumes "ws_inv ws"
  shows ws_inv_newest: "newest_chkpt_id ws = Inr (ws_next_id ws - 1)"
    and ws_inv_oldest: "oldest_chkpt_id ws = ws_next_id ws - ws_size ws"
    and ws_inv_range: "ws_range ws = Inr (ws_next_id ws - ws_size ws, ws_next_id ws - 1)"
proof -
  have keys: "set (d_keys (ws_chkpts ws)) = {ws_next_id ws - ws_size ws..<ws_next_id ws}"
    and sz: "1 \<le> ws_size ws" "ws_size ws \<le> ws_next_id ws"
    using assms by (simp_all add: ws_inv_def)
  have mx: "Max (set (d_keys (ws_chkpts ws))) = ws_next_id ws - 1"
    unfolding keys using sz by (intro Max_eqI) auto
  have mn: "Min (set (d_keys (ws_chkpts ws))) = ws_next_id ws - ws_size ws"
    unfolding keys using sz by (intro Min_eqI) auto
  show "newest_chkpt_id ws = Inr (ws_next_id ws - 1)"
    using mx ws_inv_nonempty [OF assms] by (simp add: newest_chkpt_id_def)
  show "oldest_chkpt_id ws = ws_next_id ws - ws_size ws"
    using sz by (simp add: oldest_chkpt_id_def)
  show "ws_range ws = Inr (ws_next_id ws - ws_size ws, ws_next_id ws - 1)"
    using mx mn ws_inv_nonempty [OF assms] by (simp add: ws_range_def)
qed

lemma ws_inv_layer:
  assumes "ws_inv ws" "ws_next_id ws - ws_size ws \<le> i" "i < ws_next_id ws"
  shows "map_of (ws_chkpts ws) i = Some (layer ws i)" "ck_id (layer ws i) = i" "ck_ok (layer ws i)"
proof -
  have "i \<in> set (d_keys (ws_chkpts ws))" using assms by (simp add: ws_inv_def)
  then show m: "map_of (ws_chkpts ws) i = Some (layer ws i)" by (auto simp: layer_def)
  show "ck_id (layer ws i) = i" "ck_ok (layer ws i)"
    using assms(1) m unfolding ws_inv_def by blast+
qed

lemma ws_inv_mem:
  assumes "ws_inv ws"
  shows "map_of (ws_chkpts ws) i = None \<longleftrightarrow> \<not> (ws_next_id ws - ws_size ws \<le> i \<and> i < ws_next_id ws)"
proof -
  have "i \<in> set (d_keys (ws_chkpts ws)) \<longleftrightarrow> i \<in> {ws_next_id ws - ws_size ws..<ws_next_id ws}"
    using assms by (simp add: ws_inv_def)
  then show ?thesis by auto
qed

text \<open>One step of \<open>advance\<close> on a well-formed window: the checkpoints it looks at, and the window it
  leaves.\<close>

definition next_parent :: "working_set \<Rightarrow> checkpoint" where
  "next_parent ws = layer ws (ws_next_id ws - ws_size ws)"

definition next_child :: "working_set \<Rightarrow> checkpoint" where
  "next_child ws = (if ws_size ws = 1 then new_checkpoint (ws_next_id ws)
                    else layer ws (ws_next_id ws - ws_size ws + 1))"

definition may_retire :: "working_set \<Rightarrow> bool" where
  "may_retire ws \<longleftrightarrow>
     \<not> (ws_wait_for_keys ws \<and> must_wait_for_keys (next_parent ws) (next_child ws)) \<and>
     \<not> (ws_wait_for_writers ws \<and> must_wait_for_writers (next_parent ws) (next_child ws))"

definition moved :: "working_set \<Rightarrow> working_set" where
  "moved ws = ws\<lparr>ws_chkpts :=
       AList.delete (ws_next_id ws - ws_size ws)
         (AList.update (ws_next_id ws - ws_size ws + 1)
            (absorb (ws_wait_for_keys ws) (next_parent ws) (next_child ws))
            (AList.update (ws_next_id ws) (new_checkpoint (ws_next_id ws)) (ws_chkpts ws))),
     ws_next_id := ws_next_id ws + 1\<rparr>"

lemma next_parent_child:
  assumes "ws_inv ws"
  shows "ck_ok (next_parent ws)" "ck_ok (next_child ws)" "ck_id (next_parent ws) = ws_next_id ws - ws_size ws"
    "ck_id (next_child ws) = ws_next_id ws - ws_size ws + 1"
    "map_of (AList.update (ws_next_id ws) (new_checkpoint (ws_next_id ws)) (ws_chkpts ws)) (ws_next_id ws - ws_size ws)
       = Some (next_parent ws)"
    "map_of (AList.update (ws_next_id ws) (new_checkpoint (ws_next_id ws)) (ws_chkpts ws)) (ws_next_id ws - ws_size ws + 1)
       = Some (next_child ws)"
proof -
  have sz: "1 \<le> ws_size ws" using assms by (simp add: ws_inv_def)
  note p = ws_inv_layer [OF assms, of "ws_next_id ws - ws_size ws"]
  note c = ws_inv_layer [OF assms, of "ws_next_id ws - ws_size ws + 1"]
  show "ck_ok (next_parent ws)" "ck_id (next_parent ws) = ws_next_id ws - ws_size ws"
    using p sz by (simp_all add: next_parent_def)
  show "ck_ok (next_child ws)" "ck_id (next_child ws) = ws_next_id ws - ws_size ws + 1"
    using c sz by (auto simp: next_child_def)
  show "map_of (AList.update (ws_next_id ws) (new_checkpoint (ws_next_id ws)) (ws_chkpts ws)) (ws_next_id ws - ws_size ws)
       = Some (next_parent ws)"
    using p sz by (simp add: next_parent_def)
  show "map_of (AList.update (ws_next_id ws) (new_checkpoint (ws_next_id ws)) (ws_chkpts ws)) (ws_next_id ws - ws_size ws + 1)
       = Some (next_child ws)"
    using c sz by (auto simp: next_child_def)
qed

lemma advance_run:
  assumes "ws_inv ws"
  obtains kvs where
    "advance ws = (if may_retire ws
       then (Inr True, moved ws, [(next_parent ws)\<lparr>ck_kvs_to_clear := kvs, ck_reattach := Some False\<rparr>])
       else (Inr False, ws, []))"
    "ks_contents kvs = {b. kd_mem b (ck_map (next_parent ws)) \<and> \<not> handed_down (next_child ws) b}" "ks_ok kvs"
proof -
  note pc = next_parent_child [OF assms]
  obtain kvs where kvs:
    "retire_checkpoint (ws_wait_for_keys ws) (next_parent ws) (next_child ws) =
       (Inr ((next_parent ws)\<lparr>ck_kvs_to_clear := kvs, ck_reattach := Some False\<rparr>),
        absorb (ws_wait_for_keys ws) (next_parent ws) (next_child ws))"
    "ks_contents kvs = {b. kd_mem b (ck_map (next_parent ws)) \<and> \<not> handed_down (next_child ws) b}" "ks_ok kvs"
    by (rule retire_checkpoint_ok [OF pc(1,2)])
  show thesis
  proof (rule that [OF _ kvs(2,3)])
    show "advance ws = (if may_retire ws
       then (Inr True, moved ws, [(next_parent ws)\<lparr>ck_kvs_to_clear := kvs, ck_reattach := Some False\<rparr>])
       else (Inr False, ws, []))"
      using kvs(1) pc(3) d_item_Some [OF pc(5)] d_item_Some [OF pc(6)] pc(5)
      by (simp add: advance_def Let_def ws_inv_length [OF assms] may_retire_def moved_def d_del_def)
  qed
qed

lemma moved_layers:
  assumes "ws_inv ws"
  shows "map_of (ws_chkpts (moved ws)) i =
    (if i = ws_next_id ws - ws_size ws then None
     else if i = ws_next_id ws - ws_size ws + 1
       then Some (absorb (ws_wait_for_keys ws) (next_parent ws) (next_child ws))
     else if i = ws_next_id ws then Some (new_checkpoint i) else map_of (ws_chkpts ws) i)"
  by (simp add: moved_def)

lemma absorb_gets:
  assumes "ck_ok p" "ck_ok c"
  shows "kd_get b (ck_map (absorb w p c)) =
      (if handed_down c b then kd_get b (ck_map p) else kd_get b (ck_map c))"
    and "kd_get b (ck_key_allocs (absorb w p c)) =
      (if handed_down c b \<and> kd_mem b (ck_map p) then kd_get b (ck_key_allocs p) else kd_get b (ck_key_allocs c))"
    and "ks_contents (ck_persist (absorb w p c)) =
      ks_contents (ck_persist c) \<union> (if w then {b. handed_down c b \<and> kd_mem b (ck_map p)} else {})"
    and "ck_writers (absorb w p c) = ck_writers c" and "ck_deleted (absorb w p c) = []"
  by (rule retire_checkpoint_ok [OF assms, of w]; simp add: retire_spec_def)+

lemma absorb_id: "ck_ok p \<Longrightarrow> ck_ok c \<Longrightarrow> ck_id (absorb w p c) = ck_id c"
  using retire_checkpoint_ok [of p c w] by (auto simp: retire_spec_def)

lemma absorb_ck_ok: "ck_ok p \<Longrightarrow> ck_ok c \<Longrightarrow> ck_ok (absorb w p c)"
  using retire_checkpoint_ok [of p c w] by blast

lemma moved_fields [simp]:
  "ws_next_id (moved ws) = ws_next_id ws + 1" "ws_size (moved ws) = ws_size ws"
  "ws_wait_for_keys (moved ws) = ws_wait_for_keys ws" "ws_wait_for_writers (moved ws) = ws_wait_for_writers ws"
  "ws_read_only (moved ws) = ws_read_only ws" "ws_persist_freq (moved ws) = ws_persist_freq ws"
  "ws_linked (moved ws) = ws_linked ws"
  by (simp_all add: moved_def)

lemma moved_inv:
  assumes "ws_inv ws"
  shows "ws_inv (moved ws)"
proof -
  note pc = next_parent_child [OF assms]
  have sz: "1 \<le> ws_size ws" "ws_size ws \<le> ws_next_id ws" and d: "distinct (d_keys (ws_chkpts ws))"
    and keys: "set (d_keys (ws_chkpts ws)) = {ws_next_id ws - ws_size ws..<ws_next_id ws}"
    using assms by (simp_all add: ws_inv_def)
  have "set (d_keys (ws_chkpts (moved ws))) = {ws_next_id ws + 1 - ws_size ws..<ws_next_id ws + 1}"
    using sz by (auto simp: moved_def keys simp del: in_d_keys)
  moreover have "distinct (d_keys (ws_chkpts (moved ws)))"
    using d by (simp add: moved_def distinct_d_keys_delete distinct_d_keys_update)
  moreover have "ck_id ck = i \<and> ck_ok ck" if "map_of (ws_chkpts (moved ws)) i = Some ck" for i ck
    using that assms pc(1,2,4) absorb_id [OF pc(1,2)] absorb_ck_ok [OF pc(1,2)]
    by (auto simp: moved_layers [OF assms] ws_inv_def split: if_splits)
  ultimately show ?thesis using sz by (simp add: ws_inv_def)
qed

section \<open>What a checkpoint sees\<close>

text \<open>The layers a client at checkpoint \<open>c\<close> reads through, newest first, and the value it sees.\<close>

definition layers :: "working_set \<Rightarrow> int \<Rightarrow> checkpoint list" where
  "layers ws c = map (layer ws) (rev [ws_next_id ws - ws_size ws..min c (ws_next_id ws - 1)])"

definition view :: "working_set \<Rightarrow> int \<Rightarrow> bytes \<Rightarrow> lref option" where
  "view ws c b = lay.find_value (layers ws c) b"

lemma upto_head2: "(i::int) + 1 \<le> j \<Longrightarrow> [i..j] = i # (i + 1) # [i + 2..j]"
  using upto_rec1 [of i j] upto_rec1 [of "i + 1" j] by (simp add: add.assoc)

lemma moved_view:
  assumes inv: "ws_inv ws" and c: "oldest_chkpt_id (moved ws) \<le> c"
  shows "view (moved ws) c b = view ws c b"
proof -
  let ?n = "ws_next_id ws" and ?o = "ws_next_id ws - ws_size ws"
  have sz: "1 \<le> ws_size ws" using inv by (simp add: ws_inv_def)
  have oc: "?o + 1 \<le> c" using c ws_inv_oldest [OF moved_inv [OF inv]] by simp
  note pc = next_parent_child [OF inv]
  define cks where "cks = AList.update ?n (new_checkpoint ?n) (ws_chkpts ws)"
  define look where "look i = the (map_of cks i)" for i
  define top where "top = rev [?o + 2..min c ?n]"
  have below: "look i = layer ws i" if "i < ?n" for i
    using that by (simp add: look_def cks_def layer_def)
  have above: "layer (moved ws) i = look i" if "i \<ge> ?o + 2" for i
    using that by (simp add: look_def cks_def layer_def moved_layers [OF inv])
  have two: "look ?o = next_parent ws" "look (?o + 1) = next_child ws"
    using pc(5,6) by (simp_all add: look_def cks_def)
  have split: "map look (rev [?o..min c ?n]) = map look top @ [next_child ws, next_parent ws]"
    using oc sz two upto_head2 [of ?o "min c ?n"] by (simp add: top_def)
  have bottom: "layer (moved ws) (1 + ?n - ws_size ws) = absorb (ws_wait_for_keys ws) (next_parent ws) (next_child ws)"
    using sz by (simp add: layer_def moved_layers [OF inv])
  have "layers (moved ws) c = map look top @ [absorb (ws_wait_for_keys ws) (next_parent ws) (next_child ws)]"
    using oc sz above upto_rec1 [of "?o + 1" "min c ?n"]
    by (auto simp: layers_def top_def algebra_simps bottom)
  then have "view (moved ws) c b = lay.find_value (map look top @ [next_child ws, next_parent ws]) b"
    unfolding view_def using lay.find_value_merge_bottom [OF pc(1,2)] by simp
  also have "\<dots> = lay.find_value (map look (rev [?o..min c ?n])) b"
    by (simp add: split)
  also have "\<dots> = view ws c b"
  proof (cases "c < ?n")
    case True
    have m: "map look (rev [?o..c]) = map (layer ws) (rev [?o..c])"
      using True below by (intro map_cong) auto
    have "min c ?n = c" "min c (?n - 1) = c" using True by simp_all
    then show ?thesis unfolding view_def layers_def by (simp only: m)
  next
    case False
    have "[?o..?n] = [?o..?n - 1] @ [?n]" using sz by (simp add: upto_rec2)
    moreover have "look ?n = new_checkpoint ?n" by (simp add: look_def cks_def)
    moreover have m: "map look (rev [?o..?n - 1]) = map (layer ws) (rev [?o..?n - 1])"
      using below by (intro map_cong) auto
    moreover have "min c ?n = ?n" "min c (?n - 1) = ?n - 1" using False by simp_all
    ultimately show ?thesis unfolding view_def layers_def
      by (simp only: m rev_append list.map rev.simps append.simps lay.find_value.simps ck_entry_new option.case map_append)
  qed
  finally show ?thesis .
qed

lemma view_future: "ws_next_id ws - 1 \<le> c \<Longrightarrow> view ws c b = view ws (ws_next_id ws - 1) b"
  by (cases "c < ws_next_id ws"; cases "c = ws_next_id ws - 1") (auto simp: view_def layers_def min_def)

text \<open>
  C14: On a well-formed window \<open>advance\<close> never raises.  When keys or writers are still awaited it
  answers false and leaves the window as it was; otherwise the window moves by exactly one
  checkpoint, stays well formed, and exactly the oldest checkpoint goes to a retiring thread.
\<close>

theorem advance_window:
  assumes "ws_inv ws"
  shows "if may_retire ws
    then \<exists>ws' p. advance ws = (Inr True, ws', [p]) \<and> ws_inv ws' \<and>
           ws_next_id ws' = ws_next_id ws + 1 \<and> ws_size ws' = ws_size ws \<and>
           ck_id p = oldest_chkpt_id ws \<and> map_of (ws_chkpts ws') (ck_id p) = None
    else advance ws = (Inr False, ws, [])"
proof (rule advance_run [OF assms])
  fix kvs
  assume "advance ws = (if may_retire ws
       then (Inr True, moved ws, [(next_parent ws)\<lparr>ck_kvs_to_clear := kvs, ck_reattach := Some False\<rparr>])
       else (Inr False, ws, []))"
  then show ?thesis
    using moved_inv [OF assms] next_parent_child(3) [OF assms] ws_inv_oldest [OF assms]
    by (auto simp: moved_layers [OF assms])
qed

definition demo_alloc :: "nat \<Rightarrow> bytes \<Rightarrow> alloc" where
  "demo_alloc i b = \<lparr>al_muid = 1, al_id = i, al_bytes = b\<rparr>"

text \<open>A window of two checkpoints, the older one holding one key.\<close>

definition demo_ws :: working_set where
  "demo_ws = (make_working_set 2 False False 0 False 0)
     \<lparr>ws_chkpts := [(0, (new_checkpoint 0)\<lparr>ck_map := [(demo_alloc 1 ''k'', 0)],
                                          ck_key_allocs := [(demo_alloc 1 ''k'', demo_alloc 1 ''k'')]\<rparr>),
                    (1, new_checkpoint 1)]\<rparr>"

lemma demo_ws_inv: "ws_inv demo_ws"
  by (auto simp: ws_inv_def demo_ws_def make_working_set_def d_keys_def ck_ok_def new_checkpoint_def
      kd_ok_def ks_ok_def kd_mem_def split: if_splits)

lemma demo_ws_fields [simp]:
  "ws_next_id demo_ws = 2" "ws_size demo_ws = 2" "ws_wait_for_keys demo_ws = False"
  "ws_wait_for_writers demo_ws = False" "oldest_chkpt_id demo_ws = 0"
  by (simp_all add: demo_ws_def make_working_set_def oldest_chkpt_id_def)

lemma demo_may_retire [simp]: "may_retire demo_ws"
  by (simp add: may_retire_def)

theorem advance_window_witness:
  "\<exists>ws' p. advance demo_ws = (Inr True, ws', [p]) \<and> ws_inv ws' \<and> ws_next_id ws' = 3 \<and> ck_id p = 0"
  using advance_window [OF demo_ws_inv] by auto

text \<open>
  C6: Retiring the oldest checkpoint changes no read: at every checkpoint that is still in the
  window, or still to come, every key has the value it had, whether it was bound in the retired
  checkpoint, shadowed or deleted above it.
\<close>

theorem advance_keeps_view:
  assumes "ws_inv ws" "advance ws = (r, ws', ts)" "oldest_chkpt_id ws' \<le> c"
  shows "view ws' c b = view ws c b"
proof (rule advance_run [OF assms(1)])
  fix kvs
  assume a: "advance ws = (if may_retire ws
       then (Inr True, moved ws, [(next_parent ws)\<lparr>ck_kvs_to_clear := kvs, ck_reattach := Some False\<rparr>])
       else (Inr False, ws, []))"
  show ?thesis
  proof (cases "may_retire ws")
    case True
    then have "ws' = moved ws" using a assms(2) by simp
    then show ?thesis using moved_view [OF assms(1), of c b] assms(3) by simp
  qed (use a assms(2) in simp)
qed

lemma demo_view: "view demo_ws 1 ''k'' = Some 0"
  by (simp add: view_def layers_def layer_def demo_ws_def make_working_set_def ck_entry_def new_checkpoint_def
      upto.simps demo_alloc_def ks_mem_def)

theorem advance_keeps_view_witness:
  "\<exists>ws'. advance demo_ws = (Inr True, ws', snd (snd (advance demo_ws))) \<and> oldest_chkpt_id ws' = 1 \<and>
     view ws' 1 ''k'' = Some 0"
proof -
  obtain kvs where "advance demo_ws =
      (Inr True, moved demo_ws, [(next_parent demo_ws)\<lparr>ck_kvs_to_clear := kvs, ck_reattach := Some False\<rparr>])"
    using advance_run [OF demo_ws_inv] by auto
  moreover have "oldest_chkpt_id (moved demo_ws) = 1" by (simp add: oldest_chkpt_id_def)
  ultimately show ?thesis
    using advance_keeps_view [OF demo_ws_inv, of "Inr True" "moved demo_ws" _ 1 "''k''"] demo_view by auto
qed

text \<open>
  The keys cleared with a retired checkpoint are exactly its keys that the next checkpoint
  overrides or deletes; no value reachable through the new oldest checkpoint is among them, so
  retiring frees nothing a later read can return.
\<close>

lemma retired_keys_unreachable:
  assumes "ws_inv ws" "advance ws = (Inr True, ws', [p])"
  shows "ck_map p = ck_map (layer ws (oldest_chkpt_id ws)) \<and>
    (\<forall>b. ks_mem b (ck_kvs_to_clear p) \<longleftrightarrow> kd_mem b (ck_map p) \<and> \<not> handed_down (next_child ws) b) \<and>
    (\<forall>b. kd_mem b (ck_map p) \<and> \<not> ks_mem b (ck_kvs_to_clear p) \<longrightarrow>
           kd_get b (ck_map (layer ws' (oldest_chkpt_id ws'))) = kd_get b (ck_map p) \<and>
           kd_get b (ck_key_allocs (layer ws' (oldest_chkpt_id ws'))) = kd_get b (ck_key_allocs p))"
proof -
  note pc = next_parent_child [OF assms(1)]
  obtain kvs where a: "advance ws = (if may_retire ws
       then (Inr True, moved ws, [(next_parent ws)\<lparr>ck_kvs_to_clear := kvs, ck_reattach := Some False\<rparr>])
       else (Inr False, ws, []))"
    and kvs: "ks_contents kvs = {b. kd_mem b (ck_map (next_parent ws)) \<and> \<not> handed_down (next_child ws) b}"
    by (rule advance_run [OF assms(1)])
  have eq: "ws' = moved ws" "p = (next_parent ws)\<lparr>ck_kvs_to_clear := kvs, ck_reattach := Some False\<rparr>"
    using a assms(2) by (auto split: if_splits)
  have top: "ck_map p = ck_map (layer ws (oldest_chkpt_id ws))"
    using eq by (simp add: next_parent_def ws_inv_oldest [OF assms(1)])
  have k: "ks_mem b (ck_kvs_to_clear p) \<longleftrightarrow> kd_mem b (ck_map p) \<and> \<not> handed_down (next_child ws) b" for b
    using eq kvs by (simp add: ks_mem_iff)
  have bottom: "layer ws' (oldest_chkpt_id ws') = absorb (ws_wait_for_keys ws) (next_parent ws) (next_child ws)"
    using eq ws_inv_oldest [OF moved_inv [OF assms(1)]]
    by (simp add: layer_def moved_layers [OF assms(1)])
  show ?thesis using k eq(2) top by (simp add: bottom absorb_gets [OF pc(1,2)])
qed

section \<open>Reading\<close>

text \<open>What the loop of \<open>get\<close> finds is what the layers hold.\<close>

definition get_found ::
    "bytes \<Rightarrow> int \<Rightarrow> bool \<Rightarrow> (int \<Rightarrow> checkpoint) \<Rightarrow> int list \<Rightarrow> int option option res \<Rightarrow> bool" where
  "get_found b c wfk lyr is r = (case r of
     Inl e \<Rightarrow> False
   | Inr None \<Rightarrow> \<forall>i \<in> set is. ck_entry (lyr i) b = None
   | Inr (Some None) \<Rightarrow> wfk
   | Inr (Some (Some i)) \<Rightarrow>
       i \<in> set is \<and> kd_get b (ck_map (lyr i)) = lay.find_value (map lyr is) b \<and>
       (wfk \<and> kd_mem b (ck_map (lyr i)) \<and> ck_id (lyr i) < c \<longrightarrow> ks_mem b (ck_persist (lyr i))))"

lemma get_loop_found:
  assumes "\<forall>i \<in> set is. map_of cks i = Some (lyr i)"
  shows "get_found b c wfk lyr is (get_loop b c wfk cks is)"
  using assms
proof (induction "is")
  case Nil
  then show ?case by (simp add: get_found_def)
next
  case (Cons i "is")
  then have i: "map_of cks i = Some (lyr i)" by simp
  show ?case
  proof (cases "ck_entry (lyr i) b")
    case None
    then have "\<not> kd_mem b (ck_map (lyr i))" "\<not> ks_mem b (ck_deleted (lyr i))"
      by (auto simp: ck_entry_def kd_mem_def split: option.splits if_splits)
    then show ?thesis using Cons None i
      by (auto simp: get_found_def split: sum.splits option.splits)
  next
    case (Some r)
    then show ?thesis using i
      by (cases r) (auto simp: get_found_def ck_entry_def kd_mem_def split: option.splits if_splits)
  qed
qed

lemma find_value_unset: "\<forall>ck \<in> set cs. ck_entry ck b = None \<Longrightarrow> lay.find_value cs b = None"
  by (induction cs) auto

lemma ck_entry_None_get: "ck_entry ck b = None \<Longrightarrow> kd_get b (ck_map ck) = None"
  by (auto simp: ck_entry_def split: option.splits if_splits)

text \<open>What a checkpoint returned for a read at \<open>c\<close> must hold.\<close>

definition read_ok :: "working_set \<Rightarrow> int \<Rightarrow> bytes \<Rightarrow> int \<Rightarrow> bool" where
  "read_ok ws c b i \<longleftrightarrow>
     oldest_chkpt_id ws \<le> i \<and> i < ws_next_id ws \<and> i \<le> c \<and>
     kd_get b (ck_map (layer ws i)) = view ws c b \<and>
     (ws_wait_for_keys ws \<and> i < c \<and> kd_mem b (ck_map (layer ws i)) \<longrightarrow> ks_mem b (ck_persist (layer ws i)))"

lemma get_scan_ok:
  assumes inv: "ws_inv ws" and c: "oldest_chkpt_id ws \<le> c"
  obtains (wait) "ws_wait_for_keys ws" "get_scan b c (ws_next_id ws - 1) (oldest_chkpt_id ws) ws = Inr None"
  | (got) i where "get_scan b c (ws_next_id ws - 1) (oldest_chkpt_id ws) ws = Inr (Some i)" "read_ok ws c b i"
proof -
  let ?n = "ws_next_id ws" and ?o = "ws_next_id ws - ws_size ws"
  note oldest = ws_inv_oldest [OF inv]
  have sz: "1 \<le> ws_size ws" "?o \<le> c" using inv c oldest by (simp_all add: ws_inv_def)
  define idx where "idx = rev [?o..min c (?n - 1)]"
  have idx: "i \<in> set idx \<longleftrightarrow> ?o \<le> i \<and> i \<le> c \<and> i < ?n" for i by (auto simp: idx_def)
  have ids: "map_of (ws_chkpts ws) i = Some (layer ws i)" "ck_id (layer ws i) = i" if "i \<in> set idx" for i
    using that ws_inv_layer [OF inv, of i] by (simp_all add: idx)
  define r where "r = get_loop b c (ws_wait_for_keys ws) (ws_chkpts ws) idx"
  have found: "get_found b c (ws_wait_for_keys ws) (layer ws) idx r"
    unfolding r_def by (rule get_loop_found) (use ids in blast)
  have view: "view ws c b = lay.find_value (map (layer ws) idx) b" by (simp add: view_def layers_def idx_def)
  have scan: "get_scan b c (?n - 1) (oldest_chkpt_id ws) ws =
     (case r of Inl e \<Rightarrow> Inl e | Inr (Some x) \<Rightarrow> Inr x
      | Inr None \<Rightarrow> if c < ?n then (if ws_wait_for_keys ws then Inr None else Inr (Some c)) else Inr (Some ?o))"
    using sz ws_inv_mem [OF inv, of c] ws_inv_mem [OF inv, of ?o]
    by (auto simp: get_scan_def oldest r_def idx_def split: sum.splits option.splits)
  consider (unset) "r = Inr None" "\<forall>i \<in> set idx. ck_entry (layer ws i) b = None"
    | (hold) "r = Inr (Some None)" "ws_wait_for_keys ws"
    | (hit) i where "r = Inr (Some (Some i))"
    using found by (auto simp: get_found_def split: sum.splits option.splits)
  then show thesis
  proof cases
    case unset
    have v: "view ws c b = None"
      using unset(2) find_value_unset [of "map (layer ws) idx" b] by (simp add: view)
    have miss: "read_ok ws c b i" if "i \<in> set idx" for i
      using that unset(2) ck_entry_None_get [of "layer ws i" b] by (auto simp: read_ok_def v idx oldest kd_mem_def)
    show thesis
      by (cases "c < ?n"; cases "ws_wait_for_keys ws")
        (use scan unset(1) sz idx miss wait got in \<open>auto simp: oldest\<close>)
  next
    case hold
    then show thesis using scan wait by simp
  next
    case (hit i)
    have "read_ok ws c b i"
      using found ids [of i] by (auto simp: hit get_found_def read_ok_def view idx oldest)
    then show thesis using got hit scan by simp
  qed
qed

lemma ws_get_run:
  assumes "ws_inv ws" "oldest_chkpt_id ws \<le> c"
  shows "\<exists>r. ws_get b c deferred ws = Inr r \<and>
    (r = None \<longrightarrow> ws_wait_for_keys ws \<or> (ws_next_id ws \<le> c \<and> deferred)) \<and>
    (\<forall>i. r = Some i \<longrightarrow> read_ok ws c b i)"
proof -
  have o: "map_of (ws_chkpts ws) (oldest_chkpt_id ws) = Some (layer ws (oldest_chkpt_id ws))"
    using ws_inv_layer(1) [OF assms(1)] assms(1) ws_inv_oldest [OF assms(1)] by (simp add: ws_inv_def)
  show ?thesis
    by (rule get_scan_ok [OF assms, of b])
      (use assms o in \<open>auto simp: ws_get_def Let_def ws_inv_newest\<close>)
qed

text \<open>
  C7: \<open>get\<close> at a checkpoint of the window or beyond it never raises.  The checkpoint it returns
  holds, for the key, exactly the value a client at that checkpoint sees through the layers (no
  binding when the key was deleted or never put), and under \<open>wait_for_keys\<close> a value from an older
  checkpoint is returned only for a persistent key.  It makes the client wait only under
  \<open>wait_for_keys\<close> or for a future checkpoint that already has deferred operations.
\<close>

theorem ws_get_view:
  assumes "ws_inv ws" "oldest_chkpt_id ws \<le> c"
  shows "\<exists>r. ws_get b c deferred ws = Inr r \<and>
    (r = None \<longrightarrow> ws_wait_for_keys ws \<or> (ws_next_id ws \<le> c \<and> deferred)) \<and>
    (\<forall>i. r = Some i \<longrightarrow> read_ok ws c b i)"
  by (rule ws_get_run [OF assms])

theorem ws_get_view_witness:
  "\<exists>i. ws_get ''k'' 1 False demo_ws = Inr (Some i) \<and> kd_get ''k'' (ck_map (layer demo_ws i)) = Some 0"
  using ws_get_view [OF demo_ws_inv, of 1 "''k''" False] demo_view by (auto simp: read_ok_def)

lemma keys_loop_contents:
  assumes "\<forall>i \<in> set is. map_of cks i = Some (lyr i)"
  shows "\<exists>r. keys_loop False cks is ks = Inr r \<and> (ks_ok ks \<longrightarrow> ks_ok r) \<and>
    (\<forall>b. b \<in> ks_contents r \<longleftrightarrow>
       (if \<exists>i \<in> set is. ck_entry (lyr i) b \<noteq> None then lay.find_value (map lyr (rev is)) b \<noteq> None
        else b \<in> ks_contents ks))"
  using assms
proof (induction "is" arbitrary: ks)
  case Nil
  then show ?case by simp
next
  case (Cons i "is")
  let ?ks = "ks_union (ks_minus ks (ck_deleted (lyr i))) (kd_keys (ck_map (lyr i)))"
  have tl: "\<forall>i \<in> set is. map_of cks i = Some (lyr i)" using Cons.prems by simp
  obtain r where r: "keys_loop False cks is ?ks = Inr r" "ks_ok ?ks \<longrightarrow> ks_ok r"
    "\<forall>b. b \<in> ks_contents r \<longleftrightarrow>
       (if \<exists>i \<in> set is. ck_entry (lyr i) b \<noteq> None then lay.find_value (map lyr (rev is)) b \<noteq> None
        else b \<in> ks_contents ?ks)"
    using Cons.IH [OF tl, of ?ks] by (elim exE conjE)
  have step: "b \<in> ks_contents ?ks \<longleftrightarrow> (case ck_entry (lyr i) b of None \<Rightarrow> b \<in> ks_contents ks | Some v \<Rightarrow> v \<noteq> None)" for b
    by (auto simp: ck_entry_def ks_contents_kd_keys ks_mem_iff split: option.splits)
  have "keys_loop False cks (i # is) ks = Inr r" using Cons.prems r(1) by simp
  moreover have "ks_ok ks \<longrightarrow> ks_ok r" using r(2) by auto
  moreover have "b \<in> ks_contents r \<longleftrightarrow>
      (if \<exists>j \<in> set (i # is). ck_entry (lyr j) b \<noteq> None then lay.find_value (map lyr (rev (i # is))) b \<noteq> None
       else b \<in> ks_contents ks)" for b
    unfolding r(3) [rule_format, of b] step
    by (auto simp: lay.find_value_append split: option.splits)
  ultimately show ?case by blast
qed

text \<open>
  Without \<open>wait_for_keys\<close>, \<open>keys\<close> at a checkpoint returns exactly the keys that have a value
  there, each once: keys deleted or shadowed in between are counted correctly.
\<close>

lemma ws_keys_view:
  assumes inv: "ws_inv ws" and c: "oldest_chkpt_id ws \<le> c" and nowait: "\<not> ws_wait_for_keys ws"
  shows "\<exists>ks. ws_keys c ws = Inr ks \<and> ks_contents ks = {b. view ws c b \<noteq> None} \<and>
              length ks = card {b. view ws c b \<noteq> None}"
proof -
  let ?n = "ws_next_id ws" and ?o = "ws_next_id ws - ws_size ws"
  note bounds = ws_inv_newest [OF inv] ws_inv_oldest [OF inv]
  define idx where "idx = [?o..min c (?n - 1)]"
  have ids: "\<forall>i \<in> set idx. map_of (ws_chkpts ws) i = Some (layer ws i)"
    using ws_inv_layer(1) [OF inv] by (simp add: idx_def)
  obtain r where r: "keys_loop False (ws_chkpts ws) idx [] = Inr r" "ks_ok r"
    and cont: "\<And>b. b \<in> ks_contents r \<longleftrightarrow>
       (if \<exists>i \<in> set idx. ck_entry (layer ws i) b \<noteq> None then lay.find_value (map (layer ws) (rev idx)) b \<noteq> None
        else b \<in> ks_contents [])"
    using keys_loop_contents [OF ids, of "[]"] by auto
  have v: "view ws c b = lay.find_value (map (layer ws) (rev idx)) b" for b
    by (simp add: view_def layers_def idx_def)
  have rv: "ks_contents r = {b. view ws c b \<noteq> None}"
  proof (rule set_eqI)
    fix b
    show "b \<in> ks_contents r \<longleftrightarrow> b \<in> {b. view ws c b \<noteq> None}"
      using find_value_unset [of "map (layer ws) (rev idx)" b] by (auto simp: cont [of b] v)
  qed
  have own: "view ws c b = Some x" if "kd_get b (ck_map (layer ws c)) = Some x" "c < ?n" for b x
  proof -
    have "layers ws c = layer ws c # map (layer ws) (rev [?o..c - 1])"
      using c bounds that(2) by (simp add: layers_def upto_rec2)
    moreover have "ck_entry (layer ws c) b = Some (Some x)" using that(1) by simp
    ultimately show ?thesis by (simp add: view_def del: ck_entry_Some_Some)
  qed
  let ?ks = "case map_of (ws_chkpts ws) c of None \<Rightarrow> r | Some ck \<Rightarrow> ks_union r (kd_keys (ck_map ck))"
  have "ks_contents ?ks = {b. view ws c b \<noteq> None}"
    using rv own ws_inv_mem [OF inv, of c] ws_inv_layer(1) [OF inv, of c]
    by (auto simp: ks_contents_kd_keys split: option.splits)
  moreover have "ks_ok ?ks" using r(2) by (auto split: option.splits)
  moreover have "ws_keys c ws = Inr ?ks"
    using c nowait r(1) by (simp add: ws_keys_def bounds idx_def)
  ultimately show ?thesis using ks_ok_length by metis
qed

section \<open>Writing\<close>

text \<open>Windows reached by advancing: the invariant holds, and no read at a checkpoint that is still
  there changed.\<close>

definition advanced :: "working_set \<Rightarrow> working_set \<Rightarrow> bool" where
  "advanced ws ws' \<longleftrightarrow> ws_inv ws' \<and> ws_size ws' = ws_size ws \<and> ws_next_id ws \<le> ws_next_id ws' \<and>
     ws_wait_for_keys ws' = ws_wait_for_keys ws \<and> ws_wait_for_writers ws' = ws_wait_for_writers ws \<and>
     (\<forall>c b. oldest_chkpt_id ws' \<le> c \<longrightarrow> view ws' c b = view ws c b)"

lemma advanced_refl: "ws_inv ws \<Longrightarrow> advanced ws ws"
  by (simp add: advanced_def)

lemma advanced_trans: "ws_inv ws \<Longrightarrow> advanced ws ws' \<Longrightarrow> advanced ws' ws'' \<Longrightarrow> advanced ws ws''"
  by (auto simp: advanced_def ws_inv_oldest)

lemma advanced_moved: "ws_inv ws \<Longrightarrow> advanced ws (moved ws)"
  using moved_inv [of ws] moved_view [of ws] by (simp add: advanced_def)

text \<open>The loop of \<open>put\<close>: it stops at the checkpoint asked for, or at a checkpoint that cannot
  retire yet.\<close>

definition loop_done :: "int \<Rightarrow> working_set \<Rightarrow> working_set \<Rightarrow> checkpoint list \<Rightarrow> checkpoint list \<Rightarrow> bool" where
  "loop_done c ws ws' ts ts' \<longleftrightarrow> advanced ws ws' \<and>
     (ws_next_id ws' = max (ws_next_id ws) (c + 1) \<or> ws_next_id ws' \<le> c \<and> \<not> may_retire ws') \<and>
     map ck_id ts' = map ck_id ts @ [oldest_chkpt_id ws..oldest_chkpt_id ws' - 1]"

lemma loop_done_step:
  assumes "ws_inv ws" "ws_next_id ws \<le> c" "ck_id p = oldest_chkpt_id ws" "loop_done c (moved ws) ws' (ts @ [p]) ts'"
  shows "loop_done c ws ws' ts ts'"
proof -
  have a: "advanced (moved ws) ws'" using assms(4) by (simp add: loop_done_def)
  have inv': "ws_inv ws'" "ws_inv (moved ws)" using a moved_inv [OF assms(1)] by (simp_all add: advanced_def)
  have "oldest_chkpt_id (moved ws) = oldest_chkpt_id ws + 1"
    using ws_inv_oldest [OF inv'(2)] ws_inv_oldest [OF assms(1)] by simp
  moreover have "oldest_chkpt_id (moved ws) \<le> oldest_chkpt_id ws'"
    using a ws_inv_oldest [OF inv'(1)] ws_inv_oldest [OF inv'(2)] by (simp add: advanced_def)
  ultimately have "map ck_id ts' = map ck_id ts @ [oldest_chkpt_id ws..oldest_chkpt_id ws' - 1]"
    using assms(3,4) by (simp add: loop_done_def upto_rec1 [of "oldest_chkpt_id ws"])
  then show ?thesis
    using assms advanced_trans [OF assms(1) advanced_moved [OF assms(1)] a]
    by (auto simp: loop_done_def)
qed

lemma put_loop_run:
  assumes "ws_inv ws" "newest = ws_next_id ws - 1 \<or> newest = min (ws_next_id ws - 1) c"
  shows "\<exists>ws' ts'. put_loop c newest ws ts = (Inr (), ws', ts') \<and> loop_done c ws ws' ts ts'"
  using assms
proof (induction c newest ws ts rule: put_loop.induct)
  case (1 c newest ws ts)
  obtain kvs where a: "advance ws = (if may_retire ws
       then (Inr True, moved ws, [(next_parent ws)\<lparr>ck_kvs_to_clear := kvs, ck_reattach := Some False\<rparr>])
       else (Inr False, ws, []))"
    by (rule advance_run [OF 1(2)])
  have stop: "loop_done c ws ws ts ts" if "ws_next_id ws \<le> c \<longrightarrow> \<not> may_retire ws"
    using that advanced_refl [OF 1(2)] by (auto simp: loop_done_def)
  show ?case
  proof (cases "newest < c \<and> may_retire ws")
    case True
    then obtain p where p: "advance ws = (Inr True, moved ws, [p])" "ck_id p = oldest_chkpt_id ws"
      using a next_parent_child(3) [OF 1(2)] ws_inv_oldest [OF 1(2)] by simp
    obtain ws' ts' where r: "put_loop c (min (ws_next_id (moved ws) - 1) c) (moved ws) (ts @ [p]) = (Inr (), ws', ts')"
      "loop_done c (moved ws) ws' (ts @ [p]) ts'"
      using 1(1) [OF _ p(1) [symmetric] refl refl] True moved_inv [OF 1(2)] by auto
    have "put_loop c newest ws ts = (Inr (), ws', ts')"
      using True p(1) r(1) by (subst put_loop.simps) simp
    moreover have "ws_next_id ws \<le> c" using True 1(3) by auto
    ultimately show ?thesis using loop_done_step [OF 1(2) _ p(2) r(2)] by blast
  next
    case False
    then have "put_loop c newest ws ts = (Inr (), ws, ts)" using a by (subst put_loop.simps) auto
    moreover have "ws_next_id ws \<le> c \<longrightarrow> \<not> may_retire ws" using False 1(3) by auto
    ultimately show ?thesis using stop by blast
  qed
qed

lemma loop_done_mem:
  assumes "ws_inv ws" "\<not> c < oldest_chkpt_id ws" "loop_done c ws ws' ts ts'"
  shows "(\<exists>ck. map_of (ws_chkpts ws') c = Some ck) \<longleftrightarrow> c < ws_next_id ws'"
proof -
  have inv': "ws_inv ws'" and sz: "ws_size ws' = ws_size ws" "ws_next_id ws \<le> ws_next_id ws'"
    and win: "ws_next_id ws' = max (ws_next_id ws) (c + 1) \<or> ws_next_id ws' \<le> c \<and> \<not> may_retire ws'"
    using assms(3) by (auto simp: loop_done_def advanced_def)
  have "ws_next_id ws' - ws_size ws' \<le> c" if "c < ws_next_id ws'"
    using that win assms(2) sz ws_inv_oldest [OF assms(1)] assms(1) by (auto simp: ws_inv_def max_def split: if_splits)
  then show ?thesis using ws_inv_mem [OF inv', of c] by auto
qed

text \<open>
  \<open>put\<close> always returns.  At a checkpoint older than the window it raises the
  checkpoint-retired error and changes nothing.  Otherwise it moves the window just far enough
  and returns the checkpoint asked for, or it asks to wait because a checkpoint in the way cannot
  retire yet; no read at a checkpoint still in the window changes, and the checkpoints that left
  the window were retired one by one, oldest first.
\<close>

lemma ws_put_window:
  assumes "ws_inv ws"
  shows "if c < oldest_chkpt_id ws then ws_put c ws = (Inl DDictCheckpointSyncError, ws, [])
    else \<exists>ws' ts. ws_put c ws = (Inr (if c < ws_next_id ws' then Some c else None), ws', ts) \<and>
      advanced ws ws' \<and> map ck_id ts = [oldest_chkpt_id ws..oldest_chkpt_id ws' - 1] \<and>
      (if c < ws_next_id ws' then ws_next_id ws' = max (ws_next_id ws) (c + 1) else \<not> may_retire ws')"
proof (cases "c < oldest_chkpt_id ws")
  case True
  then show ?thesis by (simp add: ws_put_def ws_inv_newest [OF assms])
next
  case False
  obtain ws' ts where r: "put_loop c (ws_next_id ws - 1) ws [] = (Inr (), ws', ts)" "loop_done c ws ws' [] ts"
    using put_loop_run [OF assms, of _ c "[]"] by blast
  note mem = loop_done_mem [OF assms _ r(2)]
  have "ws_put c ws = (Inr (if c < ws_next_id ws' then Some c else None), ws', ts)"
    using False r(1) mem by (simp add: ws_put_def ws_inv_newest [OF assms])
  then show ?thesis using False r(2) by (auto simp: loop_done_def)
qed

text \<open>The loop of \<open>access\<close> tests membership instead of comparing ids.\<close>

lemma access_loop_run:
  assumes "ws_inv ws" "oldest_chkpt_id ws \<le> c"
  shows "\<exists>ws' ts'. access_loop c ws ts = Some (Inr (), ws', ts') \<and> loop_done c ws ws' ts ts'"
  using assms
proof (induction "nat (c + 1 - ws_next_id ws)" arbitrary: ws ts rule: less_induct)
  case less
  obtain kvs where a: "advance ws = (if may_retire ws
       then (Inr True, moved ws, [(next_parent ws)\<lparr>ck_kvs_to_clear := kvs, ck_reattach := Some False\<rparr>])
       else (Inr False, ws, []))"
    by (rule advance_run [OF less(2)])
  have mem: "(\<exists>ck. map_of (ws_chkpts ws) c = Some ck) \<longleftrightarrow> c < ws_next_id ws"
    using ws_inv_mem [OF less(2), of c] less(3) ws_inv_oldest [OF less(2)] by auto
  show ?case
  proof (cases "c < ws_next_id ws \<or> \<not> may_retire ws")
    case True
    then have "access_loop c ws ts = Some (Inr (), ws, ts)"
      using a mem by (subst access_loop.simps) auto
    moreover have "loop_done c ws ws ts ts" using True advanced_refl [OF less(2)] by (auto simp: loop_done_def)
    ultimately show ?thesis by blast
  next
    case False
    then obtain p where p: "advance ws = (Inr True, moved ws, [p])" "ck_id p = oldest_chkpt_id ws"
      using a next_parent_child(3) [OF less(2)] ws_inv_oldest [OF less(2)] by simp
    have c': "oldest_chkpt_id (moved ws) \<le> c"
      using False ws_inv_oldest [OF moved_inv [OF less(2)]] less(2) by (simp add: ws_inv_def)
    obtain ws' ts' where r: "access_loop c (moved ws) (ts @ [p]) = Some (Inr (), ws', ts')"
      "loop_done c (moved ws) ws' (ts @ [p]) ts'"
      using less(1) [of "moved ws" "ts @ [p]", OF _ moved_inv [OF less(2)] c'] False by auto
    have "access_loop c ws ts = Some (Inr (), ws', ts')"
      using False p(1) r(1) mem by (subst access_loop.simps) simp
    then show ?thesis using loop_done_step [OF less(2) _ p(2) r(2)] False by auto
  qed
qed

text \<open>
  \<open>access\<close> terminates: although its loop tests only membership, from a well-formed window it
  returns for every checkpoint id, with the same outcome as \<open>put\<close>.
\<close>

lemma ws_access_returns:
  assumes "ws_inv ws"
  shows "\<exists>r ws' ts. ws_access c ws = Some (r, ws', ts) \<and>
    (if c < oldest_chkpt_id ws then r = Inl DDictCheckpointSyncError \<and> ws' = ws \<and> ts = []
     else r = Inr (if c < ws_next_id ws' then Some c else None) \<and> advanced ws ws' \<and>
       map ck_id ts = [oldest_chkpt_id ws..oldest_chkpt_id ws' - 1] \<and>
       (ws_next_id ws' \<le> c \<longrightarrow> \<not> may_retire ws'))"
proof (cases "c < oldest_chkpt_id ws")
  case True
  then show ?thesis by (simp add: ws_access_def)
next
  case False
  obtain ws' ts where r: "access_loop c ws [] = Some (Inr (), ws', ts)" "loop_done c ws ws' [] ts"
    using access_loop_run [OF assms, of c "[]"] False by auto
  note mem = loop_done_mem [OF assms _ r(2)]
  have "ws_access c ws = Some (Inr (if c < ws_next_id ws' then Some c else None), ws', ts)"
    using False r(1) mem by (simp add: ws_access_def)
  then show ?thesis using False r(2) by (auto simp: loop_done_def)
qed

section \<open>Waiting for keys and writers\<close>

lemma must_wait_for_keys_iff:
  "must_wait_for_keys p c \<longleftrightarrow>
     (\<exists>b. kd_mem b (ck_map p) \<and> \<not> ks_mem b (ck_persist p) \<and> \<not> (kd_mem b (ck_map c) \<and> \<not> ks_mem b (ck_persist c)))"
proof -
  have "must_wait_for_keys p c \<longleftrightarrow> ks_contents (ks_minus (ks_minus (kd_keys (ck_map p)) (ck_persist p))
        (ks_minus (ks_minus (kd_keys (ck_map c)) (ck_persist c)) (ck_persist p))) \<noteq> {}"
    unfolding must_wait_for_keys_def by (metis ks_contents_def image_is_empty set_empty)
  then show ?thesis by (auto simp: ks_contents_kd_keys ks_mem_iff kd_mem_def)
qed

text \<open>
  Under \<open>wait_for_keys\<close> a checkpoint retires only when each of its non-persistent keys has been
  written again, as a non-persistent key, in the next checkpoint; so only persistent keys are
  handed down, and they stay persistent.  Under \<open>wait_for_writers\<close> it retires only when each of
  its writers has written the next checkpoint.
\<close>

lemma retire_waits:
  assumes "ws_inv ws" "advance ws = (Inr True, ws', ts)"
  shows "(ws_wait_for_keys ws \<longrightarrow>
      (\<forall>b. kd_mem b (ck_map (next_parent ws)) \<and> \<not> ks_mem b (ck_persist (next_parent ws)) \<longrightarrow>
           kd_mem b (ck_map (next_child ws)) \<and> \<not> ks_mem b (ck_persist (next_child ws))) \<and>
      (\<forall>b. kd_mem b (ck_map (next_parent ws)) \<and> handed_down (next_child ws) b \<longrightarrow>
           ks_mem b (ck_persist (next_parent ws)) \<and> ks_mem b (ck_persist (layer ws' (oldest_chkpt_id ws'))))) \<and>
    (ws_wait_for_writers ws \<longrightarrow> ck_writers (next_parent ws) \<subseteq> ck_writers (next_child ws))"
proof -
  note pc = next_parent_child [OF assms(1)]
  obtain kvs where a: "advance ws = (if may_retire ws
       then (Inr True, moved ws, [(next_parent ws)\<lparr>ck_kvs_to_clear := kvs, ck_reattach := Some False\<rparr>])
       else (Inr False, ws, []))"
    by (rule advance_run [OF assms(1)])
  have may: "may_retire ws" and ws': "ws' = moved ws" using a assms(2) by (auto split: if_splits)
  have bottom: "layer ws' (oldest_chkpt_id ws') = absorb (ws_wait_for_keys ws) (next_parent ws) (next_child ws)"
    using ws' ws_inv_oldest [OF moved_inv [OF assms(1)]] by (simp add: layer_def moved_layers [OF assms(1)])
  have keys: "ws_wait_for_keys ws \<Longrightarrow> \<not> must_wait_for_keys (next_parent ws) (next_child ws)"
    using may by (simp add: may_retire_def)
  have "ws_wait_for_writers ws \<longrightarrow> ck_writers (next_parent ws) \<subseteq> ck_writers (next_child ws)"
    using may by (auto simp: may_retire_def must_wait_for_writers_def)
  then show ?thesis
    using keys by (auto simp: must_wait_for_keys_iff bottom ks_mem_iff absorb_gets [OF pc(1,2)] handed_down_def)
qed

definition demo_wait :: working_set where
  "demo_wait = demo_ws\<lparr>ws_wait_for_keys := True,
     ws_chkpts := [(0, (layer demo_ws 0)\<lparr>ck_persist := [demo_alloc 1 ''k'']\<rparr>), (1, new_checkpoint 1)]\<rparr>"

lemma demo_wait_layers:
  "next_parent demo_wait = (layer demo_ws 0)\<lparr>ck_persist := [demo_alloc 1 ''k'']\<rparr>"
  "next_child demo_wait = new_checkpoint 1" "ws_wait_for_keys demo_wait" "\<not> ws_wait_for_writers demo_wait"
  by (simp_all add: next_parent_def next_child_def layer_def demo_wait_def)

lemma demo_wait_inv: "ws_inv demo_wait"
proof -
  have "ck_ok ((layer demo_ws 0)\<lparr>ck_persist := [demo_alloc 1 ''k'']\<rparr>)" "ck_id (layer demo_ws 0) = 0"
    using ws_inv_layer [OF demo_ws_inv, of 0] by (auto simp: ck_ok_def ks_ok_def)
  then show ?thesis by (auto simp: ws_inv_def demo_wait_def d_keys_def split: if_splits)
qed

lemma new_window_run:
  assumes "1 \<le> wsz" "0 \<le> start"
  shows "ws_inv (make_working_set wsz wfk wfw start False freq) \<and>
    ws_range (make_working_set wsz wfk wfw start False freq) = Inr (start, start + wsz - 1) \<and>
    (\<forall>c b. view (make_working_set wsz wfk wfw start False freq) c b = None)"
proof -
  let ?ws = "make_working_set wsz wfk wfw start False freq"
  have keys: "d_keys (ws_chkpts ?ws) = [start..start + wsz - 1]"
    by (simp add: make_working_set_def d_keys_def comp_def)
  have m: "map_of (ws_chkpts ?ws) i = Some ck \<Longrightarrow> ck = new_checkpoint i" for i ck
    by (auto simp: make_working_set_def dest: map_of_SomeD)
  have f: "ws_next_id ?ws = start + wsz" "ws_size ?ws = wsz" by (simp_all add: make_working_set_def)
  have inv: "ws_inv ?ws"
    unfolding ws_inv_def keys f using assms by (auto simp: set_upto dest!: m)
  have "view ?ws c b = None" for c b
    unfolding view_def layers_def
    by (rule find_value_unset) (use m ws_inv_layer(1) [OF inv] in \<open>fastforce simp: f\<close>)
  then show ?thesis using inv ws_inv_range [OF inv] f by simp
qed

lemma new_window_inv: "1 \<le> wsz \<Longrightarrow> 0 \<le> start \<Longrightarrow> ws_inv (make_working_set wsz wfk wfw start False freq)"
  using new_window_run by blast

end
