(* ===== verification/Persister.thy ===== *)
theory Persister
  imports Checkpoint
begin

text \<open>
  The checkpoint persisters of \<open>data/ddict/ddict.py\<close>: \<open>NULLCheckpointPersister\<close>, which stores
  nothing, and \<open>PosixCheckpointPersister\<close>, which keeps one file per persisted checkpoint.  A file is
  its pickled checkpoint followed by the records (id, contents) of its memory; the byte encoding of
  these (by cloudpickle and 8-byte lengths) is not modelled.  The directory is part of the state,
  restricted to the files of this manager.  Writing to the file system is assumed to succeed.
\<close>

record chkpt_file =
  cf_chkpt :: pickled
  cf_mems :: "(nat \<times> bytes) list"

datatype persister_kind = NULLCheckpointPersister | PosixCheckpointPersister

record persister =
  ps_kind :: persister_kind
  ps_freq :: int
  ps_count :: int
  ps_num :: int
  ps_avail :: "int list"
  ps_current :: int
  ps_files :: "(int, chkpt_file) pydict"

text \<open>\<open>__init__\<close>: the available checkpoints are read off the file names.\<close>

definition make_persister :: "persister_kind \<Rightarrow> int \<Rightarrow> int \<Rightarrow> (int, chkpt_file) pydict \<Rightarrow> persister" where
  "make_persister k freq count files =
     \<lparr>ps_kind = k, ps_freq = freq, ps_count = count, ps_num = int (length files),
      ps_avail = sort (d_keys files), ps_current = 0, ps_files = files\<rparr>"

text \<open>\<open>os.remove\<close>\<close>

definition os_remove :: "int \<Rightarrow> (persister, unit) pym" where
  "os_remove i ps = (if map_of (ps_files ps) i = None then (Inl FileNotFoundError, ps)
                     else (Inr (), ps\<lparr>ps_files := AList.delete i (ps_files ps)\<rparr>))"

text \<open>The loop of \<open>dump\<close> that makes room: \<open>ps_num\<close> counts down, so it ends.\<close>

function make_room :: "(persister, unit) pym" where
  "make_room ps =
     (if ps_count ps \<le> ps_num ps then
        (case ps_avail ps of
           [] \<Rightarrow> (Inl IndexError, ps)
         | i # rest \<Rightarrow>
             (case os_remove i ps of
                (Inl e, ps') \<Rightarrow> (Inl e, ps')
              | (Inr _, ps') \<Rightarrow> make_room (ps'\<lparr>ps_avail := rest, ps_num := ps_num ps' - 1\<rparr>)))
      else (Inr (), ps))"
  by pat_completeness auto
termination
  by (relation "measure (\<lambda>ps. length (ps_avail ps))") (auto simp: os_remove_def split: if_splits)

declare make_room.simps [simp del]

definition skip_dump :: "bool \<Rightarrow> int \<Rightarrow> persister \<Rightarrow> bool" where
  "skip_dump force i ps = (\<not> force \<and> (ps_freq ps = 0 \<or> ps_count ps = 0 \<or> i mod ps_freq ps \<noteq> 0))"

text \<open>
  \<open>dump\<close>: \<open>i\<close> is the id of the checkpoint and \<open>content\<close> what is written for it, an exception when one
  of its handles cannot be read (the file then holds only what was written before).
\<close>

definition note_chkpt :: "int \<Rightarrow> persister \<Rightarrow> persister" where
  "note_chkpt i ps = (if i \<in> set (ps_avail ps) then ps else ps\<lparr>ps_avail := insort i (ps_avail ps)\<rparr>)"

definition posix_dump :: "bool \<Rightarrow> int \<Rightarrow> chkpt_file \<Rightarrow> chkpt_file res \<Rightarrow> (persister, unit) pym" where
  "posix_dump force i partial content ps =
     (if skip_dump force i ps then (Inr (), ps)
      else (case (if ps_count ps = -1 then (Inr (), ps) else make_room ps) of
          (Inl e, ps1) \<Rightarrow> (Inl RuntimeError, ps1)
        | (Inr _, ps1) \<Rightarrow>
            (let new_id_added = (i \<notin> set (ps_avail ps1)); ps2 = note_chkpt i ps1 in
             case content of
               Inl e \<Rightarrow>
                 (Inl RuntimeError,
                  ps2\<lparr>ps_files := AList.update i partial (ps_files ps2),
                      ps_avail := (if new_id_added then remove1 i (ps_avail ps2) else ps_avail ps2)\<rparr>)
             | Inr cf \<Rightarrow>
                 (Inr (),
                  ps2\<lparr>ps_files := AList.update i cf (ps_files ps2),
                      ps_num := (if new_id_added then ps_num ps2 + 1 else ps_num ps2)\<rparr>))))"

definition persister_dump :: "bool \<Rightarrow> int \<Rightarrow> chkpt_file \<Rightarrow> chkpt_file res \<Rightarrow> (persister, unit) pym" where
  "persister_dump force i partial content ps =
     (case ps_kind ps of NULLCheckpointPersister \<Rightarrow> (Inr (), ps)
      | PosixCheckpointPersister \<Rightarrow> posix_dump force i partial content ps)"

text \<open>\<open>position\<close>, \<open>advance\<close>, \<open>checkpoints\<close>, \<open>current_chkpt\<close> (\<open>None\<close> for the NULL persister).\<close>

definition persister_position :: "int \<Rightarrow> (persister, unit) pym" where
  "persister_position i ps =
     (case ps_kind ps of NULLCheckpointPersister \<Rightarrow> (Inl NotImplementedError, ps)
      | PosixCheckpointPersister \<Rightarrow>
          if i \<in> set (ps_avail ps) then (Inr (), ps\<lparr>ps_current := i\<rparr>)
          else (Inl DDictPersistCheckpointError, ps))"

definition persister_advance :: "(persister, unit) pym" where
  "persister_advance ps =
     (case ps_kind ps of NULLCheckpointPersister \<Rightarrow> (Inl NotImplementedError, ps)
      | PosixCheckpointPersister \<Rightarrow> persister_position (ps_current ps + ps_freq ps) ps)"

definition persister_checkpoints :: "persister \<Rightarrow> int list" where
  "persister_checkpoints ps =
     (case ps_kind ps of NULLCheckpointPersister \<Rightarrow> [] | PosixCheckpointPersister \<Rightarrow> ps_avail ps)"

definition current_chkpt :: "persister \<Rightarrow> int option" where
  "current_chkpt ps =
     (case ps_kind ps of NULLCheckpointPersister \<Rightarrow> None | PosixCheckpointPersister \<Rightarrow> Some (ps_current ps))"

text \<open>\<open>_cleanup_later_chkpts\<close>: pops the list but leaves the counter \<open>_num_persists\<close>.\<close>

function cleanup_later_chkpts :: "(persister, unit) pym" where
  "cleanup_later_chkpts ps =
     (if ps_avail ps \<noteq> [] \<and> ps_current ps < last (ps_avail ps) then
        (case os_remove (last (ps_avail ps)) (ps\<lparr>ps_avail := butlast (ps_avail ps)\<rparr>) of
           (Inl e, ps') \<Rightarrow> (Inl e, ps')
         | (Inr _, ps') \<Rightarrow> cleanup_later_chkpts ps')
      else (Inr (), ps))"
  by pat_completeness auto
termination
  by (relation "measure (\<lambda>ps. length (ps_avail ps))") (auto simp: os_remove_def split: if_splits)

declare cleanup_later_chkpts.simps [simp del]

text \<open>\<open>open(file_name)\<close> of \<open>load\<close>\<close>

definition open_current :: "persister \<Rightarrow> chkpt_file res" where
  "open_current ps =
     (case ps_kind ps of NULLCheckpointPersister \<Rightarrow> Inl NotImplementedError
      | PosixCheckpointPersister \<Rightarrow>
          (case map_of (ps_files ps) (ps_current ps) of None \<Rightarrow> Inl FileNotFoundError | Some cf \<Rightarrow> Inr cf))"

section \<open>Invariant\<close>

text \<open>The list of available checkpoints is sorted without repetition and says exactly which files
  exist; the counter is its length.\<close>

definition ps_listed :: "persister \<Rightarrow> bool" where
  "ps_listed ps \<longleftrightarrow> sorted (ps_avail ps) \<and> distinct (ps_avail ps) \<and>
     (\<forall>i. i \<in> set (ps_avail ps) \<longleftrightarrow> map_of (ps_files ps) i \<noteq> None)"

definition ps_inv :: "persister \<Rightarrow> bool" where
  "ps_inv ps \<longleftrightarrow> ps_listed ps \<and> ps_num ps = int (length (ps_avail ps))"

lemma make_persister_inv: "distinct (d_keys files) \<Longrightarrow> ps_inv (make_persister k freq count files)"
  by (simp add: ps_inv_def ps_listed_def make_persister_def)

lemma make_room_run:
  assumes "ps_inv ps" "0 < ps_count ps"
  shows "\<exists>ps'. make_room ps = (Inr (), ps') \<and> ps_inv ps' \<and> ps_num ps' < ps_count ps \<and>
     ps_avail ps' = drop (nat (ps_num ps - ps_count ps + 1)) (ps_avail ps) \<and>
     ps' = ps\<lparr>ps_avail := ps_avail ps', ps_num := ps_num ps', ps_files := ps_files ps'\<rparr> \<and>
     (\<forall>i \<in> set (ps_avail ps'). map_of (ps_files ps') i = map_of (ps_files ps) i)"
  using assms
proof (induction ps rule: make_room.induct)
  case (1 ps)
  show ?case
  proof (cases "ps_count ps \<le> ps_num ps")
    case False
    then show ?thesis using 1(2) by (subst make_room.simps) simp
  next
    case True
    then obtain i rest where a: "ps_avail ps = i # rest"
      using 1(2,3) by (cases "ps_avail ps") (auto simp: ps_inv_def)
    obtain f where f: "map_of (ps_files ps) i = Some f" using 1(2) a by (auto simp: ps_inv_def ps_listed_def)
    let ?ps1 = "ps\<lparr>ps_files := AList.delete i (ps_files ps)\<rparr>"
    let ?ps2 = "?ps1\<lparr>ps_avail := rest, ps_num := ps_num ps - 1\<rparr>"
    have rm: "os_remove i ps = (Inr (), ?ps1)" using f by (simp add: os_remove_def)
    have inv2: "ps_inv ?ps2" using 1(2) a by (auto simp: ps_inv_def ps_listed_def)
    obtain ps' where r: "make_room ?ps2 = (Inr (), ps')" "ps_inv ps'" "ps_num ps' < ps_count ps"
      "ps_avail ps' = drop (nat (ps_num ps - ps_count ps)) rest"
      "ps' = ?ps2\<lparr>ps_avail := ps_avail ps', ps_num := ps_num ps', ps_files := ps_files ps'\<rparr>"
      "\<forall>j \<in> set (ps_avail ps'). map_of (ps_files ps') j = map_of (AList.delete i (ps_files ps)) j"
      using 1(1) [OF True a rm [symmetric]] inv2 1(3) by auto
    have "make_room ps = (Inr (), ps')" using True a rm r(1) by (subst make_room.simps) simp
    moreover have "ps_avail ps' = drop (nat (ps_num ps - ps_count ps + 1)) (ps_avail ps)"
      using r(4) a True by (simp add: nat_add_distrib)
    moreover have "i \<notin> set (ps_avail ps')"
      using r(4) a 1(2) set_drop_subset [of _ rest] by (auto simp: ps_inv_def ps_listed_def)
    ultimately show ?thesis using r by (intro exI [of _ ps']) auto
  qed
qed

lemma note_chkpt_listed:
  assumes "ps_listed ps"
  shows "ps_listed ((note_chkpt i ps)\<lparr>ps_files := AList.update i f (ps_files ps)\<rparr>)"
  using assms by (auto simp: ps_listed_def note_chkpt_def set_insort_key distinct_insort sorted_insort)

text \<open>
  C17: A dump that is due writes the checkpoint's file, keeps the list of available checkpoints in
  step with the directory, and never leaves more files than \<open>persist_count\<close>: when the limit is
  reached exactly the oldest files go.  A dump that is not due (frequency or count zero, or an id
  that is not a multiple of the frequency) does nothing.
\<close>

theorem posix_dump_bounded:
  assumes "ps_inv ps" "ps_count ps = -1 \<or> 0 < ps_count ps"
  shows "if skip_dump force i ps then posix_dump force i partial (Inr cf) ps = (Inr (), ps)
   else \<exists>ps'. posix_dump force i partial (Inr cf) ps = (Inr (), ps') \<and> ps_inv ps' \<and>
     map_of (ps_files ps') i = Some cf \<and>
     (0 < ps_count ps \<longrightarrow> ps_num ps' \<le> ps_count ps) \<and>
     (\<forall>j. j \<in> set (ps_avail ps') \<and> j \<noteq> i \<longrightarrow> map_of (ps_files ps') j = map_of (ps_files ps) j) \<and>
     set (ps_avail ps') = insert i (set (drop
        (if ps_count ps = -1 then 0 else nat (ps_num ps - ps_count ps + 1)) (ps_avail ps)))"
proof (cases "skip_dump force i ps")
  case True
  then show ?thesis by (simp add: posix_dump_def)
next
  case False
  let ?r = "if ps_count ps = -1 then (Inr (), ps) else make_room ps"
  obtain ps1 where ps1: "?r = (Inr (), ps1)" "ps_inv ps1" "0 < ps_count ps \<longrightarrow> ps_num ps1 < ps_count ps"
    "ps_avail ps1 = drop (if ps_count ps = -1 then 0 else nat (ps_num ps - ps_count ps + 1)) (ps_avail ps)"
    "\<forall>j \<in> set (ps_avail ps1). map_of (ps_files ps1) j = map_of (ps_files ps) j"
  proof (cases "ps_count ps = -1")
    case True
    then show thesis using that [of ps] assms(1) by simp
  next
    case False
    then obtain ps' where "make_room ps = (Inr (), ps')" "ps_inv ps'" "ps_num ps' < ps_count ps"
      "ps_avail ps' = drop (nat (ps_num ps - ps_count ps + 1)) (ps_avail ps)"
      "\<forall>i \<in> set (ps_avail ps'). map_of (ps_files ps') i = map_of (ps_files ps) i"
      using make_room_run [OF assms(1)] assms(2) by auto
    then show thesis using that [of ps'] False by simp
  qed
  let ?ps' = "(note_chkpt i ps1)\<lparr>ps_files := AList.update i cf (ps_files ps1),
      ps_num := (if i \<notin> set (ps_avail ps1) then ps_num ps1 + 1 else ps_num ps1)\<rparr>"
  have "posix_dump force i partial (Inr cf) ps = (Inr (), ?ps')"
    using False ps1(1) by (simp add: posix_dump_def Let_def note_chkpt_def)
  moreover have "ps_inv ?ps'"
    using ps1(2) note_chkpt_listed [of ps1 i cf]
    by (auto simp: ps_inv_def note_chkpt_def ps_listed_def)
  moreover have "set (ps_avail ?ps') = insert i (set (ps_avail ps1))"
    by (auto simp: note_chkpt_def set_insort_key)
  moreover have "\<forall>j. j \<in> set (ps_avail ?ps') \<and> j \<noteq> i \<longrightarrow> map_of (ps_files ?ps') j = map_of (ps_files ps) j"
    using ps1(5) by (auto simp: note_chkpt_def set_insort_key)
  moreover have "map_of (ps_files ?ps') i = Some cf" "0 < ps_count ps \<longrightarrow> ps_num ?ps' \<le> ps_count ps"
    using ps1(3) by auto
  ultimately show ?thesis unfolding if_not_P [OF False] ps1(4) [symmetric] by blast
qed

definition demo_file :: "int \<Rightarrow> chkpt_file" where
  "demo_file i = \<lparr>cf_chkpt = \<lparr>pk_id = i, pk_key_allocs = [], pk_map = [], pk_deleted = [], pk_persist = [],
      pk_writers = {}, pk_pool = False, pk_reattach = False\<rparr>, cf_mems = []\<rparr>"

theorem posix_dump_bounded_witness:
  "\<exists>ps'. posix_dump False 4 (demo_file 4) (Inr (demo_file 4))
      (make_persister PosixCheckpointPersister 2 2 [(0, demo_file 0), (2, demo_file 2)]) = (Inr (), ps') \<and>
    ps_num ps' \<le> 2 \<and> set (ps_avail ps') = {2, 4}"
proof -
  let ?ps = "make_persister PosixCheckpointPersister 2 2 [(0, demo_file 0), (2, demo_file 2)]"
  have "ps_inv ?ps" by (rule make_persister_inv) (simp add: d_keys_def)
  moreover have "\<not> skip_dump False 4 ?ps" "ps_count ?ps = 2" "ps_num ?ps = 2" "ps_avail ?ps = [0, 2]"
    by (simp_all add: skip_dump_def make_persister_def d_keys_def)
  ultimately show ?thesis
    using posix_dump_bounded [of ?ps False 4 "demo_file 4" "demo_file 4"] by auto
qed

lemma cleanup_later_run:
  assumes "ps_listed ps"
  shows "\<exists>ps'. cleanup_later_chkpts ps = (Inr (), ps') \<and> ps_listed ps' \<and>
     ps_avail ps' = takeWhile (\<lambda>i. i \<le> ps_current ps) (ps_avail ps) \<and>
     (\<forall>i. map_of (ps_files ps') i = (if i \<le> ps_current ps then map_of (ps_files ps) i else None)) \<and>
     ps_num ps' = ps_num ps"
  using assms
proof (induction ps rule: cleanup_later_chkpts.induct)
  case (1 ps)
  show ?case
  proof (cases "ps_avail ps \<noteq> [] \<and> ps_current ps < last (ps_avail ps)")
    case False
    have le: "i \<le> ps_current ps" if "i \<in> set (ps_avail ps)" for i
    proof -
      have "i \<le> last (ps_avail ps)" using that 1(2) by (auto simp: ps_listed_def intro: sorted_le_last)
      then show ?thesis using False that by auto
    qed
    then have tw: "takeWhile (\<lambda>i. i \<le> ps_current ps) (ps_avail ps) = ps_avail ps" by (simp add: takeWhile_eq_all_conv)
    have none: "map_of (ps_files ps) i = None" if "\<not> i \<le> ps_current ps" for i
      using that le [of i] 1(2) unfolding ps_listed_def by blast
    have "cleanup_later_chkpts ps = (Inr (), ps)" using False by (subst cleanup_later_chkpts.simps) auto
    then show ?thesis using 1(2) by (simp add: tw none)
  next
    case True
    let ?l = "last (ps_avail ps)"
    have split: "ps_avail ps = butlast (ps_avail ps) @ [?l]" using True by simp
    let ?ps1 = "ps\<lparr>ps_avail := butlast (ps_avail ps), ps_files := AList.delete ?l (ps_files ps)\<rparr>"
    have "map_of (ps_files ps) ?l \<noteq> None" using True 1(2) by (auto simp: ps_listed_def)
    then have rm: "os_remove ?l (ps\<lparr>ps_avail := butlast (ps_avail ps)\<rparr>) = (Inr (), ?ps1)"
      by (simp add: os_remove_def)
    have inv1: "ps_listed ?ps1"
      using 1(2) unfolding ps_listed_def
      by (subst (asm) (1 2 3) split) (auto simp: sorted_append)
    obtain ps' where r: "cleanup_later_chkpts ?ps1 = (Inr (), ps')" "ps_listed ps'"
      "ps_avail ps' = takeWhile (\<lambda>i. i \<le> ps_current ps) (butlast (ps_avail ps))"
      "\<forall>i. map_of (ps_files ps') i = (if i \<le> ps_current ps then map_of (AList.delete ?l (ps_files ps)) i else None)"
      "ps_num ps' = ps_num ps"
      using 1(1) [OF True rm [symmetric] refl inv1] by auto
    have "takeWhile (\<lambda>i. i \<le> ps_current ps) (ps_avail ps) = takeWhile (\<lambda>i. i \<le> ps_current ps) (butlast (ps_avail ps))"
      using True by (simp add: takeWhile_butlast)
    moreover have "cleanup_later_chkpts ps = (Inr (), ps')"
      using True rm r(1) by (subst cleanup_later_chkpts.simps) simp
    ultimately show ?thesis using r True by auto
  qed
qed

section \<open>The counter after a restore\<close>

text \<open>\<open>_cleanup_later_chkpts\<close> leaves \<open>_num_persists\<close> too high.  When the excess reaches
  \<open>persist_count\<close> the loop of the next dump runs the list empty.\<close>

lemma make_room_exhausts:
  assumes "ps_listed ps" "ps_count ps \<le> ps_num ps - int (length (ps_avail ps))"
  shows "\<exists>ps'. make_room ps = (Inl IndexError, ps') \<and> ps_avail ps' = [] \<and>
           (\<forall>i \<in> set (ps_avail ps). map_of (ps_files ps') i = None) \<and>
           (\<forall>i. map_of (ps_files ps) i = None \<longrightarrow> map_of (ps_files ps') i = None)"
  using assms
proof (induction ps rule: make_room.induct)
  case (1 ps)
  show ?case
  proof (cases "ps_avail ps")
    case Nil
    then show ?thesis using 1(3) by (subst make_room.simps) simp
  next
    case (Cons i rest)
    let ?ps1 = "ps\<lparr>ps_files := AList.delete i (ps_files ps)\<rparr>"
    let ?ps2 = "?ps1\<lparr>ps_avail := rest, ps_num := ps_num ps - 1\<rparr>"
    have c: "ps_count ps \<le> ps_num ps" using 1(3) by simp
    have rm: "os_remove i ps = (Inr (), ?ps1)" using 1(2) Cons by (auto simp: os_remove_def ps_listed_def)
    have "ps_listed ?ps2" using 1(2) Cons by (auto simp: ps_listed_def)
    then obtain ps' where r: "make_room ?ps2 = (Inl IndexError, ps')" "ps_avail ps' = []"
      "\<forall>j \<in> set rest. map_of (ps_files ps') j = None"
      "\<forall>j. map_of (AList.delete i (ps_files ps)) j = None \<longrightarrow> map_of (ps_files ps') j = None"
      using 1(1) [OF c Cons rm [symmetric]] 1(3) Cons by auto
    have "make_room ps = (Inl IndexError, ps')" using c Cons rm r(1) by (subst make_room.simps) simp
    then show ?thesis using r(2,3,4) Cons by auto
  qed
qed

text \<open>
  When a restore removed so many later checkpoints that the counter exceeds the list by
  \<open>persist_count\<close>, the next dump that is due fails with a RuntimeError, and before failing it removes
  every persisted checkpoint that was left, the restored one included.
\<close>

lemma dump_after_cleanup_fails:
  assumes "ps_inv ps" "cleanup_later_chkpts ps = (Inr (), ps1)" "0 < ps_count ps1"
    "ps_count ps1 \<le> ps_num ps - int (length (ps_avail ps1))" "\<not> skip_dump force i ps1"
  shows "\<exists>ps2. posix_dump force i partial (Inr cf) ps1 = (Inl RuntimeError, ps2) \<and> ps_avail ps2 = [] \<and>
           (\<forall>j. map_of (ps_files ps2) j = None)"
proof -
  have l: "ps_listed ps1" "ps_num ps1 = ps_num ps"
    using cleanup_later_run [of ps] assms(1,2) by (auto simp: ps_inv_def)
  obtain ps2 where r: "make_room ps1 = (Inl IndexError, ps2)" "ps_avail ps2 = []"
    "\<forall>i \<in> set (ps_avail ps1). map_of (ps_files ps2) i = None"
    "\<forall>i. map_of (ps_files ps1) i = None \<longrightarrow> map_of (ps_files ps2) i = None"
    using make_room_exhausts [OF l(1)] assms(4) l(2) by auto
  have "posix_dump force i partial (Inr cf) ps1 = (Inl RuntimeError, ps2)"
    using assms(3,5) r(1) by (simp add: posix_dump_def)
  moreover have "map_of (ps_files ps2) j = None" for j
    using r(3,4) l(1) unfolding ps_listed_def by blast
  ultimately show ?thesis using r(2) by blast
qed

end
