(* ===== verification/DDState.thy ===== *)
theory DDState
  imports WorkingSet Persister
begin

text \<open>
  The state of a dictionary manager (class \<open>Manager\<close> of \<open>data/ddict/manager.py\<close>) and the helpers
  every operation uses: pool memory, value lists, checkpoints of the window, messages sent.

  What is outside Python is a parameter held in the state: which allocations the pool still has
  room for (\<open>mg_fits\<close>), which id it gives (\<open>mg_pick\<close>), when it counts as full (\<open>mg_full\<close>), the
  XPickler of integers (\<open>mg_dumps\<close>, \<open>mg_loads\<close>), what closing the receive handle raises
  (\<open>mg_close_error\<close>), and which connections fail when written to (\<open>mg_broken\<close>).
\<close>

section \<open>Messages\<close>

text \<open>Connections the manager writes to: a client's response and buffered response FLI, an FLI that
  came serialized in a request, and the FLI of another manager.\<close>

datatype conn = ClientConn int | BufferedConn int | RespFLI string | ManagerFLI nat

text \<open>Requests that are passed on to other managers.\<close>

datatype request =
    DDLength int int int string bool \<comment> \<open>client, checkpoint, tag, response FLI, broadcast\<close>
  | DDClear int int int string bool
  | DDSync int string bool \<comment> \<open>tag, response FLI, broadcast\<close>
  | DDManagerStats int string bool
  | DDManagerNewestChkptID int string bool
  | DDRestore int int int string \<comment> \<open>checkpoint, client, tag, response FLI\<close>
  | DDAdvance int int string \<comment> \<open>client, tag, response FLI\<close>
  | DDPersistChkpts int int string
  | DDChkptAvail int int string \<comment> \<open>checkpoint, tag, response FLI\<close>
  | DDPersistedChkptAvail int int string
  | DDPersist int int string
  | DDFreeze int string \<comment> \<open>tag, response FLI\<close>
  | DDUnFreeze int string
  | DDBPut int int int string "nat list" bool \<comment> \<open>tag, client, checkpoint, response FLI, managers, batch\<close>

text \<open>Responses: own tag, tag of the request, return code, payload.  The texts of \<open>errInfo\<close> are
  left out.\<close>

datatype dmsg =
    DDPutResponse int int derr
  | DDBPutResponse int int derr int nat \<comment> \<open>number of puts, manager\<close>
  | DDBatchPutResponse int int derr int nat
  | DDGetResponse int int derr bool \<comment> \<open>receiver frees the memory\<close>
  | DDPopResponse int int derr bool
  | DDContainsResponse int int derr
  | DDLengthResponse int int derr nat
  | DDKeysResponse int int derr
  | DDValuesResponse int int derr bool
  | DDItemsResponse int int derr bool
  | DDClearResponse int int derr
  | DDSyncResponse int int derr
  | DDManagerStatsResponse int int derr nat \<comment> \<open>number of keys\<close>
  | DDManagerNewestChkptIDResponse int int derr int
  | DDRegisterClientResponse int int derr int nat nat \<comment> \<open>client id, number of managers, manager\<close>
  | DDConnectToManagerResponse int int derr string
  | DDRegisterClientIDResponse int int derr
  | DDDeregisterClientResponse int int derr
  | DDManagerSyncResponse int int derr
  | DDManagerSetStateResponse int int derr
  | DDRestoreResponse int int derr
  | DDAdvanceResponse int int derr "int option"
  | DDPersistChkptsResponse int int derr "int list"
  | DDChkptAvailResponse int int derr bool nat
  | DDPersistedChkptAvailResponse int int derr bool nat
  | DDPersistResponse int int derr
  | DDGetFreezeResponse int int derr bool
  | DDFreezeResponse int int derr
  | DDUnFreezeResponse int int derr
  | Forwarded request

fun msg_err :: "dmsg \<Rightarrow> derr" where
  "msg_err (DDPutResponse t r e) = e" | "msg_err (DDBPutResponse t r e n m) = e"
| "msg_err (DDBatchPutResponse t r e n m) = e" | "msg_err (DDGetResponse t r e f) = e"
| "msg_err (DDPopResponse t r e f) = e" | "msg_err (DDContainsResponse t r e) = e"
| "msg_err (DDLengthResponse t r e n) = e" | "msg_err (DDKeysResponse t r e) = e"
| "msg_err (DDValuesResponse t r e f) = e" | "msg_err (DDItemsResponse t r e f) = e"
| "msg_err (DDClearResponse t r e) = e" | "msg_err (DDSyncResponse t r e) = e"
| "msg_err (DDManagerStatsResponse t r e n) = e" | "msg_err (DDManagerNewestChkptIDResponse t r e i) = e"
| "msg_err (DDRegisterClientResponse t r e c n m) = e" | "msg_err (DDConnectToManagerResponse t r e s) = e"
| "msg_err (DDRegisterClientIDResponse t r e) = e" | "msg_err (DDDeregisterClientResponse t r e) = e"
| "msg_err (DDManagerSyncResponse t r e) = e" | "msg_err (DDManagerSetStateResponse t r e) = e"
| "msg_err (DDRestoreResponse t r e) = e" | "msg_err (DDAdvanceResponse t r e c) = e"
| "msg_err (DDPersistChkptsResponse t r e cs) = e" | "msg_err (DDChkptAvailResponse t r e b m) = e"
| "msg_err (DDPersistedChkptAvailResponse t r e b m) = e" | "msg_err (DDPersistResponse t r e) = e"
| "msg_err (DDGetFreezeResponse t r e f) = e" | "msg_err (DDFreezeResponse t r e) = e"
| "msg_err (DDUnFreezeResponse t r e) = e" | "msg_err (Forwarded q) = SUCCESS"

datatype hint = KEY_HINT | VALUE_HINT

text \<open>What was sent: a message, or memory (whether its ownership went with it).\<close>

datatype event = SentMsg conn dmsg | SentMem conn alloc hint bool

text \<open>What a receive handle delivers: memory with its hint, or an exception of \<open>recv_mem\<close>; the end
  of the stream is the end of the list.\<close>

datatype stream_item = Data alloc hint | StreamRaises exn

section \<open>Operations and threads\<close>

text \<open>The \<open>DictOp\<close> classes: client, checkpoint and tag come first.\<close>

datatype dict_op =
    PutOp int int int bool alloc lref bool \<comment> \<open>persist, key, value list, wait-for\<close>
  | BatchPutOp int int int bool alloc lref
  | BPutOp int int int bool alloc lref string \<comment> \<open>response FLI\<close>
  | BPutBatchOp int int bool alloc lref
  | GetOp int int int bytes bool int \<comment> \<open>fetch-add, amount\<close>
  | PopOp int int int bytes
  | ContainsOp int int int bytes
  | LengthOp int int int string
  | KeysOp int int int string
  | ValuesOp int int int string
  | ItemsOp int int int string
  | ClearOp int int int string

fun op_chkpt :: "dict_op \<Rightarrow> int" where
  "op_chkpt (PutOp c i t p k v w) = i" | "op_chkpt (BatchPutOp c i t p k v) = i"
| "op_chkpt (BPutOp c i t p k v f) = i" | "op_chkpt (BPutBatchOp c i p k v) = i"
| "op_chkpt (GetOp c i t k f a) = i" | "op_chkpt (PopOp c i t k) = i" | "op_chkpt (ContainsOp c i t k) = i"
| "op_chkpt (LengthOp c i t r) = i" | "op_chkpt (KeysOp c i t r) = i" | "op_chkpt (ValuesOp c i t r) = i"
| "op_chkpt (ItemsOp c i t r) = i" | "op_chkpt (ClearOp c i t r) = i"

text \<open>Threads that stream an answer; they run later, on the lists as they are then.\<close>

datatype sender =
    SendKeys dmsg conn kset
  | SendValues dmsg conn "lref list" bool
  | SendItems dmsg conn "lref kdict"

section \<open>The manager\<close>

record mgr =
  mg_live :: "(nat \<times> nat) set"
  mg_lists :: "lref \<Rightarrow> alloc list"
  mg_next_lref :: lref
  mg_ws :: working_set
  mg_deferred :: "(int, dict_op list) pydict"
  mg_tag :: int
  mg_out :: "event list"
  mg_stream :: "stream_item list"
  mg_recv_open :: bool
  mg_read_only :: bool
  mg_clients :: "int set"
  mg_buffered :: "int set"
  mg_next_client :: int
  mg_num_batch_puts :: "(int, int) pydict"
  mg_num_bput :: "(int, int) pydict"
  mg_threads :: "sender list"
  mg_persisting :: "checkpoint list"
  mg_persister :: persister
  mg_reattach :: bool
  mg_serving :: bool
  mg_allow_restart :: bool
  mg_muid :: nat
  mg_manager_id :: nat
  mg_managers :: "string list"
  mg_wait_for_keys :: bool
  mg_fits :: "(nat \<times> nat) set \<Rightarrow> bytes \<Rightarrow> bool"
  mg_pick :: "(nat \<times> nat) set \<Rightarrow> nat"
  mg_full :: "(nat \<times> nat) set \<Rightarrow> bool"
  mg_dumps :: "int \<Rightarrow> bytes res"
  mg_loads :: "bytes \<Rightarrow> int res"
  mg_close_error :: "exn option"
  mg_broken :: "conn set"

type_synonym 'a mm = "(mgr, 'a) pym"

text \<open>\<open>Manager.__init__\<close> of a manager that neither restarts nor restores: an empty window starting at
  checkpoint 0, nothing registered yet.  The pool, the pickler and the directory are given.\<close>

definition make_manager ::
    "int \<Rightarrow> bool \<Rightarrow> bool \<Rightarrow> bool \<Rightarrow> persister_kind \<Rightarrow> int \<Rightarrow> int \<Rightarrow> (int, chkpt_file) pydict \<Rightarrow> nat \<Rightarrow> nat \<Rightarrow>
     ((nat \<times> nat) set \<Rightarrow> bytes \<Rightarrow> bool) \<Rightarrow> ((nat \<times> nat) set \<Rightarrow> nat) \<Rightarrow> ((nat \<times> nat) set \<Rightarrow> bool) \<Rightarrow>
     (int \<Rightarrow> bytes res) \<Rightarrow> (bytes \<Rightarrow> int res) \<Rightarrow> mgr" where
  "make_manager wsz wfk wfw ro kind freq count files muid me fits pick full dumps loads =
     \<lparr>mg_live = {}, mg_lists = (\<lambda>_. []), mg_next_lref = 0,
      mg_ws = make_working_set wsz wfk wfw 0 ro freq, mg_deferred = [], mg_tag = 0, mg_out = [],
      mg_stream = [], mg_recv_open = False, mg_read_only = ro, mg_clients = {}, mg_buffered = {},
      mg_next_client = 0, mg_num_batch_puts = [], mg_num_bput = [], mg_threads = [], mg_persisting = [],
      mg_persister = make_persister kind freq count files, mg_reattach = True, mg_serving = False,
      mg_allow_restart = False, mg_muid = muid, mg_manager_id = me, mg_managers = [],
      mg_wait_for_keys = wfk, mg_fits = fits, mg_pick = pick, mg_full = full, mg_dumps = dumps,
      mg_loads = loads, mg_close_error = None, mg_broken = {}\<rparr>"

section \<open>Pool memory\<close>

definition ident :: "alloc \<Rightarrow> nat \<times> nat" where
  "ident a = (al_muid a, al_id a)"

definition free_mem :: "alloc \<Rightarrow> unit mm" where
  "free_mem a s = (if ident a \<in> mg_live s then (Inr (), s\<lparr>mg_live := mg_live s - {ident a}\<rparr>)
                   else (Inl DragonMemoryError, s))"

text \<open>\<open>alloc_from_bytes\<close> of the manager's pool\<close>

definition alloc_from_bytes :: "bytes \<Rightarrow> alloc mm" where
  "alloc_from_bytes b s =
     (if mg_fits s (mg_live s) b then
        (let a = \<lparr>al_muid = mg_muid s, al_id = mg_pick s (mg_live s), al_bytes = b\<rparr>
         in (Inr a, s\<lparr>mg_live := insert (ident a) (mg_live s)\<rparr>))
      else (Inl DragonMemoryError, s))"

text \<open>\<open>get_memview\<close> of a handle, and \<open>value_to_bytes\<close>\<close>

definition read_mem :: "alloc \<Rightarrow> bytes mm" where
  "read_mem a s = (if ident a \<in> mg_live s then (Inr (al_bytes a), s) else (Inl DragonMemoryError, s))"

fun value_to_bytes :: "alloc list \<Rightarrow> bytes mm" where
  "value_to_bytes [] = ret []"
| "value_to_bytes (v # vs) = bnd (read_mem v) (\<lambda>b. bnd (value_to_bytes vs) (\<lambda>bs. ret (b @ bs)))"

text \<open>\<open>_move_to_pool\<close>: of bytes, and of a handle (copied unless it is in the pool already; the
  original is freed whether or not the copy succeeded).\<close>

definition move_bytes_to_pool :: "bytes \<Rightarrow> alloc mm" where
  "move_bytes_to_pool b = alloc_from_bytes b"

definition move_to_pool :: "alloc \<Rightarrow> alloc mm" where
  "move_to_pool m = bnd (gets mg_muid) (\<lambda>u.
     if al_muid m \<noteq> u then
       try_finally
         (try_except (alloc_from_bytes (al_bytes m))
            (\<lambda>e. if e = DragonMemoryError then raise DDictFullError else raise e))
         (free_mem m)
     else ret m)"

section \<open>Value lists\<close>

definition new_list :: "alloc list \<Rightarrow> lref mm" where
  "new_list xs s = (Inr (mg_next_lref s),
     s\<lparr>mg_lists := (mg_lists s)(mg_next_lref s := xs), mg_next_lref := Suc (mg_next_lref s)\<rparr>)"

definition pop_val :: "lref \<Rightarrow> unit mm" where
  "pop_val l = modify (\<lambda>s. s\<lparr>mg_lists := (mg_lists s)(l := butlast (mg_lists s l))\<rparr>)"

definition append_val :: "lref \<Rightarrow> alloc \<Rightarrow> unit mm" where
  "append_val l a = modify (\<lambda>s. s\<lparr>mg_lists := (mg_lists s)(l := mg_lists s l @ [a])\<rparr>)"

text \<open>\<open>while len(l) > 0: l.pop().free()\<close>, with an error of \<open>free\<close> passed on, or ignored.\<close>

definition free_list :: "lref \<Rightarrow> unit mm" where
  "free_list l = bnd (gets (\<lambda>s. mg_lists s l)) (\<lambda>xs.
     for_each (rev xs) (\<lambda>v. sq (pop_val l) (free_mem v)))"

definition free_list_quietly :: "lref \<Rightarrow> unit mm" where
  "free_list_quietly l = bnd (gets (\<lambda>s. mg_lists s l)) (\<lambda>xs.
     for_each (rev xs) (\<lambda>v. sq (pop_val l) (try_except (free_mem v) (\<lambda>e. ret ()))))"

section \<open>Checkpoints of the window\<close>

definition get_ck :: "int \<Rightarrow> checkpoint mm" where
  "get_ck i = lift_res (\<lambda>s. d_item i (ws_chkpts (mg_ws s)))"

definition upd_ws :: "(working_set \<Rightarrow> working_set) \<Rightarrow> mgr \<Rightarrow> mgr" where
  "upd_ws f s = s\<lparr>mg_ws := f (mg_ws s)\<rparr>"

definition put_ck :: "int \<Rightarrow> checkpoint \<Rightarrow> working_set \<Rightarrow> working_set" where
  "put_ck i ck ws = ws\<lparr>ws_chkpts := AList.update i ck (ws_chkpts ws)\<rparr>"

definition upd_ck :: "int \<Rightarrow> (checkpoint \<Rightarrow> checkpoint) \<Rightarrow> unit mm" where
  "upd_ck i f = bnd (get_ck i) (\<lambda>ck. modify (upd_ws (put_ck i (f ck))))"

text \<open>\<open>check_for_key_existence_before_free\<close>\<close>

fun key_in_use :: "alloc \<Rightarrow> checkpoint list \<Rightarrow> unit res" where
  "key_in_use k [] = Inr ()"
| "key_in_use k (ck # cks) =
     (if kd_mem (al_bytes k) (ck_map ck) then
        (case kd_get (al_bytes k) (ck_key_allocs ck) of
           None \<Rightarrow> Inl KeyError
         | Some other \<Rightarrow> if is_the_same_as k other then Inl GenericException else key_in_use k cks)
      else key_in_use k cks)"

definition check_for_key_existence_before_free :: "alloc \<Rightarrow> unit mm" where
  "check_for_key_existence_before_free k =
     sq (lift_res (\<lambda>s. key_in_use k (map snd (ws_chkpts (mg_ws s))))) (free_mem k)"

text \<open>\<open>contains_key_and_free\<close> of the checkpoint \<open>i\<close>\<close>

definition contains_key_and_free :: "int \<Rightarrow> alloc \<Rightarrow> (derr \<times> alloc) mm" where
  "contains_key_and_free i k = bnd (get_ck i) (\<lambda>ck.
     if kd_mem (al_bytes k) (ck_map ck) then
       bnd (lift_res (\<lambda>_. kd_item (al_bytes k) (ck_key_allocs ck))) (\<lambda>key_mem.
         sq (check_for_key_existence_before_free k) (ret (SUCCESS, key_mem)))
     else
       bnd (move_to_pool k) (\<lambda>key_mem.
         sq (upd_ck i (\<lambda>ck. ck\<lparr>ck_key_allocs := kd_set key_mem key_mem (ck_key_allocs ck)\<rparr>))
            (ret (KEY_NOT_FOUND, key_mem))))"

text \<open>\<open>Checkpoint.clear\<close>; the handles of keys that are not in the map stay in \<open>key_allocs\<close>.\<close>

definition clear_key :: "int \<Rightarrow> alloc \<Rightarrow> unit mm" where
  "clear_key i k = bnd (get_ck i) (\<lambda>ck.
     bnd (lift_res (\<lambda>_. kd_item (al_bytes k) (ck_map ck))) (\<lambda>l.
       sq (free_list l)
          (bnd (lift_res (\<lambda>_. kd_item (al_bytes k) (ck_key_allocs ck))) (\<lambda>key_mem.
             sq (upd_ck i (\<lambda>ck. ck\<lparr>ck_map := kd_del (al_bytes k) (ck_map ck),
                                   ck_key_allocs := kd_del (al_bytes k) (ck_key_allocs ck)\<rparr>))
                (free_mem key_mem)))))"

definition clear_ck :: "int \<Rightarrow> unit mm" where
  "clear_ck i = bnd (get_ck i) (\<lambda>ck.
     sq (for_each (kd_keys (ck_map ck)) (clear_key i))
        (upd_ck i (\<lambda>ck. ck\<lparr>ck_map := [], ck_persist := [], ck_deleted := [], ck_writers := {}\<rparr>)))"

text \<open>\<open>Checkpoint.retire\<close> on a checkpoint that left the window\<close>

definition retire_key :: "checkpoint \<Rightarrow> alloc \<Rightarrow> unit mm" where
  "retire_key p k = bnd (lift_res (\<lambda>_. kd_item (al_bytes k) (ck_map p))) (\<lambda>l.
     sq (free_list l)
        (bnd (lift_res (\<lambda>_. kd_item (al_bytes k) (ck_key_allocs p))) free_mem))"

definition retire :: "checkpoint \<Rightarrow> unit mm" where
  "retire p = for_each (ck_kvs_to_clear p) (retire_key p)"

section \<open>Moving the window\<close>

text \<open>\<open>WorkingSet.put\<close> and \<open>WorkingSet.access\<close> on the manager: the checkpoints that leave the window
  are given to persisting threads.\<close>

definition working_set_put :: "int \<Rightarrow> int option mm" where
  "working_set_put c s = (case ws_put c (mg_ws s) of
     (r, ws, ts) \<Rightarrow> (r, s\<lparr>mg_ws := ws, mg_persisting := mg_persisting s @ ts\<rparr>))"

text \<open>A call of \<open>access\<close> that would not return is an arbitrary failure here; it returns on every
  well-formed window.\<close>

definition working_set_access :: "int \<Rightarrow> int option mm" where
  "working_set_access c s = (case ws_access c (mg_ws s) of
     None \<Rightarrow> (Inl RuntimeError, s)
   | Some (r, ws, ts) \<Rightarrow> (r, s\<lparr>mg_ws := ws, mg_persisting := mg_persisting s @ ts\<rparr>))"

definition working_set_get :: "bytes \<Rightarrow> int \<Rightarrow> int option mm" where
  "working_set_get b c = lift_res (\<lambda>s.
     ws_get b c (ws_linked (mg_ws s) \<and> map_of (mg_deferred s) c \<noteq> None) (mg_ws s))"

definition note_writer :: "int \<Rightarrow> int \<Rightarrow> unit mm" where
  "note_writer client c s = (case update_writer_checkpoint client c (mg_ws s) of
     (r, ws) \<Rightarrow> (r, s\<lparr>mg_ws := ws\<rparr>))"

section \<open>Sending\<close>

definition tag_inc :: "int mm" where
  "tag_inc s = (Inr (mg_tag s), s\<lparr>mg_tag := mg_tag s + 1\<rparr>)"

definition emit :: "event \<Rightarrow> mgr \<Rightarrow> mgr" where
  "emit e s = s\<lparr>mg_out := mg_out s @ [e]\<rparr>"

definition send_msg :: "dmsg \<Rightarrow> conn \<Rightarrow> unit mm" where
  "send_msg m c s = (if c \<in> mg_broken s then (Inl RuntimeError, s) else (Inr (), emit (SentMsg c m) s))"

text \<open>\<open>_client_connections_map[id]\<close> and \<open>_buffered_client_connections_map[id]\<close>\<close>

definition client_conn :: "int \<Rightarrow> conn mm" where
  "client_conn i = lift_res (\<lambda>s. if i \<in> mg_clients s then Inr (ClientConn i) else Inl KeyError)"

definition buffered_conn :: "int \<Rightarrow> conn mm" where
  "buffered_conn i = lift_res (\<lambda>s. if i \<in> mg_buffered s then Inr (BufferedConn i) else Inl KeyError)"

text \<open>Send handles: \<open>send_bytes\<close> and \<open>send_mem\<close>; memory that was freed cannot be sent.\<close>

definition send_bytes :: "dmsg \<Rightarrow> conn \<Rightarrow> unit mm" where
  "send_bytes m c s = (if c \<in> mg_broken s then (Inl DragonFLIError, s) else (Inr (), emit (SentMsg c m) s))"

definition send_mem :: "conn \<Rightarrow> hint \<Rightarrow> bool \<Rightarrow> alloc \<Rightarrow> unit mm" where
  "send_mem c h transfer a s =
     (if c \<in> mg_broken s \<or> ident a \<notin> mg_live s then (Inl DragonFLIError, s)
      else (Inr (), emit (SentMem c a h transfer)
                      (if transfer then s\<lparr>mg_live := mg_live s - {ident a}\<rparr> else s)))"

text \<open>The \<open>chkpt\<close> argument of \<open>_send_dmsg_and_value\<close>: nothing, a checkpoint, or (on the error
  paths of get and pop) a checkpoint id, which has no lock.\<close>

datatype chkpt_arg = NoChkpt | Chkpt int | ChkptID int

definition finish_transfer :: "int \<Rightarrow> alloc \<Rightarrow> unit mm" where
  "finish_transfer i key_mem = bnd (get_ck i) (\<lambda>ck.
     if \<not> kd_mem (al_bytes key_mem) (ck_map ck) then raise KeyError
     else sq (upd_ck i (\<lambda>ck. ck\<lparr>ck_map := kd_del (al_bytes key_mem) (ck_map ck)\<rparr>))
       (if \<not> ks_mem (al_bytes key_mem) (ck_persist ck) then
          (if \<not> kd_mem (al_bytes key_mem) (ck_key_allocs ck) then raise KeyError
           else sq (upd_ck i (\<lambda>ck. ck\<lparr>ck_key_allocs := kd_del (al_bytes key_mem) (ck_key_allocs ck)\<rparr>))
                   (check_for_key_existence_before_free key_mem))
        else upd_ck i (\<lambda>ck. ck\<lparr>ck_deleted := ks_add key_mem (ck_deleted ck),
                              ck_persist := ks_discard (al_bytes key_mem) (ck_persist ck)\<rparr>)))"

definition send_dmsg_and_value :: "chkpt_arg \<Rightarrow> dmsg \<Rightarrow> conn \<Rightarrow> alloc option \<Rightarrow> bool \<Rightarrow> unit mm" where
  "send_dmsg_and_value arg m c key_mem transfer =
     sq (send_bytes m c)
       (case arg of NoChkpt \<Rightarrow> ret ()
        | ChkptID _ \<Rightarrow> raise AttributeError
        | Chkpt i \<Rightarrow>
            if msg_err m \<noteq> SUCCESS then ret ()
            else (case key_mem of None \<Rightarrow> raise KeyError | Some k \<Rightarrow>
              bnd (get_ck i) (\<lambda>ck. bnd (lift_res (\<lambda>_. kd_item (al_bytes k) (ck_map ck))) (\<lambda>l.
              bnd (gets (\<lambda>s. mg_lists s l)) (\<lambda>vals.
                sq (if transfer then bnd (new_list []) (\<lambda>e.
                      upd_ck i (\<lambda>ck. ck\<lparr>ck_map := kd_set k e (ck_map ck)\<rparr>)) else ret ())
                (sq (for_each vals (send_mem c VALUE_HINT transfer))
                    (if transfer then finish_transfer i k else ret ())))))))"

end
