(* ===== verification/DictOps.thy ===== *)
theory DictOps
  imports DDState
begin

text \<open>
  The operations of \<open>data/ddict/manager.py\<close>: the \<open>perform\<close> method of every \<open>DictOp\<close> class, with its
  error handlers, and \<open>_recover_mem\<close>.  \<open>perform\<close> answers whether the operation was done; an operation
  that was not is deferred by its caller.
\<close>

section \<open>Receiving and recovering\<close>

definition recv_mem :: "(alloc \<times> hint) mm" where
  "recv_mem s =
     (if \<not> mg_recv_open s then (Inl RuntimeError, s)
      else (case mg_stream s of
              [] \<Rightarrow> (Inl EOFError, s)
            | Data a h # rest \<Rightarrow> (Inr (a, h), s\<lparr>mg_stream := rest\<rparr>)
            | StreamRaises e # rest \<Rightarrow> (Inl e, s\<lparr>mg_stream := rest\<rparr>)))"

text \<open>\<open>recvh.close()\<close>: what is left of the stream is discarded by the library.\<close>

definition recvh_close :: "unit mm" where
  "recvh_close s =
     (if \<not> mg_recv_open s then (Inr (), s)
      else (case mg_close_error s of
              None \<Rightarrow> (Inr (), s\<lparr>mg_recv_open := False\<rparr>)
            | Some e \<Rightarrow> (Inl e, s)))"

text \<open>The loop of \<open>_recover_mem\<close> that reads the rest of the stream and frees it: it goes on after an
  out-of-memory error and stops at the end or at any other error.\<close>

fun drain :: "stream_item list \<Rightarrow> unit mm" where
  "drain [] s = (Inr (), s\<lparr>mg_stream := []\<rparr>)"
| "drain (Data a h # rest) s =
     (case free_mem a s of
        (Inl e, t) \<Rightarrow> (Inr (), t\<lparr>mg_stream := rest\<rparr>)
      | (Inr _, t) \<Rightarrow> drain rest t)"
| "drain (StreamRaises e # rest) s =
     (if e = DragonFLIOutOfMemoryError then drain rest s else (Inr (), s\<lparr>mg_stream := rest\<rparr>))"

text \<open>\<open>_recover_mem\<close>, without a receive handle (by a deferred operation) and with one.\<close>

definition recover_args :: "alloc option \<Rightarrow> lref option \<Rightarrow> unit mm" where
  "recover_args key vals =
     sq (case key of None \<Rightarrow> ret ()
         | Some k \<Rightarrow> try_except (check_for_key_existence_before_free k) (\<lambda>e. ret ()))
        (case vals of None \<Rightarrow> ret () | Some l \<Rightarrow> free_list_quietly l)"

definition recover_mem :: "alloc option \<Rightarrow> lref option \<Rightarrow> bool \<Rightarrow> unit mm" where
  "recover_mem key vals recvh =
     (if \<not> recvh then recover_args key vals
      else bnd (gets mg_recv_open) (\<lambda>op.
        if \<not> op then ret ()
        else sq (recover_args key vals) (bnd (gets mg_stream) drain)))"

definition full_error :: "exn \<Rightarrow> bool" where
  "full_error e \<longleftrightarrow> e = DDictFullError \<or> e = DragonFLIOutOfMemoryError"

text \<open>\<open>resp = make(self._tag_inc()); self._send_msg(resp, connection)\<close>\<close>

definition respond :: "(int \<Rightarrow> dmsg) \<Rightarrow> conn mm \<Rightarrow> unit mm" where
  "respond mk cn = bnd tag_inc (\<lambda>t. bnd cn (send_msg (mk t)))"

definition resp_fli :: "string \<Rightarrow> conn mm" where
  "resp_fli f = ret (RespFLI f)"

text \<open>The f-strings of the handlers read \<open>working_set.range\<close>.\<close>

definition read_range :: "unit mm" where
  "read_range = bnd (lift_res (\<lambda>s. ws_range (mg_ws s))) (\<lambda>_. ret ())"

section \<open>Put\<close>

definition wait_for_perform :: "int \<Rightarrow> alloc \<Rightarrow> lref \<Rightarrow> bool mm" where
  "wait_for_perform i key vals = bnd (contains_key_and_free i key) (\<lambda>(ec, key_mem).
     if ec = SUCCESS then
       bnd (get_ck i) (\<lambda>ck. bnd (lift_res (\<lambda>_. kd_item (al_bytes key_mem) (ck_map ck))) (\<lambda>cur.
       bnd (gets (\<lambda>s. mg_lists s cur)) (\<lambda>cur_list. bnd (value_to_bytes cur_list) (\<lambda>current_val.
       bnd (gets (\<lambda>s. mg_lists s vals)) (\<lambda>val_list. bnd (value_to_bytes val_list) (\<lambda>waitfor_val.
         sq (free_list_quietly vals) (ret (current_val = waitfor_val))))))))
     else ret False)"

definition replace_old :: "int \<Rightarrow> alloc \<Rightarrow> unit mm" where
  "replace_old i key_mem = bnd (get_ck i) (\<lambda>ck.
     bnd (lift_res (\<lambda>_. kd_item (al_bytes key_mem) (ck_map ck))) (\<lambda>old.
     bnd (new_list []) (\<lambda>e.
       sq (upd_ck i (\<lambda>ck. ck\<lparr>ck_map := kd_set key_mem e (ck_map ck)\<rparr>)) (free_list_quietly old))))"

definition stored :: "int \<Rightarrow> bool \<Rightarrow> alloc \<Rightarrow> lref \<Rightarrow> checkpoint \<Rightarrow> checkpoint" where
  "stored client persist key_mem vals ck =
     ck\<lparr>ck_map := kd_set key_mem vals (ck_map ck),
        ck_persist := (if persist then ks_add key_mem (ck_persist ck) else ck_persist ck),
        ck_deleted := ks_discard (al_bytes key_mem) (ck_deleted ck),
        ck_writers := insert client (ck_writers ck)\<rparr>"

definition put_store :: "int \<Rightarrow> int \<Rightarrow> bool \<Rightarrow> alloc \<Rightarrow> lref \<Rightarrow> unit mm" where
  "put_store i client persist key vals = bnd (contains_key_and_free i key) (\<lambda>(ec, key_mem).
     sq (if ec = SUCCESS then replace_old i key_mem else ret ())
        (upd_ck i (stored client persist key_mem vals)))"

text \<open>\<open>PutOp._perform\<close> and \<open>BatchPutOp._perform\<close>\<close>

definition put_perform :: "int \<Rightarrow> int \<Rightarrow> bool \<Rightarrow> alloc \<Rightarrow> lref \<Rightarrow> bool \<Rightarrow> bool mm" where
  "put_perform client c persist key vals waitFor = bnd (working_set_put c) (\<lambda>r.
     case r of None \<Rightarrow> ret False
     | Some i \<Rightarrow> if waitFor then wait_for_perform i key vals
                 else sq (put_store i client persist key vals) (ret True))"

definition batch_put_perform :: "int \<Rightarrow> int \<Rightarrow> bool \<Rightarrow> alloc \<Rightarrow> lref \<Rightarrow> unit mm" where
  "batch_put_perform client c persist key vals = bnd (working_set_put c) (\<lambda>r.
     case r of None \<Rightarrow> raise DDictFutureCheckpointError
     | Some i \<Rightarrow> put_store i client persist key vals)"

text \<open>\<open>PutOp.perform\<close>\<close>

definition perform_put :: "int \<Rightarrow> int \<Rightarrow> int \<Rightarrow> bool \<Rightarrow> alloc \<Rightarrow> lref \<Rightarrow> bool \<Rightarrow> bool mm" where
  "perform_put client c tag persist key vals waitFor =
     try_except
       (bnd (put_perform client c persist key vals waitFor) (\<lambda>ok.
          if \<not> ok then ret False
          else sq (respond (\<lambda>t. DDPutResponse t tag SUCCESS) (buffered_conn client)) (ret True)))
       (\<lambda>e. if full_error e then
              sq (recover_mem (Some key) (Some vals) False)
                (sq (respond (\<lambda>t. DDPutResponse t tag MEMORY_POOL_FULL) (buffered_conn client)) (ret True))
            else if e = DDictCheckpointSyncError then
              sq read_range (sq (recover_mem (Some key) (Some vals) False)
                (sq (respond (\<lambda>t. DDPutResponse t tag DDICT_CHECKPOINT_RETIRED) (buffered_conn client)) (ret True)))
            else
              sq (recover_mem (Some key) (Some vals) False)
                (sq (respond (\<lambda>t. DDPutResponse t tag FAILURE) (buffered_conn client)) (raise RuntimeError)))"

text \<open>\<open>BatchPutOp.perform\<close>, \<open>BPutBatchOp.perform\<close>\<close>

definition count_up :: "int \<Rightarrow> (int, int) pydict \<Rightarrow> (int, int) pydict res" where
  "count_up k d = (case map_of d k of None \<Rightarrow> Inl KeyError | Some n \<Rightarrow> Inr (AList.update k (n + 1) d))"

definition perform_batch_put :: "int \<Rightarrow> int \<Rightarrow> bool \<Rightarrow> alloc \<Rightarrow> lref \<Rightarrow> bool mm" where
  "perform_batch_put client c persist key vals =
     sq (batch_put_perform client c persist key vals)
       (bnd (lift_res (\<lambda>s. count_up client (mg_num_batch_puts s))) (\<lambda>d.
          sq (modify (\<lambda>s. s\<lparr>mg_num_batch_puts := d\<rparr>)) (ret True)))"

definition perform_bput_batch :: "int \<Rightarrow> int \<Rightarrow> bool \<Rightarrow> alloc \<Rightarrow> lref \<Rightarrow> bool mm" where
  "perform_bput_batch client c persist key vals =
     sq (batch_put_perform client c persist key vals)
       (sq (try_except
              (bnd (lift_res (\<lambda>s. count_up client (mg_num_bput s))) (\<lambda>d. modify (\<lambda>s. s\<lparr>mg_num_bput := d\<rparr>)))
              (\<lambda>e. if e = KeyError then ret () else raise e))
           (ret True))"

text \<open>\<open>BPutOp.perform\<close>: the handler for a retired checkpoint reads \<open>self._manager_id\<close>, which the
  operation does not have.\<close>

definition perform_bput :: "int \<Rightarrow> int \<Rightarrow> int \<Rightarrow> bool \<Rightarrow> alloc \<Rightarrow> lref \<Rightarrow> string \<Rightarrow> bool mm" where
  "perform_bput client c tag persist key vals fli = bnd (gets mg_manager_id) (\<lambda>me.
     try_except
       (bnd (put_perform client c persist key vals False) (\<lambda>ok.
          if \<not> ok then ret False
          else sq (respond (\<lambda>t. DDBPutResponse t tag SUCCESS 1 me) (resp_fli fli)) (ret True)))
       (\<lambda>e. if full_error e then
              sq (recover_mem (Some key) (Some vals) False)
                (sq (respond (\<lambda>t. DDBPutResponse t tag MEMORY_POOL_FULL 1 me) (resp_fli fli)) (ret True))
            else if e = DDictCheckpointSyncError then raise AttributeError
            else
              sq (recover_mem (Some key) (Some vals) False)
                (sq (respond (\<lambda>t. DDBPutResponse t tag FAILURE 1 me) (resp_fli fli)) (ret True))))"

section \<open>Get\<close>

text \<open>\<open>fetch_add\<close>: the checkpoint, the key handle, the current value list and the value, or nothing
  when the operation has to wait.\<close>

definition fetch_existing :: "int \<Rightarrow> alloc \<Rightarrow> (int \<times> alloc \<times> lref \<times> int) option mm" where
  "fetch_existing i key_mem = bnd (get_ck i) (\<lambda>ck.
     bnd (lift_res (\<lambda>_. kd_item (al_bytes key_mem) (ck_map ck))) (\<lambda>l.
     bnd (gets (\<lambda>s. mg_lists s l)) (\<lambda>vals.
     bnd (try_except (value_to_bytes vals) (\<lambda>e. raise UnboundLocalError)) (\<lambda>b.
     bnd (lift_res (\<lambda>s. case mg_loads s b of Inl e \<Rightarrow> Inl ValueError | Inr v \<Rightarrow> Inr v)) (\<lambda>v.
       ret (Some (i, key_mem, l, v)))))))"

definition fetch_new :: "int \<Rightarrow> bytes \<Rightarrow> (int \<times> alloc \<times> lref \<times> int) option mm" where
  "fetch_new i key =
     bnd (move_bytes_to_pool key) (\<lambda>key_mem.
     sq (upd_ck i (\<lambda>ck. ck\<lparr>ck_persist := ks_add key_mem (ck_persist ck)\<rparr>))
     (bnd (lift_res (\<lambda>s. mg_dumps s 0)) (\<lambda>b.
      bnd (move_bytes_to_pool b) (\<lambda>val_mem.
      bnd (new_list [val_mem]) (\<lambda>l.
      sq (upd_ck i (\<lambda>ck. ck\<lparr>ck_map := kd_set key_mem l (ck_map ck),
                            ck_key_allocs := kd_set key_mem key_mem (ck_key_allocs ck)\<rparr>))
         (ret (Some (i, key_mem, l, 0))))))))"

definition fetch_prepare :: "bytes \<Rightarrow> int \<Rightarrow> (int \<times> alloc \<times> lref \<times> int) option mm" where
  "fetch_prepare key c = bnd (gets mg_read_only) (\<lambda>ro.
     if ro then ret None
     else bnd (working_set_put c) (\<lambda>r. case r of None \<Rightarrow> ret None
       | Some i \<Rightarrow> bnd (get_ck i) (\<lambda>ck. bnd (lift_res (\<lambda>_. contains_key key ck)) (\<lambda>(ec, km).
           case km of Some key_mem \<Rightarrow> fetch_existing i key_mem | None \<Rightarrow> fetch_new i key))))"

definition fetch_finish :: "int \<Rightarrow> alloc \<Rightarrow> lref \<Rightarrow> int \<Rightarrow> unit mm" where
  "fetch_finish i key_mem old v =
     sq (free_list old)
       (bnd (lift_res (\<lambda>s. mg_dumps s v)) (\<lambda>b. bnd (move_bytes_to_pool b) (\<lambda>val_mem.
        bnd (new_list [val_mem]) (\<lambda>l.
          upd_ck i (\<lambda>ck. ck\<lparr>ck_map := kd_set key_mem l (ck_map ck)\<rparr>)))))"

definition get_reply :: "int \<Rightarrow> int \<Rightarrow> int \<Rightarrow> int \<Rightarrow> derr \<Rightarrow> alloc option \<Rightarrow> unit mm" where
  "get_reply client c tag i ec km = bnd (gets mg_read_only) (\<lambda>ro. bnd tag_inc (\<lambda>t.
     bnd (client_conn client) (\<lambda>cn.
       sq (send_dmsg_and_value (Chkpt i) (DDGetResponse t tag ec (\<not> ro)) cn km False)
          (note_writer client c))))"

definition get_error :: "int \<Rightarrow> int \<Rightarrow> int \<Rightarrow> derr \<Rightarrow> unit mm" where
  "get_error client c tag ec = bnd tag_inc (\<lambda>t. bnd (client_conn client) (\<lambda>cn.
     send_dmsg_and_value (ChkptID c) (DDGetResponse t tag ec False) cn None False))"

definition plain_get :: "int \<Rightarrow> int \<Rightarrow> int \<Rightarrow> bytes \<Rightarrow> bool mm" where
  "plain_get client c tag key = bnd (working_set_get key c) (\<lambda>r. case r of None \<Rightarrow> ret False
     | Some i \<Rightarrow> bnd (get_ck i) (\<lambda>ck. bnd (lift_res (\<lambda>_. contains_key key ck)) (\<lambda>(ec, km).
         sq (get_reply client c tag i ec km) (ret True))))"

definition fetch_add_get :: "int \<Rightarrow> int \<Rightarrow> int \<Rightarrow> bytes \<Rightarrow> int \<Rightarrow> bool mm" where
  "fetch_add_get client c tag key amount = bnd (fetch_prepare key c) (\<lambda>r. case r of None \<Rightarrow> ret False
     | Some (i, key_mem, old, v) \<Rightarrow>
         sq (get_reply client c tag i SUCCESS (Some key_mem))
           (sq (fetch_finish i key_mem old (v + amount)) (ret True)))"

definition perform_get :: "int \<Rightarrow> int \<Rightarrow> int \<Rightarrow> bytes \<Rightarrow> bool \<Rightarrow> int \<Rightarrow> bool mm" where
  "perform_get client c tag key fetch_add amount =
     try_except (if fetch_add then fetch_add_get client c tag key amount else plain_get client c tag key)
       (\<lambda>e. if full_error e then sq (get_error client c tag MEMORY_POOL_FULL) (ret True)
            else if e = DDictCheckpointSyncError then
              sq read_range (sq (get_error client c tag DDICT_CHECKPOINT_RETIRED) (ret True))
            else sq (get_error client c tag FAILURE) (raise RuntimeError))"

section \<open>Pop\<close>

definition pop_reply :: "int \<Rightarrow> int \<Rightarrow> int \<Rightarrow> derr \<Rightarrow> alloc option \<Rightarrow> bool \<Rightarrow> unit mm" where
  "pop_reply client tag i ec km transfer = bnd tag_inc (\<lambda>t. bnd (client_conn client) (\<lambda>cn.
     send_dmsg_and_value (Chkpt i) (DDPopResponse t tag ec transfer) cn km transfer))"

definition mark_deleted :: "int \<Rightarrow> int \<Rightarrow> int \<Rightarrow> alloc \<Rightarrow> bool mm" where
  "mark_deleted client c i key_mem = bnd (working_set_access c) (\<lambda>r.
     case r of None \<Rightarrow> raise AttributeError
     | Some j \<Rightarrow>
         bnd (get_ck i) (\<lambda>ck.
           sq (upd_ck j (\<lambda>ck. ck\<lparr>ck_writers := insert client (ck_writers ck)\<rparr>))
             (if ck_id ck < c then
                sq (upd_ck j (\<lambda>ck. ck\<lparr>ck_deleted := ks_add key_mem (ck_deleted ck)\<rparr>)) (ret False)
              else ret True)))"

definition pop_found :: "int \<Rightarrow> int \<Rightarrow> int \<Rightarrow> int \<Rightarrow> alloc \<Rightarrow> bool mm" where
  "pop_found client c tag i key_mem = bnd (lift_res (\<lambda>s. newest_chkpt_id (mg_ws s))) (\<lambda>newest.
     if newest < c then ret False
     else bnd (mark_deleted client c i key_mem) (\<lambda>transfer.
       sq (pop_reply client tag i SUCCESS (Some key_mem) transfer) (ret True)))"

definition plain_pop :: "int \<Rightarrow> int \<Rightarrow> int \<Rightarrow> bytes \<Rightarrow> bool mm" where
  "plain_pop client c tag key = bnd (working_set_get key c) (\<lambda>r. case r of None \<Rightarrow> ret False
     | Some i \<Rightarrow> bnd (get_ck i) (\<lambda>ck. bnd (lift_res (\<lambda>_. contains_key key ck)) (\<lambda>(ec, km).
         case km of Some key_mem \<Rightarrow> pop_found client c tag i key_mem
         | None \<Rightarrow> sq (pop_reply client tag i ec None True) (ret True))))"

text \<open>The handlers read \<open>self.key_mem\<close>, which the operation does not have: for a retired checkpoint
  the exception leaves the handler, otherwise it is swallowed.\<close>

definition perform_pop :: "int \<Rightarrow> int \<Rightarrow> int \<Rightarrow> bytes \<Rightarrow> bool mm" where
  "perform_pop client c tag key =
     try_except (plain_pop client c tag key)
       (\<lambda>e. if e = DDictCheckpointSyncError then sq read_range (raise AttributeError)
            else sq (bnd tag_inc (\<lambda>t. bnd (client_conn client) (\<lambda>cn.
                       send_dmsg_and_value (ChkptID c) (DDPopResponse t tag FAILURE False) cn None False)))
                    (raise RuntimeError))"

section \<open>Contains, length, keys, values, items, clear\<close>

definition contains_code :: "bytes \<Rightarrow> int \<Rightarrow> derr mm" where
  "contains_code key c = bnd (lift_res (\<lambda>s. newest_chkpt_id (mg_ws s))) (\<lambda>newest.
     bnd (working_set_get key (if newest < c then newest else c)) (\<lambda>r. case r of
       None \<Rightarrow> ret KEY_NOT_FOUND
     | Some i \<Rightarrow> bnd (get_ck i) (\<lambda>ck. bnd (lift_res (\<lambda>_. contains_key key ck)) (\<lambda>(ec, km).
         bnd (gets mg_wait_for_keys) (\<lambda>wfk.
           ret (if newest < c \<and> wfk \<and>
                   (case km of None \<Rightarrow> True | Some k \<Rightarrow> \<not> ks_mem (al_bytes k) (ck_persist ck))
                then KEY_NOT_FOUND else ec))))))"

definition perform_contains :: "int \<Rightarrow> int \<Rightarrow> int \<Rightarrow> bytes \<Rightarrow> bool mm" where
  "perform_contains client c tag key = bnd (contains_code key c) (\<lambda>ec.
     sq (respond (\<lambda>t. DDContainsResponse t tag ec) (buffered_conn client))
        (sq (note_writer client c) (ret True)))"

definition perform_length :: "int \<Rightarrow> int \<Rightarrow> int \<Rightarrow> string \<Rightarrow> bool mm" where
  "perform_length client c tag fli = bnd (lift_res (\<lambda>s. ws_keys c (mg_ws s))) (\<lambda>ks.
     sq (respond (\<lambda>t. DDLengthResponse t tag SUCCESS (length ks)) (resp_fli fli))
        (sq (note_writer client c) (ret True)))"

definition start_sender :: "sender \<Rightarrow> unit mm" where
  "start_sender j = modify (\<lambda>s. s\<lparr>mg_threads := mg_threads s @ [j]\<rparr>)"

definition perform_keys :: "int \<Rightarrow> int \<Rightarrow> int \<Rightarrow> string \<Rightarrow> bool mm" where
  "perform_keys client c tag fli = sq (note_writer client c)
     (bnd (lift_res (\<lambda>s. ws_keys c (mg_ws s))) (\<lambda>ks. bnd tag_inc (\<lambda>t.
        sq (start_sender (SendKeys (DDKeysResponse t tag SUCCESS) (RespFLI fli) ks)) (ret True))))"

definition perform_values :: "int \<Rightarrow> int \<Rightarrow> int \<Rightarrow> string \<Rightarrow> bool mm" where
  "perform_values client c tag fli = sq (note_writer client c)
     (bnd (lift_res (\<lambda>s. ws_values c (mg_ws s))) (\<lambda>vs. bnd (gets mg_read_only) (\<lambda>ro. bnd tag_inc (\<lambda>t.
        sq (start_sender (SendValues (DDValuesResponse t tag SUCCESS (\<not> ro)) (RespFLI fli) vs ro)) (ret True)))))"

definition perform_items :: "int \<Rightarrow> int \<Rightarrow> int \<Rightarrow> string \<Rightarrow> bool mm" where
  "perform_items client c tag fli = sq (note_writer client c)
     (bnd (lift_res (\<lambda>s. ws_items c (mg_ws s))) (\<lambda>its. bnd (gets mg_read_only) (\<lambda>ro. bnd tag_inc (\<lambda>t.
        sq (start_sender (SendItems (DDItemsResponse t tag SUCCESS (\<not> ro)) (RespFLI fli) its)) (ret True)))))"

text \<open>\<open>ClearOp.perform\<close>: the branch for a retired checkpoint answers the client and then returns
  \<open>None\<close>, which its caller takes for ``not performed''.\<close>

definition perform_clear :: "int \<Rightarrow> int \<Rightarrow> int \<Rightarrow> string \<Rightarrow> bool mm" where
  "perform_clear client c tag fli =
     try_except
       (bnd (working_set_access c) (\<lambda>r. case r of None \<Rightarrow> ret False
          | Some i \<Rightarrow> sq (clear_ck i)
              (sq (respond (\<lambda>t. DDClearResponse t tag SUCCESS) (resp_fli fli))
                  (sq (note_writer client c) (ret True)))))
       (\<lambda>e. if e = DDictCheckpointSyncError then
              sq read_range (sq (respond (\<lambda>t. DDClearResponse t tag DDICT_CHECKPOINT_RETIRED) (resp_fli fli)) (ret False))
            else
              sq (respond (\<lambda>t. DDClearResponse t tag FAILURE) (resp_fli fli)) (raise RuntimeError))"

section \<open>Dispatch\<close>

fun perform :: "dict_op \<Rightarrow> bool mm" where
  "perform (PutOp client c tag persist key vals waitFor) = perform_put client c tag persist key vals waitFor"
| "perform (BatchPutOp client c tag persist key vals) = perform_batch_put client c persist key vals"
| "perform (BPutOp client c tag persist key vals fli) = perform_bput client c tag persist key vals fli"
| "perform (BPutBatchOp client c persist key vals) = perform_bput_batch client c persist key vals"
| "perform (GetOp client c tag key fetch_add amount) = perform_get client c tag key fetch_add amount"
| "perform (PopOp client c tag key) = perform_pop client c tag key"
| "perform (ContainsOp client c tag key) = perform_contains client c tag key"
| "perform (LengthOp client c tag fli) = perform_length client c tag fli"
| "perform (KeysOp client c tag fli) = perform_keys client c tag fli"
| "perform (ValuesOp client c tag fli) = perform_values client c tag fli"
| "perform (ItemsOp client c tag fli) = perform_items client c tag fli"
| "perform (ClearOp client c tag fli) = perform_clear client c tag fli"

end
