(* ===== verification/Ownership.thy ===== *)
theory Ownership
  imports DictOps
begin

text \<open>
  Who owns which memory.  A slot is a key bound in a checkpoint of the window, or a key that a
  retiring checkpoint still has to clear; it owns the key's handle and the handles of its value
  list.  The heap is well formed when every owned handle is live and no two slots share a handle or
  a value list.  The theory has the general lemmas on well-formed heaps, and shows that moving the
  window only relocates slots.
\<close>

datatype place = InWindow int | Retiring nat

type_synonym slots = "place \<Rightarrow> bytes \<Rightarrow> (alloc \<times> lref) option"

fun mk_slot :: "lref option \<Rightarrow> alloc option \<Rightarrow> (alloc \<times> lref) option" where
  "mk_slot (Some l) (Some k) = Some (k, l)"
| "mk_slot None _ = None"
| "mk_slot _ None = None"

lemma mk_slot_Some [simp]: "mk_slot x y = Some (k, l) \<longleftrightarrow> x = Some l \<and> y = Some k"
  by (cases x; cases y) auto

lemma mk_slot_None_right [simp]: "mk_slot x None = None"
  by (cases x) auto

definition ck_slot :: "checkpoint \<Rightarrow> bytes \<Rightarrow> (alloc \<times> lref) option" where
  "ck_slot ck b = mk_slot (kd_get b (ck_map ck)) (kd_get b (ck_key_allocs ck))"

lemma ck_slot_new [simp]: "ck_slot (new_checkpoint i) b = None"
  by (simp add: ck_slot_def new_checkpoint_def)

fun slot :: "working_set \<Rightarrow> checkpoint list \<Rightarrow> slots" where
  "slot ws rs (InWindow i) b = (case map_of (ws_chkpts ws) i of None \<Rightarrow> None | Some ck \<Rightarrow> ck_slot ck b)"
| "slot ws rs (Retiring n) b =
     (if n < length rs \<and> ks_mem b (ck_kvs_to_clear (rs ! n)) then ck_slot (rs ! n) b else None)"

definition foot :: "alloc \<Rightarrow> alloc list \<Rightarrow> (nat \<times> nat) set" where
  "foot k vs = insert (ident k) (ident ` set vs)"

definition cell_ok :: "alloc \<Rightarrow> alloc list \<Rightarrow> bytes \<Rightarrow> (nat \<times> nat) set \<Rightarrow> bool" where
  "cell_ok k vs b live \<longleftrightarrow> al_bytes k = b \<and> foot k vs \<subseteq> live \<and> distinct (map ident (k # vs))"

definition heap_ok :: "slots \<Rightarrow> (lref \<Rightarrow> alloc list) \<Rightarrow> (nat \<times> nat) set \<Rightarrow> lref \<Rightarrow> bool" where
  "heap_ok S L live n \<longleftrightarrow>
     (\<forall>p b k l. S p b = Some (k, l) \<longrightarrow> l < n \<and> cell_ok k (L l) b live) \<and>
     (\<forall>p b k l p' b' k' l'. S p b = Some (k, l) \<longrightarrow> S p' b' = Some (k', l') \<longrightarrow> (p, b) \<noteq> (p', b') \<longrightarrow>
        l \<noteq> l' \<and> foot k (L l) \<inter> foot k' (L l') = {})"

lemma heap_okD:
  assumes "heap_ok S L live n" "S p b = Some (k, l)"
  shows "l < n" "cell_ok k (L l) b live"
  using assms unfolding heap_ok_def by blast+

lemma heap_ok_apart:
  assumes "heap_ok S L live n" "S p b = Some (k, l)" "S p' b' = Some (k', l')" "(p, b) \<noteq> (p', b')"
  shows "l \<noteq> l'" "foot k (L l) \<inter> foot k' (L l') = {}"
  using assms unfolding heap_ok_def by blast+

text \<open>Slots may be dropped, and memory outside every slot may change.\<close>

lemma heap_ok_frame:
  assumes "heap_ok S L live n" "n \<le> n'"
    and sub: "\<And>p b k l. S' p b = Some (k, l) \<Longrightarrow> S p b = Some (k, l)"
    and keep: "\<And>p b k l. S' p b = Some (k, l) \<Longrightarrow> L' l = L l \<and> foot k (L l) \<subseteq> live'"
  shows "heap_ok S' L' live' n'"
  unfolding heap_ok_def
proof (intro conjI allI impI)
  fix p b k l
  assume s: "S' p b = Some (k, l)"
  show "l < n'" using heap_okD(1) [OF assms(1) sub [OF s]] assms(2) by simp
  show "cell_ok k (L' l) b live'" using heap_okD(2) [OF assms(1) sub [OF s]] keep [OF s] by (simp add: cell_ok_def)
next
  fix p b k l p' b' k' l'
  assume s: "S' p b = Some (k, l)" "S' p' b' = Some (k', l')" "(p, b) \<noteq> (p', b')"
  then show "l \<noteq> l'" using heap_ok_apart(1) [OF assms(1) sub sub] by blast
  show "foot k (L' l) \<inter> foot k' (L' l') = {}"
    using heap_ok_apart(2) [OF assms(1) sub [OF s(1)] sub [OF s(2)] s(3)] keep [OF s(1)] keep [OF s(2)] by simp
qed

text \<open>Slots may be moved to other places.\<close>

lemma heap_ok_relocate:
  assumes ok: "heap_ok S L live n"
    and src: "\<And>p b k l. S' p b = Some (k, l) \<Longrightarrow> S (f p b) b = Some (k, l)"
    and inj: "\<And>p p' b x y. S' p b = Some x \<Longrightarrow> S' p' b = Some y \<Longrightarrow> f p b = f p' b \<Longrightarrow> p = p'"
  shows "heap_ok S' L live n"
  unfolding heap_ok_def
proof (intro conjI allI impI)
  fix p b k l
  assume s: "S' p b = Some (k, l)"
  show "l < n" "cell_ok k (L l) b live" using heap_okD [OF ok src [OF s]] by simp_all
next
  fix p b k l p' b' k' l'
  assume s: "S' p b = Some (k, l)" "S' p' b' = Some (k', l')" "(p, b) \<noteq> (p', b')"
  have "(f p b, b) \<noteq> (f p' b', b')" using s inj [of p b "(k, l)" p' "(k', l')"] by auto
  then show "l \<noteq> l'" "foot k (L l) \<inter> foot k' (L l') = {}"
    using heap_ok_apart [OF ok src [OF s(1)] src [OF s(2)]] by simp_all
qed

text \<open>A slot may be filled with memory that no slot owns.\<close>

definition unowned :: "slots \<Rightarrow> (lref \<Rightarrow> alloc list) \<Rightarrow> (nat \<times> nat) set \<Rightarrow> bool" where
  "unowned S L A \<longleftrightarrow> (\<forall>p b k l. S p b = Some (k, l) \<longrightarrow> foot k (L l) \<inter> A = {})"

definition unbound :: "slots \<Rightarrow> lref \<Rightarrow> bool" where
  "unbound S l \<longleftrightarrow> (\<forall>p b k. S p b \<noteq> Some (k, l))"

lemma heap_ok_fill:
  assumes ok: "heap_ok S L live n" and l: "l < n" "unbound S l" and cell: "cell_ok k (L l) b live"
    and apart: "\<And>p' b' k' l'. S p' b' = Some (k', l') \<Longrightarrow> (p', b') \<noteq> (p, b) \<Longrightarrow> foot k' (L l') \<inter> foot k (L l) = {}"
  shows "heap_ok (S(p := (S p)(b \<mapsto> (k, l)))) L live n"
  unfolding heap_ok_def
proof (intro conjI allI impI)
  fix q c k' l'
  assume "(S(p := (S p)(b \<mapsto> (k, l)))) q c = Some (k', l')"
  then show "l' < n" "cell_ok k' (L l') c live"
    using heap_okD [OF ok, of q c k' l'] l cell by (auto split: if_splits)
next
  fix q c k1 l1 q' c' k2 l2
  let ?S = "S(p := (S p)(b \<mapsto> (k, l)))"
  assume s: "?S q c = Some (k1, l1)" "?S q' c' = Some (k2, l2)" "(q, c) \<noteq> (q', c')"
  have same: "k1 = k \<and> l1 = l" if "(q, c) = (p, b)" using that s(1) by auto
  have same': "k2 = k \<and> l2 = l" if "(q', c') = (p, b)" using that s(2) by auto
  have old: "S q c = Some (k1, l1)" if "(q, c) \<noteq> (p, b)" using that s(1) by (auto split: if_splits)
  have old': "S q' c' = Some (k2, l2)" if "(q', c') \<noteq> (p, b)" using that s(2) by (auto split: if_splits)
  consider "(q, c) = (p, b)" "(q', c') \<noteq> (p, b)" | "(q, c) \<noteq> (p, b)" "(q', c') = (p, b)"
    | "(q, c) \<noteq> (p, b)" "(q', c') \<noteq> (p, b)" using s(3) by blast
  then have "l1 \<noteq> l2 \<and> foot k1 (L l1) \<inter> foot k2 (L l2) = {}"
  proof cases
    case 1
    then show ?thesis using same old' apart [of q' c' k2 l2] l(2) by (auto simp: unbound_def)
  next
    case 2
    then show ?thesis using same' old apart [of q c k1 l1] l(2) by (auto simp: unbound_def)
  next
    case 3
    then show ?thesis using heap_ok_apart [OF ok old old' s(3)] by blast
  qed
  then show "l1 \<noteq> l2" "foot k1 (L l1) \<inter> foot k2 (L l2) = {}" by blast+
qed

section \<open>The manager's invariant\<close>

abbreviation slots_of :: "mgr \<Rightarrow> slots" where
  "slots_of s \<equiv> slot (mg_ws s) (mg_persisting s)"

text \<open>What a retiring checkpoint still has to clear is there.\<close>

definition retiring_ok :: "checkpoint \<Rightarrow> bool" where
  "retiring_ok p \<longleftrightarrow> ks_ok (ck_kvs_to_clear p) \<and> (\<forall>b. ks_mem b (ck_kvs_to_clear p) \<longrightarrow> ck_slot p b \<noteq> None)"

definition mg_inv :: "mgr \<Rightarrow> bool" where
  "mg_inv s \<longleftrightarrow> ws_inv (mg_ws s) \<and> heap_ok (slots_of s) (mg_lists s) (mg_live s) (mg_next_lref s) \<and>
     (\<forall>p \<in> set (mg_persisting s). retiring_ok p)"

lemma slot_window:
  assumes "ws_inv ws"
  shows "slot ws rs (InWindow i) b =
    (if ws_next_id ws - ws_size ws \<le> i \<and> i < ws_next_id ws then ck_slot (layer ws i) b else None)"
  using ws_inv_layer(1) [OF assms, of i] ws_inv_mem [OF assms, of i] by auto

lemma ck_slot_ok: "ck_ok ck \<Longrightarrow> ck_slot ck b =
    (if kd_mem b (ck_map ck) then Some (the (kd_get b (ck_key_allocs ck)), the (kd_get b (ck_map ck))) else None)"
  by (fastforce simp: ck_slot_def ck_ok_def kd_mem_def)

lemma ck_slot_absorb:
  assumes "ck_ok p" "ck_ok c"
  shows "ck_slot (absorb w p c) b = (if handed_down c b then ck_slot p b else ck_slot c b)"
proof -
  have "kd_mem b (ck_map p) \<Longrightarrow> kd_mem b (ck_key_allocs p)" using assms(1) by (simp add: ck_ok_def)
  then show ?thesis
    by (cases "kd_get b (ck_map p)") (auto simp: ck_slot_def absorb_gets [OF assms] handed_down_def kd_mem_def)
qed

text \<open>One move of the window relocates slots: the parent's keys go to the child or to the retiring
  checkpoint.\<close>

definition relocated :: "slots \<Rightarrow> slots \<Rightarrow> (place \<Rightarrow> bytes \<Rightarrow> place) \<Rightarrow> bool" where
  "relocated S S' f \<longleftrightarrow>
     (\<forall>p b x. S' p b = Some x \<longrightarrow> S (f p b) b = Some x) \<and>
     (\<forall>p p' b x y. S' p b = Some x \<longrightarrow> S' p' b = Some y \<longrightarrow> f p b = f p' b \<longrightarrow> p = p')"

lemma moved_slots:
  assumes inv: "ws_inv ws" and adv: "advance ws = (Inr True, ws', [p])"
  shows "\<exists>f. relocated (slot ws rs) (slot ws' (rs @ [p])) f"
proof -
  note pc = next_parent_child [OF inv]
  define wo where "wo = ws_next_id ws - ws_size ws"
  have sz: "1 \<le> ws_size ws" using inv by (simp add: ws_inv_def)
  obtain kvs where a: "advance ws = (if may_retire ws
       then (Inr True, moved ws, [(next_parent ws)\<lparr>ck_kvs_to_clear := kvs, ck_reattach := Some False\<rparr>])
       else (Inr False, ws, []))"
    and kvs: "ks_contents kvs = {b. kd_mem b (ck_map (next_parent ws)) \<and> \<not> handed_down (next_child ws) b}"
    by (rule advance_run [OF inv])
  have ws': "ws' = moved ws" and p: "p = (next_parent ws)\<lparr>ck_kvs_to_clear := kvs, ck_reattach := Some False\<rparr>"
    using a adv by (auto split: if_splits)
  have parent: "slot ws rs (InWindow wo) b = ck_slot (next_parent ws) b" for b
    using sz by (simp add: slot_window [OF inv] wo_def next_parent_def del: slot.simps)
  have child: "slot ws rs (InWindow (wo + 1)) b = ck_slot (next_child ws) b" for b
    using sz by (auto simp: slot_window [OF inv] wo_def next_child_def ck_slot_def new_checkpoint_def simp del: slot.simps)
  have pslot: "ck_slot p b = ck_slot (next_parent ws) b" for b by (simp add: p ck_slot_def)
  define f where "f q b = (if q = InWindow (wo + 1) \<and> handed_down (next_child ws) b then InWindow wo
      else if q = Retiring (length rs) then InWindow wo else q)" for q b
  have win: "slot ws' (rs @ [p]) (InWindow i) b = (if i = wo then None
      else if i = wo + 1 then (if handed_down (next_child ws) b then ck_slot (next_parent ws) b else ck_slot (next_child ws) b)
      else if i = ws_next_id ws then None else slot ws rs (InWindow i) b)" for i b
    by (simp add: ws' moved_layers [OF inv] wo_def ck_slot_absorb [OF pc(1,2)])
  have ret: "slot ws' (rs @ [p]) (Retiring m) b = (if m = length rs
      then (if kd_mem b (ck_map (next_parent ws)) \<and> \<not> handed_down (next_child ws) b then ck_slot (next_parent ws) b else None)
      else slot ws rs (Retiring m) b)" for m b
    using kvs pslot by (auto simp: nth_append p ks_mem_iff)
  have "slot ws rs (f q b) b = Some x" if "slot ws' (rs @ [p]) q b = Some x" for q b x
    using that parent child by (cases q) (auto simp: f_def win ret simp del: slot.simps split: if_splits)
  moreover have "q = q'" if "slot ws' (rs @ [p]) q b = Some x" "slot ws' (rs @ [p]) q' b = Some y" "f q b = f q' b"
    for q q' b x y
    using that by (cases q; cases q') (auto simp: f_def win ret simp del: slot.simps split: if_splits)
  ultimately show ?thesis unfolding relocated_def by blast
qed

lemma relocated_heap_ok: "relocated S S' f \<Longrightarrow> heap_ok S L live n \<Longrightarrow> heap_ok S' L live n"
  unfolding relocated_def by (rule heap_ok_relocate [of S L live n S' f]) blast+

text \<open>What every step of the window keeps, the loops of \<open>put\<close> and \<open>access\<close> keep.\<close>

definition advance_keeps :: "(working_set \<Rightarrow> checkpoint list \<Rightarrow> bool) \<Rightarrow> bool" where
  "advance_keeps P \<longleftrightarrow>
     (\<forall>ws ws' p ts. ws_inv ws \<longrightarrow> P ws ts \<longrightarrow> advance ws = (Inr True, ws', [p]) \<longrightarrow> P ws' (ts @ [p]))"

lemma advance_step_cases:
  assumes "ws_inv ws"
  obtains (no) "advance ws = (Inr False, ws, [])"
  | (yes) p where "advance ws = (Inr True, moved ws, [p])"
  by (rule advance_run [OF assms]) (auto split: if_splits)

lemma put_loop_keeps:
  assumes "advance_keeps P" "ws_inv ws" "P ws ts" "put_loop c newest ws ts = (Inr (), ws', ts')"
  shows "P ws' ts'"
  using assms(2-4)
proof (induction c newest ws ts rule: put_loop.induct)
  case (1 c newest ws ts)
  show ?case
  proof (rule advance_step_cases [OF 1(2)])
    assume "advance ws = (Inr False, ws, [])"
    then show ?thesis using 1(3,4) by (subst (asm) put_loop.simps) (auto split: if_splits)
  next
    fix p
    let ?ws1 = "moved ws"
    assume yes: "advance ws = (Inr True, ?ws1, [p])"
    have P1: "P ?ws1 (ts @ [p])" using assms(1) 1(2,3) yes unfolding advance_keeps_def by blast
    show ?thesis
    proof (cases "newest < c")
      case True
      then have "put_loop c (min (ws_next_id ?ws1 - 1) c) ?ws1 (ts @ [p]) = (Inr (), ws', ts')"
        using 1(4) yes by (subst (asm) put_loop.simps) simp
      then show ?thesis using 1(1) [OF True yes [symmetric] refl refl] moved_inv [OF 1(2)] P1 by simp
    next
      case False
      then show ?thesis using 1(3,4) by (subst (asm) put_loop.simps) simp
    qed
  qed
qed

lemma access_loop_keeps:
  assumes "advance_keeps P" "ws_inv ws" "P ws ts" "oldest_chkpt_id ws \<le> c"
    "access_loop c ws ts = Some (Inr (), ws', ts')"
  shows "P ws' ts'"
  using assms(2-5)
proof (induction "nat (c + 1 - ws_next_id ws)" arbitrary: ws ts rule: less_induct)
  case less
  have mem: "(\<exists>ck. map_of (ws_chkpts ws) c = Some ck) \<longleftrightarrow> c < ws_next_id ws"
    using ws_inv_mem [OF less(2), of c] less(4) ws_inv_oldest [OF less(2)] by auto
  show ?case
  proof (rule advance_step_cases [OF less(2)])
    assume "advance ws = (Inr False, ws, [])"
    then show ?thesis using less(3,5) by (subst (asm) access_loop.simps) (auto split: if_splits)
  next
    fix p
    let ?ws1 = "moved ws"
    assume yes: "advance ws = (Inr True, ?ws1, [p])"
    have P1: "P ?ws1 (ts @ [p])" using assms(1) less(2,3) yes unfolding advance_keeps_def by blast
    show ?thesis
    proof (cases "c < ws_next_id ws")
      case True
      then show ?thesis using less(3,5) mem by (subst (asm) access_loop.simps) auto
    next
      case False
      then have "oldest_chkpt_id ?ws1 \<le> c"
        using False ws_inv_oldest [OF moved_inv [OF less(2)]] less(2) by (simp add: ws_inv_def)
      moreover have "access_loop c ?ws1 (ts @ [p]) = Some (Inr (), ws', ts')"
        using less(5) False yes mem by (subst (asm) access_loop.simps) auto
      ultimately show ?thesis using less(1) [of ?ws1 "ts @ [p]"] moved_inv [OF less(2)] P1 False by simp
    qed
  qed
qed

section \<open>The dictionary a client sees\<close>

text \<open>The value of a key at a checkpoint: the contents of the value list that the layers give.\<close>

definition contents :: "alloc list \<Rightarrow> bytes" where
  "contents vs = concat (map al_bytes vs)"

definition seen :: "mgr \<Rightarrow> int \<Rightarrow> bytes \<Rightarrow> bytes option" where
  "seen s c b = map_option (\<lambda>l. contents (mg_lists s l)) (view (mg_ws s) c b)"

text \<open>What moving the window may change of a manager: the window and the list of persisting
  threads.\<close>

definition slots_from :: "slots \<Rightarrow> slots \<Rightarrow> bool" where
  "slots_from S S' \<longleftrightarrow> (\<forall>p b x. S' p b = Some x \<longrightarrow> (\<exists>q. S q b = Some x))"

definition window_moved :: "mgr \<Rightarrow> mgr \<Rightarrow> bool" where
  "window_moved s s' \<longleftrightarrow>
     (\<exists>ws ts. s' = s\<lparr>mg_ws := ws, mg_persisting := mg_persisting s @ ts\<rparr> \<and> advanced (mg_ws s) ws \<and>
        mg_inv s' \<and> slots_from (slots_of s) (slots_of s'))"

lemma advanced_retiring_ok:
  assumes "ws_inv ws" "advance ws = (Inr True, ws', [p])"
  shows "retiring_ok p"
proof -
  note pc = next_parent_child [OF assms(1)]
  obtain kvs where a: "advance ws = (if may_retire ws
       then (Inr True, moved ws, [(next_parent ws)\<lparr>ck_kvs_to_clear := kvs, ck_reattach := Some False\<rparr>])
       else (Inr False, ws, []))"
    and kvs: "ks_contents kvs = {b. kd_mem b (ck_map (next_parent ws)) \<and> \<not> handed_down (next_child ws) b}" "ks_ok kvs"
    by (rule advance_run [OF assms(1)])
  have "p = (next_parent ws)\<lparr>ck_kvs_to_clear := kvs, ck_reattach := Some False\<rparr>"
    using a assms(2) by (auto split: if_splits)
  moreover from this have "ck_slot p b = ck_slot (next_parent ws) b" for b by (simp add: ck_slot_def)
  ultimately show ?thesis using kvs by (simp add: retiring_ok_def ks_mem_iff ck_slot_ok [OF pc(1)])
qed

lemma advance_keeps_heap:
  "advance_keeps (\<lambda>ws ts. heap_ok (slot ws (rs @ ts)) L live n \<and> slots_from S (slot ws (rs @ ts)) \<and>
     (\<forall>p \<in> set (rs @ ts). retiring_ok p))"
  unfolding advance_keeps_def
proof (intro allI impI)
  fix ws ws' p ts
  assume a: "ws_inv ws" "heap_ok (slot ws (rs @ ts)) L live n \<and> slots_from S (slot ws (rs @ ts)) \<and>
      (\<forall>p \<in> set (rs @ ts). retiring_ok p)"
    "advance ws = (Inr True, ws', [p])"
  obtain f where f: "relocated (slot ws (rs @ ts)) (slot ws' (rs @ ts @ [p])) f"
    using moved_slots [OF a(1,3), of "rs @ ts"] by auto
  have "slots_from S (slot ws' (rs @ ts @ [p]))"
    using f a(2) unfolding relocated_def slots_from_def by blast
  then show "heap_ok (slot ws' (rs @ ts @ [p])) L live n \<and> slots_from S (slot ws' (rs @ ts @ [p])) \<and>
      (\<forall>q \<in> set (rs @ ts @ [p]). retiring_ok q)"
    using relocated_heap_ok [OF f] a(2) advanced_retiring_ok [OF a(1,3)] by auto
qed

lemma slots_from_refl: "slots_from S S"
  by (auto simp: slots_from_def)

lemma window_moved_refl: "mg_inv s \<Longrightarrow> window_moved s s"
  unfolding window_moved_def mg_inv_def
  by (rule exI [of _ "mg_ws s"], rule exI [of _ "[]"]) (auto intro: advanced_refl slots_from_refl)

lemma window_moved_seen:
  assumes "window_moved s s'" "oldest_chkpt_id (mg_ws s') \<le> c"
  shows "seen s' c b = seen s c b"
  using assms by (auto simp: window_moved_def seen_def advanced_def)

lemma window_moved_inv: "window_moved s s' \<Longrightarrow> mg_inv s'"
  by (auto simp: window_moved_def)

lemma working_set_put_run:
  assumes inv: "mg_inv s"
  shows "if c < oldest_chkpt_id (mg_ws s) then working_set_put c s = (Inl DDictCheckpointSyncError, s)
    else \<exists>s'. working_set_put c s = (Inr (if c < ws_next_id (mg_ws s') then Some c else None), s') \<and>
      window_moved s s' \<and>
      (if c < ws_next_id (mg_ws s') then ws_next_id (mg_ws s') = max (ws_next_id (mg_ws s)) (c + 1)
       else \<not> may_retire (mg_ws s'))"
proof -
  have ws: "ws_inv (mg_ws s)" and heap: "heap_ok (slots_of s) (mg_lists s) (mg_live s) (mg_next_lref s)"
    using inv by (simp_all add: mg_inv_def)
  show ?thesis
  proof (cases "c < oldest_chkpt_id (mg_ws s)")
    case True
    then show ?thesis by (simp add: working_set_put_def ws_put_def ws_inv_newest [OF ws])
  next
    case False
    obtain ws' ts where r: "put_loop c (ws_next_id (mg_ws s) - 1) (mg_ws s) [] = (Inr (), ws', ts)"
      "loop_done c (mg_ws s) ws' [] ts"
      using put_loop_run [OF ws, of _ c "[]"] by blast
    let ?s' = "s\<lparr>mg_ws := ws', mg_persisting := mg_persisting s @ ts\<rparr>"
    have "heap_ok (slot ws' (mg_persisting s @ ts)) (mg_lists s) (mg_live s) (mg_next_lref s) \<and>
        slots_from (slots_of s) (slot ws' (mg_persisting s @ ts)) \<and>
        (\<forall>p \<in> set (mg_persisting s @ ts). retiring_ok p)"
      by (rule put_loop_keeps [OF advance_keeps_heap [of "mg_persisting s"] ws _ r(1)])
        (use inv in \<open>simp add: heap slots_from_refl mg_inv_def\<close>)
    then have "window_moved s ?s'"
      using r(2) by (auto simp: window_moved_def mg_inv_def loop_done_def advanced_def)
    moreover have "working_set_put c s = (Inr (if c < ws_next_id ws' then Some c else None), ?s')"
      using False r(1) loop_done_mem [OF ws False r(2)]
      by (simp add: working_set_put_def ws_put_def ws_inv_newest [OF ws])
    ultimately show ?thesis using False r(2) by (auto simp: loop_done_def)
  qed
qed

lemma working_set_access_run:
  assumes inv: "mg_inv s"
  shows "if c < oldest_chkpt_id (mg_ws s) then working_set_access c s = (Inl DDictCheckpointSyncError, s)
    else \<exists>s'. working_set_access c s = (Inr (if c < ws_next_id (mg_ws s') then Some c else None), s') \<and>
      window_moved s s' \<and>
      (if c < ws_next_id (mg_ws s') then ws_next_id (mg_ws s') = max (ws_next_id (mg_ws s)) (c + 1)
       else \<not> may_retire (mg_ws s'))"
proof -
  have ws: "ws_inv (mg_ws s)" and heap: "heap_ok (slots_of s) (mg_lists s) (mg_live s) (mg_next_lref s)"
    using inv by (simp_all add: mg_inv_def)
  show ?thesis
  proof (cases "c < oldest_chkpt_id (mg_ws s)")
    case True
    then show ?thesis by (simp add: working_set_access_def ws_access_def)
  next
    case False
    then have c: "oldest_chkpt_id (mg_ws s) \<le> c" by simp
    obtain ws' ts where r: "access_loop c (mg_ws s) [] = Some (Inr (), ws', ts)" "loop_done c (mg_ws s) ws' [] ts"
      using access_loop_run [OF ws c, of "[]"] by blast
    let ?s' = "s\<lparr>mg_ws := ws', mg_persisting := mg_persisting s @ ts\<rparr>"
    have "heap_ok (slot ws' (mg_persisting s @ ts)) (mg_lists s) (mg_live s) (mg_next_lref s) \<and>
        slots_from (slots_of s) (slot ws' (mg_persisting s @ ts)) \<and>
        (\<forall>p \<in> set (mg_persisting s @ ts). retiring_ok p)"
      by (rule access_loop_keeps [OF advance_keeps_heap [of "mg_persisting s"] ws _ c r(1)])
        (use inv in \<open>simp add: heap slots_from_refl mg_inv_def\<close>)
    then have "window_moved s ?s'"
      using r(2) by (auto simp: window_moved_def mg_inv_def loop_done_def advanced_def)
    moreover have "working_set_access c s = (Inr (if c < ws_next_id ws' then Some c else None), ?s')"
      using False r(1) loop_done_mem [OF ws False r(2)]
      by (simp add: working_set_access_def ws_access_def)
    ultimately show ?thesis using False r(2) by (auto simp: loop_done_def)
  qed
qed

section \<open>Replacing one checkpoint\<close>

lemma put_ck_inv:
  assumes "ws_inv ws" "ws_next_id ws - ws_size ws \<le> i" "i < ws_next_id ws" "ck_ok ck" "ck_id ck = i"
  shows "ws_inv (put_ck i ck ws)"
proof -
  have "i \<in> set (d_keys (ws_chkpts ws))" using ws_inv_layer(1) [OF assms(1-3)] by auto
  then show ?thesis
    using assms unfolding ws_inv_def put_ck_def
    by (auto simp: map_update_same_keys simp del: in_d_keys split: if_splits)
qed

lemma layer_put_ck [simp]: "layer (put_ck i ck ws) j = (if j = i then ck else layer ws j)"
  by (simp add: layer_def put_ck_def)

lemma put_ck_fields [simp]:
  "ws_next_id (put_ck i ck ws) = ws_next_id ws" "ws_size (put_ck i ck ws) = ws_size ws"
  "ws_wait_for_keys (put_ck i ck ws) = ws_wait_for_keys ws"
  "ws_wait_for_writers (put_ck i ck ws) = ws_wait_for_writers ws" "ws_linked (put_ck i ck ws) = ws_linked ws"
  "oldest_chkpt_id (put_ck i ck ws) = oldest_chkpt_id ws"
  "map_of (ws_chkpts (put_ck i ck ws)) = (map_of (ws_chkpts ws))(i \<mapsto> ck)"
  by (simp_all add: put_ck_def oldest_chkpt_id_def)

lemma put_ck_twice [simp]: "put_ck i ck (put_ck i ck' ws) = put_ck i ck ws"
  by (simp add: put_ck_def)

lemma put_ck_same:
  assumes "ws_inv ws" "ws_next_id ws - ws_size ws \<le> i" "i < ws_next_id ws"
  shows "put_ck i (layer ws i) ws = ws"
  using ws_inv_layer(1) [OF assms] by (simp add: put_ck_def update_triv)

lemma slot_put_ck [simp]:
  "slot (put_ck i ck ws) rs = (slot ws rs)(InWindow i := ck_slot ck)"
proof (intro ext)
  fix p b
  show "slot (put_ck i ck ws) rs p b = ((slot ws rs)(InWindow i := ck_slot ck)) p b"
    by (cases p) auto
qed

text \<open>Whether a checkpoint between \<open>i\<close> and \<open>c\<close> says something about the key.\<close>

definition shadowed :: "working_set \<Rightarrow> int \<Rightarrow> int \<Rightarrow> bytes \<Rightarrow> bool" where
  "shadowed ws i c b \<longleftrightarrow> (\<exists>j. i < j \<and> j \<le> c \<and> j < ws_next_id ws \<and> ck_entry (layer ws j) b \<noteq> None)"

lemma layers_split:
  assumes "ws_next_id ws - ws_size ws \<le> i" "i \<le> c" "i < ws_next_id ws"
  shows "layers ws c = map (layer ws) (rev [i + 1..min c (ws_next_id ws - 1)]) @ layer ws i #
     map (layer ws) (rev [ws_next_id ws - ws_size ws..i - 1])"
proof -
  have "[ws_next_id ws - ws_size ws..min c (ws_next_id ws - 1)] =
     [ws_next_id ws - ws_size ws..i - 1] @ i # [i + 1..min c (ws_next_id ws - 1)]"
    using assms by (intro upto_split3) auto
  then show ?thesis by (simp add: layers_def)
qed

lemma view_put_ck:
  assumes i: "ws_next_id ws - ws_size ws \<le> i" "i < ws_next_id ws"
  shows "view (put_ck i ck ws) c b =
    (if i \<le> c \<and> \<not> shadowed ws i c b \<and> ck_entry ck b \<noteq> ck_entry (layer ws i) b
     then (case ck_entry ck b of Some r \<Rightarrow> r
           | None \<Rightarrow> view ws (i - 1) b)
     else view ws c b)"
proof (cases "i \<le> c")
  case False
  have "layers (put_ck i ck ws) c = layers ws c"
    unfolding layers_def put_ck_fields using False by (intro map_cong) auto
  then show ?thesis using False by (simp add: view_def)
next
  case True
  let ?up = "[i + 1..min c (ws_next_id ws - 1)]" and ?dn = "[ws_next_id ws - ws_size ws..i - 1]"
  have up: "map (layer (put_ck i ck ws)) (rev ?up) = map (layer ws) (rev ?up)"
    by (intro map_cong) auto
  have dn: "map (layer (put_ck i ck ws)) (rev ?dn) = map (layer ws) (rev ?dn)"
    by (intro map_cong) auto
  have l: "layers ws c = map (layer ws) (rev ?up) @ layer ws i # map (layer ws) (rev ?dn)"
    using layers_split [OF i(1) True i(2)] .
  have l': "layers (put_ck i ck ws) c = map (layer ws) (rev ?up) @ ck # map (layer ws) (rev ?dn)"
    using layers_split [of "put_ck i ck ws" i c] i True up dn by simp
  have below: "view ws (i - 1) b = lay.find_value (map (layer ws) (rev ?dn)) b"
    using i by (simp add: view_def layers_def min_absorb1)
  have sh: "shadowed ws i c b \<longleftrightarrow> (\<exists>x \<in> set (map (layer ws) (rev ?up)). ck_entry x b \<noteq> None)"
    by (auto simp: shadowed_def) (metis add1_zle_eq atLeastAtMost_iff less_iff_diff_less_0 min_less_iff_conj zle_diff1_eq min.bounded_iff)+
  show ?thesis
    unfolding view_def [of ws c] view_def [of "put_ck i ck ws"] l l' below
    using True by (auto simp: lay.find_value_append sh split: option.splits)
qed

lemma find_value_first:
  assumes "lay.find_value (map f idx) b = Some l"
  shows "\<exists>pre i post. idx = pre @ i # post \<and> kd_get b (ck_map (f i)) = Some l \<and> (\<forall>j \<in> set pre. ck_entry (f j) b = None)"
  using assms
proof (induction idx)
  case (Cons i idx)
  show ?case
  proof (cases "ck_entry (f i) b")
    case None
    then obtain pre j post where "idx = pre @ j # post" "kd_get b (ck_map (f j)) = Some l"
      "\<forall>j \<in> set pre. ck_entry (f j) b = None"
      using Cons by auto
    then show ?thesis using None by (intro exI [of _ "i # pre"] exI [of _ j] exI [of _ post]) simp
  next
    case (Some r)
    then have "kd_get b (ck_map (f i)) = Some l" using Cons.prems by auto
    then show ?thesis by (intro exI [of _ "[]"] exI [of _ i] exI [of _ idx]) simp
  qed
qed simp

text \<open>The value a client sees is bound in the newest checkpoint up to its own that says anything.\<close>

lemma view_bound:
  assumes inv: "ws_inv ws" and v: "view ws c b = Some l"
  shows "\<exists>i k. ws_next_id ws - ws_size ws \<le> i \<and> i < ws_next_id ws \<and> i \<le> c \<and>
     slot ws rs (InWindow i) b = Some (k, l) \<and> kd_get b (ck_map (layer ws i)) = Some l \<and> \<not> shadowed ws i c b"
proof -
  define idx where "idx = rev [ws_next_id ws - ws_size ws..min c (ws_next_id ws - 1)]"
  obtain pre i post where p: "idx = pre @ i # post" "kd_get b (ck_map (layer ws i)) = Some l"
    "\<forall>j \<in> set pre. ck_entry (layer ws j) b = None"
    using find_value_first [OF v [unfolded view_def layers_def]] unfolding idx_def by blast
  have mem: "j \<in> set idx \<longleftrightarrow> ws_next_id ws - ws_size ws \<le> j \<and> j \<le> c \<and> j < ws_next_id ws" for j
    by (auto simp: idx_def)
  have i: "ws_next_id ws - ws_size ws \<le> i" "i < ws_next_id ws" "i \<le> c" using mem [of i] p(1) by auto
  have "sorted_wrt (\<lambda>x y. x > y) idx" by (simp add: idx_def sorted_wrt_rev)
  then have "j \<in> set pre" if "j \<in> set idx" "i < j" for j
    using that unfolding p(1) by (auto simp: sorted_wrt_append)
  then have "\<not> shadowed ws i c b" using p(3) mem i(1) by (force simp: shadowed_def)
  moreover have "ck_ok (layer ws i)" using ws_inv_layer(3) [OF inv i(1,2)] .
  then have "\<exists>k. slot ws rs (InWindow i) b = Some (k, l)"
    using i p(2) by (auto simp: slot_window [OF inv] ck_slot_def ck_ok_def kd_mem_def simp del: slot.simps)
  ultimately show ?thesis using i p(2) by blast
qed

end
