(* ===== verification/PutGet.thy ===== *)
theory PutGet
  imports Ownership
begin

text \<open>
  What the operations on one key do to a manager with a well-formed heap: put and batch put, get,
  contains and pop, each on every branch, as changes of the dictionary the clients see.
\<close>

section \<open>Freeing lists\<close>

text \<open>A loop that pops the last handle and frees it, whatever freeing does with its errors.\<close>

lemma free_loop_run:
  assumes step: "\<And>v xs s. mg_lists s l = xs @ [v] \<Longrightarrow> Q (xs @ [v]) s \<Longrightarrow>
      F v s = (Inr (), s\<lparr>mg_lists := (mg_lists s)(l := xs), mg_live := mg_live s - {ident v}\<rparr>)"
    and next_ok: "\<And>v xs s. Q (xs @ [v]) s \<Longrightarrow> Q xs (s\<lparr>mg_lists := (mg_lists s)(l := xs), mg_live := mg_live s - {ident v}\<rparr>)"
    and "mg_lists s l = xs" "Q xs s"
  shows "for_each (rev xs) F s =
      (Inr (), s\<lparr>mg_lists := (mg_lists s)(l := []), mg_live := mg_live s - ident ` set xs\<rparr>)"
  using assms(3,4)
proof (induction xs arbitrary: s rule: rev_induct)
  case Nil
  then have "(mg_lists s)(l := []) = mg_lists s" by (simp add: fun_upd_idem)
  then show ?case by simp
next
  case (snoc v xs)
  let ?s = "s\<lparr>mg_lists := (mg_lists s)(l := xs), mg_live := mg_live s - {ident v}\<rparr>"
  have "for_each (rev (xs @ [v])) F s = for_each (rev xs) F ?s"
    using step [OF snoc.prems] by (simp add: sq_Inr del: fun_upd_apply)
  also have "\<dots> = (Inr (), ?s\<lparr>mg_lists := (mg_lists ?s)(l := []), mg_live := mg_live ?s - ident ` set xs\<rparr>)"
    by (rule snoc.IH) (use next_ok [OF snoc.prems(2)] in simp_all)
  also have "mg_live ?s - ident ` set xs = mg_live s - ident ` set (xs @ [v])" by auto
  finally show ?case by (simp del: fun_upd_apply)
qed

lemma free_list_quietly_run:
  "free_list_quietly l s = (Inr (), s\<lparr>mg_lists := (mg_lists s)(l := []),
     mg_live := mg_live s - ident ` set (mg_lists s l)\<rparr>)"
  unfolding free_list_quietly_def bnd_apply gets_apply prod.case sum.case
  by (rule free_loop_run [where Q = "\<lambda>_ _. True"])
     (auto simp: py_simps pop_val_def free_mem_def simp del: fun_upd_apply)

lemma free_list_run:
  assumes "distinct (map ident (mg_lists s l))" "ident ` set (mg_lists s l) \<subseteq> mg_live s"
  shows "free_list l s = (Inr (), s\<lparr>mg_lists := (mg_lists s)(l := []),
     mg_live := mg_live s - ident ` set (mg_lists s l)\<rparr>)"
  unfolding free_list_def bnd_apply gets_apply prod.case sum.case
  by (rule free_loop_run [where Q = "\<lambda>xs s. distinct (map ident xs) \<and> ident ` set xs \<subseteq> mg_live s"])
     (use assms in \<open>auto simp: py_simps pop_val_def free_mem_def simp del: fun_upd_apply\<close>)

section \<open>Keys in use\<close>

lemma key_in_use_fresh:
  assumes inv: "mg_inv s" and fresh: "\<And>p b k' l. slots_of s p b = Some (k', l) \<Longrightarrow> ident k' \<noteq> ident k"
  shows "key_in_use k (map snd (ws_chkpts (mg_ws s))) = Inr ()"
proof -
  have ws: "ws_inv (mg_ws s)" using inv by (simp add: mg_inv_def)
  have "key_in_use k cks = Inr ()" if "set cks \<subseteq> snd ` set (ws_chkpts (mg_ws s))" for cks
    using that
  proof (induction cks)
    case Nil
    then show ?case by simp
  next
    case (Cons ck cks)
    then obtain i where "(i, ck) \<in> set (ws_chkpts (mg_ws s))" by auto
    then have m: "map_of (ws_chkpts (mg_ws s)) i = Some ck"
      using ws by (simp add: ws_inv_def d_keys_def)
    have ok: "ck_ok ck" using ws m by (auto simp: ws_inv_def)
    have "\<not> is_the_same_as k h" if "kd_mem (al_bytes k) (ck_map ck)" "kd_get (al_bytes k) (ck_key_allocs ck) = Some h" for h
      using fresh [of "InWindow i" "al_bytes k" h] that m
      by (auto simp: ck_slot_def kd_mem_def is_the_same_as_def ident_def)
    moreover have "kd_mem (al_bytes k) (ck_map ck) \<longrightarrow> kd_get (al_bytes k) (ck_key_allocs ck) \<noteq> None"
      using ok by (auto simp: ck_ok_def kd_mem_def)
    ultimately show ?case using Cons by (auto split: option.splits)
  qed
  then show ?thesis by auto
qed

section \<open>Put\<close>

text \<open>The arguments of a put: handles in the manager's pool, live, distinct, and owned by no slot.\<close>

definition put_args_ok :: "mgr \<Rightarrow> alloc \<Rightarrow> lref \<Rightarrow> bool" where
  "put_args_ok s key vals \<longleftrightarrow>
     al_muid key = mg_muid s \<and> vals < mg_next_lref s \<and> unbound (slots_of s) vals \<and>
     cell_ok key (mg_lists s vals) (al_bytes key) (mg_live s) \<and>
     unowned (slots_of s) (mg_lists s) (foot key (mg_lists s vals))"

lemma unownedD: "unowned S L A \<Longrightarrow> S p b = Some (k, l) \<Longrightarrow> foot k (L l) \<inter> A = {}"
  by (auto simp: unowned_def)

definition in_window :: "int \<Rightarrow> mgr \<Rightarrow> bool" where
  "in_window i s \<longleftrightarrow> oldest_chkpt_id (mg_ws s) \<le> i \<and> i < ws_next_id (mg_ws s)"

lemma in_window_layer:
  assumes "mg_inv s" "in_window i s"
  shows "map_of (ws_chkpts (mg_ws s)) i = Some (layer (mg_ws s) i)" "ck_id (layer (mg_ws s) i) = i"
    "ck_ok (layer (mg_ws s) i)" "get_ck i s = (Inr (layer (mg_ws s) i), s)"
    "slots_of s (InWindow i) b = ck_slot (layer (mg_ws s) i) b"
proof -
  have ws: "ws_inv (mg_ws s)" using assms(1) by (simp add: mg_inv_def)
  show m: "map_of (ws_chkpts (mg_ws s)) i = Some (layer (mg_ws s) i)" "ck_id (layer (mg_ws s) i) = i"
    "ck_ok (layer (mg_ws s) i)"
    using ws_inv_layer [OF ws, of i] assms(2) ws_inv_oldest [OF ws] by (auto simp: in_window_def)
  show "get_ck i s = (Inr (layer (mg_ws s) i), s)" using m by (simp add: get_ck_def)
  show "slots_of s (InWindow i) b = ck_slot (layer (mg_ws s) i) b" using m by simp
qed

lemma upd_ck_run:
  "map_of (ws_chkpts (mg_ws s)) i = Some ck \<Longrightarrow> upd_ck i f s = (Inr (), s\<lparr>mg_ws := put_ck i (f ck) (mg_ws s)\<rparr>)"
  by (simp add: upd_ck_def get_ck_def bnd_apply upd_ws_def)

lemma kd_set_twice [simp]: "kd_set k v (kd_set k v' d) = kd_set k v d"
  by (induction d) auto

text \<open>The state a put leaves when the key is new in the checkpoint, and when it replaces a value.\<close>

definition put_new :: "int \<Rightarrow> int \<Rightarrow> bool \<Rightarrow> alloc \<Rightarrow> lref \<Rightarrow> mgr \<Rightarrow> mgr" where
  "put_new i client persist key vals s =
     (let ck = layer (mg_ws s) i in
      s\<lparr>mg_ws := put_ck i (stored client persist key vals
           (ck\<lparr>ck_key_allocs := kd_set key key (ck_key_allocs ck)\<rparr>)) (mg_ws s)\<rparr>)"

definition put_over :: "int \<Rightarrow> int \<Rightarrow> bool \<Rightarrow> alloc \<Rightarrow> lref \<Rightarrow> alloc \<Rightarrow> lref \<Rightarrow> mgr \<Rightarrow> mgr" where
  "put_over i client persist key vals h old s =
     s\<lparr>mg_ws := put_ck i (stored client persist h vals (layer (mg_ws s) i)) (mg_ws s),
       mg_lists := (mg_lists s)(mg_next_lref s := [], old := []),
       mg_live := mg_live s - {ident key} - ident ` set (mg_lists s old),
       mg_next_lref := Suc (mg_next_lref s)\<rparr>"

lemma stored_fields [simp]:
  "ck_map (stored client persist h vals ck) = kd_set h vals (ck_map ck)"
  "ck_key_allocs (stored client persist h vals ck) = ck_key_allocs ck"
  "ck_id (stored client persist h vals ck) = ck_id ck"
  "ck_deleted (stored client persist h vals ck) = ks_discard (al_bytes h) (ck_deleted ck)"
  "ck_persist (stored client persist h vals ck) = (if persist then ks_add h (ck_persist ck) else ck_persist ck)"
  "ck_writers (stored client persist h vals ck) = insert client (ck_writers ck)"
  by (simp_all add: stored_def)

lemma stored_after_set [simp]:
  "stored client persist h vals (ck\<lparr>ck_map := kd_set h e (ck_map ck)\<rparr>) = stored client persist h vals ck"
  by (simp add: stored_def)

lemma ck_slot_stored:
  "ck_slot (stored client persist h vals ck) b =
    (if b = al_bytes h then mk_slot (Some vals) (kd_get b (ck_key_allocs ck)) else ck_slot ck b)"
  by (simp add: ck_slot_def)

lemma stored_ok:
  "ck_ok ck \<Longrightarrow> kd_mem (al_bytes h) (ck_key_allocs ck) \<Longrightarrow> ck_ok (stored client persist h vals ck)"
  by (auto simp: ck_ok_def kd_mem_def)

lemma put_store_new:
  assumes inv: "mg_inv s" and args: "put_args_ok s key vals" and i: "in_window i s"
    and absent: "\<not> kd_mem (al_bytes key) (ck_map (layer (mg_ws s) i))"
  shows "put_store i client persist key vals s = (Inr (), put_new i client persist key vals s)"
    and "mg_inv (put_new i client persist key vals s)"
proof -
  let ?ck = "layer (mg_ws s) i" and ?b = "al_bytes key"
  let ?ck1 = "?ck\<lparr>ck_key_allocs := kd_set key key (ck_key_allocs ?ck)\<rparr>"
  let ?ck2 = "stored client persist key vals ?ck1"
  note lay = in_window_layer [OF inv i]
  have ws: "ws_inv (mg_ws s)" and heap: "heap_ok (slots_of s) (mg_lists s) (mg_live s) (mg_next_lref s)"
    using inv by (simp_all add: mg_inv_def)
  have mv: "move_to_pool key s = (Inr key, s)"
    using args by (simp add: move_to_pool_def bnd_apply put_args_ok_def)
  show "put_store i client persist key vals s = (Inr (), put_new i client persist key vals s)"
    using absent lay(1,4) mv
    by (simp add: put_store_def contains_key_and_free_def bnd_apply sq_apply upd_ck_run put_new_def Let_def)
  have "ck_ok ?ck2" "ck_id ?ck2 = i"
    using lay(2,3) by (auto intro!: stored_ok simp: ck_ok_def kd_mem_def)
  then have ws': "ws_inv (put_ck i ?ck2 (mg_ws s))"
    using put_ck_inv [OF ws] i ws_inv_oldest [OF ws] by (simp add: in_window_def)
  have slots: "(slots_of s)(InWindow i := ck_slot ?ck2) =
      (slots_of s)(InWindow i := (slots_of s (InWindow i))(?b \<mapsto> (key, vals)))"
    by (intro ext) (auto simp: ck_slot_stored lay(1) ck_slot_def)
  have "heap_ok ((slots_of s)(InWindow i := ck_slot ?ck2)) (mg_lists s) (mg_live s) (mg_next_lref s)"
    unfolding slots
  proof (rule heap_ok_fill [OF heap])
    show "vals < mg_next_lref s" "unbound (slots_of s) vals" "cell_ok key (mg_lists s vals) ?b (mg_live s)"
      using args by (simp_all add: put_args_ok_def)
    show "foot k' (mg_lists s l') \<inter> foot key (mg_lists s vals) = {}" if "slots_of s p' b' = Some (k', l')" for p' b' k' l'
      using args that unownedD [of "slots_of s" "mg_lists s"] by (simp add: put_args_ok_def del: slot.simps)
  qed
  then show "mg_inv (put_new i client persist key vals s)"
    using ws' inv by (simp add: mg_inv_def put_new_def Let_def)
qed

lemma check_free_run:
  assumes "mg_inv s" "ident k \<in> mg_live s" "\<And>p b k' l. slots_of s p b = Some (k', l) \<Longrightarrow> ident k' \<noteq> ident k"
  shows "check_for_key_existence_before_free k s = (Inr (), s\<lparr>mg_live := mg_live s - {ident k}\<rparr>)"
  using key_in_use_fresh [OF assms(1,3)] assms(2)
  by (simp add: check_for_key_existence_before_free_def sq_apply free_mem_def)

lemma put_args_keys:
  "put_args_ok s key vals \<Longrightarrow> slots_of s p b = Some (k', l) \<Longrightarrow> ident k' \<noteq> ident key"
  unfolding put_args_ok_def unowned_def foot_def by blast

lemma put_store_over:
  assumes inv: "mg_inv s" and args: "put_args_ok s key vals" and i: "in_window i s"
    and bound: "slots_of s (InWindow i) (al_bytes key) = Some (h, old)"
  shows "put_store i client persist key vals s = (Inr (), put_over i client persist key vals h old s)"
    and "mg_inv (put_over i client persist key vals h old s)"
proof -
  let ?ck = "layer (mg_ws s) i" and ?b = "al_bytes key"
  let ?ck2 = "stored client persist h vals ?ck"
  let ?L = "(mg_lists s)(mg_next_lref s := [], old := [])"
  let ?live = "mg_live s - {ident key} - ident ` set (mg_lists s old)"
  note lay = in_window_layer [OF inv i]
  have ws: "ws_inv (mg_ws s)" and heap: "heap_ok (slots_of s) (mg_lists s) (mg_live s) (mg_next_lref s)"
    using inv by (simp_all add: mg_inv_def)
  have gets: "kd_get ?b (ck_map ?ck) = Some old" "kd_get ?b (ck_key_allocs ?ck) = Some h"
    using bound lay(1) by (simp_all add: ck_slot_def)
  have hb: "al_bytes h = ?b" and oldn: "old < mg_next_lref s"
    using heap_okD [OF heap bound] by (simp_all add: cell_ok_def)
  have live: "ident key \<in> mg_live s" using args by (simp add: put_args_ok_def cell_ok_def foot_def)
  have chk: "check_for_key_existence_before_free key s = (Inr (), s\<lparr>mg_live := mg_live s - {ident key}\<rparr>)"
    by (rule check_free_run [OF inv live]) (rule put_args_keys [OF args])
  have ne: "old \<noteq> mg_next_lref s" using oldn by simp
  show "put_store i client persist key vals s = (Inr (), put_over i client persist key vals h old s)"
    using lay(1,4) gets chk hb ne
    by (simp add: put_store_def contains_key_and_free_def replace_old_def kd_mem_def kd_item_def get_ck_def
        bnd_apply sq_apply upd_ck_run new_list_def free_list_quietly_run put_over_def fun_upd_same
        fun_upd_other fun_upd_twist [of old] del: fun_upd_apply)
  have "ck_ok ?ck2" "ck_id ?ck2 = i"
    using lay(2,3) gets(2) hb by (auto intro!: stored_ok simp: kd_mem_def)
  then have ws': "ws_inv (put_ck i ?ck2 (mg_ws s))"
    using put_ck_inv [OF ws] i ws_inv_oldest [OF ws] by (simp add: in_window_def)
  define S0 where "S0 = (slots_of s)(InWindow i := (slots_of s (InWindow i))(?b := None))"
  have S0: "slots_of s p b = Some (k, l) \<and> (p, b) \<noteq> (InWindow i, ?b)" if "S0 p b = Some (k, l)" for p b k l
    using that by (auto simp: S0_def split: if_splits)
  have keep: "?L l = mg_lists s l \<and> foot k (mg_lists s l) \<subseteq> ?live \<and> foot h (mg_lists s old) \<inter> foot k (mg_lists s l) = {}"
    if "S0 p b = Some (k, l)" for p b k l
  proof -
    have s: "slots_of s p b = Some (k, l)" "(InWindow i, ?b) \<noteq> (p, b)" using S0 [OF that] by auto
    note apart = heap_ok_apart [OF heap bound s(1) s(2)]
    have "foot k (mg_lists s l) \<inter> foot key (mg_lists s vals) = {}"
      using args s(1) unfolding put_args_ok_def unowned_def by blast
    moreover have "l < mg_next_lref s" "foot k (mg_lists s l) \<subseteq> mg_live s"
      using heap_okD [OF heap s(1)] by (simp_all add: cell_ok_def)
    ultimately show ?thesis using apart by (auto simp: foot_def)
  qed
  have heap0: "heap_ok S0 ?L ?live (Suc (mg_next_lref s))"
    by (rule heap_ok_frame [OF heap]) (use S0 keep in auto)
  have vals: "vals < mg_next_lref s" "vals \<noteq> old" "unbound (slots_of s) vals"
    using args bound unfolding put_args_ok_def unbound_def by blast+
  have Lv: "?L vals = mg_lists s vals" using vals by auto
  have own: "foot h (mg_lists s old) \<inter> foot key (mg_lists s vals) = {}"
    using args bound unfolding put_args_ok_def unowned_def by blast
  have cell: "cell_ok h (?L vals) ?b ?live"
    using heap_okD(2) [OF heap bound] args own unfolding Lv
    by (auto simp: cell_ok_def put_args_ok_def foot_def)
  have "heap_ok (S0(InWindow i := (S0 (InWindow i))(?b \<mapsto> (h, vals)))) ?L ?live (Suc (mg_next_lref s))"
  proof (rule heap_ok_fill [OF heap0 _ _ cell])
    show "vals < Suc (mg_next_lref s)" using vals by simp
    show "unbound S0 vals" using vals(3) S0 unfolding unbound_def by blast
    show "foot k' (?L l') \<inter> foot h (?L vals) = {}" if "S0 p' b' = Some (k', l')" for p' b' k' l'
    proof -
      have "foot k' (mg_lists s l') \<inter> foot key (mg_lists s vals) = {}"
        using args S0 [OF that] unfolding put_args_ok_def unowned_def by blast
      then show ?thesis using keep [OF that] unfolding Lv by (auto simp: foot_def)
    qed
  qed
  moreover have "S0(InWindow i := (S0 (InWindow i))(?b \<mapsto> (h, vals))) = (slots_of s)(InWindow i := ck_slot ?ck2)"
    by (intro ext) (auto simp: S0_def ck_slot_stored hb gets(2) lay(1))
  ultimately show "mg_inv (put_over i client persist key vals h old s)"
    using ws' inv by (simp add: mg_inv_def put_over_def del: fun_upd_apply)
qed

text \<open>What the clients see after a put.\<close>

definition put_seen :: "mgr \<Rightarrow> int \<Rightarrow> bytes \<Rightarrow> bytes \<Rightarrow> mgr \<Rightarrow> bool" where
  "put_seen s i b v s' \<longleftrightarrow> (\<forall>c b'. seen s' c b' =
     (if b' = b \<and> i \<le> c \<and> \<not> shadowed (mg_ws s) i c b then Some v else seen s c b'))"

lemma ck_entry_stored:
  "ck_entry (stored client persist h vals ck) b =
     (if b = al_bytes h then Some (Some vals) else ck_entry ck b)"
  by (auto simp: ck_entry_def ks_mem_iff split: option.splits)

lemma put_view:
  assumes "mg_inv s" "in_window i s" "unbound (slots_of s) vals" "al_bytes h = b"
    "ck = stored client persist h vals (layer (mg_ws s) i) \<or>
     ck = stored client persist h vals ((layer (mg_ws s) i)\<lparr>ck_key_allocs := ka\<rparr>)"
  shows "view (put_ck i ck (mg_ws s)) c b' =
     (if b' = b \<and> i \<le> c \<and> \<not> shadowed (mg_ws s) i c b then Some vals else view (mg_ws s) c b')"
proof -
  have ws: "ws_inv (mg_ws s)" using assms(1) by (simp add: mg_inv_def)
  have i: "ws_next_id (mg_ws s) - ws_size (mg_ws s) \<le> i" "i < ws_next_id (mg_ws s)"
    using assms(2) ws_inv_oldest [OF ws] by (simp_all add: in_window_def)
  have entry: "ck_entry ck b'' = (if b'' = b then Some (Some vals) else ck_entry (layer (mg_ws s) i) b'')" for b''
    using assms(4,5) by (auto simp: ck_entry_stored) (auto simp: ck_entry_def)
  have "ck_entry (layer (mg_ws s) i) b \<noteq> Some (Some vals)"
    using assms(3) in_window_layer [OF assms(1,2)]
    by (force simp: unbound_def ck_slot_def ck_ok_def kd_mem_def dest!: spec [of _ "InWindow i"])
  then have "Some (Some vals) \<noteq> ck_entry (layer (mg_ws s) i) b" by metis
  then show ?thesis unfolding view_put_ck [OF i] entry by (auto simp del: ck_entry_Some_Some)
qed

lemma put_store_run:
  assumes inv: "mg_inv s" and args: "put_args_ok s key vals" and i: "in_window i s"
  obtains ck L live n where
    "put_store i client persist key vals s =
       (Inr (), s\<lparr>mg_ws := put_ck i ck (mg_ws s), mg_lists := L, mg_live := live, mg_next_lref := n\<rparr>)"
    "mg_inv (s\<lparr>mg_ws := put_ck i ck (mg_ws s), mg_lists := L, mg_live := live, mg_next_lref := n\<rparr>)"
    "put_seen s i (al_bytes key) (contents (mg_lists s vals))
       (s\<lparr>mg_ws := put_ck i ck (mg_ws s), mg_lists := L, mg_live := live, mg_next_lref := n\<rparr>)"
    "ck_writers ck = insert client (ck_writers (layer (mg_ws s) i))"
proof -
  have ws: "ws_inv (mg_ws s)" and heap: "heap_ok (slots_of s) (mg_lists s) (mg_live s) (mg_next_lref s)"
    using inv by (simp_all add: mg_inv_def)
  have vals: "vals < mg_next_lref s" "unbound (slots_of s) vals" using args by (simp_all add: put_args_ok_def)
  show thesis
  proof (cases "slots_of s (InWindow i) (al_bytes key)")
    case None
    then have absent: "\<not> kd_mem (al_bytes key) (ck_map (layer (mg_ws s) i))"
      using in_window_layer [OF inv i] by (simp add: ck_slot_ok split: if_splits)
    let ?ck = "stored client persist key vals ((layer (mg_ws s) i)\<lparr>ck_key_allocs := kd_set key key
             (ck_key_allocs (layer (mg_ws s) i))\<rparr>)"
    have view: "view (put_ck i ?ck (mg_ws s)) c b' = (if b' = al_bytes key \<and> i \<le> c \<and> \<not> shadowed (mg_ws s) i c (al_bytes key)
        then Some vals else view (mg_ws s) c b')" for c b'
      by (rule put_view [OF inv i vals(2) refl disjI2 [OF refl]])
    have "put_seen s i (al_bytes key) (contents (mg_lists s vals)) (put_new i client persist key vals s)"
      by (simp add: put_new_def Let_def put_seen_def seen_def view)
    then show thesis
      using that [where ck = ?ck and L = "mg_lists s" and live = "mg_live s" and n = "mg_next_lref s"]
        put_store_new [OF inv args i absent, of client persist]
      by (simp add: put_new_def Let_def)
  next
    case (Some x)
    then obtain h old where bound: "slots_of s (InWindow i) (al_bytes key) = Some (h, old)" by (cases x) auto
    have hb: "al_bytes h = al_bytes key" and oldn: "old < mg_next_lref s"
      using heap_okD [OF heap bound] by (simp_all add: cell_ok_def)
    let ?ck = "stored client persist h vals (layer (mg_ws s) i)"
    let ?L = "(mg_lists s)(mg_next_lref s := [], old := [])"
    have vo: "vals \<noteq> old" using vals(2) bound unfolding unbound_def by blast
    have other: "?L l = mg_lists s l" if v: "view (mg_ws s) c b' = Some l"
      and else_case: "\<not> (b' = al_bytes key \<and> i \<le> c \<and> \<not> shadowed (mg_ws s) i c (al_bytes key))" for c b' l
    proof -
      obtain j k where j: "slots_of s (InWindow j) b' = Some (k, l)" "j \<le> c" "\<not> shadowed (mg_ws s) j c b'"
        using view_bound [OF ws v, of "mg_persisting s"] by blast
      have "(InWindow i, al_bytes key) \<noteq> (InWindow j, b')" using else_case j(2,3) by auto
      then have "l \<noteq> old" using heap_ok_apart(1) [OF heap bound j(1)] by auto
      moreover have "l < mg_next_lref s" using heap_okD(1) [OF heap j(1)] .
      ultimately show ?thesis by simp
    qed
    have "put_seen s i (al_bytes key) (contents (mg_lists s vals)) (put_over i client persist key vals h old s)"
      unfolding put_seen_def
    proof (intro allI)
      fix c b'
      show "seen (put_over i client persist key vals h old s) c b' =
         (if b' = al_bytes key \<and> i \<le> c \<and> \<not> shadowed (mg_ws s) i c (al_bytes key) then Some (contents (mg_lists s vals))
          else seen s c b')"
        using put_view [OF inv i vals(2) hb, of ?ck client persist _ c b'] other [of c b'] vals(1) vo
        by (auto simp: seen_def put_over_def map_option_case split: option.splits)
    qed
    then show thesis
      using that [where ck = ?ck and L = ?L and n = "Suc (mg_next_lref s)"
          and live = "mg_live s - {ident key} - ident ` set (mg_lists s old)"]
        put_store_over [OF inv args i bound, of client persist]
      by (simp add: put_over_def del: fun_upd_apply)
  qed
qed

section \<open>Performing a put\<close>

lemma mg_inv_messages [simp]:
  "mg_inv (s\<lparr>mg_tag := t\<rparr>) = mg_inv s" "mg_inv (s\<lparr>mg_out := m\<rparr>) = mg_inv s"
  "seen (s\<lparr>mg_tag := t\<rparr>) = seen s" "seen (s\<lparr>mg_out := m\<rparr>) = seen s"
  by (simp_all add: mg_inv_def seen_def fun_eq_iff)

definition can_reply :: "int \<Rightarrow> mgr \<Rightarrow> bool" where
  "can_reply client s \<longleftrightarrow> client \<in> mg_buffered s \<and> BufferedConn client \<notin> mg_broken s"

lemma respond_buffered:
  "can_reply client s \<Longrightarrow> respond mk (buffered_conn client) s =
     (Inr (), s\<lparr>mg_tag := mg_tag s + 1, mg_out := mg_out s @ [SentMsg (BufferedConn client) (mk (mg_tag s))]\<rparr>)"
  by (simp add: respond_def bnd_apply tag_inc_def buffered_conn_def send_msg_def emit_def can_reply_def)

lemma window_moved_args:
  assumes "window_moved s s'" "put_args_ok s key vals"
  shows "put_args_ok s' key vals"
proof -
  obtain ws ts where s': "s' = s\<lparr>mg_ws := ws, mg_persisting := mg_persisting s @ ts\<rparr>"
    and src: "slots_from (slots_of s) (slots_of s')"
    using assms(1) by (auto simp: window_moved_def)
  have "unbound (slots_of s') vals"
    using src assms(2) unfolding put_args_ok_def slots_from_def unbound_def by metis
  moreover have "unowned (slots_of s') (mg_lists s) (foot key (mg_lists s vals))"
    using src assms(2) unfolding put_args_ok_def slots_from_def unowned_def by metis
  ultimately show ?thesis using assms(2) by (simp add: put_args_ok_def s')
qed

lemma window_moved_fields:
  assumes "window_moved s s'"
  shows "mg_lists s' = mg_lists s" "mg_out s' = mg_out s" "mg_tag s' = mg_tag s" "mg_live s' = mg_live s"
    "can_reply client s' = can_reply client s" "mg_clients s' = mg_clients s" "mg_broken s' = mg_broken s"
    "mg_read_only s' = mg_read_only s" "mg_deferred s' = mg_deferred s"
  using assms by (auto simp: window_moved_def can_reply_def)

lemma perform_put_run:
  assumes inv: "mg_inv s" and args: "put_args_ok s key vals" and conn: "can_reply client s"
    and c: "oldest_chkpt_id (mg_ws s) \<le> c"
  shows "\<exists>ok s'. perform_put client c tag persist key vals False s = (Inr ok, s') \<and> mg_inv s' \<and>
    (if ok then
       seen s' c (al_bytes key) = Some (contents (mg_lists s vals)) \<and>
       (\<forall>c' b. oldest_chkpt_id (mg_ws s') \<le> c' \<and> (b \<noteq> al_bytes key \<or> c' < c) \<longrightarrow> seen s' c' b = seen s c' b) \<and>
       mg_out s' = mg_out s @ [SentMsg (BufferedConn client) (DDPutResponse (mg_tag s) tag SUCCESS)] \<and>
       in_window c s' \<and> ws_wait_for_keys (mg_ws s') = ws_wait_for_keys (mg_ws s)
     else
       (\<forall>c' b. oldest_chkpt_id (mg_ws s') \<le> c' \<longrightarrow> seen s' c' b = seen s c' b) \<and>
       put_args_ok s' key vals \<and> mg_out s' = mg_out s \<and> \<not> may_retire (mg_ws s') \<and>
       ws_next_id (mg_ws s) \<le> c)"
proof -
  obtain s1 where p: "working_set_put c s = (Inr (if c < ws_next_id (mg_ws s1) then Some c else None), s1)"
    "window_moved s s1"
    "if c < ws_next_id (mg_ws s1) then ws_next_id (mg_ws s1) = max (ws_next_id (mg_ws s)) (c + 1)
     else \<not> may_retire (mg_ws s1)"
    using working_set_put_run [OF inv, of c] c by auto
  note inv1 = window_moved_inv [OF p(2)] and args1 = window_moved_args [OF p(2) args]
    and f1 = window_moved_fields [OF p(2)] and seen1 = window_moved_seen [OF p(2)]
  show ?thesis
  proof (cases "c < ws_next_id (mg_ws s1)")
    case False
    then have "perform_put client c tag persist key vals False s = (Inr False, s1)"
      using p(1) by (simp add: perform_put_def put_perform_def py_simps)
    moreover have "ws_next_id (mg_ws s) \<le> c" using p(2) False by (auto simp: window_moved_def advanced_def)
    ultimately show ?thesis using inv1 args1 f1 seen1 p(3) False by auto
  next
    case True
    have "oldest_chkpt_id (mg_ws s1) \<le> c"
      using p(2,3) True c ws_inv_oldest [of "mg_ws s"] ws_inv_oldest [of "mg_ws s1"] inv inv1
      by (auto simp: mg_inv_def window_moved_def advanced_def ws_inv_def max_def split: if_splits)
    then have i: "in_window c s1" using True by (simp add: in_window_def)
    obtain ck L live n where st:
      "put_store c client persist key vals s1 =
         (Inr (), s1\<lparr>mg_ws := put_ck c ck (mg_ws s1), mg_lists := L, mg_live := live, mg_next_lref := n\<rparr>)"
      "mg_inv (s1\<lparr>mg_ws := put_ck c ck (mg_ws s1), mg_lists := L, mg_live := live, mg_next_lref := n\<rparr>)"
      "put_seen s1 c (al_bytes key) (contents (mg_lists s1 vals))
         (s1\<lparr>mg_ws := put_ck c ck (mg_ws s1), mg_lists := L, mg_live := live, mg_next_lref := n\<rparr>)"
      by (rule put_store_run [OF inv1 args1 i, of client persist])
    let ?s2 = "s1\<lparr>mg_ws := put_ck c ck (mg_ws s1), mg_lists := L, mg_live := live, mg_next_lref := n\<rparr>"
    let ?s3 = "?s2\<lparr>mg_tag := mg_tag s + 1,
        mg_out := mg_out s @ [SentMsg (BufferedConn client) (DDPutResponse (mg_tag s) tag SUCCESS)]\<rparr>"
    have "can_reply client ?s2" using conn f1(5) by (simp add: can_reply_def)
    then have "perform_put client c tag persist key vals False s = (Inr True, ?s3)"
      using p(1) True st(1) f1(2,3) respond_buffered [of client ?s2]
      by (simp add: perform_put_def put_perform_def py_simps)
    moreover have "\<not> shadowed (mg_ws s1) c c (al_bytes key)" by (auto simp: shadowed_def)
    then have "seen ?s2 c (al_bytes key) = Some (contents (mg_lists s vals))"
      using st(3) f1(1) by (simp add: put_seen_def)
    moreover have "seen ?s2 c' b = seen s c' b" if "oldest_chkpt_id (mg_ws s1) \<le> c'" "b \<noteq> al_bytes key \<or> c' < c" for c' b
      using st(3) seen1 [OF that(1), of b] that(2) by (auto simp: put_seen_def)
    moreover have "mg_inv ?s3" using st(2) by simp
    moreover have "ws_wait_for_keys (mg_ws ?s3) = ws_wait_for_keys (mg_ws s)" "in_window c ?s3"
      using p(2) i by (auto simp: window_moved_def advanced_def in_window_def put_ck_fields)
    ultimately show ?thesis by (intro exI [of _ True] exI [of _ ?s3]) simp
  qed
qed

text \<open>
  C1: A put at a checkpoint that is not retired either stores or waits; it never raises.  When it
  stores, a client reading the key at that checkpoint sees the new value, every other key at every
  checkpoint still in the window and the key itself at every older checkpoint keep their values,
  and the client gets a success response with the next tag.  When it waits (a checkpoint in the
  way cannot retire yet), nothing a client sees changes, nothing is sent and the arguments are
  intact for the retry.  In both cases the heap stays well formed: no live value is freed, none is
  shared.
\<close>

theorem perform_put_stores:
  assumes inv: "mg_inv s" and args: "put_args_ok s key vals" and conn: "can_reply client s"
    and c: "oldest_chkpt_id (mg_ws s) \<le> c"
  shows "\<exists>ok s'. perform_put client c tag persist key vals False s = (Inr ok, s') \<and> mg_inv s' \<and>
    (if ok then
       seen s' c (al_bytes key) = Some (contents (mg_lists s vals)) \<and>
       (\<forall>c' b. oldest_chkpt_id (mg_ws s') \<le> c' \<and> (b \<noteq> al_bytes key \<or> c' < c) \<longrightarrow> seen s' c' b = seen s c' b) \<and>
       mg_out s' = mg_out s @ [SentMsg (BufferedConn client) (DDPutResponse (mg_tag s) tag SUCCESS)]
     else
       (\<forall>c' b. oldest_chkpt_id (mg_ws s') \<le> c' \<longrightarrow> seen s' c' b = seen s c' b) \<and>
       put_args_ok s' key vals \<and> mg_out s' = mg_out s \<and> \<not> may_retire (mg_ws s'))"
  using perform_put_run [OF assms, of tag persist] by (metis (no_types, lifting))

section \<open>A new manager\<close>

lemma new_manager_inv:
  assumes "1 \<le> wsz"
  shows "mg_inv (make_manager wsz wfk wfw False kind freq count files muid me fits pick full dumps loads)"
proof -
  let ?ws = "make_working_set wsz wfk wfw 0 False freq"
  have m: "map_of (ws_chkpts ?ws) i = Some ck \<Longrightarrow> ck = new_checkpoint i" for i ck
    by (auto simp: make_working_set_def dest: map_of_SomeD)
  have "slot ?ws [] p b = None" for p b
    by (cases p) (auto split: option.splits dest!: m)
  then show ?thesis
    using new_window_inv [of wsz 0 wfk wfw freq] assms by (simp add: mg_inv_def make_manager_def heap_ok_def)
qed

definition demo_mgr :: mgr where
  "demo_mgr = (make_manager 2 False False False NULLCheckpointPersister 0 0 [] 1 0 (\<lambda>_ _. True)
      (\<lambda>L. Suc (Max (insert 0 (snd ` L)))) (\<lambda>_. False) (\<lambda>n. Inr ''n'') (\<lambda>b. Inr 0))
     \<lparr>mg_live := {(1, 1), (1, 2)}, mg_next_lref := 1, mg_lists := (\<lambda>l. if l = 0 then [demo_alloc 2 ''v''] else []),
      mg_buffered := {7}, mg_clients := {7}\<rparr>"

lemma demo_mgr_slots: "slots_of demo_mgr p b = None"
  by (cases p) (auto simp: demo_mgr_def make_manager_def make_working_set_def ck_slot_def new_checkpoint_def
      upto.simps split: option.splits if_splits)

lemma demo_mgr_inv: "mg_inv demo_mgr"
proof -
  have "ws_inv (mg_ws demo_mgr)"
    using new_window_inv [of 2 0 False False 0] by (simp add: demo_mgr_def make_manager_def)
  moreover have "heap_ok (slots_of demo_mgr) (mg_lists demo_mgr) (mg_live demo_mgr) (mg_next_lref demo_mgr)"
    by (simp add: heap_ok_def demo_mgr_slots)
  moreover have "mg_persisting demo_mgr = []" by (simp add: demo_mgr_def make_manager_def)
  ultimately show ?thesis by (simp add: mg_inv_def)
qed

lemma demo_mgr_args: "put_args_ok demo_mgr (demo_alloc 1 ''k'') 0"
  unfolding put_args_ok_def unbound_def unowned_def demo_mgr_slots
  by (simp add: demo_mgr_def make_manager_def demo_alloc_def cell_ok_def foot_def ident_def)

lemma demo_mgr_conn: "can_reply 7 demo_mgr" "oldest_chkpt_id (mg_ws demo_mgr) = 0" "mg_lists demo_mgr 0 = [demo_alloc 2 ''v'']"
  by (simp_all add: can_reply_def demo_mgr_def make_manager_def make_working_set_def oldest_chkpt_id_def)

theorem perform_put_stores_witness:
  "\<exists>ok s'. perform_put 7 1 3 False (demo_alloc 1 ''k'') 0 False demo_mgr = (Inr ok, s') \<and> mg_inv s' \<and>
     (ok \<longrightarrow> seen s' 1 ''k'' = Some ''v'')"
  using perform_put_stores [OF demo_mgr_inv demo_mgr_args demo_mgr_conn(1), of 1 3 False]
  by (auto simp: demo_mgr_conn contents_def demo_alloc_def)

end
