(* ===== verification/Reading.thy ===== *)
theory Reading
  imports PutGet
begin

text \<open>
  The operations that read one key (get, contains) and the ones that remove one (pop), the threads
  that retire checkpoints, and puts that come too late: what they send, and what they do to the
  dictionary the clients see.
\<close>

section \<open>Noting a writer\<close>

text \<open>Two windows that differ in the sets of writers only.\<close>

definition same_data :: "working_set \<Rightarrow> working_set \<Rightarrow> bool" where
  "same_data ws ws' \<longleftrightarrow> (\<exists>cks. ws' = ws\<lparr>ws_chkpts := cks\<rparr> \<and> d_keys cks = d_keys (ws_chkpts ws) \<and>
     (\<forall>i ck'. map_of cks i = Some ck' \<longrightarrow> (\<exists>ck W. map_of (ws_chkpts ws) i = Some ck \<and> ck' = ck\<lparr>ck_writers := W\<rparr>)))"

lemma ck_ok_writers [simp]: "ck_ok (ck\<lparr>ck_writers := W\<rparr>) = ck_ok ck"
  by (simp add: ck_ok_def)

lemma ck_entry_writers [simp]: "ck_entry (ck\<lparr>ck_writers := W\<rparr>) = ck_entry ck"
  by (simp add: ck_entry_def fun_eq_iff)

lemma ck_slot_writers [simp]: "ck_slot (ck\<lparr>ck_writers := W\<rparr>) = ck_slot ck"
  by (simp add: ck_slot_def fun_eq_iff)

lemma some_writers [simp]: "\<exists>W. ck = ck\<lparr>ck_writers := W\<rparr>" for ck :: checkpoint
  by (rule exI [of _ "ck_writers ck"]) simp

lemma same_data_refl: "same_data ws ws"
  unfolding same_data_def by (intro exI [of _ "ws_chkpts ws"]) auto

lemma same_data_layer:
  assumes "same_data ws ws'"
  shows "\<exists>W. map_of (ws_chkpts ws') i = map_option (\<lambda>ck. ck\<lparr>ck_writers := W\<rparr>) (map_of (ws_chkpts ws) i)"
proof -
  obtain cks where d: "ws' = ws\<lparr>ws_chkpts := cks\<rparr>" "d_keys cks = d_keys (ws_chkpts ws)"
    and m: "\<And>ck'. map_of cks i = Some ck' \<Longrightarrow> \<exists>ck W. map_of (ws_chkpts ws) i = Some ck \<and> ck' = ck\<lparr>ck_writers := W\<rparr>"
    using assms unfolding same_data_def by blast
  have "map_of cks i = None \<longleftrightarrow> map_of (ws_chkpts ws) i = None"
    using d(2) by (metis in_d_keys)
  then show ?thesis using m d(1) by (cases "map_of cks i") auto
qed

lemma same_data_keeps:
  assumes "same_data ws ws'"
  shows "ws_inv ws \<Longrightarrow> ws_inv ws'" and "slot ws' = slot ws" and "view ws' = view ws"
    and "oldest_chkpt_id ws' = oldest_chkpt_id ws" and "ws_next_id ws' = ws_next_id ws"
    and "ws_wait_for_keys ws' = ws_wait_for_keys ws"
proof -
  obtain cks where d: "ws' = ws\<lparr>ws_chkpts := cks\<rparr>" "d_keys cks = d_keys (ws_chkpts ws)"
    using assms unfolding same_data_def by blast
  show "oldest_chkpt_id ws' = oldest_chkpt_id ws" "ws_next_id ws' = ws_next_id ws"
    "ws_wait_for_keys ws' = ws_wait_for_keys ws" by (simp_all add: d oldest_chkpt_id_def)
  show "ws_inv ws'" if "ws_inv ws"
  proof -
    have "ck_id ck = i \<and> ck_ok ck" if "map_of (ws_chkpts ws') i = Some ck" for i ck
      using same_data_layer [OF assms, of i] that \<open>ws_inv ws\<close> unfolding ws_inv_def by fastforce
    then show ?thesis using that d unfolding ws_inv_def by simp
  qed
  show "slot ws' = slot ws"
  proof (intro ext)
    fix rs p b
    show "slot ws' rs p b = slot ws rs p b"
    proof (cases p)
      case (InWindow i)
      obtain W where "map_of (ws_chkpts ws') i = map_option (\<lambda>ck. ck\<lparr>ck_writers := W\<rparr>) (map_of (ws_chkpts ws) i)"
        using same_data_layer [OF assms] by blast
      then show ?thesis by (simp add: InWindow split: option.splits)
    qed simp
  qed
  have entry: "ck_entry (layer ws' i) b = ck_entry (layer ws i) b" for i b
  proof -
    obtain W where "map_of (ws_chkpts ws') i = map_option (\<lambda>ck. ck\<lparr>ck_writers := W\<rparr>) (map_of (ws_chkpts ws) i)"
      using same_data_layer [OF assms] by blast
    then show ?thesis by (cases "map_of (ws_chkpts ws) i") (auto simp: layer_def)
  qed
  have "lay.find_value (map (layer ws') idx) b = lay.find_value (map (layer ws) idx) b" for idx b
    by (induction idx) (simp_all add: entry split: option.splits)
  then show "view ws' = view ws" by (intro ext) (simp add: view_def layers_def d(1))
qed

lemma add_writer_same:
  "d_keys (add_writer client i cks) = d_keys cks \<and>
   (\<forall>j ck'. map_of (add_writer client i cks) j = Some ck' \<longrightarrow>
      (\<exists>ck W. map_of cks j = Some ck \<and> ck' = ck\<lparr>ck_writers := W\<rparr>))"
  by (auto simp: add_writer_def map_update_same_keys split: option.splits)

lemma add_writers_same:
  "d_keys (fold (add_writer client) is cks) = d_keys cks \<and>
   (\<forall>j ck'. map_of (fold (add_writer client) is cks) j = Some ck' \<longrightarrow>
      (\<exists>ck W. map_of cks j = Some ck \<and> ck' = ck\<lparr>ck_writers := W\<rparr>))"
proof (induction "is" arbitrary: cks)
  case Nil
  show ?case by auto
next
  case (Cons i "is")
  show ?case
    using Cons.IH [of "add_writer client i cks"] add_writer_same [of client i cks] by fastforce
qed

lemma note_writer_run:
  assumes "mg_inv s"
  shows "\<exists>ws'. note_writer client c s = (Inr (), s\<lparr>mg_ws := ws'\<rparr>) \<and> same_data (mg_ws s) ws'"
proof -
  have ws: "ws_inv (mg_ws s)" using assms by (simp add: mg_inv_def)
  let ?is = "[oldest_chkpt_id (mg_ws s)..min c (ws_next_id (mg_ws s) - 1) - 1]"
  let ?ws = "(mg_ws s)\<lparr>ws_chkpts := fold (add_writer client) ?is (ws_chkpts (mg_ws s))\<rparr>"
  have "\<not> list_ex (\<lambda>i. map_of (ws_chkpts (mg_ws s)) i = None) ?is"
    using ws_inv_mem [OF ws] ws_inv_oldest [OF ws] by (auto simp: list_ex_iff)
  then have "update_writer_checkpoint client c (mg_ws s) = (Inr (), ?ws) \<or>
     update_writer_checkpoint client c (mg_ws s) = (Inr (), mg_ws s)"
    by (simp add: update_writer_checkpoint_def ws_inv_newest [OF ws] Let_def)
  moreover have "same_data (mg_ws s) ?ws"
    using add_writers_same [of client ?is "ws_chkpts (mg_ws s)"] unfolding same_data_def by blast
  moreover have "s = s\<lparr>mg_ws := mg_ws s\<rparr>" by simp
  ultimately show ?thesis using same_data_refl [of "mg_ws s"] unfolding note_writer_def
    by (elim disjE) (auto intro: exI [of _ ?ws] exI [of _ "mg_ws s"])
qed

lemma same_data_mgr:
  assumes "mg_inv s" "same_data (mg_ws s) ws'"
  shows "mg_inv (s\<lparr>mg_ws := ws'\<rparr>)" "seen (s\<lparr>mg_ws := ws'\<rparr>) = seen s"
  using assms same_data_keeps [OF assms(2)] by (simp_all add: mg_inv_def seen_def [abs_def])

section \<open>Get\<close>

lemma send_values_run:
  assumes "cn \<notin> mg_broken s" "ident ` set vs \<subseteq> mg_live s"
  shows "for_each vs (send_mem cn h False) s = (Inr (), s\<lparr>mg_out := mg_out s @ map (\<lambda>v. SentMem cn v h False) vs\<rparr>)"
  using assms
proof (induction vs arbitrary: s)
  case Nil
  then show ?case by simp
next
  case (Cons v vs)
  have "send_mem cn h False v s = (Inr (), s\<lparr>mg_out := mg_out s @ [SentMem cn v h False]\<rparr>)"
    using Cons.prems by (simp add: send_mem_def emit_def)
  then show ?case using Cons.IH [of "s\<lparr>mg_out := mg_out s @ [SentMem cn v h False]\<rparr>"] Cons.prems
    by (simp add: sq_Inr)
qed

text \<open>What a reader gets for a key at a checkpoint: a response, and the memory of the value.\<close>

definition read_events :: "conn \<Rightarrow> (derr \<Rightarrow> dmsg) \<Rightarrow> bytes option \<Rightarrow> event list \<Rightarrow> bool" where
  "read_events cn mk v es = (case v of
      None \<Rightarrow> es = [SentMsg cn (mk KEY_NOT_FOUND)]
    | Some b \<Rightarrow> \<exists>vs. es = SentMsg cn (mk SUCCESS) # map (\<lambda>a. SentMem cn a VALUE_HINT False) vs \<and> contents vs = b)"

lemma read_ok_window:
  assumes "mg_inv s" "read_ok (mg_ws s) c b i"
  shows "in_window i s" "kd_get b (ck_map (layer (mg_ws s) i)) = view (mg_ws s) c b"
  using assms by (simp_all add: read_ok_def in_window_def)

lemma get_reply_run:
  assumes inv: "mg_inv s" and conn: "client \<in> mg_clients s" "ClientConn client \<notin> mg_broken s"
    and i: "in_window i s" and key: "kd_get key (ck_map (layer (mg_ws s) i)) = view (mg_ws s) c key"
    and ck: "contains_key key (layer (mg_ws s) i) = Inr (ec, km)"
  shows "\<exists>s'. get_reply client c tag i ec km s = (Inr (), s') \<and> mg_inv s' \<and> seen s' = seen s \<and>
    (\<exists>es. mg_out s' = mg_out s @ es \<and>
       read_events (ClientConn client) (\<lambda>e. DDGetResponse (mg_tag s) tag e (\<not> mg_read_only s)) (seen s c key) es)"
proof -
  note lay = in_window_layer [OF inv i]
  have heap: "heap_ok (slots_of s) (mg_lists s) (mg_live s) (mg_next_lref s)" using inv by (simp add: mg_inv_def)
  let ?m = "\<lambda>e. DDGetResponse (mg_tag s) tag e (\<not> mg_read_only s)" and ?cn = "ClientConn client"
  have "\<exists>es. send_dmsg_and_value (Chkpt i) (?m ec) ?cn km False (s\<lparr>mg_tag := mg_tag s + 1\<rparr>) =
        (Inr (), s\<lparr>mg_tag := mg_tag s + 1, mg_out := mg_out s @ es\<rparr>) \<and> read_events ?cn ?m (seen s c key) es"
  proof (cases "view (mg_ws s) c key")
    case None
    then have "ec = KEY_NOT_FOUND" using ck key contains_key_ok [OF lay(3), of key] by (simp add: kd_mem_def)
    then show ?thesis using None conn
      by (simp add: send_dmsg_and_value_def sq_apply send_bytes_def emit_def read_events_def seen_def)
  next
    case (Some l)
    then have bound: "kd_get key (ck_map (layer (mg_ws s) i)) = Some l" using key by simp
    then obtain k where k: "kd_get key (ck_key_allocs (layer (mg_ws s) i)) = Some k" "ec = SUCCESS" "km = Some k"
      using ck lay(3) contains_key_ok [OF lay(3), of key] by (auto simp: kd_mem_def ck_ok_def)
    have slot: "slots_of s (InWindow i) key = Some (k, l)" using bound k(1) lay(1) by (simp add: ck_slot_def)
    have kb: "al_bytes k = key" and live: "ident ` set (mg_lists s l) \<subseteq> mg_live s"
      using heap_okD(2) [OF heap slot] by (auto simp: cell_ok_def foot_def)
    let ?s2 = "s\<lparr>mg_tag := mg_tag s + 1, mg_out := mg_out s @ [SentMsg ?cn (?m SUCCESS)]\<rparr>"
    have "for_each (mg_lists s l) (send_mem ?cn VALUE_HINT False) ?s2 =
        (Inr (), s\<lparr>mg_tag := mg_tag s + 1, mg_out := mg_out s @ SentMsg ?cn (?m SUCCESS) #
            map (\<lambda>a. SentMem ?cn a VALUE_HINT False) (mg_lists s l)\<rparr>)"
      using send_values_run [of ?cn ?s2 "mg_lists s l" VALUE_HINT] conn live by simp
    then show ?thesis using k bound kb conn lay(1) Some
      by (auto simp: send_dmsg_and_value_def sq_apply bnd_apply send_bytes_def emit_def get_ck_def kd_item_def
          read_events_def seen_def)
  qed
  then obtain es where es: "send_dmsg_and_value (Chkpt i) (?m ec) ?cn km False (s\<lparr>mg_tag := mg_tag s + 1\<rparr>) =
        (Inr (), s\<lparr>mg_tag := mg_tag s + 1, mg_out := mg_out s @ es\<rparr>)" "read_events ?cn ?m (seen s c key) es" by blast
  let ?s3 = "s\<lparr>mg_tag := mg_tag s + 1, mg_out := mg_out s @ es\<rparr>"
  obtain ws' where w: "note_writer client c ?s3 = (Inr (), ?s3\<lparr>mg_ws := ws'\<rparr>)" "same_data (mg_ws s) ws'"
    using note_writer_run [of ?s3 client c] inv by auto
  have "get_reply client c tag i ec km s = (Inr (), ?s3\<lparr>mg_ws := ws'\<rparr>)"
    using es(1) w(1) conn by (simp add: get_reply_def bnd_apply sq_apply tag_inc_def client_conn_def)
  moreover have "mg_inv (?s3\<lparr>mg_ws := ws'\<rparr>)" "seen (?s3\<lparr>mg_ws := ws'\<rparr>) = seen s"
    using same_data_mgr [of ?s3 ws'] w(2) inv by simp_all
  ultimately show ?thesis using es(2) by (intro exI [of _ "?s3\<lparr>mg_ws := ws'\<rparr>"]) auto
qed

lemma working_set_get_run:
  assumes "mg_inv s" "oldest_chkpt_id (mg_ws s) \<le> c"
  obtains (wait) "working_set_get key c s = (Inr None, s)"
      "ws_wait_for_keys (mg_ws s) \<or> ws_next_id (mg_ws s) \<le> c \<and> map_of (mg_deferred s) c \<noteq> None"
  | (found) i ec km where "working_set_get key c s = (Inr (Some i), s)" "read_ok (mg_ws s) c key i" "in_window i s"
      "kd_get key (ck_map (layer (mg_ws s) i)) = view (mg_ws s) c key"
      "get_ck i s = (Inr (layer (mg_ws s) i), s)" "contains_key key (layer (mg_ws s) i) = Inr (ec, km)"
proof -
  have ws: "ws_inv (mg_ws s)" using assms(1) by (simp add: mg_inv_def)
  let ?d = "ws_linked (mg_ws s) \<and> map_of (mg_deferred s) c \<noteq> None"
  obtain r where r: "ws_get key c ?d (mg_ws s) = Inr r"
    "r = None \<longrightarrow> ws_wait_for_keys (mg_ws s) \<or> ws_next_id (mg_ws s) \<le> c \<and> ?d"
    "\<forall>i. r = Some i \<longrightarrow> read_ok (mg_ws s) c key i"
    using ws_get_run [OF ws assms(2), of key ?d] by blast
  have run: "working_set_get key c s = (Inr r, s)" using r(1) by (simp add: working_set_get_def)
  show thesis
  proof (cases r)
    case None
    then show thesis using wait run r(2) by auto
  next
    case (Some i)
    have ok: "read_ok (mg_ws s) c key i" using r(3) Some by simp
    note w = read_ok_window [OF assms(1) ok]
    note lay = in_window_layer [OF assms(1) w(1)]
    obtain ec km where "contains_key key (layer (mg_ws s) i) = Inr (ec, km)"
      using contains_key_ok [OF lay(3), of key] by (cases "kd_mem key (ck_map (layer (mg_ws s) i))") simp_all
    then show thesis using found run Some ok w lay(4) by simp
  qed
qed

lemma perform_get_run:
  assumes inv: "mg_inv s" and conn: "client \<in> mg_clients s" "ClientConn client \<notin> mg_broken s"
    and c: "oldest_chkpt_id (mg_ws s) \<le> c"
  shows "\<exists>ok s'. perform_get client c tag key False amount s = (Inr ok, s') \<and> mg_inv s' \<and> seen s' = seen s \<and>
    (if ok then \<exists>es. mg_out s' = mg_out s @ es \<and>
        read_events (ClientConn client) (\<lambda>e. DDGetResponse (mg_tag s) tag e (\<not> mg_read_only s)) (seen s c key) es
     else s' = s \<and>
        (ws_wait_for_keys (mg_ws s) \<or> ws_next_id (mg_ws s) \<le> c \<and> map_of (mg_deferred s) c \<noteq> None))"
proof (cases rule: working_set_get_run [OF inv c, of key, case_names wait found])
  case wait
  then have "perform_get client c tag key False amount s = (Inr False, s)"
    by (simp add: perform_get_def plain_get_def py_simps)
  then show ?thesis using wait(2) inv by auto
next
  case (found i ec km)
  obtain s' where s': "get_reply client c tag i ec km s = (Inr (), s')" "mg_inv s'" "seen s' = seen s"
    "\<exists>es. mg_out s' = mg_out s @ es \<and>
       read_events (ClientConn client) (\<lambda>e. DDGetResponse (mg_tag s) tag e (\<not> mg_read_only s)) (seen s c key) es"
    using get_reply_run [OF inv conn found(3,4,6), of tag] by blast
  have "perform_get client c tag key False amount s = (Inr True, s')"
    using found(1,5,6) s'(1) by (simp add: perform_get_def plain_get_def py_simps)
  then show ?thesis using s' by auto
qed

text \<open>
  C2: A get at a checkpoint that is not retired never raises.  When it answers, the client gets
  exactly what it sees at that checkpoint: the memory of the value, byte for byte, after a success
  response, or only a key-not-found response.  It waits only under \<open>wait_for_keys\<close> or behind
  operations deferred for that future checkpoint.  No value changes, none is freed.
\<close>

theorem get_sends_value:
  assumes inv: "mg_inv s" and conn: "client \<in> mg_clients s" "ClientConn client \<notin> mg_broken s"
    and c: "oldest_chkpt_id (mg_ws s) \<le> c"
  shows "\<exists>ok s'. perform_get client c tag key False amount s = (Inr ok, s') \<and> mg_inv s' \<and> seen s' = seen s \<and>
    (if ok then \<exists>es. mg_out s' = mg_out s @ es \<and>
        read_events (ClientConn client) (\<lambda>e. DDGetResponse (mg_tag s) tag e (\<not> mg_read_only s)) (seen s c key) es
     else s' = s \<and>
        (ws_wait_for_keys (mg_ws s) \<or> ws_next_id (mg_ws s) \<le> c \<and> map_of (mg_deferred s) c \<noteq> None))"
  by (rule perform_get_run [OF assms])

theorem get_sends_value_witness:
  "\<exists>ok s'. perform_get 7 1 3 ''k'' False 0 demo_mgr = (Inr ok, s') \<and> seen s' = seen demo_mgr"
  using get_sends_value [OF demo_mgr_inv, of 7 1 3 "''k''" 0] demo_mgr_conn
  by (auto simp: demo_mgr_def make_manager_def)

text \<open>
  C9: \<open>contains\<close> without \<open>wait_for_keys\<close> answers, at a checkpoint of the window or at a future one
  (which sees the newest), success exactly when the key has a value there; it never waits and
  changes no value.
\<close>

theorem contains_correct:
  assumes inv: "mg_inv s" and conn: "can_reply client s" and c: "oldest_chkpt_id (mg_ws s) \<le> c"
    and nowait: "\<not> ws_wait_for_keys (mg_ws s)" "\<not> mg_wait_for_keys s"
  shows "\<exists>s'. perform_contains client c tag key s = (Inr True, s') \<and> mg_inv s' \<and> seen s' = seen s \<and>
    mg_out s' = mg_out s @ [SentMsg (BufferedConn client) (DDContainsResponse (mg_tag s) tag
       (if seen s c key = None then KEY_NOT_FOUND else SUCCESS))]"
proof -
  let ?n = "ws_next_id (mg_ws s)" and ?c = "if ws_next_id (mg_ws s) - 1 < c then ws_next_id (mg_ws s) - 1 else c"
  have ws: "ws_inv (mg_ws s)" using inv by (simp add: mg_inv_def)
  have c': "oldest_chkpt_id (mg_ws s) \<le> ?c" "\<not> ?n \<le> ?c"
    using c ws_inv_oldest [OF ws] ws by (auto simp: ws_inv_def)
  have view: "view (mg_ws s) ?c key = view (mg_ws s) c key"
    using view_future [of "mg_ws s" c key] by auto
  have code: "contains_code key c s = (Inr (if seen s c key = None then KEY_NOT_FOUND else SUCCESS), s)"
  proof (cases rule: working_set_get_run [OF inv c'(1), of key, case_names wait found])
    case wait
    then show ?thesis using c'(2) nowait(1) by blast
  next
    case (found i ec km)
    have "ec = (if seen s c key = None then KEY_NOT_FOUND else SUCCESS)"
      using found(4,6) contains_key_ok [OF in_window_layer(3) [OF inv found(3)], of key] view
      by (auto simp: seen_def kd_mem_def split: if_splits)
    then show ?thesis
      using found(1,5,6) nowait(2) by (simp add: contains_code_def bnd_apply ws_inv_newest [OF ws])
  qed
  let ?m = "DDContainsResponse (mg_tag s) tag (if seen s c key = None then KEY_NOT_FOUND else SUCCESS)"
  let ?s2 = "s\<lparr>mg_tag := mg_tag s + 1, mg_out := mg_out s @ [SentMsg (BufferedConn client) ?m]\<rparr>"
  obtain ws' where w: "note_writer client c ?s2 = (Inr (), ?s2\<lparr>mg_ws := ws'\<rparr>)" "same_data (mg_ws s) ws'"
    using note_writer_run [of ?s2 client c] inv by auto
  have "perform_contains client c tag key s = (Inr True, ?s2\<lparr>mg_ws := ws'\<rparr>)"
    using code w(1) by (simp add: perform_contains_def bnd_apply sq_apply respond_buffered [OF conn])
  moreover have "mg_inv (?s2\<lparr>mg_ws := ws'\<rparr>)" "seen (?s2\<lparr>mg_ws := ws'\<rparr>) = seen s"
    using same_data_mgr [of ?s2 ws'] w(2) inv by simp_all
  ultimately show ?thesis by (intro exI [of _ "?s2\<lparr>mg_ws := ws'\<rparr>"]) simp
qed

theorem contains_correct_witness:
  "\<exists>s'. perform_contains 7 1 3 ''k'' demo_mgr = (Inr True, s') \<and> mg_inv s'"
  using contains_correct [OF demo_mgr_inv demo_mgr_conn(1), of 1 3 "''k''"] demo_mgr_conn
  by (auto simp: demo_mgr_def make_manager_def make_working_set_def)

section \<open>Puts that come too late\<close>

lemma recover_args_run:
  assumes inv: "mg_inv s" and args: "put_args_ok s key vals"
  shows "recover_args (Some key) (Some vals) s =
     (Inr (), s\<lparr>mg_live := mg_live s - foot key (mg_lists s vals), mg_lists := (mg_lists s)(vals := [])\<rparr>)"
    and "mg_inv (s\<lparr>mg_live := mg_live s - foot key (mg_lists s vals), mg_lists := (mg_lists s)(vals := [])\<rparr>)"
    and "seen (s\<lparr>mg_live := mg_live s - foot key (mg_lists s vals), mg_lists := (mg_lists s)(vals := [])\<rparr>) = seen s"
proof -
  have ws: "ws_inv (mg_ws s)" and heap: "heap_ok (slots_of s) (mg_lists s) (mg_live s) (mg_next_lref s)"
    using inv by (simp_all add: mg_inv_def)
  have live: "ident key \<in> mg_live s" using args by (simp add: put_args_ok_def cell_ok_def foot_def)
  have chk: "check_for_key_existence_before_free key s = (Inr (), s\<lparr>mg_live := mg_live s - {ident key}\<rparr>)"
    by (rule check_free_run [OF inv live]) (rule put_args_keys [OF args])
  have "mg_live s - {ident key} - ident ` set (mg_lists s vals) = mg_live s - foot key (mg_lists s vals)"
    by (auto simp: foot_def)
  then show "recover_args (Some key) (Some vals) s =
     (Inr (), s\<lparr>mg_live := mg_live s - foot key (mg_lists s vals), mg_lists := (mg_lists s)(vals := [])\<rparr>)"
    using chk by (simp add: recover_args_def py_simps free_list_quietly_run del: fun_upd_apply)
  have keep: "((mg_lists s)(vals := [])) l = mg_lists s l \<and>
      foot k (mg_lists s l) \<subseteq> mg_live s - foot key (mg_lists s vals)" if "slots_of s p b = Some (k, l)" for p b k l
    using that args heap_okD(2) [OF heap that] unfolding put_args_ok_def unbound_def unowned_def cell_ok_def by fastforce
  have "heap_ok (slots_of s) ((mg_lists s)(vals := [])) (mg_live s - foot key (mg_lists s vals)) (mg_next_lref s)"
    by (rule heap_ok_frame [OF heap order_refl]) (use keep in blast)+
  then show "mg_inv (s\<lparr>mg_live := mg_live s - foot key (mg_lists s vals), mg_lists := (mg_lists s)(vals := [])\<rparr>)"
    using ws inv by (simp add: mg_inv_def)
  have "view (mg_ws s) c b \<noteq> Some vals" for c b
    using view_bound [OF ws, of c b vals "mg_persisting s"] args unfolding put_args_ok_def unbound_def by blast
  then show "seen (s\<lparr>mg_live := mg_live s - foot key (mg_lists s vals), mg_lists := (mg_lists s)(vals := [])\<rparr>) = seen s"
    by (intro ext) (auto simp: seen_def map_option_case split: option.splits)
qed

text \<open>
  A put operation for a checkpoint older than the window is answered with the
  checkpoint-retired error; the memory of its key and value is freed, all of it and nothing else,
  and no value a client sees changes.
\<close>

lemma perform_put_retired:
  assumes inv: "mg_inv s" and args: "put_args_ok s key vals" and conn: "can_reply client s"
    and c: "c < oldest_chkpt_id (mg_ws s)"
  shows "\<exists>s'. perform_put client c tag persist key vals waitFor s = (Inr True, s') \<and> mg_inv s' \<and> seen s' = seen s \<and>
    mg_live s' = mg_live s - foot key (mg_lists s vals) \<and>
    mg_out s' = mg_out s @ [SentMsg (BufferedConn client) (DDPutResponse (mg_tag s) tag DDICT_CHECKPOINT_RETIRED)]"
proof -
  have ws: "ws_inv (mg_ws s)" using inv by (simp add: mg_inv_def)
  have "put_perform client c persist key vals waitFor s = (Inl DDictCheckpointSyncError, s)"
    using working_set_put_run [OF inv, of c] c by (simp add: put_perform_def bnd_apply)
  moreover have "read_range s = (Inr (), s)" by (simp add: read_range_def bnd_apply ws_inv_range [OF ws])
  moreover note rec = recover_args_run [OF inv args]
  let ?s1 = "s\<lparr>mg_live := mg_live s - foot key (mg_lists s vals), mg_lists := (mg_lists s)(vals := [])\<rparr>"
  have "can_reply client ?s1" using conn by (simp add: can_reply_def)
  note resp = respond_buffered [OF this]
  ultimately have "perform_put client c tag persist key vals waitFor s = (Inr True, ?s1\<lparr>mg_tag := mg_tag s + 1,
      mg_out := mg_out s @ [SentMsg (BufferedConn client) (DDPutResponse (mg_tag s) tag DDICT_CHECKPOINT_RETIRED)]\<rparr>)"
    by (simp add: perform_put_def py_simps full_error_def recover_mem_def rec(1) resp del: fun_upd_apply)
  then show ?thesis using rec(2,3) by simp
qed

section \<open>Retiring\<close>

text \<open>The memory a retiring checkpoint has to free.\<close>

definition retire_foot :: "(lref \<Rightarrow> alloc list) \<Rightarrow> checkpoint \<Rightarrow> kset \<Rightarrow> (nat \<times> nat) set" where
  "retire_foot L p ks = {a. \<exists>b k l. ks_mem b ks \<and> ck_slot p b = Some (k, l) \<and> a \<in> foot k (L l)}"

lemma slot_kvs:
  "slot ws (p\<lparr>ck_kvs_to_clear := ks\<rparr> # rest) q b =
     (if q = Retiring 0 then (if ks_mem b ks then ck_slot p b else None)
      else case q of InWindow i \<Rightarrow> slot ws rest q b | Retiring n \<Rightarrow> slot ws rest (Retiring (n - 1)) b)"
proof (cases q)
  case (Retiring n)
  have "ck_slot (p\<lparr>ck_kvs_to_clear := ks\<rparr>) b = ck_slot p b" by (simp add: ck_slot_def)
  then show ?thesis using Retiring by (cases n) auto
qed simp

lemma retire_key_run:
  assumes heap: "heap_ok (slot ws (p\<lparr>ck_kvs_to_clear := k # ks\<rparr> # rest)) (mg_lists s) (mg_live s) n"
    and slot: "ck_slot p (al_bytes k) = Some (h, l)" and fresh: "\<not> ks_mem (al_bytes k) ks"
  shows "retire_key p k s = (Inr (), s\<lparr>mg_lists := (mg_lists s)(l := []), mg_live := mg_live s - foot h (mg_lists s l)\<rparr>)"
    and "heap_ok (slot ws (p\<lparr>ck_kvs_to_clear := ks\<rparr> # rest)) ((mg_lists s)(l := [])) (mg_live s - foot h (mg_lists s l)) n"
    and "\<And>q b k' l'. slot ws (p\<lparr>ck_kvs_to_clear := ks\<rparr> # rest) q b = Some (k', l') \<Longrightarrow>
        l' \<noteq> l \<and> foot k' (mg_lists s l') \<inter> foot h (mg_lists s l) = {}"
proof -
  let ?S = "slot ws (p\<lparr>ck_kvs_to_clear := k # ks\<rparr> # rest)" and ?S' = "slot ws (p\<lparr>ck_kvs_to_clear := ks\<rparr> # rest)"
  have here: "?S (Retiring 0) (al_bytes k) = Some (h, l)"
    using slot unfolding slot_kvs by (simp add: ks_mem_def)
  note cell = heap_okD(2) [OF heap here]
  have sub: "?S q b = Some (k', l') \<and> (Retiring 0, al_bytes k) \<noteq> (q, b)" if "?S' q b = Some (k', l')" for q b k' l'
    using that fresh unfolding slot_kvs by (auto simp: ks_mem_def split: if_splits)
  show apart: "l' \<noteq> l \<and> foot k' (mg_lists s l') \<inter> foot h (mg_lists s l) = {}" if "?S' q b = Some (k', l')" for q b k' l'
    using heap_ok_apart [OF heap here, of q b k' l'] sub [OF that] by blast
  show "heap_ok ?S' ((mg_lists s)(l := [])) (mg_live s - foot h (mg_lists s l)) n"
  proof (rule heap_ok_frame [OF heap order_refl])
    show "?S q b = Some (k', l')" if "?S' q b = Some (k', l')" for q b k' l' using sub [OF that] by blast
    show "((mg_lists s)(l := [])) l' = mg_lists s l' \<and> foot k' (mg_lists s l') \<subseteq> mg_live s - foot h (mg_lists s l)"
      if "?S' q b = Some (k', l')" for q b k' l'
      using apart [OF that] heap_okD(2) [OF heap, of q b k' l'] sub [OF that] by (auto simp: cell_ok_def)
  qed
  have item: "kd_get (al_bytes k) (ck_map p) = Some l" "kd_get (al_bytes k) (ck_key_allocs p) = Some h"
    using slot by (simp_all add: ck_slot_def)
  have fl: "free_list l s = (Inr (), s\<lparr>mg_lists := (mg_lists s)(l := []), mg_live := mg_live s - ident ` set (mg_lists s l)\<rparr>)"
    by (rule free_list_run) (use cell in \<open>auto simp: cell_ok_def foot_def\<close>)
  have "ident h \<in> mg_live s - ident ` set (mg_lists s l)" using cell by (auto simp: cell_ok_def foot_def)
  moreover have "mg_live s - ident ` set (mg_lists s l) - {ident h} = mg_live s - foot h (mg_lists s l)"
    by (auto simp: foot_def)
  ultimately show "retire_key p k s = (Inr (), s\<lparr>mg_lists := (mg_lists s)(l := []), mg_live := mg_live s - foot h (mg_lists s l)\<rparr>)"
    using fl item by (simp add: retire_key_def bnd_apply sq_apply kd_item_def free_mem_def del: fun_upd_apply)
qed

lemma retire_loop_run:
  assumes "heap_ok (slot ws (p\<lparr>ck_kvs_to_clear := ks\<rparr> # rest)) (mg_lists s) (mg_live s) n"
    "ks_ok ks" "\<forall>b. ks_mem b ks \<longrightarrow> ck_slot p b \<noteq> None"
  shows "\<exists>L. for_each ks (retire_key p) s =
        (Inr (), s\<lparr>mg_lists := L, mg_live := mg_live s - retire_foot (mg_lists s) p ks\<rparr>) \<and>
     heap_ok (slot ws (p\<lparr>ck_kvs_to_clear := []\<rparr> # rest)) L (mg_live s - retire_foot (mg_lists s) p ks) n \<and>
     (\<forall>q b k l. slot ws (p\<lparr>ck_kvs_to_clear := []\<rparr> # rest) q b = Some (k, l) \<longrightarrow> L l = mg_lists s l)"
  using assms
proof (induction ks arbitrary: s)
  case Nil
  then show ?case by (intro exI [of _ "mg_lists s"]) (simp add: retire_foot_def ks_mem_def)
next
  case (Cons k ks)
  obtain h l where slot: "ck_slot p (al_bytes k) = Some (h, l)"
    using Cons.prems(3) [rule_format, of "al_bytes k"] by (auto simp: ks_mem_def)
  have fresh: "\<not> ks_mem (al_bytes k) ks" and ks: "ks_ok ks"
    using Cons.prems(2) by (auto simp: ks_ok_def ks_mem_iff ks_contents_def)
  note one = retire_key_run [OF Cons.prems(1) slot fresh]
  let ?s = "s\<lparr>mg_lists := (mg_lists s)(l := []), mg_live := mg_live s - foot h (mg_lists s l)\<rparr>"
  have later: "\<forall>b. ks_mem b ks \<longrightarrow> ck_slot p b \<noteq> None" using Cons.prems(3) by (simp add: ks_mem_def)
  have h2: "heap_ok (slot ws (p\<lparr>ck_kvs_to_clear := ks\<rparr> # rest)) (mg_lists ?s) (mg_live ?s) n"
    using one(2) by (simp del: fun_upd_apply)
  obtain L where L: "for_each ks (retire_key p) ?s =
        (Inr (), ?s\<lparr>mg_lists := L, mg_live := mg_live ?s - retire_foot (mg_lists ?s) p ks\<rparr>)"
     "heap_ok (slot ws (p\<lparr>ck_kvs_to_clear := []\<rparr> # rest)) L (mg_live ?s - retire_foot (mg_lists ?s) p ks) n"
     "\<forall>q b k l. slot ws (p\<lparr>ck_kvs_to_clear := []\<rparr> # rest) q b = Some (k, l) \<longrightarrow> L l = mg_lists ?s l"
    using Cons.IH [OF h2 ks later] by blast
  have other: "((mg_lists s)(l := [])) l' = mg_lists s l'" if "ks_mem b ks" "ck_slot p b = Some (k', l')" for b k' l'
    using one(3) [of "Retiring 0" b k' l'] that unfolding slot_kvs by auto
  have "retire_foot (mg_lists s) p (k # ks) = foot h (mg_lists s l) \<union> retire_foot ((mg_lists s)(l := [])) p ks"
    using slot other unfolding retire_foot_def by (fastforce simp: ks_mem_def)
  then have live: "mg_live ?s - retire_foot (mg_lists ?s) p ks = mg_live s - retire_foot (mg_lists s) p (k # ks)"
    by auto
  have final: "L l' = mg_lists s l'" if "slot ws (p\<lparr>ck_kvs_to_clear := []\<rparr> # rest) q b = Some (k', l')" for q b k' l'
  proof -
    have "slot ws (p\<lparr>ck_kvs_to_clear := ks\<rparr> # rest) q b = Some (k', l')"
      using that unfolding slot_kvs by (auto simp: ks_mem_def split: if_splits)
    then show ?thesis using one(3) L(3) that by fastforce
  qed
  have "for_each (k # ks) (retire_key p) s = (Inr (), s\<lparr>mg_lists := L, mg_live := mg_live s - retire_foot (mg_lists s) p (k # ks)\<rparr>)"
    using one(1) L(1) live by (simp add: sq_Inr del: fun_upd_apply)
  then show ?case using L(2) live final by (intro exI [of _ L]) auto
qed

text \<open>
  C8: The thread of a retired checkpoint frees exactly the memory of the keys that were not handed
  down, each handle once and without error; no read at any checkpoint is affected, and the heap
  of the manager stays well formed without that checkpoint.
\<close>

theorem retire_frees_exactly:
  assumes inv: "mg_inv s" and p: "mg_persisting s = p # rest"
  shows "\<exists>s'. retire p s = (Inr (), s') \<and>
     mg_live s' = mg_live s - retire_foot (mg_lists s) p (ck_kvs_to_clear p) \<and>
     mg_inv (s'\<lparr>mg_persisting := rest\<rparr>) \<and> seen s' = seen s"
proof -
  have ws: "ws_inv (mg_ws s)" and ret: "retiring_ok p" "\<forall>p \<in> set rest. retiring_ok p"
    and heap: "heap_ok (slot (mg_ws s) (p\<lparr>ck_kvs_to_clear := ck_kvs_to_clear p\<rparr> # rest)) (mg_lists s) (mg_live s) (mg_next_lref s)"
    using inv p by (simp_all add: mg_inv_def)
  let ?live = "mg_live s - retire_foot (mg_lists s) p (ck_kvs_to_clear p)"
  obtain L where L: "retire p s = (Inr (), s\<lparr>mg_lists := L, mg_live := ?live\<rparr>)"
    "heap_ok (slot (mg_ws s) (p\<lparr>ck_kvs_to_clear := []\<rparr> # rest)) L ?live (mg_next_lref s)"
    "\<forall>q b k l. slot (mg_ws s) (p\<lparr>ck_kvs_to_clear := []\<rparr> # rest) q b = Some (k, l) \<longrightarrow> L l = mg_lists s l"
    using retire_loop_run [OF heap] ret(1) unfolding retire_def retiring_ok_def by blast
  let ?s' = "s\<lparr>mg_lists := L, mg_live := ?live\<rparr>"
  have "heap_ok (slot (mg_ws s) rest) L ?live (mg_next_lref s)"
  proof (rule heap_ok_relocate [OF L(2), of _ "\<lambda>q b. case q of InWindow i \<Rightarrow> InWindow i | Retiring n \<Rightarrow> Retiring (Suc n)"])
    show "slot (mg_ws s) (p\<lparr>ck_kvs_to_clear := []\<rparr> # rest) (case q of InWindow i \<Rightarrow> InWindow i | Retiring n \<Rightarrow> Retiring (Suc n)) b =
        Some (k, l)" if "slot (mg_ws s) rest q b = Some (k, l)" for q b k l
      using that by (cases q) (simp_all split: if_splits)
  qed (auto split: place.splits)
  then have "mg_inv (?s'\<lparr>mg_persisting := rest\<rparr>)" using ws ret(2) by (simp add: mg_inv_def)
  moreover have "L l = mg_lists s l" if v: "view (mg_ws s) c b = Some l" for c b l
    using view_bound [OF ws v, of "p\<lparr>ck_kvs_to_clear := []\<rparr> # rest"] L(3) by blast
  then have "seen ?s' = seen s" by (intro ext) (auto simp: seen_def map_option_case split: option.splits)
  ultimately show ?thesis using L(1) by auto
qed

definition demo_retiring :: checkpoint where
  "demo_retiring = (new_checkpoint 0)\<lparr>ck_map := [(demo_alloc 1 ''k'', 0)],
     ck_key_allocs := [(demo_alloc 1 ''k'', demo_alloc 1 ''k'')], ck_kvs_to_clear := [demo_alloc 1 ''k'']\<rparr>"

definition demo_retire_mgr :: mgr where
  "demo_retire_mgr = demo_mgr\<lparr>mg_persisting := [demo_retiring]\<rparr>"

lemma demo_retire_slots:
  "slots_of demo_retire_mgr q b =
     (if q = Retiring 0 \<and> b = ''k'' then Some (demo_alloc 1 ''k'', 0) else None)"
proof (cases q)
  case (InWindow i)
  have "mg_ws demo_retire_mgr = mg_ws demo_mgr" "mg_persisting demo_retire_mgr = [demo_retiring]"
    by (simp_all add: demo_retire_mgr_def)
  then show ?thesis using InWindow demo_mgr_slots [of q b] by simp
next
  case (Retiring n)
  then show ?thesis
    by (auto simp: demo_retire_mgr_def demo_retiring_def ck_slot_def ks_mem_def demo_alloc_def)
qed

lemma demo_retire_inv: "mg_inv demo_retire_mgr"
proof -
  have f: "mg_ws demo_retire_mgr = mg_ws demo_mgr" "mg_lists demo_retire_mgr = mg_lists demo_mgr"
    "mg_live demo_retire_mgr = mg_live demo_mgr" "mg_next_lref demo_retire_mgr = mg_next_lref demo_mgr"
    "mg_persisting demo_retire_mgr = [demo_retiring]"
    by (simp_all add: demo_retire_mgr_def)
  have "heap_ok (slots_of demo_retire_mgr) (mg_lists demo_retire_mgr) (mg_live demo_retire_mgr) (mg_next_lref demo_retire_mgr)"
    using demo_mgr_args unfolding heap_ok_def demo_retire_slots
    by (auto simp: put_args_ok_def demo_alloc_def f split: if_splits)
  moreover have "retiring_ok demo_retiring"
    by (auto simp: retiring_ok_def demo_retiring_def ks_ok_def ks_mem_def ck_slot_def demo_alloc_def)
  ultimately show ?thesis using demo_mgr_inv f by (simp add: mg_inv_def)
qed

theorem retire_frees_exactly_witness:
  "\<exists>s'. retire demo_retiring demo_retire_mgr = (Inr (), s') \<and> (1, 1) \<notin> mg_live s' \<and> seen s' = seen demo_retire_mgr"
proof -
  have "(1, 1) \<in> retire_foot (mg_lists demo_retire_mgr) demo_retiring (ck_kvs_to_clear demo_retiring)"
    unfolding retire_foot_def
    by (auto simp: demo_retiring_def ck_slot_def ks_mem_def demo_alloc_def foot_def ident_def)
  then show ?thesis
    using retire_frees_exactly [OF demo_retire_inv, of demo_retiring "[]"] by (auto simp: demo_retire_mgr_def)
qed

end
