(* ===== verification/Popping.thy ===== *)
theory Popping
  imports Reading
begin

text \<open>
  \<open>PopOp\<close>: a key bound in the client's own checkpoint is handed over with its memory; a key bound
  in an older checkpoint is marked as deleted and its value is sent by copy.
\<close>

lemma working_set_access_here:
  assumes "mg_inv s" "in_window c s"
  shows "working_set_access c s = (Inr (Some c), s)"
proof -
  have "map_of (ws_chkpts (mg_ws s)) c \<noteq> None" using in_window_layer(1) [OF assms] by simp
  then have "ws_access c (mg_ws s) = Some (Inr (Some c), mg_ws s, [])"
    using assms(2) by (auto simp: ws_access_def access_loop.simps in_window_def)
  then show ?thesis by (simp add: working_set_access_def)
qed

lemma kd_del_set [simp]: "kd_del (al_bytes k) (kd_set k v d) = kd_del (al_bytes k) d"
  by (induction d) (auto simp: kd_del_def)

lemma send_transfer_run:
  assumes "cn \<notin> mg_broken s" "ident ` set vs \<subseteq> mg_live s" "distinct (map ident vs)"
  shows "for_each vs (send_mem cn h True) s = (Inr (), s\<lparr>mg_live := mg_live s - ident ` set vs,
     mg_out := mg_out s @ map (\<lambda>v. SentMem cn v h True) vs\<rparr>)"
  using assms
proof (induction vs arbitrary: s)
  case Nil
  then show ?case by simp
next
  case (Cons v vs)
  let ?s = "s\<lparr>mg_live := mg_live s - {ident v}, mg_out := mg_out s @ [SentMem cn v h True]\<rparr>"
  have one: "send_mem cn h True v s = (Inr (), ?s)"
    using Cons.prems by (simp add: send_mem_def emit_def)
  have "ident ` set vs \<subseteq> mg_live ?s" using Cons.prems by auto
  then have "for_each vs (send_mem cn h True) ?s = (Inr (), ?s\<lparr>mg_live := mg_live ?s - ident ` set vs,
     mg_out := mg_out ?s @ map (\<lambda>v. SentMem cn v h True) vs\<rparr>)"
    using Cons.IH [of ?s] Cons.prems by simp
  moreover have "mg_live s - {ident v} - ident ` set vs = mg_live s - ident ` set (v # vs)" by auto
  ultimately show ?case using one by (simp add: sq_Inr)
qed

section \<open>Popping a key of the client's own checkpoint\<close>

text \<open>The checkpoint a pop leaves behind when the key was bound in it.\<close>

definition popped :: "int \<Rightarrow> alloc \<Rightarrow> checkpoint \<Rightarrow> checkpoint" where
  "popped client k ck =
     (if ks_mem (al_bytes k) (ck_persist ck)
      then ck\<lparr>ck_writers := insert client (ck_writers ck), ck_map := kd_del (al_bytes k) (ck_map ck),
              ck_deleted := ks_add k (ck_deleted ck), ck_persist := ks_discard (al_bytes k) (ck_persist ck)\<rparr>
      else ck\<lparr>ck_writers := insert client (ck_writers ck), ck_map := kd_del (al_bytes k) (ck_map ck),
              ck_key_allocs := kd_del (al_bytes k) (ck_key_allocs ck)\<rparr>)"

lemma popped_ok: "ck_ok ck \<Longrightarrow> ck_ok (popped client k ck) \<and> ck_id (popped client k ck) = ck_id ck"
  by (auto simp: popped_def ck_ok_def kd_mem_def)

lemma ck_slot_popped: "ck_slot (popped client k ck) b = (if b = al_bytes k then None else ck_slot ck b)"
  by (simp add: popped_def ck_slot_def)

lemma ck_entry_popped:
  "ck_entry (popped client k ck) b =
     (if b = al_bytes k then (if ks_mem b (ck_persist ck) \<or> ks_mem b (ck_deleted ck) then Some None else None)
      else ck_entry ck b)"
  by (auto simp: popped_def ck_entry_def ks_mem_iff split: option.splits)

definition pop_freed :: "checkpoint \<Rightarrow> alloc \<Rightarrow> alloc list \<Rightarrow> (nat \<times> nat) set" where
  "pop_freed ck k vs = (if ks_mem (al_bytes k) (ck_persist ck) then ident ` set vs else foot k vs)"

text \<open>The state after the memory of the value went to the client and the key left the map.\<close>

definition pop_state :: "int \<Rightarrow> int \<Rightarrow> int \<Rightarrow> alloc \<Rightarrow> lref \<Rightarrow> mgr \<Rightarrow> mgr" where
  "pop_state client c tag k l s =
     s\<lparr>mg_ws := put_ck c (popped client k (layer (mg_ws s) c)) (mg_ws s),
       mg_lists := (mg_lists s)(mg_next_lref s := []),
       mg_live := mg_live s - pop_freed (layer (mg_ws s) c) k (mg_lists s l),
       mg_next_lref := Suc (mg_next_lref s), mg_tag := mg_tag s + 1,
       mg_out := mg_out s @ SentMsg (ClientConn client) (DDPopResponse (mg_tag s) tag SUCCESS True) #
         map (\<lambda>v. SentMem (ClientConn client) v VALUE_HINT True) (mg_lists s l)\<rparr>"

lemma pop_state_inv:
  assumes inv: "mg_inv s" and c: "in_window c s" and slot: "slots_of s (InWindow c) (al_bytes k) = Some (k, l)"
    and X: "X \<subseteq> foot k (mg_lists s l)"
  shows "mg_inv (s\<lparr>mg_ws := put_ck c (popped client k (layer (mg_ws s) c)) (mg_ws s),
       mg_lists := (mg_lists s)(mg_next_lref s := []), mg_live := mg_live s - X, mg_next_lref := Suc (mg_next_lref s)\<rparr>)"
    and "\<And>p b k' l'. ((slots_of s)(InWindow c := ck_slot (popped client k (layer (mg_ws s) c)))) p b = Some (k', l') \<Longrightarrow>
       foot k' (mg_lists s l') \<inter> foot k (mg_lists s l) = {}"
proof -
  let ?ck = "popped client k (layer (mg_ws s) c)" and ?L = "(mg_lists s)(mg_next_lref s := [])"
  let ?S = "(slots_of s)(InWindow c := ck_slot ?ck)"
  note lay = in_window_layer [OF inv c]
  have ws: "ws_inv (mg_ws s)" and heap: "heap_ok (slots_of s) (mg_lists s) (mg_live s) (mg_next_lref s)"
    using inv by (simp_all add: mg_inv_def)
  have sub: "slots_of s p b = Some (k', l') \<and> (InWindow c, al_bytes k) \<noteq> (p, b)" if "?S p b = Some (k', l')" for p b k' l'
    using that lay(5) by (auto simp: ck_slot_popped split: if_splits)
  show apart: "foot k' (mg_lists s l') \<inter> foot k (mg_lists s l) = {}" if "?S p b = Some (k', l')" for p b k' l'
    using heap_ok_apart(2) [OF heap slot, of p b k' l'] sub [OF that] by blast
  have "heap_ok ?S ?L (mg_live s - X) (Suc (mg_next_lref s))"
  proof (rule heap_ok_frame [OF heap])
    show "slots_of s p b = Some (k', l')" if "?S p b = Some (k', l')" for p b k' l' using sub [OF that] by blast
    show "?L l' = mg_lists s l' \<and> foot k' (mg_lists s l') \<subseteq> mg_live s - X" if "?S p b = Some (k', l')" for p b k' l'
      using heap_okD [OF heap, of p b k' l'] sub [OF that] apart [OF that] X by (auto simp: cell_ok_def)
  qed simp
  moreover have "ws_inv (put_ck c ?ck (mg_ws s))"
    using put_ck_inv [OF ws] c lay(2,3) popped_ok ws_inv_oldest [OF ws] by (simp add: in_window_def)
  ultimately show "mg_inv (s\<lparr>mg_ws := put_ck c ?ck (mg_ws s), mg_lists := ?L, mg_live := mg_live s - X,
      mg_next_lref := Suc (mg_next_lref s)\<rparr>)"
    using inv by (simp add: mg_inv_def)
qed

lemma pop_own_run:
  assumes inv: "mg_inv s" and c: "in_window c s" and slot: "slots_of s (InWindow c) (al_bytes k) = Some (k, l)"
    and conn: "client \<in> mg_clients s" "ClientConn client \<notin> mg_broken s"
  shows "pop_found client c tag c k s = (Inr True, pop_state client c tag k l s)"
proof -
  note lay = in_window_layer [OF inv c]
  have ws: "ws_inv (mg_ws s)" and heap: "heap_ok (slots_of s) (mg_lists s) (mg_live s) (mg_next_lref s)"
    using inv by (simp_all add: mg_inv_def)
  let ?ck = "layer (mg_ws s) c"
  have items: "kd_get (al_bytes k) (ck_map ?ck) = Some l" "kd_get (al_bytes k) (ck_key_allocs ?ck) = Some k"
    using slot lay(5) by (simp_all add: ck_slot_def)
  note cell = heap_okD [OF heap slot]
  have newest: "\<not> ws_next_id (mg_ws s) - 1 < c" using c by (simp add: in_window_def)
  have lne: "l \<noteq> mg_next_lref s" using cell(1) by simp
  let ?L = "(mg_lists s)(mg_next_lref s := [])"
  let ?cn = "ClientConn client"
  have send: "for_each (mg_lists s l) (send_mem ?cn VALUE_HINT True) t =
      (Inr (), t\<lparr>mg_live := mg_live t - ident ` set (mg_lists s l),
         mg_out := mg_out t @ map (\<lambda>v. SentMem ?cn v VALUE_HINT True) (mg_lists s l)\<rparr>)"
    if "mg_broken t = mg_broken s" "mg_live t = mg_live s" for t
    by (rule send_transfer_run) (use that conn cell in \<open>auto simp: cell_ok_def foot_def\<close>)
  let ?ck' = "popped client k ?ck"
  let ?X = "ident ` set (mg_lists s l)"
  have X: "?X \<subseteq> foot k (mg_lists s l)" by (auto simp: foot_def)
  let ?mid = "s\<lparr>mg_ws := put_ck c ?ck' (mg_ws s), mg_lists := ?L, mg_live := mg_live s - ?X, mg_next_lref := Suc (mg_next_lref s)\<rparr>"
  have use: "key_in_use k (map snd (ws_chkpts (put_ck c ?ck' (mg_ws s)))) = Inr ()"
  proof -
    have "ident k' \<noteq> ident k" if "slots_of ?mid p b = Some (k', l')" for p b k' l'
      using that pop_state_inv(2) [OF inv c slot X, of client p b k' l'] by (auto simp: foot_def)
    then show ?thesis using key_in_use_fresh [OF pop_state_inv(1) [OF inv c slot X, of client], of k] by simp
  qed
  have live: "ident k \<in> mg_live s - ?X" using cell(2) by (auto simp: cell_ok_def foot_def)
  have foot: "mg_live s - ?X - {ident k} = mg_live s - foot k (mg_lists s l)" by (auto simp: foot_def)
  show ?thesis
    using items lay(1,2) newest lne conn send use live foot ws_inv_newest [OF ws]
    by (cases "ks_mem (al_bytes k) (ck_persist ?ck)")
      (simp_all add: pop_found_def mark_deleted_def pop_reply_def send_dmsg_and_value_def finish_transfer_def
        working_set_access_here [OF inv c] bnd_apply sq_apply get_ck_def upd_ck_run kd_item_def kd_mem_def
        tag_inc_def client_conn_def send_bytes_def emit_def new_list_def fun_upd_same fun_upd_other
        check_for_key_existence_before_free_def free_mem_def pop_state_def popped_def pop_freed_def
        del: fun_upd_apply)
qed

section \<open>Popping a key of an older checkpoint\<close>

definition pop_marked :: "int \<Rightarrow> int \<Rightarrow> int \<Rightarrow> alloc \<Rightarrow> lref \<Rightarrow> mgr \<Rightarrow> mgr" where
  "pop_marked client c tag k l s =
     (let ck = layer (mg_ws s) c in
      s\<lparr>mg_ws := put_ck c (ck\<lparr>ck_writers := insert client (ck_writers ck), ck_deleted := ks_add k (ck_deleted ck)\<rparr>) (mg_ws s),
        mg_tag := mg_tag s + 1,
        mg_out := mg_out s @ SentMsg (ClientConn client) (DDPopResponse (mg_tag s) tag SUCCESS False) #
          map (\<lambda>v. SentMem (ClientConn client) v VALUE_HINT False) (mg_lists s l)\<rparr>)"

lemma pop_older_run:
  assumes inv: "mg_inv s" and c: "in_window c s" and i: "in_window i s" "i < c"
    and slot: "slots_of s (InWindow i) (al_bytes k) = Some (k, l)"
    and conn: "client \<in> mg_clients s" "ClientConn client \<notin> mg_broken s"
  shows "pop_found client c tag i k s = (Inr True, pop_marked client c tag k l s)"
    and "mg_inv (pop_marked client c tag k l s)"
proof -
  note lay = in_window_layer [OF inv c] and layi = in_window_layer [OF inv i(1)]
  have ws: "ws_inv (mg_ws s)" and heap: "heap_ok (slots_of s) (mg_lists s) (mg_live s) (mg_next_lref s)"
    using inv by (simp_all add: mg_inv_def)
  let ?ck = "layer (mg_ws s) c" and ?cn = "ClientConn client"
  let ?ck' = "?ck\<lparr>ck_writers := insert client (ck_writers ?ck), ck_deleted := ks_add k (ck_deleted ?ck)\<rparr>"
  have item: "kd_get (al_bytes k) (ck_map (layer (mg_ws s) i)) = Some l"
    using slot layi(5) by (simp add: ck_slot_def)
  note cell = heap_okD [OF heap slot]
  have newest: "\<not> ws_next_id (mg_ws s) - 1 < c" using c by (simp add: in_window_def)
  have send: "for_each (mg_lists s l) (send_mem ?cn VALUE_HINT False) t =
      (Inr (), t\<lparr>mg_out := mg_out t @ map (\<lambda>v. SentMem ?cn v VALUE_HINT False) (mg_lists s l)\<rparr>)"
    if "mg_broken t = mg_broken s" "mg_live t = mg_live s" for t
    by (rule send_values_run) (use that conn cell in \<open>auto simp: cell_ok_def foot_def\<close>)
  show "pop_found client c tag i k s = (Inr True, pop_marked client c tag k l s)"
    using item lay(1,2) layi(1,2) newest conn send i(2) ws_inv_newest [OF ws]
    by (simp add: pop_found_def mark_deleted_def pop_reply_def send_dmsg_and_value_def
        working_set_access_here [OF inv c] bnd_apply sq_apply get_ck_def upd_ck_run kd_item_def
        tag_inc_def client_conn_def send_bytes_def emit_def pop_marked_def Let_def)
  have "ck_ok ?ck'" "ck_id ?ck' = c" using lay(2,3) by (auto simp: ck_ok_def)
  then have "ws_inv (put_ck c ?ck' (mg_ws s))"
    using put_ck_inv [OF ws] c ws_inv_oldest [OF ws] by (simp add: in_window_def)
  moreover have "ck_slot ?ck' = ck_slot ?ck" by (simp add: ck_slot_def fun_eq_iff)
  then have "(slots_of s)(InWindow c := ck_slot ?ck') = slots_of s" using lay(5) by (auto simp: fun_eq_iff)
  ultimately show "mg_inv (pop_marked client c tag k l s)"
    using inv by (simp add: mg_inv_def pop_marked_def Let_def)
qed

section \<open>Pop\<close>

text \<open>
  What a pop of a key with value \<open>v\<close> at checkpoint \<open>c\<close> does: the client gets the value; of a key that
  was bound in \<open>c\<close> exactly its values and, unless it is persistent, its key leave the pool's memory, of
  any other key nothing; other keys and older checkpoints keep their values; and the key is gone at \<open>c\<close>, unless it was bound in the
  checkpoint \<open>c\<close> itself as a non-persistent key and the checkpoint has no deletion mark for it: then
  the value of the checkpoint below shows through.
\<close>

definition pop_effect :: "mgr \<Rightarrow> int \<Rightarrow> int \<Rightarrow> int \<Rightarrow> bytes \<Rightarrow> bytes \<Rightarrow> mgr \<Rightarrow> bool" where
  "pop_effect s client c tag key v s' \<longleftrightarrow>
     (\<exists>k vs transfer. contents vs = v \<and>
        (transfer \<longrightarrow> kd_get key (ck_key_allocs (layer (mg_ws s) c)) = Some k) \<and>
        mg_live s' = mg_live s - (if transfer then pop_freed (layer (mg_ws s) c) k vs else {}) \<and>
        mg_out s' = mg_out s @ SentMsg (ClientConn client) (DDPopResponse (mg_tag s) tag SUCCESS transfer) #
          map (\<lambda>a. SentMem (ClientConn client) a VALUE_HINT transfer) vs \<and>
        transfer = kd_mem key (ck_map (layer (mg_ws s) c))) \<and>
     (\<forall>c' b. b \<noteq> key \<or> c' < c \<longrightarrow> seen s' c' b = seen s c' b) \<and>
     seen s' c key =
       (if kd_mem key (ck_map (layer (mg_ws s) c)) \<and> \<not> ks_mem key (ck_persist (layer (mg_ws s) c)) \<and>
           \<not> ks_mem key (ck_deleted (layer (mg_ws s) c))
        then seen s (c - 1) key else None)"

lemma pop_own_effect:
  assumes inv: "mg_inv s" and c: "in_window c s" and slot: "slots_of s (InWindow c) (al_bytes k) = Some (k, l)"
  shows "pop_effect s client c tag (al_bytes k) (contents (mg_lists s l)) (pop_state client c tag k l s)"
proof -
  have ws: "ws_inv (mg_ws s)" and heap: "heap_ok (slots_of s) (mg_lists s) (mg_live s) (mg_next_lref s)"
    using inv by (simp_all add: mg_inv_def)
  note lay = in_window_layer [OF inv c]
  let ?ck = "layer (mg_ws s) c" and ?ck' = "popped client k (layer (mg_ws s) c)"
  have own: "kd_get (al_bytes k) (ck_map ?ck) = Some l" using slot lay(5) by (simp add: ck_slot_def)
  have range: "ws_next_id (mg_ws s) - ws_size (mg_ws s) \<le> c" "c < ws_next_id (mg_ws s)"
    using c ws_inv_oldest [OF ws] by (simp_all add: in_window_def)
  have lists: "mg_lists (pop_state client c tag k l s) l' = mg_lists s l'" if v: "view (mg_ws s) c' b = Some l'" for c' b l'
  proof -
    have "l' < mg_next_lref s" using view_bound [OF ws v, of "mg_persisting s"] heap_okD(1) [OF heap] by blast
    then show ?thesis by (simp add: pop_state_def)
  qed
  have view: "view (mg_ws (pop_state client c tag k l s)) c' b =
     (if c \<le> c' \<and> \<not> shadowed (mg_ws s) c c' b \<and> ck_entry ?ck' b \<noteq> ck_entry ?ck b
      then (case ck_entry ?ck' b of Some r \<Rightarrow> r | None \<Rightarrow> view (mg_ws s) (c - 1) b) else view (mg_ws s) c' b)" for c' b
    using view_put_ck [OF range] by (simp add: pop_state_def)
  have other: "seen (pop_state client c tag k l s) c' b = seen s c' b" if "b \<noteq> al_bytes k \<or> c' < c" for c' b
    using that lists [of c' b] by (auto simp: seen_def view ck_entry_popped map_option_case split: option.splits)
  have "\<not> shadowed (mg_ws s) c c (al_bytes k)" by (auto simp: shadowed_def)
  then have "seen (pop_state client c tag k l s) c (al_bytes k) =
      (if \<not> ks_mem (al_bytes k) (ck_persist ?ck) \<and> \<not> ks_mem (al_bytes k) (ck_deleted ?ck) then seen s (c - 1) (al_bytes k) else None)"
    using lists [of "c - 1" "al_bytes k"] own
    by (auto simp: seen_def view ck_entry_popped map_option_case ck_entry_def [of ?ck] split: option.splits)
  moreover have "kd_mem (al_bytes k) (ck_map ?ck)" "kd_get (al_bytes k) (ck_key_allocs ?ck) = Some k"
    using own slot lay(5) by (simp_all add: kd_mem_def ck_slot_def)
  ultimately show ?thesis using other by (simp add: pop_effect_def) (auto simp: pop_state_def)
qed

lemma pop_older_effect:
  assumes inv: "mg_inv s" and c: "in_window c s" and i: "in_window i s" "i < c"
    and slot: "slots_of s (InWindow i) (al_bytes k) = Some (k, l)"
    and unseen: "ck_entry (layer (mg_ws s) c) (al_bytes k) = None"
  shows "pop_effect s client c tag (al_bytes k) (contents (mg_lists s l)) (pop_marked client c tag k l s)"
proof -
  have ws: "ws_inv (mg_ws s)" using inv by (simp add: mg_inv_def)
  let ?ck = "layer (mg_ws s) c"
  let ?ck' = "?ck\<lparr>ck_writers := insert client (ck_writers ?ck), ck_deleted := ks_add k (ck_deleted ?ck)\<rparr>"
  have range: "ws_next_id (mg_ws s) - ws_size (mg_ws s) \<le> c" "c < ws_next_id (mg_ws s)"
    using c ws_inv_oldest [OF ws] by (simp_all add: in_window_def)
  have absent: "kd_get (al_bytes k) (ck_map ?ck) = None" using ck_entry_None_get [OF unseen] .
  have entry: "ck_entry ?ck' b = (if b = al_bytes k then Some None else ck_entry ?ck b)" for b
    using absent by (auto simp: ck_entry_def ks_mem_iff split: option.splits)
  have view: "view (mg_ws (pop_marked client c tag k l s)) c' b =
     (if c \<le> c' \<and> \<not> shadowed (mg_ws s) c c' b \<and> ck_entry ?ck' b \<noteq> ck_entry ?ck b
      then (case ck_entry ?ck' b of Some r \<Rightarrow> r | None \<Rightarrow> view (mg_ws s) (c - 1) b) else view (mg_ws s) c' b)" for c' b
    using view_put_ck [OF range] by (simp add: pop_marked_def Let_def)
  have lists: "mg_lists (pop_marked client c tag k l s) = mg_lists s" by (simp add: pop_marked_def Let_def)
  have other: "seen (pop_marked client c tag k l s) c' b = seen s c' b" if "b \<noteq> al_bytes k \<or> c' < c" for c' b
    using that by (auto simp: seen_def view entry lists)
  have "\<not> shadowed (mg_ws s) c c (al_bytes k)" by (auto simp: shadowed_def)
  then have "seen (pop_marked client c tag k l s) c (al_bytes k) = None"
    using unseen by (simp add: seen_def view entry)
  moreover have "\<not> kd_mem (al_bytes k) (ck_map ?ck)" using absent by (simp add: kd_mem_def)
  ultimately show ?thesis using other by (simp add: pop_effect_def) (auto simp: pop_marked_def Let_def)
qed

lemma read_ok_older:
  assumes ws: "ws_inv ws" and ok: "read_ok ws c b i" and bound: "view ws c b = Some l" and lt: "i < c" "c < ws_next_id ws"
    and inj: "\<And>j. j \<noteq> i \<Longrightarrow> oldest_chkpt_id ws \<le> j \<Longrightarrow> j < ws_next_id ws \<Longrightarrow> kd_get b (ck_map (layer ws j)) \<noteq> Some l"
  shows "ck_entry (layer ws c) b = None"
proof -
  obtain j where j: "ws_next_id ws - ws_size ws \<le> j" "j < ws_next_id ws" "j \<le> c"
    "kd_get b (ck_map (layer ws j)) = Some l" "\<not> shadowed ws j c b"
    using view_bound [OF ws bound] by blast
  have "j = i" using inj [of j] j ws_inv_oldest [OF ws] by auto
  then show ?thesis using j(5) lt by (auto simp: shadowed_def)
qed

lemma perform_pop_run:
  assumes inv: "mg_inv s" and c: "in_window c s" and nowait: "\<not> ws_wait_for_keys (mg_ws s)"
    and conn: "client \<in> mg_clients s" "ClientConn client \<notin> mg_broken s"
  shows "\<exists>s'. perform_pop client c tag key s = (Inr True, s') \<and> mg_inv s' \<and>
    (case seen s c key of
       None \<Rightarrow> seen s' = seen s \<and> mg_live s' = mg_live s \<and>
         mg_out s' = mg_out s @ [SentMsg (ClientConn client) (DDPopResponse (mg_tag s) tag KEY_NOT_FOUND True)]
     | Some v \<Rightarrow> pop_effect s client c tag key v s')"
proof -
  have ws: "ws_inv (mg_ws s)" and heap: "heap_ok (slots_of s) (mg_lists s) (mg_live s) (mg_next_lref s)"
    using inv by (simp_all add: mg_inv_def)
  have oc: "oldest_chkpt_id (mg_ws s) \<le> c" and cn: "c < ws_next_id (mg_ws s)" using c by (simp_all add: in_window_def)
  show ?thesis
  proof (cases rule: working_set_get_run [OF inv oc, of key, case_names wait found])
    case wait
    then show ?thesis using nowait cn by simp
  next
    case (found i ec km)
    note lay = in_window_layer [OF inv found(3)]
    have pp: "plain_pop client c tag key s = (case km of Some k \<Rightarrow> pop_found client c tag i k s
        | None \<Rightarrow> sq (pop_reply client tag i ec None True) (ret True) s)"
      using found(1,5,6) by (simp add: plain_pop_def bnd_apply split: option.splits)
    show ?thesis
    proof (cases "view (mg_ws s) c key")
      case None
      then have "ec = KEY_NOT_FOUND" "km = None"
        using found(4,6) contains_key_ok [OF lay(3), of key] by (simp_all add: kd_mem_def)
      then have "perform_pop client c tag key s = (Inr True, s\<lparr>mg_tag := mg_tag s + 1,
          mg_out := mg_out s @ [SentMsg (ClientConn client) (DDPopResponse (mg_tag s) tag KEY_NOT_FOUND True)]\<rparr>)"
        using pp conn by (simp add: perform_pop_def try_except_apply pop_reply_def bnd_apply sq_apply tag_inc_def
            client_conn_def send_dmsg_and_value_def send_bytes_def emit_def)
      then show ?thesis using None inv by (simp add: seen_def)
    next
      case (Some l)
      then have bound: "kd_get key (ck_map (layer (mg_ws s) i)) = Some l" using found(4) by simp
      then obtain k where k: "kd_get key (ck_key_allocs (layer (mg_ws s) i)) = Some k" "km = Some k"
        using found(6) lay(3) contains_key_ok [OF lay(3), of key] by (auto simp: kd_mem_def ck_ok_def)
      have slot: "slots_of s (InWindow i) key = Some (k, l)" using bound k(1) lay(1) by (simp add: ck_slot_def)
      have kb: "al_bytes k = key" using heap_okD(2) [OF heap slot] by (simp add: cell_ok_def)
      have seen: "seen s c key = Some (contents (mg_lists s l))" using Some by (simp add: seen_def)
      have ile: "i \<le> c" using found(2) by (simp add: read_ok_def)
      have perf: "perform_pop client c tag key s = (Inr True, s')" if "pop_found client c tag i k s = (Inr True, s')" for s'
        using pp k(2) that by (simp add: perform_pop_def try_except_apply)
      show ?thesis
      proof (cases "i = c")
        case True
        have slot': "slots_of s (InWindow c) (al_bytes k) = Some (k, l)" using slot kb True by simp
        have "pop_freed (layer (mg_ws s) c) k (mg_lists s l) \<subseteq> foot k (mg_lists s l)"
          by (auto simp: pop_freed_def foot_def)
        then have "mg_inv (pop_state client c tag k l s)"
          using pop_state_inv(1) [OF inv c slot', of _ client] by (simp add: pop_state_def mg_inv_def)
        then show ?thesis
          using perf pop_own_run [OF inv c slot' conn, of tag] pop_own_effect [OF inv c slot', of client tag] seen kb True
          by auto
      next
        case False
        then have lt: "i < c" using ile by simp
        have slot': "slots_of s (InWindow i) (al_bytes k) = Some (k, l)" using slot kb by simp
        have "kd_get key (ck_map (layer (mg_ws s) j)) \<noteq> Some l"
          if "j \<noteq> i" "oldest_chkpt_id (mg_ws s) \<le> j" "j < ws_next_id (mg_ws s)" for j
        proof
          assume g: "kd_get key (ck_map (layer (mg_ws s) j)) = Some l"
          have w: "in_window j s" using that by (simp add: in_window_def)
          have "ck_ok (layer (mg_ws s) j)" using in_window_layer(3) [OF inv w] .
          then obtain k' where "kd_get key (ck_key_allocs (layer (mg_ws s) j)) = Some k'"
            using g by (auto simp: ck_ok_def kd_mem_def)
          then have "slots_of s (InWindow j) key = Some (k', l)"
            using g in_window_layer(5) [OF inv w, of key] by (simp add: ck_slot_def)
          then show False using heap_ok_apart(1) [OF heap slot] that(1) by blast
        qed
        then have "ck_entry (layer (mg_ws s) c) (al_bytes k) = None"
          using read_ok_older [OF ws found(2) Some lt cn] kb by blast
        then show ?thesis
          using perf pop_older_run [OF inv c found(3) lt slot' conn, of tag]
            pop_older_effect [OF inv c found(3) lt slot', of client tag] seen kb by auto
      qed
    qed
  qed
qed

section \<open>A manager with a key in two checkpoints\<close>

lemma put_new_slots:
  assumes "mg_inv s" "in_window i s"
  shows "slots_of (put_new i client persist key vals s) =
     (slots_of s)(InWindow i := (slots_of s (InWindow i))(al_bytes key \<mapsto> (key, vals)))"
  using in_window_layer(1) [OF assms] by (intro ext) (auto simp: put_new_def Let_def ck_slot_stored ck_slot_def)

definition demo_base :: mgr where
  "demo_base = demo_mgr\<lparr>mg_live := {(1, 1), (1, 2), (1, 3), (1, 4)}, mg_next_lref := 2,
     mg_lists := (\<lambda>l. if l = 0 then [demo_alloc 2 ''v''] else if l = 1 then [demo_alloc 4 ''w''] else [])\<rparr>"

definition demo_one :: mgr where
  "demo_one = put_new 0 7 False (demo_alloc 1 ''k'') 0 demo_base"

definition demo_two :: mgr where
  "demo_two = put_new 1 7 False (demo_alloc 3 ''k'') 1 demo_one"

lemma demo_base_slots: "slots_of demo_base q b = None"
proof -
  have "mg_ws demo_base = mg_ws demo_mgr" "mg_persisting demo_base = mg_persisting demo_mgr"
    by (simp_all add: demo_base_def)
  then show ?thesis using demo_mgr_slots by simp
qed

lemma demo_base_inv: "mg_inv demo_base"
proof -
  have "ws_inv (mg_ws demo_base)" "mg_persisting demo_base = []"
    using demo_mgr_inv by (simp_all add: mg_inv_def demo_base_def demo_mgr_def make_manager_def)
  moreover have "heap_ok (slots_of demo_base) (mg_lists demo_base) (mg_live demo_base) (mg_next_lref demo_base)"
    by (simp add: heap_ok_def demo_base_slots)
  ultimately show ?thesis by (simp add: mg_inv_def)
qed

lemma demo_windows:
  "in_window 0 demo_base" "in_window 1 demo_base" "in_window 1 demo_one" "in_window 1 demo_two"
  by (simp_all add: in_window_def demo_two_def demo_one_def demo_base_def put_new_def Let_def demo_mgr_def
      make_manager_def make_working_set_def oldest_chkpt_id_def)

lemma demo_base_layer: "layer (mg_ws demo_base) i = (if i = 0 \<or> i = 1 then new_checkpoint i else layer (mg_ws demo_base) i)"
  by (auto simp: layer_def demo_base_def demo_mgr_def make_manager_def make_working_set_def upto.simps)

lemma demo_one_layer: "layer (mg_ws demo_one) 1 = new_checkpoint 1"
  using demo_base_layer [of 1] by (simp add: demo_one_def put_new_def Let_def)

lemma demo_new_absent: "\<not> kd_mem b (ck_map (new_checkpoint i))"
  by (simp add: new_checkpoint_def kd_mem_def)

lemma demo_base_args: "put_args_ok demo_base (demo_alloc 1 ''k'') 0"
  unfolding put_args_ok_def unbound_def unowned_def demo_base_slots
  by (simp add: demo_base_def demo_mgr_def make_manager_def demo_alloc_def cell_ok_def foot_def ident_def)

lemma demo_one_inv: "mg_inv demo_one"
  unfolding demo_one_def
  by (rule put_store_new(2) [OF demo_base_inv demo_base_args demo_windows(1)])
     (use demo_base_layer [of 0] demo_new_absent in simp)

lemma demo_one_fields:
  "mg_lists demo_one = mg_lists demo_base" "mg_live demo_one = mg_live demo_base"
  "mg_next_lref demo_one = mg_next_lref demo_base" "mg_muid demo_one = mg_muid demo_base"
  by (simp_all add: demo_one_def put_new_def Let_def)

lemma demo_one_slots:
  "slots_of demo_one q b = (if q = InWindow 0 \<and> b = ''k'' then Some (demo_alloc 1 ''k'', 0) else None)"
  unfolding demo_one_def put_new_slots [OF demo_base_inv demo_windows(1)]
  by (auto simp: demo_base_slots demo_alloc_def simp del: slot.simps)

lemma demo_one_args: "put_args_ok demo_one (demo_alloc 3 ''k'') 1"
  unfolding put_args_ok_def unbound_def unowned_def demo_one_slots demo_one_fields
  by (auto simp: demo_base_def demo_mgr_def make_manager_def demo_alloc_def cell_ok_def foot_def ident_def split: if_splits)

lemma demo_two_inv: "mg_inv demo_two"
  unfolding demo_two_def
  by (rule put_store_new(2) [OF demo_one_inv demo_one_args demo_windows(3)])
     (simp add: demo_one_layer demo_new_absent)

lemma demo_two_facts:
  "\<not> ws_wait_for_keys (mg_ws demo_two)" "7 \<in> mg_clients demo_two" "ClientConn 7 \<notin> mg_broken demo_two"
  "seen demo_two 1 ''k'' = Some ''w''" "seen demo_two 0 ''k'' = Some ''v''"
  "kd_mem ''k'' (ck_map (layer (mg_ws demo_two) 1))" "\<not> ks_mem ''k'' (ck_persist (layer (mg_ws demo_two) 1))"
  "\<not> ks_mem ''k'' (ck_deleted (layer (mg_ws demo_two) 1))"
  by (simp_all add: demo_two_def demo_one_def demo_base_def put_new_def Let_def demo_mgr_def make_manager_def
      make_working_set_def seen_def view_def layers_def layer_def put_ck_def upto.simps ck_entry_def stored_def
      new_checkpoint_def demo_alloc_def contents_def ks_mem_def ks_discard_def kd_mem_def)

text \<open>
  C3: A pop at a checkpoint of the window, in a dictionary without \<open>wait_for_keys\<close>, never raises and
  never waits.  For a key without a value it answers key-not-found and changes nothing.  Otherwise the
  client gets exactly the value it saw.  A key bound in an older checkpoint is hidden by a deletion
  mark and its memory kept; one bound in the client's own checkpoint loses that binding, and the
  memory of its values, with that of the key unless it is persistent, leaves the pool, nothing
  more and nothing less.  In this last case, without persistence and without an earlier mark, the value
  of the checkpoint below shows through.  All other keys, and the key itself at older checkpoints, keep
  their values.
\<close>

theorem pop_returns_value:
  assumes "mg_inv s" "in_window c s" "\<not> ws_wait_for_keys (mg_ws s)"
    "client \<in> mg_clients s" "ClientConn client \<notin> mg_broken s"
  shows "\<exists>s'. perform_pop client c tag key s = (Inr True, s') \<and> mg_inv s' \<and>
    (case seen s c key of
       None \<Rightarrow> seen s' = seen s \<and> mg_live s' = mg_live s \<and>
         mg_out s' = mg_out s @ [SentMsg (ClientConn client) (DDPopResponse (mg_tag s) tag KEY_NOT_FOUND True)]
     | Some v \<Rightarrow> pop_effect s client c tag key v s')"
  by (rule perform_pop_run [OF assms])

theorem pop_returns_value_witness:
  "\<exists>s'. perform_pop 7 1 3 ''k'' demo_two = (Inr True, s') \<and> pop_effect demo_two 7 1 3 ''k'' ''w'' s'"
  using pop_returns_value [OF demo_two_inv demo_windows(4) demo_two_facts(1-3), of 3 "''k''"] demo_two_facts(4) by auto

text \<open>
  A popped key can come back: when a non-persistent key is bound both in the client's own
  checkpoint and in an older one, popping it removes only the newer binding and leaves no deletion
  mark, so the same client then sees the older value again.
\<close>

lemma pop_exposes_older:
  assumes "mg_inv s" "in_window c s" "\<not> ws_wait_for_keys (mg_ws s)"
    "client \<in> mg_clients s" "ClientConn client \<notin> mg_broken s"
    "kd_mem key (ck_map (layer (mg_ws s) c))" "\<not> ks_mem key (ck_persist (layer (mg_ws s) c))"
    "\<not> ks_mem key (ck_deleted (layer (mg_ws s) c))" "seen s c key = Some v" "seen s (c - 1) key = Some older"
  shows "\<exists>s'. perform_pop client c tag key s = (Inr True, s') \<and> seen s' c key = Some older"
  using perform_pop_run [OF assms(1-5), of tag key] assms(6-) by (auto simp: pop_effect_def)

end
