(* ===== verification/Manager.thy ===== *)
theory Manager
  imports DictOps
begin

text \<open>
  The request handlers of class \<open>Manager\<close> in \<open>data/ddict/manager.py\<close>, except the batched and broadcast
  puts (theory \<open>BatchPut\<close>) and the ones that restore or persist checkpoints (theory \<open>Restoring\<close>).

  A handler gets the fields of its request; the receive handle, with what the client streams after
  the request, is part of the state (\<open>mg_stream\<close>, \<open>mg_recv_open\<close>).  A thread the manager starts is
  recorded when it is started and runs as one step, at the latest when it is joined; a join ends
  within its timeout.
\<close>

section \<open>Deferred operations\<close>

definition set_deferred :: "int \<Rightarrow> dict_op list \<Rightarrow> mgr \<Rightarrow> mgr" where
  "set_deferred c ops s = s\<lparr>mg_deferred := AList.update c ops (mg_deferred s)\<rparr>"

definition defer_op :: "dict_op \<Rightarrow> unit mm" where
  "defer_op dop = modify (\<lambda>s. set_deferred (op_chkpt dop)
     ((case map_of (mg_deferred s) (op_chkpt dop) of None \<Rightarrow> [] | Some ops \<Rightarrow> ops) @ [dop]) s)"

text \<open>The loop of \<open>_process_deferred_ops\<close>: each operation leaves the queue before it is performed; the
  ones that were not performed are collected.  (\<open>perform\<close> defers nothing, so the queue it walks is
  the one it started with.)\<close>

fun deferred_loop :: "int \<Rightarrow> dict_op list \<Rightarrow> dict_op list \<Rightarrow> dict_op list mm" where
  "deferred_loop c [] left_overs = ret left_overs"
| "deferred_loop c (dop # ops) left_overs =
     sq (modify (set_deferred c ops))
       (bnd (perform dop) (\<lambda>performed.
          deferred_loop c ops (if performed then left_overs else left_overs @ [dop])))"

definition process_deferred_ops :: "int \<Rightarrow> unit mm" where
  "process_deferred_ops c = bnd (gets (\<lambda>s. map_of (mg_deferred s) c)) (\<lambda>q. case q of
     None \<Rightarrow> ret ()
   | Some ops \<Rightarrow> bnd (deferred_loop c ops []) (\<lambda>left_overs.
       if left_overs = [] then modify (\<lambda>s. s\<lparr>mg_deferred := AList.delete c (mg_deferred s)\<rparr>)
       else modify (set_deferred c left_overs)))"

section \<open>Threads\<close>

text \<open>What a dump writes: the pickled layer and the contents of its memory in the order of
  \<open>build_allocs\<close>.  A handle that is not alive makes it fail; the file then ends before that handle.\<close>

definition dump_content :: "checkpoint \<Rightarrow> mgr \<Rightarrow> chkpt_file \<times> chkpt_file res" where
  "dump_content ck s =
     (let pk = getstate (mg_reattach s) (mg_lists s) ck;
          mems = build_allocs (mg_lists s) ck [];
          alive = takeWhile (\<lambda>(i, m). ident m \<in> mg_live s) mems;
          file = (\<lambda>ms. \<lparr>cf_chkpt = pk, cf_mems = map (\<lambda>(i, m). (i, al_bytes m)) ms\<rparr>)
      in (file alive, if length alive = length mems then Inr (file mems) else Inl DragonMemoryError))"

definition on_persister :: "(persister, 'a) pym \<Rightarrow> 'a mm" where
  "on_persister f s = (case f (mg_persister s) of (r, ps) \<Rightarrow> (r, s\<lparr>mg_persister := ps\<rparr>))"

definition dump_chkpt :: "bool \<Rightarrow> checkpoint \<Rightarrow> unit mm" where
  "dump_chkpt force ck s =
     (case dump_content ck s of (partial, content) \<Rightarrow>
        on_persister (persister_dump force (ck_id ck) partial content) s)"

text \<open>\<open>retire_thread_func\<close>: an exception ends the thread.\<close>

definition retire_thread :: "checkpoint \<Rightarrow> unit mm" where
  "retire_thread p = try_except (sq (dump_chkpt False p) (retire p)) (\<lambda>e. ret ())"

text \<open>The streaming threads of keys, values and items; an early end of the stream is ignored, any
  other exception ends the thread.\<close>

fun sender_body :: "sender \<Rightarrow> unit mm" where
  "sender_body (SendKeys m cn ks) = sq (send_bytes m cn)
     (if msg_err m = SUCCESS then for_each ks (send_mem cn KEY_HINT False) else ret ())"
| "sender_body (SendValues m cn ls ro) = sq (send_bytes m cn)
     (if msg_err m = SUCCESS then
        for_each ls (\<lambda>l. bnd (gets (\<lambda>s. mg_lists s l)) (\<lambda>vals. for_each vals (send_mem cn VALUE_HINT False)))
      else ret ())"
| "sender_body (SendItems m cn its) = sq (send_bytes m cn)
     (if msg_err m = SUCCESS then
        for_each its (\<lambda>(k, l). sq (send_mem cn KEY_HINT False k)
          (bnd (gets (\<lambda>s. mg_lists s l)) (\<lambda>vals. for_each vals (send_mem cn VALUE_HINT False))))
      else ret ())"

definition run_sender :: "sender \<Rightarrow> unit mm" where
  "run_sender j = try_except (sender_body j) (\<lambda>e. ret ())"

section \<open>Making room\<close>

definition pool_full :: "mgr \<Rightarrow> bool" where
  "pool_full s = mg_full s (mg_live s)"

fun join_while_full :: "checkpoint list \<Rightarrow> unit mm" where
  "join_while_full [] = ret ()"
| "join_while_full (p # ps) = bnd (gets pool_full) (\<lambda>full.
     if full then sq (modify (\<lambda>s. s\<lparr>mg_persisting := ps\<rparr>)) (sq (retire_thread p) (join_while_full ps))
     else ret ())"

definition wait_room :: "unit mm" where
  "wait_room = sq (bnd (gets mg_persisting) join_while_full)
     (bnd (gets pool_full) (\<lambda>full. if full then raise DDictFullError else ret ()))"

section \<open>Put\<close>

text \<open>The loop that receives the values of a key.  Its argument is what is left of the stream.\<close>

definition set_stream :: "stream_item list \<Rightarrow> unit mm" where
  "set_stream rest = modify (\<lambda>s. s\<lparr>mg_stream := rest\<rparr>)"

fun recv_values :: "lref \<Rightarrow> stream_item list \<Rightarrow> unit mm" where
  "recv_values l [] = ret ()"
| "recv_values l (StreamRaises e # rest) =
     sq (set_stream rest) (if e = EOFError then ret () else raise e)"
| "recv_values l (Data a h # rest) =
     sq (set_stream rest)
       (bnd (move_to_pool a) (\<lambda>v.
          if h \<noteq> VALUE_HINT then raise AssertionError
          else sq (append_val l v) (recv_values l rest)))"

text \<open>The put once its arguments are there: move the window if possible, perform what waited for it,
  perform or defer this put, and perform what waited for its key.\<close>

definition put_dispatch :: "int \<Rightarrow> int \<Rightarrow> int \<Rightarrow> bool \<Rightarrow> bool \<Rightarrow> alloc \<Rightarrow> lref \<Rightarrow> unit mm" where
  "put_dispatch client c tag persist waitFor key vals =
     bnd (working_set_put c) (\<lambda>r.
     sq (if r \<noteq> None then process_deferred_ops c else ret ())
       (bnd (perform (PutOp client c tag persist key vals waitFor)) (\<lambda>performed.
          if \<not> performed then defer_op (PutOp client c tag persist key vals waitFor)
          else process_deferred_ops c)))"

definition put_stage :: "int \<Rightarrow> int \<Rightarrow> int \<Rightarrow> bool \<Rightarrow> bool \<Rightarrow> alloc \<Rightarrow> hint \<Rightarrow> lref \<Rightarrow> unit mm" where
  "put_stage client c tag persist waitFor key h vals =
     (if h \<noteq> KEY_HINT then raise AssertionError
      else sq (bnd (gets mg_stream) (recv_values vals))
        (sq recvh_close
          (bnd (gets mg_wait_for_keys) (\<lambda>wfk.
             put_dispatch client c tag (persist \<and> wfk) waitFor key vals))))"

definition put_except :: "int \<Rightarrow> int \<Rightarrow> alloc option \<Rightarrow> lref \<Rightarrow> exn \<Rightarrow> unit mm" where
  "put_except client tag key vals e =
     (if full_error e then
        sq (recover_mem key (Some vals) True)
           (respond (\<lambda>t. DDPutResponse t tag MEMORY_POOL_FULL) (buffered_conn client))
      else if e = DDictCheckpointSyncError then
        sq read_range (sq (recover_mem key (Some vals) True)
           (respond (\<lambda>t. DDPutResponse t tag DDICT_CHECKPOINT_RETIRED) (buffered_conn client)))
      else
        sq (try_except (recover_mem key (Some vals) True) (\<lambda>e. ret ()))
          (sq (respond (\<lambda>t. DDPutResponse t tag FAILURE) (buffered_conn client)) (raise RuntimeError)))"

definition put :: "int \<Rightarrow> int \<Rightarrow> int \<Rightarrow> bool \<Rightarrow> bool \<Rightarrow> unit mm" where
  "put client c tag persist waitFor = bnd (gets mg_read_only) (\<lambda>ro.
     if ro then sq (recover_mem None None True) (sq recvh_close
       (respond (\<lambda>t. DDPutResponse t tag INVALID_OPERATION) (buffered_conn client)))
     else bnd (new_list []) (\<lambda>vals.
       try_finally
         (bnd (attempt (sq wait_room recv_mem)) (\<lambda>r. case r of
            Inl e \<Rightarrow> put_except client tag None vals e
          | Inr (key, h) \<Rightarrow>
              try_except (put_stage client c tag persist waitFor key h vals)
                (put_except client tag (Some key) vals)))
         recvh_close))"

section \<open>Get, pop, contains, length, clear\<close>

definition perform_or_defer :: "dict_op \<Rightarrow> unit mm" where
  "perform_or_defer dop = bnd (perform dop) (\<lambda>performed. if performed then ret () else defer_op dop)"

definition get :: "int \<Rightarrow> int \<Rightarrow> int \<Rightarrow> bytes \<Rightarrow> bool \<Rightarrow> int \<Rightarrow> unit mm" where
  "get client c tag key fetchAdd amount =
     sq (try_except recvh_close (\<lambda>e. sq (get_error client c tag FAILURE) (raise RuntimeError)))
        (perform_or_defer (GetOp client c tag key fetchAdd amount))"

definition pop_answer :: "int \<Rightarrow> int \<Rightarrow> derr \<Rightarrow> unit mm" where
  "pop_answer client tag ec = bnd tag_inc (\<lambda>t. bnd (client_conn client) (\<lambda>cn.
     send_dmsg_and_value NoChkpt (DDPopResponse t tag ec False) cn None False))"

definition pop :: "int \<Rightarrow> int \<Rightarrow> int \<Rightarrow> bytes \<Rightarrow> unit mm" where
  "pop client c tag key = bnd (gets mg_read_only) (\<lambda>ro.
     if ro then sq (recover_mem None None True) (sq recvh_close (pop_answer client tag INVALID_OPERATION))
     else sq (try_except recvh_close (\<lambda>e. sq (pop_answer client tag FAILURE) (raise RuntimeError)))
             (perform_or_defer (PopOp client c tag key)))"

definition contains :: "int \<Rightarrow> int \<Rightarrow> int \<Rightarrow> bytes \<Rightarrow> unit mm" where
  "contains client c tag key =
     try_except (sq recvh_close (bnd (perform (ContainsOp client c tag key)) (\<lambda>_. ret ())))
       (\<lambda>e. if full_error e then
              respond (\<lambda>t. DDContainsResponse t tag MEMORY_POOL_FULL) (buffered_conn client)
            else if e = DDictCheckpointSyncError then
              sq read_range (respond (\<lambda>t. DDContainsResponse t tag DDICT_CHECKPOINT_RETIRED) (buffered_conn client))
            else sq (respond (\<lambda>t. DDContainsResponse t tag FAILURE) (buffered_conn client)) (raise RuntimeError))"

text \<open>\<open>_send_dmsg_to_children\<close>: manager \<open>i\<close> passes a request on to managers \<open>2i + 1\<close> and \<open>2i + 2\<close>.\<close>

definition send_if :: "bool \<Rightarrow> request \<Rightarrow> nat \<Rightarrow> unit mm" where
  "send_if b q j = (if b then send_msg (Forwarded q) (ManagerFLI j) else ret ())"

definition send_dmsg_to_children :: "request \<Rightarrow> unit mm" where
  "send_dmsg_to_children q = bnd (gets mg_manager_id) (\<lambda>me. bnd (gets (\<lambda>s. length (mg_managers s))) (\<lambda>n.
     sq (send_if (2 * me + 1 < n) q (2 * me + 1)) (send_if (2 * me + 2 < n) q (2 * me + 2))))"

definition get_length :: "int \<Rightarrow> int \<Rightarrow> int \<Rightarrow> string \<Rightarrow> bool \<Rightarrow> unit mm" where
  "get_length client c tag fli broadcast =
     try_except
       (sq recvh_close
         (sq (if broadcast then send_dmsg_to_children (DDLength client c tag fli broadcast) else ret ())
             (bnd (perform (LengthOp client c tag fli)) (\<lambda>_. ret ()))))
       (\<lambda>e. if e = DDictCheckpointSyncError then
              sq read_range (respond (\<lambda>t. DDLengthResponse t tag DDICT_CHECKPOINT_RETIRED 0) (resp_fli fli))
            else sq (respond (\<lambda>t. DDLengthResponse t tag FAILURE 0) (resp_fli fli)) (raise RuntimeError))"

text \<open>In a frozen dictionary \<open>clear\<close> does not close the receive handle itself.\<close>

definition clear :: "int \<Rightarrow> int \<Rightarrow> int \<Rightarrow> string \<Rightarrow> bool \<Rightarrow> unit mm" where
  "clear client c tag fli broadcast = bnd (gets mg_read_only) (\<lambda>ro.
     if ro then sq (recover_mem None None True)
       (respond (\<lambda>t. DDClearResponse t tag INVALID_OPERATION) (resp_fli fli))
     else
       sq (try_except
             (sq recvh_close
               (if broadcast then send_dmsg_to_children (DDClear client c tag fli broadcast) else ret ()))
             (\<lambda>e. sq (respond (\<lambda>t. DDClearResponse t tag FAILURE) (resp_fli fli)) (raise RuntimeError)))
          (perform_or_defer (ClearOp client c tag fli)))"

section \<open>Registering clients\<close>

text \<open>\<open>_register_with_orchestrator\<close> once the orchestrator's answer is there: its error code and the
  serialized FLIs of all managers.  The assignments of the loop body run once per manager.\<close>

definition MAX_NUM_CLIENTS_PER_MANAGER :: int where
  "MAX_NUM_CLIENTS_PER_MANAGER = 100000"

definition register_with_orchestrator :: "derr \<Rightarrow> string list \<Rightarrow> unit mm" where
  "register_with_orchestrator err managers =
     (if err \<noteq> SUCCESS then ret ()
      else modify (\<lambda>s. if managers = [] then s\<lparr>mg_managers := managers\<rparr>
        else s\<lparr>mg_managers := managers,
               mg_next_client := int (mg_manager_id s) * MAX_NUM_CLIENTS_PER_MANAGER + 1,
               mg_serving := True\<rparr>))"

definition get_next_client_id :: "int mm" where
  "get_next_client_id s = (Inr (mg_next_client s), s\<lparr>mg_next_client := mg_next_client s + 1\<rparr>)"

definition add_client :: "int \<Rightarrow> unit mm" where
  "add_client i = modify (\<lambda>s. s\<lparr>mg_clients := insert i (mg_clients s), mg_buffered := insert i (mg_buffered s)\<rparr>)"

text \<open>When closing the receive handle fails, the handler reads \<open>self._global_client_id\<close>, which does not
  exist, and the \<open>finally\<close> block then reads variables that were never bound.\<close>

definition register_client :: "int \<Rightarrow> unit mm" where
  "register_client tag =
     bnd (attempt recvh_close) (\<lambda>r. case r of
       Inl e \<Rightarrow> sq tag_inc (raise UnboundLocalError)
     | Inr _ \<Rightarrow> bnd get_next_client_id (\<lambda>client_id. sq (add_client client_id)
         (bnd tag_inc (\<lambda>t. bnd (gets (\<lambda>s. length (mg_managers s))) (\<lambda>n. bnd (gets mg_manager_id) (\<lambda>me.
            bnd (buffered_conn client_id) (send_msg (DDRegisterClientResponse t tag SUCCESS client_id n me))))))))"

text \<open>\<open>err\<close> and a \<open>finally\<close> block that answers: the answer is sent on every path, then the exception of
  the \<open>except\<close> block, if it raises one, leaves the handler.\<close>

definition answering :: "unit mm \<Rightarrow> (exn \<Rightarrow> derr) \<Rightarrow> bool \<Rightarrow> (derr \<Rightarrow> unit mm) \<Rightarrow> unit mm" where
  "answering body code reraise reply = bnd (attempt body) (\<lambda>r. case r of
     Inr _ \<Rightarrow> reply SUCCESS
   | Inl e \<Rightarrow> sq (reply (code e)) (if reraise then raise RuntimeError else ret ()))"

definition connect_to_manager :: "int \<Rightarrow> int \<Rightarrow> nat \<Rightarrow> unit mm" where
  "connect_to_manager client tag m = answering recvh_close (\<lambda>_. FAILURE) True (\<lambda>err.
     bnd tag_inc (\<lambda>t.
     bnd (lift_res (\<lambda>s. if m < length (mg_managers s) then Inr (mg_managers s ! m) else Inl IndexError)) (\<lambda>fli.
       bnd (buffered_conn client) (send_msg (DDConnectToManagerResponse t tag err fli)))))"

definition register_clientID :: "int \<Rightarrow> int \<Rightarrow> unit mm" where
  "register_clientID client tag = answering (sq recvh_close (add_client client)) (\<lambda>_. FAILURE) True (\<lambda>err.
     respond (\<lambda>t. DDRegisterClientIDResponse t tag err) (buffered_conn client))"

definition deregister_client :: "int \<Rightarrow> int \<Rightarrow> unit mm" where
  "deregister_client client tag =
     answering (sq recvh_close (bnd (client_conn client) (\<lambda>_.
         modify (\<lambda>s. s\<lparr>mg_clients := mg_clients s - {client}\<rparr>)))) (\<lambda>_. FAILURE) False (\<lambda>err.
       sq (respond (\<lambda>t. DDDeregisterClientResponse t tag err) (buffered_conn client))
          (modify (\<lambda>s. s\<lparr>mg_buffered := mg_buffered s - {client}\<rparr>)))"

definition destroy_manager :: "bool \<Rightarrow> unit mm" where
  "destroy_manager allowRestart = try_except
     (sq recvh_close (modify (\<lambda>s. s\<lparr>mg_serving := False, mg_allow_restart := allowRestart\<rparr>))) (\<lambda>e. ret ())"

section \<open>Sync, statistics, newest checkpoint\<close>

definition join_senders :: "unit mm" where
  "join_senders = bnd (gets mg_threads) (\<lambda>js. sq (for_each js run_sender) (modify (\<lambda>s. s\<lparr>mg_threads := []\<rparr>)))"

definition join_persisting :: "unit mm" where
  "join_persisting = bnd (gets mg_persisting) (\<lambda>ps.
     sq (for_each ps retire_thread) (modify (\<lambda>s. s\<lparr>mg_persisting := []\<rparr>)))"

definition sync :: "int \<Rightarrow> string \<Rightarrow> bool \<Rightarrow> unit mm" where
  "sync tag fli broadcast =
     answering
       (sq recvh_close (sq (if broadcast then send_dmsg_to_children (DDSync tag fli broadcast) else ret ())
          (sq join_senders join_persisting)))
       (\<lambda>_. FAILURE) True
       (\<lambda>err. respond (\<lambda>t. DDSyncResponse t tag err) (resp_fli fli))"

text \<open>On an exception the \<open>finally\<close> block of these two reads a variable that was not bound.\<close>

definition get_stats :: "int \<Rightarrow> string \<Rightarrow> bool \<Rightarrow> unit mm" where
  "get_stats tag fli broadcast =
     bnd (attempt (sq recvh_close
           (sq (if broadcast then send_dmsg_to_children (DDManagerStats tag fli broadcast) else ret ())
               (lift_res (\<lambda>s. key_count (mg_ws s)))))) (\<lambda>r. case r of
       Inl e \<Rightarrow> sq tag_inc (raise UnboundLocalError)
     | Inr n \<Rightarrow> respond (\<lambda>t. DDManagerStatsResponse t tag SUCCESS n) (resp_fli fli))"

definition get_newest_chkpt_id :: "int \<Rightarrow> string \<Rightarrow> bool \<Rightarrow> unit mm" where
  "get_newest_chkpt_id tag fli broadcast =
     bnd (attempt (sq recvh_close
           (sq (if broadcast then send_dmsg_to_children (DDManagerNewestChkptID tag fli broadcast) else ret ())
               (lift_res (\<lambda>s. newest_chkpt_id (mg_ws s)))))) (\<lambda>r. case r of
       Inl e \<Rightarrow> sq tag_inc (raise UnboundLocalError)
     | Inr i \<Rightarrow> respond (\<lambda>t. DDManagerNewestChkptIDResponse t tag SUCCESS i) (resp_fli fli))"

section \<open>Iterators, keys, values, items\<close>

text \<open>\<open>get_iterator\<close> creates no iterator, so \<open>self.iterators\<close> is always empty.\<close>

definition get_iterator :: "unit mm" where
  "get_iterator = recvh_close"

definition iterate_next :: "int \<Rightarrow> unit mm" where
  "iterate_next client = sq recvh_close (bnd (client_conn client) (\<lambda>_. raise KeyError))"

text \<open>The handlers for a retired checkpoint read \<open>self.client_id\<close>, which the manager does not have; the
  last handler of \<open>keys\<close> leaves out an argument of \<open>_send_dmsg_and_keys\<close>.\<close>

definition mgr_keys :: "int \<Rightarrow> int \<Rightarrow> int \<Rightarrow> string \<Rightarrow> unit mm" where
  "mgr_keys client c tag fli =
     try_except (sq recvh_close (bnd (perform (KeysOp client c tag fli)) (\<lambda>_. ret ())))
       (\<lambda>e. if e = DDictCheckpointSyncError then sq read_range (sq tag_inc (raise AttributeError))
            else sq tag_inc (bnd (client_conn client) (\<lambda>_. raise TypeError)))"

definition mgr_values :: "int \<Rightarrow> int \<Rightarrow> int \<Rightarrow> string \<Rightarrow> unit mm" where
  "mgr_values client c tag fli =
     try_except (sq recvh_close (bnd (perform (ValuesOp client c tag fli)) (\<lambda>_. ret ())))
       (\<lambda>e. if e = DDictCheckpointSyncError then sq read_range (sq tag_inc (raise AttributeError))
            else bnd tag_inc (\<lambda>t. bnd (client_conn client) (\<lambda>cn.
              sq (send_bytes (DDValuesResponse t tag FAILURE False) cn) (raise RuntimeError))))"

definition mgr_items :: "int \<Rightarrow> int \<Rightarrow> int \<Rightarrow> string \<Rightarrow> unit mm" where
  "mgr_items client c tag fli =
     try_except (sq recvh_close (bnd (perform (ItemsOp client c tag fli)) (\<lambda>_. ret ())))
       (\<lambda>e. if e = DDictCheckpointSyncError then sq read_range (sq tag_inc (raise AttributeError))
            else sq tag_inc (raise AttributeError))"

section \<open>Freezing\<close>

definition get_freeze :: "int \<Rightarrow> int \<Rightarrow> unit mm" where
  "get_freeze client tag = answering recvh_close (\<lambda>_. FAILURE) False (\<lambda>err.
     bnd (gets mg_read_only) (\<lambda>ro. respond (\<lambda>t. DDGetFreezeResponse t tag err ro) (buffered_conn client)))"

definition freeze :: "int \<Rightarrow> string \<Rightarrow> unit mm" where
  "freeze tag fli =
     answering (sq recvh_close (sq (modify (\<lambda>s. s\<lparr>mg_read_only := True\<rparr>))
                  (send_dmsg_to_children (DDFreeze tag fli))))
       (\<lambda>_. FAILURE) False
       (\<lambda>err. respond (\<lambda>t. DDFreezeResponse t tag err) (resp_fli fli))"

text \<open>\<open>unfreeze\<close> answers success on an exception too.\<close>

definition unfreeze :: "int \<Rightarrow> string \<Rightarrow> unit mm" where
  "unfreeze tag fli =
     answering (sq recvh_close (sq (modify (\<lambda>s. s\<lparr>mg_read_only := False\<rparr>))
                  (send_dmsg_to_children (DDUnFreeze tag fli))))
       (\<lambda>_. SUCCESS) False
       (\<lambda>err. respond (\<lambda>t. DDUnFreezeResponse t tag err) (resp_fli fli))"

end
