(* ===== verification/BatchPut.thy ===== *)
theory BatchPut
  imports Manager
begin

text \<open>
  Batched puts (\<open>_batch_put\<close>) and broadcast puts (\<open>_bput\<close>, \<open>_bput_batch\<close>) of
  \<open>data/ddict/manager.py\<close>.  The threads of the batched variants own their receive handle; each runs as
  one step when it is started.
\<close>

section \<open>Receiving a batch\<close>

text \<open>The inner loop: values are collected until the next key, the end of the stream, a key that has no
  value before it, or an exception; what is left of the stream comes last.\<close>

datatype vals_end = AtEOF | BadKey alloc | NextKey alloc | RecvFails exn

fun take_vals :: "stream_item list \<Rightarrow> alloc list \<Rightarrow> alloc list \<times> vals_end \<times> stream_item list" where
  "take_vals [] vs = (vs, AtEOF, [])"
| "take_vals (StreamRaises e # rest) vs = (vs, if e = EOFError then AtEOF else RecvFails e, rest)"
| "take_vals (Data a VALUE_HINT # rest) vs = take_vals rest (vs @ [a])"
| "take_vals (Data a KEY_HINT # rest) vs = (vs, if vs = [] then BadKey a else NextKey a, rest)"

lemma take_vals_shorter: "take_vals strm vs = (vs', NextKey k, rest) \<Longrightarrow> length rest < length strm"
  by (induction strm vs rule: take_vals.induct) (auto split: if_splits)

text \<open>One turn of the outer loop: \<open>store\<close> is the operation of the turn.  A key without a value before it
  is freed with the rest of the stream; an end without a value is an error.\<close>

definition batch_step :: "unit mm \<Rightarrow> alloc list \<Rightarrow> vals_end \<Rightarrow> unit mm" where
  "batch_step store vs e = (case e of
     RecvFails x \<Rightarrow> raise x
   | BadKey k \<Rightarrow> sq (recover_mem (Some k) None True) (raise RuntimeError)
   | _ \<Rightarrow> if vs = [] then raise RuntimeError else store)"

definition batch_code :: "exn \<Rightarrow> derr" where
  "batch_code e = (if full_error e then MEMORY_POOL_FULL
     else if e = DDictCheckpointSyncError then DDICT_CHECKPOINT_RETIRED
     else if e = DDictFutureCheckpointError then DDICT_FUTURE_CHECKPOINT else FAILURE)"

text \<open>The handlers of the loop build the answer, then recover the memory of the current key, of the
  current value list and of the rest of the stream.\<close>

definition batch_except :: "(derr \<Rightarrow> dmsg mm) \<Rightarrow> alloc \<Rightarrow> lref \<Rightarrow> exn \<Rightarrow> dmsg mm" where
  "batch_except resp key l e =
     sq (if e = DDictCheckpointSyncError \<or> e = DDictFutureCheckpointError then read_range else ret ())
       (bnd (resp (batch_code e)) (\<lambda>m. sq (recover_mem (Some key) (Some l) True) (ret m)))"

function (sequential) batch_loop ::
    "(alloc \<Rightarrow> lref \<Rightarrow> unit mm) \<Rightarrow> (derr \<Rightarrow> dmsg mm) \<Rightarrow> alloc \<Rightarrow> stream_item list \<Rightarrow> dmsg mm" where
  "batch_loop store resp key strm =
     (case take_vals strm [] of (vs, e, rest) \<Rightarrow>
        sq (set_stream rest) (bnd (new_list vs) (\<lambda>l.
          bnd (attempt (batch_step (store key l) vs e)) (\<lambda>r. case r of
            Inl x \<Rightarrow> batch_except resp key l x
          | Inr _ \<Rightarrow> (case e of NextKey k \<Rightarrow> batch_loop store resp k rest | _ \<Rightarrow> resp SUCCESS)))))"
  by pat_completeness auto
termination
  by (relation "measure (\<lambda>(store, resp, key, strm). length strm)")
     (auto dest: take_vals_shorter [OF sym] take_vals_shorter)

declare batch_loop.simps [simp del]

section \<open>Batched puts\<close>

definition before_put :: "int \<Rightarrow> unit mm" where
  "before_put c = bnd (working_set_put c) (\<lambda>r. if r \<noteq> None then process_deferred_ops c else ret ())"

definition batch_store :: "int \<Rightarrow> int \<Rightarrow> int \<Rightarrow> bool \<Rightarrow> alloc \<Rightarrow> lref \<Rightarrow> unit mm" where
  "batch_store client c tag persist key l =
     sq (before_put c)
       (sq (perform (BatchPutOp client c tag persist key l)) (sq (process_deferred_ops c) wait_room))"

definition batch_resp :: "int \<Rightarrow> int \<Rightarrow> derr \<Rightarrow> dmsg mm" where
  "batch_resp client tag err = bnd tag_inc (\<lambda>t.
     bnd (lift_res (\<lambda>s. d_item client (mg_num_batch_puts s))) (\<lambda>n.
     bnd (gets mg_manager_id) (\<lambda>me. ret (DDBatchPutResponse t tag err n me))))"

definition batch_main :: "int \<Rightarrow> int \<Rightarrow> int \<Rightarrow> bool \<Rightarrow> dmsg mm" where
  "batch_main client c tag persist = sq wait_room (bnd recv_mem (\<lambda>(key, h).
     if h \<noteq> KEY_HINT then raise AssertionError
     else sq (modify (\<lambda>s. s\<lparr>mg_num_batch_puts := AList.update client 0 (mg_num_batch_puts s)\<rparr>))
       (bnd (gets mg_wait_for_keys) (\<lambda>wfk. bnd (gets mg_stream)
          (batch_loop (batch_store client c tag (persist \<and> wfk)) (batch_resp client tag) key)))))"

text \<open>The \<open>finally\<close> block: the counter is deleted and the answer, if there is one, sent.\<close>

definition batch_finish :: "int \<Rightarrow> dmsg option \<Rightarrow> unit mm" where
  "batch_finish client resp =
     sq (try_except recvh_close (\<lambda>e. ret ()))
       (bnd (lift_res (\<lambda>s. d_del client (mg_num_batch_puts s))) (\<lambda>d.
        sq (modify (\<lambda>s. s\<lparr>mg_num_batch_puts := d\<rparr>))
          (case resp of None \<Rightarrow> raise UnboundLocalError
           | Some m \<Rightarrow> bnd (buffered_conn client) (send_msg m))))"

definition batch_put_thread :: "int \<Rightarrow> int \<Rightarrow> int \<Rightarrow> bool \<Rightarrow> unit mm" where
  "batch_put_thread client c tag persist = bnd (gets mg_read_only) (\<lambda>ro.
     if ro then sq (recover_mem None None True) (sq recvh_close
       (bnd (gets mg_manager_id) (\<lambda>me.
          respond (\<lambda>t. DDBatchPutResponse t tag INVALID_OPERATION 0 me) (buffered_conn client))))
     else bnd (attempt (batch_main client c tag persist)) (\<lambda>r. case r of
       Inr m \<Rightarrow> batch_finish client (Some m)
     | Inl e \<Rightarrow> sq (batch_finish client None) (raise RuntimeError)))"

definition batch_put :: "int \<Rightarrow> int \<Rightarrow> int \<Rightarrow> bool \<Rightarrow> unit mm" where
  "batch_put client c tag persist = try_except (batch_put_thread client c tag persist) (\<lambda>e. ret ())"

section \<open>Broadcast puts\<close>

text \<open>The managers a broadcast put is passed on to: \<open>managers[1:]\<close> is split in halves, each half goes to
  its first member.\<close>

definition bput_children :: "nat list \<Rightarrow> nat list list" where
  "bput_children managers =
     (let rest = drop 1 managers; mid = length rest div 2
      in filter (\<lambda>ms. ms \<noteq> []) [take mid rest, drop mid rest])"

definition open_child :: "int \<Rightarrow> int \<Rightarrow> int \<Rightarrow> string \<Rightarrow> bool \<Rightarrow> nat list \<Rightarrow> unit mm" where
  "open_child tag client c fli batch ms =
     bnd (lift_res (\<lambda>s. if hd ms < length (mg_managers s) then Inr () else Inl IndexError)) (\<lambda>_.
       send_bytes (Forwarded (DDBPut tag client c fli ms batch)) (ManagerFLI (hd ms)))"

definition stream_to_child :: "alloc \<Rightarrow> lref \<Rightarrow> nat list \<Rightarrow> unit mm" where
  "stream_to_child key l ms =
     sq (send_mem (ManagerFLI (hd ms)) KEY_HINT False key)
       (bnd (gets (\<lambda>s. mg_lists s l)) (\<lambda>vals. for_each vals (send_mem (ManagerFLI (hd ms)) VALUE_HINT False)))"

text \<open>\<open>_bput\<close>: the put of one key.  The persist flag of the request is not used.\<close>

definition bput_stage :: "int \<Rightarrow> int \<Rightarrow> int \<Rightarrow> string \<Rightarrow> nat list \<Rightarrow> bool \<Rightarrow> alloc \<Rightarrow> hint \<Rightarrow> lref \<Rightarrow> unit mm" where
  "bput_stage client c tag fli managers batch key h vals =
     (if h \<noteq> KEY_HINT then raise AssertionError
      else sq (bnd (gets mg_stream) (recv_values vals))
        (sq recvh_close
          (sq (for_each (bput_children managers) (\<lambda>ms.
                 sq (open_child tag client c fli batch ms) (stream_to_child key vals ms)))
            (sq (before_put c)
              (bnd (perform (BPutOp client c tag False key vals fli)) (\<lambda>performed.
                 if \<not> performed then defer_op (BPutOp client c tag False key vals fli)
                 else process_deferred_ops c))))))"

definition bput_except :: "int \<Rightarrow> string \<Rightarrow> alloc option \<Rightarrow> lref \<Rightarrow> exn \<Rightarrow> unit mm" where
  "bput_except tag fli key vals e = bnd (gets mg_manager_id) (\<lambda>me.
     if full_error e then
       sq (recover_mem key (Some vals) True)
          (respond (\<lambda>t. DDBPutResponse t tag MEMORY_POOL_FULL 1 me) (resp_fli fli))
     else if e = DragonFLIObjectDestroyed then
       sq (recover_mem key (Some vals) True)
          (respond (\<lambda>t. DDBPutResponse t tag OBJECT_DESTROYED 1 me) (resp_fli fli))
     else if e = DDictCheckpointSyncError then
       sq read_range (sq (recover_mem key (Some vals) True)
          (respond (\<lambda>t. DDBPutResponse t tag DDICT_CHECKPOINT_RETIRED 1 me) (resp_fli fli)))
     else raise e)"

text \<open>The outer handler tries to send an answer that was not built, or whose sending just failed; either
  way nothing is sent.\<close>

definition bput_frozen :: "int \<Rightarrow> string \<Rightarrow> unit mm" where
  "bput_frozen tag fli = sq (recover_mem None None True) (sq recvh_close
     (bnd (gets mg_manager_id) (\<lambda>me.
        respond (\<lambda>t. DDBPutResponse t tag INVALID_OPERATION 0 me) (resp_fli fli))))"

definition bput_single :: "int \<Rightarrow> int \<Rightarrow> int \<Rightarrow> string \<Rightarrow> nat list \<Rightarrow> unit mm" where
  "bput_single client c tag fli managers = bnd (gets mg_read_only) (\<lambda>ro.
     if ro then bput_frozen tag fli
     else bnd (new_list []) (\<lambda>vals.
       try_finally
         (try_except
           (bnd (attempt (sq wait_room recv_mem)) (\<lambda>r. case r of
              Inl e \<Rightarrow> bput_except tag fli None vals e
            | Inr (key, h) \<Rightarrow>
                try_except (bput_stage client c tag fli managers False key h vals)
                  (bput_except tag fli (Some key) vals)))
           (\<lambda>e. raise RuntimeError))
         recvh_close))"

text \<open>\<open>_bput_batch\<close>: the children are opened first, then each key goes to them and into this manager.\<close>

definition bput_store :: "int \<Rightarrow> int \<Rightarrow> nat list list \<Rightarrow> alloc \<Rightarrow> lref \<Rightarrow> unit mm" where
  "bput_store client c children key l =
     sq (for_each children (stream_to_child key l))
       (sq (before_put c) (sq (perform (BPutBatchOp client c False key l)) (process_deferred_ops c)))"

definition bput_resp :: "int \<Rightarrow> int \<Rightarrow> derr \<Rightarrow> dmsg mm" where
  "bput_resp client tag err = bnd tag_inc (\<lambda>t.
     bnd (lift_res (\<lambda>s. d_item client (mg_num_bput s))) (\<lambda>n.
     bnd (gets mg_manager_id) (\<lambda>me. ret (DDBPutResponse t tag err n me))))"

definition bput_batch_main :: "int \<Rightarrow> int \<Rightarrow> int \<Rightarrow> string \<Rightarrow> nat list \<Rightarrow> dmsg mm" where
  "bput_batch_main client c tag fli managers =
     sq wait_room
       (sq (for_each (bput_children managers) (open_child tag client c fli True))
         (bnd recv_mem (\<lambda>(key, h).
            if h \<noteq> KEY_HINT then raise AssertionError
            else bnd (gets mg_stream)
              (batch_loop (bput_store client c (bput_children managers)) (bput_resp client tag) key))))"

text \<open>The outer handlers give the answer and whether the exit was abnormal.\<close>

definition bput_batch_except :: "int \<Rightarrow> int \<Rightarrow> exn \<Rightarrow> (dmsg \<times> bool) mm" where
  "bput_batch_except client tag e =
     (if e = EOFError \<or> full_error e \<or> e = DragonFLIObjectDestroyed then
        bnd (bput_resp client tag (if e = EOFError then EOT else if full_error e then MEMORY_POOL_FULL
                                   else OBJECT_DESTROYED))
          (\<lambda>m. sq (recover_mem None None True) (ret (m, False)))
      else bnd (bput_resp client tag FAILURE) (\<lambda>m. ret (m, True)))"

definition bput_batch_finish :: "int \<Rightarrow> string \<Rightarrow> dmsg \<times> bool \<Rightarrow> unit mm" where
  "bput_batch_finish client fli resp = (case resp of (m, abnormal_exited) \<Rightarrow>
     sq (try_except recvh_close (\<lambda>e. ret ()))
       (sq (try_except
              (sq (send_msg m (RespFLI fli))
                (bnd (lift_res (\<lambda>s. d_del client (mg_num_bput s))) (\<lambda>d. modify (\<lambda>s. s\<lparr>mg_num_bput := d\<rparr>))))
              (\<lambda>e. if abnormal_exited then ret () else raise e))
           (if abnormal_exited then raise RuntimeError else ret ())))"

definition bput_batch_thread :: "int \<Rightarrow> int \<Rightarrow> int \<Rightarrow> string \<Rightarrow> nat list \<Rightarrow> unit mm" where
  "bput_batch_thread client c tag fli managers =
     sq (modify (\<lambda>s. s\<lparr>mg_num_bput := AList.update client 0 (mg_num_bput s)\<rparr>))
       (bnd (gets mg_read_only) (\<lambda>ro.
          if ro then bput_frozen tag fli
          else bnd (attempt (bput_batch_main client c tag fli managers)) (\<lambda>r. case r of
            Inr m \<Rightarrow> bput_batch_finish client fli (m, False)
          | Inl e \<Rightarrow> bnd (bput_batch_except client tag e) (bput_batch_finish client fli))))"

definition bput :: "int \<Rightarrow> int \<Rightarrow> int \<Rightarrow> string \<Rightarrow> nat list \<Rightarrow> bool \<Rightarrow> unit mm" where
  "bput client c tag fli managers batch =
     (if batch then try_except (bput_batch_thread client c tag fli managers) (\<lambda>e. ret ())
      else bput_single client c tag fli managers)"

end
