(* ===== verification/Restoring.thy ===== *)
theory Restoring
  imports Manager
begin

text \<open>
  Persisted checkpoints: \<open>PosixCheckpointPersister.load\<close> of \<open>data/ddict/ddict.py\<close>, the parts of
  \<open>WorkingSet\<close> that restore a checkpoint, and the handlers \<open>restore\<close>, \<open>advance\<close>, \<open>persist_chkpts\<close>,
  \<open>chkpt_avail\<close>, \<open>persisted_chkpt_avail\<close> and \<open>persist\<close> of \<open>data/ddict/manager.py\<close>.
\<close>

section \<open>Loading\<close>

text \<open>Each record of the file becomes memory of the pool; contents of length zero cannot be read back.
  What was allocated before a failure is not freed.\<close>

fun load_mems :: "(nat \<times> bytes) list \<Rightarrow> (nat, alloc) pydict \<Rightarrow> (nat, alloc) pydict mm" where
  "load_mems [] indirect = ret indirect"
| "load_mems ((i, b) # ms) indirect = bnd (alloc_from_bytes b) (\<lambda>m.
     if b = [] then raise RuntimeError else load_mems ms (AList.update i m indirect))"

text \<open>The value lists of the redirected map become list objects.\<close>

fun make_lists :: "alloc list kdict \<Rightarrow> lref kdict mm" where
  "make_lists [] = ret []"
| "make_lists ((k, vs) # d) = bnd (new_list vs) (\<lambda>l. bnd (make_lists d) (\<lambda>r. ret ((k, l) # r)))"

definition rebuild_ck :: "pickled \<Rightarrow> (nat, alloc) pydict \<Rightarrow> checkpoint mm" where
  "rebuild_ck pk indirect = bnd (lift_res (\<lambda>_. redirect indirect pk)) (\<lambda>rd.
     bnd (make_lists (rd_map rd)) (\<lambda>m.
       ret \<lparr>ck_id = pk_id pk, ck_key_allocs = rd_key_allocs rd, ck_map = m, ck_deleted = rd_deleted rd,
            ck_persist = rd_persist rd, ck_writers = pk_writers pk, ck_kvs_to_clear = [],
            ck_reattach = None\<rparr>))"

text \<open>\<open>load\<close>, for a file that was pickled without reattaching (every dump is).\<close>

definition persister_load :: "bool \<Rightarrow> checkpoint mm" where
  "persister_load cleanup = bnd (lift_res (\<lambda>s. open_current (mg_persister s))) (\<lambda>cf.
     bnd (load_mems (cf_mems cf) []) (\<lambda>indirect.
     bnd (rebuild_ck (cf_chkpt cf) indirect) (\<lambda>ck.
       sq (if cleanup then on_persister cleanup_later_chkpts else ret ()) (ret ck))))"

section \<open>Restoring into the window\<close>

definition clear_states :: "unit mm" where
  "clear_states = bnd (gets (\<lambda>s. d_keys (ws_chkpts (mg_ws s)))) (\<lambda>ids.
     sq (for_each ids clear_ck)
        (modify (upd_ws (\<lambda>ws. ws\<lparr>ws_chkpts := [], ws_next_id := 0\<rparr>))))"

definition restored_window :: "bool \<Rightarrow> checkpoint \<Rightarrow> working_set \<Rightarrow> working_set" where
  "restored_window ro ck ws =
     (let cks = AList.update (ck_id ck) ck (ws_chkpts ws) in
      if ro then ws\<lparr>ws_chkpts := cks, ws_next_id := ck_id ck\<rparr>
      else ws\<lparr>ws_chkpts := fold (\<lambda>i. AList.update i (new_checkpoint i))
                             [ck_id ck + 1..ck_id ck + ws_size ws - 1] cks,
              ws_next_id := ck_id ck + ws_size ws\<rparr>)"

definition clear_and_add_restored_chkpt :: "checkpoint \<Rightarrow> unit mm" where
  "clear_and_add_restored_chkpt ck = sq clear_states
     (bnd (gets (\<lambda>s. ws_read_only (mg_ws s))) (\<lambda>ro. case ro of
        None \<Rightarrow> sq (modify (upd_ws (\<lambda>ws. ws\<lparr>ws_chkpts := AList.update (ck_id ck) ck (ws_chkpts ws)\<rparr>)))
                  (raise AttributeError)
      | Some b \<Rightarrow> modify (upd_ws (restored_window b ck))))"

section \<open>Handlers\<close>

definition persist_code :: "exn \<Rightarrow> derr" where
  "persist_code e = (if e = DDictPersistCheckpointError then DDICT_PERSIST_CHECKPOINT_UNAVAILABLE else FAILURE)"

definition restore :: "int \<Rightarrow> int \<Rightarrow> int \<Rightarrow> string \<Rightarrow> unit mm" where
  "restore c client tag fli =
     answering
       (sq recvh_close
         (sq (send_dmsg_to_children (DDRestore c client tag fli))
           (sq (on_persister (persister_position c))
             (bnd (gets mg_read_only) (\<lambda>ro. bnd (persister_load (\<not> ro)) clear_and_add_restored_chkpt)))))
       persist_code False
       (\<lambda>err. sq recvh_close (respond (\<lambda>t. DDRestoreResponse t tag err) (resp_fli fli)))"

text \<open>\<open>advance\<close> is allowed in read-only mode only; the early return still answers.\<close>

definition advance_reply :: "int \<Rightarrow> string \<Rightarrow> derr \<Rightarrow> unit mm" where
  "advance_reply tag fli err = sq recvh_close (bnd tag_inc (\<lambda>t.
     bnd (gets (\<lambda>s. current_chkpt (mg_persister s))) (\<lambda>cur.
       send_msg (DDAdvanceResponse t tag err cur) (RespFLI fli))))"

definition mgr_advance :: "int \<Rightarrow> int \<Rightarrow> string \<Rightarrow> unit mm" where
  "mgr_advance client tag fli =
     bnd (attempt (sq recvh_close (bnd (gets mg_read_only) (\<lambda>ro.
            if \<not> ro then ret INVALID_OPERATION
            else sq (send_dmsg_to_children (DDAdvance client tag fli))
                   (sq (on_persister persister_advance) (ret SUCCESS)))))) (\<lambda>r. case r of
       Inr err \<Rightarrow> advance_reply tag fli err
     | Inl e \<Rightarrow> advance_reply tag fli (persist_code e))"

definition persist_chkpts :: "int \<Rightarrow> int \<Rightarrow> string \<Rightarrow> unit mm" where
  "persist_chkpts client tag fli = sq recvh_close
     (sq (send_dmsg_to_children (DDPersistChkpts client tag fli))
        (bnd (gets (\<lambda>s. persister_checkpoints (mg_persister s))) (\<lambda>cs.
           respond (\<lambda>t. DDPersistChkptsResponse t tag SUCCESS cs) (resp_fli fli))))"

definition mgr_chkpt_avail :: "int \<Rightarrow> int \<Rightarrow> string \<Rightarrow> unit mm" where
  "mgr_chkpt_avail c tag fli = sq recvh_close
     (sq (send_dmsg_to_children (DDChkptAvail c tag fli))
        (bnd (gets (\<lambda>s. chkpt_avail c (mg_ws s))) (\<lambda>b. bnd (gets mg_manager_id) (\<lambda>me.
           respond (\<lambda>t. DDChkptAvailResponse t tag SUCCESS b me) (resp_fli fli)))))"

definition persisted_chkpt_avail :: "int \<Rightarrow> int \<Rightarrow> string \<Rightarrow> unit mm" where
  "persisted_chkpt_avail c tag fli = sq recvh_close
     (sq (send_dmsg_to_children (DDPersistedChkptAvail c tag fli))
        (bnd (gets (\<lambda>s. c \<in> set (persister_checkpoints (mg_persister s)))) (\<lambda>b. bnd (gets mg_manager_id) (\<lambda>me.
           respond (\<lambda>t. DDPersistedChkptAvailResponse t tag SUCCESS b me) (resp_fli fli)))))"

text \<open>\<open>_force_persist\<close>: when the dump fails the manager's \<open>_reattach\<close> stays \<open>False\<close>.\<close>

definition force_persist :: "int \<Rightarrow> unit mm" where
  "force_persist c = bnd (get_ck c) (\<lambda>ck. bnd (gets mg_reattach) (\<lambda>reattach.
     sq (modify (\<lambda>s. s\<lparr>mg_reattach := False\<rparr>))
       (sq (dump_chkpt True ck) (modify (\<lambda>s. s\<lparr>mg_reattach := reattach\<rparr>)))))"

definition mgr_persist :: "int \<Rightarrow> int \<Rightarrow> string \<Rightarrow> unit mm" where
  "mgr_persist c tag fli =
     answering
       (sq recvh_close (sq (send_dmsg_to_children (DDPersist c tag fli)) (force_persist c)))
       (\<lambda>_. FAILURE) False
       (\<lambda>err. sq recvh_close (respond (\<lambda>t. DDPersistResponse t tag err) (resp_fli fli)))"

end
