(* ===== verification/Keeping.thy ===== *)
theory Keeping
  imports Prelude
begin

text \<open>
  A method keeps an observation of the state when the observation is the same after it, whether it
  returned or raised.  The rules lift this through the control structures, so that a method keeps what its
  parts keep.
\<close>

definition keeps :: "('s \<Rightarrow> 'o) \<Rightarrow> ('s, 'a) pym \<Rightarrow> bool" where
  "keeps f m \<longleftrightarrow> (\<forall>s. f (snd (m s)) = f s)"

lemma keepsI: "(\<And>s. f (snd (m s)) = f s) \<Longrightarrow> keeps f m"
  by (simp add: keeps_def)

lemma keepsD: "keeps f m \<Longrightarrow> m s = (r, t) \<Longrightarrow> f t = f s"
  by (metis keeps_def snd_conv)

named_theorems keeps_rules

lemma keeps_basic [keeps_rules]:
  "keeps f (ret x)" "keeps f (raise e)" "keeps f (gets g)" "keeps f (lift_res h)"
  by (simp_all add: keeps_def)

lemma keeps_modify [keeps_rules]: "(\<And>s. f (g s) = f s) \<Longrightarrow> keeps f (modify g)"
  by (simp add: keeps_def)

lemma keeps_bnd [keeps_rules]: "keeps f m \<Longrightarrow> (\<And>x. keeps f (g x)) \<Longrightarrow> keeps f (bnd m g)"
  by (simp add: keeps_def bnd_apply split: prod.splits sum.splits) (metis snd_conv)

lemma keeps_sq [keeps_rules]: "keeps f m \<Longrightarrow> keeps f n \<Longrightarrow> keeps f (sq m n)"
  unfolding sq_def by (rule keeps_bnd)

lemma keeps_try_except [keeps_rules]: "keeps f m \<Longrightarrow> (\<And>e. keeps f (h e)) \<Longrightarrow> keeps f (try_except m h)"
  by (simp add: keeps_def try_except_apply split: prod.splits sum.splits) (metis snd_conv)

lemma keeps_try_finally [keeps_rules]: "keeps f m \<Longrightarrow> keeps f n \<Longrightarrow> keeps f (try_finally m n)"
  by (simp add: keeps_def try_finally_apply split: prod.splits sum.splits) (metis snd_conv)

lemma keeps_attempt [keeps_rules]: "keeps f m \<Longrightarrow> keeps f (attempt m)"
  by (simp add: keeps_def attempt_apply split: prod.splits) (metis snd_conv)

lemma keeps_for_each [keeps_rules]: "(\<And>x. keeps f (g x)) \<Longrightarrow> keeps f (for_each xs g)"
  by (induction xs) (auto intro: keeps_rules)

lemma keeps_if [keeps_rules]: "(b \<Longrightarrow> keeps f m) \<Longrightarrow> (\<not> b \<Longrightarrow> keeps f n) \<Longrightarrow> keeps f (if b then m else n)"
  by simp

lemma keeps_option [keeps_rules]:
  "(x = None \<Longrightarrow> keeps f m) \<Longrightarrow> (\<And>y. x = Some y \<Longrightarrow> keeps f (g y)) \<Longrightarrow>
   keeps f (case x of None \<Rightarrow> m | Some y \<Rightarrow> g y)"
  by (cases x) auto

lemma keeps_sum [keeps_rules]:
  "(\<And>y. x = Inl y \<Longrightarrow> keeps f (g y)) \<Longrightarrow> (\<And>y. x = Inr y \<Longrightarrow> keeps f (h y)) \<Longrightarrow>
   keeps f (case x of Inl y \<Rightarrow> g y | Inr y \<Rightarrow> h y)"
  by (cases x) auto

lemma keeps_prod [keeps_rules]: "(\<And>y z. x = (y, z) \<Longrightarrow> keeps f (g y z)) \<Longrightarrow> keeps f (case x of (y, z) \<Rightarrow> g y z)"
  by (cases x) auto

end
