(* ===== verification/Frames.thy ===== *)
theory Frames
  imports BatchPut Restoring Keeping
begin

text \<open>
  What the operations of a manager leave alone.
\<close>

lemma keeps_chkpt_arg [keeps_rules]:
  "keeps f m \<Longrightarrow> (\<And>i. keeps f (g i)) \<Longrightarrow> (\<And>i. keeps f (h i)) \<Longrightarrow>
   keeps f (case x of NoChkpt \<Rightarrow> m | Chkpt i \<Rightarrow> g i | ChkptID i \<Rightarrow> h i)"
  by (cases x) auto

lemma keeps_vals_end [keeps_rules]:
  "keeps f m \<Longrightarrow> (\<And>k. keeps f (g k)) \<Longrightarrow> (\<And>k. x = NextKey k \<Longrightarrow> keeps f (h k)) \<Longrightarrow> (\<And>e. keeps f (j e)) \<Longrightarrow>
   keeps f (case x of AtEOF \<Rightarrow> m | BadKey k \<Rightarrow> g k | NextKey k \<Rightarrow> h k | RecvFails e \<Rightarrow> j e)"
  by (cases x) auto

section \<open>The control part of a manager\<close>

text \<open>Everything that is neither data, nor output, nor a thread: no operation of the dictionary changes
  it.\<close>

definition ctl :: "mgr \<Rightarrow> (int, dict_op list) pydict \<times> bool \<times> int set \<times> int set \<times> int \<times> bool \<times> bool \<times> nat \<times>
    string list \<times> bool \<times> conn set \<times> exn option" where
  "ctl s = (mg_deferred s, mg_read_only s, mg_clients s, mg_buffered s, mg_next_client s, mg_serving s,
            mg_allow_restart s, mg_manager_id s, mg_managers s, mg_wait_for_keys s, mg_broken s, mg_close_error s)"

lemma ctl_upd [simp]:
  "ctl (s\<lparr>mg_live := a\<rparr>) = ctl s" "ctl (s\<lparr>mg_lists := b\<rparr>) = ctl s" "ctl (s\<lparr>mg_next_lref := c\<rparr>) = ctl s"
  "ctl (s\<lparr>mg_ws := d\<rparr>) = ctl s" "ctl (s\<lparr>mg_tag := e\<rparr>) = ctl s" "ctl (s\<lparr>mg_out := f\<rparr>) = ctl s"
  "ctl (s\<lparr>mg_stream := g\<rparr>) = ctl s" "ctl (s\<lparr>mg_recv_open := h\<rparr>) = ctl s"
  "ctl (s\<lparr>mg_num_batch_puts := i\<rparr>) = ctl s" "ctl (s\<lparr>mg_num_bput := j\<rparr>) = ctl s"
  "ctl (s\<lparr>mg_threads := k\<rparr>) = ctl s" "ctl (s\<lparr>mg_persisting := l\<rparr>) = ctl s"
  "ctl (s\<lparr>mg_persister := m\<rparr>) = ctl s" "ctl (s\<lparr>mg_reattach := n\<rparr>) = ctl s"
  by (simp_all add: ctl_def)

lemma ctl_upd_ws [simp]: "ctl (upd_ws f s) = ctl s" and ctl_emit [simp]: "ctl (emit e s) = ctl s"
  by (simp_all add: upd_ws_def emit_def)

lemma ctl_eq:
  assumes "ctl t = ctl s"
  shows "mg_deferred t = mg_deferred s" "mg_read_only t = mg_read_only s" "mg_clients t = mg_clients s"
    "mg_buffered t = mg_buffered s" "mg_manager_id t = mg_manager_id s" "mg_managers t = mg_managers s"
    "mg_wait_for_keys t = mg_wait_for_keys s" "mg_broken t = mg_broken s"
    "mg_serving t = mg_serving s" "mg_next_client t = mg_next_client s" "mg_close_error t = mg_close_error s"
  using assms by (simp_all add: ctl_def)

lemma ctl_primitives [keeps_rules]:
  "keeps ctl (free_mem a)" "keeps ctl (alloc_from_bytes b)" "keeps ctl (read_mem a)" "keeps ctl (new_list xs)"
  "keeps ctl (working_set_put c)" "keeps ctl (working_set_access c)" "keeps ctl (note_writer w c)"
  "keeps ctl tag_inc" "keeps ctl (send_msg m cn)" "keeps ctl (send_bytes m cn)" "keeps ctl (send_mem cn h tr a)"
  "keeps ctl recv_mem" "keeps ctl recvh_close"
  by (auto simp: keeps_def free_mem_def alloc_from_bytes_def read_mem_def new_list_def working_set_put_def
      working_set_access_def note_writer_def tag_inc_def send_msg_def send_bytes_def send_mem_def recv_mem_def
      recvh_close_def Let_def split: prod.splits option.splits list.splits stream_item.splits)

lemma ctl_on_persister [keeps_rules]: "keeps ctl (on_persister f)"
  by (simp add: keeps_def on_persister_def split: prod.splits)

lemma ctl_helpers [keeps_rules]:
  "keeps ctl (pop_val l)" "keeps ctl (append_val l a)" "keeps ctl (get_ck i)" "keeps ctl (move_bytes_to_pool b)"
  "keeps ctl (client_conn k)" "keeps ctl (buffered_conn k)" "keeps ctl (working_set_get b c)" "keeps ctl read_range"
  "keeps ctl (start_sender j)" "keeps ctl (resp_fli f)" "keeps ctl (set_stream r)"
  unfolding pop_val_def append_val_def get_ck_def move_bytes_to_pool_def client_conn_def buffered_conn_def
    working_set_get_def read_range_def start_sender_def resp_fli_def set_stream_def
  by (intro keeps_rules; simp)+

lemma ctl_value_to_bytes [keeps_rules]: "keeps ctl (value_to_bytes vs)"
  by (induction vs) (unfold value_to_bytes.simps, (intro keeps_rules; assumption?)+)

lemma ctl_drain [keeps_rules]: "keeps ctl (drain xs)"
proof (rule keepsI)
  show "ctl (snd (drain xs s)) = ctl s" for s
    by (induction xs s rule: drain.induct)
       (auto simp: free_mem_def split: prod.splits sum.splits)
qed

lemma ctl_memory [keeps_rules]:
  "keeps ctl (move_to_pool a)" "keeps ctl (free_list l)" "keeps ctl (free_list_quietly l)" "keeps ctl (upd_ck i f)"
  "keeps ctl (check_for_key_existence_before_free a)"
  unfolding move_to_pool_def free_list_def free_list_quietly_def upd_ck_def check_for_key_existence_before_free_def
  by (intro keeps_rules; simp)+

lemma ctl_layers [keeps_rules]:
  "keeps ctl (contains_key_and_free i a)" "keeps ctl (clear_key i a)" "keeps ctl (retire_key p a)"
  "keeps ctl (finish_transfer i a)" "keeps ctl (recover_args key vals)"
  unfolding contains_key_and_free_def clear_key_def retire_key_def finish_transfer_def recover_args_def
  by (intro keeps_rules; simp)+

lemma ctl_layers2 [keeps_rules]:
  "keeps ctl (clear_ck i)" "keeps ctl (retire p)" "keeps ctl (send_dmsg_and_value arg m cn km tr)"
  "keeps ctl (recover_mem key vals b)"
  unfolding clear_ck_def retire_def send_dmsg_and_value_def recover_mem_def
  by (intro keeps_rules; simp)+

lemma ctl_respond [keeps_rules]: "keeps ctl cn \<Longrightarrow> keeps ctl (respond mk cn)"
  unfolding respond_def by (intro keeps_rules)

lemma ctl_put_parts [keeps_rules]:
  "keeps ctl (wait_for_perform i key vals)" "keeps ctl (replace_old i key)"
  unfolding wait_for_perform_def replace_old_def by (intro keeps_rules; simp)+

lemma ctl_put_store [keeps_rules]: "keeps ctl (put_store i client persist key vals)"
  unfolding put_store_def by (intro keeps_rules)

lemma ctl_puts [keeps_rules]:
  "keeps ctl (put_perform client c persist key vals w)" "keeps ctl (batch_put_perform client c persist key vals)"
  unfolding put_perform_def batch_put_perform_def by (intro keeps_rules)+

lemma ctl_perform_puts [keeps_rules]:
  "keeps ctl (perform_put client c tag persist key vals w)" "keeps ctl (perform_batch_put client c persist key vals)"
  "keeps ctl (perform_bput_batch client c persist key vals)" "keeps ctl (perform_bput client c tag persist key vals fli)"
  unfolding perform_put_def perform_batch_put_def perform_bput_batch_def perform_bput_def
  by (intro keeps_rules; simp)+

lemma ctl_fetch [keeps_rules]:
  "keeps ctl (fetch_existing i key)" "keeps ctl (fetch_new i b)" "keeps ctl (fetch_finish i key l v)"
  "keeps ctl (get_reply client c tag i ec km)" "keeps ctl (get_error client c tag ec)"
  unfolding fetch_existing_def fetch_new_def fetch_finish_def get_reply_def get_error_def
  by (intro keeps_rules)+

lemma ctl_fetch_prepare [keeps_rules]: "keeps ctl (fetch_prepare b c)"
  unfolding fetch_prepare_def by (intro keeps_rules)

lemma ctl_get [keeps_rules]:
  "keeps ctl (plain_get client c tag key)" "keeps ctl (fetch_add_get client c tag key amount)"
  unfolding plain_get_def fetch_add_get_def by (intro keeps_rules)+

lemma ctl_pop_parts [keeps_rules]:
  "keeps ctl (pop_reply client tag i ec km tr)" "keeps ctl (mark_deleted client c i key)"
  unfolding pop_reply_def mark_deleted_def by (intro keeps_rules)+

lemma ctl_pop_found [keeps_rules]: "keeps ctl (pop_found client c tag i key)"
  unfolding pop_found_def by (intro keeps_rules)

lemma ctl_plain_pop [keeps_rules]: "keeps ctl (plain_pop client c tag key)"
  unfolding plain_pop_def by (intro keeps_rules)

lemma ctl_contains_code [keeps_rules]: "keeps ctl (contains_code key c)"
  unfolding contains_code_def by (intro keeps_rules)

lemma ctl_performs [keeps_rules]:
  "keeps ctl (perform_get client c tag key fa amount)" "keeps ctl (perform_pop client c tag key)"
  "keeps ctl (perform_contains client c tag key)" "keeps ctl (perform_length client c tag fli)"
  "keeps ctl (perform_keys client c tag fli)" "keeps ctl (perform_values client c tag fli)"
  "keeps ctl (perform_items client c tag fli)" "keeps ctl (perform_clear client c tag fli)"
  unfolding perform_get_def perform_pop_def perform_contains_def perform_length_def perform_keys_def
    perform_values_def perform_items_def perform_clear_def
  by (intro keeps_rules)+

lemma ctl_perform [keeps_rules]: "keeps ctl (perform dop)"
  by (cases dop) (simp_all add: keeps_rules)

end
