(* ===== verification/Deferral.thy ===== *)
theory Deferral
  imports Frames PutGet
begin

text \<open>
  Deferred operations and freezing: what happens to the operations that wait for a checkpoint, and what
  a frozen dictionary answers.
\<close>

section \<open>The queue of a checkpoint\<close>

text \<open>A run over the first operations of a queue: every operation is performed once, in order, while the
  ones after it (the rest of the run, then \<open>queued\<close>) are still queued; the flag says whether it was done.\<close>

inductive performed :: "int \<Rightarrow> dict_op list \<Rightarrow> mgr \<Rightarrow> (dict_op \<times> bool) list \<Rightarrow> mgr \<Rightarrow> bool" where
  performed_Nil: "performed c queued s [] s"
| performed_Cons: "perform dop (set_deferred c (map fst rest @ queued) s) = (Inr b, t) \<Longrightarrow> performed c queued t rest u \<Longrightarrow>
    performed c queued s ((dop, b) # rest) u"

inductive_simps performed_Nil_iff [simp]: "performed c queued s [] t"
inductive_simps performed_Cons_iff: "performed c queued s ((dop, b) # rest) u"

definition undone :: "(dict_op \<times> bool) list \<Rightarrow> dict_op list" where
  "undone trace = map fst (filter (\<lambda>(dop, b). \<not> b) trace)"

lemma undone_simps [simp]:
  "undone [] = []" "undone ((dop, True) # trace) = undone trace" "undone ((dop, False) # trace) = dop # undone trace"
  by (simp_all add: undone_def)

lemma ctl_set_deferred: "mg_deferred (set_deferred c ops s) = AList.update c ops (mg_deferred s)"
  by (simp add: set_deferred_def)

lemma perform_keeps_deferred: "perform dop s = (r, t) \<Longrightarrow> mg_deferred t = mg_deferred s"
  using keepsD [OF ctl_perform] ctl_eq(1) by blast

text \<open>A run goes through, or stops at an operation that raises; in both cases the other checkpoints'
  queues are as they were.\<close>

definition loop_outcome :: "int \<Rightarrow> dict_op list \<Rightarrow> dict_op list \<Rightarrow> mgr \<Rightarrow> dict_op list res \<times> mgr \<Rightarrow> bool" where
  "loop_outcome c ops left_overs s out = (case out of
     (Inr l, t) \<Rightarrow> (\<exists>trace. map fst trace = ops \<and> performed c [] s trace t \<and> l = left_overs @ undone trace)
   | (Inl e, t) \<Rightarrow> (\<exists>trace dop rest u. ops = map fst trace @ dop # rest \<and>
       performed c (dop # rest) s trace u \<and> perform dop (set_deferred c rest u) = (Inl e, t) \<and> map_of (mg_deferred t) c = Some rest))"

lemma loop_failsI:
  "ops = map fst trace @ dop # rest \<Longrightarrow> performed c (dop # rest) s trace u \<Longrightarrow>
   perform dop (set_deferred c rest u) = (Inl e, t) \<Longrightarrow> map_of (mg_deferred t) c = Some rest \<Longrightarrow>
   loop_outcome c ops left_overs s (Inl e, t)"
  unfolding loop_outcome_def prod.case sum.case by blast

lemma deferred_loop_outcome: "loop_outcome c ops left_overs s (deferred_loop c ops left_overs s)"
proof (induction ops arbitrary: left_overs s)
  case Nil
  then show ?case by (simp add: loop_outcome_def)
next
  case (Cons dop ops)
  obtain r t where p: "perform dop (set_deferred c ops s) = (r, t)" by fastforce
  have dt: "mg_deferred t = AList.update c ops (mg_deferred s)"
    using perform_keeps_deferred [OF p] by (simp add: ctl_set_deferred)
  show ?case
  proof (cases r)
    case (Inl e)
    have eq: "deferred_loop c (dop # ops) left_overs s = (Inl e, t)"
      using p Inl by (simp add: py_simps)
    show ?thesis unfolding eq
      by (rule loop_failsI [where trace = "[]" and u = s]) (use p Inl dt in simp_all)
  next
    case (Inr b)
    define l where "l = (if b then left_overs else left_overs @ [dop])"
    have eq: "deferred_loop c (dop # ops) left_overs s = deferred_loop c ops l t"
      using p Inr by (simp add: py_simps l_def)
    show ?thesis
    proof (cases "deferred_loop c ops l t")
      case (Pair r' u)
      then have ih: "loop_outcome c ops l t (r', u)" using Cons.IH [of l t] by simp
      show ?thesis
      proof (cases r')
        case (Inr l')
        then obtain trace where "map fst trace = ops" "performed c [] t trace u" "l' = l @ undone trace"
          using ih unfolding loop_outcome_def by auto
        moreover from this have "performed c [] s ((dop, b) # trace) u"
          using p \<open>r = Inr b\<close> by (auto intro: performed_Cons)
        ultimately show ?thesis using eq Pair Inr
          by (auto simp: loop_outcome_def l_def intro!: exI [of _ "(dop, b) # trace"])
      next
        case (Inl e)
        then obtain trace d rest v where "ops = map fst trace @ d # rest" "performed c (d # rest) t trace v"
          "perform d (set_deferred c rest v) = (Inl e, u)" "map_of (mg_deferred u) c = Some rest"
          using ih unfolding loop_outcome_def by auto
        moreover from this have "performed c (d # rest) s ((dop, b) # trace) v"
          using p \<open>r = Inr b\<close> by (auto intro: performed_Cons)
        ultimately show ?thesis unfolding eq Pair Inl
          by (intro loop_failsI [where trace = "(dop, b) # trace"]) simp_all
      qed
    qed
  qed
qed

text \<open>
  C19: The operations deferred for a checkpoint are processed first in, first out, each exactly once.
  When none raises, exactly those that were not performed stay queued, in their order (and the queue is
  removed when there are none).  When one raises, it is gone from the queue together with the
  unperformed ones before it; the ones after it stay.
\<close>

theorem deferred_fifo:
  assumes "map_of (mg_deferred s) c = Some ops"
  shows "case process_deferred_ops c s of
      (Inr _, t) \<Rightarrow> \<exists>trace. map fst trace = ops \<and> (\<exists>u. performed c [] s trace u \<and>
        map_of (mg_deferred t) c = (if undone trace = [] then None else Some (undone trace)) \<and> mg_out t = mg_out u \<and> mg_ws t = mg_ws u)
    | (Inl e, t) \<Rightarrow> \<exists>trace dop rest u. ops = map fst trace @ dop # rest \<and>
        performed c (dop # rest) s trace u \<and> perform dop (set_deferred c rest u) = (Inl e, t) \<and> map_of (mg_deferred t) c = Some rest"
proof (cases "deferred_loop c ops [] s")
  case (Pair r t)
  have out: "loop_outcome c ops [] s (r, t)" using deferred_loop_outcome [of c ops "[]" s] Pair by simp
  show ?thesis
    using out assms Pair
    by (cases r) (auto simp: loop_outcome_def process_deferred_ops_def set_deferred_def py_simps)
qed

definition demo_waiting :: mgr where
  "demo_waiting = set_deferred 1 [ContainsOp 7 1 5 ''k'', PopOp 7 1 6 ''k''] demo_mgr"

lemma demo_waiting_queue: "map_of (mg_deferred demo_waiting) 1 = Some [ContainsOp 7 1 5 ''k'', PopOp 7 1 6 ''k'']"
  by (simp add: demo_waiting_def set_deferred_def)

theorem deferred_fifo_witness:
  "map_of (mg_deferred demo_waiting) 1 = Some [ContainsOp 7 1 5 ''k'', PopOp 7 1 6 ''k''] \<and>
   (case process_deferred_ops 1 demo_waiting of
      (Inr _, t) \<Rightarrow> \<exists>b b' u. performed 1 [] demo_waiting [(ContainsOp 7 1 5 ''k'', b), (PopOp 7 1 6 ''k'', b')] u \<and>
        mg_out t = mg_out u
    | (Inl e, t) \<Rightarrow> \<exists>trace dop rest u. [ContainsOp 7 1 5 ''k'', PopOp 7 1 6 ''k''] = map fst trace @ dop # rest \<and>
        performed 1 (dop # rest) demo_waiting trace u \<and> map_of (mg_deferred t) 1 = Some rest)"
proof (cases "process_deferred_ops 1 demo_waiting")
  case (Pair r t)
  show ?thesis
    using deferred_fifo [OF demo_waiting_queue] Pair demo_waiting_queue
    by (cases r) (fastforce simp: map_eq_Cons_conv)+
qed

section \<open>A frozen dictionary\<close>

text \<open>The stored data: the window, the value lists and the memory in use.\<close>

definition stored_data :: "mgr \<Rightarrow> working_set \<times> (lref \<Rightarrow> alloc list) \<times> (int, dict_op list) pydict" where
  "stored_data s = (mg_ws s, mg_lists s, mg_deferred s)"

lemma stored_data_upd [simp]:
  "stored_data (s\<lparr>mg_live := a\<rparr>) = stored_data s" "stored_data (s\<lparr>mg_tag := e\<rparr>) = stored_data s"
  "stored_data (s\<lparr>mg_out := f\<rparr>) = stored_data s" "stored_data (s\<lparr>mg_stream := g\<rparr>) = stored_data s"
  "stored_data (s\<lparr>mg_recv_open := h\<rparr>) = stored_data s" "stored_data (emit x s) = stored_data s"
  "stored_data (s\<lparr>mg_num_bput := j\<rparr>) = stored_data s"
  by (simp_all add: stored_data_def emit_def)

lemma stored_data_primitives [keeps_rules]:
  "keeps stored_data (free_mem a)" "keeps stored_data tag_inc" "keeps stored_data (send_msg m cn)"
  "keeps stored_data (send_bytes m cn)" "keeps stored_data recvh_close"
  by (auto simp: keeps_def free_mem_def tag_inc_def send_msg_def send_bytes_def recvh_close_def split: option.splits)

lemma stored_data_drain [keeps_rules]: "keeps stored_data (drain xs)"
proof (rule keepsI)
  show "stored_data (snd (drain xs s)) = stored_data s" for s
    by (induction xs s rule: drain.induct) (auto simp: free_mem_def split: prod.splits sum.splits)
qed

lemma stored_data_recover [keeps_rules]: "keeps stored_data (recover_mem None None b)"
  unfolding recover_mem_def recover_args_def by (intro keeps_rules; simp add: keeps_rules)+

lemma stored_data_respond [keeps_rules]:
  "keeps stored_data (respond mk (buffered_conn i))" "keeps stored_data (respond mk (resp_fli f))"
  unfolding respond_def buffered_conn_def resp_fli_def by (intro keeps_rules)+

lemma stored_data_pop_answer [keeps_rules]: "keeps stored_data (pop_answer client tag ec)"
  unfolding pop_answer_def send_dmsg_and_value_def client_conn_def by (intro keeps_rules; simp add: keeps_rules)+

text \<open>The requests that write to the dictionary; a get that adds to the value is one of them.\<close>

datatype write_request =
    WPut int int int bool bool
  | WPop int int int bytes
  | WClear int int int string bool
  | WBatchPut int int int bool
  | WBPut int int int string "nat list" bool
  | WFetchAdd int int int bytes int

fun handle_write :: "write_request \<Rightarrow> unit mm" where
  "handle_write (WPut client c tag persist waitFor) = put client c tag persist waitFor"
| "handle_write (WPop client c tag key) = pop client c tag key"
| "handle_write (WClear client c tag fli broadcast) = clear client c tag fli broadcast"
| "handle_write (WBatchPut client c tag persist) = batch_put client c tag persist"
| "handle_write (WBPut client c tag fli managers batch) = bput client c tag fli managers batch"
| "handle_write (WFetchAdd client c tag key amount) = get client c tag key True amount"

fun fetch_adds :: "write_request \<Rightarrow> bool" where
  "fetch_adds (WFetchAdd client c tag key amount) = True"
| "fetch_adds q = False"

lemma stored_data_frozen [keeps_rules]:
  "keeps stored_data (bput_frozen tag fli)"
  unfolding bput_frozen_def by (intro keeps_rules)

lemma frozen_keeps_data:
  assumes "mg_read_only s" "\<not> fetch_adds q" "handle_write q s = (r, t)"
  shows "stored_data t = stored_data s"
proof -
  have k: "keeps stored_data (sq (recover_mem None None True) (sq recvh_close (respond mk (buffered_conn i))))"
    "keeps stored_data (sq (recover_mem None None True) (sq recvh_close (pop_answer i tg ec)))"
    "keeps stored_data (sq (recover_mem None None True) (respond mk (resp_fli fli)))"
    "keeps stored_data (sq (recover_mem None None True) (sq recvh_close
       (bnd (gets mg_manager_id) (\<lambda>me. respond (mk' me) (buffered_conn i)))))"
    for mk i tg ec fli mk'
    by (intro keeps_rules)+
  show ?thesis
  proof (cases q)
    case (WPut client c tag persist waitFor)
    then show ?thesis using assms keepsD [OF k(1)] by (simp add: put_def bnd_apply)
  next
    case (WPop client c tag key)
    then show ?thesis using assms keepsD [OF k(2)] by (simp add: pop_def bnd_apply)
  next
    case (WClear client c tag fli broadcast)
    then show ?thesis using assms keepsD [OF k(3)] by (simp add: clear_def bnd_apply)
  next
    case (WBatchPut client c tag persist)
    then show ?thesis using assms
        keepsD [OF keeps_try_except [OF k(4), of "\<lambda>e. ret ()", OF keeps_basic(1)]]
      by (simp add: batch_put_def batch_put_thread_def bnd_apply try_except_apply)
  next
    case (WBPut client c tag fli managers batch)
    have "keeps stored_data (try_except (bput_frozen tag fli) (\<lambda>e. ret ()))"
      by (intro keeps_rules)
    then show ?thesis using assms WBPut keepsD [OF stored_data_frozen, of tag fli s]
        keepsD [of stored_data "try_except (bput_frozen tag fli) (\<lambda>e. ret ())" "s\<lparr>mg_num_bput := AList.update client 0 (mg_num_bput s)\<rparr>"]
      by (simp add: bput_def bput_single_def bput_batch_thread_def bnd_apply sq_apply try_except_apply split: if_splits)
  next
    case (WFetchAdd client c tag key amount)
    then show ?thesis using assms by simp
  qed
qed

text \<open>Where each of them is answered.\<close>

fun write_conn :: "write_request \<Rightarrow> conn" where
  "write_conn (WPut client c tag persist waitFor) = BufferedConn client"
| "write_conn (WPop client c tag key) = ClientConn client"
| "write_conn (WClear client c tag fli broadcast) = RespFLI fli"
| "write_conn (WBatchPut client c tag persist) = BufferedConn client"
| "write_conn (WBPut client c tag fli managers batch) = RespFLI fli"
| "write_conn (WFetchAdd client c tag key amount) = ClientConn client"

definition conn_ok :: "conn \<Rightarrow> mgr \<Rightarrow> bool" where
  "conn_ok cn s \<longleftrightarrow> cn \<notin> mg_broken s \<and>
     (case cn of ClientConn i \<Rightarrow> i \<in> mg_clients s | BufferedConn i \<Rightarrow> i \<in> mg_buffered s | _ \<Rightarrow> True)"

text \<open>A stream of live memory, nothing twice.\<close>

definition streams :: "(alloc \<times> hint) list \<Rightarrow> mgr \<Rightarrow> bool" where
  "streams ms s \<longleftrightarrow> mg_recv_open s \<and> mg_close_error s = None \<and> mg_stream s = map (\<lambda>(a, h). Data a h) ms \<and>
     distinct (map (ident \<circ> fst) ms) \<and> (ident \<circ> fst) ` set ms \<subseteq> mg_live s"

lemma drain_frees:
  "distinct (map (ident \<circ> fst) ms) \<Longrightarrow> (ident \<circ> fst) ` set ms \<subseteq> mg_live s \<Longrightarrow>
   drain (map (\<lambda>(a, h). Data a h) ms) s = (Inr (), s\<lparr>mg_live := mg_live s - (ident \<circ> fst) ` set ms, mg_stream := []\<rparr>)"
proof (induction ms arbitrary: s)
  case (Cons m ms)
  obtain a h where m: "m = (a, h)" by fastforce
  let ?s = "s\<lparr>mg_live := mg_live s - {ident a}\<rparr>"
  have "ident a \<notin> (ident \<circ> fst) ` set ms" using Cons.prems(1) m by simp
  then have "(ident \<circ> fst) ` set ms \<subseteq> mg_live ?s" using Cons.prems(2) by (simp add: subset_Diff_insert)
  then have "drain (map (\<lambda>(a, h). Data a h) ms) ?s =
      (Inr (), ?s\<lparr>mg_live := mg_live ?s - (ident \<circ> fst) ` set ms, mg_stream := []\<rparr>)"
    using Cons.IH Cons.prems(1) by simp
  moreover have "mg_live s - {ident a} - (ident \<circ> fst) ` set ms = mg_live s - (ident \<circ> fst) ` set (m # ms)"
    using m by auto
  ultimately show ?case using Cons.prems m by (simp add: free_mem_def)
qed simp

lemma recover_stream:
  "streams ms s \<Longrightarrow> recover_mem None None True s =
     (Inr (), s\<lparr>mg_live := mg_live s - (ident \<circ> fst) ` set ms, mg_stream := []\<rparr>)"
  using drain_frees [of ms s] by (simp add: streams_def recover_mem_def recover_args_def bnd_apply sq_apply)

lemma frozen_answer:
  assumes "mg_read_only s" "streams ms s" "conn_ok (write_conn q) s" "\<not> fetch_adds q"
  shows "\<exists>t m. handle_write q s = (Inr (), t) \<and> mg_out t = mg_out s @ [SentMsg (write_conn q) m] \<and>
    msg_err m = INVALID_OPERATION \<and> mg_live t = mg_live s - (ident \<circ> fst) ` set ms"
proof -
  have rec: "recover_mem None None True s =
      (Inr (), s\<lparr>mg_live := mg_live s - (ident \<circ> fst) ` set ms, mg_stream := []\<rparr>)"
    using recover_stream assms(2) .
  have rec2: "recover_mem None None True (s\<lparr>mg_num_bput := n\<rparr>) =
      (Inr (), s\<lparr>mg_num_bput := n, mg_live := mg_live s - (ident \<circ> fst) ` set ms, mg_stream := []\<rparr>)" for n
    using recover_stream [of ms "s\<lparr>mg_num_bput := n\<rparr>"] assms(2) by (simp add: streams_def)
  have "mg_recv_open s" "mg_close_error s = None" using assms(2) by (simp_all add: streams_def)
  then show ?thesis
    using assms(1,3,4) rec rec2
    by (cases q)
       (auto simp: put_def pop_def clear_def batch_put_def batch_put_thread_def bput_def bput_single_def
          bput_batch_thread_def bput_frozen_def pop_answer_def send_dmsg_and_value_def respond_def tag_inc_def
          buffered_conn_def client_conn_def resp_fli_def send_msg_def send_bytes_def recvh_close_def emit_def
          conn_ok_def bnd_apply sq_apply try_except_apply)
qed

text \<open>What becomes of a request to a frozen dictionary.\<close>

fun frozen_outcome :: "write_request \<Rightarrow> (alloc \<times> hint) list \<Rightarrow> mgr \<Rightarrow> mgr \<Rightarrow> bool" where
  "frozen_outcome (WFetchAdd client c tag key amount) ms s t \<longleftrightarrow>
     mg_ws t = mg_ws s \<and> mg_lists t = mg_lists s \<and> mg_live t = mg_live s \<and> mg_out t = mg_out s \<and>
     map_of (mg_deferred t) c = Some ((case map_of (mg_deferred s) c of None \<Rightarrow> [] | Some ops \<Rightarrow> ops) @
       [GetOp client c tag key True amount])"
| "frozen_outcome q ms s t \<longleftrightarrow> stored_data t = stored_data s \<and>
     (\<exists>m. mg_out t = mg_out s @ [SentMsg (write_conn q) m] \<and> msg_err m = INVALID_OPERATION) \<and>
     mg_live t = mg_live s - (ident \<circ> fst) ` set ms"

lemma frozen_fetch_add:
  assumes "mg_read_only s" "mg_close_error s = None"
  shows "\<exists>t. get client c tag key True amount s = (Inr (), t) \<and> frozen_outcome (WFetchAdd client c tag key amount) ms s t"
  using assms by (auto simp: get_def perform_or_defer_def perform_get_def fetch_add_get_def fetch_prepare_def defer_op_def
      set_deferred_def recvh_close_def bnd_apply sq_apply try_except_apply map_of_update)

text \<open>
  C20: A frozen dictionary is not written to.  A put, pop, clear, batched or broadcast put is answered
  with the invalid-operation code and nothing else is sent; the window, the stored values and the
  deferred operations are as before, and exactly the memory the client streamed is freed.  A
  fetch-and-add changes no stored value either, but gets no answer: it is deferred.
\<close>

theorem frozen_rejects_writes:
  assumes "mg_read_only s" "streams ms s" "conn_ok (write_conn q) s"
  shows "\<exists>t. handle_write q s = (Inr (), t) \<and> frozen_outcome q ms s t"
proof (cases "fetch_adds q")
  case True
  then show ?thesis using frozen_fetch_add [OF assms(1)] assms(2) by (cases q) (auto simp: streams_def)
next
  case False
  from frozen_answer [OF assms False] frozen_keeps_data [OF assms(1) False] show ?thesis
    using False by (cases q) fastforce+
qed

definition demo_frozen :: mgr where
  "demo_frozen = demo_mgr\<lparr>mg_read_only := True, mg_recv_open := True,
     mg_stream := [Data (demo_alloc 1 ''k'') KEY_HINT, Data (demo_alloc 2 ''v'') VALUE_HINT]\<rparr>"

theorem frozen_rejects_writes_witness:
  "\<exists>t m. handle_write (WPut 7 1 3 False False) demo_frozen = (Inr (), t) \<and> stored_data t = stored_data demo_frozen \<and>
    mg_out t = [SentMsg (BufferedConn 7) m] \<and> msg_err m = INVALID_OPERATION \<and> mg_live t = {}"
proof -
  have s: "streams [(demo_alloc 1 ''k'', KEY_HINT), (demo_alloc 2 ''v'', VALUE_HINT)] demo_frozen"
    by (simp add: streams_def demo_frozen_def demo_mgr_def make_manager_def demo_alloc_def ident_def)
  have c: "mg_read_only demo_frozen" "conn_ok (write_conn (WPut 7 1 3 False False)) demo_frozen" "mg_out demo_frozen = []"
    by (simp_all add: demo_frozen_def demo_mgr_def make_manager_def conn_ok_def)
  have "mg_live demo_frozen - (ident \<circ> fst) ` set [(demo_alloc 1 ''k'', KEY_HINT), (demo_alloc 2 ''v'', VALUE_HINT)] = {}"
    by (simp add: demo_frozen_def demo_mgr_def make_manager_def demo_alloc_def ident_def)
  then show ?thesis using frozen_rejects_writes [OF c(1) s c(2)] c(3) by auto
qed

end
