(* ===== verification/PutRequest.thy ===== *)
theory PutRequest
  imports Deferral Reading
begin

text \<open>
  The handler of a put request (\<open>Manager.put\<close> in \<open>data/ddict/manager.py\<close>), from the stream of the client
  to the answer: what the client streams becomes the arguments of the operation, and what happens when
  the checkpoint of the request has been retired.
\<close>

section \<open>Receiving a key and its values\<close>






section \<open>Dispatching the operation\<close>




section \<open>The outcome of a put request\<close>






lemma recv_upd [simp]:
  "mg_inv (s\<lparr>mg_recv_open := b\<rparr>) = mg_inv s" "seen (s\<lparr>mg_recv_open := b\<rparr>) = seen s"
  "mg_inv (s\<lparr>mg_stream := xs\<rparr>) = mg_inv s" "mg_inv (s\<lparr>mg_deferred := d\<rparr>) = mg_inv s" "seen (s\<lparr>mg_deferred := d\<rparr>) = seen s"
  by (simp_all add: mg_inv_def seen_def fun_eq_iff)







end
