(* ===== verification/Broadcast.thy ===== *)
theory Broadcast
  imports Frames "HOL-Library.Multiset"
begin

text \<open>
  How requests spread over the managers.  \<open>_send_dmsg_to_children\<close> uses the binary heap on manager ids,
  a broadcast put splits the list of managers it was given.  Both are instances of one contract: every
  node passes a request on to nodes that share out the rest of its part.
\<close>

section \<open>The contract of a spreading scheme\<close>

text \<open>\<open>kids\<close> are the nodes a node passes a request on to, \<open>label\<close> is the manager that handles it, and
  \<open>cover\<close> all managers the node is responsible for.\<close>

locale spreading =
  fixes kids :: "'a \<Rightarrow> 'a list" and label :: "'a \<Rightarrow> nat" and cover :: "'a \<Rightarrow> nat multiset" and ok :: "'a \<Rightarrow> bool"
  assumes cover_split: "ok x \<Longrightarrow> cover x = add_mset (label x) (\<Sum>y \<in># mset (kids x). cover y)"
    and ok_kids: "ok x \<Longrightarrow> y \<in> set (kids x) \<Longrightarrow> ok y"
begin

text \<open>One delivery, in any order: the request in flight to \<open>x\<close> is handled there and passed on.\<close>

inductive spread :: "'a multiset \<times> nat multiset \<Rightarrow> 'a multiset \<times> nat multiset \<Rightarrow> bool" where
  deliver: "spread (add_mset x J, H) (J + mset (kids x), add_mset (label x) H)"

lemma spread_pow:
  assumes "(spread ^^ k) ({#x#}, {#}) (J, H)" "ok x"
  shows "size H = k \<and> (\<Sum>y \<in># J. cover y) + H = cover x \<and> (\<forall>y \<in># J. ok y)"
  using assms(1)
proof (induction k arbitrary: J H)
  case 0
  then have "J = {#x#}" "H = {#}" by auto
  then show ?case using assms(2) by simp
next
  case (Suc k)
  then obtain J' H' where st: "(spread ^^ k) ({#x#}, {#}) (J', H')" and last: "spread (J', H') (J, H)"
    by (auto elim!: relpowp_Suc_E simp del: relpowp.simps)
  obtain y K where d: "J' = add_mset y K" "J = K + mset (kids y)" "H = add_mset (label y) H'"
    using last by (auto elim: spread.cases)
  have ih: "size H' = k" "(\<Sum>y \<in># J'. cover y) + H' = cover x" "\<forall>y \<in># J'. ok y"
    using Suc.IH [OF st] by auto
  have "ok y" using ih(3) d(1) by simp
  then have "(\<Sum>y \<in># J'. cover y) = add_mset (label y) ((\<Sum>y \<in># K. cover y) + (\<Sum>z \<in># mset (kids y). cover z))"
    using cover_split by (simp add: d(1) ac_simps)
  then show ?case using ih d ok_kids [OF \<open>ok y\<close>] by (auto simp: ac_simps)
qed

lemma cover_nonempty: "ok x \<Longrightarrow> 0 < size (cover x)"
  using cover_split by simp

lemma cover_sum_empty: "\<forall>y \<in># J. ok y \<Longrightarrow> (\<Sum>y \<in># J. cover y) = {#} \<longleftrightarrow> J = {#}"
  by (cases J) (auto dest: cover_nonempty)

text \<open>Whatever the order of delivery, the request is handled after as many deliveries as the node covers
  managers, and then each of them has handled it exactly once.\<close>

lemma spread_complete:
  assumes "(spread ^^ k) ({#x#}, {#}) (J, H)" "ok x"
  shows "k \<le> size (cover x)" and "J = {#} \<longleftrightarrow> k = size (cover x)" and "J = {#} \<Longrightarrow> H = cover x"
proof -
  have s: "size H = k" "(\<Sum>y \<in># J. cover y) + H = cover x" "\<forall>y \<in># J. ok y"
    using spread_pow [OF assms] by auto
  have "size (\<Sum>y \<in># J. cover y) + k = size (cover x)" using s(1,2) by (metis size_union)
  then show "k \<le> size (cover x)" "J = {#} \<longleftrightarrow> k = size (cover x)"
    using cover_sum_empty [OF s(3)] by auto
  show "H = cover x" if "J = {#}" using s(2) that by simp
qed

end

section \<open>The halving scheme of broadcast puts\<close>

lemma bput_children_mset: "sum_mset (image_mset mset (mset (bput_children ms))) = mset (drop 1 ms)"
proof -
  have "mset (drop 1 ms) = mset (take mid (drop 1 ms)) + mset (drop mid (drop 1 ms))" for mid
    by (metis append_take_drop_id mset_append)
  then show ?thesis by (simp add: bput_children_def Let_def)
qed

interpretation halves: spreading bput_children hd mset "\<lambda>ms. ms \<noteq> []"
proof
  show "mset ms = add_mset (hd ms) (\<Sum>y \<in># mset (bput_children ms). mset y)" if "ms \<noteq> []" for ms :: "nat list"
    using that bput_children_mset [of ms] by (cases ms) simp_all
  show "y \<noteq> []" if "y \<in> set (bput_children ms)" for ms y :: "nat list"
    using that unfolding bput_children_def Let_def set_filter by blast
qed

section \<open>The binary heap\<close>

text \<open>The managers a manager passes a request on to, and its ancestors including itself.\<close>

definition heap_kids :: "nat \<Rightarrow> nat \<Rightarrow> nat list" where
  "heap_kids n i = filter (\<lambda>j. j < n) [2 * i + 1, 2 * i + 2]"

fun ancestors :: "nat \<Rightarrow> nat set" where
  "ancestors j = (if j = 0 then {0} else insert j (ancestors ((j - 1) div 2)))"

declare ancestors.simps [simp del]

lemma ancestors_self: "j \<in> ancestors j"
  by (subst ancestors.simps) simp

lemma ancestors_le: "i \<in> ancestors j \<Longrightarrow> i \<le> j"
  by (induction j rule: ancestors.induct) (subst (asm) (2) ancestors.simps, auto split: if_splits)

lemma ancestors_trans: "i \<in> ancestors k \<Longrightarrow> k \<in> ancestors j \<Longrightarrow> i \<in> ancestors j"
proof (induction j rule: ancestors.induct)
  case (1 j)
  then show ?case
    by (cases "k = j") (auto simp: ancestors.simps [of j] split: if_splits)
qed

lemma ancestors_linear: "a \<in> ancestors j \<Longrightarrow> b \<in> ancestors j \<Longrightarrow> a \<in> ancestors b \<or> b \<in> ancestors a"
proof (induction j rule: ancestors.induct)
  case (1 j)
  then show ?case
    by (cases "a = j \<or> b = j") (auto simp: ancestors.simps [of j] ancestors_self split: if_splits)
qed

lemma ancestors_child: "ancestors (2 * i + 1) = insert (2 * i + 1) (ancestors i)"
  "ancestors (2 * i + 2) = insert (2 * i + 2) (ancestors i)"
  by (subst ancestors.simps, simp)+

lemma ancestors_down: "i \<in> ancestors j \<Longrightarrow> i \<noteq> j \<Longrightarrow> 2 * i + 1 \<in> ancestors j \<or> 2 * i + 2 \<in> ancestors j"
proof (induction j rule: ancestors.induct)
  case (1 j)
  have j: "j \<noteq> 0" using 1(2,3) by (auto simp: ancestors.simps [of j] split: if_splits)
  let ?p = "(j - 1) div 2"
  have anc: "ancestors j = insert j (ancestors ?p)" using j by (simp add: ancestors.simps [of j])
  show ?case
  proof (cases "i = ?p")
    case True
    then have "j = 2 * i + 1 \<or> j = 2 * i + 2" using j by presburger
    then show ?thesis using anc by auto
  next
    case False
    then show ?thesis using 1 j anc by auto
  qed
qed

definition heap_part :: "nat \<Rightarrow> nat \<Rightarrow> nat set" where
  "heap_part n i = {j. j < n \<and> i \<in> ancestors j}"

lemma heap_part_finite [simp]: "finite (heap_part n i)"
  by (simp add: heap_part_def)

lemma heap_part_outside: "n \<le> i \<Longrightarrow> heap_part n i = {}"
  using ancestors_le by (fastforce simp: heap_part_def)

lemma heap_part_split: "i < n \<Longrightarrow> heap_part n i = insert i (heap_part n (2 * i + 1) \<union> heap_part n (2 * i + 2))"
  using ancestors_down ancestors_self ancestors_trans ancestors_child
  by (auto simp: heap_part_def) (metis insertI2)+

lemma heap_part_disjoint:
  "heap_part n (2 * i + 1) \<inter> heap_part n (2 * i + 2) = {}" "i \<notin> heap_part n (2 * i + 1)" "i \<notin> heap_part n (2 * i + 2)"
proof -
  have "False" if "2 * i + 1 \<in> ancestors j" "2 * i + 2 \<in> ancestors j" for j
    using ancestors_linear [OF that] ancestors_child ancestors_le [of "2 * i + 1" i] ancestors_le [of "2 * i + 2" i]
      ancestors_le [of "2 * i + 2" "2 * i + 1"] by auto
  then show "heap_part n (2 * i + 1) \<inter> heap_part n (2 * i + 2) = {}" by (auto simp: heap_part_def)
  show "i \<notin> heap_part n (2 * i + 1)" "i \<notin> heap_part n (2 * i + 2)"
    by (auto simp: heap_part_def dest: ancestors_le)
qed

lemma heap_part_root: "heap_part n 0 = {..<n}"
proof -
  have "0 \<in> ancestors j" for j
    by (induction j rule: ancestors.induct) (subst ancestors.simps, auto)
  then show ?thesis by (auto simp: heap_part_def)
qed

lemma heap_part_mset:
  assumes "i < n"
  shows "mset_set (heap_part n i) = add_mset i (\<Sum>j \<in># mset (heap_kids n i). mset_set (heap_part n j))"
proof -
  have "mset_set (heap_part n i) =
      add_mset i (mset_set (heap_part n (2 * i + 1)) + mset_set (heap_part n (2 * i + 2)))"
    unfolding heap_part_split [OF assms]
    using heap_part_disjoint(1) [of n i] heap_part_disjoint(2,3) [of i n] by (simp add: mset_set_Union)
  then show ?thesis
    using heap_part_outside by (auto simp: heap_kids_def)
qed

interpretation heap: spreading "heap_kids n" "\<lambda>i. i" "\<lambda>i. mset_set (heap_part n i)" "\<lambda>i. i < n" for n
proof
  show "mset_set (heap_part n i) = add_mset i (\<Sum>j \<in># mset (heap_kids n i). mset_set (heap_part n j))" if "i < n" for i
    using heap_part_mset that .
  show "j < n" if "j \<in> set (heap_kids n i)" for i j
    using that by (auto simp: heap_kids_def split: if_splits)
qed

end
