(* ===== verification/Server.thy ===== *)
theory Server
  imports Frames PutGet
begin

text \<open>
  The dispatch table and the receive loop of class \<open>Manager\<close> (\<open>_DTBL\<close> and \<open>run\<close> in
  \<open>data/ddict/manager.py\<close>).  What follows the loop (the last answer to the orchestrator and the release
  of resources) is not modelled, nor are the two messages that copy the state of a manager.
\<close>

text \<open>Requests: client, checkpoint and tag first, as in the handlers.  The requests that managers pass on to
  each other are the ones of \<^typ>\<open>request\<close>.\<close>

datatype dd_msg =
    DDRegisterClient int
  | DDConnectToManager int int nat
  | DDRegisterClientID int int
  | DDDestroyManager bool
  | DDBatchPut int int int bool
  | DDPut int int int bool bool
  | DDGet int int int bytes bool int
  | DDPop int int int bytes
  | DDContains int int int bytes
  | DDIterator
  | DDIteratorNext int
  | DDKeys int int int string
  | DDValues int int int string
  | DDItems int int int string
  | DDDeregisterClient int int
  | DDGetFreeze int int
  | Tree request
  | UnknownMsg

fun handle_request :: "request \<Rightarrow> unit mm" where
  "handle_request (DDLength client c tag fli b) = get_length client c tag fli b"
| "handle_request (DDClear client c tag fli b) = clear client c tag fli b"
| "handle_request (DDSync tag fli b) = sync tag fli b"
| "handle_request (DDManagerStats tag fli b) = get_stats tag fli b"
| "handle_request (DDManagerNewestChkptID tag fli b) = get_newest_chkpt_id tag fli b"
| "handle_request (DDRestore c client tag fli) = restore c client tag fli"
| "handle_request (DDAdvance client tag fli) = mgr_advance client tag fli"
| "handle_request (DDPersistChkpts client tag fli) = persist_chkpts client tag fli"
| "handle_request (DDChkptAvail c tag fli) = mgr_chkpt_avail c tag fli"
| "handle_request (DDPersistedChkptAvail c tag fli) = persisted_chkpt_avail c tag fli"
| "handle_request (DDPersist c tag fli) = mgr_persist c tag fli"
| "handle_request (DDFreeze tag fli) = freeze tag fli"
| "handle_request (DDUnFreeze tag fli) = unfreeze tag fli"
| "handle_request (DDBPut tag client c fli managers batch) = bput client c tag fli managers batch"

text \<open>The dispatch; a message that is not in the table stops the manager.\<close>

fun dispatch :: "dd_msg \<Rightarrow> unit mm" where
  "dispatch (DDRegisterClient tag) = register_client tag"
| "dispatch (DDConnectToManager client tag m) = connect_to_manager client tag m"
| "dispatch (DDRegisterClientID client tag) = register_clientID client tag"
| "dispatch (DDDestroyManager allowRestart) = destroy_manager allowRestart"
| "dispatch (DDBatchPut client c tag persist) = batch_put client c tag persist"
| "dispatch (DDPut client c tag persist waitFor) = put client c tag persist waitFor"
| "dispatch (DDGet client c tag key fetchAdd amount) = get client c tag key fetchAdd amount"
| "dispatch (DDPop client c tag key) = pop client c tag key"
| "dispatch (DDContains client c tag key) = contains client c tag key"
| "dispatch DDIterator = get_iterator"
| "dispatch (DDIteratorNext client) = iterate_next client"
| "dispatch (DDKeys client c tag fli) = mgr_keys client c tag fli"
| "dispatch (DDValues client c tag fli) = mgr_values client c tag fli"
| "dispatch (DDItems client c tag fli) = mgr_items client c tag fli"
| "dispatch (DDDeregisterClient client tag) = deregister_client client tag"
| "dispatch (DDGetFreeze client tag) = get_freeze client tag"
| "dispatch (Tree q) = handle_request q"
| "dispatch UnknownMsg = modify (\<lambda>s. s\<lparr>mg_serving := False\<rparr>)"

text \<open>The handlers that keep the receive handle open when the context is left.\<close>

fun keeps_handle :: "dd_msg \<Rightarrow> bool" where
  "keeps_handle (DDBatchPut client c tag persist) = True"
| "keeps_handle (Tree (DDBPut tag client c fli managers batch)) = True"
| "keeps_handle _ = False"

text \<open>One turn of the loop: the message \<open>mem\<close> was parsed to \<open>m\<close>, \<open>strm\<close> is what follows it in the stream.
  Every exception of a handler is logged; the message is freed; leaving the context closes the handle.\<close>

definition serve :: "dd_msg \<Rightarrow> alloc \<Rightarrow> stream_item list \<Rightarrow> unit mm" where
  "serve m mem strm =
     sq (modify (\<lambda>s. s\<lparr>mg_stream := strm, mg_recv_open := True\<rparr>))
       (sq (try_except (dispatch m) (\<lambda>e. ret ()))
         (sq (try_except (free_mem mem) (\<lambda>e. ret ())) (if keeps_handle m then ret () else recvh_close)))"

text \<open>The loop on the messages that arrive; when closing a handle raises, the loop ends.\<close>

fun run :: "(dd_msg \<times> alloc \<times> stream_item list) list \<Rightarrow> unit mm" where
  "run [] = ret ()"
| "run ((m, mem, strm) # inbox) = bnd (gets mg_serving) (\<lambda>serving.
     if serving then sq (serve m mem strm) (run inbox) else ret ())"

section \<open>A manager keeps serving\<close>

text \<open>Whether the manager serves, and what closing the receive handle raises.\<close>

definition core :: "mgr \<Rightarrow> bool \<times> exn option" where
  "core s = (mg_serving s, mg_close_error s)"

lemma core_upd [simp]:
  "core (upd_ws f s) = core s" "core (set_deferred c ops s) = core s" "core (emit e s) = core s"
  "core (s\<lparr>mg_stream := x1\<rparr>) = core s" "core (s\<lparr>mg_recv_open := x2\<rparr>) = core s" "core (s\<lparr>mg_read_only := x3\<rparr>) = core s"
  "core (s\<lparr>mg_clients := x4\<rparr>) = core s" "core (s\<lparr>mg_buffered := x5\<rparr>) = core s" "core (s\<lparr>mg_next_client := x6\<rparr>) = core s"
  "core (s\<lparr>mg_threads := x7\<rparr>) = core s" "core (s\<lparr>mg_persisting := x8\<rparr>) = core s" "core (s\<lparr>mg_persister := x9\<rparr>) = core s"
  "core (s\<lparr>mg_num_batch_puts := x10\<rparr>) = core s" "core (s\<lparr>mg_num_bput := x11\<rparr>) = core s" "core (s\<lparr>mg_deferred := x12\<rparr>) = core s"
  "core (s\<lparr>mg_reattach := x13\<rparr>) = core s"
  by (simp_all add: core_def upd_ws_def set_deferred_def emit_def)

lemma keeps_core_ctl: "keeps ctl m \<Longrightarrow> keeps core m"
  unfolding keeps_def core_def using ctl_eq(9,11) by blast

lemma core_parts [keeps_rules]:
  "keeps core (perform dop)" "keeps core (on_persister f)" "keeps core (working_set_put c)"
  "keeps core recvh_close" "keeps core recv_mem" "keeps core (recover_mem key vals b)"
  "keeps core (new_list xs)" "keeps core tag_inc" "keeps core (send_msg msg cn)"
  "keeps core (send_bytes msg cn)" "keeps core (send_mem cn h tr a)" "keeps core (retire p)"
  "keeps core (move_to_pool a)" "keeps core (append_val l a)" "keeps core (free_mem a)"
  "keeps core (alloc_from_bytes bs)" "keeps core (clear_ck i)" "keeps core (get_error client c tag ec)"
  "keeps core read_range" "keeps core (get_ck i)"
  "keeps core (send_dmsg_and_value arg msg cn km tr)"
  by (rule keeps_core_ctl, rule keeps_rules)+

lemma core_conns [keeps_rules]:
  "keeps core (client_conn i)" "keeps core (buffered_conn i)" "keeps core (resp_fli f)"
  "keeps core (set_stream r)"
  by (rule keeps_core_ctl, rule keeps_rules)+

lemma core_respond [keeps_rules]: "keeps core cn \<Longrightarrow> keeps core (respond mk cn)"
  unfolding respond_def by (intro keeps_rules)

lemma core_deferred_loop [keeps_rules]: "keeps core (deferred_loop c ops l)"
  by (induction ops arbitrary: l) (unfold deferred_loop.simps, (intro keeps_rules; simp)+)

lemma core_deferral [keeps_rules]:
  "keeps core (process_deferred_ops c)" "keeps core (defer_op dop)"
  unfolding process_deferred_ops_def defer_op_def by (intro keeps_rules; simp)+

lemma core_dump [keeps_rules]: "keeps core (dump_chkpt force ck)"
proof (rule keepsI)
  show "core (snd (dump_chkpt force ck s)) = core s" for s
    by (simp add: dump_chkpt_def on_persister_def split: prod.splits)
qed

lemma core_threads [keeps_rules]:
  "keeps core (retire_thread p)" "keeps core (sender_body j)"
  unfolding retire_thread_def by (intro keeps_rules) (cases j; simp add: keeps_rules split: prod.splits)

lemma core_room [keeps_rules]: "keeps core (join_while_full ps)"
  by (induction ps) (unfold join_while_full.simps, (intro keeps_rules; simp)+)

lemma core_recv_values [keeps_rules]: "keeps core (recv_values l strm)"
  by (induction l strm rule: recv_values.induct) (unfold recv_values.simps, (intro keeps_rules; simp)+)

lemma core_wait [keeps_rules]: "keeps core wait_room" "keeps core (run_sender j)"
  unfolding wait_room_def run_sender_def by (intro keeps_rules)+

lemma core_children [keeps_rules]: "keeps core (send_dmsg_to_children q)"
  unfolding send_dmsg_to_children_def send_if_def by (intro keeps_rules)

lemma core_put [keeps_rules]: "keeps core (put client c tag persist waitFor)"
  unfolding put_def put_stage_def put_dispatch_def put_except_def by (intro keeps_rules)

lemma core_perform_or_defer [keeps_rules]: "keeps core (perform_or_defer dop)"
  unfolding perform_or_defer_def by (intro keeps_rules)

lemma core_answering [keeps_rules]:
  "keeps core body \<Longrightarrow> (\<And>e. keeps core (reply e)) \<Longrightarrow> keeps core (answering body code reraise reply)"
  unfolding answering_def by (intro keeps_rules)

lemma core_simple_handlers [keeps_rules]:
  "keeps core (get client c tag key fa amount)" "keeps core (pop client c tag key)"
  "keeps core (contains client c tag key)" "keeps core (get_length client c tag fli b)"
  "keeps core (clear client c tag fli b)"
  unfolding get_def pop_def pop_answer_def contains_def get_length_def clear_def by (intro keeps_rules)+

lemma core_client_handlers [keeps_rules]:
  "keeps core (register_client tag)" "keeps core (connect_to_manager client tag k)"
  "keeps core (register_clientID client tag)" "keeps core (deregister_client client tag)"
proof -
  have [keeps_rules]: "keeps core get_next_client_id" "keeps core (add_client i)" for i
    by (simp_all add: keeps_def get_next_client_id_def add_client_def)
  show "keeps core (register_client tag)" "keeps core (connect_to_manager client tag k)"
    "keeps core (register_clientID client tag)" "keeps core (deregister_client client tag)"
    unfolding register_client_def connect_to_manager_def register_clientID_def deregister_client_def
    by (intro keeps_rules; simp)+
qed

lemma core_sync_handlers [keeps_rules]:
  "keeps core (sync tag fli b)" "keeps core (get_stats tag fli b)"
  "keeps core (get_newest_chkpt_id tag fli b)"
  unfolding sync_def join_senders_def join_persisting_def get_stats_def get_newest_chkpt_id_def
  by (intro keeps_rules; simp)+

lemma core_iter_handlers [keeps_rules]:
  "keeps core get_iterator" "keeps core (iterate_next client)" "keeps core (mgr_keys client c tag fli)"
  "keeps core (mgr_values client c tag fli)" "keeps core (mgr_items client c tag fli)"
  unfolding get_iterator_def iterate_next_def mgr_keys_def mgr_values_def mgr_items_def by (intro keeps_rules)+

lemma core_freeze_handlers [keeps_rules]:
  "keeps core (get_freeze client tag)" "keeps core (freeze tag fli)" "keeps core (unfreeze tag fli)"
  unfolding get_freeze_def freeze_def unfreeze_def by (intro keeps_rules; simp)+

lemma core_batch_loop [keeps_rules]:
  assumes "\<And>k l. keeps core (store k l)" "\<And>e. keeps core (resp e)"
  shows "keeps core (batch_loop store resp key strm)"
  using assms
proof (induction store resp key strm rule: batch_loop.induct)
  case (1 store resp key strm)
  have step: "keeps core (batch_step (store k l) vs e)" "keeps core (batch_except resp k l x)" for k l vs e x
    unfolding batch_step_def batch_except_def using 1(2,3) by (intro keeps_rules; simp)+
  obtain vs e rest where tv: "take_vals strm [] = (vs, e, rest)" by (cases "take_vals strm []") auto
  have rec: "keeps core (batch_loop store resp k rest)" if "e = NextKey k" for k
    using 1 tv that by simp
  show ?case
    unfolding batch_loop.simps [of store resp key strm] tv prod.case
    by (intro keeps_rules step 1(3) rec)
qed

lemma core_before_put [keeps_rules]: "keeps core (before_put c)"
  unfolding before_put_def by (intro keeps_rules)

lemma core_stores [keeps_rules]:
  "keeps core (batch_store client c tag persist key l)" "keeps core (batch_resp client tag err)"
  "keeps core (bput_resp client tag err)" "keeps core (open_child tag client c fli b ms)"
  "keeps core (stream_to_child key l ms)" "keeps core (bput_frozen tag fli)"
  unfolding batch_store_def batch_resp_def bput_resp_def open_child_def stream_to_child_def bput_frozen_def
  by (intro keeps_rules)+

lemma core_bput_parts [keeps_rules]:
  "keeps core (bput_store client c kids key l)" "keeps core (bput_except tag fli k vals e)"
  "keeps core (bput_stage client c tag fli ms b key h vals)" "keeps core (bput_batch_except client tag e)"
  unfolding bput_store_def bput_except_def bput_stage_def bput_batch_except_def by (intro keeps_rules)+

lemma core_batch_handlers [keeps_rules]:
  "keeps core (batch_put client c tag persist)" "keeps core (bput client c tag fli ms b)"
  unfolding batch_put_def batch_put_thread_def batch_main_def batch_finish_def bput_def bput_batch_thread_def
    bput_batch_main_def bput_batch_finish_def bput_single_def
  by (intro keeps_rules; simp)+

lemma core_load_mems [keeps_rules]: "keeps core (load_mems ms ind)"
  by (induction ms ind rule: load_mems.induct) (unfold load_mems.simps, (intro keeps_rules; simp)+)

lemma core_make_lists [keeps_rules]: "keeps core (make_lists d)"
  by (induction d rule: make_lists.induct) (unfold make_lists.simps, (intro keeps_rules; simp)+)

lemma core_load [keeps_rules]: "keeps core (persister_load b)" "keeps core (clear_and_add_restored_chkpt ck)"
  unfolding persister_load_def rebuild_ck_def clear_and_add_restored_chkpt_def clear_states_def
  by (intro keeps_rules; simp)+

lemma core_restore_handlers [keeps_rules]:
  "keeps core (restore c client tag fli)" "keeps core (mgr_advance client tag fli)"
  "keeps core (persist_chkpts client tag fli)" "keeps core (mgr_chkpt_avail c tag fli)"
  "keeps core (persisted_chkpt_avail c tag fli)" "keeps core (mgr_persist c tag fli)"
  unfolding restore_def mgr_advance_def advance_reply_def persist_chkpts_def mgr_chkpt_avail_def
    persisted_chkpt_avail_def mgr_persist_def force_persist_def
  by (intro keeps_rules; simp)+

lemma core_handle_request [keeps_rules]: "keeps core (handle_request q)"
  by (cases q) (simp_all add: keeps_rules)

definition stops :: "dd_msg \<Rightarrow> bool" where
  "stops m \<longleftrightarrow> m = UnknownMsg \<or> (\<exists>b. m = DDDestroyManager b)"

lemma core_dispatch: "\<not> stops m \<Longrightarrow> keeps core (dispatch m)"
  by (cases m) (auto simp: stops_def keeps_rules)

lemma core_serve: "\<not> stops m \<Longrightarrow> keeps core (serve m mem strm)"
  unfolding serve_def by (intro keeps_rules core_dispatch; simp)

text \<open>
  C21: No request stops a manager, except the one to destroy it and a message it does not know: whatever
  a handler does or raises, the manager serves afterwards as it did before, and as long as closing a
  receive handle does not raise, its loop goes on to the next message.
\<close>

theorem serve_goes_on:
  assumes "\<not> stops m"
  shows "mg_serving (snd (serve m mem strm s)) = mg_serving s \<and>
    (mg_close_error s = None \<longrightarrow> fst (serve m mem strm s) = Inr ())"
proof (intro conjI impI)
  show "mg_serving (snd (serve m mem strm s)) = mg_serving s"
    using core_serve [OF assms, of mem strm] unfolding keeps_def core_def by simp
  assume c: "mg_close_error s = None"
  let ?s = "s\<lparr>mg_stream := strm, mg_recv_open := True\<rparr>"
  have "keeps core (sq (try_except (dispatch m) (\<lambda>e. ret ())) (try_except (free_mem mem) (\<lambda>e. ret ())))"
    using core_dispatch [OF assms] by (intro keeps_rules)
  then have "mg_close_error (snd (sq (try_except (dispatch m) (\<lambda>e. ret ())) (try_except (free_mem mem) (\<lambda>e. ret ())) ?s)) = None"
    using c unfolding keeps_def core_def by simp
  then show "fst (serve m mem strm s) = Inr ()"
    unfolding serve_def
    by (auto simp: py_simps recvh_close_def split: prod.splits sum.splits option.splits if_splits)
qed

theorem serve_goes_on_witness:
  "fst (serve (DDIteratorNext 7) (demo_alloc 9 ''m'') [] (demo_mgr\<lparr>mg_serving := True\<rparr>)) = Inr () \<and>
   mg_serving (snd (serve (DDIteratorNext 7) (demo_alloc 9 ''m'') [] (demo_mgr\<lparr>mg_serving := True\<rparr>)))"
proof -
  have "\<not> stops (DDIteratorNext 7)" by (simp add: stops_def)
  moreover have "mg_close_error (demo_mgr\<lparr>mg_serving := True\<rparr>) = None"
    by (simp add: demo_mgr_def make_manager_def)
  ultimately show ?thesis using serve_goes_on [of "DDIteratorNext 7" "demo_alloc 9 ''m''" "[]"] by simp
qed

end
