(* ===== verification/Cluster.thy ===== *)
theory Cluster
  imports Broadcast Server
begin

text \<open>
  Several managers and the requests in flight between them: a request that reaches manager 0 and is
  passed on by \<open>_send_dmsg_to_children\<close> reaches every manager, whatever the order of delivery.
\<close>

section \<open>Deliveries\<close>

text \<open>The requests a manager passed on, among what it sent.\<close>

fun passed_on :: "event \<Rightarrow> (nat \<times> request) option" where
  "passed_on (SentMsg (ManagerFLI j) (Forwarded q)) = Some (j, q)"
| "passed_on _ = None"

definition forwarded :: "event list \<Rightarrow> (nat \<times> request) list" where
  "forwarded es = List.map_filter passed_on es"

lemma forwarded_simps [simp]:
  "forwarded [] = []" "forwarded (e # es) = (case passed_on e of None \<Rightarrow> forwarded es | Some x \<Rightarrow> x # forwarded es)"
  "forwarded (es @ fs) = forwarded es @ forwarded fs"
  by (simp_all add: forwarded_def map_filter_simps List.map_filter_def split: option.split)

text \<open>What a manager sent since it was in state \<open>s\<close>.\<close>

definition sent_since :: "mgr \<Rightarrow> mgr \<Rightarrow> event list" where
  "sent_since s t = drop (length (mg_out s)) (mg_out t)"

type_synonym cluster = "(nat \<Rightarrow> mgr) \<times> (nat \<times> request) multiset"

inductive cluster_step :: "cluster \<Rightarrow> cluster \<Rightarrow> bool" where
  deliver: "serve (Tree q) mem [] (M j) = (r, t) \<Longrightarrow>
    cluster_step (M, add_mset (j, q) P) (M(j := t), P + mset (forwarded (sent_since (M j) t)))"

inductive_cases cluster_stepE: "cluster_step (M, Q) C"

lemma cluster_progress: "Q \<noteq> {#} \<Longrightarrow> \<exists>C. cluster_step (M, Q) C"
proof -
  assume "Q \<noteq> {#}"
  then obtain j q P where "Q = add_mset (j, q) P" by (metis multiset_cases surj_pair)
  then show ?thesis using deliver [of q undefined M j] by (metis surj_pair)
qed

section \<open>Requests that go down the heap\<close>

text \<open>The contract of a handler that passes its request on: on a manager that is \<open>ready\<close>, it sends the
  request to the manager's children in the heap and establishes \<open>post\<close>.\<close>

locale tree_request =
  fixes n :: nat and q :: request and ready :: "nat \<Rightarrow> mgr \<Rightarrow> bool" and post :: "mgr \<Rightarrow> mgr \<Rightarrow> bool"
  assumes handled: "ready j s \<Longrightarrow> serve (Tree q) mem [] s = (r, t) \<Longrightarrow>
    post s t \<and> forwarded (sent_since s t) = map (\<lambda>k. (k, q)) (heap_kids n j)"
begin

definition sim :: "(nat \<Rightarrow> mgr) \<Rightarrow> cluster \<Rightarrow> nat multiset \<times> nat multiset \<Rightarrow> bool" where
  "sim M C A = (case (C, A) of ((M', P), (J, H)) \<Rightarrow> P = image_mset (\<lambda>j. (j, q)) J \<and>
     (\<forall>i. if i \<in># H then post (M i) (M' i) else M' i = M i))"

lemma sim_step:
  assumes sim: "sim M (M', P) (J, H)" and step: "cluster_step (M', P) (M'', P')" and ready: "\<forall>i < n. ready i (M i)"
    and J: "\<forall>j \<in># J. j < n \<and> j \<notin># H"
  shows "\<exists>J' H'. heap.spread n (J, H) (J', H') \<and> sim M (M'', P') (J', H')"
proof -
  obtain j q' mem r t Q where P: "P = add_mset (j, q') Q" and sv: "serve (Tree q') mem [] (M' j) = (r, t)"
    and res: "M'' = M'(j := t)" "P' = Q + mset (forwarded (sent_since (M' j) t))"
    using step by (auto elim: cluster_stepE)
  have P': "add_mset (j, q') Q = image_mset (\<lambda>j. (j, q)) J" using sim P by (simp add: sim_def)
  then have "(j, q') \<in># image_mset (\<lambda>j. (j, q)) J" by (metis union_single_eq_member)
  then have q': "q' = q" and jJ: "j \<in># J" by auto
  obtain K where K: "J = add_mset j K" using jJ by (metis insert_DiffM)
  have Q: "Q = image_mset (\<lambda>j. (j, q)) K" using P' q' K by simp
  have Mj: "M' j = M j" using sim J jJ by (auto simp: sim_def split: if_splits)
  have h: "post (M j) t" "forwarded (sent_since (M j) t) = map (\<lambda>k. (k, q)) (heap_kids n j)"
    using handled [of j "M j" mem r t] sv q' Mj ready J jJ by auto
  have "sim M (M'', P') (K + mset (heap_kids n j), add_mset j H)"
    using sim res Q h Mj by (auto simp: sim_def)
  moreover have "heap.spread n (J, H) (K + mset (heap_kids n j), add_mset j H)"
    unfolding K by (rule heap.deliver)
  ultimately show ?thesis by blast
qed

lemma sim_run:
  assumes "(cluster_step ^^ k) (M, {#(0, q)#}) (M', P)" "\<forall>i < n. ready i (M i)" "0 < n"
  shows "\<exists>J H. (heap.spread n ^^ k) ({#0#}, {#}) (J, H) \<and> sim M (M', P) (J, H)"
  using assms(1)
proof (induction k arbitrary: M' P)
  case 0
  then have "M' = M" "P = {#(0, q)#}" by auto
  then show ?case by (auto simp: sim_def intro!: exI [of _ "{#0#}"] exI [of _ "{#}"])
next
  case (Suc k)
  then obtain M1 P1 where st: "(cluster_step ^^ k) (M, {#(0, q)#}) (M1, P1)" and last: "cluster_step (M1, P1) (M', P)"
    by (auto elim!: relpowp_Suc_E simp del: relpowp.simps)
  obtain J H where a: "(heap.spread n ^^ k) ({#0#}, {#}) (J, H)" "sim M (M1, P1) (J, H)" using Suc.IH [OF st] by blast
  have c: "(\<Sum>j \<in># J. mset_set (heap_part n j)) + H = mset_set {..<n}" "\<forall>j \<in># J. j < n"
    using heap.spread_pow [OF a(1)] assms(3) heap_part_root by auto
  have "j \<notin># H" if "j \<in># J" for j
  proof
    assume "j \<in># H"
    obtain K where K: "J = add_mset j K" using \<open>j \<in># J\<close> by (metis insert_DiffM)
    have "j \<in># mset_set (heap_part n j)" using c(2) that ancestors_self by (simp add: heap_part_def)
    then have "2 \<le> count ((\<Sum>j \<in># J. mset_set (heap_part n j)) + H) j"
      using \<open>j \<in># H\<close> K by (simp add: Suc_leI add_mono numeral_2_eq_2 count_greater_zero_iff [symmetric] del: count_greater_zero_iff)
    then show False using c(1) by (simp add: count_mset_set' split: if_splits)
  qed
  then obtain J' H' where "heap.spread n (J, H) (J', H')" "sim M (M', P) (J', H')"
    using sim_step [OF a(2) last assms(2)] c(2) by blast
  then show ?case using a(1) by (auto intro: relpowp_Suc_I simp del: relpowp.simps)
qed

lemma delivered_everywhere:
  assumes "(cluster_step ^^ k) (M, {#(0, q)#}) (M', P)" "\<forall>i < n. ready i (M i)" "0 < n"
  shows "k \<le> n" and "P = {#} \<longleftrightarrow> k = n" and "P = {#} \<Longrightarrow> \<forall>i < n. post (M i) (M' i)"
proof -
  obtain J H where a: "(heap.spread n ^^ k) ({#0#}, {#}) (J, H)" "sim M (M', P) (J, H)" using sim_run [OF assms] by blast
  note fin = heap.spread_complete [OF a(1) assms(3)]
  have PJ: "P = {#} \<longleftrightarrow> J = {#}" using a(2) by (simp add: sim_def)
  show "k \<le> n" "P = {#} \<longleftrightarrow> k = n" using fin(1,2) PJ by (simp_all add: heap_part_root)
  show "\<forall>i < n. post (M i) (M' i)" if "P = {#}"
  proof -
    have "H = mset_set {..<n}" using fin(3) that PJ by (simp add: heap_part_root)
    then show ?thesis using a(2) by (auto simp: sim_def)
  qed
qed

end

section \<open>Freezing all managers\<close>

text \<open>A manager that can do its part: it knows its place and its connections work.\<close>

definition placed :: "nat \<Rightarrow> nat \<Rightarrow> mgr \<Rightarrow> bool" where
  "placed n j s \<longleftrightarrow> mg_manager_id s = j \<and> length (mg_managers s) = n \<and> mg_broken s = {} \<and> mg_close_error s = None"

lemma send_children_run:
  assumes "placed n j s"
  shows "send_dmsg_to_children q s =
    (Inr (), s\<lparr>mg_out := mg_out s @ map (\<lambda>k. SentMsg (ManagerFLI k) (Forwarded q)) (heap_kids n j)\<rparr>)"
  using assms
  by (auto simp: placed_def send_dmsg_to_children_def send_if_def send_msg_def emit_def heap_kids_def py_simps)

lemma forwarded_map [simp]: "forwarded (map (\<lambda>k. SentMsg (ManagerFLI k) (Forwarded q)) ks) = map (\<lambda>k. (k, q)) ks"
  by (induction ks) simp_all

text \<open>What freezing establishes on one manager: it is frozen, and the client got one answer from it.\<close>

definition answers :: "string \<Rightarrow> event list \<Rightarrow> dmsg list" where
  "answers fli es = concat (map (\<lambda>e. case e of SentMsg c m \<Rightarrow> if c = RespFLI fli then [m] else [] | _ \<Rightarrow> []) es)"

lemma answers_append [simp]: "answers fli (es @ fs) = answers fli es @ answers fli fs"
  by (simp add: answers_def)

lemma answers_forwards [simp]: "answers fli (map (\<lambda>k. SentMsg (ManagerFLI k) (Forwarded q)) ks) = []"
  by (simp add: answers_def)

lemma answers_one [simp]: "answers fli [SentMsg (RespFLI fli) m] = [m]"
  by (simp add: answers_def)

definition frozen_post :: "bool \<Rightarrow> string \<Rightarrow> (int \<Rightarrow> dmsg) \<Rightarrow> mgr \<Rightarrow> mgr \<Rightarrow> bool" where
  "frozen_post ro fli mk s t \<longleftrightarrow> mg_read_only t = ro \<and> answers fli (sent_since s t) = [mk (mg_tag s)] \<and>
     mg_ws t = mg_ws s \<and> mg_lists t = mg_lists s"

lemma free_quietly_keeps:
  "try_except (free_mem mem) (\<lambda>e. ret ()) s = (Inr (), s\<lparr>mg_live := mg_live s - {ident mem}\<rparr>)"
  by (simp add: try_except_apply free_mem_def)

lemma serve_freeze:
  assumes "placed n j s"
  shows "serve (Tree (DDFreeze tag fli)) mem [] s =
    (Inr (), s\<lparr>mg_stream := [], mg_recv_open := False, mg_read_only := True,
       mg_out := mg_out s @ map (\<lambda>k. SentMsg (ManagerFLI k) (Forwarded (DDFreeze tag fli))) (heap_kids n j) @
         [SentMsg (RespFLI fli) (DDFreezeResponse (mg_tag s) tag SUCCESS)],
       mg_tag := mg_tag s + 1, mg_live := mg_live s - {ident mem}\<rparr>)"
proof -
  let ?s = "s\<lparr>mg_stream := [], mg_recv_open := False, mg_read_only := True\<rparr>"
  have "placed n j ?s" using assms by (simp add: placed_def)
  note ch = send_children_run [OF this, of "DDFreeze tag fli"]
  show ?thesis
    using assms ch
    by (simp add: serve_def freeze_def answering_def respond_def resp_fli_def tag_inc_def send_msg_def emit_def
        recvh_close_def placed_def py_simps free_mem_def)
qed

lemma serve_unfreeze:
  assumes "placed n j s"
  shows "serve (Tree (DDUnFreeze tag fli)) mem [] s =
    (Inr (), s\<lparr>mg_stream := [], mg_recv_open := False, mg_read_only := False,
       mg_out := mg_out s @ map (\<lambda>k. SentMsg (ManagerFLI k) (Forwarded (DDUnFreeze tag fli))) (heap_kids n j) @
         [SentMsg (RespFLI fli) (DDUnFreezeResponse (mg_tag s) tag SUCCESS)],
       mg_tag := mg_tag s + 1, mg_live := mg_live s - {ident mem}\<rparr>)"
proof -
  let ?s = "s\<lparr>mg_stream := [], mg_recv_open := False, mg_read_only := False\<rparr>"
  have "placed n j ?s" using assms by (simp add: placed_def)
  note ch = send_children_run [OF this, of "DDUnFreeze tag fli"]
  show ?thesis
    using assms ch
    by (simp add: serve_def unfreeze_def answering_def respond_def resp_fli_def tag_inc_def send_msg_def emit_def
        recvh_close_def placed_def py_simps free_mem_def)
qed

interpretation frz: tree_request n "DDFreeze tag fli" "placed n" "frozen_post True fli (\<lambda>t. DDFreezeResponse t tag SUCCESS)" for n tag fli
  by unfold_locales (auto simp: serve_freeze frozen_post_def sent_since_def)

interpretation unfrz: tree_request n "DDUnFreeze tag fli" "placed n" "frozen_post False fli (\<lambda>t. DDUnFreezeResponse t tag SUCCESS)" for n tag fli
  by unfold_locales (auto simp: serve_unfreeze frozen_post_def sent_since_def)

text \<open>
  C18: A freeze request given to manager 0 freezes the whole dictionary.  Whatever the order in which the
  requests the managers pass on are delivered, nothing is in flight after exactly as many deliveries as
  there are managers (never more, and before that some delivery is always possible); then every manager
  is frozen, has its data unchanged and has answered the client exactly once, with success.
\<close>

theorem freeze_reaches_all:
  assumes "\<forall>i < n. placed n i (M i)" "0 < n" "(cluster_step ^^ k) (M, {#(0, DDFreeze tag fli)#}) (M', P)"
  shows "k \<le> n \<and> (P = {#} \<longleftrightarrow> k = n) \<and> (k < n \<longrightarrow> (\<exists>C. cluster_step (M', P) C)) \<and>
    (k = n \<longrightarrow> (\<forall>i < n. mg_read_only (M' i) \<and> mg_ws (M' i) = mg_ws (M i) \<and> mg_lists (M' i) = mg_lists (M i) \<and>
       answers fli (sent_since (M i) (M' i)) = [DDFreezeResponse (mg_tag (M i)) tag SUCCESS]))"
proof -
  note d = frz.delivered_everywhere [OF assms(3,1,2)]
  have "\<exists>C. cluster_step (M', P) C" if "k < n" using cluster_progress d(2) that by simp
  then show ?thesis using d by (auto simp: frozen_post_def)
qed

definition demo_place :: "nat \<Rightarrow> mgr" where
  "demo_place i = demo_mgr\<lparr>mg_manager_id := i, mg_managers := [''a'', ''b'', ''c'']\<rparr>"

theorem freeze_reaches_all_witness:
  "\<exists>M'. (cluster_step ^^ 1) (demo_place, {#(0, DDFreeze 5 ''r'')#}) (M', {#(1, DDFreeze 5 ''r''), (2, DDFreeze 5 ''r'')#}) \<and>
     (\<exists>C. cluster_step (M', {#(1, DDFreeze 5 ''r''), (2, DDFreeze 5 ''r'')#}) C)"
proof -
  have p: "\<forall>i < 3. placed 3 i (demo_place i)"
    by (simp add: placed_def demo_place_def demo_mgr_def make_manager_def)
  obtain t where sv: "serve (Tree (DDFreeze 5 ''r'')) (demo_alloc 9 ''m'') [] (demo_place 0) = (Inr (), t)"
    and out: "forwarded (sent_since (demo_place 0) t) = [(1, DDFreeze 5 ''r''), (2, DDFreeze 5 ''r'')]"
    using serve_freeze [of 3 0 "demo_place 0" 5 "''r''" "demo_alloc 9 ''m''"] p
    by (auto simp: sent_since_def heap_kids_def)
  have "cluster_step (demo_place, {#(0, DDFreeze 5 ''r'')#}) (demo_place(0 := t), {#(1, DDFreeze 5 ''r''), (2, DDFreeze 5 ''r'')#})"
    using deliver [where M = demo_place and j = 0 and P = "{#}", OF sv] out by simp
  then have st: "(cluster_step ^^ 1) (demo_place, {#(0, DDFreeze 5 ''r'')#}) (demo_place(0 := t), {#(1, DDFreeze 5 ''r''), (2, DDFreeze 5 ''r'')#})"
    by (simp add: eq_OO)
  then show ?thesis using freeze_reaches_all [OF p _ st] by auto
qed

section \<open>Broadcast puts\<close>

definition opened :: "(nat list \<Rightarrow> request) \<Rightarrow> nat list list \<Rightarrow> event list" where
  "opened mk kids = map (\<lambda>ms. SentMsg (ManagerFLI (hd ms)) (Forwarded (mk ms))) kids"

lemma open_children_run:
  "mg_broken s = {} \<Longrightarrow> \<forall>ms \<in> set kids. hd ms < length (mg_managers s) \<Longrightarrow>
   for_each kids (open_child tag client c fli batch) s =
     (Inr (), s\<lparr>mg_out := mg_out s @ opened (\<lambda>ms. DDBPut tag client c fli ms batch) kids\<rparr>)"
  by (induction kids arbitrary: s) (simp_all add: opened_def open_child_def send_bytes_def emit_def py_simps)

lemma bput_children_parts:
  assumes "ms' \<in> set (bput_children ms)"
  shows "length ms' < length ms" "ms' \<noteq> []" "set ms' \<subseteq> set ms"
proof -
  let ?r = "drop 1 ms"
  have "ms' = take (length ?r div 2) ?r \<or> ms' = drop (length ?r div 2) ?r" "ms' \<noteq> []"
    using assms unfolding bput_children_def Let_def set_filter list.set by blast+
  then show "length ms' < length ms" "ms' \<noteq> []" "set ms' \<subseteq> set ms"
    by (auto dest: in_set_takeD in_set_dropD)
qed

text \<open>
  A broadcast put reaches every manager of its list exactly once.  A manager that got the request with
  a list sends it on to the heads of the two halves of the rest of that list, with the halves.  Whatever
  the order of delivery, nothing is in flight after exactly as many deliveries as the list has managers,
  and the managers that have handled the request are then the managers of the list, with their
  multiplicity.
\<close>

lemma bput_reaches_all:
  assumes "managers \<noteq> []" "(halves.spread ^^ k) ({#managers#}, {#}) (J, H)"
  shows "k \<le> length managers \<and> (J = {#} \<longleftrightarrow> k = length managers) \<and> (J = {#} \<longrightarrow> H = mset managers) \<and>
    (mg_broken s = {} \<and> (\<forall>m \<in> set managers. m < length (mg_managers s)) \<longrightarrow>
       for_each (bput_children managers) (open_child tag client c fli batch) s =
         (Inr (), s\<lparr>mg_out := mg_out s @ opened (\<lambda>ms. DDBPut tag client c fli ms batch) (bput_children managers)\<rparr>))"
proof -
  have "\<forall>ms \<in> set (bput_children managers). hd ms < length (mg_managers s)"
    if "\<forall>m \<in> set managers. m < length (mg_managers s)"
    using that bput_children_parts(2,3) by (meson hd_in_set subsetD)
  then show ?thesis using halves.spread_complete [OF assms(2,1)] open_children_run by auto
qed

end
