(* ===== verification/FileNames.thy ===== *)
theory FileNames
  imports Prelude
begin

text \<open>
  The names of checkpoint files, as \<open>PosixCheckpointPersister\<close> of \<open>data/ddict/ddict.py\<close> builds and parses
  them: \<open>__init__\<close> finds the persisted checkpoints of a manager by the names of the files in the persist
  path, and \<open>prepare\<close> removes the files later than the checkpoint to restore.  Both glob for a prefix and
  a suffix.  The prefix is taken to hold none of the characters that are special in a glob pattern; the
  directory is the list of its file names, in the order the file system gives them.
\<close>

section \<open>Integers as text\<close>

text \<open>\<open>str(n)\<close> of an integer.\<close>

definition digit :: "nat \<Rightarrow> char" where
  "digit d = char_of (48 + d)"

fun dec :: "nat \<Rightarrow> string" where
  "dec n = (if n < 10 then [digit n] else dec (n div 10) @ [digit (n mod 10)])"

declare dec.simps [simp del]

definition str_int :: "int \<Rightarrow> string" where
  "str_int i = (if i < 0 then CHR ''-'' # dec (nat (- i)) else dec (nat i))"

text \<open>\<open>int(s)\<close> of a string: blanks around it, a sign, and digits, between which single underscores may
  stand.\<close>

definition is_digit :: "char \<Rightarrow> bool" where
  "is_digit c \<longleftrightarrow> 48 \<le> (of_char c :: nat) \<and> (of_char c :: nat) \<le> 57"

definition digit_val :: "char \<Rightarrow> nat" where
  "digit_val c = of_char c - 48"

definition is_blank :: "char \<Rightarrow> bool" where
  "is_blank c \<longleftrightarrow> (let n = of_char c :: nat in (9 \<le> n \<and> n \<le> 13) \<or> (28 \<le> n \<and> n \<le> 32) \<or> n = 133 \<or> n = 160)"

definition strip :: "string \<Rightarrow> string" where
  "strip s = rev (dropWhile is_blank (rev (dropWhile is_blank s)))"

fun digits_val :: "bool \<Rightarrow> nat \<Rightarrow> string \<Rightarrow> nat option" where
  "digits_val after_digit n [] = (if after_digit then Some n else None)"
| "digits_val after_digit n (c # cs) =
     (if is_digit c then digits_val True (10 * n + digit_val c) cs
      else if c = CHR ''_'' \<and> after_digit then digits_val False n cs
      else None)"

definition py_int :: "string \<Rightarrow> int res" where
  "py_int s =
     (let t = strip s;
          (neg, ds) = (case t of [] \<Rightarrow> (False, [])
                       | c # cs \<Rightarrow> if c = CHR ''-'' then (True, cs) else if c = CHR ''+'' then (False, cs) else (False, t))
      in case digits_val False 0 ds of None \<Rightarrow> Inl ValueError | Some n \<Rightarrow> Inr (if neg then - int n else int n))"

section \<open>File names\<close>

definition FNAME_SUFFIX :: string where
  "FNAME_SUFFIX = ''.ddict''"

definition fname_prefix :: "string \<Rightarrow> nat \<Rightarrow> string" where
  "fname_prefix name manager_id = name @ ''_'' @ str_int (int manager_id) @ ''_''"

definition chkpt_file_name :: "string \<Rightarrow> nat \<Rightarrow> int \<Rightarrow> string" where
  "chkpt_file_name name manager_id c = fname_prefix name manager_id @ str_int c @ FNAME_SUFFIX"

text \<open>\<open>path.glob(prefix*suffix)\<close>, and \<open>s[len(prefix):][:-len(suffix)]\<close>\<close>

definition ends_with :: "string \<Rightarrow> string \<Rightarrow> bool" where
  "ends_with suf s \<longleftrightarrow> length suf \<le> length s \<and> drop (length s - length suf) s = suf"

definition glob :: "string \<Rightarrow> string \<Rightarrow> string list \<Rightarrow> string list" where
  "glob pre suf dir = filter (\<lambda>f. take (length pre) f = pre \<and> length pre \<le> length f \<and>
     ends_with suf (drop (length pre) f)) dir"

definition between :: "string \<Rightarrow> string \<Rightarrow> string \<Rightarrow> string" where
  "between pre suf s = (let t = drop (length pre) s in take (length t - length suf) t)"

text \<open>The part of \<open>__init__\<close> that collects the available checkpoints.\<close>

fun parsed_ids :: "string \<Rightarrow> string list \<Rightarrow> int list" where
  "parsed_ids pre [] = []"
| "parsed_ids pre (f # fs) =
     (case py_int (between pre FNAME_SUFFIX f) of Inl e \<Rightarrow> parsed_ids pre fs | Inr c \<Rightarrow> c # parsed_ids pre fs)"

definition available_checkpoints :: "string \<Rightarrow> nat \<Rightarrow> string list \<Rightarrow> int list" where
  "available_checkpoints name manager_id dir =
     (let pre = fname_prefix name manager_id in sort (parsed_ids pre (glob pre FNAME_SUFFIX dir)))"

text \<open>\<open>prepare\<close>: the checkpoint of a file is the last part of its name.\<close>

definition last_part :: "string \<Rightarrow> string" where
  "last_part s = rev (takeWhile (\<lambda>c. c \<noteq> CHR ''_'') (rev s))"

definition remove_file :: "string \<Rightarrow> (string list, unit) pym" where
  "remove_file f dir = (if f \<in> set dir then (Inr (), removeAll f dir) else (Inl FileNotFoundError, dir))"

definition prepare_file :: "string \<Rightarrow> int \<Rightarrow> string \<Rightarrow> (string list, unit) pym" where
  "prepare_file pre restore_from f =
     bnd (lift_res (\<lambda>_. py_int (last_part (between pre FNAME_SUFFIX f)))) (\<lambda>c.
       if restore_from < c then remove_file f else ret ())"

definition prepare :: "string \<Rightarrow> int option \<Rightarrow> bool \<Rightarrow> (string list, unit) pym" where
  "prepare name restore_from read_only = (case restore_from of None \<Rightarrow> ret ()
     | Some r \<Rightarrow>
         if read_only then ret ()
         else bnd (gets (glob (name @ ''_'') FNAME_SUFFIX)) (\<lambda>files.
                for_each files (prepare_file (name @ ''_'') r)))"

section \<open>Reading what was written\<close>

lemma digit_props [simp]:
  assumes "d < 10"
  shows "is_digit (digit d)" "digit_val (digit d) = d"
  using assms by (simp_all add: is_digit_def digit_val_def digit_def)

lemma underscore_no_digit: "is_digit c \<Longrightarrow> c \<noteq> CHR ''_'' \<and> c \<noteq> CHR ''-'' \<and> c \<noteq> CHR ''+'' \<and> \<not> is_blank c"
  by (auto simp: is_digit_def is_blank_def Let_def)

lemma dec_not_Nil [simp]: "dec n \<noteq> []"
  by (subst dec.simps) simp

lemma dec_digit: "c \<in> set (dec n) \<Longrightarrow> is_digit c"
proof (induction n rule: dec.induct)
  case (1 n)
  then show ?case using dec.simps [of n] by (auto split: if_splits)
qed

definition number :: "nat \<Rightarrow> string \<Rightarrow> nat" where
  "number n ds = foldl (\<lambda>a c. 10 * a + digit_val c) n ds"

lemma number_append: "number n (xs @ ys) = number (number n xs) ys"
  by (simp add: number_def)

lemma number_dec [simp]: "number 0 (dec n) = n"
proof (induction n rule: dec.induct)
  case (1 n)
  show ?case
  proof (cases "n < 10")
    case True
    then show ?thesis by (subst dec.simps) (simp add: number_def)
  next
    case False
    then have "number 0 (dec n) = 10 * number 0 (dec (n div 10)) + n mod 10"
      by (subst dec.simps) (simp add: number_append, simp add: number_def)
    then show ?thesis using 1 False by simp
  qed
qed

lemma number_shift: "number n ds = n * 10 ^ length ds + number 0 ds"
  unfolding number_def
proof (induction ds rule: rev_induct)
  case (snoc d ds)
  then show ?case by simp
qed simp

lemma digits_val_digits:
  "\<forall>c \<in> set ds. is_digit c \<Longrightarrow> digits_val b n (ds @ rest) = digits_val (b \<or> ds \<noteq> []) (number n ds) rest"
  by (induction ds arbitrary: b n) (simp_all add: number_def)

lemma digits_val_dec [simp]: "digits_val b n (dec m @ rest) = digits_val True (number n (dec m)) rest"
  using digits_val_digits [of "dec m" b n rest] dec_digit by simp

lemma strip_id: "s \<noteq> [] \<Longrightarrow> \<not> is_blank (hd s) \<Longrightarrow> \<not> is_blank (last s) \<Longrightarrow> strip s = s"
  unfolding strip_def by (metis dropWhile_eq_self_iff hd_rev rev_is_Nil_conv rev_rev_ident)

lemma dec_ends: "\<not> is_blank (hd (dec n))" "\<not> is_blank (last (dec n))" "is_digit (hd (dec n))"
  using dec_digit [of "hd (dec n)" n] dec_digit [of "last (dec n)" n] underscore_no_digit
  by (auto simp: hd_in_set last_in_set)

lemma py_int_digits:
  assumes "s = dec n @ rest" "rest \<noteq> [] \<Longrightarrow> \<not> is_blank (last rest)"
  shows "py_int s = (case digits_val True n rest of None \<Rightarrow> Inl ValueError | Some k \<Rightarrow> Inr (int k))"
proof -
  have hd: "hd s = hd (dec n)" "s \<noteq> []" using assms(1) by auto
  have l: "last s = (if rest = [] then last (dec n) else last rest)" using assms(1) by simp
  have st: "strip s = s" by (rule strip_id) (use hd l dec_ends assms(2) in auto)
  obtain c cs where s: "s = c # cs" using hd(2) by (cases s) auto
  have "is_digit c" using s hd(1) dec_ends(3) by simp
  then have "c \<noteq> CHR ''-''" "c \<noteq> CHR ''+''" using underscore_no_digit by auto
  moreover have "digits_val False 0 s = digits_val True n rest"
    using assms(1) by simp
  ultimately show ?thesis using st s by (simp add: py_int_def Let_def del: digits_val.simps split: option.splits)
qed

lemma py_int_str [simp]: "py_int (str_int i) = Inr i"
proof (cases "i < 0")
  case True
  have "strip (CHR ''-'' # dec (nat (- i))) = CHR ''-'' # dec (nat (- i))"
    by (rule strip_id) (use dec_ends in \<open>auto simp: is_blank_def\<close>)
  then show ?thesis
    using True digits_val_dec [of False 0 "nat (- i)" "[]"] by (simp add: py_int_def str_int_def)
next
  case False
  then show ?thesis using py_int_digits [of "str_int i" "nat i" "[]"] by (simp add: str_int_def)
qed

lemma str_int_inj: "str_int i = str_int j \<Longrightarrow> i = j"
  by (metis py_int_str sum.inject(2))

lemma str_int_plain: "CHR ''_'' \<notin> set (str_int i)"
proof
  assume "CHR ''_'' \<in> set (str_int i)"
  then have "is_digit CHR ''_''" using dec_digit by (auto simp: str_int_def split: if_splits)
  then show False using underscore_no_digit by blast
qed

lemma split_first:
  assumes "x \<notin> set xs" "x \<notin> set us" "xs @ x # ys = us @ x # vs"
  shows "xs = us \<and> ys = vs"
proof -
  have t: "takeWhile (\<lambda>y. y \<noteq> x) (as @ x # bs) = as" if "x \<notin> set as" for as bs
    using that by (induction as) auto
  then have "takeWhile (\<lambda>y. y \<noteq> x) (xs @ x # ys) = xs" "takeWhile (\<lambda>y. y \<noteq> x) (us @ x # vs) = us"
    using assms(1,2) by auto
  then show ?thesis using assms(3) by auto
qed

section \<open>The files of a dictionary\<close>

lemma in_glob: "f \<in> set (glob pre suf dir) \<longleftrightarrow> f \<in> set dir \<and> (\<exists>x. f = pre @ x @ suf)"
proof -
  have e: "ends_with suf r \<longleftrightarrow> (\<exists>x. r = x @ suf)" for r
    by (auto simp: ends_with_def) (metis append_take_drop_id)
  have "take (length pre) f = pre \<and> length pre \<le> length f \<longleftrightarrow> f = pre @ drop (length pre) f"
    by (metis append_eq_conv_conj append_take_drop_id length_append le_add1)
  then have "take (length pre) f = pre \<and> length pre \<le> length f \<and> ends_with suf (drop (length pre) f) \<longleftrightarrow>
      (\<exists>x. f = pre @ x @ suf)"
    by (metis e append_eq_conv_conj)
  then show ?thesis by (simp add: glob_def)
qed

lemma between_simp [simp]: "between pre suf (pre @ x @ suf) = x"
  by (simp add: between_def)

text \<open>The files of a directory that end in the suffix are checkpoint files of dictionaries whose names
  have no underscore.\<close>

definition plain_dir :: "string list \<Rightarrow> bool" where
  "plain_dir dir \<longleftrightarrow> (\<forall>f \<in> set dir. ends_with FNAME_SUFFIX f \<longrightarrow>
     (\<exists>n m c. CHR ''_'' \<notin> set n \<and> f = chkpt_file_name n m c))"

lemma ends_with_append [simp]: "ends_with suf (x @ suf)"
  by (simp add: ends_with_def)

lemma file_name_parts:
  assumes "CHR ''_'' \<notin> set n" "CHR ''_'' \<notin> set n'" "chkpt_file_name n m c = fname_prefix n' m' @ x @ FNAME_SUFFIX"
  shows "n = n' \<and> m = m' \<and> x = str_int c"
proof -
  have e: "n @ CHR ''_'' # str_int (int m) @ CHR ''_'' # str_int c @ FNAME_SUFFIX =
     n' @ CHR ''_'' # str_int (int m') @ CHR ''_'' # x @ FNAME_SUFFIX"
    using assms(3) by (simp add: chkpt_file_name_def fname_prefix_def)
  note s1 = split_first [OF assms(1,2) e]
  note s2 = split_first [OF str_int_plain str_int_plain s1 [THEN conjunct2]]
  show ?thesis using s1 s2 str_int_inj by fastforce
qed

lemma set_parsed_ids: "set (parsed_ids pre fs) = {c. \<exists>f \<in> set fs. py_int (between pre FNAME_SUFFIX f) = Inr c}"
  by (induction fs) (auto split: sum.splits)

lemma parsed_ids_map:
  "\<forall>f \<in> set fs. \<exists>c. f = pre @ str_int c @ FNAME_SUFFIX \<Longrightarrow> map (\<lambda>c. pre @ str_int c @ FNAME_SUFFIX) (parsed_ids pre fs) = fs"
  by (induction fs) auto

lemma own_files:
  assumes "plain_dir dir" "CHR ''_'' \<notin> set name" "f \<in> set (glob (fname_prefix name m) FNAME_SUFFIX dir)"
  shows "\<exists>c. f = chkpt_file_name name m c"
proof -
  obtain x where x: "f = fname_prefix name m @ x @ FNAME_SUFFIX" "f \<in> set dir" using assms(3) by (auto simp: in_glob)
  have "ends_with FNAME_SUFFIX f" using ends_with_append [of FNAME_SUFFIX "fname_prefix name m @ x"] x(1) by simp
  then obtain n k c where "CHR ''_'' \<notin> set n" "f = chkpt_file_name n k c" using assms(1) x(2) by (auto simp: plain_dir_def)
  then show ?thesis using file_name_parts assms(2) x(1) by metis
qed

lemma own_files_iff:
  assumes "plain_dir dir" "CHR ''_'' \<notin> set name"
  shows "set (glob (fname_prefix name m) FNAME_SUFFIX dir) = {f \<in> set dir. \<exists>c. f = chkpt_file_name name m c}"
  using own_files [OF assms] by (auto simp: in_glob chkpt_file_name_def)

lemma available_set:
  assumes "plain_dir dir" "CHR ''_'' \<notin> set name"
  shows "set (available_checkpoints name m dir) = {c. chkpt_file_name name m c \<in> set dir}"
  unfolding available_checkpoints_def Let_def set_sort set_parsed_ids own_files_iff [OF assms]
  by (auto simp: chkpt_file_name_def)

lemma available_distinct:
  assumes "plain_dir dir" "CHR ''_'' \<notin> set name" "distinct dir"
  shows "distinct (available_checkpoints name m dir)"
proof -
  let ?pre = "fname_prefix name m" and ?fs = "glob (fname_prefix name m) FNAME_SUFFIX dir"
  have own: "\<forall>f \<in> set ?fs. \<exists>c. f = ?pre @ str_int c @ FNAME_SUFFIX"
    using own_files [OF assms(1,2)] by (simp add: chkpt_file_name_def)
  have "distinct ?fs" using assms(3) by (simp add: glob_def)
  then have "distinct (parsed_ids ?pre ?fs)" using parsed_ids_map [OF own] distinct_map by metis
  then show ?thesis by (simp add: available_checkpoints_def Let_def)
qed

definition demo_dir :: "string list" where
  "demo_dir = [chkpt_file_name ''d'' 1 12, chkpt_file_name ''d'' 11 2, ''ddict_orc_d'', chkpt_file_name ''e'' 1 3]"

lemma plain_dir_Nil: "plain_dir []"
  by (simp add: plain_dir_def)

lemma plain_dir_other: "\<not> ends_with FNAME_SUFFIX f \<Longrightarrow> plain_dir dir \<Longrightarrow> plain_dir (f # dir)"
  by (simp add: plain_dir_def)

lemma plain_dir_file: "CHR ''_'' \<notin> set n \<Longrightarrow> plain_dir dir \<Longrightarrow> plain_dir (chkpt_file_name n m c # dir)"
  by (auto simp: plain_dir_def)

lemma demo_dir_plain: "plain_dir demo_dir" "distinct demo_dir" "CHR ''_'' \<notin> set ''d''"
proof -
  show "plain_dir demo_dir" unfolding demo_dir_def
    by (intro plain_dir_Nil plain_dir_other plain_dir_file) (simp_all add: ends_with_def FNAME_SUFFIX_def)
  show "distinct demo_dir" unfolding demo_dir_def by code_simp
  show "CHR ''_'' \<notin> set ''d''" by simp
qed

text \<open>
  C39: Reading back what was persisted.  In a directory whose checkpoint files belong to dictionaries with
  names that have no underscore, the checkpoints a manager finds for a dictionary are, in ascending order
  and without repetition, exactly those that were written under this dictionary's and this manager's name.
\<close>

theorem available_checkpoints_written:
  assumes "plain_dir dir" "CHR ''_'' \<notin> set name" "distinct dir"
  shows "sorted (available_checkpoints name m dir) \<and> distinct (available_checkpoints name m dir) \<and>
    set (available_checkpoints name m dir) = {c. chkpt_file_name name m c \<in> set dir}"
  using available_set [OF assms(1,2)] available_distinct [OF assms]
  by (simp add: available_checkpoints_def Let_def)

theorem available_checkpoints_written_witness:
  "set (available_checkpoints ''d'' 1 demo_dir) = {c. chkpt_file_name ''d'' 1 c \<in> set demo_dir} \<and>
   available_checkpoints ''d'' 1 demo_dir = [12]"
proof
  show "set (available_checkpoints ''d'' 1 demo_dir) = {c. chkpt_file_name ''d'' 1 c \<in> set demo_dir}"
    using available_checkpoints_written [OF demo_dir_plain(1,3,2), of 1] by blast
  show "available_checkpoints ''d'' 1 demo_dir = [12]" by code_simp
qed

section \<open>Removing later checkpoints\<close>

lemma last_part_simp [simp]: "CHR ''_'' \<notin> set x \<Longrightarrow> last_part (y @ CHR ''_'' # x) = x"
  by (induction x rule: rev_induct) (auto simp: last_part_def)

lemma between_file [simp]:
  "between (name @ ''_'') FNAME_SUFFIX (chkpt_file_name name m c) = str_int (int m) @ ''_'' @ str_int c"
  using between_simp [of "name @ ''_''" FNAME_SUFFIX "str_int (int m) @ ''_'' @ str_int c"]
  by (simp add: chkpt_file_name_def fname_prefix_def)

lemma prepare_file_run:
  "f = chkpt_file_name name m c \<Longrightarrow> (r < c \<Longrightarrow> f \<in> set dir) \<Longrightarrow>
   prepare_file (name @ ''_'') r f dir = (Inr (), if r < c then removeAll f dir else dir)"
  using last_part_simp [OF str_int_plain, of "str_int (int m)" c]
  by (simp add: prepare_file_def remove_file_def py_simps)

definition later_file :: "string \<Rightarrow> int \<Rightarrow> string \<Rightarrow> bool" where
  "later_file name r f \<longleftrightarrow> (\<exists>m c. f = chkpt_file_name name m c \<and> r < c)"

lemma file_name_inj: "chkpt_file_name n m c = chkpt_file_name n m' c' \<Longrightarrow> m = m' \<and> c = c'"
proof -
  assume "chkpt_file_name n m c = chkpt_file_name n m' c'"
  then have "str_int (int m) @ CHR ''_'' # str_int c @ FNAME_SUFFIX = str_int (int m') @ CHR ''_'' # str_int c' @ FNAME_SUFFIX"
    by (simp add: chkpt_file_name_def fname_prefix_def)
  from split_first [OF str_int_plain str_int_plain this] show ?thesis using str_int_inj by fastforce
qed

lemma later_file_name: "later_file name r (chkpt_file_name name m c) \<longleftrightarrow> r < c"
  by (auto simp: later_file_def dest: file_name_inj)

lemma prepare_loop:
  assumes "\<forall>f \<in> set fs. (\<exists>m c. f = chkpt_file_name name m c) \<and> f \<in> set dir" "distinct fs"
  shows "for_each fs (prepare_file (name @ ''_'') r) dir =
    (Inr (), filter (\<lambda>f. \<not> (f \<in> set fs \<and> later_file name r f)) dir)"
  using assms
proof (induction fs arbitrary: dir)
  case (Cons f fs)
  obtain m c where f: "f = chkpt_file_name name m c" using Cons.prems by auto
  have later: "later_file name r f \<longleftrightarrow> r < c" using f by (simp add: later_file_name)
  let ?dir = "if r < c then removeAll f dir else dir"
  have "for_each fs (prepare_file (name @ ''_'') r) ?dir =
    (Inr (), filter (\<lambda>f. \<not> (f \<in> set fs \<and> later_file name r f)) ?dir)"
    by (rule Cons.IH) (use Cons.prems in auto)
  moreover have "filter (\<lambda>g. \<not> (g \<in> set fs \<and> later_file name r g)) ?dir =
    filter (\<lambda>g. \<not> (g \<in> set (f # fs) \<and> later_file name r g)) dir"
    using later by (auto simp: removeAll_filter_not_eq intro!: filter_cong)
  ultimately show ?case
    using prepare_file_run [OF f, of r dir] Cons.prems(1) by (simp add: sq_Inr)
qed simp

text \<open>
  Preparing to restore.  In a directory whose checkpoint files belong to dictionaries with names that have
  no underscore, preparing a dictionary for restoring a checkpoint removes exactly the files of this
  dictionary, of any manager, that hold later checkpoints; every manager then finds exactly its checkpoints
  up to the restored one.
\<close>

lemma prepare_removes_later:
  assumes "plain_dir dir" "CHR ''_'' \<notin> set name" "distinct dir"
  shows "prepare name (Some r) False dir = (Inr (), filter (\<lambda>f. \<not> later_file name r f) dir) \<and>
    set (available_checkpoints name m (filter (\<lambda>f. \<not> later_file name r f) dir)) =
      {c \<in> set (available_checkpoints name m dir). c \<le> r}"
proof -
  let ?fs = "glob (name @ ''_'') FNAME_SUFFIX dir" and ?dir = "filter (\<lambda>f. \<not> later_file name r f) dir"
  have own: "\<exists>m c. f = chkpt_file_name name m c" if glb: "f \<in> set ?fs" for f
  proof -
    obtain x where x: "f = (name @ ''_'') @ x @ FNAME_SUFFIX" "f \<in> set dir"
      using glb unfolding in_glob by blast
    then have "ends_with FNAME_SUFFIX f" using ends_with_append [of FNAME_SUFFIX "name @ ''_'' @ x"] by simp
    then obtain n k c where n: "CHR ''_'' \<notin> set n" "f = chkpt_file_name n k c" using assms(1) x(2) by (auto simp: plain_dir_def)
    then have "n @ CHR ''_'' # str_int (int k) @ ''_'' @ str_int c @ FNAME_SUFFIX = name @ CHR ''_'' # x @ FNAME_SUFFIX"
      using x(1) by (simp add: chkpt_file_name_def fname_prefix_def)
    then show ?thesis using split_first [OF n(1) assms(2)] n(2) by blast
  qed
  have mem: "f \<in> set ?fs" if "f \<in> set dir" "later_file name r f" for f
    using that by (auto simp: in_glob later_file_def chkpt_file_name_def fname_prefix_def)
  have "for_each ?fs (prepare_file (name @ ''_'') r) dir = (Inr (), filter (\<lambda>f. \<not> (f \<in> set ?fs \<and> later_file name r f)) dir)"
    by (rule prepare_loop) (use own assms(3) in \<open>auto simp: in_glob glob_def\<close>)
  moreover have "filter (\<lambda>f. \<not> (f \<in> set ?fs \<and> later_file name r f)) dir = ?dir"
    using mem by (auto intro!: filter_cong)
  ultimately have "prepare name (Some r) False dir = (Inr (), ?dir)"
    by (simp add: prepare_def py_simps)
  moreover have "plain_dir ?dir" "distinct ?dir" using assms by (auto simp: plain_dir_def)
  ultimately show ?thesis
    using available_set [OF _ assms(2)] assms(1) by (auto simp: later_file_name)
qed

section \<open>Names with underscores\<close>

lemma glob_own: "glob pre suf [pre @ x @ suf] = [pre @ x @ suf]"
  by (simp add: glob_def)

lemma prepare_single:
  assumes "f = (name @ ''_'') @ x @ FNAME_SUFFIX" "py_int (last_part x) = Inr c" "r < c"
  shows "prepare name (Some r) False [f] = (Inr (), [])"
proof -
  have "glob (name @ ''_'') FNAME_SUFFIX [f] = [f]" unfolding assms(1) by (rule glob_own)
  moreover have "between (name @ ''_'') FNAME_SUFFIX f = x" unfolding assms(1) by (rule between_simp)
  ultimately show ?thesis
    using assms(2,3) by (simp add: prepare_def prepare_file_def remove_file_def py_simps)
qed

text \<open>
  C40: Underscores in names mix dictionaries up.  The files of a dictionary whose name is another's followed
  by an underscore count as the other's: preparing the other one for a restore removes them, and when the
  added part is a manager's number, that manager takes the digits of manager and checkpoint together for
  a checkpoint that nobody has written.
\<close>

theorem names_collide:
  "(r < d \<longrightarrow> prepare name (Some r) False [chkpt_file_name (name @ ''_'' @ x) i d] = (Inr (), [])) \<and>
   available_checkpoints name m [chkpt_file_name (name @ ''_'' @ str_int (int m)) k (int c)] =
     [int (k * 10 ^ length (dec c) + c)]"
proof (intro conjI impI)
  assume "r < d"
  have "last_part (x @ ''_'' @ str_int (int i) @ ''_'' @ str_int d) = str_int d"
    using last_part_simp [OF str_int_plain, of "x @ ''_'' @ str_int (int i)" d] by simp
  then show "prepare name (Some r) False [chkpt_file_name (name @ ''_'' @ x) i d] = (Inr (), [])"
    using \<open>r < d\<close> by (intro prepare_single [where x = "x @ ''_'' @ str_int (int i) @ ''_'' @ str_int d" and c = d])
      (simp_all add: chkpt_file_name_def fname_prefix_def)
next
  let ?pre = "fname_prefix name m" and ?x = "dec k @ CHR ''_'' # dec c"
  have f: "chkpt_file_name (name @ ''_'' @ str_int (int m)) k (int c) = ?pre @ ?x @ FNAME_SUFFIX"
    by (simp add: chkpt_file_name_def fname_prefix_def str_int_def)
  have "digits_val True k (CHR ''_'' # dec c) = Some (k * 10 ^ length (dec c) + c)"
    using digits_val_dec [of False k c "[]"] number_shift [of k "dec c"] by (simp add: is_digit_def)
  then have "py_int ?x = Inr (int (k * 10 ^ length (dec c) + c))"
    using py_int_digits [of ?x k "CHR ''_'' # dec c"] dec_ends by simp
  then show "available_checkpoints name m [chkpt_file_name (name @ ''_'' @ str_int (int m)) k (int c)] =
     [int (k * 10 ^ length (dec c) + c)]"
    unfolding f available_checkpoints_def Let_def glob_own parsed_ids.simps between_simp by simp
qed

theorem names_collide_witness:
  "prepare ''a'' (Some 5) False [chkpt_file_name ''a_b'' 0 7] = (Inr (), []) \<and>
   available_checkpoints ''a'' 0 [chkpt_file_name ''a_0'' 3 7] = [37]"
proof -
  have "dec 7 = ''7''" "str_int 0 = ''0''" by code_simp+
  then show ?thesis using names_collide [of 5 7 "''a''" "''b''" 0 0 3 7] by simp
qed

end
