(* ===== verification/Orchestrator.thy ===== *)
theory Orchestrator
  imports Policy Persister FileNames
begin

text \<open>
  The orchestrator of a distributed dictionary (class \<open>Orchestrator\<close> of \<open>data/ddict/orchestrator.py\<close>): it
  starts the managers, collects their registrations, answers the creator, hands out managers to clients and
  tears the dictionary down.

  Parameters held in the state: which serialized FLIs cannot be attached (\<open>oc_unattachable\<close>), which cannot
  be written to (\<open>oc_silent\<close>; \<open>_send_msg\<close> ignores that), the nodes of the allocation and their host names,
  which element \<open>set.pop\<close> takes, the random name, and what starting the process group raises.
\<close>

section \<open>State\<close>

datatype connector = MainConnector | ReturnConnector

record machine_node =
  h_uid :: nat
  hostname :: string

datatype policy_arg = OnePolicy "policy option" | PolicyList "policy list"

text \<open>The arguments of a create request.  The entries that the orchestrator only passes on to the managers
  are one value.\<close>

record create_args =
  ca_policy :: policy_arg
  ca_name :: string
  ca_restart :: bool
  ca_read_only :: bool
  ca_restore_from :: "int option"
  ca_persist_path :: string
  ca_persister :: persister_kind
  ca_rest :: string

record template =
  tp_mpool_size :: int
  tp_args :: create_args
  tp_manager_id :: nat
  tp_pool :: "string option"
  tp_policy :: "policy option"

record metadata =
  md_pools :: "string option list"
  md_nodes :: "machine_node option list"
  md_persister :: persister_kind

datatype orc_event =
    DDEmptyManagersResponse int int derr "nat list"
  | DDRegisterClientResponse int int derr int nat
  | DDCreateResponse int int derr
  | DDRegisterManagerResponse int int derr "string list" "machine_node option list"
  | DDRandomManagerResponse int int derr string nat
  | DDDestroyManager int bool
  | DDDestroyResponse int int derr
  | DDGetManagersResponse int int derr "bool list" "string list"
  | DDMarkDrainedManagersResponse int int derr
  | DDUnmarkDrainedManagersResponse int int derr
  | DDGetMetaDataResponse int int derr string nat
  | DDManagerNodesResponse int int derr "nat list"

record orc =
  oc_serving :: bool
  oc_connector :: connector
  oc_pool_created :: bool
  oc_received_destroy :: bool
  oc_next_client :: int
  oc_next_main :: nat
  oc_drained :: "(nat, nat list) pydict"
  oc_marked :: "nat set"
  oc_pending :: "(int \<times> string) list"
  oc_per_node :: nat
  oc_num :: nat
  oc_mpool_size :: int
  oc_nodes :: "machine_node option list"
  oc_conns :: "string option list"
  oc_flis :: "string list"
  oc_returns :: "(string \<times> int) option list"
  oc_ready_tags :: "int option list"
  oc_pools :: "string option list"
  oc_tag :: int
  oc_created :: nat
  oc_ready :: nat
  oc_req :: "(int \<times> string) option"
  oc_args :: "create_args option"
  oc_err :: derr
  oc_templates :: "template list"
  oc_allow_restart :: "bool option"
  oc_destroyed :: nat
  oc_files :: "(string \<times> string, metadata) pydict"
  oc_dir :: "string list"
  oc_out :: "(string \<times> orc_event) list"
  oc_main_fli :: string
  oc_unattachable :: "string set"
  oc_silent :: "string set"
  oc_current_nodes :: "nat set"
  oc_hostname :: "nat \<Rightarrow> string"
  oc_pop :: "nat set \<Rightarrow> nat"
  oc_random_name :: string
  oc_group_error :: "exn option"

type_synonym 'a om = "(orc, 'a) pym"

text \<open>\<open>__init__\<close>; with no manager the pool size cannot be computed and the rest is never set.\<close>

definition make_orchestrator ::
    "nat \<Rightarrow> nat \<Rightarrow> int \<Rightarrow> string \<Rightarrow> (string \<times> string, metadata) pydict \<Rightarrow> string list \<Rightarrow> string set \<Rightarrow> string set \<Rightarrow>
     nat set \<Rightarrow> (nat \<Rightarrow> string) \<Rightarrow> (nat set \<Rightarrow> nat) \<Rightarrow> string \<Rightarrow> exn option \<Rightarrow> orc res" where
  "make_orchestrator per_node n_nodes total_mem fli files dir unattachable silent nodes host popped rname gerr =
     (let n = n_nodes * per_node in
      if n = 0 then Inl ZeroDivisionError
      else Inr \<lparr>oc_serving = True, oc_connector = MainConnector, oc_pool_created = False,
        oc_received_destroy = False, oc_next_client = 0, oc_next_main = 0, oc_drained = [], oc_marked = {},
        oc_pending = [], oc_per_node = per_node, oc_num = n, oc_mpool_size = total_mem div int n,
        oc_nodes = replicate n None, oc_conns = replicate n None, oc_flis = replicate n '''',
        oc_returns = replicate n None, oc_ready_tags = replicate n None, oc_pools = replicate n None,
        oc_tag = 0, oc_created = 0, oc_ready = 0, oc_req = None, oc_args = None, oc_err = SUCCESS,
        oc_templates = [], oc_allow_restart = None, oc_destroyed = 0, oc_files = files, oc_dir = dir,
        oc_out = [], oc_main_fli = fli, oc_unattachable = unattachable, oc_silent = silent,
        oc_current_nodes = nodes, oc_hostname = host, oc_pop = popped, oc_random_name = rname,
        oc_group_error = gerr\<rparr>)"

section \<open>Sending\<close>

definition orc_tag_inc :: "int om" where
  "orc_tag_inc s = (Inr (oc_tag s), s\<lparr>oc_tag := oc_tag s + 1\<rparr>)"

definition attach :: "string \<Rightarrow> unit om" where
  "attach fli = lift_res (\<lambda>s. if fli \<in> oc_unattachable s then Inl DragonFLIError else Inr ())"

definition orc_send :: "orc_event \<Rightarrow> string \<Rightarrow> unit om" where
  "orc_send m fli = modify (\<lambda>s. if fli \<in> oc_silent s then s else s\<lparr>oc_out := oc_out s @ [(fli, m)]\<rparr>)"

definition orc_reply :: "string \<Rightarrow> (int \<Rightarrow> orc_event) \<Rightarrow> unit om" where
  "orc_reply fli mk = bnd orc_tag_inc (\<lambda>t. sq (attach fli) (orc_send (mk t) fli))"

text \<open>\<open>_return_create_failure\<close>: before a create request the attributes it reads do not exist.\<close>

definition create_req :: "(int \<times> string) om" where
  "create_req = lift_res (\<lambda>s. case oc_req s of None \<Rightarrow> Inl AttributeError | Some r \<Rightarrow> Inr r)"

definition return_create_failure :: "derr \<Rightarrow> unit om" where
  "return_create_failure ec = bnd orc_tag_inc (\<lambda>t. bnd create_req (\<lambda>(ref, fli).
     sq (attach fli) (orc_send (DDCreateResponse t ref ec) fli)))"

definition create_failed :: "derr \<Rightarrow> bool om" where
  "create_failed ec = sq (return_create_failure ec) (sq (modify (\<lambda>s. s\<lparr>oc_serving := False\<rparr>)) (ret False))"

section \<open>Metadata\<close>

definition orc_args :: "create_args om" where
  "orc_args = lift_res (\<lambda>s. case oc_args s of None \<Rightarrow> Inl AttributeError | Some a \<Rightarrow> Inr a)"

definition orc_setstate :: "unit om" where
  "orc_setstate = bnd orc_args (\<lambda>a.
     bnd (lift_res (\<lambda>s. case map_of (oc_files s) (ca_persist_path a, ca_name a) of
        None \<Rightarrow> Inl FileNotFoundError | Some md \<Rightarrow> Inr md)) (\<lambda>md.
       modify (\<lambda>s. s\<lparr>oc_pools := md_pools md, oc_nodes := md_nodes md\<rparr>)))"

definition orc_getstate :: "unit om" where
  "orc_getstate = bnd orc_args (\<lambda>a. modify (\<lambda>s. s\<lparr>oc_files :=
     AList.update (ca_persist_path a, ca_name a)
       \<lparr>md_pools = oc_pools s, md_nodes = oc_nodes s, md_persister = ca_persister a\<rparr> (oc_files s)\<rparr>))"

definition cleanup_metadata :: "create_args \<Rightarrow> unit om" where
  "cleanup_metadata a s = (case map_of (oc_files s) (ca_persist_path a, ca_name a) of
     None \<Rightarrow> (Inl FileNotFoundError, s)
   | Some _ \<Rightarrow> (Inr (), s\<lparr>oc_files := AList.delete (ca_persist_path a, ca_name a) (oc_files s)\<rparr>))"

text \<open>\<open>_prepare\<close>; the NULL persister does nothing.\<close>

definition orc_prepare :: "unit om" where
  "orc_prepare = bnd orc_args (\<lambda>a. case ca_persister a of
     NULLCheckpointPersister \<Rightarrow> ret ()
   | PosixCheckpointPersister \<Rightarrow> (\<lambda>s.
       case prepare (ca_name a) (ca_restore_from a) (ca_read_only a) (oc_dir s) of
         (r, dir) \<Rightarrow> (r, s\<lparr>oc_dir := dir\<rparr>)))"

section \<open>Creating the managers\<close>

definition host_policy :: "string \<Rightarrow> policy" where
  "host_policy h = default_policy\<lparr>placement := HOST_NAME, host_name := h\<rparr>"

definition add_process :: "nat \<Rightarrow> string option \<Rightarrow> policy option \<Rightarrow> unit om" where
  "add_process i pool pol = bnd orc_args (\<lambda>a. modify (\<lambda>s. s\<lparr>oc_templates := oc_templates s @
     [\<lparr>tp_mpool_size = oc_mpool_size s, tp_args = a, tp_manager_id = i, tp_pool = pool, tp_policy = pol\<rparr>]\<rparr>))"

text \<open>Restart: a manager whose node is still there starts on it again with its pool; the others are
  collected by node.\<close>

definition old_manager :: "nat \<Rightarrow> (string option \<times> machine_node) om" where
  "old_manager i = lift_res (\<lambda>s.
     if \<not> i < length (oc_pools s) \<or> \<not> i < length (oc_nodes s) then Inl IndexError
     else case oc_nodes s ! i of None \<Rightarrow> Inl TypeError | Some nd \<Rightarrow> Inr (oc_pools s ! i, nd))"

definition drain_manager :: "nat \<Rightarrow> nat \<Rightarrow> orc \<Rightarrow> orc" where
  "drain_manager u i s = s\<lparr>oc_drained := AList.update u
     ((case map_of (oc_drained s) u of None \<Rightarrow> [] | Some ms \<Rightarrow> ms) @ [i]) (oc_drained s)\<rparr>"

fun restart_old :: "nat list \<Rightarrow> nat set \<Rightarrow> nat set om" where
  "restart_old [] same_nodes = ret same_nodes"
| "restart_old (i # ids) same_nodes = bnd (old_manager i) (\<lambda>(pool, nd). bnd (gets oc_current_nodes) (\<lambda>cur.
     if h_uid nd \<notin> cur then sq (modify (drain_manager (h_uid nd) i)) (restart_old ids same_nodes)
     else sq (add_process i pool (Some (host_policy (hostname nd))))
            (restart_old ids (insert (h_uid nd) same_nodes))))"

fun restart_new :: "nat list list \<Rightarrow> nat set \<Rightarrow> unit om" where
  "restart_new [] new_nodes = ret ()"
| "restart_new (ids # rest) new_nodes = bnd (gets (\<lambda>s. oc_pop s new_nodes)) (\<lambda>h.
     bnd (gets (\<lambda>s. oc_hostname s h)) (\<lambda>host.
       sq (for_each ids (\<lambda>i. add_process i None (Some (host_policy host)))) (restart_new rest (new_nodes - {h}))))"

definition restart_managers :: "bool om" where
  "restart_managers =
     bnd (bnd (gets oc_num) (\<lambda>n. restart_old [0..<n] {})) (\<lambda>same_nodes.
       bnd (gets (\<lambda>s. oc_current_nodes s - same_nodes)) (\<lambda>new_nodes. bnd (gets oc_drained) (\<lambda>drained.
          if card new_nodes < length drained then create_failed INVALID_ARGUMENT
          else sq (restart_new (map snd drained) new_nodes) (ret True))))"

fun start_per_policy :: "nat \<Rightarrow> nat \<Rightarrow> policy list \<Rightarrow> unit om" where
  "start_per_policy k i [] = ret ()"
| "start_per_policy k i (p # ps) =
     sq (for_each [i..<i + k] (\<lambda>j. add_process j None (Some p))) (start_per_policy k (i + k) ps)"

definition start_managers :: "bool om" where
  "start_managers = bnd orc_args (\<lambda>a. case ca_policy a of
     PolicyList ps \<Rightarrow> bnd (gets oc_per_node) (\<lambda>k. sq (start_per_policy k 0 ps) (ret True))
   | OnePolicy p \<Rightarrow> bnd (gets oc_num) (\<lambda>n. sq (for_each [0..<n] (\<lambda>i. add_process i None p)) (ret True)))"

text \<open>The checks of a restart; the result says whether creation goes on.\<close>

definition restart_checks :: "create_args \<Rightarrow> bool om" where
  "restart_checks a =
     (if \<not> ca_restart a then ret True
      else if ca_name a = '''' then create_failed FAILURE
      else bnd (attempt orc_setstate) (\<lambda>r. case r of
        Inl e \<Rightarrow> create_failed FAILURE
      | Inr _ \<Rightarrow> bnd (gets (\<lambda>s. length (oc_pools s) = oc_num s)) (\<lambda>ok.
          if ok then ret True else create_failed FAILURE)))"

definition choose_name :: "create_args \<Rightarrow> unit om" where
  "choose_name a = (if ca_name a = '''' then
     modify (\<lambda>s. s\<lparr>oc_args := Some (a\<lparr>ca_name := oc_random_name s\<rparr>)\<rparr>) else ret ())"

definition start_group :: "unit om" where
  "start_group = sq (lift_res (\<lambda>s. case oc_group_error s of None \<Rightarrow> Inr () | Some e \<Rightarrow> Inl e))
     (modify (\<lambda>s. s\<lparr>oc_pool_created := True, oc_connector := ReturnConnector\<rparr>))"

definition create :: "int \<Rightarrow> string \<Rightarrow> create_args \<Rightarrow> unit om" where
  "create tag fli a =
     sq (modify (\<lambda>s. s\<lparr>oc_err := SUCCESS, oc_req := Some (tag, fli), oc_args := Some a\<rparr>))
       (bnd (restart_checks a) (\<lambda>ok. if \<not> ok then ret ()
        else sq (choose_name a) (sq orc_prepare (sq (modify (\<lambda>s. s\<lparr>oc_templates := []\<rparr>))
          (bnd (if ca_restart a then restart_managers else start_managers) (\<lambda>ok.
             if ok then start_group else ret ()))))))"

section \<open>Registration of the managers\<close>

definition set_at :: "nat \<Rightarrow> 'a \<Rightarrow> 'a list \<Rightarrow> 'a list res" where
  "set_at i x xs = (if i < length xs then Inr (xs[i := x]) else Inl IndexError)"

definition note_error :: "derr \<Rightarrow> unit om" where
  "note_error err = (if err \<noteq> SUCCESS then modify (\<lambda>s. s\<lparr>oc_err := err\<rparr>) else ret ())"

definition note_manager :: "nat \<Rightarrow> string \<Rightarrow> string \<Rightarrow> unit om" where
  "note_manager i mainFLI pool = sq (attach mainFLI)
     (bnd (lift_res (\<lambda>s. set_at i (Some mainFLI) (oc_conns s))) (\<lambda>cs. sq (modify (\<lambda>s. s\<lparr>oc_conns := cs\<rparr>))
     (bnd (lift_res (\<lambda>s. set_at i mainFLI (oc_flis s))) (\<lambda>fs. sq (modify (\<lambda>s. s\<lparr>oc_flis := fs\<rparr>))
     (bnd (lift_res (\<lambda>s. set_at i (Some pool) (oc_pools s))) (\<lambda>ps. modify (\<lambda>s. s\<lparr>oc_pools := ps\<rparr>)))))))"

definition note_return :: "nat \<Rightarrow> nat \<Rightarrow> string \<Rightarrow> int \<Rightarrow> unit om" where
  "note_return i host respFLI tag =
     bnd (lift_res (\<lambda>s. set_at i (Some \<lparr>h_uid = host, hostname = oc_hostname s host\<rparr>) (oc_nodes s))) (\<lambda>ns.
     sq (modify (\<lambda>s. s\<lparr>oc_nodes := ns\<rparr>))
     (bnd (lift_res (\<lambda>s. set_at i (Some (respFLI, tag)) (oc_returns s))) (\<lambda>rs. modify (\<lambda>s. s\<lparr>oc_returns := rs\<rparr>))))"

definition answer_manager :: "(string \<times> int) option \<Rightarrow> unit om" where
  "answer_manager r = (case r of None \<Rightarrow> raise TypeError
   | Some (fli, tag) \<Rightarrow> bnd orc_tag_inc (\<lambda>t.
       bnd (gets (\<lambda>s. DDRegisterManagerResponse t tag (oc_err s) (oc_flis s) (oc_nodes s))) (\<lambda>m.
         sq (attach fli) (orc_send m fli))))"

text \<open>The handlers of both registration messages report a failed creation and raise again.\<close>

definition or_fail_creation :: "unit om \<Rightarrow> unit om" where
  "or_fail_creation m = try_except m (\<lambda>e. sq (return_create_failure FAILURE) (raise RuntimeError))"

definition register_manager :: "int \<Rightarrow> nat \<Rightarrow> string \<Rightarrow> string \<Rightarrow> nat \<Rightarrow> string \<Rightarrow> derr \<Rightarrow> unit om" where
  "register_manager tag i mainFLI respFLI host pool err = or_fail_creation
     (sq (modify (\<lambda>s. s\<lparr>oc_created := oc_created s + 1\<rparr>))
     (sq (note_error err)
     (sq (if err = SUCCESS then note_manager i mainFLI pool else ret ())
     (sq (note_return i host respFLI tag)
     (bnd (gets (\<lambda>s. oc_created s = oc_num s)) (\<lambda>all.
        if all then sq orc_getstate (bnd (gets oc_returns) (\<lambda>rs. for_each rs answer_manager))
        else ret ()))))))"

definition manager_ready :: "int \<Rightarrow> nat \<Rightarrow> derr \<Rightarrow> unit om" where
  "manager_ready tag i err = or_fail_creation
     (sq (modify (\<lambda>s. s\<lparr>oc_ready := oc_ready s + 1\<rparr>))
     (bnd (lift_res (\<lambda>s. set_at i (Some tag) (oc_ready_tags s))) (\<lambda>ts.
      sq (modify (\<lambda>s. s\<lparr>oc_ready_tags := ts\<rparr>))
     (sq (note_error err)
     (bnd (gets (\<lambda>s. oc_ready s = oc_num s)) (\<lambda>all.
        if all then
          bnd orc_tag_inc (\<lambda>t. bnd create_req (\<lambda>(ref, fli). bnd (gets oc_err) (\<lambda>ec.
            sq (attach fli) (sq (orc_send (DDCreateResponse t ref ec) fli)
              (if ec = SUCCESS then modify (\<lambda>s. s\<lparr>oc_connector := MainConnector\<rparr>)
               else modify (\<lambda>s. s\<lparr>oc_serving := False\<rparr>))))))
        else ret ()))))))"

section \<open>Requests of clients\<close>

definition get_next_main_manager_id :: "nat om" where
  "get_next_main_manager_id s =
     (Inr (oc_next_main s), s\<lparr>oc_next_main := (oc_next_main s + 1) mod oc_num s\<rparr>)"

definition get_random_manager :: "int \<Rightarrow> string \<Rightarrow> unit om" where
  "get_random_manager tag fli = bnd get_next_main_manager_id (\<lambda>i.
     bnd (lift_res (\<lambda>s. if i < length (oc_flis s) then Inr (oc_flis s ! i) else Inl IndexError)) (\<lambda>m.
       orc_reply fli (\<lambda>t. DDRandomManagerResponse t tag SUCCESS m i)))"

definition orc_register_client :: "int \<Rightarrow> string \<Rightarrow> unit om" where
  "orc_register_client tag fli = bnd orc_tag_inc (\<lambda>t.
     bnd (gets oc_next_client) (\<lambda>c. sq (modify (\<lambda>s. s\<lparr>oc_next_client := oc_next_client s + 1\<rparr>))
       (bnd (gets oc_num) (\<lambda>n.
          sq (attach fli) (orc_send (DDRegisterClientResponse t tag SUCCESS c n) fli)))))"

definition empty_managers :: "int \<Rightarrow> string \<Rightarrow> unit om" where
  "empty_managers tag fli = bnd (gets (\<lambda>s. concat (map snd (oc_drained s)))) (\<lambda>ms.
     orc_reply fli (\<lambda>t. DDEmptyManagersResponse t tag SUCCESS ms))"

text \<open>\<open>get_managers\<close>: the values of \<open>_drained_nodes\<close> are lists of managers, which cannot index a list.\<close>

fun mark_all :: "nat list \<Rightarrow> bool list \<Rightarrow> bool list res" where
  "mark_all [] bs = Inr bs"
| "mark_all (i # ids) bs = (case set_at i True bs of Inl e \<Rightarrow> Inl e | Inr cs \<Rightarrow> mark_all ids cs)"

definition get_managers :: "int \<Rightarrow> string \<Rightarrow> unit om" where
  "get_managers tag fli =
     bnd (lift_res (\<lambda>s. if oc_drained s \<noteq> [] then Inl TypeError
        else mark_all (sorted_list_of_set (oc_marked s)) (replicate (oc_num s) False))) (\<lambda>empty.
     bnd (gets oc_flis) (\<lambda>fs. orc_reply fli (\<lambda>t. DDGetManagersResponse t tag SUCCESS empty fs)))"

definition mark_drained_manager :: "int \<Rightarrow> string \<Rightarrow> nat list \<Rightarrow> unit om" where
  "mark_drained_manager tag fli ids = sq (modify (\<lambda>s. s\<lparr>oc_marked := oc_marked s \<union> set ids\<rparr>))
     (orc_reply fli (\<lambda>t. DDMarkDrainedManagersResponse t tag SUCCESS))"

definition unmark_drained_manager :: "int \<Rightarrow> string \<Rightarrow> nat list \<Rightarrow> unit om" where
  "unmark_drained_manager tag fli ids = sq (modify (\<lambda>s. s\<lparr>oc_marked := oc_marked s - set ids\<rparr>))
     (orc_reply fli (\<lambda>t. DDUnmarkDrainedManagersResponse t tag SUCCESS))"

definition get_meta_data :: "int \<Rightarrow> string \<Rightarrow> unit om" where
  "get_meta_data tag fli = bnd (gets oc_main_fli) (\<lambda>m. bnd (gets oc_num) (\<lambda>n.
     orc_reply fli (\<lambda>t. DDGetMetaDataResponse t tag SUCCESS m n)))"

definition manager_nodes :: "int \<Rightarrow> string \<Rightarrow> unit om" where
  "manager_nodes tag fli =
     bnd (lift_res (\<lambda>s. if None \<in> set (oc_nodes s) then Inl TypeError
        else Inr (map (\<lambda>nd. h_uid (the nd)) (oc_nodes s)))) (\<lambda>us.
       orc_reply fli (\<lambda>t. DDManagerNodesResponse t tag SUCCESS us))"

section \<open>Tear-down\<close>

text \<open>A connection that was never made (\<open>None\<close>) cannot be written to, which \<open>_send_msg\<close> ignores.\<close>

definition tell_destroy :: "bool \<Rightarrow> string option \<Rightarrow> unit om" where
  "tell_destroy allowRestart m = bnd orc_tag_inc (\<lambda>t. case m of None \<Rightarrow> ret ()
     | Some fli \<Rightarrow> orc_send (DDDestroyManager t allowRestart) fli)"

definition destroy_dict :: "int \<Rightarrow> string \<Rightarrow> bool \<Rightarrow> unit om" where
  "destroy_dict tag fli allowRestart =
     sq (modify (\<lambda>s. s\<lparr>oc_pending := oc_pending s @ [(tag, fli)]\<rparr>))
       (bnd (gets oc_received_destroy) (\<lambda>again. if again then ret ()
        else sq (modify (\<lambda>s. s\<lparr>oc_received_destroy := True, oc_connector := ReturnConnector,
                               oc_allow_restart := Some allowRestart, oc_destroyed := 0\<rparr>))
               (bnd (gets oc_conns) (\<lambda>ms. for_each ms (tell_destroy allowRestart)))))"

definition destroy_manager_response :: "derr \<Rightarrow> unit om" where
  "destroy_manager_response err =
     (if err \<noteq> SUCCESS then raise GenericException
      else bnd (gets oc_received_destroy) (\<lambda>b. if \<not> b then raise AttributeError
        else sq (modify (\<lambda>s. s\<lparr>oc_destroyed := oc_destroyed s + 1\<rparr>))
          (modify (\<lambda>s. if oc_destroyed s = oc_num s then s\<lparr>oc_serving := False\<rparr> else s))))"

text \<open>\<open>_free_resources\<close> after the process group is joined: the pending destroy requests are answered, the
  last one first; then the metadata is removed unless the dictionary may be restarted.\<close>

definition free_resources :: "unit om" where
  "free_resources =
     sq (bnd (gets oc_pending) (\<lambda>rs. for_each (rev rs) (\<lambda>(tag, fli).
           sq (modify (\<lambda>s. s\<lparr>oc_pending := butlast (oc_pending s)\<rparr>))
              (orc_reply fli (\<lambda>t. DDDestroyResponse t tag SUCCESS)))))
       (try_except
          (bnd (gets oc_allow_restart) (\<lambda>r. case r of None \<Rightarrow> raise AttributeError
             | Some allow \<Rightarrow> if allow then ret () else bnd orc_args cleanup_metadata))
          (\<lambda>e. ret ()))"

section \<open>Serving\<close>

datatype orc_msg =
    DDEmptyManagers int string
  | DDRegisterClient int string
  | DDCreate int string create_args
  | DDRegisterManager int nat string string nat string derr
  | DDCreateManagerResponse int nat derr
  | DDRandomManager int string
  | DDDestroy int string bool
  | DDDestroyManagerResponse derr
  | DDGetManagers int string
  | DDMarkDrainedManagers int string "nat list"
  | DDUnmarkDrainedManagers int string "nat list"
  | DDGetMetaData int string
  | DDManagerNodes int string
  | UnknownOrcMsg

fun orc_dispatch :: "orc_msg \<Rightarrow> unit om" where
  "orc_dispatch (DDEmptyManagers tag fli) = empty_managers tag fli"
| "orc_dispatch (DDRegisterClient tag fli) = orc_register_client tag fli"
| "orc_dispatch (DDCreate tag fli a) = create tag fli a"
| "orc_dispatch (DDRegisterManager tag i mainFLI respFLI host pool err) =
     register_manager tag i mainFLI respFLI host pool err"
| "orc_dispatch (DDCreateManagerResponse tag i err) = manager_ready tag i err"
| "orc_dispatch (DDRandomManager tag fli) = get_random_manager tag fli"
| "orc_dispatch (DDDestroy tag fli allowRestart) = destroy_dict tag fli allowRestart"
| "orc_dispatch (DDDestroyManagerResponse err) = destroy_manager_response err"
| "orc_dispatch (DDGetManagers tag fli) = get_managers tag fli"
| "orc_dispatch (DDMarkDrainedManagers tag fli ids) = mark_drained_manager tag fli ids"
| "orc_dispatch (DDUnmarkDrainedManagers tag fli ids) = unmark_drained_manager tag fli ids"
| "orc_dispatch (DDGetMetaData tag fli) = get_meta_data tag fli"
| "orc_dispatch (DDManagerNodes tag fli) = manager_nodes tag fli"
| "orc_dispatch UnknownOrcMsg = raise RuntimeError"

text \<open>One turn of the loop of \<open>run\<close>: any exception stops the orchestrator.\<close>

definition orc_serve :: "orc_msg \<Rightarrow> unit om" where
  "orc_serve m = try_except (orc_dispatch m)
     (\<lambda>e. sq (modify (\<lambda>s. s\<lparr>oc_serving := False\<rparr>)) (raise RuntimeError))"

text \<open>The loop, on the messages that wait on the main connector and on the one for the managers: it takes
  messages only from the connector it serves, and waits when there is none.\<close>

function orc_loop :: "orc_msg list \<Rightarrow> orc_msg list \<Rightarrow> (orc_msg list \<times> orc_msg list) om" where
  "orc_loop mains returns = bnd (gets oc_serving) (\<lambda>serving.
     if \<not> serving then ret (mains, returns)
     else bnd (gets oc_connector) (\<lambda>c. case c of
       MainConnector \<Rightarrow> (case mains of [] \<Rightarrow> ret (mains, returns)
         | m # ms \<Rightarrow> sq (orc_serve m) (orc_loop ms returns))
     | ReturnConnector \<Rightarrow> (case returns of [] \<Rightarrow> ret (mains, returns)
         | m # ms \<Rightarrow> sq (orc_serve m) (orc_loop mains ms))))"
  by pat_completeness auto
termination by (relation "measure (\<lambda>(mains, returns). length mains + length returns)") auto

declare orc_loop.simps [simp del]

definition orc_run :: "orc_msg list \<Rightarrow> orc_msg list \<Rightarrow> unit om" where
  "orc_run mains returns = sq (orc_loop mains returns) (bnd (gets oc_serving) (\<lambda>serving.
     if serving then ret () else bnd (gets oc_pool_created) (\<lambda>b. if b then free_resources else ret ())))"

end
