(* ===== verification/Coordination.thy ===== *)
theory Coordination
  imports Orchestrator Keeping "HOL-Library.Multiset"
begin

text \<open>
  What the orchestrator guarantees: the shape of its tables, the protocol of creating a dictionary, the
  placement of managers on a restart, the hand-out of managers to clients and the tear-down.
\<close>

section \<open>The tables\<close>

definition shape :: "orc \<Rightarrow> nat \<times> nat \<times> nat \<times> nat \<times> nat \<times> nat" where
  "shape s = (oc_num s, oc_next_main s, length (oc_conns s), length (oc_flis s), length (oc_returns s),
              length (oc_ready_tags s))"

text \<open>One entry per manager in the tables that are indexed by a manager's number while the managers register, and
  a next manager that exists.  The lists \<open>oc_nodes\<close> and \<open>oc_pools\<close> are left out: a restart replaces them by what
  the metadata of the earlier run holds.\<close>

definition orc_wf :: "nat \<Rightarrow> orc \<Rightarrow> bool" where
  "orc_wf n s \<longleftrightarrow> oc_num s = n \<and> oc_next_main s < n \<and> length (oc_conns s) = n \<and> length (oc_flis s) = n \<and>
     length (oc_returns s) = n \<and> length (oc_ready_tags s) = n"

lemma orc_wf_shape: "shape t = shape s \<Longrightarrow> orc_wf n t = orc_wf n s"
  by (simp add: shape_def orc_wf_def)

lemma shape_upd [simp]:
  "shape (s\<lparr>oc_serving := x1\<rparr>) = shape s" "shape (s\<lparr>oc_connector := x2\<rparr>) = shape s"
  "shape (s\<lparr>oc_pool_created := x3\<rparr>) = shape s" "shape (s\<lparr>oc_received_destroy := x4\<rparr>) = shape s"
  "shape (s\<lparr>oc_next_client := x5\<rparr>) = shape s" "shape (s\<lparr>oc_drained := x6\<rparr>) = shape s"
  "shape (s\<lparr>oc_marked := x7\<rparr>) = shape s" "shape (s\<lparr>oc_pending := x8\<rparr>) = shape s"
  "shape (s\<lparr>oc_nodes := x9\<rparr>) = shape s" "shape (s\<lparr>oc_pools := x10\<rparr>) = shape s"
  "shape (s\<lparr>oc_tag := x11\<rparr>) = shape s" "shape (s\<lparr>oc_created := x12\<rparr>) = shape s"
  "shape (s\<lparr>oc_ready := x13\<rparr>) = shape s" "shape (s\<lparr>oc_req := x14\<rparr>) = shape s"
  "shape (s\<lparr>oc_args := x15\<rparr>) = shape s" "shape (s\<lparr>oc_err := x16\<rparr>) = shape s"
  "shape (s\<lparr>oc_templates := x17\<rparr>) = shape s" "shape (s\<lparr>oc_allow_restart := x18\<rparr>) = shape s"
  "shape (s\<lparr>oc_destroyed := x19\<rparr>) = shape s" "shape (s\<lparr>oc_files := x20\<rparr>) = shape s"
  "shape (s\<lparr>oc_dir := x21\<rparr>) = shape s" "shape (s\<lparr>oc_out := x22\<rparr>) = shape s"
  by (simp_all add: shape_def)

lemma shape_drain [simp]: "shape (drain_manager u i s) = shape s"
  by (simp add: drain_manager_def)

lemma shape_basic [keeps_rules]:
  "keeps shape orc_tag_inc" "keeps shape (attach fli)" "keeps shape (orc_send m fli)" "keeps shape create_req"
  "keeps shape orc_args" "keeps shape (cleanup_metadata a)" "keeps shape (old_manager i)"
  by (auto simp: keeps_def orc_tag_inc_def attach_def orc_send_def create_req_def orc_args_def cleanup_metadata_def
      old_manager_def split: option.splits)

lemma shape_note_manager [keeps_rules]: "keeps shape (note_manager i mainFLI pool)"
  by (rule keepsI) (auto simp: note_manager_def attach_def set_at_def shape_def py_simps)

lemma shape_note_return [keeps_rules]: "keeps shape (note_return i host respFLI tag)"
  by (rule keepsI) (auto simp: note_return_def set_at_def shape_def py_simps)

lemma shape_parts [keeps_rules]:
  "keeps shape (orc_reply fli mk)" "keeps shape (return_create_failure ec)" "keeps shape orc_setstate"
  "keeps shape orc_getstate" "keeps shape (add_process i pool pol)" "keeps shape (note_error err)"
  "keeps shape (answer_manager r)" "keeps shape (choose_name a)" "keeps shape start_group"
  "keeps shape (tell_destroy b m)"
  unfolding orc_reply_def return_create_failure_def orc_setstate_def orc_getstate_def add_process_def
    note_error_def answer_manager_def choose_name_def start_group_def tell_destroy_def
  by (intro keeps_rules; simp)+

lemma shape_create_failed [keeps_rules]: "keeps shape (create_failed ec)"
  unfolding create_failed_def by (intro keeps_rules) simp

lemma shape_prepare [keeps_rules]: "keeps shape orc_prepare"
  by (rule keepsI) (auto simp: orc_prepare_def orc_args_def py_simps split: option.splits persister_kind.splits prod.splits)

lemma shape_restart_old [keeps_rules]: "keeps shape (restart_old ids same)"
  by (induction ids arbitrary: same) (unfold restart_old.simps, (intro keeps_rules; simp)+)

lemma shape_restart_new [keeps_rules]: "keeps shape (restart_new idss new)"
  by (induction idss arbitrary: new) (unfold restart_new.simps, (intro keeps_rules; simp)+)

lemma shape_per_policy [keeps_rules]: "keeps shape (start_per_policy k i ps)"
  by (induction ps arbitrary: i) (unfold start_per_policy.simps, (intro keeps_rules; simp)+)

lemma shape_start [keeps_rules]: "keeps shape restart_managers" "keeps shape (restart_checks a)" "keeps shape start_managers"
proof -
  show "keeps shape restart_managers" "keeps shape (restart_checks a)"
    unfolding restart_managers_def restart_checks_def by (intro keeps_rules)+
  show "keeps shape start_managers"
    unfolding start_managers_def by (rule keeps_bnd, rule keeps_rules) (auto simp: keeps_rules split: policy_arg.splits)
qed

lemma shape_create [keeps_rules]: "keeps shape (create tag fli a)"
  unfolding create_def by (intro keeps_rules; simp)

lemma shape_registration [keeps_rules]:
  "keeps shape (or_fail_creation m)" if "keeps shape m"
  unfolding or_fail_creation_def using that by (intro keeps_rules)

lemma shape_register_manager [keeps_rules]: "keeps shape (register_manager tag i mainFLI respFLI host pool err)"
  unfolding register_manager_def by (intro keeps_rules; simp)

lemma shape_manager_ready [keeps_rules]: "keeps shape (manager_ready tag i err)"
proof -
  have "keeps shape (bnd (lift_res (\<lambda>s. set_at i (Some tag) (oc_ready_tags s)))
      (\<lambda>ts. sq (modify (\<lambda>s. s\<lparr>oc_ready_tags := ts\<rparr>)) m))" if "keeps shape m" for m :: "unit om"
    using that by (auto simp: keeps_def set_at_def shape_def py_simps)
  note [keeps_rules] = this
  show ?thesis unfolding manager_ready_def by (intro keeps_rules; simp)
qed

lemma shape_requests [keeps_rules]:
  "keeps shape (orc_register_client tag fli)" "keeps shape (empty_managers tag fli)" "keeps shape (get_managers tag fli)"
  "keeps shape (mark_drained_manager tag fli ids)" "keeps shape (unmark_drained_manager tag fli ids)"
  "keeps shape (get_meta_data tag fli)" "keeps shape (manager_nodes tag fli)" "keeps shape (destroy_dict tag fli b)"
  "keeps shape (destroy_manager_response err)" "keeps shape free_resources"
  unfolding orc_register_client_def empty_managers_def get_managers_def mark_drained_manager_def
    unmark_drained_manager_def get_meta_data_def manager_nodes_def destroy_dict_def destroy_manager_response_def
    free_resources_def
  by (intro keeps_rules; simp)+

section \<open>Handing out managers\<close>

lemma get_random_manager_run:
  assumes "orc_wf n s" "fli \<notin> oc_unattachable s"
  shows "get_random_manager tag fli s = orc_send (DDRandomManagerResponse (oc_tag s) tag SUCCESS
      (oc_flis s ! oc_next_main s) (oc_next_main s)) fli
      (s\<lparr>oc_next_main := (oc_next_main s + 1) mod oc_num s, oc_tag := oc_tag s + 1\<rparr>)"
  using assms
  by (simp add: get_random_manager_def get_next_main_manager_id_def orc_reply_def attach_def orc_tag_inc_def orc_wf_def py_simps)

lemma orc_wf_random: "orc_wf n s \<Longrightarrow> get_random_manager tag fli s = (r, t) \<Longrightarrow> orc_wf n t"
  by (auto simp: get_random_manager_def get_next_main_manager_id_def orc_reply_def attach_def orc_tag_inc_def
      orc_send_def orc_wf_def py_simps split: if_splits)

lemma orc_wf_dispatch: "orc_wf n s \<Longrightarrow> orc_dispatch m s = (r, t) \<Longrightarrow> orc_wf n t"
proof -
  assume wf: "orc_wf n s" and run: "orc_dispatch m s = (r, t)"
  have "orc_wf n t" if "keeps shape (orc_dispatch m)"
    using keepsD [OF that run] orc_wf_shape wf by blast
  moreover have "keeps shape (orc_dispatch m) \<or> (\<exists>tag fli. m = DDRandomManager tag fli)"
    by (cases m) (simp_all add: keeps_rules)
  ultimately show ?thesis using wf run orc_wf_random by auto
qed

lemma orc_wf_serve: "orc_wf n s \<Longrightarrow> orc_serve m s = (r, t) \<Longrightarrow> orc_wf n t"
proof -
  assume wf: "orc_wf n s" and run: "orc_serve m s = (r, t)"
  obtain r1 u where u: "orc_dispatch m s = (r1, u)" by fastforce
  have "shape t = shape u" using run u by (cases r1) (auto simp: orc_serve_def py_simps)
  then show ?thesis using orc_wf_dispatch [OF wf u] orc_wf_shape by blast
qed

lemma orc_wf_loop: "orc_wf n s \<Longrightarrow> orc_loop mains returns s = (r, t) \<Longrightarrow> orc_wf n t"
proof (induction mains returns arbitrary: s rule: orc_loop.induct)
  case (1 mains returns)
  show ?case
  proof (cases "oc_serving s \<and> (case oc_connector s of MainConnector \<Rightarrow> mains | ReturnConnector \<Rightarrow> returns) \<noteq> []")
    case False
    then show ?thesis using 1(3,4) by (auto simp: orc_loop.simps [of mains] py_simps split: connector.splits list.splits if_splits)
  next
    case True
    then obtain m ms where m: "(case oc_connector s of MainConnector \<Rightarrow> mains | ReturnConnector \<Rightarrow> returns) = m # ms"
      by (auto simp: neq_Nil_conv)
    obtain r1 u where u: "orc_serve m s = (r1, u)" by fastforce
    have wu: "orc_wf n u" using orc_wf_serve [OF 1(3) u] .
    show ?thesis
    proof (cases r1)
      case (Inl e)
      then show ?thesis using 1(4) True m u wu
        by (auto simp: orc_loop.simps [of mains] py_simps split: connector.splits)
    next
      case (Inr x)
      have ih: "mains = m # ms \<Longrightarrow> orc_loop ms returns u = (r, t) \<Longrightarrow> orc_wf n t"
        "returns = m # ms \<Longrightarrow> orc_loop mains ms u = (r, t) \<Longrightarrow> orc_wf n t"
        using 1(1,2) [of True] wu by blast+
      show ?thesis using ih 1(4) True m u Inr
        by (auto simp: orc_loop.simps [of mains] py_simps split: connector.splits)
    qed
  qed
qed

text \<open>
  The tables of the orchestrator stay well-formed.  Whatever messages arrive, on whichever connector and
  in whichever order, and even when a handler raises, the orchestrator keeps one entry per manager in its
  tables of connections, of main FLIs, of return FLIs and of ready tags, and the manager it hands out next
  exists.
\<close>

lemma orc_tables:
  assumes "make_orchestrator per_node n_nodes total_mem fli files dir unattachable silent nodes host popped rname gerr = Inr s"
    and "orc_loop mains returns s = (r, t)"
  shows "orc_wf (n_nodes * per_node) t"
proof -
  have "orc_wf (n_nodes * per_node) s"
    using assms(1) by (auto simp: make_orchestrator_def orc_wf_def Let_def split: if_splits)
  then show ?thesis using assms(2) by (rule orc_wf_loop)
qed

definition demo_orc :: orc where
  "demo_orc = projr (make_orchestrator 2 1 1024 ''main'' [] [] {} {} {7} (\<lambda>_. ''node'') (\<lambda>_. 7) ''random'' None)"

lemma demo_orc_eq:
  "make_orchestrator 2 1 1024 ''main'' [] [] {} {} {7} (\<lambda>_. ''node'') (\<lambda>_. 7) ''random'' None = Inr demo_orc"
  by (simp add: demo_orc_def make_orchestrator_def)

lemma demo_orc_wf: "orc_wf 2 demo_orc" "oc_tag demo_orc = 0" "oc_next_main demo_orc = 0" "oc_flis demo_orc = ['''', '''']"
  "oc_unattachable demo_orc = {}" "oc_silent demo_orc = {}" "oc_out demo_orc = []" "oc_num demo_orc = 2"
  by (simp_all add: demo_orc_def make_orchestrator_def orc_wf_def numeral_2_eq_2)

lemma for_each_append: "for_each (xs @ ys) f s = sq (for_each xs f) (for_each ys f) s"
  by (induction xs arbitrary: s) (auto simp: sq_apply split: prod.splits sum.splits)

text \<open>The answer to the request number \<open>j\<close> of a sequence.\<close>

definition random_reply :: "nat \<Rightarrow> orc \<Rightarrow> (int \<times> string) list \<Rightarrow> nat \<Rightarrow> string \<times> orc_event" where
  "random_reply n s reqs j = (let i = (oc_next_main s + j) mod n in
     (snd (reqs ! j), DDRandomManagerResponse (oc_tag s + int j) (fst (reqs ! j)) SUCCESS (oc_flis s ! i) i))"

lemma random_run:
  assumes "orc_wf n s" "\<forall>r \<in> set reqs. snd r \<notin> oc_unattachable s \<and> snd r \<notin> oc_silent s"
  shows "for_each reqs (\<lambda>(tag, fli). orc_serve (DDRandomManager tag fli)) s =
    (Inr (), s\<lparr>oc_next_main := (oc_next_main s + length reqs) mod n, oc_tag := oc_tag s + int (length reqs),
       oc_out := oc_out s @ map (random_reply n s reqs) [0..<length reqs]\<rparr>)"
  using assms(2)
proof (induction reqs rule: rev_induct)
  case Nil
  have "oc_next_main s < n" using assms(1) by (simp add: orc_wf_def)
  then show ?case by simp
next
  case (snoc req reqs)
  obtain tag fli where req: "req = (tag, fli)" by (cases req)
  let ?t = "s\<lparr>oc_next_main := (oc_next_main s + length reqs) mod n, oc_tag := oc_tag s + int (length reqs),
       oc_out := oc_out s @ map (random_reply n s reqs) [0..<length reqs]\<rparr>"
  have wf: "orc_wf n ?t" using assms(1) by (simp add: orc_wf_def)
  have num: "oc_num s = n" using assms(1) by (simp add: orc_wf_def)
  have same: "map (random_reply n s (reqs @ [req])) [0..<length reqs] = map (random_reply n s reqs) [0..<length reqs]"
    by (rule map_cong) (auto simp: random_reply_def nth_append)
  have "orc_serve (DDRandomManager tag fli) ?t = (Inr (), s\<lparr>oc_next_main := (oc_next_main s + Suc (length reqs)) mod n,
      oc_tag := oc_tag s + int (Suc (length reqs)),
      oc_out := oc_out s @ map (random_reply n s (reqs @ [req])) [0..<Suc (length reqs)]\<rparr>)"
    using get_random_manager_run [OF wf, of fli tag] snoc.prems num
    by (simp add: orc_serve_def try_except_apply orc_send_def req same [unfolded req] random_reply_def Let_def mod_Suc_eq add.commute add.left_commute)
  moreover have "for_each reqs (\<lambda>(tag, fli). orc_serve (DDRandomManager tag fli)) s = (Inr (), ?t)"
    using snoc by simp
  ultimately show ?case
    by (simp only: for_each_append sq_apply for_each.simps req prod.case sum.case length_append_singleton ret_apply)
qed

lemma window_covers: "0 < n \<Longrightarrow> (\<lambda>j. (a + j) mod n) ` {..<n} = {..<n :: nat}"
proof (rule endo_inj_surj)
  assume "0 < n"
  then show "(\<lambda>j. (a + j) mod n) ` {..<n} \<subseteq> {..<n}" by auto
  have le: "j = k" if "(a + j) mod n = (a + k) mod n" "k \<le> j" "j < n" for j k
  proof -
    have "n dvd j - k" using that mod_eq_dvd_iff_nat [of "a + k" "a + j" n] by simp
    then show ?thesis using that by (auto dest: dvd_imp_le)
  qed
  then show "inj_on (\<lambda>j. (a + j) mod n) {..<n}"
    by (intro inj_onI) (metis lessThan_iff nat_le_linear)
qed simp

text \<open>
  C32: Clients are spread over the managers.  The requests for a manager are answered in turn with managers
  that exist, each with that manager's FLI, starting after the one handed out last; as many consecutive
  requests as there are managers reach every manager.
\<close>

theorem random_manager_round_robin:
  assumes "orc_wf n s" "\<forall>r \<in> set reqs. snd r \<notin> oc_unattachable s \<and> snd r \<notin> oc_silent s"
  shows "\<exists>t. for_each reqs (\<lambda>(tag, fli). orc_serve (DDRandomManager tag fli)) s = (Inr (), t) \<and>
    oc_out t = oc_out s @ map (random_reply n s reqs) [0..<length reqs] \<and>
    (\<forall>j < length reqs. \<exists>i < n. snd (random_reply n s reqs j) =
       DDRandomManagerResponse (oc_tag s + int j) (fst (reqs ! j)) SUCCESS (oc_flis s ! i) i) \<and>
    (\<lambda>j. (oc_next_main s + j) mod n) ` {..<n} = {..<n}"
proof -
  have "0 < n" using assms(1) by (simp add: orc_wf_def)
  then have "\<exists>i < n. snd (random_reply n s reqs j) =
       DDRandomManagerResponse (oc_tag s + int j) (fst (reqs ! j)) SUCCESS (oc_flis s ! i) i" for j
    by (auto simp: random_reply_def Let_def intro!: exI [of _ "(oc_next_main s + j) mod n"])
  then show ?thesis using random_run [OF assms] window_covers [OF \<open>0 < n\<close>, of "oc_next_main s"] by simp
qed

theorem random_manager_round_robin_witness:
  "\<exists>t. for_each [(3, ''a''), (4, ''b''), (5, ''c'')] (\<lambda>(tag, fli). orc_serve (DDRandomManager tag fli)) demo_orc = (Inr (), t) \<and>
     oc_out t = [(''a'', DDRandomManagerResponse 0 3 SUCCESS '''' 0), (''b'', DDRandomManagerResponse 1 4 SUCCESS '''' 1),
                 (''c'', DDRandomManagerResponse 2 5 SUCCESS '''' 0)]"
  using random_manager_round_robin [OF demo_orc_wf(1), of "[(3, ''a''), (4, ''b''), (5, ''c'')]"]
  by (simp add: demo_orc_wf(2-) random_reply_def upt_rec del: for_each.simps) blast

section \<open>Creating a dictionary\<close>

record registration =
  rg_tag :: int
  rg_main :: string
  rg_resp :: string
  rg_host :: nat
  rg_pool :: string
  rg_err :: derr

definition reg_msg :: "nat \<Rightarrow> registration \<Rightarrow> orc_msg" where
  "reg_msg i r = DDRegisterManager (rg_tag r) i (rg_main r) (rg_resp r) (rg_host r) (rg_pool r) (rg_err r)"

definition worst :: "derr \<Rightarrow> derr list \<Rightarrow> derr" where
  "worst e es = foldl (\<lambda>e x. if x \<noteq> SUCCESS then x else e) e es"

lemma worst_snoc [simp]: "worst e (es @ [x]) = (if x \<noteq> SUCCESS then x else worst e es)" and worst_Nil [simp]: "worst e [] = e"
  by (simp_all add: worst_def)

lemma worst_SUCCESS: "worst e es = SUCCESS \<longleftrightarrow> e = SUCCESS \<and> (\<forall>x \<in> set es. x = SUCCESS)"
  by (induction es rule: rev_induct) auto

text \<open>A table after the managers \<open>p\<close> were noted in it: \<open>f i\<close> is the new entry of manager \<open>i\<close>, if any.\<close>

definition noted_table :: "nat list \<Rightarrow> (nat \<Rightarrow> 'a option) \<Rightarrow> 'a list \<Rightarrow> 'a list" where
  "noted_table p f xs = map (\<lambda>i. if i \<in> set p then (case f i of None \<Rightarrow> xs ! i | Some x \<Rightarrow> x) else xs ! i) [0..<length xs]"

lemma noted_table_Nil [simp]: "noted_table [] f xs = xs"
  by (simp add: noted_table_def map_nth)

lemma length_noted_table [simp]: "length (noted_table p f xs) = length xs"
  by (simp add: noted_table_def)

lemma nth_noted_table: "i < length xs \<Longrightarrow> noted_table p f xs ! i =
    (if i \<in> set p then (case f i of None \<Rightarrow> xs ! i | Some x \<Rightarrow> x) else xs ! i)"
  by (simp add: noted_table_def split: option.splits)

lemma noted_table_Some: "f i = Some x \<Longrightarrow> (noted_table p f xs)[i := x] = noted_table (p @ [i]) f xs"
  by (cases "i < length xs") (auto intro!: nth_equalityI simp: nth_noted_table nth_list_update)

lemma noted_table_None: "f i = None \<Longrightarrow> noted_table (p @ [i]) f xs = noted_table p f xs"
  by (auto intro!: nth_equalityI simp: nth_noted_table)

lemma noted_table_all: "set p = {..<length xs} \<Longrightarrow> (\<And>i. i < length xs \<Longrightarrow> f i = Some (g i)) \<Longrightarrow>
    noted_table p f xs = map g [0..<length xs]"
  by (rule nth_equalityI) (simp_all add: nth_noted_table)

definition ok_entry :: "(nat \<Rightarrow> registration) \<Rightarrow> (registration \<Rightarrow> 'a) \<Rightarrow> nat \<Rightarrow> 'a option" where
  "ok_entry rg f i = (if rg_err (rg i) = SUCCESS then Some (f (rg i)) else None)"

text \<open>The state after the managers \<open>p\<close> have registered, before the answers.\<close>

definition noted :: "(nat \<Rightarrow> registration) \<Rightarrow> nat list \<Rightarrow> orc \<Rightarrow> orc" where
  "noted rg p s = s\<lparr>oc_created := oc_created s + length p,
     oc_err := worst (oc_err s) (map (rg_err \<circ> rg) p),
     oc_conns := noted_table p (ok_entry rg (\<lambda>r. Some (rg_main r))) (oc_conns s),
     oc_flis := noted_table p (ok_entry rg rg_main) (oc_flis s),
     oc_pools := noted_table p (ok_entry rg (\<lambda>r. Some (rg_pool r))) (oc_pools s),
     oc_nodes := noted_table p (\<lambda>i. Some (Some \<lparr>h_uid = rg_host (rg i), hostname = oc_hostname s (rg_host (rg i))\<rparr>)) (oc_nodes s),
     oc_returns := noted_table p (\<lambda>i. Some (Some (rg_resp (rg i), rg_tag (rg i)))) (oc_returns s)\<rparr>"

definition usable :: "string \<Rightarrow> orc \<Rightarrow> bool" where
  "usable fli s \<longleftrightarrow> fli \<notin> oc_unattachable s \<and> fli \<notin> oc_silent s"

lemma noted_Nil [simp]: "noted rg [] s = s"
  by (simp add: noted_def)

lemma noted_fields [simp]:
  "oc_created (noted rg p s) = oc_created s + length p" "oc_num (noted rg p s) = oc_num s"
  "oc_unattachable (noted rg p s) = oc_unattachable s" "oc_silent (noted rg p s) = oc_silent s"
  "oc_out (noted rg p s) = oc_out s" "oc_tag (noted rg p s) = oc_tag s" "oc_args (noted rg p s) = oc_args s"
  "oc_hostname (noted rg p s) = oc_hostname s"
  by (simp_all add: noted_def)

definition tables_full :: "nat \<Rightarrow> orc \<Rightarrow> bool" where
  "tables_full n s \<longleftrightarrow> orc_wf n s \<and> length (oc_pools s) = n \<and> length (oc_nodes s) = n"

lemma note_manager_run:
  assumes "tables_full n s" "i < n" "mainFLI \<notin> oc_unattachable s"
  shows "note_manager i mainFLI pool s = (Inr (), s\<lparr>oc_conns := (oc_conns s)[i := Some mainFLI],
     oc_flis := (oc_flis s)[i := mainFLI], oc_pools := (oc_pools s)[i := Some pool]\<rparr>)"
  using assms by (simp add: note_manager_def attach_def set_at_def tables_full_def orc_wf_def py_simps)

lemma note_return_run:
  assumes "tables_full n s" "i < n"
  shows "note_return i host fli tag s = (Inr (), s\<lparr>oc_nodes := (oc_nodes s)[i := Some \<lparr>h_uid = host, hostname = oc_hostname s host\<rparr>],
     oc_returns := (oc_returns s)[i := Some (fli, tag)]\<rparr>)"
  using assms by (simp add: note_return_def set_at_def tables_full_def orc_wf_def py_simps)

lemma noted_step:
  "rg_err (rg i) = SUCCESS \<Longrightarrow> noted rg (p @ [i]) s = (noted rg p s)\<lparr>oc_created := oc_created s + Suc (length p),
     oc_conns := (oc_conns (noted rg p s))[i := Some (rg_main (rg i))],
     oc_flis := (oc_flis (noted rg p s))[i := rg_main (rg i)],
     oc_pools := (oc_pools (noted rg p s))[i := Some (rg_pool (rg i))],
     oc_nodes := (oc_nodes (noted rg p s))[i := Some \<lparr>h_uid = rg_host (rg i), hostname = oc_hostname s (rg_host (rg i))\<rparr>],
     oc_returns := (oc_returns (noted rg p s))[i := Some (rg_resp (rg i), rg_tag (rg i))]\<rparr>"
  "rg_err (rg i) \<noteq> SUCCESS \<Longrightarrow> noted rg (p @ [i]) s = (noted rg p s)\<lparr>oc_created := oc_created s + Suc (length p),
     oc_err := rg_err (rg i),
     oc_nodes := (oc_nodes (noted rg p s))[i := Some \<lparr>h_uid = rg_host (rg i), hostname = oc_hostname s (rg_host (rg i))\<rparr>],
     oc_returns := (oc_returns (noted rg p s))[i := Some (rg_resp (rg i), rg_tag (rg i))]\<rparr>"
  by (simp_all add: noted_def noted_table_Some noted_table_None ok_entry_def)

lemma tables_full_noted: "tables_full n s \<Longrightarrow> tables_full n (noted rg p s)"
  by (simp add: tables_full_def orc_wf_def noted_def)

lemma register_step:
  fixes rg i
  defines "r \<equiv> rg i"
  assumes "tables_full n s" "i < n" "rg_err r = SUCCESS \<longrightarrow> rg_main r \<notin> oc_unattachable s"
  shows "sq (modify (\<lambda>s. s\<lparr>oc_created := oc_created s + 1\<rparr>)) (sq (note_error (rg_err r))
     (sq (if rg_err r = SUCCESS then note_manager i (rg_main r) (rg_pool r) else ret ())
       (sq (note_return i (rg_host r) (rg_resp r) (rg_tag r)) fin))) (noted rg p s) = fin (noted rg (p @ [i]) s)"
proof -
  let ?s = "noted rg p s"
  let ?c = "?s\<lparr>oc_created := oc_created s + Suc (length p)\<rparr>"
  have full: "tables_full n ?s" using assms(2) by (rule tables_full_noted)
  then have c: "tables_full n ?c" "tables_full n (?c\<lparr>oc_err := rg_err r\<rparr>)"
    by (simp_all add: tables_full_def orc_wf_def)
  show ?thesis
  proof (cases "rg_err r = SUCCESS")
    case True
    let ?m = "?c\<lparr>oc_conns := (oc_conns ?s)[i := Some (rg_main r)], oc_flis := (oc_flis ?s)[i := rg_main r],
       oc_pools := (oc_pools ?s)[i := Some (rg_pool r)]\<rparr>"
    have nm: "note_manager i (rg_main r) (rg_pool r) ?c = (Inr (), ?m)"
      using note_manager_run [OF c(1) assms(3)] assms(4) True by simp
    have "tables_full n ?m" using c(1) by (simp add: tables_full_def orc_wf_def)
    note nr = note_return_run [OF this assms(3), of "rg_host r" "rg_resp r" "rg_tag r"]
    show ?thesis
      using True nm nr noted_step(1) [of rg i p s] unfolding r_def
      by (simp add: sq_apply note_error_def)
  next
    case False
    show ?thesis
      using False note_return_run [OF c(2) assms(3), of "rg_host r" "rg_resp r" "rg_tag r"] noted_step(2) [of rg i p s]
      unfolding r_def by (simp add: sq_apply note_error_def)
  qed
qed

definition register_fin :: "unit om" where
  "register_fin = bnd (gets (\<lambda>s. oc_created s = oc_num s)) (\<lambda>all.
     if all then sq orc_getstate (bnd (gets oc_returns) (\<lambda>rs. for_each rs answer_manager)) else ret ())"

lemma register_serve:
  assumes "tables_full n s" "i < n" "rg_err (rg i) = SUCCESS \<longrightarrow> rg_main (rg i) \<notin> oc_unattachable s"
    and "register_fin (noted rg (p @ [i]) s) = (Inr (), t)"
  shows "orc_serve (reg_msg i (rg i)) (noted rg p s) = (Inr (), t)"
proof -
  have "register_manager (rg_tag (rg i)) i (rg_main (rg i)) (rg_resp (rg i)) (rg_host (rg i)) (rg_pool (rg i))
      (rg_err (rg i)) (noted rg p s) = (Inr (), t)"
    unfolding register_manager_def or_fail_creation_def register_fin_def [symmetric]
    by (rule try_except_Inr) (rule trans [OF register_step [where rg = rg and i = i and fin = register_fin and p = p, OF assms(1-3)] assms(4)])
  then show ?thesis by (simp add: orc_serve_def reg_msg_def try_except_apply)
qed

text \<open>The answers to the managers, once all have registered.\<close>

definition manager_answers :: "orc \<Rightarrow> (string \<times> int) option list \<Rightarrow> (string \<times> orc_event) list" where
  "manager_answers s rs = map (\<lambda>j. (fst (the (rs ! j)),
     DDRegisterManagerResponse (oc_tag s + int j) (snd (the (rs ! j))) (oc_err s) (oc_flis s) (oc_nodes s))) [0..<length rs]"

lemma answer_manager_run:
  "usable fli s \<Longrightarrow> answer_manager (Some (fli, tag)) s = (Inr (), s\<lparr>oc_tag := oc_tag s + 1,
     oc_out := oc_out s @ [(fli, DDRegisterManagerResponse (oc_tag s) tag (oc_err s) (oc_flis s) (oc_nodes s))]\<rparr>)"
  by (simp add: answer_manager_def orc_tag_inc_def attach_def orc_send_def usable_def py_simps)

lemma answers_run:
  assumes "\<forall>r \<in> set rs. \<exists>fli tag. r = Some (fli, tag) \<and> usable fli s"
  shows "for_each rs answer_manager s =
    (Inr (), s\<lparr>oc_tag := oc_tag s + int (length rs), oc_out := oc_out s @ manager_answers s rs\<rparr>)"
  using assms
proof (induction rs rule: rev_induct)
  case (snoc r rs)
  obtain fli tag where r: "r = Some (fli, tag)" "usable fli s" using snoc.prems by auto
  have same: "manager_answers s (rs @ [r]) = manager_answers s rs @
      [(fli, DDRegisterManagerResponse (oc_tag s + int (length rs)) tag (oc_err s) (oc_flis s) (oc_nodes s))]"
    unfolding manager_answers_def r(1) by (simp add: nth_append)
  have "for_each rs answer_manager s =
    (Inr (), s\<lparr>oc_tag := oc_tag s + int (length rs), oc_out := oc_out s @ manager_answers s rs\<rparr>)"
    using snoc by simp
  then show ?case
    using r(2) same
    by (simp add: for_each_append sq_apply r(1) answer_manager_run usable_def add.commute add.left_commute)
qed (simp add: manager_answers_def)

definition filed :: "create_args \<Rightarrow> orc \<Rightarrow> orc" where
  "filed a s = s\<lparr>oc_files := AList.update (ca_persist_path a, ca_name a)
       \<lparr>md_pools = oc_pools s, md_nodes = oc_nodes s, md_persister = ca_persister a\<rparr> (oc_files s)\<rparr>"

lemma register_all:
  assumes "tables_full n s" "oc_created s = 0" "oc_args s = Some a" "distinct p" "set p = {..<n}"
    "\<forall>i < n. usable (rg_resp (rg i)) s \<and> (rg_err (rg i) = SUCCESS \<longrightarrow> rg_main (rg i) \<notin> oc_unattachable s)"
  shows "for_each p (\<lambda>i. orc_serve (reg_msg i (rg i))) s =
    (Inr (), let u = filed a (noted rg p s) in
       u\<lparr>oc_tag := oc_tag s + int n, oc_out := oc_out s @ manager_answers u (oc_returns u)\<rparr>)"
proof -
  have len: "length p = n" using assms(4,5) distinct_card [of p] by simp
  have n: "0 < n" using assms(1) by (simp add: tables_full_def orc_wf_def)
  have num: "oc_num s = n" using assms(1) by (simp add: tables_full_def orc_wf_def)
  have before: "for_each q (\<lambda>i. orc_serve (reg_msg i (rg i))) s = (Inr (), noted rg q s)"
    if "length q < n" "set q \<subseteq> {..<n}" for q
    using that
  proof (induction q rule: rev_induct)
    case (snoc i q)
    then have i: "i < n" and q: "for_each q (\<lambda>i. orc_serve (reg_msg i (rg i))) s = (Inr (), noted rg q s)" by auto
    have "orc_serve (reg_msg i (rg i)) (noted rg q s) = (Inr (), noted rg (q @ [i]) s)"
      by (rule register_serve [OF assms(1) i])
         (use assms(2,6) i snoc.prems(1) num in \<open>simp_all add: register_fin_def bnd_apply\<close>)
    then show ?case using q by (simp add: for_each_append sq_apply)
  qed simp
  obtain q i where p: "p = q @ [i]" using len n by (cases p rule: rev_cases) auto
  have i: "i < n" using assms(5) p by auto
  let ?u = "filed a (noted rg p s)"
  have rets: "oc_returns ?u = map (\<lambda>i. Some (rg_resp (rg i), rg_tag (rg i))) [0..<n]"
    using assms(1,5) by (simp add: filed_def noted_def noted_table_all tables_full_def orc_wf_def)
  have ans: "for_each (oc_returns ?u) answer_manager ?u =
     (Inr (), ?u\<lparr>oc_tag := oc_tag s + int n, oc_out := oc_out s @ manager_answers ?u (oc_returns ?u)\<rparr>)"
    using answers_run [of "oc_returns ?u" ?u] assms(6) rets by (simp add: filed_def usable_def)
  have "orc_serve (reg_msg i (rg i)) (noted rg q s) =
     (Inr (), ?u\<lparr>oc_tag := oc_tag s + int n, oc_out := oc_out s @ manager_answers ?u (oc_returns ?u)\<rparr>)"
    by (rule register_serve [OF assms(1) i])
       (use assms(2,3,6) i len num ans in \<open>simp_all add: register_fin_def bnd_apply sq_apply orc_getstate_def orc_args_def p filed_def\<close>)
  moreover have "for_each q (\<lambda>i. orc_serve (reg_msg i (rg i))) s = (Inr (), noted rg q s)"
    using before len p assms(5) by auto
  ultimately show ?thesis by (simp add: p for_each_append sq_apply Let_def)
qed

text \<open>The state after the managers \<open>q\<close> have reported ready, before the answer to the creator.\<close>

definition readied :: "(nat \<Rightarrow> int \<times> derr) \<Rightarrow> nat list \<Rightarrow> orc \<Rightarrow> orc" where
  "readied rd q s = s\<lparr>oc_ready := oc_ready s + length q, oc_err := worst (oc_err s) (map (snd \<circ> rd) q),
     oc_ready_tags := noted_table q (\<lambda>i. Some (Some (fst (rd i)))) (oc_ready_tags s)\<rparr>"

lemma readied_step: "readied rd (q @ [i]) s = (readied rd q s)\<lparr>oc_ready := oc_ready s + Suc (length q),
    oc_err := if snd (rd i) \<noteq> SUCCESS then snd (rd i) else oc_err (readied rd q s),
    oc_ready_tags := (oc_ready_tags (readied rd q s))[i := Some (fst (rd i))]\<rparr>"
  by (simp add: readied_def noted_table_Some)

definition ready_msg :: "(nat \<Rightarrow> int \<times> derr) \<Rightarrow> nat \<Rightarrow> orc_msg" where
  "ready_msg rd i = DDCreateManagerResponse (fst (rd i)) i (snd (rd i))"

lemma ready_step:
  assumes "orc_wf n s" "i < n" "oc_ready s = 0" "Suc (length q) < n"
  shows "orc_serve (ready_msg rd i) (readied rd q s) = (Inr (), readied rd (q @ [i]) s)"
  using assms
  by (simp add: orc_serve_def ready_msg_def manager_ready_def or_fail_creation_def set_at_def note_error_def orc_wf_def
      readied_step py_simps) (simp add: readied_def)

lemma ready_last:
  assumes "orc_wf n s" "i < n" "oc_ready s = 0" "Suc (length q) = n" "oc_req s = Some (ref, fli)" "usable fli s"
  shows "orc_serve (ready_msg rd i) (readied rd q s) = (Inr (), let u = readied rd (q @ [i]) s;
      v = u\<lparr>oc_tag := oc_tag s + 1, oc_out := oc_out s @ [(fli, DDCreateResponse (oc_tag s) ref (oc_err u))]\<rparr>
    in if oc_err u = SUCCESS then v\<lparr>oc_connector := MainConnector\<rparr> else v\<lparr>oc_serving := False\<rparr>)"
  using assms
  by (simp add: orc_serve_def ready_msg_def manager_ready_def or_fail_creation_def set_at_def note_error_def orc_wf_def
      readied_step create_req_def attach_def orc_send_def orc_tag_inc_def usable_def py_simps) (simp add: readied_def py_simps Let_def)

lemma ready_all:
  assumes "orc_wf n s" "oc_ready s = 0" "oc_req s = Some (ref, fli)" "usable fli s" "distinct q" "set q = {..<n}"
  shows "for_each q (\<lambda>i. orc_serve (ready_msg rd i)) s = (Inr (), let u = readied rd q s;
      v = u\<lparr>oc_tag := oc_tag s + 1, oc_out := oc_out s @ [(fli, DDCreateResponse (oc_tag s) ref (oc_err u))]\<rparr>
    in if oc_err u = SUCCESS then v\<lparr>oc_connector := MainConnector\<rparr> else v\<lparr>oc_serving := False\<rparr>)"
proof -
  have len: "length q = n" using assms(5,6) distinct_card [of q] by simp
  have n: "0 < n" using assms(1) by (simp add: orc_wf_def)
  have before: "for_each p (\<lambda>i. orc_serve (ready_msg rd i)) s = (Inr (), readied rd p s)"
    if "length p < n" "set p \<subseteq> {..<n}" for p
    using that
  proof (induction p rule: rev_induct)
    case (snoc i p)
    then show ?case using ready_step [OF assms(1) _ assms(2), of i p rd] by (simp add: for_each_append sq_apply)
  qed (simp add: readied_def)
  obtain p i where q: "q = p @ [i]" using len n by (cases q rule: rev_cases) auto
  have p: "for_each p (\<lambda>i. orc_serve (ready_msg rd i)) s = (Inr (), readied rd p s)"
    using before len q assms(6) by auto
  have "i < n" "Suc (length p) = n" using q assms(6) len by auto
  from ready_last [OF assms(1) this(1) assms(2) this(2) assms(3,4), of rd] p show ?thesis
    unfolding q by (simp add: for_each_append sq_apply Let_def)
qed

text \<open>
  C29: The protocol of creating a dictionary.  Once the managers are started, they register and then report
  that they are ready, each once, in any two orders.  The orchestrator answers no manager before the last
  one has registered; then every manager gets exactly one answer, which holds the FLIs of all managers and
  reports an error if one of them failed to start, and the metadata of the dictionary is on file.  When the
  last manager is ready the creator gets exactly one answer: success if no manager reported an error, and
  from then on the orchestrator serves clients; otherwise an error, and the orchestrator stops.
\<close>

theorem creation_protocol:
  assumes "tables_full n s" "oc_created s = 0" "oc_ready s = 0" "oc_err s = SUCCESS" "oc_serving s"
    and "oc_args s = Some a" "oc_req s = Some (ref, fli)" "usable fli s"
    and "distinct p" "set p = {..<n}" "distinct q" "set q = {..<n}"
    and "\<forall>i < n. usable (rg_resp (rg i)) s \<and> (rg_err (rg i) = SUCCESS \<longrightarrow> rg_main (rg i) \<notin> oc_unattachable s)"
  shows "\<exists>t u ec1 ec2 flis nodes. for_each p (\<lambda>i. orc_serve (reg_msg i (rg i))) s = (Inr (), t) \<and>
    oc_out t = oc_out s @ map (\<lambda>i. (rg_resp (rg i),
      DDRegisterManagerResponse (oc_tag s + int i) (rg_tag (rg i)) ec1 flis nodes)) [0..<n] \<and>
    (\<forall>i < n. rg_err (rg i) = SUCCESS \<longrightarrow> flis ! i = rg_main (rg i)) \<and>
    (ec1 = SUCCESS \<longleftrightarrow> (\<forall>i < n. rg_err (rg i) = SUCCESS)) \<and>
    map_of (oc_files t) (ca_persist_path a, ca_name a) =
      Some \<lparr>md_pools = oc_pools t, md_nodes = nodes, md_persister = ca_persister a\<rparr> \<and>
    for_each q (\<lambda>i. orc_serve (ready_msg rd i)) t = (Inr (), u) \<and>
    oc_out u = oc_out t @ [(fli, DDCreateResponse (oc_tag s + int n) ref ec2)] \<and>
    (ec2 = SUCCESS \<longleftrightarrow> ec1 = SUCCESS \<and> (\<forall>i < n. snd (rd i) = SUCCESS)) \<and>
    (if ec2 = SUCCESS then oc_serving u \<and> oc_connector u = MainConnector else \<not> oc_serving u)"
proof -
  let ?u = "filed a (noted rg p s)"
  let ?t = "?u\<lparr>oc_tag := oc_tag s + int n, oc_out := oc_out s @ manager_answers ?u (oc_returns ?u)\<rparr>"
  have wf: "orc_wf n s" using assms(1) by (simp add: tables_full_def)
  have len: "length (oc_returns s) = n" "length (oc_flis s) = n" using wf by (simp_all add: orc_wf_def)
  have run: "for_each p (\<lambda>i. orc_serve (reg_msg i (rg i))) s = (Inr (), ?t)"
    using register_all [OF assms(1,2,6,9,10,13)] by (simp add: Let_def)
  have rets: "oc_returns ?u = map (\<lambda>i. Some (rg_resp (rg i), rg_tag (rg i))) [0..<n]"
    using assms(10) len by (simp add: filed_def noted_def noted_table_all)
  have ans: "manager_answers ?u (oc_returns ?u) = map (\<lambda>i. (rg_resp (rg i),
      DDRegisterManagerResponse (oc_tag s + int i) (rg_tag (rg i)) (oc_err ?t) (oc_flis ?t) (oc_nodes ?t))) [0..<n]"
    unfolding manager_answers_def rets by (auto simp: filed_def)
  have flis: "\<forall>i < n. rg_err (rg i) = SUCCESS \<longrightarrow> oc_flis ?t ! i = rg_main (rg i)"
    using assms(10) len by (simp add: filed_def noted_def nth_noted_table ok_entry_def)
  have ec1: "oc_err ?t = SUCCESS \<longleftrightarrow> (\<forall>i < n. rg_err (rg i) = SUCCESS)"
    using assms(4,10) by (auto simp: filed_def noted_def worst_SUCCESS)
  have wt: "orc_wf n ?t" using tables_full_noted [OF assms(1)] by (simp add: tables_full_def orc_wf_def filed_def)
  have t: "oc_ready ?t = 0" "oc_req ?t = Some (ref, fli)" "usable fli ?t"
    using assms(3,7,8) by (simp_all add: filed_def noted_def usable_def)
  let ?r = "readied rd q ?t"
  obtain u where u: "for_each q (\<lambda>i. orc_serve (ready_msg rd i)) ?t = (Inr (), u)"
    "oc_out u = oc_out ?t @ [(fli, DDCreateResponse (oc_tag s + int n) ref (oc_err ?r))]"
    "if oc_err ?r = SUCCESS then oc_serving u \<and> oc_connector u = MainConnector else \<not> oc_serving u"
    using ready_all [OF wt t assms(11,12), of rd] assms(5)
    by (simp add: Let_def readied_def filed_def noted_def split: if_splits)
  have ec2: "oc_err ?r = SUCCESS \<longleftrightarrow> oc_err ?t = SUCCESS \<and> (\<forall>i < n. snd (rd i) = SUCCESS)"
    using assms(12) by (auto simp: readied_def worst_SUCCESS)
  have on_file: "map_of (oc_files ?t) (ca_persist_path a, ca_name a) =
      Some \<lparr>md_pools = oc_pools ?t, md_nodes = oc_nodes ?t, md_persister = ca_persister a\<rparr>"
    by (simp add: filed_def)
  have "oc_out ?t = oc_out s @ map (\<lambda>i. (rg_resp (rg i),
      DDRegisterManagerResponse (oc_tag s + int i) (rg_tag (rg i)) (oc_err ?t) (oc_flis ?t) (oc_nodes ?t))) [0..<n]"
    using ans by simp
  then show ?thesis using run flis ec1 u ec2 on_file by blast
qed

definition demo_args :: create_args where
  "demo_args = \<lparr>ca_policy = OnePolicy None, ca_name = ''d'', ca_restart = False, ca_read_only = False,
     ca_restore_from = None, ca_persist_path = '''', ca_persister = PosixCheckpointPersister, ca_rest = ''''\<rparr>"

definition demo_reg :: "nat \<Rightarrow> registration" where
  "demo_reg i = \<lparr>rg_tag = int i, rg_main = (if i = 0 then ''m0'' else ''m1''), rg_resp = (if i = 0 then ''r0'' else ''r1''),
     rg_host = 7, rg_pool = (if i = 0 then ''p0'' else ''p1''), rg_err = SUCCESS\<rparr>"

theorem creation_protocol_witness:
  "\<exists>s t u. orc_serve (DDCreate 9 ''c'' demo_args) demo_orc = (Inr (), s) \<and>
     for_each [1, 0] (\<lambda>i. orc_serve (reg_msg i (demo_reg i))) s = (Inr (), t) \<and>
     for_each [0, 1] (\<lambda>i. orc_serve (ready_msg (\<lambda>i. (int i, SUCCESS)) i)) t = (Inr (), u) \<and>
     last (oc_out u) = (''c'', DDCreateResponse 2 9 SUCCESS) \<and> oc_serving u \<and> oc_connector u = MainConnector"
proof -
  obtain s where run: "orc_serve (DDCreate 9 ''c'' demo_args) demo_orc = (Inr (), s)"
    and s: "tables_full 2 s" "oc_created s = 0" "oc_ready s = 0" "oc_err s = SUCCESS" "oc_serving s"
      "oc_args s = Some demo_args" "oc_req s = Some (9, ''c'')" "usable ''c'' s"
      "oc_unattachable s = {}" "oc_silent s = {}" "oc_tag s = 0"
    by (simp add: orc_serve_def create_def demo_orc_def make_orchestrator_def demo_args_def restart_checks_def
        choose_name_def orc_prepare_def orc_args_def prepare_def start_managers_def add_process_def start_group_def
        py_simps upt_rec tables_full_def orc_wf_def usable_def)
  have reg: "\<forall>i < 2. usable (rg_resp (demo_reg i)) s \<and> (rg_err (demo_reg i) = SUCCESS \<longrightarrow> rg_main (demo_reg i) \<notin> oc_unattachable s)"
    using s(9,10) by (simp add: usable_def)
  have "distinct [1, 0 :: nat]" "set [1, 0 :: nat] = {..<2}" "distinct [0, 1 :: nat]" "set [0, 1 :: nat] = {..<2}"
    by auto
  from creation_protocol [OF s(1-8) this reg, of "\<lambda>i. (int i, SUCCESS)"] s(11)
  obtain t u ec1 ec2 where "for_each [1, 0] (\<lambda>i. orc_serve (reg_msg i (demo_reg i))) s = (Inr (), t)"
    "for_each [0, 1] (\<lambda>i. orc_serve (ready_msg (\<lambda>i. (int i, SUCCESS)) i)) t = (Inr (), u)"
    "oc_out u = oc_out t @ [(''c'', DDCreateResponse 2 9 ec2)]"
    "ec2 = SUCCESS \<longleftrightarrow> ec1 = SUCCESS" "ec1 = SUCCESS" "if ec2 = SUCCESS then oc_serving u \<and> oc_connector u = MainConnector else \<not> oc_serving u"
    by (auto simp: demo_reg_def)
  then show ?thesis using run by (intro exI [of _ s] exI [of _ t] exI [of _ u]) simp
qed

end
