(* ===== verification/Relaunch.thy ===== *)
theory Relaunch
  imports Coordination
begin

text \<open>
  Restarting a dictionary: on which nodes the managers of the previous run are started again, and what a
  restart makes of a later request for the managers.
\<close>

section \<open>Grouping managers by node\<close>

definition group_step :: "(nat \<Rightarrow> nat) \<Rightarrow> nat \<Rightarrow> (nat, nat list) pydict \<Rightarrow> (nat, nat list) pydict" where
  "group_step h i d = AList.update (h i) ((case map_of d (h i) of None \<Rightarrow> [] | Some ms \<Rightarrow> ms) @ [i]) d"

text \<open>A grouping of the managers \<open>ids\<close>: one entry per node, which lists managers of that node, and every
  manager once.\<close>

definition groups :: "(nat \<Rightarrow> nat) \<Rightarrow> nat list \<Rightarrow> (nat, nat list) pydict \<Rightarrow> bool" where
  "groups h ids d \<longleftrightarrow> distinct (map fst d) \<and> (\<forall>(u, ms) \<in> set d. ms \<noteq> [] \<and> (\<forall>i \<in> set ms. h i = u)) \<and>
     mset (concat (map snd d)) = mset ids"

lemma mset_update:
  "distinct (map fst d) \<Longrightarrow> mset (concat (map snd (AList.update k ((case map_of d k of None \<Rightarrow> [] | Some ms \<Rightarrow> ms) @ [i]) d))) =
   add_mset i (mset (concat (map snd d)))"
proof (induction d)
  case (Cons x d)
  obtain u ms where x: "x = (u, ms)" by (cases x)
  show ?case
  proof (cases "u = k")
    case True
    then show ?thesis using x by simp
  next
    case False
    then show ?thesis using Cons x by simp
  qed
qed simp

lemma set_update_distinct:
  "distinct (map fst d) \<Longrightarrow> set (AList.update k v d) = insert (k, v) {x \<in> set d. fst x \<noteq> k}"
proof (induction d)
  case (Cons x d)
  then show ?case by (cases x) (auto simp: rev_image_eqI)
qed simp

lemma groups_step: "groups h ids d \<Longrightarrow> groups h (ids @ [i]) (group_step h i d)"
proof -
  assume g: "groups h ids d"
  then have dist: "distinct (map fst d)" by (simp add: groups_def)
  have "\<forall>j \<in> set (case map_of d (h i) of None \<Rightarrow> [] | Some ms \<Rightarrow> ms). h j = h i"
    using g by (auto simp: groups_def split: option.splits dest: map_of_SomeD)
  then show ?thesis
    using g mset_update [OF dist, of "h i" i] set_update_distinct [OF dist] distinct_update [OF dist]
    unfolding groups_def group_step_def by auto
qed

lemma groups_all: "groups h ids (fold (group_step h) ids [])"
proof (induction ids rule: rev_induct)
  case Nil
  show ?case by (simp add: groups_def)
next
  case (snoc i ids)
  then show ?case by (simp add: groups_step)
qed

lemma groups_keys: "groups h ids d \<Longrightarrow> fst ` set d = h ` set ids \<and> length d = card (h ` set ids)"
proof -
  assume g: "groups h ids d"
  have "set ids = set (concat (map snd d))" using g by (metis groups_def set_mset_mset)
  then have ids: "set ids = (\<Union>(u, ms) \<in> set d. set ms)" by auto
  have "fst ` set d = h ` set ids"
  proof
    show "fst ` set d \<subseteq> h ` set ids"
    proof
      fix u assume "u \<in> fst ` set d"
      then obtain ms where "(u, ms) \<in> set d" by auto
      moreover from this obtain i where "i \<in> set ms" "h i = u" using g by (fastforce simp: groups_def neq_Nil_conv)
      ultimately show "u \<in> h ` set ids" using ids by force
    qed
    show "h ` set ids \<subseteq> fst ` set d" unfolding ids using g by (force simp: groups_def)
  qed
  moreover have "length d = card (fst ` set d)" using g distinct_card [of "map fst d"] by (simp add: groups_def)
  ultimately show ?thesis by simp
qed

section \<open>Managers on nodes that are still there\<close>

definition template_of :: "orc \<Rightarrow> create_args \<Rightarrow> nat \<Rightarrow> string option \<Rightarrow> string \<Rightarrow> template" where
  "template_of s a i pool host = \<lparr>tp_mpool_size = oc_mpool_size s, tp_args = a, tp_manager_id = i, tp_pool = pool,
     tp_policy = Some (host_policy host)\<rparr>"

lemma add_process_run: "oc_args s = Some a \<Longrightarrow> add_process i pool (Some (host_policy host)) s =
    (Inr (), s\<lparr>oc_templates := oc_templates s @ [template_of s a i pool host]\<rparr>)"
  by (simp add: add_process_def orc_args_def template_of_def py_simps)

lemma template_of_upd [simp]: "template_of (s\<lparr>oc_templates := x\<rparr>) = template_of s" "template_of (s\<lparr>oc_drained := y\<rparr>) = template_of s"
  by (simp_all add: template_of_def fun_eq_iff)

lemma restart_old_run:
  assumes "oc_args s = Some a" "\<forall>i \<in> set ids. i < length (oc_pools s) \<and> i < length (oc_nodes s) \<and> oc_nodes s ! i = Some (nd i)"
  shows "restart_old ids same s = (Inr (same \<union> h_uid ` nd ` {i \<in> set ids. h_uid (nd i) \<in> oc_current_nodes s}),
    s\<lparr>oc_templates := oc_templates s @
        map (\<lambda>i. template_of s a i (oc_pools s ! i) (hostname (nd i))) (filter (\<lambda>i. h_uid (nd i) \<in> oc_current_nodes s) ids),
      oc_drained := fold (group_step (\<lambda>i. h_uid (nd i))) (filter (\<lambda>i. h_uid (nd i) \<notin> oc_current_nodes s) ids) (oc_drained s)\<rparr>)"
  using assms
proof (induction ids arbitrary: same s)
  case (Cons i ids)
  let ?h = "h_uid (nd i)"
  have om: "old_manager i s = (Inr (oc_pools s ! i, nd i), s)"
    using Cons.prems(2) by (simp add: old_manager_def)
  show ?case
  proof (cases "?h \<in> oc_current_nodes s")
    case True
    have set: "insert ?h same \<union> h_uid ` nd ` {j \<in> set ids. h_uid (nd j) \<in> oc_current_nodes s} =
        same \<union> h_uid ` nd ` {j \<in> set (i # ids). h_uid (nd j) \<in> oc_current_nodes s}" using True by auto
    show ?thesis
      using Cons.IH [of "s\<lparr>oc_templates := oc_templates s @ [template_of s a i (oc_pools s ! i) (hostname (nd i))]\<rparr>" "insert ?h same"]
        Cons.prems True set add_process_run [OF Cons.prems(1)]
      by (simp add: bnd_apply sq_apply om)
  next
    case False
    have set: "{j \<in> set (i # ids). h_uid (nd j) \<in> oc_current_nodes s} = {j \<in> set ids. h_uid (nd j) \<in> oc_current_nodes s}"
      using False by auto
    have dm: "drain_manager ?h i s = s\<lparr>oc_drained := group_step (\<lambda>i. h_uid (nd i)) i (oc_drained s)\<rparr>"
      by (simp add: drain_manager_def group_step_def)
    show ?thesis
      using Cons.IH [of "s\<lparr>oc_drained := group_step (\<lambda>i. h_uid (nd i)) i (oc_drained s)\<rparr>" same] Cons.prems False set
      by (simp add: bnd_apply sq_apply om dm)
  qed
qed simp

section \<open>Managers of lost nodes\<close>

lemma add_many:
  assumes "oc_args s = Some a"
  shows "for_each ids (\<lambda>i. add_process i None (Some (host_policy host))) s =
    (Inr (), s\<lparr>oc_templates := oc_templates s @ map (\<lambda>i. template_of s a i None host) ids\<rparr>)"
  using assms
proof (induction ids arbitrary: s)
  case (Cons i ids)
  then show ?case
    using Cons.IH [of "s\<lparr>oc_templates := oc_templates s @ [template_of s a i None host]\<rparr>"] add_process_run [OF Cons.prems]
    by (simp add: sq_apply)
qed simp

text \<open>Each lost node is replaced by a new node of its own.\<close>

lemma restart_new_run:
  assumes "oc_args s = Some a" "\<forall>S. S \<subseteq> N \<and> S \<noteq> {} \<longrightarrow> oc_pop s S \<in> S" "distinct (map fst d)" "length d \<le> card N" "finite N"
  shows "\<exists>f. inj_on f (fst ` set d) \<and> f ` fst ` set d \<subseteq> N \<and>
    restart_new (map snd d) N s = (Inr (), s\<lparr>oc_templates := oc_templates s @
      concat (map (\<lambda>(u, ms). map (\<lambda>i. template_of s a i None (oc_hostname s (f u))) ms) d)\<rparr>)"
  using assms
proof (induction d arbitrary: N s)
  case Nil
  then show ?case by simp
next
  case (Cons x d)
  obtain u ms where x: "x = (u, ms)" by (cases x)
  let ?h = "oc_pop s N"
  let ?s = "s\<lparr>oc_templates := oc_templates s @ map (\<lambda>i. template_of s a i None (oc_hostname s ?h)) ms\<rparr>"
  have ne: "N \<noteq> {}" using Cons.prems(4) by auto
  then have h: "?h \<in> N" using Cons.prems(2) by blast
  have len: "length d \<le> card (N - {?h})" using Cons.prems(4,5) h by (simp add: card_Diff_singleton)
  have pre: "oc_args ?s = Some a" "distinct (map fst d)" "finite (N - {?h})" using Cons.prems by simp_all
  have picks: "\<forall>S. S \<subseteq> N - {?h} \<and> S \<noteq> {} \<longrightarrow> oc_pop ?s S \<in> S"
    using Cons.prems(2) by simp blast
  obtain f where f: "inj_on f (fst ` set d)" "f ` fst ` set d \<subseteq> N - {?h}"
    "restart_new (map snd d) (N - {?h}) ?s = (Inr (), ?s\<lparr>oc_templates := oc_templates ?s @
      concat (map (\<lambda>(u, ms). map (\<lambda>i. template_of ?s a i None (oc_hostname ?s (f u))) ms) d)\<rparr>)"
    using Cons.IH [OF pre(1) picks pre(2) len pre(3)] by blast
  let ?f = "f(u := ?h)"
  have u: "u \<notin> fst ` set d" using Cons.prems(3) x by simp
  have same: "map (\<lambda>(v, ms). map (\<lambda>i. template_of s a i None (oc_hostname s (?f v))) ms) d =
     map (\<lambda>(v, ms). map (\<lambda>i. template_of s a i None (oc_hostname s (f v))) ms) d"
    using u by (auto simp: rev_image_eqI)
  have all: "concat (map (\<lambda>(v, ms). map (\<lambda>i. template_of s a i None (oc_hostname s (?f v))) ms) (x # d)) =
     map (\<lambda>i. template_of s a i None (oc_hostname s ?h)) ms @
     concat (map (\<lambda>(v, ms). map (\<lambda>i. template_of s a i None (oc_hostname s (f v))) ms) d)"
    unfolding list.map concat.simps same x prod.case fun_upd_same ..
  have "restart_new (map snd (x # d)) N s = (Inr (), s\<lparr>oc_templates := oc_templates s @
      concat (map (\<lambda>(v, ms). map (\<lambda>i. template_of s a i None (oc_hostname s (?f v))) ms) (x # d))\<rparr>)"
    unfolding all using f(3) add_many [OF Cons.prems(1), of ms "oc_hostname s ?h"] by (simp add: x bnd_apply sq_apply)
  moreover have "inj_on ?f (fst ` set (x # d))" 
  proof -
    have "inj_on ?f (fst ` set d)" using f(1,2) by (intro inj_on_fun_updI) auto
    moreover have "?f u \<notin> ?f ` fst ` set d" using f(2) u by auto
    ultimately show ?thesis using u by (simp add: x)
  qed
  moreover have "?f ` fst ` set (x # d) \<subseteq> N" using f(2) h x by auto
  ultimately show ?case by blast
qed

section \<open>The restart\<close>

text \<open>The template of a restarted manager: on its old node with its old pool, or, when its node is lost, on
  the node \<open>f\<close> gives for it with a pool to be made.\<close>

definition restarted :: "orc \<Rightarrow> create_args \<Rightarrow> (nat \<Rightarrow> machine_node) \<Rightarrow> (nat \<Rightarrow> nat) \<Rightarrow> nat \<Rightarrow> template" where
  "restarted s a nd f i =
     (if h_uid (nd i) \<in> oc_current_nodes s then template_of s a i (oc_pools s ! i) (hostname (nd i))
      else template_of s a i None (oc_hostname s (f (h_uid (nd i)))))"

lemma concat_groups:
  assumes "groups h ids d"
  shows "mset (concat (map (\<lambda>(u, ms). map (\<lambda>i. g i (f u)) ms) d)) = image_mset (\<lambda>i. g i (f (h i))) (mset ids)"
proof -
  have "map (\<lambda>(u, ms). map (\<lambda>i. g i (f u)) ms) d = map (map (\<lambda>i. g i (f (h i)))) (map snd d)"
    using assms by (auto simp: groups_def)
  then have "mset (concat (map (\<lambda>(u, ms). map (\<lambda>i. g i (f u)) ms) d)) = mset (map (\<lambda>i. g i (f (h i))) (concat (map snd d)))"
    by (simp only: map_concat)
  then show ?thesis using assms by (simp add: groups_def)
qed

text \<open>The nodes of the previous run that are lost, and the nodes of the allocation that had no manager.\<close>

definition lost_nodes :: "orc \<Rightarrow> (nat \<Rightarrow> machine_node) \<Rightarrow> nat set" where
  "lost_nodes s nd = (\<lambda>i. h_uid (nd i)) ` {i. i < oc_num s \<and> h_uid (nd i) \<notin> oc_current_nodes s}"

definition new_nodes :: "orc \<Rightarrow> (nat \<Rightarrow> machine_node) \<Rightarrow> nat set" where
  "new_nodes s nd = oc_current_nodes s - (\<lambda>i. h_uid (nd i)) ` {..<oc_num s}"

text \<open>A dictionary that was loaded from its metadata and can be restarted.\<close>

definition reloaded :: "orc \<Rightarrow> create_args \<Rightarrow> (nat \<Rightarrow> machine_node) \<Rightarrow> bool" where
  "reloaded s a nd \<longleftrightarrow> oc_args s = Some a \<and> oc_drained s = [] \<and> length (oc_pools s) = oc_num s \<and>
     length (oc_nodes s) = oc_num s \<and> (\<forall>i < oc_num s. oc_nodes s ! i = Some (nd i)) \<and>
     finite (oc_current_nodes s) \<and> (\<forall>S. S \<subseteq> oc_current_nodes s \<and> S \<noteq> {} \<longrightarrow> oc_pop s S \<in> S)"

text \<open>The state after the managers whose nodes are still there were added.\<close>

definition half_restarted :: "orc \<Rightarrow> create_args \<Rightarrow> (nat \<Rightarrow> machine_node) \<Rightarrow> orc" where
  "half_restarted s a nd = s\<lparr>oc_templates := oc_templates s @
       map (\<lambda>i. template_of s a i (oc_pools s ! i) (hostname (nd i))) (filter (\<lambda>i. h_uid (nd i) \<in> oc_current_nodes s) [0..<oc_num s]),
     oc_drained := fold (group_step (\<lambda>i. h_uid (nd i))) (filter (\<lambda>i. h_uid (nd i) \<notin> oc_current_nodes s) [0..<oc_num s]) []\<rparr>"

lemma half_groups:
  "groups (\<lambda>i. h_uid (nd i)) (filter (\<lambda>i. h_uid (nd i) \<notin> oc_current_nodes s) [0..<oc_num s]) (oc_drained (half_restarted s a nd))"
  by (simp add: half_restarted_def groups_all)

lemma half_lost:
  "fst ` set (oc_drained (half_restarted s a nd)) = lost_nodes s nd"
  "length (oc_drained (half_restarted s a nd)) = card (lost_nodes s nd)"
proof -
  have "(\<lambda>i. h_uid (nd i)) ` set (filter (\<lambda>i. h_uid (nd i) \<notin> oc_current_nodes s) [0..<oc_num s]) = lost_nodes s nd"
    by (auto simp: lost_nodes_def)
  then show "fst ` set (oc_drained (half_restarted s a nd)) = lost_nodes s nd"
    "length (oc_drained (half_restarted s a nd)) = card (lost_nodes s nd)"
    using groups_keys [OF half_groups] by simp_all
qed

lemma restart_managers_body:
  assumes "reloaded s a nd"
  shows "restart_managers s = (if card (new_nodes s nd) < card (lost_nodes s nd)
      then create_failed INVALID_ARGUMENT (half_restarted s a nd)
      else sq (restart_new (map snd (oc_drained (half_restarted s a nd))) (new_nodes s nd)) (ret True) (half_restarted s a nd))"
proof -
  let ?same = "h_uid ` nd ` {i \<in> set [0..<oc_num s]. h_uid (nd i) \<in> oc_current_nodes s}"
  have "oc_current_nodes s - ?same = new_nodes s nd" by (auto simp: new_nodes_def)
  moreover have "restart_old [0..<oc_num s] {} s = (Inr ?same, half_restarted s a nd)"
    using restart_old_run [of s a "[0..<oc_num s]" nd "{}"] assms by (simp add: reloaded_def half_restarted_def)
  moreover have "oc_current_nodes (half_restarted s a nd) = oc_current_nodes s" by (simp add: half_restarted_def)
  ultimately show ?thesis using half_lost(2) [of s a nd] by (simp add: restart_managers_def bnd_apply)
qed

lemma restart_enough:
  assumes "reloaded s a nd" "card (lost_nodes s nd) \<le> card (new_nodes s nd)"
  shows "\<exists>t f. restart_managers s = (Inr True, t) \<and> inj_on f (lost_nodes s nd) \<and> f ` lost_nodes s nd \<subseteq> new_nodes s nd \<and>
      mset (oc_templates t) = mset (oc_templates s) + image_mset (restarted s a nd f) (mset [0..<oc_num s]) \<and>
      fst ` set (oc_drained t) = lost_nodes s nd"
proof -
  let ?u = "half_restarted s a nd" and ?n = "oc_num s" and ?cur = "oc_current_nodes s"
  let ?there = "filter (\<lambda>i. h_uid (nd i) \<in> ?cur) [0..<?n]" and ?gone = "filter (\<lambda>i. h_uid (nd i) \<notin> ?cur) [0..<?n]"
  have fin: "finite (new_nodes s nd)" "new_nodes s nd \<subseteq> ?cur" using assms(1) by (auto simp: new_nodes_def reloaded_def)
  have args: "oc_args ?u = Some a" and dist: "distinct (map fst (oc_drained ?u))"
    and len: "length (oc_drained ?u) \<le> card (new_nodes s nd)"
    using assms half_groups [of nd s a] half_lost(2) [of s a nd] by (simp_all add: reloaded_def half_restarted_def groups_def)
  have "\<forall>S. S \<subseteq> new_nodes s nd \<and> S \<noteq> {} \<longrightarrow> oc_pop ?u S \<in> S"
    using assms(1) fin(2) by (simp add: reloaded_def half_restarted_def) blast
  then obtain f where f: "inj_on f (lost_nodes s nd)" "f ` lost_nodes s nd \<subseteq> new_nodes s nd"
    "restart_new (map snd (oc_drained ?u)) (new_nodes s nd) ?u = (Inr (), ?u\<lparr>oc_templates := oc_templates ?u @
      concat (map (\<lambda>(u, ms). map (\<lambda>i. template_of ?u a i None (oc_hostname ?u (f u))) ms) (oc_drained ?u))\<rparr>)"
    using restart_new_run [OF args _ dist len fin(1)] unfolding half_lost(1) by blast
  have "mset [0..<?n] = mset ?there + mset ?gone" by (simp only: mset_filter multiset_partition [symmetric])
  moreover have "image_mset (restarted s a nd f) (mset ?there) =
      mset (map (\<lambda>i. template_of s a i (oc_pools s ! i) (hostname (nd i))) ?there)"
    by (auto simp: restarted_def intro!: image_mset_cong)
  moreover have "image_mset (restarted s a nd f) (mset ?gone) =
      image_mset (\<lambda>i. template_of s a i None (oc_hostname s (f (h_uid (nd i))))) (mset ?gone)"
    by (auto simp: restarted_def intro!: image_mset_cong)
  moreover have "template_of ?u = template_of s" "oc_hostname ?u = oc_hostname s" by (simp_all add: half_restarted_def)
  moreover note concat_groups [OF half_groups [of nd s a], of "\<lambda>i x. template_of s a i None (oc_hostname s x)" f]
  ultimately have "mset (oc_templates ?u @ concat (map (\<lambda>(u, ms). map (\<lambda>i. template_of ?u a i None (oc_hostname ?u (f u))) ms) (oc_drained ?u))) =
      mset (oc_templates s) + image_mset (restarted s a nd f) (mset [0..<?n])"
    by (simp add: half_restarted_def)
  then show ?thesis
    using restart_managers_body [OF assms(1)] assms(2) f half_lost(1) [of s a nd]
    by (auto simp: sq_apply intro!: exI [of _ f])
qed

text \<open>
  C30: Where a restarted dictionary's managers go.  When there are enough new nodes, every manager is started
  exactly once: a manager whose node is still in the allocation on that node and with its old pool, the
  managers of a lost node all together on a new node, without a pool; different lost nodes are replaced by
  different nodes, none of which held a manager before.  When there are too few new nodes, the creator is
  told that the argument is invalid and the orchestrator stops.
\<close>

theorem restart_placement:
  assumes "reloaded s a nd" "oc_req s = Some (ref, fli)" "usable fli s"
  shows "(card (lost_nodes s nd) \<le> card (new_nodes s nd) \<longrightarrow>
      (\<exists>t f. restart_managers s = (Inr True, t) \<and> inj_on f (lost_nodes s nd) \<and> f ` lost_nodes s nd \<subseteq> new_nodes s nd \<and>
        mset (oc_templates t) = mset (oc_templates s) + image_mset (restarted s a nd f) (mset [0..<oc_num s]))) \<and>
    (card (new_nodes s nd) < card (lost_nodes s nd) \<longrightarrow>
      (\<exists>t. restart_managers s = (Inr False, t) \<and> \<not> oc_serving t \<and>
        oc_out t = oc_out s @ [(fli, DDCreateResponse (oc_tag s) ref INVALID_ARGUMENT)]))"
proof -
  have "\<exists>t. restart_managers s = (Inr False, t) \<and> \<not> oc_serving t \<and>
      oc_out t = oc_out s @ [(fli, DDCreateResponse (oc_tag s) ref INVALID_ARGUMENT)]"
    if "card (new_nodes s nd) < card (lost_nodes s nd)"
    using restart_managers_body [OF assms(1)] that assms(2,3)
    by (simp add: create_failed_def return_create_failure_def orc_tag_inc_def create_req_def attach_def orc_send_def
        usable_def half_restarted_def py_simps)
  then show ?thesis using restart_enough [OF assms(1)] by blast
qed

definition demo_relaunch :: orc where
  "demo_relaunch = demo_orc\<lparr>oc_args := Some (demo_args\<lparr>ca_restart := True\<rparr>), oc_req := Some (9, ''c''),
     oc_nodes := [Some \<lparr>h_uid = 5, hostname = ''a''\<rparr>, Some \<lparr>h_uid = 7, hostname = ''b''\<rparr>],
     oc_pools := [Some ''p0'', Some ''p1''], oc_current_nodes := {7, 8}, oc_pop := Min\<rparr>"

definition demo_nodes :: "nat \<Rightarrow> machine_node" where
  "demo_nodes i = (if i = 0 then \<lparr>h_uid = 5, hostname = ''a''\<rparr> else \<lparr>h_uid = 7, hostname = ''b''\<rparr>)"

lemma demo_relaunch_fields:
  "oc_req demo_relaunch = Some (9, ''c'')" "usable ''c'' demo_relaunch" "oc_templates demo_relaunch = []"
  "oc_num demo_relaunch = 2" "oc_current_nodes demo_relaunch = {7, 8}"
  by (simp_all add: demo_relaunch_def demo_orc_def make_orchestrator_def usable_def)

lemma demo_reloaded: "reloaded demo_relaunch (demo_args\<lparr>ca_restart := True\<rparr>) demo_nodes"
proof -
  have "oc_pop demo_relaunch S \<in> S" if "S \<subseteq> {7, 8}" "S \<noteq> {}" for S
    using that finite_subset [of S "{7, 8}"] Min_in by (simp add: demo_relaunch_def)
  then show ?thesis
    by (simp add: reloaded_def demo_relaunch_fields(5))
       (simp add: demo_relaunch_def demo_orc_def make_orchestrator_def demo_nodes_def nth_Cons')
qed

lemma demo_lost: "lost_nodes demo_relaunch demo_nodes = {5}"
  unfolding lost_nodes_def demo_relaunch_fields(4,5) by (auto simp: demo_nodes_def image_def)

lemma demo_new: "new_nodes demo_relaunch demo_nodes = {8}"
  unfolding new_nodes_def demo_relaunch_fields(4,5) by (auto simp: demo_nodes_def numeral_2_eq_2 lessThan_Suc)

theorem restart_placement_witness:
  "\<exists>t f. restart_managers demo_relaunch = (Inr True, t) \<and> f 5 = 8 \<and>
     mset (oc_templates t) = image_mset (restarted demo_relaunch (demo_args\<lparr>ca_restart := True\<rparr>) demo_nodes f) {#0, 1#}"
  using restart_placement [OF demo_reloaded demo_relaunch_fields(1,2)]
  by (simp add: demo_lost demo_new demo_relaunch_fields(3,4) numeral_2_eq_2)

section \<open>Asking for the managers afterwards\<close>

text \<open>
  C33: A request for the managers stops a relaunched orchestrator.  When managers were started anew for a
  lost node, a client that then asks for the managers gets no answer: the handler indexes a list with the
  list of managers of the lost node, and the orchestrator raises and stops serving.
\<close>

theorem get_managers_stops:
  assumes "reloaded s a nd" "lost_nodes s nd \<noteq> {}" "card (lost_nodes s nd) \<le> card (new_nodes s nd)"
  shows "\<exists>t. restart_managers s = (Inr True, t) \<and>
    orc_serve (DDGetManagers tag fli) t = (Inl RuntimeError, t\<lparr>oc_serving := False\<rparr>)"
proof -
  obtain t where t: "restart_managers s = (Inr True, t)" "fst ` set (oc_drained t) = lost_nodes s nd"
    using restart_enough [OF assms(1,3)] by blast
  then have "oc_drained t \<noteq> []" using assms(2) by auto
  then show ?thesis using t(1) by (simp add: orc_serve_def get_managers_def py_simps)
qed

theorem get_managers_stops_witness:
  "\<exists>t. restart_managers demo_relaunch = (Inr True, t) \<and>
    orc_serve (DDGetManagers 3 ''r'') t = (Inl RuntimeError, t\<lparr>oc_serving := False\<rparr>)"
  using get_managers_stops [OF demo_reloaded] by (simp add: demo_lost demo_new)

end
