(* ===== verification/Teardown.thy ===== *)
theory Teardown
  imports Coordination
begin

text \<open>
  Destroying a dictionary: the messages to the managers, the answers to the clients that asked for it, and
  what becomes of the metadata.
\<close>

lemma tell_run:
  assumes "usable fli s"
  shows "tell_destroy b (Some fli) s =
    (Inr (), s\<lparr>oc_tag := oc_tag s + 1, oc_out := oc_out s @ [(fli, DDDestroyManager (oc_tag s) b)]\<rparr>)"
  using assms by (simp add: tell_destroy_def orc_tag_inc_def orc_send_def usable_def py_simps)

definition told :: "bool \<Rightarrow> int \<Rightarrow> string list \<Rightarrow> (string \<times> orc_event) list" where
  "told b t flis = map (\<lambda>j. (flis ! j, DDDestroyManager (t + int j) b)) [0..<length flis]"

lemma told_run:
  assumes "\<forall>fli \<in> set flis. usable fli s"
  shows "for_each (map Some flis) (tell_destroy b) s =
    (Inr (), s\<lparr>oc_tag := oc_tag s + int (length flis), oc_out := oc_out s @ told b (oc_tag s) flis\<rparr>)"
  using assms
proof (induction flis rule: rev_induct)
  case (snoc fli flis)
  have "told b (oc_tag s) (flis @ [fli]) = told b (oc_tag s) flis @ [(fli, DDDestroyManager (oc_tag s + int (length flis)) b)]"
    by (simp add: told_def nth_append)
  then show ?case
    using snoc by (simp add: for_each_append sq_apply tell_run usable_def add.commute add.left_commute)
qed (simp add: told_def)

text \<open>The loop on the answers of the managers.\<close>

lemma loop_return:
  "oc_serving s \<Longrightarrow> oc_connector s = ReturnConnector \<Longrightarrow> orc_serve m s = (Inr (), t) \<Longrightarrow>
   orc_loop mains (m # returns) s = orc_loop mains returns t"
  by (simp add: orc_loop.simps [of mains "m # returns"] bnd_apply sq_apply)

lemma responses_run:
  assumes "oc_serving s" "oc_received_destroy s" "oc_connector s = ReturnConnector" "oc_num s = oc_destroyed s + Suc k"
  shows "orc_loop mains (replicate (Suc k) (DDDestroyManagerResponse SUCCESS)) s =
    (Inr (mains, []), s\<lparr>oc_destroyed := oc_num s, oc_serving := False\<rparr>)"
  using assms
proof (induction k arbitrary: s)
  case 0
  then show ?case
    by (simp add: orc_loop.simps [of mains] orc_serve_def destroy_manager_response_def py_simps)
next
  case (Suc k)
  let ?t = "s\<lparr>oc_destroyed := oc_destroyed s + 1\<rparr>"
  have "orc_loop mains (replicate (Suc k) (DDDestroyManagerResponse SUCCESS)) ?t =
    (Inr (mains, []), ?t\<lparr>oc_destroyed := oc_num s, oc_serving := False\<rparr>)"
    using Suc.IH [of ?t] Suc.prems by simp
  moreover have "orc_serve (DDDestroyManagerResponse SUCCESS) s = (Inr (), ?t)"
    using Suc.prems by (simp add: orc_serve_def destroy_manager_response_def py_simps)
  ultimately show ?case
    using loop_return [OF Suc.prems(1,3)] by simp
qed

lemma responses_partial:
  assumes "oc_serving s" "oc_received_destroy s" "oc_connector s = ReturnConnector" "oc_destroyed s + k < oc_num s"
  shows "orc_loop mains (replicate k (DDDestroyManagerResponse SUCCESS)) s =
    (Inr (mains, []), s\<lparr>oc_destroyed := oc_destroyed s + k\<rparr>)"
  using assms
proof (induction k arbitrary: s)
  case 0
  then show ?case by (simp add: orc_loop.simps [of mains] bnd_apply)
next
  case (Suc k)
  let ?t = "s\<lparr>oc_destroyed := oc_destroyed s + 1\<rparr>"
  have "orc_serve (DDDestroyManagerResponse SUCCESS) s = (Inr (), ?t)"
    using Suc.prems by (simp add: orc_serve_def destroy_manager_response_def py_simps)
  then show ?case
    using loop_return [OF Suc.prems(1,3)] Suc.IH [of ?t] Suc.prems by simp
qed

text \<open>How far a destruction is after the answers of \<open>k\<close> of the \<open>n\<close> managers.\<close>

definition destroying :: "nat \<Rightarrow> nat \<Rightarrow> int \<Rightarrow> string \<Rightarrow> bool \<Rightarrow> string list \<Rightarrow> string \<times> string \<Rightarrow> orc \<Rightarrow> orc \<Rightarrow> bool" where
  "destroying k n tag fli allowRestart flis path s t \<longleftrightarrow>
     (if k < n then oc_serving t \<and> oc_pending t = [(tag, fli)] \<and> oc_files t = oc_files s \<and>
        oc_out t = oc_out s @ told allowRestart (oc_tag s) flis
      else \<not> oc_serving t \<and> oc_pending t = [] \<and>
        oc_out t = oc_out s @ told allowRestart (oc_tag s) flis @ [(fli, DDDestroyResponse (oc_tag s + int n) tag SUCCESS)] \<and>
        map_of (oc_files t) path = (if allowRestart then map_of (oc_files s) path else None))"

text \<open>
  C31: Destroying a dictionary.  When a client asks for it, every manager is told exactly once, and no
  further request of a client is read.  As long as a manager has not answered, the orchestrator goes on
  serving, has sent nothing else and has touched no file; when the last one has answered, it stops, and the client
  gets exactly one answer.  The metadata on file is removed unless the dictionary may be restarted.
\<close>

theorem destroy_protocol:
  assumes "orc_wf n s" "oc_serving s" "oc_connector s = MainConnector" "\<not> oc_received_destroy s" "oc_pool_created s"
    and "oc_pending s = []" "oc_conns s = map Some flis" "\<forall>m \<in> set flis. usable m s" "usable fli s"
    and "oc_args s = Some a" "map_of (oc_files s) (ca_persist_path a, ca_name a) = Some md" "k \<le> n"
  shows "\<exists>t. orc_run (DDDestroy tag fli allowRestart # mains) (replicate k (DDDestroyManagerResponse SUCCESS)) s = (Inr (), t) \<and>
    destroying k n tag fli allowRestart flis (ca_persist_path a, ca_name a) s t"
proof -
  have n: "oc_num s = n" "length flis = n" "0 < n" using assms(1,7) by (auto simp: orc_wf_def)
  let ?d = "s\<lparr>oc_pending := [(tag, fli)], oc_received_destroy := True, oc_connector := ReturnConnector,
     oc_allow_restart := Some allowRestart, oc_destroyed := 0\<rparr>"
  let ?u = "?d\<lparr>oc_tag := oc_tag s + int n, oc_out := oc_out s @ told allowRestart (oc_tag s) flis\<rparr>"
  have tell: "for_each (map Some flis) (tell_destroy allowRestart) ?d = (Inr (), ?u)"
    using told_run [of flis ?d allowRestart] assms(8) n by (simp add: usable_def)
  have serve: "orc_serve (DDDestroy tag fli allowRestart) s = (Inr (), ?u)"
    using assms(4,6,7) tell by (simp add: orc_serve_def destroy_dict_def py_simps)
  have loop: "orc_loop (DDDestroy tag fli allowRestart # mains) rs s = orc_loop mains rs ?u" for rs
    using assms(2,3) serve by (simp add: orc_loop.simps [of "DDDestroy tag fli allowRestart # mains"] bnd_apply sq_apply)
  show ?thesis
  proof (cases "k < n")
    case True
    then have "orc_loop mains (replicate k (DDDestroyManagerResponse SUCCESS)) ?u = (Inr (mains, []), ?u\<lparr>oc_destroyed := k\<rparr>)"
      using responses_partial [of ?u k mains] assms(2) n by simp
    then show ?thesis using True assms(2) by (simp add: orc_run_def sq_apply bnd_apply loop destroying_def)
  next
    case False
    then have k: "k = n" using assms(12) by simp
    have "orc_loop mains (replicate n (DDDestroyManagerResponse SUCCESS)) ?u =
        (Inr (mains, []), ?u\<lparr>oc_destroyed := n, oc_serving := False\<rparr>)"
      using responses_run [of ?u "n - 1" mains] assms(2) n by simp
    then show ?thesis
      using assms(5,9,10,11) k
      by (simp add: orc_run_def sq_apply bnd_apply loop free_resources_def orc_reply_def orc_tag_inc_def attach_def
          orc_send_def usable_def orc_args_def cleanup_metadata_def try_except_apply destroying_def)
  qed
qed

definition demo_done :: orc where
  "demo_done = demo_orc\<lparr>oc_pool_created := True, oc_conns := map Some [''m0'', ''m1''], oc_args := Some demo_args,
     oc_files := [((ca_persist_path demo_args, ca_name demo_args), \<lparr>md_pools = [], md_nodes = [], md_persister = NULLCheckpointPersister\<rparr>)]\<rparr>"

theorem destroy_protocol_witness:
  "\<exists>t. orc_run [DDDestroy 4 ''c'' False, DDRandomManager 5 ''e''] (replicate 2 (DDDestroyManagerResponse SUCCESS)) demo_done = (Inr (), t) \<and>
     \<not> oc_serving t \<and>
     oc_out t = [(''m0'', DDDestroyManager 0 False), (''m1'', DDDestroyManager 1 False), (''c'', DDDestroyResponse 2 4 SUCCESS)]"
proof -
  have "orc_wf 2 demo_done" "oc_serving demo_done" "oc_connector demo_done = MainConnector" "\<not> oc_received_destroy demo_done"
    "oc_pool_created demo_done" "oc_pending demo_done = []" "oc_conns demo_done = map Some [''m0'', ''m1'']"
    "\<forall>m \<in> set [''m0'', ''m1'']. usable m demo_done" "usable ''c'' demo_done" "oc_args demo_done = Some demo_args"
    "map_of (oc_files demo_done) (ca_persist_path demo_args, ca_name demo_args) =
       Some \<lparr>md_pools = [], md_nodes = [], md_persister = NULLCheckpointPersister\<rparr>"
    "oc_out demo_done = []" "oc_tag demo_done = 0"
    by (simp_all add: demo_done_def demo_orc_def make_orchestrator_def orc_wf_def usable_def)
  from destroy_protocol [OF this(1-11), of 2 4 False "[DDRandomManager 5 ''e'']"] this(12,13) show ?thesis
    by (simp add: told_def upt_rec destroying_def) blast
qed

end
