(* ===== verification/Client.thy ===== *)
theory Client
  imports Server
begin

text \<open>
  The client of a distributed dictionary (class \<open>DDict\<close> of \<open>data/ddict/ddict.py\<close>): how it chooses a manager
  for a key, what it sends, which answers it takes and what it makes of them.

  What arrives for the client is part of its state, in the order it arrives: \<open>cl_inbox\<close> on its buffered
  return connector, \<open>cl_bput_inbox\<close> on the one of a batched broadcast put, \<open>cl_streams\<close> on its return
  connector, where every stream is a message followed by the pieces of a value, \<open>cl_iter_streams\<close> on the
  connector of an iterator.  When nothing is left, a
  receive times out.  Parameters: cloudpickle, which is used where no pickler was set, the hash, how \<open>random.shuffle\<close> orders managers, what sending to a manager raises, the
  manager that the node's key-value store names or the orchestrator hands out, and the nodes of the managers.
\<close>

section \<open>State\<close>

datatype pyobj = PyInt int | PyStr string | PyOther nat

datatype stream_part = PartMsg dmsg | PartBytes bytes

datatype sent = SentTo nat dd_msg "(bytes \<times> hint) list"

record client =
  cl_id :: int
  cl_tag :: int
  cl_chkpt :: int
  cl_num :: nat
  cl_chosen :: "nat option"
  cl_managers :: "nat set"
  cl_main :: nat
  cl_local :: "nat list"
  cl_has_local :: bool
  cl_batch :: bool
  cl_batch_persist :: bool
  cl_handles :: "(nat, dd_msg \<times> (bytes \<times> hint) list) pydict"
  cl_num_puts :: "(nat, int) pydict"
  cl_batch_tags :: "int set"
  cl_bput_handle :: "(nat \<times> dd_msg \<times> (bytes \<times> hint) list) option"
  cl_bput_tag :: int
  cl_num_bputs :: int
  cl_fli :: string
  cl_bput_fli :: string
  cl_key_pickler :: "((pyobj \<Rightarrow> bytes) \<times> (bytes \<Rightarrow> pyobj res)) option"
  cl_value_pickler :: "((pyobj \<Rightarrow> bytes list) \<times> (bytes \<Rightarrow> pyobj res)) option"
  cl_sent :: "sent list"
  cl_inbox :: "dmsg list"
  cl_bput_inbox :: "dmsg list"
  cl_streams :: "stream_part list list"
  cl_iter_streams :: "stream_part list list"
  cl_cloud_dumps :: "pyobj \<Rightarrow> bytes"
  cl_cloud_dump :: "pyobj \<Rightarrow> bytes list"
  cl_cloud_loads :: "bytes \<Rightarrow> pyobj res"
  cl_int_loads :: "bytes \<Rightarrow> pyobj res"
  cl_hash :: "bytes \<Rightarrow> nat"
  cl_str :: "int \<Rightarrow> bytes"
  cl_shuffle :: "nat list \<Rightarrow> nat list"
  cl_set_order :: "nat list \<Rightarrow> nat list"
  cl_send_error :: "nat \<Rightarrow> exn option"
  cl_kv :: "nat res"
  cl_random_manager :: "nat res"
  cl_nodes :: "nat list"
  cl_host :: nat

type_synonym 'a cm = "(client, 'a) pym"

definition key_dumps :: "client \<Rightarrow> pyobj \<Rightarrow> bytes" where
  "key_dumps s = (case cl_key_pickler s of None \<Rightarrow> cl_cloud_dumps s | Some (d, l) \<Rightarrow> d)"

definition value_dump :: "client \<Rightarrow> pyobj \<Rightarrow> bytes list" where
  "value_dump s = (case cl_value_pickler s of None \<Rightarrow> cl_cloud_dump s | Some (d, l) \<Rightarrow> d)"

definition value_loads :: "client \<Rightarrow> bytes \<Rightarrow> pyobj res" where
  "value_loads s = (case cl_value_pickler s of None \<Rightarrow> cl_cloud_loads s | Some (d, l) \<Rightarrow> l)"

definition key_loads :: "client \<Rightarrow> bytes \<Rightarrow> pyobj res" where
  "key_loads s = (case cl_key_pickler s of None \<Rightarrow> cl_cloud_loads s | Some (d, l) \<Rightarrow> l)"

section \<open>Choosing a manager\<close>

definition strip_pickled_bytes :: "bytes \<Rightarrow> bytes" where
  "strip_pickled_bytes b0 =
     (let b1 = if drop (length b0 - 2) b0 = [CHR 0x94, CHR ''.''] then take (length b0 - 2) b0 else b0;
          b2 = if drop (length b1 - 1) b1 = ''.'' then take (length b1 - 1) b1 else b1
      in if take 3 b2 = [CHR 0x80, CHR 0x05, CHR 0x95] then drop 3 b2 else b2)"

text \<open>\<open>str.encode("utf-8")\<close>, for the code points below 256 that a string of the model has.\<close>

definition str_encode :: "string \<Rightarrow> bytes" where
  "str_encode t = concat (map (\<lambda>c. let n = of_char c :: nat in
     if n < 128 then [c] else [char_of (192 + n div 64), char_of (128 + n mod 64)]) t)"

text \<open>The bytes that are hashed for a key.\<close>

definition hashed_bytes :: "pyobj \<Rightarrow> client \<Rightarrow> bytes" where
  "hashed_bytes key s =
     (if cl_key_pickler s \<noteq> None then key_dumps s key
      else case key of PyInt i \<Rightarrow> cl_str s i | PyStr t \<Rightarrow> str_encode t | PyOther n \<Rightarrow> strip_pickled_bytes (key_dumps s key))"

definition choose_manager_pickle_key :: "pyobj \<Rightarrow> client \<Rightarrow> (nat \<times> bytes) res" where
  "choose_manager_pickle_key key s = (case cl_chosen s of
     Some m \<Rightarrow> Inr (m, key_dumps s key)
   | None \<Rightarrow> if cl_num s = 0 then Inl ZeroDivisionError
             else Inr (cl_hash s (hashed_bytes key s) mod cl_num s, key_dumps s key))"

definition which_manager :: "pyobj \<Rightarrow> nat cm" where
  "which_manager key = bnd (lift_res (choose_manager_pickle_key key)) (\<lambda>(m, b). ret m)"

section \<open>Sending and receiving\<close>

definition cl_tag_inc :: "int cm" where
  "cl_tag_inc s = (Inr (cl_tag s), s\<lparr>cl_tag := cl_tag s + 1\<rparr>)"

definition sendable :: "nat \<Rightarrow> unit cm" where
  "sendable m = lift_res (\<lambda>s. case cl_send_error s m of None \<Rightarrow> Inr () | Some e \<Rightarrow> Inl e)"

definition cl_send :: "nat \<Rightarrow> dd_msg \<Rightarrow> (bytes \<times> hint) list \<Rightarrow> unit cm" where
  "cl_send m msg parts = sq (sendable m) (modify (\<lambda>s. s\<lparr>cl_sent := cl_sent s @ [SentTo m msg parts]\<rparr>))"

fun msg_ref :: "dmsg \<Rightarrow> int" where
  "msg_ref (DDPutResponse t r e) = r" | "msg_ref (DDBPutResponse t r e n m) = r"
| "msg_ref (DDBatchPutResponse t r e n m) = r" | "msg_ref (DDGetResponse t r e f) = r"
| "msg_ref (DDPopResponse t r e f) = r" | "msg_ref (DDContainsResponse t r e) = r"
| "msg_ref (DDLengthResponse t r e n) = r" | "msg_ref (DDKeysResponse t r e) = r"
| "msg_ref (DDValuesResponse t r e f) = r" | "msg_ref (DDItemsResponse t r e f) = r"
| "msg_ref (DDClearResponse t r e) = r" | "msg_ref (DDSyncResponse t r e) = r"
| "msg_ref (DDManagerStatsResponse t r e n) = r" | "msg_ref (DDManagerNewestChkptIDResponse t r e i) = r"
| "msg_ref (DDRegisterClientResponse t r e c n m) = r" | "msg_ref (DDConnectToManagerResponse t r e s) = r"
| "msg_ref (DDRegisterClientIDResponse t r e) = r" | "msg_ref (DDDeregisterClientResponse t r e) = r"
| "msg_ref (DDManagerSyncResponse t r e) = r" | "msg_ref (DDManagerSetStateResponse t r e) = r"
| "msg_ref (DDRestoreResponse t r e) = r" | "msg_ref (DDAdvanceResponse t r e c) = r"
| "msg_ref (DDPersistChkptsResponse t r e cs) = r" | "msg_ref (DDChkptAvailResponse t r e b m) = r"
| "msg_ref (DDPersistedChkptAvailResponse t r e b m) = r" | "msg_ref (DDPersistResponse t r e) = r"
| "msg_ref (DDGetFreezeResponse t r e f) = r" | "msg_ref (DDFreezeResponse t r e) = r"
| "msg_ref (DDUnFreezeResponse t r e) = r" | "msg_ref (Forwarded q) = -1"

text \<open>\<open>_recv_resp\<close> on one of the two buffered connectors: answers to other requests are tossed.\<close>

datatype in_conn = ReturnConn | BputConn

fun inbox_of :: "in_conn \<Rightarrow> client \<Rightarrow> dmsg list" where
  "inbox_of ReturnConn s = cl_inbox s"
| "inbox_of BputConn s = cl_bput_inbox s"

fun set_inbox :: "in_conn \<Rightarrow> dmsg list \<Rightarrow> client \<Rightarrow> client" where
  "set_inbox ReturnConn ms s = s\<lparr>cl_inbox := ms\<rparr>"
| "set_inbox BputConn ms s = s\<lparr>cl_bput_inbox := ms\<rparr>"

definition recv_resp :: "in_conn \<Rightarrow> int set \<Rightarrow> dmsg cm" where
  "recv_resp cn refs s = (case dropWhile (\<lambda>m. msg_ref m \<notin> refs) (inbox_of cn s) of
     [] \<Rightarrow> (Inl TimeoutError, set_inbox cn [] s)
   | m # ms \<Rightarrow> (Inr m, set_inbox cn ms s))"

text \<open>\<open>_recv_responses\<close>: with a single tag and several answers, the tag is awaited again and again.\<close>

fun recv_loop :: "in_conn \<Rightarrow> nat \<Rightarrow> int set \<Rightarrow> nat \<Rightarrow> (dmsg \<Rightarrow> unit res) \<Rightarrow> dmsg list cm" where
  "recv_loop cn num refs 0 chk = ret []"
| "recv_loop cn num refs (Suc n) chk = bnd (recv_resp cn refs) (\<lambda>m.
     bnd (lift_res (\<lambda>_. chk m)) (\<lambda>_.
     bnd (recv_loop cn num (if card refs = 1 \<and> 1 < num then refs else refs - {msg_ref m}) n chk) (\<lambda>ms.
       ret (m # ms))))"

definition recv_responses :: "int set \<Rightarrow> nat \<Rightarrow> dmsg list cm" where
  "recv_responses refs n = recv_loop ReturnConn n refs n (\<lambda>_. Inr ())"

definition put_error :: "derr \<Rightarrow> exn option" where
  "put_error e = (if e = SUCCESS then None else if e = MEMORY_POOL_FULL then Some DDictFullError
     else if e = DDICT_CHECKPOINT_RETIRED then Some DDictCheckpointSyncError
     else Some DDictError)"

definition batch_error :: "derr \<Rightarrow> exn option" where
  "batch_error e = (if e = DDICT_FUTURE_CHECKPOINT then Some DDictFutureCheckpointError else put_error e)"

definition any_error :: "derr \<Rightarrow> exn option" where
  "any_error e = (if e = SUCCESS then None else Some DDictError)"

definition raise_on :: "(derr \<Rightarrow> exn option) \<Rightarrow> dmsg \<Rightarrow> unit res" where
  "raise_on f m = (case f (msg_err m) of None \<Rightarrow> Inr () | Some e \<Rightarrow> Inl e)"

definition recv_responses_and_check_err :: "in_conn \<Rightarrow> int set \<Rightarrow> nat \<Rightarrow> dmsg list cm" where
  "recv_responses_and_check_err cn refs n = recv_loop cn n refs n (raise_on batch_error)"

fun check_all :: "(dmsg \<Rightarrow> unit res) \<Rightarrow> dmsg list \<Rightarrow> unit res" where
  "check_all f [] = Inr ()"
| "check_all f (m # ms) = (case f m of Inl e \<Rightarrow> Inl e | Inr _ \<Rightarrow> check_all f ms)"

definition check_resps :: "(dmsg \<Rightarrow> unit res) \<Rightarrow> dmsg list \<Rightarrow> unit cm" where
  "check_resps f ms = lift_res (\<lambda>_. check_all f ms)"

text \<open>\<open>_send_receive\<close>: every exception becomes a \<open>RuntimeError\<close>.\<close>

definition send_receive :: "nat \<Rightarrow> dd_msg \<Rightarrow> int \<Rightarrow> dmsg cm" where
  "send_receive m msg tag =
     try_except (sq (cl_send m msg []) (recv_resp ReturnConn {tag})) (\<lambda>e. raise RuntimeError)"

definition cl_connect_to_manager :: "nat \<Rightarrow> unit cm" where
  "cl_connect_to_manager i = bnd cl_tag_inc (\<lambda>t. bnd (gets cl_main) (\<lambda>main. bnd (gets cl_id) (\<lambda>me.
     bnd (send_receive main (DDConnectToManager me t i) t) (\<lambda>r.
       sq (lift_res (\<lambda>_. raise_on any_error r)) (modify (\<lambda>s. s\<lparr>cl_managers := insert i (cl_managers s)\<rparr>))))))"

definition register_client_ID_to_manager :: "nat \<Rightarrow> unit cm" where
  "register_client_ID_to_manager i = try_except
     (bnd cl_tag_inc (\<lambda>t. bnd (gets cl_id) (\<lambda>me.
        bnd (send_receive i (DDRegisterClientID me t) t) (\<lambda>r. lift_res (\<lambda>_. raise_on any_error r)))))
     (\<lambda>e. raise RuntimeError)"

definition check_manager_connection :: "nat \<Rightarrow> unit cm" where
  "check_manager_connection i = bnd (gets cl_managers) (\<lambda>ms.
     if i \<in> ms then ret () else sq (cl_connect_to_manager i) (register_client_ID_to_manager i))"

definition check_all_connections :: "unit cm" where
  "check_all_connections = bnd (gets cl_num) (\<lambda>n. for_each [0..<n] check_manager_connection)"

text \<open>\<open>_recv_dmsg_and_val\<close>: the answer is looked for in the one stream that was opened; after a message to
  another request, what follows it is parsed as a message too.\<close>

fun find_answer :: "int \<Rightarrow> stream_part list \<Rightarrow> (dmsg \<times> stream_part list) res" where
  "find_answer tag [] = Inl EOFError"
| "find_answer tag (PartBytes b # rest) = Inl GenericException"
| "find_answer tag (PartMsg m # rest) = (if msg_ref m = tag then Inr (m, rest) else find_answer tag rest)"

fun part_bytes :: "stream_part \<Rightarrow> bytes" where
  "part_bytes (PartBytes b) = b"
| "part_bytes (PartMsg m) = []"

definition open_stream :: "stream_part list cm" where
  "open_stream s = (case cl_streams s of [] \<Rightarrow> (Inl TimeoutError, s)
     | p # ps \<Rightarrow> (Inr p, s\<lparr>cl_streams := ps\<rparr>))"

definition recv_dmsg_and_val :: "(bytes \<Rightarrow> pyobj res) \<Rightarrow> int \<Rightarrow> pyobj cm" where
  "recv_dmsg_and_val load tag = bnd open_stream (\<lambda>parts. bnd (lift_res (\<lambda>_. find_answer tag parts)) (\<lambda>(m, rest).
     if msg_err m = KEY_NOT_FOUND then raise DDictKeyError
     else if msg_err m \<noteq> SUCCESS then raise DDictError
     else lift_res (\<lambda>_. case load (concat (map part_bytes rest)) of Inl e \<Rightarrow> Inl RuntimeError | Inr v \<Rightarrow> Inr v)))"

section \<open>Reads and writes of one key\<close>

definition timed :: "'a cm \<Rightarrow> 'a cm" where
  "timed m = try_except m (\<lambda>e. if e = TimeoutError then raise DDictTimeoutError else raise e)"

definition value_parts :: "pyobj \<Rightarrow> client \<Rightarrow> (bytes \<times> hint) list" where
  "value_parts v s = map (\<lambda>b. (b, VALUE_HINT)) (value_dump s v)"

definition send_dmsg_and_key_value :: "nat \<Rightarrow> dd_msg \<Rightarrow> bytes \<Rightarrow> pyobj \<Rightarrow> unit cm" where
  "send_dmsg_and_key_value m msg kb v = sq (check_manager_connection m)
     (timed (bnd (gets (value_parts v)) (\<lambda>vs. cl_send m msg ((kb, KEY_HINT) # vs))))"

definition cl_put :: "dd_msg \<Rightarrow> int \<Rightarrow> pyobj \<Rightarrow> pyobj \<Rightarrow> unit cm" where
  "cl_put msg tag key v = bnd (lift_res (choose_manager_pickle_key key)) (\<lambda>(m, kb).
     sq (send_dmsg_and_key_value m msg kb v)
       (bnd (timed (recv_resp ReturnConn {tag})) (\<lambda>r. lift_res (\<lambda>_. raise_on put_error r))))"

definition plain_put :: "bool \<Rightarrow> bool \<Rightarrow> pyobj \<Rightarrow> pyobj \<Rightarrow> unit cm" where
  "plain_put persist waitFor key v = bnd cl_tag_inc (\<lambda>t. bnd (gets cl_id) (\<lambda>me. bnd (gets cl_chkpt) (\<lambda>c.
     cl_put (DDPut me c t persist waitFor) t key v)))"

text \<open>\<open>_batch_put\<close> always uses the default pickler.  The first put to a manager opens a send handle, which stays open, and announces the
  batch; keys and values follow it in the same stream.\<close>

definition open_handle :: "nat \<Rightarrow> bool \<Rightarrow> unit cm" where
  "open_handle m persist = bnd (gets (\<lambda>s. map_of (cl_handles s) m)) (\<lambda>h. case h of Some _ \<Rightarrow> ret ()
     | None \<Rightarrow> bnd cl_tag_inc (\<lambda>t. bnd (gets cl_id) (\<lambda>me. bnd (gets cl_chkpt) (\<lambda>c.
         sq (modify (\<lambda>s. s\<lparr>cl_handles := AList.update m (DDBatchPut me c t persist, []) (cl_handles s),
                            cl_batch_tags := insert t (cl_batch_tags s)\<rparr>))
           (sendable m)))))"

definition add_parts :: "nat \<Rightarrow> (bytes \<times> hint) list \<Rightarrow> client \<Rightarrow> client" where
  "add_parts m ps s = (case map_of (cl_handles s) m of None \<Rightarrow> s
     | Some (msg, qs) \<Rightarrow> s\<lparr>cl_handles := AList.update m (msg, qs @ ps) (cl_handles s)\<rparr>)"

definition count_put :: "nat \<Rightarrow> client \<Rightarrow> client" where
  "count_put m s = s\<lparr>cl_num_puts := AList.update m
     ((case map_of (cl_num_puts s) m of None \<Rightarrow> 0 | Some n \<Rightarrow> n) + 1) (cl_num_puts s)\<rparr>"

definition batch_parts :: "pyobj \<Rightarrow> client \<Rightarrow> (bytes \<times> hint) list" where
  "batch_parts v s = map (\<lambda>b. (b, VALUE_HINT)) (cl_cloud_dump s v)"

definition cl_batch_put :: "pyobj \<Rightarrow> pyobj \<Rightarrow> bool \<Rightarrow> unit cm" where
  "cl_batch_put key v persist = bnd (lift_res (choose_manager_pickle_key key)) (\<lambda>(m, kb).
     sq (check_manager_connection m)
       (timed (sq (open_handle m persist)
         (sq (sendable m) (bnd (gets (batch_parts v)) (\<lambda>vs.
            sq (modify (add_parts m ((kb, KEY_HINT) # vs))) (modify (count_put m))))))))"

definition setitem :: "pyobj \<Rightarrow> pyobj \<Rightarrow> unit cm" where
  "setitem key v = bnd (gets cl_batch) (\<lambda>batch. bnd (gets cl_batch_persist) (\<lambda>persist.
     if batch then (if persist then raise DDictError else cl_batch_put key v False)
     else plain_put False False key v))"

definition pput :: "pyobj \<Rightarrow> pyobj \<Rightarrow> unit cm" where
  "pput key v = bnd (gets cl_batch) (\<lambda>batch. bnd (gets cl_batch_persist) (\<lambda>persist.
     if batch then (if \<not> persist then raise DDictError else cl_batch_put key v True)
     else plain_put True False key v))"

definition wait_for :: "pyobj \<Rightarrow> pyobj \<Rightarrow> unit cm" where
  "wait_for key v = plain_put False True key v"

definition read_key :: "(int \<Rightarrow> int \<Rightarrow> int \<Rightarrow> bytes \<Rightarrow> dd_msg) \<Rightarrow> (client \<Rightarrow> bytes \<Rightarrow> pyobj res) \<Rightarrow> pyobj \<Rightarrow> pyobj cm" where
  "read_key mk load key = bnd (lift_res (choose_manager_pickle_key key)) (\<lambda>(m, kb).
     bnd cl_tag_inc (\<lambda>t. bnd (gets cl_id) (\<lambda>me. bnd (gets cl_chkpt) (\<lambda>c.
       sq (check_manager_connection m) (sq (cl_send m (mk me c t kb) [])
         (bnd (gets load) (\<lambda>ld. recv_dmsg_and_val ld t)))))))"

definition getitem :: "pyobj \<Rightarrow> pyobj cm" where
  "getitem key = read_key (\<lambda>me c t kb. DDGet me c t kb False 0) value_loads key"

definition cl_get :: "pyobj \<Rightarrow> pyobj option \<Rightarrow> pyobj option cm" where
  "cl_get key dflt = try_except (bnd (getitem key) (\<lambda>v. ret (Some v)))
     (\<lambda>e. if e = DDictKeyError \<or> e = KeyError then ret dflt else raise e)"

definition fetch_add :: "pyobj \<Rightarrow> int \<Rightarrow> pyobj cm" where
  "fetch_add key val = read_key (\<lambda>me c t kb. DDGet me c t kb True val) cl_int_loads key"

text \<open>\<open>pop\<close>: a default of \<open>None\<close> counts as no default.\<close>

definition cl_pop :: "pyobj \<Rightarrow> pyobj option \<Rightarrow> pyobj cm" where
  "cl_pop key dflt = bnd (lift_res (choose_manager_pickle_key key)) (\<lambda>(m, kb).
     bnd cl_tag_inc (\<lambda>t. bnd (gets cl_id) (\<lambda>me. bnd (gets cl_chkpt) (\<lambda>c.
       sq (check_manager_connection m) (sq (cl_send m (DDPop me c t kb) [])
         (bnd (gets value_loads) (\<lambda>ld. try_except (recv_dmsg_and_val ld t)
            (\<lambda>e. case dflt of Some d \<Rightarrow> if e = DDictKeyError \<or> e = KeyError then ret d else raise e
                 | None \<Rightarrow> raise e))))))))"

definition delitem :: "pyobj \<Rightarrow> unit cm" where
  "delitem key = bnd (cl_pop key None) (\<lambda>_. ret ())"

definition cl_contains :: "pyobj \<Rightarrow> bool cm" where
  "cl_contains key = bnd (lift_res (choose_manager_pickle_key key)) (\<lambda>(m, kb).
     bnd cl_tag_inc (\<lambda>t. bnd (gets cl_id) (\<lambda>me. bnd (gets cl_chkpt) (\<lambda>c.
       sq (check_manager_connection m) (bnd (send_receive m (DDContains me c t kb) t) (\<lambda>r.
         if msg_err r = SUCCESS then ret True
         else if msg_err r = KEY_NOT_FOUND then ret False
         else if msg_err r = DDICT_CHECKPOINT_RETIRED then raise DDictCheckpointSyncError
         else raise DDictError))))))"

definition bget :: "pyobj \<Rightarrow> pyobj cm" where
  "bget key = bnd (lift_res (choose_manager_pickle_key key)) (\<lambda>(m, kb).
     bnd cl_tag_inc (\<lambda>t. bnd (gets cl_id) (\<lambda>me. bnd (gets cl_chkpt) (\<lambda>c.
       bnd (bnd (gets cl_chosen) (\<lambda>ch. case ch of
          Some i \<Rightarrow> sq (check_manager_connection i) (ret i) | None \<Rightarrow> gets cl_main)) (\<lambda>i.
         sq (cl_send i (DDGet me c t kb False 0) []) (bnd (gets value_loads) (\<lambda>ld. recv_dmsg_and_val ld t)))))))"

section \<open>Batches\<close>

definition start_batch_put :: "bool \<Rightarrow> unit cm" where
  "start_batch_put persist = modify (\<lambda>s. s\<lparr>cl_batch := True, cl_batch_persist := persist\<rparr>)"

text \<open>Broadcast puts: in a batch, the handle of a randomly chosen root manager stays open; otherwise the key
  is sent to a random root and every manager answers.\<close>

definition shuffled :: "client \<Rightarrow> nat list" where
  "shuffled s = cl_shuffle s [0..<cl_num s]"

definition puts_of :: "dmsg \<Rightarrow> int" where
  "puts_of m = (case m of DDBPutResponse t r e n j \<Rightarrow> n | DDBatchPutResponse t r e n j \<Rightarrow> n | _ \<Rightarrow> 0)"

definition root_of :: "nat list \<Rightarrow> nat res" where
  "root_of ms = (case ms of [] \<Rightarrow> Inl IndexError | m # _ \<Rightarrow> Inr m)"

definition open_bput :: "unit cm" where
  "open_bput = bnd (gets cl_bput_handle) (\<lambda>h. case h of Some _ \<Rightarrow> ret ()
     | None \<Rightarrow> bnd (gets shuffled) (\<lambda>ms. bnd (lift_res (\<lambda>_. root_of ms)) (\<lambda>root.
         sq (check_manager_connection root)
           (bnd cl_tag_inc (\<lambda>t. bnd (gets cl_id) (\<lambda>me. bnd (gets cl_chkpt) (\<lambda>c. bnd (gets cl_bput_fli) (\<lambda>fli.
              sq (modify (\<lambda>s. s\<lparr>cl_bput_handle := Some (root, Tree (DDBPut t me c fli ms True), []), cl_bput_tag := t\<rparr>))
                (sendable root)))))))))"

definition bput_more :: "(bytes \<times> hint) list \<Rightarrow> unit cm" where
  "bput_more ps = bnd (gets cl_bput_handle) (\<lambda>h. case h of None \<Rightarrow> raise AttributeError
     | Some (root, msg, qs) \<Rightarrow> sq (sendable root)
         (modify (\<lambda>s. s\<lparr>cl_bput_handle := Some (root, msg, qs @ ps), cl_num_bputs := cl_num_bputs s + 1\<rparr>)))"

definition cl_bput :: "pyobj \<Rightarrow> pyobj \<Rightarrow> unit cm" where
  "cl_bput key v = bnd (lift_res (choose_manager_pickle_key key)) (\<lambda>(_, kb).
     bnd (gets cl_batch) (\<lambda>batch. bnd (gets cl_batch_persist) (\<lambda>persist.
       if batch then
         (if persist then raise DDictError
          else timed (sq open_bput (bnd (gets (batch_parts v)) (\<lambda>vs. bput_more ((kb, KEY_HINT) # vs)))))
       else bnd (gets shuffled) (\<lambda>ms. bnd cl_tag_inc (\<lambda>t. bnd (gets cl_id) (\<lambda>me. bnd (gets cl_chkpt) (\<lambda>c.
         bnd (gets cl_fli) (\<lambda>fli. bnd (lift_res (\<lambda>_. root_of ms)) (\<lambda>root.
           sq (send_dmsg_and_key_value root (Tree (DDBPut t me c fli ms False)) kb v)
             (bnd (gets cl_num) (\<lambda>n. bnd (recv_responses_and_check_err ReturnConn {t} n) (\<lambda>rs.
                check_resps (\<lambda>r. if puts_of r \<noteq> 1 then Inl DDictError else Inr ()) rs))))))))))))"

text \<open>\<open>_end_bput_with_batch\<close> and \<open>end_batch_put\<close>: the handles are closed, which ends the streams; then the
  answers are awaited.  An exception leaves the counters of this batch in place.\<close>

definition close_bput :: "client \<Rightarrow> client" where
  "close_bput s = (case cl_bput_handle s of None \<Rightarrow> s
     | Some (root, msg, ps) \<Rightarrow> s\<lparr>cl_sent := cl_sent s @ [SentTo root msg ps], cl_bput_handle := None\<rparr>)"

definition end_bput_with_batch :: "unit cm" where
  "end_bput_with_batch = sq (modify close_bput)
     (bnd (gets cl_num) (\<lambda>n. bnd (gets cl_bput_tag) (\<lambda>t. bnd (gets cl_num_bputs) (\<lambda>k.
        bnd (recv_responses_and_check_err BputConn {t} n) (\<lambda>rs.
          sq (check_resps (\<lambda>r. if puts_of r \<noteq> k then Inl DDictError else Inr ()) rs)
             (modify (\<lambda>s. s\<lparr>cl_num_bputs := 0\<rparr>)))))))"

definition close_handles :: "client \<Rightarrow> client" where
  "close_handles s = s\<lparr>cl_sent := cl_sent s @ map (\<lambda>(m, msg, ps). SentTo m msg ps) (cl_handles s), cl_handles := []\<rparr>"

definition check_batch :: "(nat, int) pydict \<Rightarrow> dmsg \<Rightarrow> unit res" where
  "check_batch expected r = (case batch_error (msg_err r) of Some e \<Rightarrow> Inl e
     | None \<Rightarrow> (case r of DDBatchPutResponse t ref e n m \<Rightarrow>
         (case map_of expected m of None \<Rightarrow> Inl KeyError
          | Some k \<Rightarrow> if n \<noteq> k then Inl DDictError else Inr ())
       | _ \<Rightarrow> Inl AttributeError))"

text \<open>The set of tags that \<open>end_batch_put\<close> hands to \<open>_recv_responses\<close> is the client's own: every answer
  that is taken removes its tag from it.\<close>

fun recv_batch :: "nat \<Rightarrow> nat \<Rightarrow> dmsg list cm" where
  "recv_batch num 0 = ret []"
| "recv_batch num (Suc n) = bnd (gets cl_batch_tags) (\<lambda>tags. bnd (recv_resp ReturnConn tags) (\<lambda>m.
     sq (modify (\<lambda>s. s\<lparr>cl_batch_tags := (if card tags = 1 \<and> 1 < num then tags else tags - {msg_ref m})\<rparr>))
       (bnd (recv_batch num n) (\<lambda>ms. ret (m # ms)))))"

definition end_batch_put :: "unit cm" where
  "end_batch_put = bnd (gets cl_batch) (\<lambda>batch. if \<not> batch then raise DDictError
     else sq (modify (\<lambda>s. s\<lparr>cl_batch := False\<rparr>))
       (sq (bnd (gets cl_bput_handle) (\<lambda>h. if h \<noteq> None then end_bput_with_batch else ret ()))
         (sq (modify close_handles)
           (bnd (gets cl_num_puts) (\<lambda>expected. bnd (recv_batch (length expected) (length expected)) (\<lambda>rs.
              sq (modify (\<lambda>s. s\<lparr>cl_batch_tags := {}\<rparr>))
                (sq (check_resps (check_batch expected) rs)
                   (modify (\<lambda>s. s\<lparr>cl_num_puts := []\<rparr>)))))))))"

section \<open>Requests to all managers\<close>

text \<open>A request goes to manager 0, which passes it on, and every manager answers; a client that was directed
  to one manager asks only that one.\<close>

definition to_all :: "(int \<Rightarrow> client \<Rightarrow> request) \<Rightarrow> (int \<times> dmsg list) cm" where
  "to_all mk = bnd cl_tag_inc (\<lambda>t. sq (check_manager_connection 0)
     (bnd (gets (mk t)) (\<lambda>q. sq (cl_send 0 (Tree q) []) (bnd (gets cl_num) (\<lambda>n.
        bnd (recv_responses {t} n) (\<lambda>rs. ret (t, rs)))))))"

definition to_selected :: "(int \<Rightarrow> bool \<Rightarrow> client \<Rightarrow> request) \<Rightarrow> (int set \<Rightarrow> nat \<Rightarrow> dmsg list cm) \<Rightarrow> dmsg list cm" where
  "to_selected mk recv = bnd cl_tag_inc (\<lambda>t. bnd (gets cl_chosen) (\<lambda>ch. bnd (gets cl_num) (\<lambda>n.
     let broadcast = (ch = None); m = (case ch of None \<Rightarrow> 0 | Some i \<Rightarrow> i) in
     sq (check_manager_connection m)
       (bnd (gets (mk t broadcast)) (\<lambda>q. sq (cl_send m (Tree q) []) (recv {t} (if broadcast then n else 1)))))))"

text \<open>
  \<open>resp_msg.length\<close>, which only the responses to a length request have: for any other response that
  reports a success, the check of the responses raises \<open>AttributeError\<close>.
\<close>

definition has_length :: "dmsg \<Rightarrow> bool" where
  "has_length m = (case m of DDLengthResponse t r e n \<Rightarrow> True | _ \<Rightarrow> False)"

definition length_of :: "dmsg \<Rightarrow> nat" where
  "length_of m = (case m of DDLengthResponse t r e n \<Rightarrow> n | _ \<Rightarrow> 0)"

definition check_length :: "(dmsg \<Rightarrow> unit res) \<Rightarrow> dmsg \<Rightarrow> unit res" where
  "check_length f m = (case f m of Inl e \<Rightarrow> Inl e | Inr _ \<Rightarrow> if has_length m then Inr () else Inl AttributeError)"

definition read_error :: "derr \<Rightarrow> exn option" where
  "read_error e = (if e = SUCCESS then None else if e = DDICT_CHECKPOINT_RETIRED then Some DDictCheckpointSyncError
     else Some DDictError)"

definition cl_len :: "nat cm" where
  "cl_len = bnd (to_selected (\<lambda>t b s. DDLength (cl_id s) (cl_chkpt s) t (cl_fli s) b) recv_responses) (\<lambda>rs.
     sq (check_resps (check_length (raise_on read_error)) rs) (ret (sum_list (map length_of rs))))"

text \<open>\<open>local_len\<close> names no checkpoint, so checkpoint 0 is asked for, and does not connect first.\<close>

fun ask_local :: "nat list \<Rightarrow> int set cm" where
  "ask_local [] = ret {}"
| "ask_local (i # is) = bnd cl_tag_inc (\<lambda>t.
     bnd (lift_res (\<lambda>s. if i \<in> cl_managers s then Inr () else Inl KeyError)) (\<lambda>_.
       bnd (gets (\<lambda>s. DDLength (cl_id s) 0 t (cl_fli s) False)) (\<lambda>q.
         sq (cl_send i (Tree q) []) (bnd (ask_local is) (\<lambda>ts. ret (insert t ts))))))"

definition local_len :: "nat cm" where
  "local_len = bnd (gets cl_local) (\<lambda>ls. bnd (ask_local ls) (\<lambda>ts. bnd (recv_responses ts (length ls)) (\<lambda>rs.
     sq (check_resps (check_length (\<lambda>r. if msg_err r = SUCCESS then Inr ()
           else if msg_err r = DDICT_CHECKPOINT_RETIRED then Inl DDictCheckpointSyncError else Inl RuntimeError)) rs)
        (ret (sum_list (map length_of rs))))))"

definition cl_clear :: "unit cm" where
  "cl_clear = bnd (to_selected (\<lambda>t b s. DDClear (cl_id s) (cl_chkpt s) t (cl_fli s) b)
     (recv_responses_and_check_err ReturnConn)) (\<lambda>_. ret ())"

definition cl_sync :: "unit cm" where
  "cl_sync = bnd (to_all (\<lambda>t s. DDSync t (cl_fli s) True)) (\<lambda>(t, rs). check_resps (raise_on any_error) rs)"

definition newest_of :: "dmsg \<Rightarrow> int" where
  "newest_of m = (case m of DDManagerNewestChkptIDResponse t r e i \<Rightarrow> i | _ \<Rightarrow> 0)"

definition set_chkpt :: "int \<Rightarrow> unit cm" where
  "set_chkpt c = modify (\<lambda>s. s\<lparr>cl_chkpt := c\<rparr>)"

definition sync_to_newest_checkpoint :: "unit cm" where
  "sync_to_newest_checkpoint =
     bnd (to_selected (\<lambda>t b s. DDManagerNewestChkptID t (cl_fli s) b) recv_responses) (\<lambda>rs.
       sq (check_resps (raise_on any_error) rs) (set_chkpt (fold (\<lambda>r c. max c (newest_of r)) rs 0)))"

definition persist_error :: "derr \<Rightarrow> exn option" where
  "persist_error e = (if e = SUCCESS then None
     else if e = DDICT_PERSIST_CHECKPOINT_UNAVAILABLE then Some DDictPersistCheckpointError else Some DDictError)"

definition avail_error :: "dmsg \<Rightarrow> unit res" where
  "avail_error r = (if msg_err r \<noteq> SUCCESS then Inl DDictError else case r of
       DDChkptAvailResponse t ref e b m \<Rightarrow> if b then Inr () else Inl DDictError
     | DDPersistedChkptAvailResponse t ref e b m \<Rightarrow> if b then Inr () else Inl DDictError
     | _ \<Rightarrow> Inl AttributeError)"

definition cl_chkpt_avail :: "int \<Rightarrow> unit cm" where
  "cl_chkpt_avail c = bnd (to_all (\<lambda>t s. DDChkptAvail c t (cl_fli s))) (\<lambda>(t, rs). check_resps avail_error rs)"

definition cl_persisted_chkpt_avail :: "int \<Rightarrow> unit cm" where
  "cl_persisted_chkpt_avail c = bnd (to_all (\<lambda>t s. DDPersistedChkptAvail c t (cl_fli s))) (\<lambda>(t, rs). check_resps avail_error rs)"

definition restore_all :: "int \<Rightarrow> unit cm" where
  "restore_all c = bnd (to_all (\<lambda>t s. DDRestore c (cl_id s) t (cl_fli s))) (\<lambda>(t, rs).
     sq (check_resps (raise_on persist_error) rs) (set_chkpt c))"

definition cl_restore :: "int \<Rightarrow> unit cm" where
  "cl_restore c = bnd (gets cl_batch) (\<lambda>batch. if batch then raise DDictError
     else sq (cl_persisted_chkpt_avail c) (restore_all c))"

definition MAXSIZE :: int where "MAXSIZE = 2 ^ 63 - 1"

definition advanced_to :: "dmsg \<Rightarrow> int" where
  "advanced_to m = (case m of DDAdvanceResponse t r e (Some c) \<Rightarrow> c | _ \<Rightarrow> MAXSIZE)"

text \<open>An answer without a checkpoint cannot be compared.\<close>

definition advance_error :: "dmsg \<Rightarrow> unit res" where
  "advance_error r = (case raise_on persist_error r of Inl e \<Rightarrow> Inl e
     | Inr _ \<Rightarrow> (case r of DDAdvanceResponse t ref e None \<Rightarrow> Inl TypeError | _ \<Rightarrow> Inr ()))"

definition cl_advance :: "unit cm" where
  "cl_advance = bnd (to_all (\<lambda>t s. DDAdvance (cl_id s) t (cl_fli s))) (\<lambda>(t, rs).
     sq (check_resps advance_error rs)
       (let c = fold (\<lambda>r c. min c (advanced_to r)) rs MAXSIZE in sq (set_chkpt c) (restore_all c)))"

definition cl_persist :: "unit cm" where
  "cl_persist = bnd (gets cl_chkpt) (\<lambda>c. sq (cl_chkpt_avail c)
     (bnd (to_all (\<lambda>t s. DDPersist (cl_chkpt s) t (cl_fli s))) (\<lambda>(t, rs). check_resps (raise_on persist_error) rs)))"

definition ids_of :: "dmsg \<Rightarrow> int list" where
  "ids_of m = (case m of DDPersistChkptsResponse t r e cs \<Rightarrow> cs | _ \<Rightarrow> [])"

definition persisted_ids :: "int list cm" where
  "persisted_ids = bnd (to_all (\<lambda>t s. DDPersistChkpts (cl_id s) t (cl_fli s))) (\<lambda>(t, rs).
     if rs = [] then raise IndexError
     else sq (check_resps (raise_on any_error) rs)
       (ret (sorted_list_of_set (fold (\<lambda>r A. A \<inter> set (ids_of r)) (tl rs) (set (ids_of (hd rs)))))))"

definition cl_freeze :: "unit cm" where
  "cl_freeze = bnd (to_all (\<lambda>t s. DDFreeze t (cl_fli s))) (\<lambda>(t, rs). check_resps (raise_on any_error) rs)"

text \<open>\<open>unfreeze\<close> builds its exception with one argument too few.\<close>

definition cl_unfreeze :: "unit cm" where
  "cl_unfreeze = bnd (to_all (\<lambda>t s. DDUnFreeze t (cl_fli s))) (\<lambda>(t, rs).
     check_resps (\<lambda>r. if msg_err r \<noteq> SUCCESS then Inl TypeError else Inr ()) rs)"

definition is_frozen :: "bool cm" where
  "is_frozen = bnd cl_tag_inc (\<lambda>t. bnd (gets cl_main) (\<lambda>m. bnd (gets cl_id) (\<lambda>me.
     bnd (send_receive m (DDGetFreeze me t) t) (\<lambda>r. sq (lift_res (\<lambda>_. raise_on any_error r))
       (case r of DDGetFreezeResponse t' ref e b \<Rightarrow> ret b | _ \<Rightarrow> raise AttributeError)))))"

section \<open>Iterating over the keys\<close>

text \<open>The generator \<open>_keys\<close>, run to its end: one manager after the other is asked for its keys and streams
  them.  The list of managers is shuffled and turned back into a set; \<open>cl_set_order\<close> is the order in which
  the set made from a list is run through.  A stream that answers another request is dropped.\<close>

definition open_iter :: "stream_part list cm" where
  "open_iter s = (case cl_iter_streams s of [] \<Rightarrow> (Inl TimeoutError, s)
     | p # ps \<Rightarrow> (Inr p, s\<lparr>cl_iter_streams := ps\<rparr>))"

fun first_msg :: "stream_part list \<Rightarrow> (dmsg \<times> stream_part list) res" where
  "first_msg [] = Inl EOFError"
| "first_msg (PartBytes b # rest) = Inl GenericException"
| "first_msg (PartMsg m # rest) = Inr (m, rest)"

fun load_keys :: "(bytes \<Rightarrow> pyobj res) \<Rightarrow> stream_part list \<Rightarrow> pyobj list res" where
  "load_keys ld [] = Inr []"
| "load_keys ld (p # ps) = (case ld (part_bytes p) of
     Inl e \<Rightarrow> if e = EOFError then Inr [] else Inl e
   | Inr k \<Rightarrow> (case load_keys ld ps of Inl e \<Rightarrow> Inl e | Inr ks \<Rightarrow> Inr (k # ks)))"

definition manager_keys :: "nat \<Rightarrow> pyobj list cm" where
  "manager_keys m = bnd cl_tag_inc (\<lambda>t. bnd (gets (\<lambda>s. DDKeys (cl_id s) (cl_chkpt s) t (cl_fli s))) (\<lambda>q.
     bnd (lift_res (\<lambda>s. if m \<in> cl_managers s then Inr () else Inl KeyError)) (\<lambda>_.
       sq (cl_send m q []) (bnd open_iter (\<lambda>parts. bnd (lift_res (\<lambda>_. first_msg parts)) (\<lambda>(r, rest).
         if msg_ref r \<noteq> t then ret []
         else if msg_err r \<noteq> SUCCESS then raise DDictError
         else bnd (gets key_loads) (\<lambda>ld. lift_res (\<lambda>_. load_keys ld rest))))))))"

fun keys_from :: "nat list \<Rightarrow> pyobj list cm" where
  "keys_from [] = ret []"
| "keys_from (m # ms) = bnd (manager_keys m) (\<lambda>ks. bnd (keys_from ms) (\<lambda>ls. ret (ks @ ls)))"

definition iter_keys :: "nat list \<Rightarrow> pyobj list cm" where
  "iter_keys ms = bnd (gets (\<lambda>s. cl_set_order s (cl_shuffle s ms))) keys_from"

definition cl_keys :: "pyobj list cm" where
  "cl_keys = bnd (gets cl_chosen) (\<lambda>ch. case ch of
     Some m \<Rightarrow> sq (check_manager_connection m) (iter_keys [m])
   | None \<Rightarrow> sq check_all_connections (bnd (gets cl_num) (\<lambda>n. iter_keys [0..<n])))"

definition local_keys :: "pyobj list cm" where
  "local_keys = bnd (gets cl_local) (\<lambda>ls. sq (for_each ls check_manager_connection) (iter_keys ls))"

section \<open>Checkpoints of the client\<close>

definition cl_checkpoint :: "unit cm" where
  "cl_checkpoint = bnd (gets cl_batch) (\<lambda>batch. if batch then raise DDictError
     else modify (\<lambda>s. s\<lparr>cl_chkpt := cl_chkpt s + 1\<rparr>))"

definition rollback :: "unit cm" where
  "rollback = bnd (gets cl_batch) (\<lambda>batch. if batch then raise DDictError
     else modify (\<lambda>s. s\<lparr>cl_chkpt := (if cl_chkpt s - 1 < 0 then 0 else cl_chkpt s - 1)\<rparr>))"

definition set_checkpoint_id :: "int \<Rightarrow> unit cm" where
  "set_checkpoint_id c = (if c < 0 then raise ValueError else set_chkpt c)"

text \<open>\<open>_init_props\<close> of a client that attaches: everything is reset but the checkpoint it is given, a main
  manager is looked up and the client registers there.  Its channels are new, so its inboxes are its own.\<close>

definition reset_client :: "int \<Rightarrow> client \<Rightarrow> client" where
  "reset_client c s = s\<lparr>cl_managers := {}, cl_tag := 0, cl_chkpt := c, cl_chosen := None, cl_batch := False,
     cl_batch_tags := {}, cl_num_puts := [], cl_handles := [], cl_bput_handle := None, cl_num_bputs := 0,
     cl_key_pickler := None, cl_value_pickler := None, cl_has_local := False, cl_local := []\<rparr>"

definition get_main_manager :: "nat cm" where
  "get_main_manager = bnd (gets cl_kv) (\<lambda>r. case r of
     Inr m \<Rightarrow> sq (modify (\<lambda>s. s\<lparr>cl_has_local := True\<rparr>)) (ret m)
   | Inl e \<Rightarrow> if e \<noteq> KeyError then raise e else sq cl_tag_inc (lift_res cl_random_manager))"

definition locals_of :: "nat \<Rightarrow> nat list \<Rightarrow> nat \<Rightarrow> nat list res" where
  "locals_of n nodes h = (if length nodes < n then Inl IndexError else Inr (filter (\<lambda>i. nodes ! i = h) [0..<n]))"

definition register_client_to_main_manager :: "nat \<Rightarrow> unit cm" where
  "register_client_to_main_manager m = bnd cl_tag_inc (\<lambda>t. bnd (send_receive m (DDRegisterClient t) t) (\<lambda>r.
     sq (lift_res (\<lambda>_. raise_on any_error r)) (case r of
       DDRegisterClientResponse t' ref e cid n me \<Rightarrow>
         sq (modify (\<lambda>s. s\<lparr>cl_id := cid, cl_num := n\<rparr>))
           (bnd (lift_res (\<lambda>s. locals_of n (cl_nodes s) (cl_host s))) (\<lambda>ls.
             modify (\<lambda>s. s\<lparr>cl_local := ls, cl_managers := insert me (cl_managers s), cl_main := me\<rparr>)))
     | _ \<Rightarrow> raise AttributeError)))"

definition is_ddict_error :: "exn \<Rightarrow> bool" where
  "is_ddict_error e = (e \<in> {DDictError, DDictKeyError, DDictTimeoutError, DDictFullError, DDictCheckpointSyncError,
     DDictFutureCheckpointError, DDictPersistCheckpointError})"

definition init_props :: "int \<Rightarrow> unit cm" where
  "init_props c = sq (modify (reset_client c))
     (try_except (bnd get_main_manager register_client_to_main_manager)
        (\<lambda>e. if is_ddict_error e then raise e else raise RuntimeError))"

text \<open>\<open>manager\<close> and \<open>pickler\<close>: \<open>copy.copy\<close> goes through \<open>__getstate__\<close> and \<open>__setstate__\<close>, so the copy is a
  client of its own, attached anew, which only keeps the checkpoint.\<close>

definition cl_manager :: "int \<Rightarrow> client \<Rightarrow> client \<Rightarrow> client res" where
  "cl_manager i new s = (if i < 0 \<or> int (cl_num s) \<le> i then Inl DDictError
     else case init_props (cl_chkpt s) new of
       (Inl e, _) \<Rightarrow> Inl e
     | (Inr _, s') \<Rightarrow> Inr (s'\<lparr>cl_chosen := Some (nat i), cl_key_pickler := cl_key_pickler s,
         cl_value_pickler := cl_value_pickler s\<rparr>))"

definition cl_pickler :: "((pyobj \<Rightarrow> bytes) \<times> (bytes \<Rightarrow> pyobj res)) option \<Rightarrow>
    ((pyobj \<Rightarrow> bytes list) \<times> (bytes \<Rightarrow> pyobj res)) option \<Rightarrow> client \<Rightarrow> client \<Rightarrow> client res" where
  "cl_pickler kp vp new s = (case init_props (cl_chkpt s) new of
       (Inl e, _) \<Rightarrow> Inl e
     | (Inr _, s') \<Rightarrow> Inr (s'\<lparr>cl_key_pickler := kp, cl_value_pickler := vp, cl_chosen := cl_chosen s\<rparr>))"

end
