(* ===== verification/Requests.thy ===== *)
theory Requests
  imports Client "HOL-Library.Multiset"
begin

text \<open>
  What the client of a dictionary does with its managers: every key-value pair of a batch goes to the stream of
  its manager, a batch ends well when every manager answers what was sent, and what happens after a failed
  batch and after a get whose answer came too late.
\<close>

section \<open>Connected clients\<close>

definition manager_of :: "pyobj \<Rightarrow> client \<Rightarrow> nat" where
  "manager_of key s = (case cl_chosen s of Some m \<Rightarrow> m | None \<Rightarrow> cl_hash s (hashed_bytes key s) mod cl_num s)"

text \<open>A client that is connected to every manager it may choose, with sends that succeed.\<close>

definition connected :: "client \<Rightarrow> bool" where
  "connected s = (0 < cl_num s \<and> {0..<cl_num s} \<subseteq> cl_managers s \<and>
     (\<forall>m. cl_chosen s = Some m \<longrightarrow> m < cl_num s) \<and> (\<forall>m<cl_num s. cl_send_error s m = None))"

lemma manager_of_bound: "connected s \<Longrightarrow> manager_of key s < cl_num s"
  by (simp add: connected_def manager_of_def split: option.split)

lemma choose_run:
  "connected s \<Longrightarrow> choose_manager_pickle_key key s = Inr (manager_of key s, key_dumps s key)"
  by (simp add: choose_manager_pickle_key_def manager_of_def connected_def split: option.split)

lemma connection_run: "connected s \<Longrightarrow> m < cl_num s \<Longrightarrow> check_manager_connection m s = (Inr (), s)"
  by (auto simp: check_manager_connection_def connected_def bnd_apply)

lemma sendable_run: "connected s \<Longrightarrow> m < cl_num s \<Longrightarrow> sendable m s = (Inr (), s)"
  by (simp add: sendable_def connected_def)

lemma cl_send_run:
  "connected s \<Longrightarrow> m < cl_num s \<Longrightarrow> cl_send m msg ps s = (Inr (), s\<lparr>cl_sent := cl_sent s @ [SentTo m msg ps]\<rparr>)"
  by (simp add: cl_send_def sendable_run sq_Inr)

text \<open>The fields that routing depends on.\<close>

definition same_routing :: "client \<Rightarrow> client \<Rightarrow> bool" where
  "same_routing s t = (cl_num t = cl_num s \<and> cl_managers t = cl_managers s \<and> cl_chosen t = cl_chosen s \<and>
     cl_send_error t = cl_send_error s \<and> cl_hash t = cl_hash s \<and> cl_str t = cl_str s \<and>
     cl_key_pickler t = cl_key_pickler s \<and> cl_cloud_dumps t = cl_cloud_dumps s \<and> cl_cloud_dump t = cl_cloud_dump s \<and>
     cl_id t = cl_id s \<and> cl_chkpt t = cl_chkpt s)"

lemma same_routing_refl [simp]: "same_routing s s"
  by (simp add: same_routing_def)

lemma same_routing_trans: "same_routing s t \<Longrightarrow> same_routing t u \<Longrightarrow> same_routing s u"
  by (simp add: same_routing_def)

lemma same_routingD:
  assumes "same_routing s t"
  shows "connected t = connected s" "manager_of key t = manager_of key s" "key_dumps t = key_dumps s"
    "batch_parts v t = batch_parts v s"
  using assms by (simp_all add: same_routing_def connected_def manager_of_def hashed_bytes_def key_dumps_def
      batch_parts_def split: option.split pyobj.split)

section \<open>Batches\<close>

text \<open>What a batched put does to a connected client.\<close>

definition opened :: "nat \<Rightarrow> bool \<Rightarrow> client \<Rightarrow> client" where
  "opened m p s = (case map_of (cl_handles s) m of Some _ \<Rightarrow> s
     | None \<Rightarrow> s\<lparr>cl_tag := cl_tag s + 1,
         cl_handles := AList.update m (DDBatchPut (cl_id s) (cl_chkpt s) (cl_tag s) p, []) (cl_handles s),
         cl_batch_tags := insert (cl_tag s) (cl_batch_tags s)\<rparr>)"

definition pair_parts :: "client \<Rightarrow> pyobj \<times> pyobj \<Rightarrow> (bytes \<times> hint) list" where
  "pair_parts s kv = (key_dumps s (fst kv), KEY_HINT) # batch_parts (snd kv) s"

definition batched :: "bool \<Rightarrow> pyobj \<times> pyobj \<Rightarrow> client \<Rightarrow> client" where
  "batched p kv s = (let m = manager_of (fst kv) s in count_put m (add_parts m (pair_parts s kv) (opened m p s)))"

lemma opened_fields [simp]:
  "same_routing s (opened m p s)" "cl_batch (opened m p s) = cl_batch s"
  "cl_batch_persist (opened m p s) = cl_batch_persist s" "cl_num_puts (opened m p s) = cl_num_puts s"
  "cl_sent (opened m p s) = cl_sent s" "cl_inbox (opened m p s) = cl_inbox s"
  "cl_bput_handle (opened m p s) = cl_bput_handle s"
  by (simp_all add: opened_def same_routing_def split: option.split)

lemma batched_fields [simp]:
  "same_routing s (batched p kv s)" "cl_batch (batched p kv s) = cl_batch s"
  "cl_batch_persist (batched p kv s) = cl_batch_persist s" "cl_sent (batched p kv s) = cl_sent s"
  "cl_inbox (batched p kv s) = cl_inbox s" "cl_bput_handle (batched p kv s) = cl_bput_handle s"
  using opened_fields(1) [of s "manager_of (fst kv) s" p, unfolded same_routing_def]
  by (simp_all add: batched_def Let_def add_parts_def count_put_def same_routing_def split: option.split prod.split)

lemma cl_batch_put_run:
  assumes "connected s"
  shows "cl_batch_put key v p s = (Inr (), batched p (key, v) s)"
proof -
  let ?m = "manager_of key s"
  have o: "connected (opened ?m p s)" "cl_num (opened ?m p s) = cl_num s" "key_dumps (opened ?m p s) = key_dumps s"
      "batch_parts v (opened ?m p s) = batch_parts v s"
    using same_routingD [OF opened_fields(1) [of s ?m p]] assms opened_fields(1) [of s ?m p]
    by (simp_all add: same_routing_def)
  have h: "open_handle ?m p s = (Inr (), opened ?m p s)"
    using o assms manager_of_bound [OF assms, of key] sendable_run [OF o(1), of ?m]
    by (auto simp: open_handle_def opened_def cl_tag_inc_def bnd_apply sq_apply split: option.splits)
  show ?thesis
    using o manager_of_bound [OF assms, of key]
    by (simp add: cl_batch_put_def choose_run [OF assms] connection_run [OF assms] timed_def h sendable_run
        batched_def pair_parts_def Let_def run_steps)
qed

text \<open>What a batch has done so far: for every manager, one open stream with its pairs in order, a tag of its
  own and a counter.\<close>

definition mine :: "client \<Rightarrow> nat \<Rightarrow> (pyobj \<times> pyobj) list \<Rightarrow> (pyobj \<times> pyobj) list" where
  "mine s m kvs = filter (\<lambda>kv. manager_of (fst kv) s = m) kvs"

fun handle_tag :: "nat \<times> dd_msg \<times> (bytes \<times> hint) list \<Rightarrow> int" where
  "handle_tag (m, DDBatchPut me c t p, ps) = t"
| "handle_tag (m, msg, ps) = -1"

definition manager_stream :: "bool \<Rightarrow> client \<Rightarrow> (pyobj \<times> pyobj) list \<Rightarrow> client \<Rightarrow> nat \<Rightarrow> bool" where
  "manager_stream p s0 kvs s m =
     (if mine s0 m kvs = [] then map_of (cl_handles s) m = None \<and> map_of (cl_num_puts s) m = None
      else map_of (cl_num_puts s) m = Some (int (length (mine s0 m kvs))) \<and>
        (\<exists>t. map_of (cl_handles s) m =
           Some (DDBatchPut (cl_id s0) (cl_chkpt s0) t p, concat (map (pair_parts s0) (mine s0 m kvs)))))"

definition in_batch :: "bool \<Rightarrow> client \<Rightarrow> (pyobj \<times> pyobj) list \<Rightarrow> client \<Rightarrow> bool" where
  "in_batch p s0 kvs s = (same_routing s0 s \<and> (\<forall>m. manager_stream p s0 kvs s m) \<and>
     distinct (map fst (cl_handles s)) \<and> distinct (map fst (cl_num_puts s)) \<and>
     distinct (map handle_tag (cl_handles s)) \<and> cl_batch_tags s = set (map handle_tag (cl_handles s)) \<and>
     (\<forall>t\<in>cl_batch_tags s. t < cl_tag s))"

lemma update_new: "map_of d k = None \<Longrightarrow> AList.update k v d = d @ [(k, v)]"
  by (induction d) auto

lemma map_update_same:
  "map_of d k = Some w \<Longrightarrow> f (k, w) = f (k, v) \<Longrightarrow> map f (AList.update k v d) = map f d"
  by (induction d) auto

lemma distinct_update: "distinct (map fst d) \<Longrightarrow> distinct (map fst (AList.update k v d))"
  by (rule AList.distinct_update)

lemma mine_snoc: "mine s0 m (kvs @ [kv]) = mine s0 m kvs @ (if manager_of (fst kv) s0 = m then [kv] else [])"
  by (simp add: mine_def)

lemma map_of_snoc: "map_of (d @ [(k, v)]) m = (if map_of d m = None then [k \<mapsto> v] m else map_of d m)"
  by (simp add: map_add_def split: option.split)

lemma update_snoc: "map_of d k = None \<Longrightarrow> AList.update k w (d @ [(k, v)]) = d @ [(k, w)]"
  by (induction d) auto

lemma mine_other: "m \<noteq> manager_of (fst kv) s0 \<Longrightarrow> mine s0 m (kvs @ [kv]) = mine s0 m kvs"
  by (simp add: mine_def)

text \<open>The first pair of a manager opens its stream.\<close>

lemma batched_first:
  assumes "map_of (cl_handles s) (manager_of (fst kv) s) = None" "map_of (cl_num_puts s) (manager_of (fst kv) s) = None"
  shows "cl_handles (batched p kv s) = cl_handles s @
      [(manager_of (fst kv) s, DDBatchPut (cl_id s) (cl_chkpt s) (cl_tag s) p, pair_parts s kv)]"
    and "cl_num_puts (batched p kv s) = cl_num_puts s @ [(manager_of (fst kv) s, 1)]"
    and "cl_batch_tags (batched p kv s) = insert (cl_tag s) (cl_batch_tags s)"
    and "cl_tag (batched p kv s) = cl_tag s + 1"
proof -
  let ?m = "manager_of (fst kv) s"
  have "opened ?m p s = s\<lparr>cl_tag := cl_tag s + 1,
      cl_handles := cl_handles s @ [(?m, DDBatchPut (cl_id s) (cl_chkpt s) (cl_tag s) p, [])],
      cl_batch_tags := insert (cl_tag s) (cl_batch_tags s)\<rparr>"
    by (simp add: opened_def assms update_new)
  then have "batched p kv s = s\<lparr>cl_tag := cl_tag s + 1,
      cl_handles := cl_handles s @ [(?m, DDBatchPut (cl_id s) (cl_chkpt s) (cl_tag s) p, pair_parts s kv)],
      cl_batch_tags := insert (cl_tag s) (cl_batch_tags s), cl_num_puts := cl_num_puts s @ [(?m, 1)]\<rparr>"
    by (simp add: batched_def Let_def add_parts_def count_put_def assms update_new update_snoc map_add_def)
  then show "cl_handles (batched p kv s) = cl_handles s @ [(?m, DDBatchPut (cl_id s) (cl_chkpt s) (cl_tag s) p, pair_parts s kv)]"
    and "cl_num_puts (batched p kv s) = cl_num_puts s @ [(?m, 1)]"
    and "cl_batch_tags (batched p kv s) = insert (cl_tag s) (cl_batch_tags s)"
    and "cl_tag (batched p kv s) = cl_tag s + 1" by simp_all
qed

lemma in_batch_first:
  assumes inv: "in_batch p s0 kvs s" and new: "mine s0 (manager_of (fst kv) s0) kvs = []"
  shows "in_batch p s0 (kvs @ [kv]) (batched p kv s)"
proof -
  let ?m = "manager_of (fst kv) s0"
  have r: "same_routing s0 s" using inv by (simp add: in_batch_def)
  have m: "manager_of (fst kv) s = ?m" "pair_parts s kv = pair_parts s0 kv" "cl_id s = cl_id s0" "cl_chkpt s = cl_chkpt s0"
    using same_routingD [OF r] r by (simp_all add: pair_parts_def same_routing_def)
  have "manager_stream p s0 kvs s ?m" using inv by (simp add: in_batch_def)
  then have none: "map_of (cl_handles s) ?m = None" "map_of (cl_num_puts s) ?m = None"
    using new by (simp_all add: manager_stream_def)
  note eq = batched_first [of s kv p, unfolded m, OF none]
  have "manager_stream p s0 (kvs @ [kv]) (batched p kv s) k" for k
  proof (cases "k = ?m")
    case True
    then show ?thesis using new none by (simp add: manager_stream_def eq map_of_snoc mine_snoc del: map_of_append)
  next
    case False
    have "manager_stream p s0 kvs s k" using inv by (simp add: in_batch_def)
    then show ?thesis
      using False by (auto simp: manager_stream_def eq map_of_snoc mine_other simp del: map_of_append split: if_splits)
  qed
  moreover have "?m \<notin> fst ` set (cl_handles s)" "?m \<notin> fst ` set (cl_num_puts s)"
    using none by (simp_all add: map_of_eq_None_iff)
  moreover have "t \<le> cl_tag s" if "t \<in> cl_batch_tags s" for t
    using inv that unfolding in_batch_def by fastforce
  ultimately show ?thesis
    using inv same_routing_trans [OF r batched_fields(1)] by (auto simp: in_batch_def eq)
qed

lemma in_batch_again:
  assumes inv: "in_batch p s0 kvs s" and old: "mine s0 (manager_of (fst kv) s0) kvs \<noteq> []"
  shows "in_batch p s0 (kvs @ [kv]) (batched p kv s)"
proof -
  let ?m = "manager_of (fst kv) s0"
  let ?n = "int (length (mine s0 ?m kvs))"
  let ?q = "concat (map (pair_parts s0) (mine s0 ?m kvs))"
  have r: "same_routing s0 s" using inv by (simp add: in_batch_def)
  have m: "manager_of (fst kv) s = ?m" "pair_parts s kv = pair_parts s0 kv" "cl_id s = cl_id s0" "cl_chkpt s = cl_chkpt s0"
    using same_routingD [OF r] r by (simp_all add: pair_parts_def same_routing_def)
  have "manager_stream p s0 kvs s ?m" using inv by (simp add: in_batch_def)
  then obtain t where t: "map_of (cl_handles s) ?m = Some (DDBatchPut (cl_id s0) (cl_chkpt s0) t p, ?q)"
      "map_of (cl_num_puts s) ?m = Some ?n"
    using old by (auto simp: manager_stream_def)
  let ?h = "(DDBatchPut (cl_id s0) (cl_chkpt s0) t p, ?q @ pair_parts s0 kv)"
  have eq: "cl_handles (batched p kv s) = AList.update ?m ?h (cl_handles s)"
      "cl_num_puts (batched p kv s) = AList.update ?m (?n + 1) (cl_num_puts s)"
      "cl_batch_tags (batched p kv s) = cl_batch_tags s" "cl_tag (batched p kv s) = cl_tag s"
    by (simp_all add: batched_def opened_def add_parts_def count_put_def Let_def t m)
  have tags: "map handle_tag (AList.update ?m ?h (cl_handles s)) = map handle_tag (cl_handles s)"
    by (rule map_update_same [OF t(1)]) simp
  have "manager_stream p s0 (kvs @ [kv]) (batched p kv s) k" for k
  proof (cases "k = ?m")
    case True
    then show ?thesis using old by (simp add: manager_stream_def eq mine_snoc)
  next
    case False
    have "manager_stream p s0 kvs s k" using inv by (simp add: in_batch_def)
    then show ?thesis using False by (simp add: manager_stream_def eq mine_other split: if_splits)
  qed
  then show ?thesis
    using inv same_routing_trans [OF r batched_fields(1)] tags
    by (simp add: in_batch_def eq distinct_update flip: set_map)
qed

lemma in_batch_step: "in_batch p s0 kvs s \<Longrightarrow> in_batch p s0 (kvs @ [kv]) (batched p kv s)"
  using in_batch_first in_batch_again by blast

text \<open>What a state needs for a batch to start, and what a manager answers that stored everything.\<close>

definition no_batch :: "client \<Rightarrow> bool" where
  "no_batch s = (cl_handles s = [] \<and> cl_num_puts s = [] \<and> cl_batch_tags s = {} \<and> cl_bput_handle s = None)"

definition batch_answer :: "client \<Rightarrow> nat \<times> dd_msg \<times> (bytes \<times> hint) list \<Rightarrow> dmsg" where
  "batch_answer s h = DDBatchPutResponse 0 (handle_tag h) SUCCESS (the (map_of (cl_num_puts s) (fst h))) (fst h)"

lemma puts_run:
  "connected s0 \<Longrightarrow> in_batch False s0 kvs0 s \<Longrightarrow> cl_batch s \<Longrightarrow> \<not> cl_batch_persist s \<Longrightarrow>
    \<exists>s1. for_each kvs (\<lambda>kv. setitem (fst kv) (snd kv)) s = (Inr (), s1) \<and> in_batch False s0 (kvs0 @ kvs) s1 \<and>
      cl_batch s1 \<and> cl_sent s1 = cl_sent s \<and> cl_bput_handle s1 = cl_bput_handle s"
proof (induction kvs arbitrary: kvs0 s)
  case (Cons kv kvs)
  have "connected s" using Cons.prems(1,2) same_routingD(1) by (auto simp: in_batch_def)
  then have "setitem (fst kv) (snd kv) s = (Inr (), batched False kv s)"
    using Cons.prems(3,4) by (simp add: setitem_def bnd_apply cl_batch_put_run)
  then show ?case
    using Cons.IH [OF Cons.prems(1) in_batch_step [OF Cons.prems(2)], of kv] Cons.prems(3,4) by (simp add: sq_Inr)
qed simp

lemma recv_batch_all:
  "set (map msg_ref (cl_inbox s)) = cl_batch_tags s \<Longrightarrow> distinct (map msg_ref (cl_inbox s)) \<Longrightarrow>
    \<exists>s'. recv_batch num (length (cl_inbox s)) s = (Inr (cl_inbox s), s') \<and>
      s'\<lparr>cl_batch_tags := {}\<rparr> = s\<lparr>cl_inbox := [], cl_batch_tags := {}\<rparr>"
proof (induction "cl_inbox s" arbitrary: s)
  case Nil
  have "s = s\<lparr>cl_inbox := []\<rparr>" using Nil(1) by simp
  then show ?case by (simp flip: Nil(1))
next
  case (Cons x xs)
  note x = Cons.hyps(2) [symmetric]
  have refs: "cl_batch_tags s = insert (msg_ref x) (set (map msg_ref xs))" "msg_ref x \<notin> set (map msg_ref xs)"
      "distinct (map msg_ref xs)"
    using Cons.prems x by auto
  let ?T = "if card (cl_batch_tags s) = 1 \<and> 1 < num then cl_batch_tags s else cl_batch_tags s - {msg_ref x}"
  let ?s = "s\<lparr>cl_inbox := xs, cl_batch_tags := ?T\<rparr>"
  have r: "recv_resp ReturnConn (cl_batch_tags s) s = (Inr x, s\<lparr>cl_inbox := xs\<rparr>)"
    using refs x by (simp add: recv_resp_def)
  show ?case
  proof (cases "xs = []")
    case True
    then show ?thesis using x r by (simp add: bnd_apply sq_apply)
  next
    case False
    have "card (cl_batch_tags s) \<noteq> 1" using refs False by (simp add: card_insert_if card_eq_0_iff)
    then have "?T = set (map msg_ref xs)" using refs by auto
    then obtain s' where "recv_batch num (length xs) ?s = (Inr xs, s')"
        "s'\<lparr>cl_batch_tags := {}\<rparr> = ?s\<lparr>cl_inbox := [], cl_batch_tags := {}\<rparr>"
      using Cons.hyps(1) [of ?s] refs(3) by auto
    then show ?thesis using x r by (simp add: bnd_apply sq_apply)
  qed
qed

lemma check_all_ok: "(\<And>m. m \<in> set ms \<Longrightarrow> f m = Inr ()) \<Longrightarrow> check_all f ms = Inr ()"
  by (induction ms) auto

lemma same_dom_length:
  "distinct (map fst d) \<Longrightarrow> distinct (map fst e) \<Longrightarrow> (\<And>k. map_of d k = None \<longleftrightarrow> map_of e k = None) \<Longrightarrow> length d = length e"
proof -
  assume d: "distinct (map fst d)" "distinct (map fst e)" "\<And>k. map_of d k = None \<longleftrightarrow> map_of e k = None"
  then have "set (map fst d) = set (map fst e)" by (auto simp: map_of_eq_None_iff)
  then show "length d = length e" using d(1,2) by (metis distinct_card length_map)
qed

text \<open>A batch ends well when every manager answers that it stored what was sent, in whatever order.\<close>

lemma end_batch_run:
  assumes inv: "in_batch p s0 kvs s" and batch: "cl_batch s" and no_bput: "cl_bput_handle s = None"
    and ans: "mset xs = mset (map (batch_answer s) (cl_handles s))"
  shows "\<exists>s2. end_batch_put (s\<lparr>cl_inbox := xs\<rparr>) = (Inr (), s2) \<and> no_batch s2 \<and> \<not> cl_batch s2 \<and>
    cl_sent s2 = cl_sent s @ map (\<lambda>(m, msg, ps). SentTo m msg ps) (cl_handles s)"
proof -
  let ?s = "close_handles (s\<lparr>cl_inbox := xs, cl_batch := False\<rparr>)"
  have ref: "msg_ref (batch_answer s h) = handle_tag h" for h by (simp add: batch_answer_def)
  have refs: "mset (map msg_ref xs) = mset (map handle_tag (cl_handles s))"
    using arg_cong [OF ans, of "image_mset msg_ref"] ref by (simp add: image_mset.compositionality comp_def)
  have tags: "set (map msg_ref (cl_inbox ?s)) = cl_batch_tags ?s" "distinct (map msg_ref (cl_inbox ?s))"
    using inv mset_eq_setD [OF refs] mset_eq_imp_distinct_iff [OF refs] by (simp_all add: close_handles_def in_batch_def)
  obtain s' where r: "recv_batch (length (cl_num_puts s)) (length xs) ?s = (Inr xs, s')"
      "s'\<lparr>cl_batch_tags := {}\<rparr> = ?s\<lparr>cl_inbox := [], cl_batch_tags := {}\<rparr>"
    using recv_batch_all [OF tags, of "length (cl_num_puts s)"] by (auto simp: close_handles_def)
  have dom: "map_of (cl_handles s) k = None \<longleftrightarrow> map_of (cl_num_puts s) k = None" for k
  proof -
    have "manager_stream p s0 kvs s k" using inv by (simp add: in_batch_def)
    then show ?thesis by (auto simp: manager_stream_def split: if_splits)
  qed
  then have len: "length xs = length (cl_num_puts s)"
    using inv same_dom_length [of "cl_handles s" "cl_num_puts s"] arg_cong [OF ans, of size] by (simp add: in_batch_def)
  have "check_batch (cl_num_puts s) x = Inr ()" if "x \<in> set xs" for x
  proof -
    have "x \<in> batch_answer s ` set (cl_handles s)" using that mset_eq_setD [OF ans] by simp
    then obtain h where h: "h \<in> set (cl_handles s)" "x = batch_answer s h" by blast
    then have "map_of (cl_handles s) (fst h) \<noteq> None" by (simp add: map_of_eq_None_iff)
    then show ?thesis using dom [of "fst h"] h(2)
      by (auto simp: check_batch_def batch_answer_def batch_error_def put_error_def)
  qed
  then have chk: "check_all (check_batch (cl_num_puts s)) xs = Inr ()" by (rule check_all_ok)
  let ?t = "?s\<lparr>cl_inbox := [], cl_batch_tags := {}, cl_num_puts := []\<rparr>"
  have "end_batch_put (s\<lparr>cl_inbox := xs\<rparr>) = (Inr (), s'\<lparr>cl_batch_tags := {}\<rparr>\<lparr>cl_num_puts := []\<rparr>)"
    using r(1) batch no_bput len chk by (simp add: end_batch_put_def bnd_apply sq_apply check_resps_def close_handles_def)
  then have "end_batch_put (s\<lparr>cl_inbox := xs\<rparr>) = (Inr (), ?t)" using r(2) by simp
  then show ?thesis using no_bput by (simp add: no_batch_def close_handles_def)
qed

text \<open>C34: in a batch, every manager gets one stream with exactly the pairs whose keys hash to it, in the order
  they were put, and its counter is their number; when each manager answers that it stored that many, in
  whatever order the answers arrive, the batch ends without an error, the streams are sent and the client is
  ready for the next batch.\<close>

theorem batch_delivers:
  assumes "connected s" "no_batch s"
  shows "\<exists>s1. sq (start_batch_put False) (for_each kvs (\<lambda>kv. setitem (fst kv) (snd kv))) s = (Inr (), s1) \<and>
    (\<forall>m. manager_stream False s kvs s1 m) \<and>
    (\<forall>xs. mset xs = mset (map (batch_answer s1) (cl_handles s1)) \<longrightarrow>
      (\<exists>s2. end_batch_put (s1\<lparr>cl_inbox := xs\<rparr>) = (Inr (), s2) \<and> no_batch s2 \<and> \<not> cl_batch s2 \<and>
        cl_sent s2 = cl_sent s @ map (\<lambda>(m, msg, ps). SentTo m msg ps) (cl_handles s1)))"
proof -
  let ?s = "s\<lparr>cl_batch := True, cl_batch_persist := False\<rparr>"
  have start: "in_batch False s [] ?s"
    using assms(2) by (simp add: in_batch_def no_batch_def same_routing_def manager_stream_def mine_def)
  obtain s1 where s1: "for_each kvs (\<lambda>kv. setitem (fst kv) (snd kv)) ?s = (Inr (), s1)" "in_batch False s kvs s1"
      "cl_batch s1" "cl_sent s1 = cl_sent s" "cl_bput_handle s1 = None"
    using puts_run [OF assms(1) start, of kvs] assms(2) by (auto simp: no_batch_def)
  then show ?thesis
    using end_batch_run [OF s1(2,3,5)] by (intro exI [of _ s1]) (auto simp: start_batch_put_def sq_apply in_batch_def)
qed

definition demo_client :: client where
  "demo_client = \<lparr>cl_id = 7, cl_tag = 3, cl_chkpt = 0, cl_num = 2, cl_chosen = None, cl_managers = {0, 1}, cl_main = 0,
     cl_local = [0], cl_has_local = True, cl_batch = False, cl_batch_persist = False, cl_handles = [], cl_num_puts = [],
     cl_batch_tags = {}, cl_bput_handle = None, cl_bput_tag = 0, cl_num_bputs = 0, cl_fli = ''r'', cl_bput_fli = ''b'',
     cl_key_pickler = None, cl_value_pickler = None, cl_sent = [],
     cl_inbox = [DDLengthResponse 0 2 SUCCESS 9, DDLengthResponse 0 3 SUCCESS 4, DDLengthResponse 0 3 SUCCESS 5],
     cl_bput_inbox = [], cl_streams = [[PartMsg (DDGetResponse 0 2 SUCCESS False), PartBytes ''x''],
       [PartMsg (DDGetResponse 0 3 SUCCESS False), PartBytes ''y'']], cl_iter_streams = [],
     cl_cloud_dumps = (\<lambda>k. case k of PyInt i \<Rightarrow> ''i'' | PyStr t \<Rightarrow> t | PyOther n \<Rightarrow> ''o''),
     cl_cloud_dump = (\<lambda>v. [case v of PyInt i \<Rightarrow> ''i'' | PyStr t \<Rightarrow> t | PyOther n \<Rightarrow> ''o'']),
     cl_cloud_loads = (\<lambda>b. Inr (PyStr b)), cl_int_loads = (\<lambda>b. Inr (PyInt 0)), cl_hash = length, cl_str = (\<lambda>i. ''1''),
     cl_shuffle = id, cl_set_order = id, cl_send_error = (\<lambda>m. None), cl_kv = Inr 0, cl_random_manager = Inr 0,
     cl_nodes = [0, 1], cl_host = 0\<rparr>"

lemma demo_client_ok: "connected demo_client" "no_batch demo_client"
  by (auto simp: demo_client_def connected_def no_batch_def)

lemma batch_delivers_witness:
  "\<exists>s1. sq (start_batch_put False) (for_each [(PyStr ''a'', PyStr ''v''), (PyStr ''bb'', PyStr ''w'')]
      (\<lambda>kv. setitem (fst kv) (snd kv))) demo_client = (Inr (), s1) \<and>
    manager_stream False demo_client [(PyStr ''a'', PyStr ''v''), (PyStr ''bb'', PyStr ''w'')] s1 1"
  using batch_delivers [OF demo_client_ok, of "[(PyStr ''a'', PyStr ''v''), (PyStr ''bb'', PyStr ''w'')]"] by blast

section \<open>After a failed batch\<close>

lemma recv_batch_one:
  "cl_inbox s = [x] \<Longrightarrow> cl_batch_tags s = {msg_ref x} \<Longrightarrow>
    \<exists>s'. recv_batch 1 1 s = (Inr [x], s') \<and> s'\<lparr>cl_batch_tags := {}\<rparr> = s\<lparr>cl_inbox := [], cl_batch_tags := {}\<rparr>"
  using recv_batch_all [of s 1] by simp

text \<open>One pair is put and the manager answers it; \<open>k\<close> is what the counter holds from before.\<close>

lemma one_put_batch:
  assumes "connected s" "cl_handles s = []" "cl_batch_tags s = {}" "cl_bput_handle s = None"
    and "cl_num_puts s = [] \<and> k = 0 \<or> cl_num_puts s = [(manager_of key s, k)]"
  shows "\<exists>s1. sq (start_batch_put False) (setitem key v) s = (Inr (), s1) \<and>
    (\<forall>u e n. \<exists>s2. end_batch_put (s1\<lparr>cl_inbox := [DDBatchPutResponse u (cl_tag s) e n (manager_of key s)]\<rparr>) =
        (case batch_error e of Some x \<Rightarrow> Inl x | None \<Rightarrow> if n \<noteq> k + 1 then Inl DDictError else Inr (), s2) \<and>
      (batch_error e \<noteq> None \<longrightarrow> same_routing s s2 \<and> cl_handles s2 = [] \<and> cl_batch_tags s2 = {} \<and>
        cl_bput_handle s2 = None \<and> cl_num_puts s2 = [(manager_of key s, k + 1)]))"
proof -
  let ?m = "manager_of key s"
  let ?s = "s\<lparr>cl_batch := True, cl_batch_persist := False\<rparr>"
  let ?s1 = "batched False (key, v) ?s"
  have r: "same_routing s ?s" by (simp add: same_routing_def)
  have m: "manager_of key ?s = ?m" using same_routingD(2) [OF r] .
  have run: "sq (start_batch_put False) (setitem key v) s = (Inr (), ?s1)"
    using same_routingD(1) [OF r] assms(1)
    by (simp add: start_batch_put_def sq_apply setitem_def bnd_apply cl_batch_put_run)
  have one: "cl_handles ?s1 = [(?m, DDBatchPut (cl_id s) (cl_chkpt s) (cl_tag s) False, pair_parts ?s (key, v))]"
      "cl_num_puts ?s1 = [(?m, k + 1)]" "cl_batch_tags ?s1 = {cl_tag s}" "cl_batch ?s1" "cl_bput_handle ?s1 = None"
    using assms m by (auto simp: batched_def opened_def add_parts_def count_put_def Let_def)
  have routing: "same_routing s ?s1" using same_routing_trans [OF r batched_fields(1)] .
  have "\<exists>s2. end_batch_put (?s1\<lparr>cl_inbox := [DDBatchPutResponse u (cl_tag s) e n ?m]\<rparr>) =
        (case batch_error e of Some x \<Rightarrow> Inl x | None \<Rightarrow> if n \<noteq> k + 1 then Inl DDictError else Inr (), s2) \<and>
      (batch_error e \<noteq> None \<longrightarrow> same_routing s s2 \<and> cl_handles s2 = [] \<and> cl_batch_tags s2 = {} \<and>
        cl_bput_handle s2 = None \<and> cl_num_puts s2 = [(?m, k + 1)])" for u e n
  proof -
    let ?x = "DDBatchPutResponse u (cl_tag s) e n ?m"
    let ?t = "close_handles (?s1\<lparr>cl_inbox := [?x], cl_batch := False\<rparr>)"
    obtain s' where s': "recv_batch 1 1 ?t = (Inr [?x], s')"
        "s'\<lparr>cl_batch_tags := {}\<rparr> = ?t\<lparr>cl_inbox := [], cl_batch_tags := {}\<rparr>"
      using recv_batch_one [of ?t ?x] one by (auto simp: close_handles_def)
    have "same_routing s (s'\<lparr>cl_batch_tags := {}\<rparr>)" unfolding s'(2)
      using routing by (simp add: same_routing_def close_handles_def)
    then show ?thesis
      using s' one
      by (cases "batch_error e") (simp_all add: end_batch_put_def bnd_apply sq_apply check_resps_def check_batch_def close_handles_def)
  qed
  then show ?thesis using run by blast
qed

text \<open>After a batch that a full manager refused, the counters of that batch are left behind: the next batch
  raises a \<open>DDictError\<close> although its manager stored everything it was sent.\<close>

lemma failed_batch_spoils_next:
  assumes "connected s" "no_batch s" "manager_of key2 s = manager_of key1 s"
  shows "\<exists>s1 s2 s3 s4.
    sq (start_batch_put False) (setitem key1 v1) s = (Inr (), s1) \<and>
    end_batch_put (s1\<lparr>cl_inbox := [DDBatchPutResponse u1 (cl_tag s) MEMORY_POOL_FULL n (manager_of key1 s)]\<rparr>) =
      (Inl DDictFullError, s2) \<and>
    sq (start_batch_put False) (setitem key2 v2) s2 = (Inr (), s3) \<and>
    end_batch_put (s3\<lparr>cl_inbox := [DDBatchPutResponse u2 (cl_tag s2) SUCCESS 1 (manager_of key2 s)]\<rparr>) =
      (Inl DDictError, s4)"
proof -
  have full: "batch_error MEMORY_POOL_FULL = Some DDictFullError" "batch_error SUCCESS = None"
    by (simp_all add: batch_error_def put_error_def)
  obtain s1 where s1: "sq (start_batch_put False) (setitem key1 v1) s = (Inr (), s1)"
      and end1: "\<forall>u e n. \<exists>s2. end_batch_put (s1\<lparr>cl_inbox := [DDBatchPutResponse u (cl_tag s) e n (manager_of key1 s)]\<rparr>) =
        (case batch_error e of Some x \<Rightarrow> Inl x | None \<Rightarrow> if n \<noteq> 0 + 1 then Inl DDictError else Inr (), s2) \<and>
        (batch_error e \<noteq> None \<longrightarrow> same_routing s s2 \<and> cl_handles s2 = [] \<and> cl_batch_tags s2 = {} \<and>
          cl_bput_handle s2 = None \<and> cl_num_puts s2 = [(manager_of key1 s, 0 + 1)])"
    using one_put_batch [of s 0 key1 v1] assms by (auto simp: no_batch_def)
  obtain s2 where s2: "end_batch_put (s1\<lparr>cl_inbox := [DDBatchPutResponse u1 (cl_tag s) MEMORY_POOL_FULL n (manager_of key1 s)]\<rparr>) =
      (Inl DDictFullError, s2)" "same_routing s s2" "cl_handles s2 = []" "cl_batch_tags s2 = {}" "cl_bput_handle s2 = None"
      "cl_num_puts s2 = [(manager_of key1 s, 1)]"
    using end1 [rule_format, of u1 MEMORY_POOL_FULL n] full by auto
  have m: "manager_of key2 s2 = manager_of key2 s" "connected s2"
    using same_routingD(1,2) [OF s2(2)] assms(1) by auto
  have "cl_num_puts s2 = [] \<and> 1 = (0::int) \<or> cl_num_puts s2 = [(manager_of key2 s2, 1)]"
    using s2(6) m(1) assms(3) by simp
  from one_put_batch [OF m(2) s2(3,4,5) this, of v2]
  obtain s3 where s3: "sq (start_batch_put False) (setitem key2 v2) s2 = (Inr (), s3)"
      and end2: "\<forall>u e n. \<exists>s4. end_batch_put (s3\<lparr>cl_inbox := [DDBatchPutResponse u (cl_tag s2) e n (manager_of key2 s2)]\<rparr>) =
        (case batch_error e of Some x \<Rightarrow> Inl x | None \<Rightarrow> if n \<noteq> 1 + 1 then Inl DDictError else Inr (), s4)"
    by blast
  show ?thesis using s1 s2(1) s3 end2 [rule_format, of u2 SUCCESS 1] full m(1) by auto
qed

section \<open>Gets that are out of step\<close>

text \<open>The stream that answers a get: a message that names the request, then the pieces of the value.\<close>

definition answer_stream :: "int \<Rightarrow> stream_part list \<Rightarrow> bool" where
  "answer_stream tag parts = (\<exists>m bs. parts = PartMsg m # map PartBytes bs \<and> msg_ref m = tag)"

fun gets_in_turn :: "pyobj list \<Rightarrow> client \<Rightarrow> pyobj res list \<times> client" where
  "gets_in_turn [] s = ([], s)"
| "gets_in_turn (k # ks) s = (case getitem k s of (r, s1) \<Rightarrow> case gets_in_turn ks s1 of (rs, s2) \<Rightarrow> (r # rs, s2))"

text \<open>A get on a connected client, by what its next stream is.\<close>

lemma getitem_run:
  assumes "connected s" "cl_streams s = parts # ps"
  shows "getitem key s =
    ((case find_answer (cl_tag s) parts of Inl e \<Rightarrow> Inl e
      | Inr (m, rest) \<Rightarrow> if msg_err m = KEY_NOT_FOUND then Inl DDictKeyError
          else if msg_err m \<noteq> SUCCESS then Inl DDictError
          else case value_loads s (concat (map part_bytes rest)) of Inl e \<Rightarrow> Inl RuntimeError | Inr v \<Rightarrow> Inr v),
     s\<lparr>cl_tag := cl_tag s + 1, cl_streams := ps,
       cl_sent := cl_sent s @ [SentTo (manager_of key s)
         (DDGet (cl_id s) (cl_chkpt s) (cl_tag s) (key_dumps s key) False 0) []]\<rparr>)"
proof -
  let ?s = "s\<lparr>cl_tag := cl_tag s + 1\<rparr>"
  have "connected ?s" "cl_num ?s = cl_num s" using assms(1) by (simp_all add: connected_def)
  moreover have "value_loads (s\<lparr>cl_tag := t, cl_sent := x\<rparr>) = value_loads s" for t x
    by (simp add: value_loads_def split: option.split)
  ultimately show ?thesis
    using manager_of_bound [OF assms(1), of key] assms(2)
    by (simp add: getitem_def read_key_def choose_run [OF assms(1)] cl_tag_inc_def bnd_apply sq_apply
        connection_run cl_send_run recv_dmsg_and_val_def open_stream_def split: sum.split prod.split)
qed

lemma late_stream: "answer_stream u parts \<Longrightarrow> u \<noteq> tag \<Longrightarrow> find_answer tag parts \<in> {Inl EOFError, Inl GenericException}"
  by (auto simp: answer_stream_def split: list.split) (metis find_answer.simps(1,2) list.map(1,2) neq_Nil_conv)

text \<open>C35: when the answer to an earlier get, one that had timed out, is still to be read, every later get reads
  the stream of the one before it and raises, although each of them is answered: the client never catches up.\<close>

theorem gets_stay_out_of_step:
  assumes "connected s" "length (cl_streams s) = length keys"
    and "\<forall>i<length keys. answer_stream (cl_tag s - 1 + int i) (cl_streams s ! i)"
  shows "set (fst (gets_in_turn keys s)) \<subseteq> {Inl EOFError, Inl GenericException}"
  using assms
proof (induction keys arbitrary: s)
  case (Cons k ks)
  obtain p ps where p: "cl_streams s = p # ps" using Cons.prems(2) by (cases "cl_streams s") auto
  have late: "find_answer (cl_tag s) p \<in> {Inl EOFError, Inl GenericException}"
    using Cons.prems(3) [rule_format, of 0] p by (intro late_stream [of "cl_tag s - 1"]) auto
  obtain r s' where r: "getitem k s = (r, s')" by fastforce
  have s': "connected s'" "cl_streams s' = ps" "cl_tag s' = cl_tag s + 1" "r \<in> {Inl EOFError, Inl GenericException}"
    using r late Cons.prems(1) unfolding getitem_run [OF Cons.prems(1) p] by (auto simp: connected_def)
  have "answer_stream (cl_tag s' - 1 + int i) (cl_streams s' ! i)" if "i < length ks" for i
    using Cons.prems(3) [rule_format, of "Suc i"] that p s' by (simp add: algebra_simps)
  then have "set (fst (gets_in_turn ks s')) \<subseteq> {Inl EOFError, Inl GenericException}"
    using Cons.IH [OF s'(1)] Cons.prems(2) p s'(2) by simp
  then show ?case using r s'(4) by (cases "gets_in_turn ks s'") simp
qed simp

lemma gets_stay_out_of_step_witness:
  "set (fst (gets_in_turn [PyStr ''a'', PyStr ''b''] demo_client)) \<subseteq> {Inl EOFError, Inl GenericException}"
proof -
  have "answer_stream 2 [PartMsg (DDGetResponse 0 2 SUCCESS False), PartBytes ''x'']"
      "answer_stream 3 [PartMsg (DDGetResponse 0 3 SUCCESS False), PartBytes ''y'']"
    by (auto simp: answer_stream_def intro: exI [of _ "[''x'']"] exI [of _ "[''y'']"])
  then show ?thesis
    by (intro gets_stay_out_of_step demo_client_ok(1)) (auto simp: demo_client_def less_Suc_eq)
qed

section \<open>Answers of all managers\<close>

text \<open>On the buffered connector, answers to other requests are tossed.\<close>

lemma recv_loop_answers:
  "n \<le> length (filter (\<lambda>m. msg_ref m = t) (inbox_of cn s)) \<Longrightarrow> 1 < num \<or> n \<le> 1 \<Longrightarrow>
    (\<forall>m\<in>set (take n (filter (\<lambda>m. msg_ref m = t) (inbox_of cn s))). chk m = Inr ()) \<Longrightarrow>
    \<exists>ms. recv_loop cn num {t} n chk s = (Inr (take n (filter (\<lambda>m. msg_ref m = t) (inbox_of cn s))), set_inbox cn ms s)"
proof (induction n arbitrary: s)
  case 0
  then show ?case by (intro exI [of _ "inbox_of cn s"]) (cases cn, simp_all)
next
  case (Suc n)
  obtain m ms where d: "dropWhile (\<lambda>m. msg_ref m \<notin> {t}) (inbox_of cn s) = m # ms"
    using Suc.prems(1) by (cases "dropWhile (\<lambda>m. msg_ref m \<notin> {t}) (inbox_of cn s)") (auto simp: dropWhile_eq_Nil_conv filter_empty_conv)
  have split: "inbox_of cn s = takeWhile (\<lambda>m. msg_ref m \<notin> {t}) (inbox_of cn s) @ m # ms"
    using takeWhile_dropWhile_id [of "\<lambda>m. msg_ref m \<notin> {t}" "inbox_of cn s"] d by metis
  have m: "msg_ref m = t" using d by (auto simp: dropWhile_eq_Cons_conv)
  have "filter (\<lambda>m. msg_ref m = t) (takeWhile (\<lambda>m. msg_ref m \<notin> {t}) (inbox_of cn s)) = []"
    by (auto simp: filter_empty_conv dest: set_takeWhileD)
  then have f: "filter (\<lambda>m. msg_ref m = t) (inbox_of cn s) = m # filter (\<lambda>m. msg_ref m = t) ms"
    using m by (subst split) (simp del: singleton_iff)
  have ib: "inbox_of cn (set_inbox cn ms s) = ms" "set_inbox cn xs (set_inbox cn ms s) = set_inbox cn xs s" for xs
    by (cases cn, simp_all)+
  have r: "recv_resp cn {t} s = (Inr m, set_inbox cn ms s)" using d by (simp add: recv_resp_def)
  show ?case
  proof (cases "n = 0")
    case True
    then show ?thesis using r f Suc.prems(3) by (auto simp: bnd_apply)
  next
    case False
    then have num: "1 < num" using Suc.prems(2) by simp
    then obtain us where "recv_loop cn num {t} n chk (set_inbox cn ms s) =
        (Inr (take n (filter (\<lambda>m. msg_ref m = t) ms)), set_inbox cn us s)"
      using Suc.IH [of "set_inbox cn ms s"] Suc.prems f ib by auto
    then show ?thesis using r f num Suc.prems(3) by (auto simp: bnd_apply)
  qed
qed

text \<open>C36: the length of a dictionary is the sum of what its managers answer to this request; answers to earlier
  requests that came late are passed over.  An answer without a length raises.\<close>

theorem len_sums_answers:
  assumes "connected s" "cl_chosen s = None" "0 \<in> cl_managers s"
    and "filter (\<lambda>m. msg_ref m = cl_tag s) (cl_inbox s) = rs" "length rs = cl_num s"
    and "\<forall>r\<in>set rs. msg_err r = SUCCESS"
  shows "fst (cl_len s) = (if list_all has_length rs then Inr (sum_list (map length_of rs)) else Inl AttributeError)"
proof -
  let ?s = "s\<lparr>cl_tag := cl_tag s + 1\<rparr>"
  let ?q = "Tree (DDLength (cl_id s) (cl_chkpt s) (cl_tag s) (cl_fli s) True)"
  let ?t = "?s\<lparr>cl_sent := cl_sent s @ [SentTo 0 ?q []]\<rparr>"
  have c: "connected ?s" "0 < cl_num s" using assms(1) by (simp_all add: connected_def)
  have send: "cl_send 0 ?q [] ?s = (Inr (), ?t)" using cl_send_run [OF c(1), of 0] c(2) by simp
  have "1 < cl_num s \<or> cl_num s \<le> 1" by linarith
  then obtain ms where r: "recv_responses {cl_tag s} (cl_num s) ?t = (Inr rs, set_inbox ReturnConn ms ?t)"
    using recv_loop_answers [of "cl_num s" "cl_tag s" ReturnConn ?t "cl_num s" "\<lambda>_. Inr ()"] assms(4,5) c(2)
    by (auto simp: recv_responses_def)
  have "check_all (check_length (raise_on read_error)) rs = (if list_all has_length rs then Inr () else Inl AttributeError)"
    using assms(6) by (induction rs) (auto simp: raise_on_def read_error_def check_length_def)
  then show ?thesis
    using connection_run [OF c(1), of 0] c(2) send r assms(2)
    by (simp add: cl_len_def to_selected_def cl_tag_inc_def bnd_apply sq_apply check_resps_def Let_def)
qed

lemma len_sums_answers_witness: "fst (cl_len demo_client) = Inr 9"
  using len_sums_answers [OF demo_client_ok(1), of "[DDLengthResponse 0 3 SUCCESS 4, DDLengthResponse 0 3 SUCCESS 5]"]
  by (simp add: demo_client_def length_of_def has_length_def)

end
