(* ===== verification/Heapq.thy ===== *)
theory Heapq
  imports Main "HOL-Library.Multiset"
begin

text \<open>
  The standard library's \<open>heapq\<close> as the merging of filtered values uses it: \<open>heappush\<close> and \<open>heappop\<close> on a
  list, with the order given by the comparator of the entries.  The locale \<open>priority_queue\<close> states what the
  merging relies on; it is interpreted on the list operations at the end.
\<close>

section \<open>Weak orders\<close>

text \<open>What a comparator has to satisfy for an order to make sense: asymmetry, and that two incomparable
  values compare alike with every third one.\<close>

definition weak_order :: "('a \<Rightarrow> 'a \<Rightarrow> bool) \<Rightarrow> bool" where
  "weak_order lt = ((\<forall>x y. lt x y \<longrightarrow> \<not> lt y x) \<and> (\<forall>x y z. lt x z \<longrightarrow> lt x y \<or> lt y z))"

text \<open>\<open>y\<close> is not better than \<open>x\<close>.\<close>

abbreviation (input) not_worse :: "('a \<Rightarrow> 'a \<Rightarrow> bool) \<Rightarrow> 'a \<Rightarrow> 'a \<Rightarrow> bool" where
  "not_worse lt x y \<equiv> \<not> lt y x"

lemma weak_orderD:
  assumes "weak_order lt"
  shows "lt x y \<Longrightarrow> \<not> lt y x" and "not_worse lt x y \<Longrightarrow> not_worse lt y z \<Longrightarrow> not_worse lt x z" and "\<not> lt x x"
  using assms unfolding weak_order_def by blast+

section \<open>Operations\<close>

text \<open>\<open>_siftdown\<close>: the new item moves towards the root while it is smaller than its parent.\<close>

function siftdown :: "('a \<Rightarrow> 'a \<Rightarrow> bool) \<Rightarrow> nat \<Rightarrow> 'a list \<Rightarrow> nat \<Rightarrow> 'a \<Rightarrow> 'a list" where
  "siftdown lt start h pos x =
     (if start < pos \<and> lt x (h ! ((pos - 1) div 2))
      then siftdown lt start (h[pos := h ! ((pos - 1) div 2)]) ((pos - 1) div 2) x
      else h[pos := x])"
  by pat_completeness auto
termination by (relation "measure (\<lambda>(lt, start, h, pos, x). pos)") auto

declare siftdown.simps [simp del]

definition heappush :: "('a \<Rightarrow> 'a \<Rightarrow> bool) \<Rightarrow> 'a list \<Rightarrow> 'a \<Rightarrow> 'a list" where
  "heappush lt h x = siftdown lt 0 (h @ [x]) (length h) x"

text \<open>The child that \<open>_siftup\<close> moves up: the smaller of two, the right one when they do not differ.\<close>

definition smaller_child :: "('a \<Rightarrow> 'a \<Rightarrow> bool) \<Rightarrow> 'a list \<Rightarrow> nat \<Rightarrow> nat" where
  "smaller_child lt h pos = (let l = 2 * pos + 1; r = l + 1 in
     if r < length h \<and> \<not> lt (h ! l) (h ! r) then r else l)"

text \<open>\<open>_siftup\<close>: the smaller children move up until a leaf is reached; the new item goes there and is sifted
  down.\<close>

function siftup :: "('a \<Rightarrow> 'a \<Rightarrow> bool) \<Rightarrow> nat \<Rightarrow> 'a list \<Rightarrow> nat \<Rightarrow> 'a \<Rightarrow> 'a list" where
  "siftup lt start h pos x =
     (if 2 * pos + 1 < length h
      then siftup lt start (h[pos := h ! smaller_child lt h pos]) (smaller_child lt h pos) x
      else siftdown lt start (h[pos := x]) pos x)"
  by pat_completeness auto
termination
  by (relation "measure (\<lambda>(lt, start, h, pos, x). length h - pos)") (auto simp: smaller_child_def Let_def)

declare siftup.simps [simp del]

definition heappop :: "('a \<Rightarrow> 'a \<Rightarrow> bool) \<Rightarrow> 'a list \<Rightarrow> ('a \<times> 'a list) option" where
  "heappop lt h = (case h of [] \<Rightarrow> None
     | _ \<Rightarrow> let x = last h; h' = butlast h in
         if h' = [] then Some (x, []) else Some (hd h', siftup lt 0 (h'[0 := x]) 0 x))"

section \<open>What the operations keep\<close>

lemma mset_move:
  assumes "i < length h" "j < length h" "i \<noteq> j"
  shows "mset (h[i := h ! j, j := x]) = mset (h[i := x])"
  using assms mset_swap [of j "h[i := x]" i] by simp

lemma length_siftdown [simp]: "length (siftdown lt start h pos x) = length h"
  by (induction lt start h pos x rule: siftdown.induct) (subst siftdown.simps, auto)

lemma mset_siftdown: "pos < length h \<Longrightarrow> mset (siftdown lt start h pos x) = mset (h[pos := x])"
proof (induction lt start h pos x rule: siftdown.induct)
  case (1 lt start h pos x)
  then show ?case by (subst siftdown.simps) (auto simp: mset_move)
qed

lemma smaller_child_bounds:
  assumes "2 * pos + 1 < length h"
  shows "smaller_child lt h pos < length h" "pos < smaller_child lt h pos" "(smaller_child lt h pos - 1) div 2 = pos"
  using assms by (auto simp: smaller_child_def Let_def)

lemma length_siftup [simp]: "length (siftup lt start h pos x) = length h"
  by (induction lt start h pos x rule: siftup.induct) (subst siftup.simps, auto)

lemma mset_siftup: "pos < length h \<Longrightarrow> mset (siftup lt start h pos x) = mset (h[pos := x])"
proof (induction lt start h pos x rule: siftup.induct)
  case (1 lt start h pos x)
  then show ?case
    using smaller_child_bounds [of pos h lt]
    by (subst siftup.simps) (auto simp: mset_move mset_siftdown)
qed

lemma mset_heappush: "mset (heappush lt h x) = add_mset x (mset h)"
  by (simp add: heappush_def mset_siftdown)

lemma mset_heappop:
  assumes "heappop lt h = Some (x, h')"
  shows "mset h = add_mset x (mset h')"
proof (cases h rule: rev_cases)
  case Nil
  then show ?thesis using assms by (simp add: heappop_def)
next
  case (snoc ys y)
  show ?thesis
  proof (cases ys)
    case Nil
    then show ?thesis using assms snoc by (auto simp: heappop_def)
  next
    case (Cons z zs)
    then have "x = z" "h' = siftup lt 0 (y # zs) 0 y"
      using assms snoc by (auto simp: heappop_def split: list.splits)
    then show ?thesis using Cons snoc by (simp add: mset_siftup)
  qed
qed

lemma heappop_None [simp]: "heappop lt h = None \<longleftrightarrow> h = []"
  by (auto simp: heappop_def Let_def split: list.splits)

lemma heappop_Nil [simp]: "heappop lt [] = None"
  by simp

section \<open>Heap order\<close>

text \<open>No entry is smaller than its parent.\<close>

definition heap_ordered :: "('a \<Rightarrow> 'a \<Rightarrow> bool) \<Rightarrow> 'a list \<Rightarrow> bool" where
  "heap_ordered lt h = (\<forall>i<length h. 0 < i \<longrightarrow> not_worse lt (h ! ((i - 1) div 2)) (h ! i))"

text \<open>Heap order but at position \<open>pos\<close>, whose children are not smaller than its parent.\<close>

definition ordered_but :: "('a \<Rightarrow> 'a \<Rightarrow> bool) \<Rightarrow> nat \<Rightarrow> 'a list \<Rightarrow> bool" where
  "ordered_but lt pos h =
     ((\<forall>i<length h. 0 < i \<longrightarrow> i \<noteq> pos \<longrightarrow> not_worse lt (h ! ((i - 1) div 2)) (h ! i)) \<and>
      (\<forall>i<length h. 0 < i \<longrightarrow> 0 < pos \<longrightarrow> (i - 1) div 2 = pos \<longrightarrow> not_worse lt (h ! ((pos - 1) div 2)) (h ! i)))"

lemma ordered_butD:
  assumes "ordered_but lt pos h" "i < length h" "0 < i"
  shows "i \<noteq> pos \<Longrightarrow> not_worse lt (h ! ((i - 1) div 2)) (h ! i)"
    and "0 < pos \<Longrightarrow> (i - 1) div 2 = pos \<Longrightarrow> not_worse lt (h ! ((pos - 1) div 2)) (h ! i)"
  using assms by (auto simp: ordered_but_def)

text \<open>One step of \<open>_siftdown\<close>.\<close>

lemma ordered_but_swap:
  assumes w: "weak_order lt" and o: "ordered_but lt pos (h[pos := x])" and pos: "0 < pos" "pos < length h"
    and less: "lt x (h ! ((pos - 1) div 2))"
  shows "ordered_but lt ((pos - 1) div 2) (h[pos := h ! ((pos - 1) div 2), (pos - 1) div 2 := x])"
proof -
  let ?p = "(pos - 1) div 2"
  let ?g = "h[pos := h ! ?p, ?p := x]"
  have p: "?p < pos" "?p < length h" using pos by auto
  have top: "not_worse lt (h ! ((?p - 1) div 2)) (h ! ?p)" if "0 < ?p"
    using ordered_butD(1) [OF o, of ?p] that p pos by simp
  have kid: "not_worse lt (h ! ?p) (h ! i)" if "i < length h" "0 < i" "(i - 1) div 2 = pos" for i
    using ordered_butD(2) [OF o, of i] that p pos by (auto simp: nth_list_update)
  have sib: "not_worse lt (h ! ?p) (h ! i)" if "i < length h" "0 < i" "(i - 1) div 2 = ?p" "i \<noteq> pos" for i
    using ordered_butD(1) [OF o, of i] that p pos by (auto simp: nth_list_update)
  have low: "not_worse lt x (h ! i)" if "i < length h" "0 < i" "(i - 1) div 2 = ?p" "i \<noteq> pos" for i
    using weak_orderD(2) [OF w weak_orderD(1) [OF w less] sib [OF that]] .
  have far: "not_worse lt (h ! ((i - 1) div 2)) (h ! i)" if "i < length h" "0 < i" "i \<noteq> pos" "(i - 1) div 2 \<noteq> pos" for i
    using ordered_butD(1) [OF o, of i] that p pos by (auto simp: nth_list_update)
  have "not_worse lt (?g ! ((i - 1) div 2)) (?g ! i)" if i: "i < length ?g" "0 < i" "i \<noteq> ?p" for i
  proof (cases "i = pos")
    case True
    then show ?thesis using p pos weak_orderD(1) [OF w less] by (simp add: nth_list_update)
  next
    case False
    then show ?thesis
      using i p pos kid [of i] far [of i] low [of i]
      by (auto simp: nth_list_update)
  qed
  moreover have "not_worse lt (?g ! ((?p - 1) div 2)) (?g ! i)"
    if i: "i < length ?g" "0 < i" "0 < ?p" "(i - 1) div 2 = ?p" for i
  proof -
    have "(?p - 1) div 2 < ?p" using i(3) by linarith
    moreover have "not_worse lt (h ! ((?p - 1) div 2)) (h ! i)" if "i \<noteq> pos"
      using weak_orderD(2) [OF w top [OF i(3)] sib [OF _ i(2,4) that]] i(1) by simp
    ultimately show ?thesis
      using i p pos top by (cases "i = pos") (auto simp: nth_list_update)
  qed
  ultimately show ?thesis unfolding ordered_but_def by blast
qed

lemma heap_ordered_siftdown:
  "weak_order lt \<Longrightarrow> pos < length h \<Longrightarrow> ordered_but lt pos (h[pos := x]) \<Longrightarrow> heap_ordered lt (siftdown lt 0 h pos x)"
proof (induction "pos" arbitrary: h rule: less_induct)
  case (less pos)
  let ?p = "(pos - 1) div 2"
  show ?case
  proof (cases "0 < pos \<and> lt x (h ! ?p)")
    case True
    then have "heap_ordered lt (siftdown lt 0 (h[pos := h ! ?p]) ?p x)"
      using less ordered_but_swap [of lt pos h x] by (intro less.IH) auto
    then show ?thesis using True by (subst siftdown.simps) simp
  next
    case False
    have "not_worse lt (h[pos := x] ! ((i - 1) div 2)) (h[pos := x] ! i)" if "i < length h" "0 < i" for i
      using ordered_butD(1) [OF less.prems(3), of i] that False less.prems(2)
      by (cases "i = pos") (auto simp: nth_list_update)
    then show ?thesis using False by (subst siftdown.simps) (auto simp: heap_ordered_def)
  qed
qed

text \<open>Phase one of \<open>_siftup\<close>: the position is a hole, neither it nor its children are compared with it.\<close>

definition hole_at :: "('a \<Rightarrow> 'a \<Rightarrow> bool) \<Rightarrow> nat \<Rightarrow> 'a list \<Rightarrow> bool" where
  "hole_at lt pos h =
     ((\<forall>i<length h. 0 < i \<longrightarrow> i \<noteq> pos \<longrightarrow> (i - 1) div 2 \<noteq> pos \<longrightarrow> not_worse lt (h ! ((i - 1) div 2)) (h ! i)) \<and>
      (\<forall>i<length h. 0 < i \<longrightarrow> 0 < pos \<longrightarrow> (i - 1) div 2 = pos \<longrightarrow> not_worse lt (h ! ((pos - 1) div 2)) (h ! i)))"

lemma smaller_child_least:
  assumes "weak_order lt" "2 * pos + 1 < length h" "i < length h" "0 < i" "(i - 1) div 2 = pos"
  shows "not_worse lt (h ! smaller_child lt h pos) (h ! i)"
proof -
  have "i = 2 * pos + 1 \<or> i = 2 * pos + 2" using assms(4,5) by auto
  then show ?thesis
    using assms(2,3) weak_orderD(1,3) [OF assms(1)] by (elim disjE) (simp_all add: smaller_child_def Let_def)
qed

lemma hole_moves:
  assumes w: "weak_order lt" and hole: "hole_at lt pos h" and leaf: "2 * pos + 1 < length h"
  defines "c \<equiv> smaller_child lt h pos"
  shows "hole_at lt c (h[pos := h ! c])"
proof -
  let ?g = "h[pos := h ! c]"
  have c: "c < length h" "pos < c" "(c - 1) div 2 = pos"
    using smaller_child_bounds [OF leaf] by (auto simp: c_def)
  have far: "not_worse lt (h ! ((i - 1) div 2)) (h ! i)" if "i < length h" "0 < i" "i \<noteq> pos" "(i - 1) div 2 \<noteq> pos" for i
    using hole that by (auto simp: hole_at_def)
  have up: "not_worse lt (h ! ((pos - 1) div 2)) (h ! c)" if "0 < pos"
    using hole that c by (auto simp: hole_at_def)
  have sib: "not_worse lt (h ! c) (h ! i)" if "i < length h" "0 < i" "(i - 1) div 2 = pos" for i
    using smaller_child_least [OF w leaf that] by (simp add: c_def)
  have "not_worse lt (?g ! ((i - 1) div 2)) (?g ! i)"
    if i: "i < length ?g" "0 < i" "i \<noteq> c" "(i - 1) div 2 \<noteq> c" for i
    using i c up sib [of i] far [of i] by (cases "i = pos") (auto simp: nth_list_update)
  moreover have "not_worse lt (?g ! ((c - 1) div 2)) (?g ! i)"
    if i: "i < length ?g" "0 < i" "(i - 1) div 2 = c" for i
    using i c far [of i] by (auto simp: nth_list_update)
  ultimately show ?thesis unfolding hole_at_def by blast
qed

lemma heap_ordered_siftup:
  "weak_order lt \<Longrightarrow> pos < length h \<Longrightarrow> hole_at lt pos h \<Longrightarrow> heap_ordered lt (siftup lt 0 h pos x)"
proof (induction "length h - pos" arbitrary: h pos rule: less_induct)
  case less
  let ?c = "smaller_child lt h pos"
  show ?case
  proof (cases "2 * pos + 1 < length h")
    case True
    then have "heap_ordered lt (siftup lt 0 (h[pos := h ! ?c]) ?c x)"
      using less smaller_child_bounds [OF True, of lt] hole_moves [of lt pos h] by (intro less.hyps) auto
    then show ?thesis using True by (subst siftup.simps) simp
  next
    case False
    then have "ordered_but lt pos (h[pos := x])"
      using less.prems(3) by (auto simp: ordered_but_def hole_at_def nth_list_update)
    then show ?thesis using False less.prems by (subst siftup.simps) (simp add: heap_ordered_siftdown)
  qed
qed

lemma heap_ordered_heappush:
  assumes "weak_order lt" "heap_ordered lt h"
  shows "heap_ordered lt (heappush lt h x)"
proof -
  have "ordered_but lt (length h) (h @ [x])"
    using assms(2) by (auto simp: ordered_but_def heap_ordered_def nth_append)
  then show ?thesis using assms(1) by (simp add: heappush_def heap_ordered_siftdown)
qed

lemma heap_ordered_root:
  assumes "weak_order lt" "heap_ordered lt h" "i < length h"
  shows "not_worse lt (h ! 0) (h ! i)"
  using assms(3)
proof (induction i rule: less_induct)
  case (less i)
  show ?case
  proof (cases "i = 0")
    case True
    then show ?thesis using weak_orderD(3) [OF assms(1)] by simp
  next
    case False
    then have "not_worse lt (h ! 0) (h ! ((i - 1) div 2))" "not_worse lt (h ! ((i - 1) div 2)) (h ! i)"
      using less assms(2) by (auto simp: heap_ordered_def)
    then show ?thesis using weak_orderD(2) [OF assms(1)] by blast
  qed
qed

lemma heap_ordered_heappop:
  assumes "weak_order lt" "heap_ordered lt h" "heappop lt h = Some (x, h')"
  shows "heap_ordered lt h'"
proof (cases h rule: rev_cases)
  case (snoc ys y)
  show ?thesis
  proof (cases ys)
    case (Cons z zs)
    then have h': "h' = siftup lt 0 (y # zs) 0 y"
      using assms snoc by (auto simp: heappop_def split: list.splits)
    have "hole_at lt 0 (y # zs)"
      unfolding hole_at_def
    proof (intro conjI allI impI)
      fix i
      assume i: "i < length (y # zs)" "0 < i" "i \<noteq> 0" "(i - 1) div 2 \<noteq> 0"
      have "not_worse lt (h ! ((i - 1) div 2)) (h ! i)"
        using assms(2) [unfolded heap_ordered_def, rule_format, of i] i snoc Cons by simp
      moreover have "i - 1 < length zs" "(i - 1) div 2 - 1 < length zs" using i by auto
      ultimately show "not_worse lt ((y # zs) ! ((i - 1) div 2)) ((y # zs) ! i)"
        using i snoc Cons by (simp add: nth_append nth_Cons')
    qed simp
    then show ?thesis using assms(1) h' by (simp add: heap_ordered_siftup)
  qed (use assms snoc in \<open>auto simp: heappop_def heap_ordered_def\<close>)
qed (use assms in \<open>simp add: heappop_def\<close>)

lemma heappop_least:
  assumes "weak_order lt" "heap_ordered lt h" "heappop lt h = Some (x, h')" "y \<in> set h"
  shows "not_worse lt x y"
proof -
  have "x = h ! 0"
    using assms(3) by (cases h) (auto simp: heappop_def Let_def hd_conv_nth split: if_splits)
  then show ?thesis using heap_ordered_root [OF assms(1,2)] assms(4) by (auto simp: in_set_conv_nth)
qed

section \<open>The interface\<close>

text \<open>What the merging relies on: a push adds an entry, a pop takes one that no other entry beats.\<close>

locale priority_queue =
  fixes push :: "('a \<Rightarrow> 'a \<Rightarrow> bool) \<Rightarrow> 'q \<Rightarrow> 'a \<Rightarrow> 'q"
    and pop :: "('a \<Rightarrow> 'a \<Rightarrow> bool) \<Rightarrow> 'q \<Rightarrow> ('a \<times> 'q) option"
    and entries :: "'q \<Rightarrow> 'a multiset"
    and invar :: "('a \<Rightarrow> 'a \<Rightarrow> bool) \<Rightarrow> 'q \<Rightarrow> bool"
  assumes entries_push: "entries (push lt q x) = add_mset x (entries q)"
    and pop_none: "pop lt q = None \<longleftrightarrow> entries q = {#}"
    and entries_pop: "pop lt q = Some (x, q') \<Longrightarrow> entries q = add_mset x (entries q')"
    and invar_push: "weak_order lt \<Longrightarrow> invar lt q \<Longrightarrow> invar lt (push lt q x)"
    and invar_pop: "weak_order lt \<Longrightarrow> invar lt q \<Longrightarrow> pop lt q = Some (x, q') \<Longrightarrow> invar lt q'"
    and pop_least: "weak_order lt \<Longrightarrow> invar lt q \<Longrightarrow> pop lt q = Some (x, q') \<Longrightarrow> y \<in># entries q \<Longrightarrow> not_worse lt x y"

interpretation heapq: priority_queue heappush heappop mset heap_ordered
  by unfold_locales
    (auto simp: mset_heappush intro: mset_heappop heap_ordered_heappush heap_ordered_heappop dest: heappop_least)

end
