(* ===== verification/Filtering.thy ===== *)
theory Filtering
  imports Prelude Heapq "HOL-Library.Char_ord" "HOL-Library.List_Lexorder"
begin

text \<open>
  Filtering a distributed dictionary (\<open>DDict.filter\<close>, \<open>filter_aggregator\<close> and \<open>SentinelQueue\<close> of
  \<open>data/ddict/ddict.py\<close>): a process per manager puts values into a queue, best first; a tree of aggregators
  merges the queues with a priority queue, and the values come out at the root, best first.
\<close>

section \<open>Queues with an end\<close>

text \<open>A \<open>SentinelQueue\<close>: the queue and the shutdown event are shared, the flags belong to the end of the
  queue that a process holds.  A \<open>get\<close> on an empty queue waits, which is \<open>None\<close>.  The sentinel of the code
  is a string; here it is distinct from all values, so a value equal to that string, which would end the
  queue early, is not among them.\<close>

datatype 'a qitem = Shutdown | Value 'a | SENTINEL

record 'a sentinel_queue =
  q_items :: "'a qitem list"
  q_shutdown :: bool
  q_sentinel_sent :: bool
  q_closed :: bool
  q_sentinel_received :: bool
  q_putter :: bool
  q_getter :: bool

definition init_properties :: "'a qitem list \<Rightarrow> bool \<Rightarrow> 'a sentinel_queue" where
  "init_properties items shut = \<lparr>q_items = items, q_shutdown = shut, q_sentinel_sent = False, q_closed = False,
     q_sentinel_received = False, q_putter = False, q_getter = False\<rparr>"

definition putter :: "'a sentinel_queue \<Rightarrow> unit res \<times> 'a sentinel_queue" where
  "putter s = (if q_putter s then (Inr (), s) else if q_getter s then (Inl RuntimeError, s)
     else (Inr (), s\<lparr>q_items := q_items s @ [Shutdown], q_putter := True\<rparr>))"

definition getter :: "'a sentinel_queue \<Rightarrow> (unit res \<times> 'a sentinel_queue) option" where
  "getter s = (if q_getter s then Some (Inr (), s) else if q_putter s then Some (Inl RuntimeError, s)
     else case q_items s of [] \<Rightarrow> None | _ # qs \<Rightarrow> Some (Inr (), s\<lparr>q_items := qs, q_getter := True\<rparr>))"

definition sq_get :: "'a sentinel_queue \<Rightarrow> ('a qitem res \<times> 'a sentinel_queue) option" where
  "sq_get s = (if q_closed s \<or> \<not> q_getter s then Some (Inl RuntimeError, s)
     else case q_items s of [] \<Rightarrow> None
       | x # qs \<Rightarrow> if x = SENTINEL then Some (Inl EOFError, s\<lparr>q_items := qs, q_sentinel_received := True\<rparr>)
                  else Some (Inr x, s\<lparr>q_items := qs\<rparr>))"

definition sq_put :: "'a \<Rightarrow> 'a sentinel_queue \<Rightarrow> unit res \<times> 'a sentinel_queue" where
  "sq_put x s = (if q_closed s \<or> \<not> q_putter s then (Inl RuntimeError, s)
     else if q_shutdown s then (Inl EOFError, s)
     else (Inr (), s\<lparr>q_items := q_items s @ [Value x]\<rparr>))"

text \<open>\<open>close\<close>: a putter sends the sentinel; a getter sets the event and empties the queue up to the sentinel,
  for which it waits.\<close>

definition drained :: "'a qitem list \<Rightarrow> 'a qitem list option" where
  "drained items = (case dropWhile (\<lambda>x. x \<noteq> SENTINEL) items of [] \<Rightarrow> None | _ # qs \<Rightarrow> Some qs)"

definition sq_close :: "'a sentinel_queue \<Rightarrow> 'a sentinel_queue option" where
  "sq_close s = (if q_closed s then Some s
     else let s1 = (if q_putter s \<and> \<not> q_sentinel_sent s
                    then s\<lparr>q_sentinel_sent := True, q_items := q_items s @ [SENTINEL]\<rparr> else s)
     in if q_getter s1 \<and> \<not> q_sentinel_received s1
        then (case drained (q_items s1) of None \<Rightarrow> None
              | Some qs \<Rightarrow> Some (s1\<lparr>q_shutdown := True, q_items := qs, q_sentinel_received := True, q_closed := True\<rparr>))
        else Some (s1\<lparr>q_closed := True\<rparr>))"

text \<open>The two sides as the filter uses them: the process that puts values and closes, and the one that reads
  until \<open>EOFError\<close>.\<close>

fun put_all :: "'a list \<Rightarrow> 'a sentinel_queue \<Rightarrow> unit res \<times> 'a sentinel_queue" where
  "put_all [] s = (Inr (), s)"
| "put_all (x # xs) s = (case sq_put x s of (Inl e, s') \<Rightarrow> (Inl e, s') | (Inr _, s') \<Rightarrow> put_all xs s')"

definition write_side :: "'a list \<Rightarrow> 'a sentinel_queue \<Rightarrow> 'a sentinel_queue option" where
  "write_side xs s = (case putter s of (Inl e, s') \<Rightarrow> sq_close s' | (Inr _, s') \<Rightarrow> sq_close (snd (put_all xs s')))"

function get_all :: "'a sentinel_queue \<Rightarrow> ('a list res \<times> 'a sentinel_queue) option" where
  "get_all s = (case sq_get s of None \<Rightarrow> None
     | Some (Inl e, s') \<Rightarrow> if e = EOFError then Some (Inr [], s') else Some (Inl e, s')
     | Some (Inr x, s') \<Rightarrow> (case get_all s' of None \<Rightarrow> None
         | Some (Inl e, s'') \<Rightarrow> Some (Inl e, s'')
         | Some (Inr xs, s'') \<Rightarrow> Some (Inr (case x of Value v \<Rightarrow> v # xs | _ \<Rightarrow> xs), s'')))"
  by pat_completeness auto
termination
  by (relation "measure (\<lambda>s. length (q_items s))") (auto simp: sq_get_def split: if_splits list.splits)

declare get_all.simps [simp del]

definition read_side :: "'a sentinel_queue \<Rightarrow> ('a list res \<times> 'a sentinel_queue) option" where
  "read_side s = (case getter s of None \<Rightarrow> None | Some (Inl e, s') \<Rightarrow> Some (Inl e, s') | Some (Inr _, s') \<Rightarrow> get_all s')"

section \<open>Merging\<close>

datatype 'a pq_entry = PQEntry (pq_value: 'a) (pq_index: nat)

definition entry_lt :: "('a \<Rightarrow> 'a \<Rightarrow> bool) \<Rightarrow> 'a pq_entry \<Rightarrow> 'a pq_entry \<Rightarrow> bool" where
  "entry_lt lt a b = lt (pq_value a) (pq_value b)"

text \<open>The merging of \<open>filter_aggregator\<close>.  A queue is what is left to be read from it; \<open>[]\<close> is the
  \<open>EOFError\<close> of a queue that was read to its end.  \<open>room\<close> is how many values the output queue takes before
  its reader closes it, \<open>None\<close> when the reader reads to the end.\<close>

definition get_from :: "'a list list \<Rightarrow> nat \<Rightarrow> 'a list" where
  "get_from qs i = (if i < length qs then qs ! i else [])"

fun prime :: "('a \<Rightarrow> 'a \<Rightarrow> bool) \<Rightarrow> nat list \<Rightarrow> 'a pq_entry list \<Rightarrow> 'a list list \<Rightarrow> 'a pq_entry list \<times> 'a list list" where
  "prime lt [] h qs = (h, qs)"
| "prime lt (i # is) h qs = (case get_from qs i of [] \<Rightarrow> prime lt is h qs
     | y # ys \<Rightarrow> prime lt is (heappush (entry_lt lt) h (PQEntry y i)) (qs[i := ys]))"

lemma heappop_length: "heappop lt h = Some (x, h') \<Longrightarrow> length h = Suc (length h')"
  by (metis mset_heappop size_add_mset size_mset)

lemma heappush_length: "length (heappush lt h x) = Suc (length h)"
  by (simp add: heappush_def)

lemma sum_list_update:
  "i < length qs \<Longrightarrow> qs ! i = y # ys \<Longrightarrow> length (concat qs) = Suc (length (concat (qs[i := ys])))"
proof (induction qs arbitrary: i)
  case (Cons q qs)
  then show ?case by (cases i) auto
qed simp

function merge_loop :: "('a \<Rightarrow> 'a \<Rightarrow> bool) \<Rightarrow> nat option \<Rightarrow> 'a pq_entry list \<Rightarrow> 'a list list \<Rightarrow> 'a list" where
  "merge_loop lt room h qs = (case heappop (entry_lt lt) h of None \<Rightarrow> []
     | Some (e, h') \<Rightarrow> if room = Some 0 then []
         else pq_value e # (case get_from qs (pq_index e) of
             [] \<Rightarrow> merge_loop lt (map_option (\<lambda>k. k - 1) room) h' qs
           | y # ys \<Rightarrow> merge_loop lt (map_option (\<lambda>k. k - 1) room)
                (heappush (entry_lt lt) h' (PQEntry y (pq_index e))) (qs[pq_index e := ys])))"
  by pat_completeness auto

termination
  by (relation "measure (\<lambda>(lt, room, h, qs). length h + length (concat qs))")
    (auto simp: get_from_def heappop_length heappush_length sum_list_update split: if_splits)

declare merge_loop.simps [simp del]

definition merge_queues :: "('a \<Rightarrow> 'a \<Rightarrow> bool) \<Rightarrow> nat option \<Rightarrow> 'a list list \<Rightarrow> 'a list" where
  "merge_queues lt room qs = (case prime lt [0..<length qs] [] qs of (h, qs') \<Rightarrow> merge_loop lt room h qs')"

section \<open>The tree of aggregators\<close>

text \<open>How a long list of managers is divided: at least two and at most \<open>branching_factor\<close> parts.\<close>

definition num_divisions :: "nat \<Rightarrow> nat \<Rightarrow> nat" where
  "num_divisions n b = (let d = n div b; e = (if d = 1 then 2 else d) in if b < e then b else e)"

definition division_sz :: "nat \<Rightarrow> nat \<Rightarrow> nat" where
  "division_sz n b = (let d = num_divisions n b; z = n div d in if z * d < n then z + 1 else z)"

function chunks :: "nat \<Rightarrow> 'a list \<Rightarrow> 'a list list" where
  "chunks z xs = (if xs = [] \<or> z = 0 then [] else take z xs # chunks z (drop z xs))"
  by pat_completeness auto
termination by (relation "measure (\<lambda>(z, xs). length xs)") (auto simp: diff_less)

declare chunks.simps [simp del]

text \<open>What a process of the tree writes to its queue; \<open>outs\<close> gives what the filter code writes for a manager.
  The number counts the levels of the tree that may be started; \<open>None\<close> is a tree that does not end.  With a
  branching factor of 0 the division raises in the process that reads no queue, so that the reader of its
  own queue waits.\<close>

fun filter_aggregator :: "nat \<Rightarrow> ('a \<Rightarrow> 'a \<Rightarrow> bool) \<Rightarrow> nat \<Rightarrow> (nat \<Rightarrow> 'a list) \<Rightarrow> (nat \<times> string) list \<Rightarrow> 'a list option" where
  "filter_aggregator 0 lt b outs hosts = None"
| "filter_aggregator (Suc d) lt b outs hosts =
     (if length hosts = 1 then Some (outs (fst (hd hosts)))
      else if b < length hosts then
        (if b = 0 then None
         else case those (map (filter_aggregator d lt b outs) (chunks (division_sz (length hosts) b) hosts)) of
                None \<Rightarrow> None | Some qs \<Rightarrow> Some (merge_queues lt None qs))
      else Some (merge_queues lt None (map (\<lambda>h. outs (fst h)) hosts)))"

text \<open>\<open>DDict.filter\<close>: the managers, ordered by the name of their host, are given to the root.  \<open>stats\<close> is the
  host of every manager, \<open>node\<close> the name of the node when there is only one.\<close>

definition managers_hosts :: "string option \<Rightarrow> (nat \<times> string) list \<Rightarrow> (nat \<times> string) list" where
  "managers_hosts node stats = sort_key snd (case node of
     Some n \<Rightarrow> map (\<lambda>(m, h). (m, n)) stats | None \<Rightarrow> stats)"

definition dd_filter :: "nat \<Rightarrow> ('a \<Rightarrow> 'a \<Rightarrow> bool) \<Rightarrow> nat \<Rightarrow> (nat \<Rightarrow> 'a list) \<Rightarrow> string option \<Rightarrow> (nat \<times> string) list \<Rightarrow> 'a list option" where
  "dd_filter levels lt b outs node stats = filter_aggregator levels lt b outs (managers_hosts node stats)"

section \<open>The queues deliver what was put\<close>

lemma put_all_open:
  "\<not> q_closed s \<Longrightarrow> q_putter s \<Longrightarrow> \<not> q_shutdown s \<Longrightarrow>
    put_all xs s = (Inr (), s\<lparr>q_items := q_items s @ map Value xs\<rparr>)"
  by (induction xs arbitrary: s) (simp_all add: sq_put_def)

lemma get_all_values:
  "\<not> q_closed s \<Longrightarrow> q_getter s \<Longrightarrow> q_items s = map Value xs @ SENTINEL # rest \<Longrightarrow>
    get_all s = Some (Inr xs, s\<lparr>q_items := rest, q_sentinel_received := True\<rparr>)"
  by (induction xs arbitrary: s) (subst get_all.simps, simp add: sq_get_def)+

section \<open>Merging as a relation\<close>

text \<open>A run of the merging over any priority queue.\<close>

inductive merges :: "('a \<Rightarrow> 'a \<Rightarrow> bool) \<Rightarrow>
    (('a pq_entry \<Rightarrow> 'a pq_entry \<Rightarrow> bool) \<Rightarrow> 'q \<Rightarrow> 'a pq_entry \<Rightarrow> 'q) \<Rightarrow>
    (('a pq_entry \<Rightarrow> 'a pq_entry \<Rightarrow> bool) \<Rightarrow> 'q \<Rightarrow> ('a pq_entry \<times> 'q) option) \<Rightarrow>
    'q \<Rightarrow> 'a list list \<Rightarrow> 'a list \<Rightarrow> bool"
  for lt push pop where
  merges_stop: "pop (entry_lt lt) q = None \<Longrightarrow> merges lt push pop q qs []"
| merges_last: "pop (entry_lt lt) q = Some (e, q') \<Longrightarrow> get_from qs (pq_index e) = [] \<Longrightarrow>
    merges lt push pop q' qs out \<Longrightarrow> merges lt push pop q qs (pq_value e # out)"
| merges_more: "pop (entry_lt lt) q = Some (e, q') \<Longrightarrow> get_from qs (pq_index e) = y # ys \<Longrightarrow>
    merges lt push pop (push (entry_lt lt) q' (PQEntry y (pq_index e))) (qs[pq_index e := ys]) out \<Longrightarrow>
    merges lt push pop q qs (pq_value e # out)"

text \<open>A queue with values left has an entry in the priority queue; for a sorted output, one that is not worse
  than what is left.\<close>

definition present :: "'a pq_entry multiset \<Rightarrow> 'a list list \<Rightarrow> nat \<Rightarrow> bool" where
  "present es qs i = (get_from qs i \<noteq> [] \<longrightarrow> (\<exists>e. e \<in># es \<and> pq_index e = i))"

definition covers :: "('a \<Rightarrow> 'a \<Rightarrow> bool) \<Rightarrow> 'a pq_entry multiset \<Rightarrow> 'a list list \<Rightarrow> nat \<Rightarrow> bool" where
  "covers lt es qs i = (\<forall>y\<in>set (get_from qs i). \<exists>e. e \<in># es \<and> pq_index e = i \<and> not_worse lt (pq_value e) y)"

lemma get_from_update [simp]:
  "get_from (qs[i := ys]) j = (if j = i \<and> i < length qs then ys else get_from qs j)"
  by (simp add: get_from_def nth_list_update)

lemma get_from_bound: "get_from qs i = y # ys \<Longrightarrow> i < length qs \<and> qs ! i = y # ys"
  by (simp add: get_from_def split: if_splits)

lemma mset_concat_update:
  "i < length qs \<Longrightarrow> qs ! i = y # ys \<Longrightarrow> mset (concat qs) = add_mset y (mset (concat (qs[i := ys])))"
proof (induction qs arbitrary: i)
  case (Cons q qs)
  then show ?case by (cases i) auto
qed simp

lemma entry_lt_weak: "weak_order lt \<Longrightarrow> weak_order (entry_lt lt)"
  unfolding weak_order_def entry_lt_def by blast

locale merging = priority_queue push pop entries invar
  for push :: "('a pq_entry \<Rightarrow> 'a pq_entry \<Rightarrow> bool) \<Rightarrow> 'q \<Rightarrow> 'a pq_entry \<Rightarrow> 'q"
    and pop :: "('a pq_entry \<Rightarrow> 'a pq_entry \<Rightarrow> bool) \<Rightarrow> 'q \<Rightarrow> ('a pq_entry \<times> 'q) option"
    and entries :: "'q \<Rightarrow> 'a pq_entry multiset"
    and invar :: "('a pq_entry \<Rightarrow> 'a pq_entry \<Rightarrow> bool) \<Rightarrow> 'q \<Rightarrow> bool"
begin

lemma merges_mset:
  "merges lt push pop q qs out \<Longrightarrow> \<forall>i. present (entries q) qs i \<Longrightarrow>
    mset out = image_mset pq_value (entries q) + mset (concat qs)"
proof (induction rule: merges.induct)
  case (merges_stop q qs)
  then have none: "entries q = {#}" "get_from qs i = []" for i
    by (auto simp: pop_none present_def)
  have "x = []" if "x \<in> set qs" for x
    using none(2) that by (metis get_from_def in_set_conv_nth)
  then show ?case using none by simp
next
  case (merges_last q e q' qs out)
  have "present (entries q') qs i" for i
    using merges_last.prems [rule_format, of i] merges_last.hyps(2) entries_pop [OF merges_last.hyps(1)]
    by (auto simp: present_def)
  then show ?case using merges_last.IH entries_pop [OF merges_last.hyps(1)] by simp
next
  case (merges_more q e q' qs y ys out)
  have i: "pq_index e < length qs" "qs ! pq_index e = y # ys"
    using get_from_bound [OF merges_more.hyps(2)] by auto
  have "present (entries (push (entry_lt lt) q' (PQEntry y (pq_index e)))) (qs[pq_index e := ys]) j" for j
    using merges_more.prems [rule_format, of j] i entries_pop [OF merges_more.hyps(1)]
    by (auto simp: present_def entries_push)
  then have "mset out = image_mset pq_value (entries (push (entry_lt lt) q' (PQEntry y (pq_index e)))) +
      mset (concat (qs[pq_index e := ys]))"
    using merges_more.IH by simp
  then show ?case
    using entries_pop [OF merges_more.hyps(1)] mset_concat_update [OF i] by (simp add: entries_push)
qed

lemma covers_present: "covers lt es qs i \<Longrightarrow> present es qs i"
  by (cases "get_from qs i") (auto simp: covers_def present_def)

lemma pop_best:
  assumes "weak_order lt" "invar (entry_lt lt) q" "pop (entry_lt lt) q = Some (e, q')"
    and "\<forall>i. covers lt (entries q) qs i" "x \<in># image_mset pq_value (entries q) + mset (concat qs)"
  shows "not_worse lt (pq_value e) x"
proof -
  have entry: "not_worse lt (pq_value e) (pq_value f)" if "f \<in># entries q" for f
    using pop_least [OF entry_lt_weak [OF assms(1)] assms(2,3) that] by (simp add: entry_lt_def)
  show ?thesis
  proof (cases "x \<in># image_mset pq_value (entries q)")
    case True
    then show ?thesis using entry by auto
  next
    case False
    then have "x \<in> set (concat qs)"
      using assms(5) by simp
    then obtain i where "i < length qs" "x \<in> set (qs ! i)"
      by (auto simp: in_set_conv_nth [of _ qs])
    then have "x \<in> set (get_from qs i)" by (simp add: get_from_def)
    then obtain f where "f \<in># entries q" "not_worse lt (pq_value f) x"
      using assms(4) by (auto simp: covers_def)
    then show ?thesis using entry weak_orderD(2) [OF assms(1)] by blast
  qed
qed

lemma merges_sorted:
  "merges lt push pop q qs out \<Longrightarrow> weak_order lt \<Longrightarrow> invar (entry_lt lt) q \<Longrightarrow> \<forall>i. covers lt (entries q) qs i \<Longrightarrow>
    \<forall>i. sorted_wrt (not_worse lt) (get_from qs i) \<Longrightarrow> sorted_wrt (not_worse lt) out"
proof (induction rule: merges.induct)
  case (merges_last q e q' qs out)
  have cov: "covers lt (entries q') qs i" for i
    using merges_last.prems(3) [rule_format, of i] merges_last.hyps(2) entries_pop [OF merges_last.hyps(1)]
    by (auto simp: covers_def)
  have "mset out = image_mset pq_value (entries q') + mset (concat qs)"
    using merges_mset [OF merges_last.hyps(3)] covers_present cov by blast
  then have "not_worse lt (pq_value e) x" if "x \<in> set out" for x
    using pop_best [OF merges_last.prems(1,2) merges_last.hyps(1) merges_last.prems(3), of x]
      entries_pop [OF merges_last.hyps(1)] that by (auto simp flip: set_mset_mset)
  then show ?case
    using merges_last.IH merges_last.prems cov invar_pop [OF entry_lt_weak _ merges_last.hyps(1)] by simp
next
  case (merges_more q e q' qs y ys out)
  let ?q = "push (entry_lt lt) q' (PQEntry y (pq_index e))"
  have i: "pq_index e < length qs" "qs ! pq_index e = y # ys"
    using get_from_bound [OF merges_more.hyps(2)] by auto
  have low: "\<forall>z\<in>set ys. not_worse lt y z"
    using merges_more.prems(4) [rule_format, of "pq_index e"] merges_more.hyps(2) by simp
  have cov: "covers lt (entries ?q) (qs[pq_index e := ys]) j" for j
    using merges_more.prems(3) [rule_format, of j] i low entries_pop [OF merges_more.hyps(1)]
    by (auto simp: covers_def entries_push)
  have "mset out = image_mset pq_value (entries ?q) + mset (concat (qs[pq_index e := ys]))"
    using merges_mset [OF merges_more.hyps(3)] covers_present cov by blast
  then have "mset out \<subseteq># image_mset pq_value (entries q) + mset (concat qs)"
    using entries_pop [OF merges_more.hyps(1)] mset_concat_update [OF i] by (simp add: entries_push)
  then have "not_worse lt (pq_value e) x" if "x \<in> set out" for x
    using pop_best [OF merges_more.prems(1,2) merges_more.hyps(1) merges_more.prems(3), of x] that
    by (metis mset_subset_eqD set_mset_mset)
  moreover have "sorted_wrt (not_worse lt) (get_from (qs[pq_index e := ys]) j)" for j
    using merges_more.prems(4) [rule_format, of j] merges_more.hyps(2) by auto
  ultimately show ?case
    using merges_more.IH merges_more.prems(1,2) cov
      invar_push [OF entry_lt_weak invar_pop [OF entry_lt_weak _ merges_more.hyps(1)]] by simp
qed simp

end

interpretation merge_heap: merging heappush heappop mset heap_ordered
  by unfold_locales

lemma merge_loop_merges: "merges lt heappush heappop h qs (merge_loop lt None h qs)"
proof (induction "length h + length (concat qs)" arbitrary: h qs rule: less_induct)
  case less
  show ?case
  proof (cases "heappop (entry_lt lt) h")
    case None
    then show ?thesis by (subst merge_loop.simps) (simp add: merges_stop)
  next
    case (Some p)
    then obtain e h' where p: "heappop (entry_lt lt) h = Some (e, h')" by (cases p) auto
    show ?thesis
    proof (cases "get_from qs (pq_index e)")
      case Nil
      then show ?thesis
        using less heappop_length [OF p] by (subst merge_loop.simps) (auto simp: p intro!: merges_last [where pop = heappop and push = heappush, OF p])
    next
      case (Cons y ys)
      then show ?thesis
        using less heappop_length [OF p] sum_list_update [of "pq_index e" qs] get_from_bound [OF Cons]
        by (subst merge_loop.simps) (auto simp: p heappush_length intro!: merges_more [where pop = heappop and push = heappush, OF p])
    qed
  qed
qed

text \<open>A reader that closes early has seen the beginning of what the full merge writes.\<close>

lemma merge_loop_take: "merge_loop lt (Some k) h qs = take k (merge_loop lt None h qs)"
proof (induction "length h + length (concat qs)" arbitrary: k h qs rule: less_induct)
  case less
  show ?case
  proof (cases "heappop (entry_lt lt) h")
    case None
    then show ?thesis by (subst (1 2) merge_loop.simps) simp
  next
    case (Some p)
    then obtain e h' where p: "heappop (entry_lt lt) h = Some (e, h')" by (cases p) auto
    have IH: "merge_loop lt (Some j) h1 qs1 = take j (merge_loop lt None h1 qs1)"
      if "length h1 + length (concat qs1) < length h + length (concat qs)" for j h1 qs1
      using less that by blast
    show ?thesis
    proof (cases k)
      case 0
      then show ?thesis by (subst merge_loop.simps) (simp add: p)
    next
      case (Suc j)
      then show ?thesis
        using heappop_length [OF p] sum_list_update [of "pq_index e" qs] get_from_bound [of qs "pq_index e"]
        by (subst (1 2) merge_loop.simps) (auto simp: p heappush_length IH split: list.split)
    qed
  qed
qed

lemma merge_queues_take: "merge_queues lt (Some k) qs = take k (merge_queues lt None qs)"
  by (simp add: merge_queues_def merge_loop_take split: prod.split)

section \<open>Priming\<close>

lemma prime_mset:
  "prime lt is h qs = (h', qs') \<Longrightarrow>
    image_mset pq_value (mset h') + mset (concat qs') = image_mset pq_value (mset h) + mset (concat qs)"
proof (induction lt "is" h qs rule: prime.induct)
  case (2 lt i "is" h qs)
  then show ?case
    using get_from_bound [of qs i] mset_concat_update [of i qs]
    by (auto simp: mset_heappush split: list.splits)
qed simp

lemma prime_present:
  "prime lt is h qs = (h', qs') \<Longrightarrow> \<forall>j. j \<notin> set is \<longrightarrow> present (mset h) qs j \<Longrightarrow> present (mset h') qs' j"
proof (induction lt "is" h qs rule: prime.induct)
  case (2 lt i "is" h qs)
  show ?case
  proof (cases "get_from qs i")
    case Nil
    then have "present (mset h) qs k" if "k \<notin> set is" for k
      using 2(4) that by (cases "k = i") (simp_all add: present_def)
    then show ?thesis using 2(1,3) Nil by simp
  next
    case (Cons y ys)
    have "\<forall>j. j \<notin> set is \<longrightarrow> present (mset (heappush (entry_lt lt) h (PQEntry y i))) (qs[i := ys]) j"
      using 2(4) get_from_bound [OF Cons] by (auto simp: present_def mset_heappush)
    then show ?thesis using 2(2,3) Cons by simp
  qed
qed simp

lemma prime_covers:
  "prime lt is h qs = (h', qs') \<Longrightarrow> weak_order lt \<Longrightarrow> heap_ordered (entry_lt lt) h \<Longrightarrow>
    \<forall>j. sorted_wrt (not_worse lt) (get_from qs j) \<Longrightarrow> \<forall>j. j \<notin> set is \<longrightarrow> covers lt (mset h) qs j \<Longrightarrow>
    heap_ordered (entry_lt lt) h' \<and> covers lt (mset h') qs' j \<and> sorted_wrt (not_worse lt) (get_from qs' j)"
proof (induction lt "is" h qs rule: prime.induct)
  case (2 lt i "is" h qs)
  show ?case
  proof (cases "get_from qs i")
    case Nil
    then have "covers lt (mset h) qs k" if "k \<notin> set is" for k
      using 2(7) that by (cases "k = i") (simp_all add: covers_def)
    then show ?thesis using 2(1,3-6) Nil by simp
  next
    case (Cons y ys)
    have low: "sorted_wrt (not_worse lt) (y # ys)" using 2(6) [rule_format, of i] Cons by simp
    have "\<forall>j. j \<notin> set is \<longrightarrow> covers lt (mset (heappush (entry_lt lt) h (PQEntry y i))) (qs[i := ys]) j"
      using 2(7) low get_from_bound [OF Cons] by (auto simp: covers_def mset_heappush)
    moreover have "\<forall>j. sorted_wrt (not_worse lt) (get_from (qs[i := ys]) j)"
      using 2(6) low by simp
    ultimately show ?thesis
      using 2 Cons by (simp add: heap_ordered_heappush entry_lt_weak)
  qed
qed simp

lemma present_outside: "j \<notin> set [0..<length qs] \<Longrightarrow> present es qs j \<and> covers lt es qs j"
  by (simp add: present_def covers_def get_from_def)

lemma merge_queues_mset: "mset (merge_queues lt None qs) = mset (concat qs)"
proof -
  obtain h qs' where p: "prime lt [0..<length qs] [] qs = (h, qs')" by fastforce
  have "\<forall>j. present (mset h) qs' j"
    using prime_present [OF p] present_outside by blast
  then show ?thesis
    using merge_heap.merges_mset [OF merge_loop_merges, of h qs' lt] prime_mset [OF p]
    by (simp add: merge_queues_def p)
qed

lemma merge_queues_sorted:
  assumes "weak_order lt" "\<forall>q\<in>set qs. sorted_wrt (not_worse lt) q"
  shows "sorted_wrt (not_worse lt) (merge_queues lt None qs)"
proof -
  obtain h qs' where p: "prime lt [0..<length qs] [] qs = (h, qs')" by fastforce
  have "\<forall>j. sorted_wrt (not_worse lt) (get_from qs j)"
    using assms(2) by (simp add: get_from_def)
  moreover have "heap_ordered (entry_lt lt) []" by (simp add: heap_ordered_def)
  ultimately have "heap_ordered (entry_lt lt) h \<and> covers lt (mset h) qs' j \<and> sorted_wrt (not_worse lt) (get_from qs' j)" for j
    using prime_covers [OF p assms(1)] present_outside [of _ qs] by blast
  then show ?thesis
    using merge_heap.merges_sorted [OF merge_loop_merges assms(1)] by (simp add: merge_queues_def p)
qed

section \<open>Dividing the managers\<close>

lemma num_divisions_bounds: "2 \<le> b \<Longrightarrow> b < n \<Longrightarrow> 2 \<le> num_divisions n b \<and> num_divisions n b \<le> b"
proof -
  assume "2 \<le> b" "b < n"
  then have "1 \<le> n div b" by (simp add: Suc_leI div_greater_zero_iff)
  then show ?thesis using \<open>2 \<le> b\<close> by (auto simp: num_divisions_def Let_def)
qed

lemma division_sz_bounds:
  assumes "2 \<le> b" "b < n"
  shows "0 < division_sz n b" "division_sz n b < n" "n \<le> division_sz n b * b"
proof -
  let ?d = "num_divisions n b"
  have d: "2 \<le> ?d" "?d \<le> b" using num_divisions_bounds [OF assms] by auto
  have n: "n \<le> n div ?d * ?d + ?d" using dividend_less_div_times [of ?d n] d(1) by simp
  have pos: "0 < n div ?d" using d assms by (simp add: div_greater_zero_iff)
  show "0 < division_sz n b" using pos by (simp add: division_sz_def Let_def)
  have up: "n \<le> division_sz n b * ?d"
    using n by (auto simp: division_sz_def Let_def algebra_simps)
  then show "n \<le> division_sz n b * b" using d(2) by (meson le_trans mult_le_mono2)
  have "n div ?d \<le> n div 2" using d(1) by (simp add: div_le_mono2)
  then show "division_sz n b < n" using assms by (auto simp: division_sz_def Let_def)
qed

lemma concat_chunks: "0 < z \<Longrightarrow> concat (chunks z xs) = xs"
proof (induction z xs rule: chunks.induct)
  case (1 z xs)
  then show ?case by (subst chunks.simps) auto
qed

lemma chunks_lengths: "c \<in> set (chunks z xs) \<Longrightarrow> c \<noteq> [] \<and> length c \<le> z \<and> length c \<le> length xs"
proof (induction z xs rule: chunks.induct)
  case (1 z xs)
  then show ?case by (subst (asm) chunks.simps) (auto split: if_splits)
qed

lemma length_chunks: "length xs \<le> z * k \<Longrightarrow> length (chunks z xs) \<le> k"
proof (induction z xs arbitrary: k rule: chunks.induct)
  case (1 z xs)
  show ?case
  proof (cases "xs = [] \<or> z = 0")
    case True
    then show ?thesis by (subst chunks.simps) auto
  next
    case False
    then obtain j where k: "k = Suc j" using 1(2) by (cases k) auto
    have "length (chunks z (drop z xs)) \<le> j" using 1 False k by auto
    then show ?thesis using False k by (subst chunks.simps) simp
  qed
qed

section \<open>The whole filter\<close>

lemma those_map:
  "(\<And>x. x \<in> set xs \<Longrightarrow> \<exists>y. f x = Some y \<and> P x y) \<Longrightarrow> \<exists>ys. those (map f xs) = Some ys \<and> list_all2 P xs ys"
proof (induction xs)
  case (Cons x xs)
  obtain y where "f x = Some y" "P x y" using Cons.prems by auto
  moreover obtain ys where "those (map f xs) = Some ys" "list_all2 P xs ys" using Cons by auto
  ultimately show ?case by (intro exI [of _ "y # ys"]) simp
qed simp

text \<open>What a subtree has to write for its managers.\<close>

definition filtered :: "('a \<Rightarrow> 'a \<Rightarrow> bool) \<Rightarrow> (nat \<Rightarrow> 'a list) \<Rightarrow> (nat \<times> string) list \<Rightarrow> 'a list \<Rightarrow> bool" where
  "filtered lt outs hosts out = (mset out = mset (concat (map (\<lambda>h. outs (fst h)) hosts)) \<and>
     (weak_order lt \<longrightarrow> (\<forall>m. sorted_wrt (not_worse lt) (outs m)) \<longrightarrow> sorted_wrt (not_worse lt) out))"

lemma filtered_merge:
  assumes "list_all2 (filtered lt outs) cs qs"
  shows "filtered lt outs (concat cs) (merge_queues lt None qs)"
proof -
  have "mset (concat qs) = mset (concat (map (\<lambda>h. outs (fst h)) (concat cs)))"
    using assms by (induction rule: list_all2_induct) (simp_all add: filtered_def)
  moreover have "\<forall>q\<in>set qs. weak_order lt \<longrightarrow> (\<forall>m. sorted_wrt (not_worse lt) (outs m)) \<longrightarrow> sorted_wrt (not_worse lt) q"
    using assms by (induction rule: list_all2_induct) (auto simp: filtered_def)
  ultimately show ?thesis
    using merge_queues_mset [of lt qs] merge_queues_sorted [of lt qs] by (auto simp: filtered_def)
qed

lemma filtered_leaves: "filtered lt outs hosts (merge_queues lt None (map (\<lambda>h. outs (fst h)) hosts))"
  using merge_queues_mset merge_queues_sorted [of lt "map (\<lambda>h. outs (fst h)) hosts"]
  by (auto simp: filtered_def)

lemma filter_aggregator_ends:
  "2 \<le> b \<Longrightarrow> length hosts \<le> d \<Longrightarrow> \<exists>out. filter_aggregator (Suc d) lt b outs hosts = Some out \<and> filtered lt outs hosts out"
proof (induction d arbitrary: hosts)
  case 0
  then show ?case using filtered_leaves [of lt outs "[]"] by simp
next
  case (Suc d)
  let ?cs = "chunks (division_sz (length hosts) b) hosts"
  consider "length hosts = 1" | "length hosts \<noteq> 1" "length hosts \<le> b" | "b < length hosts" by linarith
  then show ?case
  proof cases
    case 1
    then obtain h where "hosts = [h]" by (auto simp: length_Suc_conv)
    then show ?thesis by (cases h) (simp add: filtered_def)
  next
    case 2
    then show ?thesis using filtered_leaves by auto
  next
    case 3
    note z = division_sz_bounds [OF Suc.prems(1) 3]
    have "\<exists>out. filter_aggregator (Suc d) lt b outs c = Some out \<and> filtered lt outs c out" if "c \<in> set ?cs" for c
      using chunks_lengths [OF that] z Suc.prems by (intro Suc.IH) auto
    then obtain qs where qs: "those (map (filter_aggregator (Suc d) lt b outs) ?cs) = Some qs"
        "list_all2 (filtered lt outs) ?cs qs"
      using those_map [of ?cs "filter_aggregator (Suc d) lt b outs" "filtered lt outs"] by blast
    have "filter_aggregator (Suc (Suc d)) lt b outs hosts = Some (merge_queues lt None qs)"
      using 3 Suc.prems qs(1) by (subst filter_aggregator.simps(2)) simp
    then show ?thesis using filtered_merge [OF qs(2)] concat_chunks [OF z(1)] by metis
  qed
qed

lemma mset_concat_map: "mset (concat (map f xs)) = (\<Sum>x\<in>#mset xs. mset (f x))"
  by (induction xs) simp_all

lemma mset_managers_hosts:
  "mset (concat (map (\<lambda>h. outs (fst h)) (managers_hosts node stats))) = mset (concat (map (\<lambda>h. outs (fst h)) stats))"
  by (cases node) (simp_all add: managers_hosts_def mset_concat_map case_prod_beta' image_mset.compositionality comp_def)

lemma length_managers_hosts: "length (managers_hosts node stats) = length stats"
  by (simp add: managers_hosts_def split: option.split)

text \<open>C37: filtering with a branching factor of at least two ends, loses and duplicates no value, and gives the
  values best first when the comparator is a weak order and the filter code writes best first.\<close>

theorem filter_sorts:
  assumes "2 \<le> b" "weak_order lt" "\<forall>m. sorted_wrt (not_worse lt) (outs m)"
  shows "\<exists>out. dd_filter (Suc (length stats)) lt b outs node stats = Some out \<and>
    mset out = mset (concat (map (\<lambda>h. outs (fst h)) stats)) \<and> sorted_wrt (not_worse lt) out"
  using filter_aggregator_ends [OF assms(1), of "managers_hosts node stats" "length stats" lt outs] assms(2,3)
  by (auto simp: dd_filter_def filtered_def length_managers_hosts mset_managers_hosts)

lemma filter_sorts_witness:
  "\<exists>out. dd_filter (Suc (Suc (Suc (Suc 0)))) (<) 2 (\<lambda>m. [m, m + 10]) None [(0, ''b''), (1, ''a''), (2, ''b'')] = Some out \<and>
    mset out = mset [0, 10, 1, 11, 2, 12] \<and> sorted_wrt (\<lambda>x y. \<not> y < x) out"
proof -
  have "weak_order ((<) :: nat \<Rightarrow> nat \<Rightarrow> bool)" by (auto simp: weak_order_def)
  then show ?thesis
    using filter_sorts [of 2 "(<)" "\<lambda>m. [m, m + 10]" "[(0, ''b''), (1, ''a''), (2, ''b'')]" None] by simp
qed

text \<open>An aggregator starts at most as many processes as the branching factor says, each for a part of its
  managers that is not empty, and every manager is in exactly one part.\<close>

lemma aggregator_fanout:
  assumes "2 \<le> b" "b < length hosts"
  shows "length (chunks (division_sz (length hosts) b) hosts) \<le> b \<and>
    concat (chunks (division_sz (length hosts) b) hosts) = hosts \<and>
    (\<forall>c\<in>set (chunks (division_sz (length hosts) b) hosts). c \<noteq> [] \<and> length c < length hosts)"
  using division_sz_bounds [OF assms] length_chunks [of hosts _ b] concat_chunks [of _ hosts]
    chunks_lengths [of _ "division_sz (length hosts) b" hosts] by fastforce

text \<open>C38: with a branching factor of one, two or more managers are never divided: every aggregator starts
  another one for the same managers, and no tree of any depth is enough.\<close>

theorem filter_one_diverges:
  assumes "2 \<le> length stats"
  shows "dd_filter levels lt 1 outs node stats = None"
proof -
  have "filter_aggregator d lt 1 outs hosts = None" if "2 \<le> length hosts" for d and hosts :: "(nat \<times> string) list"
  proof (induction d)
    case (Suc d)
    have "division_sz (length hosts) 1 = length hosts"
      using that by (simp add: division_sz_def num_divisions_def Let_def)
    then have "chunks (division_sz (length hosts) 1) hosts = [hosts]"
      using that by (subst chunks.simps) (auto simp: chunks.simps [of _ "[]"])
    then show ?case using Suc that by simp
  qed simp
  then show ?thesis using assms by (simp add: dd_filter_def length_managers_hosts)
qed

lemma filter_one_diverges_witness:
  "dd_filter 100 (<) 1 (\<lambda>m. [m]) None [(0, ''a''), (1, ''b'')] = None"
  by (rule filter_one_diverges) simp

text \<open>What one end of a sentinel queue puts and closes, the other end reads, in order, and then sees the
  end of the queue.\<close>

lemma sentinel_queue_delivers:
  "map_option (\<lambda>w. map_option fst (read_side (init_properties (q_items w) (q_shutdown w))))
     (write_side xs (init_properties [] False)) = Some (Some (Inr xs))"
proof -
  let ?w = "(init_properties [] False)\<lparr>q_items := [Shutdown], q_putter := True\<rparr> :: 'a sentinel_queue"
  have "put_all xs ?w = (Inr (), ?w\<lparr>q_items := q_items ?w @ map Value xs\<rparr>)"
    by (rule put_all_open) (simp_all add: init_properties_def)
  then show ?thesis
    using get_all_values [of "(init_properties (map Value xs @ [SENTINEL]) False)\<lparr>q_getter := True\<rparr>" xs "[]"]
    by (simp add: write_side_def putter_def sq_close_def read_side_def getter_def init_properties_def)
qed

end
