(* ===== verification/Floats.thy ===== *)
theory Floats
  imports Prelude "HOL-Library.Word"
begin

text \<open>
  Python floats as far as the transport uses them.  A float is its binary64 bit pattern, a
  \<open>64 word\<close>; arithmetic is done exactly on integers, in units of the smallest subnormal number,
  and rounded once to nearest, ties to even, as IEEE 754 prescribes.  \<open>struct\<close>'s format \<open>!f\<close>
  narrows a float to binary32, raising \<open>OverflowError\<close> when a finite value does not fit.
  The theory also holds the big-endian byte strings of \<open>struct\<close>'s integer formats.
\<close>

type_synonym pyfloat = "64 word"
type_synonym byte = "8 word"

section \<open>Rounding\<close>

fun log2 :: "nat \<Rightarrow> nat" where
  "log2 n = (if n < 2 then 0 else Suc (log2 (n div 2)))"

declare log2.simps [simp del]

lemma log2_bounds:
  "0 < n \<Longrightarrow> 2 ^ log2 n \<le> n \<and> n < 2 ^ Suc (log2 n)"
proof (induction n rule: log2.induct)
  case (1 n)
  show ?case
  proof (cases "n < 2")
    case False
    then have "2 ^ log2 (n div 2) \<le> n div 2 \<and> n div 2 < 2 ^ Suc (log2 (n div 2))"
      using "1.IH" by simp
    moreover have "log2 n = Suc (log2 (n div 2))"
      using False by (simp add: log2.simps [of n])
    ultimately show ?thesis by auto
  qed (use "1.prems" in \<open>simp add: log2.simps [of n]\<close>)
qed

lemma log2_unique:
  assumes "2 ^ k \<le> n" "n < 2 ^ Suc k"
  shows "log2 n = k"
proof -
  have p: "0 < n" using assms(1) by (metis gr0I not_less zero_less_numeral zero_less_power)
  have "log2 n < Suc k"
    by (rule power_less_imp_less_exp [of "2 :: nat"]) (use log2_bounds [OF p] assms(2) in auto)
  moreover have "k < Suc (log2 n)"
    by (rule power_less_imp_less_exp [of "2 :: nat"]) (use log2_bounds [OF p] assms(1) in auto)
  ultimately show ?thesis by simp
qed

text \<open>\<open>n / 2 ^ k\<close> rounded to the nearest integer, ties to the even one.\<close>

definition round_half_even :: "nat \<Rightarrow> nat \<Rightarrow> nat" where
  "round_half_even n k =
     (let q = n div 2 ^ k; r = n mod 2 ^ k in
      if 2 ^ k < 2 * r \<or> (2 * r = 2 ^ k \<and> odd q) then q + 1 else q)"

lemma round_half_even_exact [simp]: "round_half_even (n * 2 ^ k) k = n"
  by (simp add: round_half_even_def)

lemma round_half_even_nearest:
  "2 * (int n - int (round_half_even n k) * 2 ^ k) \<le> 2 ^ k \<and>
   - (2 ^ k) \<le> 2 * (int n - int (round_half_even n k) * 2 ^ k)"
proof -
  define q r where "q = n div 2 ^ k" and "r = n mod 2 ^ k"
  have n: "int n = int q * 2 ^ k + int r"
    by (metis q_def r_def div_mult_mod_eq of_nat_add of_nat_mult of_nat_numeral of_nat_power)
  have r: "r < 2 ^ k" by (simp add: r_def)
  have e: "int n - int (q + 1) * 2 ^ k = int r - 2 ^ k"
    unfolding n by (simp add: algebra_simps)
  have r': "int r < 2 ^ k" using r
    by (metis of_nat_less_iff of_nat_numeral of_nat_power)
  show ?thesis
  proof (cases "2 ^ k < 2 * r \<or> (2 * r = 2 ^ k \<and> odd q)")
    case True
    then have "2 ^ k \<le> 2 * int r"
      by (metis le_less of_nat_less_iff of_nat_mult of_nat_numeral of_nat_power)
    moreover have "round_half_even n k = q + 1"
      using True by (simp add: round_half_even_def q_def r_def)
    moreover have "0 \<le> (2 :: int) ^ k" by simp
    ultimately show ?thesis using r' by (simp only: e) presburger
  next
    case False
    then have "2 * int r \<le> 2 ^ k"
      by (metis not_less of_nat_le_iff of_nat_mult of_nat_numeral of_nat_power)
    moreover have "round_half_even n k = q"
      using False by (auto simp: round_half_even_def q_def r_def)
    ultimately show ?thesis by (simp add: n)
  qed
qed

section \<open>Magnitudes\<close>

text \<open>
  A magnitude with \<open>m\<close> mantissa bits: the exponent field is what stands above them.  The value
  is in units of the smallest subnormal.  \<open>encode_mag m s n\<close> is the magnitude nearest to
  \<open>n / 2 ^ s\<close> of these units.
\<close>

definition decode_mag :: "nat \<Rightarrow> nat \<Rightarrow> nat" where
  "decode_mag m p =
     (let e = p div 2 ^ m; f = p mod 2 ^ m in
      if e = 0 then f else (2 ^ m + f) * 2 ^ (e - 1))"

definition encode_mag :: "nat \<Rightarrow> nat \<Rightarrow> nat \<Rightarrow> nat" where
  "encode_mag m s n =
     (let k = log2 n in
      if k \<le> m + s then round_half_even n s
      else (k - m - s) * 2 ^ m + round_half_even n (k - m))"

lemma encode_decode_mag [simp]: "encode_mag m s (decode_mag m p * 2 ^ s) = p"
proof -
  define e f where "e = p div 2 ^ m" and "f = p mod 2 ^ m"
  have p: "p = e * 2 ^ m + f" unfolding e_def f_def by (rule div_mult_mod_eq [symmetric])
  have f: "f < 2 ^ m" by (simp add: f_def)
  show ?thesis
  proof (cases "e = 0")
    case True
    have "log2 (f * 2 ^ s) \<le> m + s"
    proof (cases "f = 0")
      case False
      then have "2 ^ log2 (f * 2 ^ s) \<le> f * 2 ^ s"
        using log2_bounds by simp
      also have "\<dots> < 2 ^ (m + s)" using f by (simp add: power_add)
      finally show ?thesis by (metis less_imp_le one_less_numeral_iff power_less_imp_less_exp semiring_norm(76))
    qed (simp add: log2.simps)
    moreover have "decode_mag m p = f"
      using True by (simp add: decode_mag_def e_def f_def)
    ultimately show ?thesis
      using True p by (simp add: encode_mag_def)
  next
    case False
    then obtain d where d: "e = Suc d" by (cases e) auto
    define n where "n = (2 ^ m + f) * 2 ^ (d + s)"
    have "decode_mag m p * 2 ^ s = n"
      by (simp add: n_def decode_mag_def d power_add flip: e_def f_def)
    moreover have "log2 n = m + (d + s)"
      unfolding n_def by (rule log2_unique) (use f in \<open>simp_all add: power_add algebra_simps\<close>)
    moreover have "round_half_even n (d + s) = 2 ^ m + f"
      unfolding n_def by (rule round_half_even_exact)
    ultimately show ?thesis
      by (cases "d = 0") (auto simp: encode_mag_def p d)
  qed
qed

section \<open>Floats\<close>

text \<open>
  Sign and magnitude of a pattern.  A magnitude of \<open>inf64\<close> is infinity, above it are the NaNs.
\<close>

definition inf64 :: nat where "inf64 = 2047 * 2 ^ 52"
definition inf32 :: nat where "inf32 = 255 * 2 ^ 23"

definition negative :: "pyfloat \<Rightarrow> bool" where
  "negative x \<longleftrightarrow> 2 ^ 63 \<le> unat x"

definition mag :: "pyfloat \<Rightarrow> nat" where
  "mag x = unat x mod 2 ^ 63"

definition mk_float :: "bool \<Rightarrow> nat \<Rightarrow> pyfloat" where
  "mk_float s m = word_of_nat ((if s then 2 ^ 63 else 0) + m)"

definition is_nan :: "pyfloat \<Rightarrow> bool" where
  "is_nan x \<longleftrightarrow> inf64 < mag x"

definition py_inf :: pyfloat where "py_inf = mk_float False inf64"
definition py_zero :: pyfloat where "py_zero = 0"

text \<open>Rounding to binary64: a result beyond the largest finite number is infinity.\<close>

definition round64 :: "nat \<Rightarrow> nat" where
  "round64 n = min (encode_mag 52 0 n) inf64"

text \<open>\<open>x + y\<close> and \<open>max(x - y, 0.0)\<close> on floats that are not negative.\<close>

definition float_add :: "pyfloat \<Rightarrow> pyfloat \<Rightarrow> pyfloat" where
  "float_add x y =
     (if is_nan x then x else if is_nan y then y
      else if mag x = inf64 \<or> mag y = inf64 then py_inf
      else mk_float False (round64 (decode_mag 52 (mag x) + decode_mag 52 (mag y))))"

definition float_sub_max0 :: "pyfloat \<Rightarrow> pyfloat \<Rightarrow> pyfloat" where
  "float_sub_max0 x y =
     (if is_nan x then x
      else if negative x \<or> mag x \<le> mag y then py_zero
      else mk_float False (round64 (decode_mag 52 (mag x) - decode_mag 52 (mag y))))"

section \<open>The struct formats\<close>

text \<open>Big-endian unsigned integers: the formats \<open>!B\<close>, \<open>!H\<close>, \<open>!L\<close> and \<open>!Q\<close>.\<close>

fun be_bytes :: "nat \<Rightarrow> nat \<Rightarrow> byte list" where
  "be_bytes 0 n = []"
| "be_bytes (Suc k) n = be_bytes k (n div 256) @ [word_of_nat n]"

definition be_nat :: "byte list \<Rightarrow> nat" where
  "be_nat bs = foldl (\<lambda>a b. a * 256 + unat b) 0 bs"

text \<open>The format \<open>!f\<close>: \<open>None\<close> is \<open>OverflowError\<close>.  A NaN keeps the top of its payload.\<close>

definition narrow_mag :: "nat \<Rightarrow> nat option" where
  "narrow_mag m =
     (if inf64 < m then Some (inf32 + (m - inf64) div 2 ^ 29 mod 2 ^ 22 + 2 ^ 22)
      else if m = inf64 then Some inf32
      else (let r = encode_mag 23 925 (decode_mag 52 m) in if inf32 \<le> r then None else Some r))"

definition widen_mag :: "nat \<Rightarrow> nat" where
  "widen_mag m =
     (if inf32 < m then inf64 + (m - inf32) mod 2 ^ 22 * 2 ^ 29 + 2 ^ 51
      else if m = inf32 then inf64
      else encode_mag 52 0 (decode_mag 23 m * 2 ^ 925))"

definition pack_f :: "pyfloat \<Rightarrow> byte list option" where
  "pack_f x = map_option (\<lambda>m. be_bytes 4 ((if negative x then 2 ^ 31 else 0) + m)) (narrow_mag (mag x))"

definition unpack_f :: "byte list \<Rightarrow> pyfloat" where
  "unpack_f bs = (let n = be_nat bs in mk_float (2 ^ 31 \<le> n) (widen_mag (n mod 2 ^ 31)))"


section \<open>Round trips\<close>

lemma length_be_bytes [simp]: "length (be_bytes k n) = k"
  by (induction k arbitrary: n) simp_all

lemma be_nat_snoc: "be_nat (bs @ [b]) = be_nat bs * 256 + unat b"
  by (simp add: be_nat_def)

lemma unat_byte: "unat (word_of_nat n :: byte) = n mod 256"
  by (simp add: unat_of_nat)

lemma be_nat_be_bytes: "be_nat (be_bytes k n) = n mod 256 ^ k"
proof (induction k arbitrary: n)
  case (Suc k)
  have "n mod 256 ^ Suc k = 256 * (n div 256 mod 256 ^ k) + n mod 256"
    by (simp add: mod_mult2_eq)
  then show ?case by (simp add: be_nat_snoc Suc.IH unat_byte)
qed (simp add: be_nat_def)

lemma unat_byte_less: "unat (b :: byte) < 256"
proof -
  have "unat b < 2 ^ LENGTH(8)" by (rule unsigned_less)
  then show ?thesis by simp
qed

lemma be_nat_bound: "be_nat bs < 256 ^ length bs"
proof (induction bs rule: rev_induct)
  case (snoc b bs)
  show ?case using snoc unat_byte_less [of b] by (simp add: be_nat_snoc)
qed (simp add: be_nat_def)

lemma be_bytes_be_nat: "be_bytes (length bs) (be_nat bs) = bs"
proof (induction bs rule: rev_induct)
  case (snoc b bs)
  have "(be_nat bs * 256 + unat b) div 256 = be_nat bs"
    using unat_byte_less [of b] by simp
  moreover have "(word_of_nat (be_nat bs * 256 + unat b) :: byte) = b"
    by (rule word_unat_eq_iff [THEN iffD2]) (use unat_byte_less [of b] in \<open>simp only: unat_byte; simp\<close>)
  ultimately show ?case by (simp only: be_nat_snoc length_append_singleton be_bytes.simps snoc.IH)
qed (simp add: be_nat_def)

lemma unat_mk_float:
  "m < 2 ^ 63 \<Longrightarrow> unat (mk_float s m) = (if s then 2 ^ 63 else 0) + m"
  unfolding mk_float_def unat_of_nat by (cases s) simp_all

lemma mk_float_parts [simp]:
  assumes "m < 2 ^ 63"
  shows "mag (mk_float s m) = m" "negative (mk_float s m) = s"
  using assms by (simp_all add: mag_def negative_def unat_mk_float)

lemma mk_float_mag [simp]: "mk_float (negative x) (mag x) = x"
proof -
  have "unat x < 2 ^ LENGTH(64)" by (rule unsigned_less)
  then have b: "unat x < 2 ^ 64" by simp
  have "(if 2 ^ 63 \<le> unat x then 2 ^ 63 else 0) + unat x mod 2 ^ 63 = unat x"
  proof (cases "2 ^ 63 \<le> unat x")
    case True
    then have "unat x mod 2 ^ 63 = unat x - 2 ^ 63"
      using b by (subst le_mod_geq) simp_all
    then show ?thesis using True by simp
  qed simp
  then have "mk_float (negative x) (mag x) = word_of_nat (unat x)"
    unfolding mk_float_def negative_def mag_def by (simp only:)
  then show ?thesis by simp
qed

lemma decode_mag_scale:
  "e \<noteq> 0 \<Longrightarrow> f < 2 ^ m \<Longrightarrow> decode_mag m (e * 2 ^ m + f) = (2 ^ m + f) * 2 ^ (e - 1)"
  by (simp add: decode_mag_def)

text \<open>What the mantissa can hold is encoded exactly.\<close>

lemma decode_encode_mag:
  assumes a: "a < 2 ^ Suc m"
  shows "decode_mag m (encode_mag m 0 (a * 2 ^ j)) = a * 2 ^ j"
proof (cases "log2 (a * 2 ^ j) \<le> m")
  case True
  define n where "n = a * 2 ^ j"
  have n: "n < 2 ^ Suc m"
  proof (cases "n = 0")
    case False
    then have "n < 2 ^ Suc (log2 n)" using log2_bounds by simp
    also have "\<dots> \<le> 2 ^ Suc m" using True by (simp add: n_def)
    finally show ?thesis .
  qed simp
  have "decode_mag m n = n"
  proof (cases "n < 2 ^ m")
    case False
    then have "decode_mag m (1 * 2 ^ m + (n - 2 ^ m)) = n"
      using n by (subst decode_mag_scale) simp_all
    then show ?thesis using False by simp
  qed (simp add: decode_mag_def)
  moreover have "encode_mag m 0 n = n"
    using True round_half_even_exact [of n 0] by (simp add: encode_mag_def n_def)
  ultimately show ?thesis by (simp add: n_def)
next
  case False
  define n k where "n = a * 2 ^ j" and "k = log2 n"
  have km: "m < k" using False by (simp add: k_def n_def)
  have "n \<noteq> 0" using km by (cases "n = 0") (simp_all add: k_def log2.simps [of 0])
  then have k: "2 ^ k \<le> n" "n < 2 ^ Suc k" using log2_bounds by (simp_all add: k_def)
  have "2 ^ k < (2 :: nat) ^ (Suc m + j)"
    using k(1) a by (simp add: n_def power_add) (metis le_less_trans mult_less_cancel2 zero_less_numeral zero_less_power mult.assoc)
  then have "k - m \<le> j" using power_less_imp_less_exp [of "2 :: nat" k "Suc m + j"] by simp
  then have "2 ^ (k - m) dvd n" by (simp add: n_def le_imp_power_dvd)
  then obtain g where g: "n = g * 2 ^ (k - m)" by (metis dvd_def mult.commute)
  have kk: "(2 :: nat) ^ k = 2 ^ m * 2 ^ (k - m)" using km by (simp flip: power_add)
  have gb: "2 ^ m \<le> g" "g < 2 ^ Suc m"
    using k by (simp_all add: g kk)
  have "round_half_even n (k - m) = g" unfolding g by (rule round_half_even_exact)
  then have "encode_mag m 0 n = (k - m) * 2 ^ m + g"
    using km by (simp add: encode_mag_def Let_def flip: k_def)
  also have "\<dots> = Suc (k - m) * 2 ^ m + (g - 2 ^ m)" using gb by simp
  finally have "decode_mag m (encode_mag m 0 n) = (2 ^ m + (g - 2 ^ m)) * 2 ^ (k - m)"
    using gb decode_mag_scale [of "Suc (k - m)" "g - 2 ^ m" m] by simp
  then show ?thesis using gb by (simp add: g flip: n_def)
qed

lemma decode_mag_cases:
  "\<exists>a j. a < 2 ^ Suc m \<and> decode_mag m p = a * 2 ^ j"
proof (cases "p div 2 ^ m = 0")
  case True
  then show ?thesis by (intro exI [of _ "p mod 2 ^ m"] exI [of _ 0])
    (simp add: decode_mag_def less_imp_le order.strict_trans1 [of _ "2 ^ m"])
next
  case False
  then show ?thesis by (intro exI [of _ "2 ^ m + p mod 2 ^ m"] exI [of _ "p div 2 ^ m - 1"])
    (simp add: decode_mag_def)
qed

lemma decode_widen:
  "decode_mag 52 (encode_mag 52 0 (decode_mag 23 m * 2 ^ 925)) = decode_mag 23 m * 2 ^ 925"
proof -
  obtain a j where "a < 2 ^ Suc 23" "decode_mag 23 m = a * 2 ^ j"
    using decode_mag_cases [of 23 m] by blast
  then show ?thesis
    using decode_encode_mag [of a 52 "j + 925"] by (simp add: power_add mult.assoc)
qed

lemma decode_mag_ge:
  assumes "Suc E * 2 ^ m \<le> p"
  shows "2 ^ (m + E) \<le> decode_mag m p"
proof -
  have "Suc E \<le> p div 2 ^ m"
    using div_le_mono [OF assms, of "2 ^ m"] by simp
  then obtain d where d: "p div 2 ^ m = Suc d" "E \<le> d" by (metis Suc_le_D Suc_le_mono)
  have "(2 :: nat) ^ (m + E) \<le> (2 ^ m + p mod 2 ^ m) * 2 ^ d"
    using d(2) by (simp add: power_add mult_le_mono)
  then show ?thesis by (simp add: decode_mag_def d(1))
qed

lemma decode_mag_lt:
  assumes "p < Suc E * 2 ^ m"
  shows "decode_mag m p < 2 ^ (m + E)"
proof (cases "p div 2 ^ m")
  case 0
  then have "decode_mag m p < 2 ^ m" by (simp add: decode_mag_def)
  also have "(2 :: nat) ^ m \<le> 2 ^ (m + E)" by simp
  finally show ?thesis .
next
  case (Suc d)
  have "p div 2 ^ m < Suc E" using assms by (simp add: less_mult_imp_div_less)
  then have d: "Suc d \<le> E" using Suc by simp
  have "decode_mag m p = (2 ^ m + p mod 2 ^ m) * 2 ^ d" by (simp add: decode_mag_def Suc)
  also have "\<dots> < 2 ^ Suc m * 2 ^ d" by simp
  also have "\<dots> = 2 ^ (m + Suc d)" by (simp add: power_add)
  also have "\<dots> \<le> 2 ^ (m + E)" using d by (intro power_increasing) simp_all
  finally show ?thesis .
qed

lemma widen_finite:
  assumes "m < inf32"
  shows "encode_mag 52 0 (decode_mag 23 m * 2 ^ 925) < inf64"
proof (rule ccontr)
  assume "\<not> encode_mag 52 0 (decode_mag 23 m * 2 ^ 925) < inf64"
  then have "2 ^ (52 + 2046) \<le> decode_mag 52 (encode_mag 52 0 (decode_mag 23 m * 2 ^ 925))"
    by (intro decode_mag_ge) (simp add: inf64_def)
  then have "2 ^ (52 + 2046) \<le> decode_mag 23 m * 2 ^ 925" by (simp only: decode_widen)
  moreover have "decode_mag 23 m < 2 ^ (23 + 254)"
    using assms by (intro decode_mag_lt) (simp add: inf32_def)
  then have "decode_mag 23 m * 2 ^ 925 < 2 ^ (23 + 254) * 2 ^ 925" by simp
  moreover have "(2 :: nat) ^ (23 + 254) * 2 ^ 925 < 2 ^ (52 + 2046)"
    by (simp only: flip: power_add) (rule power_strict_increasing; simp)
  ultimately show False by linarith
qed

lemma narrow_widen:
  assumes "m \<le> inf32"
  shows "narrow_mag (widen_mag m) = Some m" and "widen_mag m \<le> inf64"
proof -
  have "encode_mag 23 925 (decode_mag 52 (encode_mag 52 0 (decode_mag 23 m * 2 ^ 925))) = m"
    by (simp only: decode_widen encode_decode_mag)
  then show "narrow_mag (widen_mag m) = Some m"
    using widen_finite [of m] assms by (auto simp: narrow_mag_def widen_mag_def Let_def)
  show "widen_mag m \<le> inf64"
    using widen_finite [of m] assms by (auto simp: widen_mag_def)
qed

text \<open>
  What \<open>!f\<close> unpacks, unless it is a NaN, \<open>!f\<close> packs into the same bytes; so packing again what
  was packed and unpacked changes nothing.
\<close>

definition nan_bytes :: "byte list \<Rightarrow> bool" where
  "nan_bytes bs \<longleftrightarrow> inf32 < be_nat bs mod 2 ^ 31"

lemma pack_unpack_f:
  assumes "length bs = 4" "\<not> nan_bytes bs"
  shows "pack_f (unpack_f bs) = Some bs"
proof -
  define n where "n = be_nat bs"
  have nb: "n < 2 ^ 32" using be_nat_bound [of bs] assms(1) by (simp add: n_def)
  have m: "n mod 2 ^ 31 \<le> inf32" using assms(2) by (simp add: nan_bytes_def n_def)
  have w: "widen_mag (n mod 2 ^ 31) < 2 ^ 63"
    using narrow_widen(2) [OF m] by (simp add: inf64_def)
  have n: "(if 2 ^ 31 \<le> n then 2 ^ 31 else 0) + n mod 2 ^ 31 = n"
  proof (cases "2 ^ 31 \<le> n")
    case True
    then have "n mod 2 ^ 31 = n - 2 ^ 31" using nb by (subst le_mod_geq) simp_all
    then show ?thesis using True by simp
  qed simp
  have "be_bytes 4 n = bs"
    using be_bytes_be_nat [of bs] assms(1) by (simp add: n_def)
  moreover have "mag (unpack_f bs) = widen_mag (n mod 2 ^ 31)" "negative (unpack_f bs) = (2 ^ 31 \<le> n)"
    unfolding unpack_f_def Let_def n_def [symmetric] by (simp_all only: mk_float_parts [OF w])
  ultimately show ?thesis
    by (simp only: pack_f_def narrow_widen(1) [OF m] option.map n)
qed

end
