(* ===== verification/Wire.thy ===== *)
theory Wire
  imports Floats
begin

text \<open>
  The wire format of the TCP transport: \<open>transport/tcp/io.py\<close> and \<open>transport/tcp/messages.py\<close>.
  A stream is the list of bytes it still holds: a reader takes bytes from its front, a writer
  appends to its end.  Both are methods of \<^theory_text>\<open>Prelude\<close>: a raise keeps what was read or
  written before it.  The last section shows that what a writer wrote a reader reads back.
\<close>

type_synonym bytes = "byte list"
type_synonym 'a reader = "(bytes, 'a) pym"
type_synonym writer = "(bytes, unit) pym"

section \<open>Streams\<close>

text \<open>
  \<open>StreamReader.readexactly\<close>: at the end of the stream it raises \<open>IncompleteReadError\<close> and the
  bytes that were left are gone.
\<close>

definition readexactly :: "nat \<Rightarrow> bytes reader" where
  "readexactly n = (\<lambda>bs. if length bs < n then (Inl IncompleteReadError, [])
                          else (Inr (take n bs), drop n bs))"

definition stream_write :: "bytes \<Rightarrow> writer" where
  "stream_write data = modify (\<lambda>out. out @ data)"

section \<open>UTF-8\<close>

text \<open>A Python string is the list of its code points.\<close>

type_synonym pystr = "nat list"

definition cont_byte :: "nat \<Rightarrow> byte" where
  "cont_byte n = word_of_nat (128 + n mod 64)"

definition lead_byte :: "nat \<Rightarrow> byte" where
  "lead_byte n = word_of_nat n"

definition is_cont :: "byte \<Rightarrow> bool" where
  "is_cont b \<longleftrightarrow> 128 \<le> unat b \<and> unat b < 192"

definition surrogate :: "nat \<Rightarrow> bool" where
  "surrogate c \<longleftrightarrow> 55296 \<le> c \<and> c < 57344"

definition utf8_char :: "nat \<Rightarrow> bytes option" where
  "utf8_char c =
     (if c < 128 then Some [lead_byte c]
      else if c < 2048 then Some [lead_byte (192 + c div 64), cont_byte c]
      else if surrogate c then None
      else if c < 65536 then
        Some [lead_byte (224 + c div 4096), cont_byte (c div 64), cont_byte c]
      else if c < 1114112 then
        Some [lead_byte (240 + c div 262144), cont_byte (c div 4096), cont_byte (c div 64), cont_byte c]
      else None)"

fun utf8_encode :: "pystr \<Rightarrow> bytes option" where
  "utf8_encode [] = Some []"
| "utf8_encode (c # cs) =
     (case utf8_char c of None \<Rightarrow> None
      | Some bs \<Rightarrow> map_option (\<lambda>rest. bs @ rest) (utf8_encode cs))"

text \<open>The strict decoder: no overlong forms, no surrogates, nothing above \<open>U+10FFFF\<close>.\<close>

fun utf8_step :: "bytes \<Rightarrow> (nat \<times> bytes) option" where
  "utf8_step [] = None"
| "utf8_step (b # bs) =
     (let n = unat b in
      if n < 128 then Some (n, bs)
      else if 194 \<le> n \<and> n < 224 then
        (case bs of b1 # r \<Rightarrow>
           if is_cont b1 then Some ((n - 192) * 64 + (unat b1 - 128), r) else None
         | _ \<Rightarrow> None)
      else if 224 \<le> n \<and> n < 240 then
        (case bs of b1 # b2 # r \<Rightarrow>
           (let c = (n - 224) * 4096 + (unat b1 - 128) * 64 + (unat b2 - 128) in
            if is_cont b1 \<and> is_cont b2 \<and> 2048 \<le> c \<and> \<not> surrogate c then Some (c, r) else None)
         | _ \<Rightarrow> None)
      else if 240 \<le> n \<and> n < 245 then
        (case bs of b1 # b2 # b3 # r \<Rightarrow>
           (let c = (n - 240) * 262144 + (unat b1 - 128) * 4096 + (unat b2 - 128) * 64 + (unat b3 - 128) in
            if is_cont b1 \<and> is_cont b2 \<and> is_cont b3 \<and> 65536 \<le> c \<and> c < 1114112 then Some (c, r) else None)
         | _ \<Rightarrow> None)
      else None)"

lemma utf8_step_shorter: "utf8_step bs = Some (c, r) \<Longrightarrow> length r < length bs"
  by (cases bs) (auto simp: Let_def split: if_splits list.splits)

function utf8_decode :: "bytes \<Rightarrow> pystr option" where
  "utf8_decode bs =
     (if bs = [] then Some []
      else case utf8_step bs of None \<Rightarrow> None
           | Some (c, r) \<Rightarrow> map_option (\<lambda>cs. c # cs) (utf8_decode r))"
  by pat_completeness auto

termination utf8_decode
  by (relation "measure length") (auto dest: utf8_step_shorter)

declare utf8_decode.simps [simp del]

lemma unat_cont_byte [simp]: "unat (cont_byte n) = 128 + n mod 64"
proof -
  have "128 + n mod 64 < (256 :: nat)" using mod_less_divisor [of 64 n] by linarith
  then show ?thesis unfolding cont_byte_def unat_byte by simp
qed

lemma is_cont_cont_byte [simp]: "is_cont (cont_byte n)"
  using mod_less_divisor [of 64 n] by (simp add: is_cont_def)

lemma cont_byte_value [simp]: "unat (cont_byte n) - 128 = n mod 64"
  by simp

lemma unat_lead [simp]: "n < 256 \<Longrightarrow> unat (lead_byte n) = n"
  by (simp add: lead_byte_def unat_byte)

lemma utf8_step_char:
  assumes "utf8_char c = Some bs"
  shows "utf8_step (bs @ r) = Some (c, r)"
proof -
  have two: "c div 64 * 64 + c mod 64 = c" by simp
  have t: "c div 4096 * 64 + c div 64 mod 64 = c div 64"
    using div_mult_mod_eq [of "c div 64" 64] by (simp add: div_mult2_eq [of c 64 64, simplified])
  have f: "c div 262144 * 64 + c div 4096 mod 64 = c div 4096"
    using div_mult_mod_eq [of "c div 4096" 64] by (simp add: div_mult2_eq [of c 4096 64, simplified])
  have three: "c div 4096 * 4096 + c div 64 mod 64 * 64 + c mod 64 = c"
    using two t by linarith
  have four: "c div 262144 * 262144 + c div 4096 mod 64 * 4096 + c div 64 mod 64 * 64 + c mod 64 = c"
    using two t f by linarith
  consider "c < 128" | "128 \<le> c" "c < 2048" | "2048 \<le> c" "c < 65536" "\<not> surrogate c"
    | "65536 \<le> c" "c < 1114112" "\<not> surrogate c"
    using assms by (fastforce simp: utf8_char_def split: if_splits)
  then show ?thesis
  proof cases
    case 1
    then show ?thesis using assms by (auto simp: utf8_char_def)
  next
    case 2
    then have "c div 64 < 32" "2 \<le> c div 64" by simp_all
    then show ?thesis using 2 assms two by (auto simp: utf8_char_def Let_def)
  next
    case 3
    then have "c div 4096 < 16" by simp
    then show ?thesis using 3 assms three by (auto simp: utf8_char_def Let_def)
  next
    case 4
    then have "c div 262144 < 5" by simp
    then show ?thesis using 4 assms four by (auto simp: utf8_char_def Let_def)
  qed
qed

lemma utf8_char_nonempty: "utf8_char c = Some bs \<Longrightarrow> bs \<noteq> []"
  by (auto simp: utf8_char_def split: if_splits)

lemma utf8_round_trip: "utf8_encode cs = Some bs \<Longrightarrow> utf8_decode bs = Some cs"
proof (induction cs arbitrary: bs)
  case (Cons c cs)
  then obtain b r where b: "utf8_char c = Some b" "utf8_encode cs = Some r" "bs = b @ r"
    by (auto split: option.splits)
  then show ?case
    using Cons.IH [OF b(2)] utf8_char_nonempty [OF b(1)] utf8_step_char [OF b(1)]
    by (subst utf8_decode.simps) simp
qed (simp add: utf8_decode.simps)

section \<open>The IO classes\<close>

datatype send_return_mode = IMMEDIATELY | WHEN_BUFFERED | WHEN_DEPOSITED | WHEN_RECEIVED

fun mode_value :: "send_return_mode \<Rightarrow> nat" where
  "mode_value IMMEDIATELY = 1"
| "mode_value WHEN_BUFFERED = 2"
| "mode_value WHEN_DEPOSITED = 3"
| "mode_value WHEN_RECEIVED = 4"

definition send_return_modes :: "send_return_mode list" where
  "send_return_modes = [IMMEDIATELY, WHEN_BUFFERED, WHEN_DEPOSITED, WHEN_RECEIVED]"

text \<open>\<open>SendReturnMode(n)\<close> raises \<open>ValueError\<close> for a number that no member has.\<close>

definition mode_of_value :: "nat \<Rightarrow> send_return_mode res" where
  "mode_of_value n =
     (case find (\<lambda>m. mode_value m = n) send_return_modes of Some m \<Rightarrow> Inr m | None \<Rightarrow> Inl ValueError)"

datatype ipaddr = IPv4Address "32 word" | IPv6Address "128 word"

fun ip_packed :: "ipaddr \<Rightarrow> bytes" where
  "ip_packed (IPv4Address w) = be_bytes 4 (unat w)"
| "ip_packed (IPv6Address w) = be_bytes 16 (unat w)"

text \<open>\<open>ip_address\<close> on packed bytes decides by their number.\<close>

definition ip_address :: "bytes \<Rightarrow> ipaddr res" where
  "ip_address bs =
     (if length bs = 4 then Inr (IPv4Address (word_of_nat (be_nat bs)))
      else if length bs = 16 then Inr (IPv6Address (word_of_nat (be_nat bs)))
      else Inl ValueError)"

text \<open>
  A payload is bytes, or a \<open>Payload\<close> around the gateway message that holds them: a request is
  created with a \<open>Payload\<close> and read from a stream with bytes.
\<close>

datatype payload = Payload bytes | PayloadBytes bytes

fun payload_data :: "payload \<Rightarrow> bytes" where
  "payload_data (Payload bs) = bs"
| "payload_data (PayloadBytes bs) = bs"

text \<open>The values of message attributes; \<open>VNone\<close> is a sequence number that is not set yet.\<close>

datatype pyval = VNone | VInt int | VFloat pyfloat | VBytes bytes | VPayload payload | VStr pystr
  | VUUID "128 word" | VIP ipaddr | VMode send_return_mode

datatype fmt = FmtB | FmtH | FmtL | FmtQ

fun fmt_size :: "fmt \<Rightarrow> nat" where
  "fmt_size FmtB = 1"
| "fmt_size FmtH = 2"
| "fmt_size FmtL = 4"
| "fmt_size FmtQ = 8"

datatype io = StructIO fmt | StructFloatIO | VariableBytesIO fmt | PayloadBytesIO fmt
  | VariableTextIO fmt | UUIDBytesIO | IPv4AddressIO | IPv6AddressIO | EnumIO fmt

text \<open>The format \<open>EnumIO\<close> chooses for a largest member.\<close>

definition enum_format :: "nat \<Rightarrow> fmt res" where
  "enum_format mx =
     (if mx < 2 ^ 8 then Inr FmtB else if mx < 2 ^ 16 then Inr FmtH
      else if mx < 2 ^ 32 then Inr FmtL else if mx < 2 ^ 64 then Inr FmtQ
      else Inl ValueError)"

text \<open>\<open>FixedBytesIO.write\<close> asserts the size of what it writes.\<close>

definition fixed_write :: "nat \<Rightarrow> bytes \<Rightarrow> writer" where
  "fixed_write sz data =
     (if length data \<noteq> sz then raise AssertionError else stream_write data)"

definition struct_write :: "fmt \<Rightarrow> int \<Rightarrow> writer" where
  "struct_write f n =
     (if n < 0 \<or> 256 ^ fmt_size f \<le> n then raise StructError
      else fixed_write (fmt_size f) (be_bytes (fmt_size f) (nat n)))"

definition struct_read :: "fmt \<Rightarrow> nat reader" where
  "struct_read f = bnd (readexactly (fmt_size f)) (\<lambda>bs. ret (be_nat bs))"

definition var_write :: "fmt \<Rightarrow> bytes \<Rightarrow> writer" where
  "var_write f data = sq (struct_write f (int (length data))) (stream_write data)"

definition var_read :: "fmt \<Rightarrow> bytes reader" where
  "var_read f = bnd (struct_read f) readexactly"

text \<open>
  \<open>io.write(writer, value)\<close>.  \<open>PayloadBytesIO\<close> takes the length of its argument before it asks
  for \<open>.data\<close>, which bytes do not have.  An attribute of the wrong type raises: \<open>struct.error\<close>
  where it is packed, \<open>TypeError\<close> or \<open>AttributeError\<close> otherwise.
\<close>

fun io_write :: "io \<Rightarrow> pyval \<Rightarrow> writer" where
  "io_write (StructIO f) (VInt n) = struct_write f n"
| "io_write (StructIO f) _ = raise StructError"
| "io_write StructFloatIO (VFloat x) =
     (case pack_f x of None \<Rightarrow> raise OverflowError | Some bs \<Rightarrow> fixed_write 4 bs)"
| "io_write StructFloatIO _ = raise StructError"
| "io_write (VariableBytesIO f) (VBytes bs) = var_write f bs"
| "io_write (VariableBytesIO f) _ = raise TypeError"
| "io_write (PayloadBytesIO f) (VPayload (Payload bs)) = var_write f bs"
| "io_write (PayloadBytesIO f) (VPayload (PayloadBytes bs)) =
     sq (struct_write f (int (length bs))) (raise AttributeError)"
| "io_write (PayloadBytesIO f) _ = raise TypeError"
| "io_write (VariableTextIO f) (VStr cs) =
     (case utf8_encode cs of None \<Rightarrow> raise UnicodeError | Some bs \<Rightarrow> var_write f bs)"
| "io_write (VariableTextIO f) _ = raise AttributeError"
| "io_write UUIDBytesIO (VUUID u) = fixed_write 16 (be_bytes 16 (unat u))"
| "io_write UUIDBytesIO _ = raise AttributeError"
| "io_write IPv4AddressIO (VIP a) = fixed_write 4 (ip_packed a)"
| "io_write IPv4AddressIO _ = raise AttributeError"
| "io_write IPv6AddressIO (VIP a) = fixed_write 16 (ip_packed a)"
| "io_write IPv6AddressIO _ = raise AttributeError"
| "io_write (EnumIO f) (VMode m) = struct_write f (int (mode_value m))"
| "io_write (EnumIO f) _ = raise AttributeError"

fun io_read :: "io \<Rightarrow> pyval reader" where
  "io_read (StructIO f) = bnd (struct_read f) (\<lambda>n. ret (VInt (int n)))"
| "io_read StructFloatIO = bnd (readexactly 4) (\<lambda>bs. ret (VFloat (unpack_f bs)))"
| "io_read (VariableBytesIO f) = bnd (var_read f) (\<lambda>bs. ret (VBytes bs))"
| "io_read (PayloadBytesIO f) = bnd (var_read f) (\<lambda>bs. ret (VPayload (PayloadBytes bs)))"
| "io_read (VariableTextIO f) = bnd (var_read f)
     (\<lambda>bs. case utf8_decode bs of None \<Rightarrow> raise UnicodeError | Some cs \<Rightarrow> ret (VStr cs))"
| "io_read UUIDBytesIO = bnd (readexactly 16) (\<lambda>bs. ret (VUUID (word_of_nat (be_nat bs))))"
| "io_read IPv4AddressIO = bnd (readexactly 4) (\<lambda>bs. bnd (lift_res (\<lambda>_. ip_address bs)) (\<lambda>a. ret (VIP a)))"
| "io_read IPv6AddressIO = bnd (readexactly 16) (\<lambda>bs. bnd (lift_res (\<lambda>_. ip_address bs)) (\<lambda>a. ret (VIP a)))"
| "io_read (EnumIO f) = bnd (struct_read f)
     (\<lambda>n. bnd (lift_res (\<lambda>_. mode_of_value n)) (\<lambda>m. ret (VMode m)))"

section \<open>Messages\<close>

text \<open>
  The attributes \<open>Request\<close> and \<open>SendRequest\<close> add to their subclasses.  \<open>rq_timestamp\<close> is not
  transmitted: the constructor sets it from the clock.
\<close>

record base_request =
  rq_seqno :: "int option"
  rq_timestamp :: pyfloat
  rq_timeout :: pyfloat
  rq_channel_sd :: bytes

record send_fields =
  sr_return_mode :: send_return_mode
  sr_sendhid :: "128 word"
  sr_clientid :: int
  sr_hints :: int
  sr_payload :: payload

datatype request =
    SendRequest (rq_base: base_request) send_fields
  | SendMemoryRequest (rq_base: base_request) send_fields bytes
  | RecvRequest (rq_base: base_request)
  | EventRequest (rq_base: base_request) int

datatype response =
    ErrorResponse (rp_seqno: "int option") "int option" pystr
  | SendResponse (rp_seqno: "int option")
  | RecvResponse (rp_seqno: "int option") int int bytes
  | EventResponse (rp_seqno: "int option") int int

datatype message = Hello ipaddr int | Hello6 ipaddr int | Req request | Resp response

datatype mclass = CHello | CHello6 | CSendRequest | CSendMemoryRequest | CRecvRequest
  | CEventRequest | CErrorResponse | CSendResponse | CRecvResponse | CEventResponse

definition mclasses :: "mclass list" where
  "mclasses = [CHello, CHello6, CSendRequest, CSendMemoryRequest, CRecvRequest, CEventRequest,
    CErrorResponse, CSendResponse, CRecvResponse, CEventResponse]"

fun class_of :: "message \<Rightarrow> mclass" where
  "class_of (Hello _ _) = CHello"
| "class_of (Hello6 _ _) = CHello6"
| "class_of (Req (SendRequest _ _)) = CSendRequest"
| "class_of (Req (SendMemoryRequest _ _ _)) = CSendMemoryRequest"
| "class_of (Req (RecvRequest _)) = CRecvRequest"
| "class_of (Req (EventRequest _ _)) = CEventRequest"
| "class_of (Resp (ErrorResponse _ _ _)) = CErrorResponse"
| "class_of (Resp (SendResponse _)) = CSendResponse"
| "class_of (Resp (RecvResponse _ _ _ _)) = CRecvResponse"
| "class_of (Resp (EventResponse _ _ _)) = CEventResponse"

fun typeid :: "mclass \<Rightarrow> byte" where
  "typeid CHello = 0x40"
| "typeid CHello6 = 0x60"
| "typeid CSendRequest = 0x01"
| "typeid CSendMemoryRequest = 0x02"
| "typeid CRecvRequest = 0x03"
| "typeid CEventRequest = 0x04"
| "typeid CErrorResponse = 0xff"
| "typeid CSendResponse = 0xfe"
| "typeid CRecvResponse = 0xfc"
| "typeid CEventResponse = 0xfb"

text \<open>\<open>TransportMessage._types\<close>.\<close>

definition class_of_typeid :: "byte \<Rightarrow> mclass option" where
  "class_of_typeid b = find (\<lambda>c. typeid c = b) mclasses"

text \<open>
  \<open>_get_io_annotations\<close>: the annotated attributes, those of a base class first.  \<open>Hello6\<close>
  replaces the annotation of \<open>host\<close> where \<open>Hello\<close> has it.
\<close>

definition request_io :: "(string \<times> io) list" where
  "request_io = [(''seqno'', StructIO FmtQ), (''timeout'', StructFloatIO),
     (''channel_sd'', VariableBytesIO FmtH)]"

definition send_io :: "(string \<times> io) list" where
  "send_io = request_io @
     [(''return_mode'', EnumIO FmtB), (''sendhid'', UUIDBytesIO), (''clientid'', StructIO FmtQ),
      (''hints'', StructIO FmtQ), (''payload'', PayloadBytesIO FmtQ)]"

fun io_annotations :: "mclass \<Rightarrow> (string \<times> io) list" where
  "io_annotations CHello = [(''host'', IPv4AddressIO), (''port'', StructIO FmtH)]"
| "io_annotations CHello6 = [(''host'', IPv6AddressIO), (''port'', StructIO FmtH)]"
| "io_annotations CSendRequest = send_io"
| "io_annotations CSendMemoryRequest = send_io @ [(''mem_sd'', VariableBytesIO FmtH)]"
| "io_annotations CRecvRequest = request_io"
| "io_annotations CEventRequest = request_io @ [(''mask'', StructIO FmtH)]"
| "io_annotations CErrorResponse =
     [(''seqno'', StructIO FmtQ), (''errno'', StructIO FmtH), (''text'', VariableTextIO FmtQ)]"
| "io_annotations CSendResponse = [(''seqno'', StructIO FmtQ)]"
| "io_annotations CRecvResponse =
     [(''seqno'', StructIO FmtQ), (''clientid'', StructIO FmtQ), (''hints'', StructIO FmtQ),
      (''payload'', VariableBytesIO FmtQ)]"
| "io_annotations CEventResponse =
     [(''seqno'', StructIO FmtQ), (''errno'', StructIO FmtH), (''result'', StructIO FmtQ)]"

text \<open>
  \<open>getattr(msg, name)\<close> for the names of \<open>io_annotations\<close>, in their order.  A sequence number and
  the error number of an error response may be \<open>None\<close>.
\<close>

fun seqno_value :: "int option \<Rightarrow> pyval" where
  "seqno_value None = VNone"
| "seqno_value (Some n) = VInt n"

definition request_values :: "base_request \<Rightarrow> pyval list" where
  "request_values r = [seqno_value (rq_seqno r), VFloat (rq_timeout r), VBytes (rq_channel_sd r)]"

definition send_values :: "base_request \<Rightarrow> send_fields \<Rightarrow> pyval list" where
  "send_values r s = request_values r @
     [VMode (sr_return_mode s), VUUID (sr_sendhid s), VInt (sr_clientid s), VInt (sr_hints s),
      VPayload (sr_payload s)]"

fun field_values :: "message \<Rightarrow> pyval list" where
  "field_values (Hello h p) = [VIP h, VInt p]"
| "field_values (Hello6 h p) = [VIP h, VInt p]"
| "field_values (Req (SendRequest r s)) = send_values r s"
| "field_values (Req (SendMemoryRequest r s m)) = send_values r s @ [VBytes m]"
| "field_values (Req (RecvRequest r)) = request_values r"
| "field_values (Req (EventRequest r m)) = request_values r @ [VInt m]"
| "field_values (Resp (ErrorResponse q e t)) = [seqno_value q, seqno_value e, VStr t]"
| "field_values (Resp (SendResponse q)) = [seqno_value q]"
| "field_values (Resp (RecvResponse q c h p)) = [seqno_value q, VInt c, VInt h, VBytes p]"
| "field_values (Resp (EventResponse q e r)) = [seqno_value q, VInt e, VInt r]"

text \<open>
  \<open>cls(*args)\<close>, with the clock's time for the timestamp of a request.  The readers of the
  annotations give arguments of the right types, so no other case arises.
\<close>

definition mk_base :: "pyfloat \<Rightarrow> int \<Rightarrow> pyfloat \<Rightarrow> bytes \<Rightarrow> base_request" where
  "mk_base now q t sd = \<lparr>rq_seqno = Some q, rq_timestamp = now, rq_timeout = t, rq_channel_sd = sd\<rparr>"

definition mk_send :: "send_return_mode \<Rightarrow> 128 word \<Rightarrow> int \<Rightarrow> int \<Rightarrow> payload \<Rightarrow> send_fields" where
  "mk_send m u c h p =
     \<lparr>sr_return_mode = m, sr_sendhid = u, sr_clientid = c, sr_hints = h, sr_payload = p\<rparr>"

definition construct :: "pyfloat \<Rightarrow> mclass \<Rightarrow> pyval list \<Rightarrow> message res" where
  "construct now c args = (case c of
       CHello \<Rightarrow>
         (case args of [VIP h, VInt p] \<Rightarrow>
            Inr (Hello h p)
          | _ \<Rightarrow> Inl TypeError)
     | CHello6 \<Rightarrow>
         (case args of [VIP h, VInt p] \<Rightarrow>
            Inr (Hello6 h p)
          | _ \<Rightarrow> Inl TypeError)
     | CSendRequest \<Rightarrow>
         (case args of [VInt q, VFloat t, VBytes sd, VMode m, VUUID u, VInt c, VInt h, VPayload p] \<Rightarrow>
            Inr (Req (SendRequest (mk_base now q t sd) (mk_send m u c h p)))
          | _ \<Rightarrow> Inl TypeError)
     | CSendMemoryRequest \<Rightarrow>
         (case args of [VInt q, VFloat t, VBytes sd, VMode m, VUUID u, VInt c, VInt h, VPayload p, VBytes md] \<Rightarrow>
            Inr (Req (SendMemoryRequest (mk_base now q t sd) (mk_send m u c h p) md))
          | _ \<Rightarrow> Inl TypeError)
     | CRecvRequest \<Rightarrow>
         (case args of [VInt q, VFloat t, VBytes sd] \<Rightarrow>
            Inr (Req (RecvRequest (mk_base now q t sd)))
          | _ \<Rightarrow> Inl TypeError)
     | CEventRequest \<Rightarrow>
         (case args of [VInt q, VFloat t, VBytes sd, VInt m] \<Rightarrow>
            Inr (Req (EventRequest (mk_base now q t sd) m))
          | _ \<Rightarrow> Inl TypeError)
     | CErrorResponse \<Rightarrow>
         (case args of [VInt q, VInt e, VStr t] \<Rightarrow>
            Inr (Resp (ErrorResponse (Some q) (Some e) t))
          | _ \<Rightarrow> Inl TypeError)
     | CSendResponse \<Rightarrow>
         (case args of [VInt q] \<Rightarrow>
            Inr (Resp (SendResponse (Some q)))
          | _ \<Rightarrow> Inl TypeError)
     | CRecvResponse \<Rightarrow>
         (case args of [VInt q, VInt c, VInt h, VBytes p] \<Rightarrow>
            Inr (Resp (RecvResponse (Some q) c h p))
          | _ \<Rightarrow> Inl TypeError)
     | CEventResponse \<Rightarrow>
         (case args of [VInt q, VInt e, VInt r] \<Rightarrow>
            Inr (Resp (EventResponse (Some q) e r))
          | _ \<Rightarrow> Inl TypeError))"

text \<open>The loops over the annotations, for any readers and writers.\<close>

fun read_all :: "('i \<Rightarrow> 'v reader) \<Rightarrow> 'i list \<Rightarrow> 'v list reader" where
  "read_all rd [] = ret []"
| "read_all rd (i # ios) = bnd (rd i) (\<lambda>v. bnd (read_all rd ios) (\<lambda>vs. ret (v # vs)))"

fun write_all :: "('i \<Rightarrow> 'v \<Rightarrow> writer) \<Rightarrow> 'i list \<Rightarrow> 'v list \<Rightarrow> writer" where
  "write_all wr (i # ios) (v # vs) = sq (wr i v) (write_all wr ios vs)"
| "write_all wr _ _ = ret ()"

definition read_message :: "pyfloat \<Rightarrow> message reader" where
  "read_message now =
     bnd (readexactly 1) (\<lambda>t.
     case class_of_typeid (hd t) of
       None \<Rightarrow> raise NotImplementedError
     | Some c \<Rightarrow> bnd (read_all io_read (map snd (io_annotations c)))
         (\<lambda>args. lift_res (\<lambda>_. construct now c args)))"

definition write_message :: "message \<Rightarrow> writer" where
  "write_message msg =
     sq (stream_write [typeid (class_of msg)])
        (write_all io_write (map snd (io_annotations (class_of msg))) (field_values msg))"

section \<open>Writers append\<close>

definition appending :: "writer \<Rightarrow> bool" where
  "appending w \<longleftrightarrow> (\<forall>out. w out = (fst (w []), out @ snd (w [])))"

named_theorems appends \<open>writers that only append to their stream\<close>

lemma appendingD: "appending w \<Longrightarrow> w [] = (r, data) \<Longrightarrow> w out = (r, out @ data)"
  by (metis appending_def fst_conv snd_conv)

lemma appendingE:
  assumes "appending w" "w out = (r, out')"
  obtains data where "w [] = (r, data)" "out' = out @ data"
  using assms by (metis appending_def prod.collapse prod.inject)

lemma appending_raise [appends]: "appending (raise e)"
  by (simp add: appending_def)

lemma appending_ret [appends]: "appending (ret ())"
  by (simp add: appending_def)

lemma appending_write [appends]: "appending (stream_write data)"
  by (simp add: appending_def stream_write_def)

lemma appending_sq [appends]:
  assumes "appending v" "appending w"
  shows "appending (sq v w)"
  unfolding appending_def
proof
  fix out
  obtain r d where v: "v [] = (r, d)" by (cases "v []")
  obtain q e where w: "w [] = (q, e)" by (cases "w []")
  show "sq v w out = (fst (sq v w []), out @ snd (sq v w []))"
    using appendingD [OF assms(1) v, of out] appendingD [OF assms(2) w] v
    by (cases r) (simp_all add: sq_apply)
qed

lemma appending_struct [appends]: "appending (struct_write f n)"
  by (simp add: struct_write_def fixed_write_def appends)

lemma appending_fixed [appends]: "appending (fixed_write sz data)"
  by (simp add: fixed_write_def appends)

lemma appending_var [appends]: "appending (var_write f data)"
  by (simp add: var_write_def appends)

lemma appending_io [appends]: "appending (io_write i v)"
  by (cases "(i, v)" rule: io_write.cases) (simp_all add: appends split: option.split)

lemma appending_all [appends]: "(\<And>i v. appending (wr i v)) \<Longrightarrow> appending (write_all wr ios vs)"
  by (induction wr ios vs rule: write_all.induct) (simp_all add: appends)

lemma appending_message [appends]: "appending (write_message msg)"
  by (simp add: write_message_def appends)

section \<open>What was written is read back\<close>

text \<open>
  A family of field formats, each with a writer and a reader.  A value may change on its way:
  \<open>seen\<close> is what the reader makes of it.
\<close>

locale codec =
  fixes wr :: "'i \<Rightarrow> 'v \<Rightarrow> writer"
    and rd :: "'i \<Rightarrow> 'v reader"
    and seen :: "'v \<Rightarrow> 'v"
  assumes wr_appends: "appending (wr i v)"
    and rd_wr: "wr i v [] = (Inr (), data) \<Longrightarrow> rd i (data @ rest) = (Inr (seen v), rest)"
begin

lemma read_all_write_all:
  assumes "length ios = length vs" "write_all wr ios vs [] = (Inr (), data)"
  shows "read_all rd ios (data @ rest) = (Inr (map seen vs), rest)"
  using assms
proof (induction ios vs arbitrary: data rule: list_induct2)
  case (Cons i ios v vs)
  obtain r d where d: "wr i v [] = (r, d)" by (cases "wr i v []")
  then have ok: "wr i v [] = (Inr (), d)" using Cons.prems by (cases r) (auto simp: sq_apply)
  then have "write_all wr ios vs d = (Inr (), data)" using Cons.prems by (simp add: sq_apply)
  then obtain e where e: "write_all wr ios vs [] = (Inr (), e)" "data = d @ e"
    by (rule appendingE [OF appending_all [OF wr_appends]])
  show ?case
    using rd_wr [OF ok, of "e @ rest"] Cons.IH [OF e(1)] by (simp add: e(2) bnd_apply)
qed simp

end

text \<open>
  The IO classes are such a family.  A timeout is rounded to single precision, and the payload of
  a send arrives as bytes.
\<close>

definition f32_rounded :: "pyfloat \<Rightarrow> pyfloat" where
  "f32_rounded x = (case pack_f x of None \<Rightarrow> x | Some bs \<Rightarrow> unpack_f bs)"

fun wire_value :: "pyval \<Rightarrow> pyval" where
  "wire_value (VFloat x) = VFloat (f32_rounded x)"
| "wire_value (VPayload p) = VPayload (PayloadBytes (payload_data p))"
| "wire_value v = v"

lemma readexactly_append [simp]:
  "length data = n \<Longrightarrow> readexactly n (data @ rest) = (Inr data, rest)"
  by (simp add: readexactly_def)

lemma fixed_write_ok: "fixed_write n bs [] = (Inr (), data) \<longleftrightarrow> length bs = n \<and> data = bs"
  by (auto simp: fixed_write_def stream_write_def)

lemma struct_write_ok:
  "struct_write f n [] = (Inr (), data) \<longleftrightarrow>
     0 \<le> n \<and> n < 256 ^ fmt_size f \<and> data = be_bytes (fmt_size f) (nat n)"
  by (auto simp: struct_write_def fixed_write_ok)

lemma struct_read_write:
  "struct_write f n [] = (Inr (), data) \<Longrightarrow> struct_read f (data @ rest) = (Inr (nat n), rest)"
  by (auto simp: struct_write_ok struct_read_def bnd_apply be_nat_be_bytes nat_less_iff)

lemma var_write_ok:
  "var_write f bs [] = (Inr (), data) \<longleftrightarrow>
     int (length bs) < 256 ^ fmt_size f \<and> data = be_bytes (fmt_size f) (length bs) @ bs"
  by (auto simp: var_write_def struct_write_def fixed_write_def stream_write_def sq_apply)

lemma var_read_write:
  assumes "var_write f bs [] = (Inr (), data)"
  shows "var_read f (data @ rest) = (Inr bs, rest)"
  using struct_read_write [of f "int (length bs)" "be_bytes (fmt_size f) (length bs)" "bs @ rest"] assms
  by (simp add: var_write_ok struct_write_ok var_read_def bnd_apply)

lemma mode_of_value [simp]: "mode_of_value (mode_value m) = Inr m"
  by (cases m) (simp_all add: mode_of_value_def send_return_modes_def)

lemma be_nat_word [simp]:
  fixes w :: "'a :: len word"
  assumes "LENGTH('a) = 8 * k"
  shows "word_of_nat (be_nat (be_bytes k (unat w))) = w"
proof -
  have "unat w < 2 ^ LENGTH('a)" by (rule unsigned_less)
  then have "unat w < 256 ^ k" by (simp add: assms power_mult)
  then show ?thesis by (simp add: be_nat_be_bytes)
qed


lemma pack_f_length: "pack_f x = Some bs \<Longrightarrow> length bs = 4"
  by (auto simp: pack_f_def)

lemma ip_address_packed [simp]: "ip_address (ip_packed a) = Inr a"
  by (cases a) (simp_all add: ip_address_def)

lemma io_read_write:
  assumes "io_write i v [] = (Inr (), data)"
  shows "io_read i (data @ rest) = (Inr (wire_value v), rest)"
proof (cases i)
  case (StructIO f)
  then obtain n where v: "v = VInt n" "struct_write f n [] = (Inr (), data)"
    using assms by (cases v) auto
  then have "0 \<le> n" by (simp add: struct_write_ok)
  then show ?thesis using StructIO v(1) struct_read_write [OF v(2)] by (simp add: bnd_apply)
next
  case StructFloatIO
  then obtain x where "v = VFloat x" "pack_f x = Some data" "length data = 4"
    using assms by (cases v) (auto simp: fixed_write_ok split: option.splits)
  then show ?thesis using StructFloatIO by (simp add: bnd_apply f32_rounded_def)
next
  case (VariableBytesIO f)
  then obtain bs where "v = VBytes bs" "var_write f bs [] = (Inr (), data)"
    using assms by (cases v) auto
  then show ?thesis using VariableBytesIO var_read_write by (simp add: bnd_apply)
next
  case (PayloadBytesIO f)
  then obtain p where p: "v = VPayload p" using assms by (cases v) auto
  then obtain bs where "p = Payload bs" "var_write f bs [] = (Inr (), data)"
    using assms PayloadBytesIO
    by (cases p) (auto simp: sq_apply split: prod.splits sum.splits)
  then show ?thesis using PayloadBytesIO p var_read_write by (simp add: bnd_apply)
next
  case (VariableTextIO f)
  then obtain cs bs where "v = VStr cs" "utf8_encode cs = Some bs" "var_write f bs [] = (Inr (), data)"
    using assms by (cases v) (auto split: option.splits)
  then show ?thesis using VariableTextIO var_read_write utf8_round_trip by (simp add: bnd_apply)
next
  case UUIDBytesIO
  then show ?thesis using assms by (cases v) (auto simp: bnd_apply fixed_write_ok)
next
  case IPv4AddressIO
  then show ?thesis using assms by (cases v) (auto simp: bnd_apply fixed_write_ok)
next
  case IPv6AddressIO
  then show ?thesis using assms by (cases v) (auto simp: bnd_apply fixed_write_ok)
next
  case (EnumIO f)
  then obtain m where "v = VMode m" "struct_write f (int (mode_value m)) [] = (Inr (), data)"
    using assms by (cases v) auto
  then show ?thesis using EnumIO struct_read_write by (simp add: bnd_apply)
qed

interpretation wire: codec io_write io_read wire_value
  by unfold_locales (rule appending_io, rule io_read_write)

section \<open>Messages on a stream\<close>

text \<open>The message a peer constructs at time \<open>now\<close> from what this one wrote.\<close>

definition received_base :: "pyfloat \<Rightarrow> base_request \<Rightarrow> base_request" where
  "received_base now r = r\<lparr>rq_timestamp := now, rq_timeout := f32_rounded (rq_timeout r)\<rparr>"

definition received_send :: "send_fields \<Rightarrow> send_fields" where
  "received_send s = s\<lparr>sr_payload := PayloadBytes (payload_data (sr_payload s))\<rparr>"

fun received_request :: "pyfloat \<Rightarrow> request \<Rightarrow> request" where
  "received_request now (SendRequest r s) = SendRequest (received_base now r) (received_send s)"
| "received_request now (SendMemoryRequest r s m) =
     SendMemoryRequest (received_base now r) (received_send s) m"
| "received_request now (RecvRequest r) = RecvRequest (received_base now r)"
| "received_request now (EventRequest r m) = EventRequest (received_base now r) m"

fun received :: "pyfloat \<Rightarrow> message \<Rightarrow> message" where
  "received now (Req r) = Req (received_request now r)"
| "received now m = m"

lemma class_of_typeid [simp]: "class_of_typeid (typeid c) = Some c"
  by (cases c) (simp_all add: class_of_typeid_def mclasses_def)

lemma length_annotations: "length (io_annotations (class_of m)) = length (field_values m)"
  by (cases m rule: class_of.cases)
    (simp_all add: send_io_def request_io_def send_values_def request_values_def)

fun has_seqno :: "message \<Rightarrow> bool" where
  "has_seqno (Req r) = (rq_seqno (rq_base r) \<noteq> None)"
| "has_seqno (Resp (ErrorResponse q e t)) = (q \<noteq> None \<and> e \<noteq> None)"
| "has_seqno (Resp r) = (rp_seqno r \<noteq> None)"
| "has_seqno _ = True"

lemma construct_received:
  assumes "has_seqno m"
  shows "construct now (class_of m) (map wire_value (field_values m)) = Inr (received now m)"
  using assms
  by (cases m rule: class_of.cases)
    (auto simp: construct_def send_values_def request_values_def mk_base_def mk_send_def
      received_base_def received_send_def)

lemma write_needs_seqno:
  assumes "write_message m [] = (Inr (), data)"
  shows "has_seqno m"
proof (rule ccontr)
  assume "\<not> has_seqno m"
  then show False using assms
    by (cases m rule: class_of.cases)
      (auto simp: write_message_def stream_write_def sq_apply send_io_def request_io_def
        send_values_def request_values_def split: prod.splits sum.splits)
qed

lemma read_message_write_message:
  assumes "write_message m [] = (Inr (), data)"
  shows "read_message now (data @ rest) = (Inr (received now m), rest)"
proof -
  let ?c = "class_of m"
  let ?w = "write_all io_write (map snd (io_annotations ?c)) (field_values m)"
  have "?w [typeid ?c] = (Inr (), data)"
    using assms by (simp add: write_message_def stream_write_def sq_apply)
  then obtain d where d: "?w [] = (Inr (), d)" "data = typeid ?c # d"
    by (rule appendingE [OF appending_all [OF appending_io]]) simp
  have "read_all io_read (map snd (io_annotations ?c)) (d @ rest) =
      (Inr (map wire_value (field_values m)), rest)"
    by (rule wire.read_all_write_all [OF _ d(1)]) (simp add: length_annotations)
  then show ?thesis
    using construct_received [OF write_needs_seqno [OF assms]]
    by (simp add: read_message_def readexactly_def bnd_apply d(2))
qed

section \<open>Which messages can be written\<close>

definition fits :: "nat \<Rightarrow> int \<Rightarrow> bool" where
  "fits k n \<longleftrightarrow> 0 \<le> n \<and> n < 256 ^ k"

definition sendable_value :: "io \<Rightarrow> pyval \<Rightarrow> bool" where
  [simp]: "sendable_value i v = (case i of
       StructIO f \<Rightarrow> (case v of VInt n \<Rightarrow> fits (fmt_size f) n | _ \<Rightarrow> False)
     | StructFloatIO \<Rightarrow> (case v of VFloat x \<Rightarrow> pack_f x \<noteq> None | _ \<Rightarrow> False)
     | VariableBytesIO f \<Rightarrow> (case v of VBytes bs \<Rightarrow> length bs < 256 ^ fmt_size f | _ \<Rightarrow> False)
     | PayloadBytesIO f \<Rightarrow> (case v of VPayload (Payload bs) \<Rightarrow> length bs < 256 ^ fmt_size f | _ \<Rightarrow> False)
     | VariableTextIO f \<Rightarrow> (case v of VStr cs \<Rightarrow>
           (case utf8_encode cs of None \<Rightarrow> False | Some bs \<Rightarrow> length bs < 256 ^ fmt_size f) | _ \<Rightarrow> False)
     | UUIDBytesIO \<Rightarrow> (case v of VUUID _ \<Rightarrow> True | _ \<Rightarrow> False)
     | IPv4AddressIO \<Rightarrow> (case v of VIP (IPv4Address _) \<Rightarrow> True | _ \<Rightarrow> False)
     | IPv6AddressIO \<Rightarrow> (case v of VIP (IPv6Address _) \<Rightarrow> True | _ \<Rightarrow> False)
     | EnumIO f \<Rightarrow> (case v of VMode _ \<Rightarrow> True | _ \<Rightarrow> False))"

definition sendable :: "message \<Rightarrow> bool" where
  "sendable m = list_all2 sendable_value (map snd (io_annotations (class_of m))) (field_values m)"

lemma int_length_less [simp]: "int (length bs) < 256 ^ k \<longleftrightarrow> length bs < 256 ^ k"
  by (metis of_nat_less_iff of_nat_numeral of_nat_power)

lemma mode_value_fits: "mode_value m < 256 ^ fmt_size f"
  by (cases m; cases f) simp_all

lemma io_write_refuses:
  "io_write i VNone [] \<noteq> (Inr (), data)"
  "io_write i (VPayload (PayloadBytes bs)) [] \<noteq> (Inr (), data)"
  by (cases i; auto simp: sq_apply split: prod.splits sum.splits)+

lemma io_write_ok: "(\<exists>data. io_write i v [] = (Inr (), data)) \<longleftrightarrow> sendable_value i v"
proof (cases i)
  case (PayloadBytesIO f)
  show ?thesis
  proof (cases v)
    case (VPayload p)
    then show ?thesis
      using PayloadBytesIO io_write_refuses(2) [of i]
      by (cases p) (simp_all add: var_write_ok)
  qed (use PayloadBytesIO in simp_all)
next
  case IPv4AddressIO
  then show ?thesis by (cases v) (auto simp: fixed_write_ok split: ipaddr.splits)
next
  case IPv6AddressIO
  then show ?thesis by (cases v) (auto simp: fixed_write_ok split: ipaddr.splits)
next
  case StructFloatIO
  then show ?thesis
    by (cases v) (auto simp: fixed_write_ok dest: pack_f_length split: option.split)
next
  case (VariableTextIO f)
  then show ?thesis by (cases v) (simp_all add: var_write_ok split: option.split)
qed (cases v; simp add: struct_write_ok var_write_ok fixed_write_ok fits_def mode_value_fits)+

lemma write_all_ok:
  assumes "length ios = length vs"
  shows "(\<exists>data. write_all io_write ios vs [] = (Inr (), data)) \<longleftrightarrow> list_all2 sendable_value ios vs"
  using assms
proof (induction ios vs rule: list_induct2)
  case (Cons i ios v vs)
  obtain r d where d: "io_write i v [] = (r, d)" by (cases "io_write i v []")
  obtain q e where e: "write_all io_write ios vs [] = (q, e)" by (cases "write_all io_write ios vs []")
  then have "write_all io_write ios vs d = (q, d @ e)"
    by (rule appendingD [OF appending_all [OF appending_io]])
  then show ?case
    using io_write_ok [of i v] Cons.IH d e by (cases r) (auto simp: sq_apply)
qed simp

lemma write_message_ok: "(\<exists>data. write_message m [] = (Inr (), data)) \<longleftrightarrow> sendable m"
proof -
  let ?c = "class_of m"
  let ?w = "write_all io_write (map snd (io_annotations ?c)) (field_values m)"
  obtain q e where e: "?w [] = (q, e)" by (cases "?w []")
  then have "?w [typeid ?c] = (q, [typeid ?c] @ e)"
    by (rule appendingD [OF appending_all [OF appending_io]])
  then show ?thesis
    using write_all_ok [of "map snd (io_annotations ?c)" "field_values m"] e
    by (simp add: write_message_def stream_write_def sq_apply sendable_def length_annotations)
qed

text \<open>A message that cannot be written leaves at least its type on the stream.\<close>

lemma write_message_torn:
  assumes "\<not> sendable m"
  obtains e data where "write_message m [] = (Inl e, typeid (class_of m) # data)"
proof -
  let ?c = "class_of m"
  let ?w = "write_all io_write (map snd (io_annotations ?c)) (field_values m)"
  obtain q d where "?w [] = (q, d)" by (cases "?w []")
  then have w: "?w [typeid ?c] = (q, [typeid ?c] @ d)"
    by (rule appendingD [OF appending_all [OF appending_io]])
  moreover have "q \<noteq> Inr ()"
    using assms write_message_ok [of m] w by (auto simp: write_message_def stream_write_def sq_apply)
  ultimately show ?thesis
    using that by (cases q) (auto simp: write_message_def stream_write_def sq_apply)
qed

section \<open>Readers take what they need\<close>

text \<open>
  A reader either finds the stream too short, or takes a prefix of it that decides its result,
  whatever follows.
\<close>

definition taking :: "'a reader \<Rightarrow> bool" where
  "taking rd \<longleftrightarrow> (\<forall>p. rd p = (Inl IncompleteReadError, []) \<or>
     (\<exists>x d r. p = d @ r \<and> x \<noteq> Inl IncompleteReadError \<and> (\<forall>q. rd (d @ q) = (x, q))))"

named_theorems takes \<open>readers that take a prefix of their stream\<close>

lemma taking_ret [takes]: "taking (ret x)"
  unfolding taking_def by (metis append_Nil ret_apply Inl_Inr_False)

lemma taking_raise [takes]: "e \<noteq> IncompleteReadError \<Longrightarrow> taking (raise e)"
  unfolding taking_def by (metis append_Nil raise_apply sum.inject(1))

lemma taking_lift [takes]: "x \<noteq> Inl IncompleteReadError \<Longrightarrow> taking (lift_res (\<lambda>_. x))"
  unfolding taking_def by (metis append_Nil lift_res_apply)

lemma taking_readexactly [takes]: "taking (readexactly n)"
  unfolding taking_def
proof
  fix p
  show "readexactly n p = (Inl IncompleteReadError, []) \<or>
     (\<exists>x d r. p = d @ r \<and> x \<noteq> Inl IncompleteReadError \<and> (\<forall>q. readexactly n (d @ q) = (x, q)))"
  proof (cases "length p < n")
    case False
    then have "\<forall>q. readexactly n (take n p @ q) = (Inr (take n p), q)" by simp
    then show ?thesis by (metis append_take_drop_id Inl_Inr_False)
  qed (simp add: readexactly_def)
qed

lemma taking_bnd [takes]:
  assumes "taking rd" "\<And>v. taking (f v)"
  shows "taking (bnd rd f)"
  unfolding taking_def
proof
  fix p
  consider (short) "rd p = (Inl IncompleteReadError, [])"
    | (took) x d r where "p = d @ r" "x \<noteq> Inl IncompleteReadError" "\<forall>q. rd (d @ q) = (x, q)"
    using assms(1) unfolding taking_def by metis
  then show "bnd rd f p = (Inl IncompleteReadError, []) \<or>
     (\<exists>x d r. p = d @ r \<and> x \<noteq> Inl IncompleteReadError \<and> (\<forall>q. bnd rd f (d @ q) = (x, q)))"
  proof cases
    case took
    show ?thesis
    proof (cases x)
      case (Inl e)
      then have "\<forall>q. bnd rd f (d @ q) = (Inl e, q)" using took(3) by (simp add: bnd_apply)
      then show ?thesis using took(1,2) Inl by (metis sum.inject(1))
    next
      case (Inr v)
      then have b: "\<forall>q. bnd rd f (d @ q) = f v q" using took(3) by (simp add: bnd_apply)
      consider (short) "f v r = (Inl IncompleteReadError, [])"
        | (more) y e s where "r = e @ s" "y \<noteq> Inl IncompleteReadError" "\<forall>q. f v (e @ q) = (y, q)"
        using assms(2) unfolding taking_def by metis
      then show ?thesis
      proof cases
        case more
        then have "p = (d @ e) @ s" "\<forall>q. bnd rd f ((d @ e) @ q) = (y, q)" using took(1) b by simp_all
        then show ?thesis using more(2) by blast
      qed (use b took(1) in simp)
    qed
  qed (simp add: bnd_apply)
qed

lemma taking_struct [takes]: "taking (struct_read f)"
  by (simp add: struct_read_def takes)

lemma taking_var [takes]: "taking (var_read f)"
  by (simp add: var_read_def takes)

lemma ip_address_raises: "ip_address bs \<noteq> Inl IncompleteReadError"
  by (simp add: ip_address_def)

lemma mode_of_value_raises: "mode_of_value n \<noteq> Inl IncompleteReadError"
  by (simp add: mode_of_value_def split: option.split)

lemma construct_raises: "construct now c args \<noteq> Inl IncompleteReadError"
  unfolding construct_def by (auto split: mclass.splits list.splits pyval.splits)

lemma taking_io [takes]: "taking (io_read i)"
  by (cases i)
    (simp_all add: takes ip_address_raises mode_of_value_raises split: option.split)

lemma taking_all [takes]: "(\<And>i. taking (rd i)) \<Longrightarrow> taking (read_all rd ios)"
  by (induction ios) (simp_all add: takes)

lemma taking_read_message [takes]: "taking (read_message now)"
  unfolding read_message_def
  by (intro takes; simp add: takes construct_raises split: option.split)

lemma taking_shrinks:
  assumes "taking rd"
  shows "length (snd (rd p)) \<le> length p"
proof -
  consider "rd p = (Inl IncompleteReadError, [])" | x d r where "p = d @ r" "\<forall>q. rd (d @ q) = (x, q)"
    using assms unfolding taking_def by metis
  then show ?thesis by cases simp_all
qed

lemma taking_prefix:
  assumes "taking rd" "rd (p @ q) = (x, r)" "length r < length q" "x \<noteq> Inl IncompleteReadError"
  shows "rd p = (Inl IncompleteReadError, [])"
proof (rule ccontr)
  assume "rd p \<noteq> (Inl IncompleteReadError, [])"
  then obtain y d s where "p = d @ s" "\<forall>q. rd (d @ q) = (y, q)"
    using assms(1) unfolding taking_def by metis
  then have "rd (p @ q) = (y, s @ q)" by simp
  then show False using assms(2,3) by simp
qed

text \<open>Nothing is read from a part of a message.\<close>

lemma read_message_part:
  assumes "write_message m [] = (Inr (), p @ q)" "q \<noteq> []"
  shows "read_message now p = (Inl IncompleteReadError, [])"
  using taking_prefix [OF taking_read_message, of now p q] read_message_write_message [OF assms(1), of now "[]"]
    assms(2) by simp

lemma read_message_consumes:
  assumes "bs \<noteq> []"
  shows "length (snd (read_message now bs)) < length bs"
proof -
  obtain b r where bs: "bs = b # r" using assms by (cases bs) auto
  have t: "taking (case class_of_typeid b of None \<Rightarrow> raise NotImplementedError
     | Some c \<Rightarrow> bnd (read_all io_read (map snd (io_annotations c))) (\<lambda>args. lift_res (\<lambda>_. construct now c args)))"
    by (auto simp: takes construct_raises split: option.split)
  have "read_message now bs = (case class_of_typeid b of None \<Rightarrow> raise NotImplementedError
     | Some c \<Rightarrow> bnd (read_all io_read (map snd (io_annotations c))) (\<lambda>args. lift_res (\<lambda>_. construct now c args))) r"
    by (simp add: read_message_def readexactly_def bs bnd_apply)
  then show ?thesis using taking_shrinks [OF t, of r] by (simp add: bs)
qed

section \<open>Properties\<close>

text \<open>
  C10: A message can be written exactly when every attribute fits its format: the sequence number
  is set and below \<open>2^64\<close>, the timeout is infinite or representable in single precision, the
  descriptors are shorter than 64 KiB, the payload of a send is a \<open>Payload\<close>, and so on.  A
  message that is written is read back by the peer, whatever follows it on the stream, with its
  timeout rounded to single precision and its payload as bytes.  One that is not leaves its first
  byte on the stream.
\<close>

theorem message_round_trip:
  "((\<exists>data. write_message m out = (Inr (), out @ data) \<and>
       read_message now (data @ rest) = (Inr (received now m), rest)) \<longleftrightarrow> sendable m) \<and>
   ((\<exists>e data. write_message m out = (Inl e, out @ typeid (class_of m) # data)) \<longleftrightarrow> \<not> sendable m)"
proof -
  have "\<exists>data. write_message m out = (Inr (), out @ data) \<and>
       read_message now (data @ rest) = (Inr (received now m), rest)" if "sendable m"
    using that write_message_ok [of m] appendingD [OF appending_message]
      read_message_write_message by blast
  moreover have "\<exists>e data. write_message m out = (Inl e, out @ typeid (class_of m) # data)"
    if "\<not> sendable m"
    using write_message_torn [OF that] appendingD [OF appending_message] by metis
  ultimately show ?thesis by fastforce
qed

end
