(* ===== verification/Transport.thy ===== *)
theory Transport
  imports Wire
begin

text \<open>
  The transports of \<open>transport/tcp/transport.py\<close>: \<open>Transport\<close>, which delivers messages to itself,
  and \<open>StreamTransport\<close>, which adds mailboxes and connections to peers.  A transport's state is a
  record; a coroutine is cut at its \<open>await\<close>s, and every piece between two of them is one
  function.  An \<open>asyncio.Future\<close> is named by the sequence number it was created for.
\<close>

section \<open>Addresses\<close>

datatype address = Address (host: ipaddr) (port: "int option")

text \<open>\<open>Address.hello\<close> asserts that the port is known.\<close>

definition hello :: "address \<Rightarrow> message res" where
  "hello a = (case port a of
       None \<Rightarrow> Inl AssertionError
     | Some p \<Rightarrow> Inr (case host a of IPv6Address _ \<Rightarrow> Hello6 (host a) p | IPv4Address _ \<Rightarrow> Hello (host a) p))"

fun from_hello :: "message \<Rightarrow> address res" where
  "from_hello (Hello h p) = Inr (Address h (Some p))"
| "from_hello (Hello6 h p) = Inr (Address h (Some p))"
| "from_hello _ = Inl AssertionError"

text \<open>
  \<open>do_handshake\<close>: what it writes to the peer, and the address it reads from the peer.
\<close>

definition do_handshake_write :: "address \<Rightarrow> writer" where
  "do_handshake_write a = bnd (lift_res (\<lambda>_. hello a)) write_message"

definition do_handshake_read :: "pyfloat \<Rightarrow> address reader" where
  "do_handshake_read now = bnd (read_message now) (\<lambda>resp. lift_res (\<lambda>_. from_hello resp))"

section \<open>Deadlines\<close>

definition is_inf :: "pyfloat \<Rightarrow> bool" where
  "is_inf x \<longleftrightarrow> mag x = inf64"

text \<open>\<open>seconds_remaining(deadline)\<close> at time \<open>now\<close>, with the value it gives for no deadline.\<close>

definition seconds_remaining :: "'a \<Rightarrow> (pyfloat \<Rightarrow> 'a) \<Rightarrow> pyfloat \<Rightarrow> pyfloat \<Rightarrow> 'a \<times> pyfloat" where
  "seconds_remaining no_deadline some now deadline =
     (if is_inf deadline then (no_deadline, now) else (some (float_sub_max0 deadline now), now))"

definition deadline :: "base_request \<Rightarrow> pyfloat" where
  "deadline r = float_add (rq_timestamp r) (rq_timeout r)"

definition set_deadline :: "pyfloat \<Rightarrow> pyfloat \<Rightarrow> base_request \<Rightarrow> base_request" where
  "set_deadline now d r =
     (let (t, since) = seconds_remaining py_inf (\<lambda>x. x) now d in
      r\<lparr>rq_timeout := t, rq_timestamp := since\<rparr>)"

fun map_base :: "(base_request \<Rightarrow> base_request) \<Rightarrow> request \<Rightarrow> request" where
  "map_base f (SendRequest r s) = SendRequest (f r) s"
| "map_base f (SendMemoryRequest r s m) = SendMemoryRequest (f r) s m"
| "map_base f (RecvRequest r) = RecvRequest (f r)"
| "map_base f (EventRequest r m) = EventRequest (f r) m"

text \<open>\<open>msg.deadline = msg.deadline\<close>, for requests.\<close>

fun normalize_deadline :: "pyfloat \<Rightarrow> message \<Rightarrow> message" where
  "normalize_deadline now (Req r) = Req (map_base (\<lambda>b. set_deadline now (deadline b) b) r)"
| "normalize_deadline now m = m"

section \<open>Loopback and receiving\<close>

record transport =
  tr_addr :: address
  tr_seqno :: int
  tr_responses :: "int set"
  tr_futures :: "int \<rightharpoonup> response \<times> address"
  tr_last_request :: "address \<Rightarrow> int"
  tr_requests :: "(request \<times> address) list"
  tr_mailboxes :: "address \<Rightarrow> message list"

text \<open>
  A new transport.  \<open>tr_responses\<close> holds the keys of \<open>_responses\<close>, \<open>tr_futures\<close> the futures that
  have a result.
\<close>

definition new_transport :: "address \<Rightarrow> transport" where
  "new_transport a = \<lparr>tr_addr = a, tr_seqno = 1, tr_responses = {}, tr_futures = Map.empty,
     tr_last_request = (\<lambda>_. 0), tr_requests = [], tr_mailboxes = (\<lambda>_. [])\<rparr>"

text \<open>\<open>_handle_recv\<close> of a response: the future that waits for it gets it; no other does.\<close>

definition recv_response :: "response \<Rightarrow> address \<Rightarrow> transport \<Rightarrow> transport" where
  "recv_response resp a t =
     (case rp_seqno resp of
        Some n \<Rightarrow> if n \<in> tr_responses t
          then t\<lparr>tr_responses := tr_responses t - {n}, tr_futures := (tr_futures t)(n \<mapsto> (resp, a))\<rparr>
          else t
      | None \<Rightarrow> t)"

text \<open>
  \<open>_handle_recv\<close> of a request: one whose number is not above the last one of its sender is
  dropped.  A request read from a stream has a number.
\<close>

definition seqno_of :: "request \<Rightarrow> int" where
  "seqno_of r = (case rq_seqno (rq_base r) of Some n \<Rightarrow> n | None \<Rightarrow> 0)"

definition recv_request :: "request \<Rightarrow> address \<Rightarrow> transport \<Rightarrow> transport" where
  "recv_request req a t =
     (if seqno_of req \<le> tr_last_request t a then t
      else t\<lparr>tr_last_request := (tr_last_request t)(a := seqno_of req),
             tr_requests := tr_requests t @ [(req, a)]\<rparr>)"

text \<open>\<open>StreamTransport._handle_send\<close> puts a message for a peer into the peer's mailbox.\<close>

definition enqueue :: "message \<Rightarrow> address \<Rightarrow> transport \<Rightarrow> transport" where
  "enqueue msg a t = t\<lparr>tr_mailboxes := (tr_mailboxes t)(a := tr_mailboxes t a @ [msg])\<rparr>"

definition write_response :: "response \<Rightarrow> address \<Rightarrow> transport \<Rightarrow> transport" where
  "write_response resp a t =
     (if a = tr_addr t then recv_response resp (tr_addr t) t else enqueue (Resp resp) a t)"

text \<open>The error numbers of \<open>dragonError_t\<close> that the transport names.\<close>

definition DRAGON_INVALID_ARGUMENT :: int where "DRAGON_INVALID_ARGUMENT = 1"
definition DRAGON_NOT_IMPLEMENTED :: int where "DRAGON_NOT_IMPLEMENTED = 6"
definition DRAGON_FAILURE :: int where "DRAGON_FAILURE = 8"
definition DRAGON_TIMEOUT :: int where "DRAGON_TIMEOUT = 9"

definition text_of :: "string \<Rightarrow> pystr" where
  "text_of s = map of_char s"

definition quoted :: "string \<Rightarrow> string" where
  "quoted s = CHR 0x27 # s @ [CHR 0x27]"

fun class_name :: "message \<Rightarrow> string" where
  "class_name (Hello _ _) = ''Hello''"
| "class_name (Hello6 _ _) = ''Hello6''"
| "class_name (Req _) = ''Request''"
| "class_name (Resp _) = ''Response''"

text \<open>
  \<open>_handle_recv\<close> dispatches on the class of the message: a handshake message after the handshake
  is answered with an error for the sequence number \<open>0\<close>.
\<close>

fun handle_recv :: "message \<Rightarrow> address \<Rightarrow> transport \<Rightarrow> transport" where
  "handle_recv (Resp resp) a t = recv_response resp a t"
| "handle_recv (Req req) a t = recv_request req a t"
| "handle_recv m a t =
     write_response (ErrorResponse (Some 0) (Some DRAGON_NOT_IMPLEMENTED)
       (text_of (''Unsupported type of message: <class '' @ quoted (''dragon.transport.tcp.messages.'' @ class_name m) @ ''>''))) a t"

section \<open>Sending\<close>

fun send_mode :: "message \<Rightarrow> send_return_mode option" where
  "send_mode (Req (SendRequest _ s)) = Some (sr_return_mode s)"
| "send_mode (Req (SendMemoryRequest _ s _)) = Some (sr_return_mode s)"
| "send_mode _ = None"

fun msg_seqno :: "message \<Rightarrow> int option" where
  "msg_seqno (Req r) = rq_seqno (rq_base r)"
| "msg_seqno (Resp r) = rp_seqno r"
| "msg_seqno _ = None"

text \<open>\<open>Transport._handle_send\<close>: delivery to the transport itself.\<close>

definition loopback_send :: "message \<Rightarrow> transport \<Rightarrow> transport" where
  "loopback_send msg t =
     (let t1 = (if send_mode msg \<in> {Some IMMEDIATELY, Some WHEN_BUFFERED}
                then recv_response (SendResponse (msg_seqno msg)) (tr_addr t) t else t) in
      handle_recv msg (tr_addr t) t1)"

text \<open>\<open>StreamTransport._handle_send\<close>.\<close>

definition handle_send :: "message \<Rightarrow> address \<Rightarrow> transport \<Rightarrow> transport" where
  "handle_send msg a t =
     (if a = tr_addr t then loopback_send msg t
      else let t1 = (if send_mode msg = Some IMMEDIATELY
                     then recv_response (SendResponse (msg_seqno msg)) (tr_addr t) t else t) in
           enqueue msg a t1)"

text \<open>
  \<open>write_request\<close>: the request gets the next sequence number, and a future is created before
  anything is sent.  Nothing in \<open>_handle_send\<close> raises, so the future stays.
\<close>

definition write_request :: "request \<Rightarrow> address \<Rightarrow> transport \<Rightarrow> int \<times> transport" where
  "write_request req a t =
     (let n = tr_seqno t;
          req' = map_base (\<lambda>b. b\<lparr>rq_seqno := Some n\<rparr>) req;
          t1 = t\<lparr>tr_seqno := n + 1, tr_responses := insert n (tr_responses t)\<rparr> in
      (n, handle_send (Req req') a t1))"

text \<open>\<open>read_request\<close> waits for a request; \<open>read_response\<close> raises for a number with no future.\<close>

definition read_request :: "transport \<Rightarrow> ((request \<times> address) \<times> transport) option" where
  "read_request t = (case tr_requests t of [] \<Rightarrow> None | x # xs \<Rightarrow> Some (x, t\<lparr>tr_requests := xs\<rparr>))"

text \<open>
  One round of \<open>_do_send\<close> for a message of the mailbox: the result of the round, what it left on
  the connection, and the transport.  \<open>Inl\<close> of an exception ends the coroutine, and
  \<open>run_forever\<close> starts it again; the message is back at the front of the mailbox.
\<close>

definition unget :: "message \<Rightarrow> address \<Rightarrow> transport \<Rightarrow> transport" where
  "unget msg a t = t\<lparr>tr_mailboxes := (tr_mailboxes t)(a := msg # tr_mailboxes t a)\<rparr>"

definition sent :: "message \<Rightarrow> transport \<Rightarrow> transport" where
  "sent msg t = (if send_mode msg = Some WHEN_BUFFERED
     then recv_response (SendResponse (msg_seqno msg)) (tr_addr t) t else t)"

definition do_send :: "pyfloat \<Rightarrow> address \<Rightarrow> transport \<Rightarrow> (unit res \<times> bytes \<times> transport) option" where
  "do_send now a t =
     (case tr_mailboxes t a of
        [] \<Rightarrow> None
      | m # ms \<Rightarrow>
          (let msg = normalize_deadline now m;
               t1 = t\<lparr>tr_mailboxes := (tr_mailboxes t)(a := ms)\<rparr> in
           case write_message msg [] of
             (Inr _, data) \<Rightarrow> Some (Inr (), data, sent msg t1)
           | (Inl e, data) \<Rightarrow> Some (Inl e, data, unget msg a t1)))"

text \<open>
  The connection breaks while the message is written: a part of it may have been transmitted,
  and it goes back to the front of the mailbox.
\<close>

definition do_send_broken :: "pyfloat \<Rightarrow> nat \<Rightarrow> address \<Rightarrow> transport \<Rightarrow> (bytes \<times> transport) option" where
  "do_send_broken now k a t =
     (case tr_mailboxes t a of
        [] \<Rightarrow> None
      | m # ms \<Rightarrow>
          (let msg = normalize_deadline now m;
               t1 = t\<lparr>tr_mailboxes := (tr_mailboxes t)(a := ms)\<rparr> in
           Some (take k (snd (write_message msg [])), unget msg a t1)))"

text \<open>
  \<open>_do_recv\<close> on a connection whose remaining bytes are known: after an incomplete message the
  stream is at its end; after any other error \<open>run_forever\<close> starts the loop again on the bytes
  that follow what was read.
\<close>

function do_recv :: "pyfloat \<Rightarrow> address \<Rightarrow> bytes \<Rightarrow> transport \<Rightarrow> transport" where
  "do_recv now a bs t =
     (if bs = [] then t
      else case read_message now bs of
             (Inr msg, rest) \<Rightarrow> do_recv now a rest (handle_recv msg a t)
           | (Inl e, rest) \<Rightarrow> do_recv now a rest t)"
  by pat_completeness auto

termination do_recv
  by (relation "measure (\<lambda>(_, _, bs, _). length bs)")
    (simp_all, (metis read_message_consumes snd_conv)+)

end
