(* ===== verification/Deadlines.thy ===== *)
theory Deadlines
  imports Transport
begin

text \<open>
  Which messages can be written at every time at which a sender may come to them.  Each attempt to
  write a request replaces its timeout by the time that is left until its deadline
  (\<open>msg.deadline = msg.deadline\<close> in \<open>transport/tcp/transport.py\<close>), with two roundings, so a request
  that fits the wire format once need not fit it at the next attempt.  The theory shows for which
  requests it does.
\<close>

section \<open>Rounding near a power of two\<close>

lemma round_half_even_le:
  assumes "n < 2 ^ Suc j" "s \<le> j"
  shows "round_half_even n s \<le> 2 ^ (Suc j - s)"
proof -
  have "(2 :: nat) ^ Suc j = 2 ^ (Suc j - s) * 2 ^ s" using assms(2) by (simp flip: power_add)
  then have "n div 2 ^ s < 2 ^ (Suc j - s)"
    using assms(1) by (simp add: div_less_iff_less_mult)
  then show ?thesis by (simp add: round_half_even_def Let_def)
qed

lemma log2_less:
  assumes "n < 2 ^ k" "0 < k"
  shows "log2 n < k"
proof (cases "n = 0")
  case False
  then have "(2 :: nat) ^ log2 n < 2 ^ k" using log2_bounds [of n] assms(1) by linarith
  then show ?thesis by (rule power_less_imp_less_exp [rotated]) simp
qed (use assms(2) in \<open>simp add: log2.simps\<close>)

lemma encode_mag_below:
  assumes "n < 2 ^ k" "m + 2 \<le> k"
  shows "encode_mag m 0 n \<le> (k - m) * 2 ^ m + 2 ^ m"
proof -
  define j where "j = log2 n"
  have j: "j < k" using log2_less assms by (simp add: j_def)
  have n: "n < 2 ^ Suc j" using log2_bounds [of n] by (cases "n = 0") (simp_all add: j_def)
  show ?thesis
  proof (cases "j \<le> m")
    case True
    have "encode_mag m 0 n = n" using True round_half_even_exact [of n 0] by (simp add: encode_mag_def j_def)
    moreover have "n < 2 ^ Suc m" using n True by (meson Suc_le_mono less_le_trans one_le_numeral power_increasing)
    moreover have "2 ^ Suc m \<le> (k - m) * 2 ^ m" using assms(2) by simp
    ultimately show ?thesis by linarith
  next
    case False
    then have "encode_mag m 0 n = (j - m) * 2 ^ m + round_half_even n (j - m)"
      by (simp add: encode_mag_def j_def Let_def)
    moreover have "round_half_even n (j - m) \<le> 2 ^ Suc m"
      using round_half_even_le [OF n, of "j - m"] False by (simp add: Suc_diff_le)
    moreover have "(j - m) * 2 ^ m + 2 ^ Suc m = (j - m + 1) * 2 ^ m + 2 ^ m" by simp
    moreover have "(j - m + 1) * 2 ^ m \<le> (k - m) * 2 ^ m"
      using j False by (intro mult_right_mono) simp_all
    ultimately show ?thesis by linarith
  qed
qed

text \<open>A quarter of a unit above a power of two is rounded down to it.\<close>

lemma encode_mag_near:
  assumes "n \<le> 2 ^ k + 2 ^ (k - m - 2)" "m + 2 \<le> k"
  shows "encode_mag m 0 n \<le> (k - m) * 2 ^ m + 2 ^ m"
proof (cases "n < 2 ^ k")
  case False
  obtain h where h: "k - m = Suc (Suc h)" using assms(2) by (auto simp: le_iff_add)
  define d where "d = n - 2 ^ k"
  have "(2 :: nat) ^ k = 2 ^ m * 2 ^ (k - m)" using assms(2) by (simp flip: power_add)
  then have n: "n = 2 ^ m * 2 ^ (k - m) + d" using False by (simp add: d_def)
  have "d \<le> 2 ^ h" using assms(1) False by (simp add: d_def h)
  moreover have "0 < (2 :: nat) ^ h" by simp
  moreover have "(2 :: nat) ^ (k - m) = 4 * 2 ^ h" by (simp add: h)
  ultimately have d': "2 * d < 2 ^ (k - m)" "d < 2 ^ (k - m)" by linarith+
  have "round_half_even n (k - m) = 2 ^ m"
    using d' by (simp add: round_half_even_def n)
  moreover have "log2 n = k"
  proof (rule log2_unique)
    have "d < 2 ^ k" using d'(2) by (meson diff_le_self less_le_trans one_le_numeral power_increasing)
    then show "n < 2 ^ Suc k" using False by (simp add: d_def)
  qed (use False in simp)
  ultimately show ?thesis using assms(2) by (simp add: encode_mag_def)
qed (use encode_mag_below assms(2) in blast)

text \<open>Rounding a number below \<open>2 ^ k\<close> adds at most a quarter of the unit of \<open>2 ^ k\<close>.\<close>

lemma decode_encode_above:
  assumes "n < 2 ^ k" "m + 2 \<le> k"
  shows "decode_mag m (encode_mag m 0 n) \<le> n + 2 ^ (k - m - 2)"
proof (cases "log2 n \<le> m")
  case True
  have "n < 2 ^ Suc (log2 n)" using log2_bounds [of n] by (cases "n = 0") simp_all
  also have "\<dots> \<le> 2 ^ Suc m" using True by (intro power_increasing) simp_all
  finally show ?thesis using decode_encode_mag [of n m 0] by simp
next
  case False
  define j s where "j = log2 n" and "s = log2 n - m"
  define q where "q = round_half_even n s"
  have j: "j < k" "m < j" using log2_less [OF assms(1)] assms(2) False by (simp_all add: j_def)
  have n: "2 ^ j \<le> n" "n < 2 ^ Suc j" using log2_bounds [of n] j(2) by (cases "n = 0"; simp add: j_def log2.simps)+
  have "(2 :: nat) ^ j = 2 ^ m * 2 ^ s" using j by (simp add: s_def flip: power_add j_def)
  then have "2 ^ m \<le> n div 2 ^ s" using n(1) div_le_mono [of "2 ^ m * 2 ^ s" n "2 ^ s"] by simp
  then have q: "2 ^ m \<le> q" by (simp add: q_def round_half_even_def Let_def)
  have q': "q \<le> 2 ^ Suc m"
    using round_half_even_le [OF n(2), of s] j by (simp add: q_def s_def Suc_diff_le flip: j_def)
  have e: "encode_mag m 0 n = (j - m) * 2 ^ m + q" using j by (simp add: encode_mag_def Let_def q_def s_def j_def)
  have "decode_mag m ((j - m) * 2 ^ m + q) = q * 2 ^ s"
  proof (cases "q = 2 ^ Suc m")
    case True
    then have "(j - m) * 2 ^ m + q = Suc (Suc (j - m)) * 2 ^ m + 0" by simp
    then show ?thesis
      using decode_mag_scale [of "Suc (Suc (j - m))" 0 m] True by (simp only:) (simp add: s_def flip: j_def)
  next
    case False
    then have "(j - m) * 2 ^ m + q = Suc (j - m) * 2 ^ m + (q - 2 ^ m)" "q - 2 ^ m < 2 ^ m"
      using q q' by simp_all
    then show ?thesis
      using decode_mag_scale [of "Suc (j - m)" "q - 2 ^ m" m] q by (simp add: s_def flip: j_def)
  qed
  moreover have "q * 2 ^ s \<le> n + 2 ^ (k - m - 2)"
  proof -
    obtain h where h: "s = Suc h" using j by (cases s) (simp_all add: s_def flip: j_def)
    have "2 * (int q * 2 ^ s) \<le> 2 * int n + 2 ^ s"
      using round_half_even_nearest [of n s] by (simp add: q_def)
    then have "int (q * 2 ^ s) \<le> int (n + 2 ^ h)" by (simp add: h)
    then have "q * 2 ^ s \<le> n + 2 ^ h" by (simp only: of_nat_le_iff)
    moreover have "(2 :: nat) ^ h \<le> 2 ^ (k - m - 2)"
      using j h by (intro power_increasing) (simp_all add: s_def flip: j_def)
    ultimately show ?thesis by linarith
  qed
  ultimately show ?thesis by (simp add: e)
qed

lemma decode_mag_mono:
  assumes "p \<le> q"
  shows "decode_mag m p \<le> decode_mag m q"
proof (cases "p div 2 ^ m = q div 2 ^ m")
  case True
  then have "p mod 2 ^ m \<le> q mod 2 ^ m"
    using assms div_mult_mod_eq [of p "2 ^ m"] div_mult_mod_eq [of q "2 ^ m"] by simp
  then show ?thesis using True by (simp add: decode_mag_def Let_def)
next
  case False
  then have "p div 2 ^ m < q div 2 ^ m" using div_le_mono [OF assms, of "2 ^ m"] by simp
  then obtain E where E: "q div 2 ^ m = Suc E" "p div 2 ^ m < Suc E" by (cases "q div 2 ^ m") auto
  have "p < Suc E * 2 ^ m" using E(2) by (simp add: div_less_iff_less_mult)
  moreover have "Suc E * 2 ^ m \<le> q" unfolding E(1) [symmetric] by (rule div_times_less_eq_dividend)
  ultimately show ?thesis using decode_mag_lt decode_mag_ge by (meson less_imp_le le_trans)
qed

section \<open>Deadlines that stay within the format\<close>

text \<open>
  The magnitude of \<open>2 ^ 126\<close> seconds, which single precision can hold.
\<close>

definition deadline_limit :: nat where "deadline_limit = 1149 * 2 ^ 52"

lemma limit_value: "p \<le> deadline_limit \<Longrightarrow> decode_mag 52 p \<le> 2 ^ 1200"
proof -
  assume "p \<le> deadline_limit"
  moreover have "decode_mag 52 deadline_limit = 2 ^ 52 * 2 ^ 1148"
    using decode_mag_scale [of 1149 0 52] by (simp add: deadline_limit_def)
  moreover have "(2 :: nat) ^ 52 * 2 ^ 1148 = 2 ^ 1200" by (simp only: flip: power_add) simp
  ultimately show ?thesis using decode_mag_mono by metis
qed

lemma limit_encode: "n \<le> 2 ^ 1200 + 2 ^ 1146 \<Longrightarrow> round64 n \<le> deadline_limit"
  using encode_mag_near [of n 1200 52] by (simp add: round64_def deadline_limit_def)

lemma limit_finite: "p \<le> deadline_limit \<Longrightarrow> p < inf64"
  by (simp add: deadline_limit_def inf64_def)

lemma pack_limit:
  assumes "mag x \<le> deadline_limit"
  shows "pack_f x \<noteq> None"
proof -
  define n where "n = decode_mag 52 (mag x)"
  have n: "n < 2 ^ 1201" using limit_value [OF assms] by (simp add: n_def)
  define k where "k = log2 n"
  have k: "k \<le> 1200" using log2_less [OF n] by (simp add: k_def)
  have b: "n < 2 ^ Suc k" using log2_bounds [of n] by (cases "n = 0") (simp_all add: k_def)
  have "encode_mag 23 925 n < inf32"
  proof (cases "k \<le> 948")
    case True
    have "n < 2 ^ Suc 948" using b True by (meson less_le_trans one_le_numeral power_increasing Suc_le_mono)
    then have "round_half_even n 925 \<le> 2 ^ (Suc 948 - 925)" by (rule round_half_even_le) simp
    then show ?thesis using True by (simp add: encode_mag_def k_def inf32_def)
  next
    case False
    then have "round_half_even n (k - 23) \<le> 2 ^ 24" using round_half_even_le [OF b, of "k - 23"] by simp
    then have "encode_mag 23 925 n \<le> (k - 948) * 2 ^ 23 + 2 ^ 24"
      using False by (simp add: encode_mag_def Let_def flip: k_def)
    moreover have "(k - 948) * 2 ^ 23 \<le> 252 * 2 ^ 23" using k by (intro mult_right_mono) simp_all
    ultimately show ?thesis by (simp add: inf32_def)
  qed
  then show ?thesis
    using limit_finite [OF assms] by (simp add: pack_f_def narrow_mag_def n_def Let_def)
qed

lemma pack_not_finite: "inf64 \<le> mag x \<Longrightarrow> pack_f x \<noteq> None"
  by (auto simp: pack_f_def narrow_mag_def)

lemma mk_float_round64 [simp]:
  "mag (mk_float b (round64 n)) = round64 n" "negative (mk_float b (round64 n)) = b"
proof -
  have "round64 n < 2 ^ 63" by (simp add: round64_def inf64_def min_def)
  then show "mag (mk_float b (round64 n)) = round64 n" "negative (mk_float b (round64 n)) = b"
    by (rule mk_float_parts)+
qed

text \<open>
  A sender comes to a request at a finite time that is not before the one the request has.
\<close>

definition later :: "pyfloat \<Rightarrow> base_request \<Rightarrow> bool" where
  "later now r \<longleftrightarrow> \<not> negative now \<and> mag now < inf64 \<and> mag (rq_timestamp r) \<le> mag now"

definition timeout_fits :: "base_request \<Rightarrow> bool" where
  "timeout_fits r \<longleftrightarrow> mag (rq_timestamp r) < inf64 \<and>
     (inf64 \<le> mag (rq_timeout r) \<or> mag (rq_timeout r) = 0 \<or> mag (deadline r) \<le> deadline_limit)"

lemma deadline_zero:
  assumes "mag (rq_timestamp r) < inf64" "mag (rq_timeout r) = 0"
  shows "mag (deadline r) = mag (rq_timestamp r)" "negative (deadline r) = False"
proof -
  have "round64 (decode_mag 52 (mag (rq_timestamp r)) + decode_mag 52 0) = mag (rq_timestamp r)"
    using encode_decode_mag [of 52 0 "mag (rq_timestamp r)"] assms(1)
    by (simp add: round64_def decode_mag_def [of 52 0])
  then have "deadline r = mk_float False (mag (rq_timestamp r))"
    using assms by (simp add: deadline_def float_add_def is_nan_def inf64_def)
  moreover have "mag (rq_timestamp r) < 2 ^ 63" using assms(1) by (simp add: inf64_def)
  ultimately show "mag (deadline r) = mag (rq_timestamp r)" "negative (deadline r) = False" by simp_all
qed

text \<open>Neither of the two roundings takes the deadline over the limit.\<close>

lemma deadline_stays:
  assumes "mag d \<le> deadline_limit" "mag now < mag d"
    and t: "t = mk_float False (round64 (decode_mag 52 (mag d) - decode_mag 52 (mag now)))"
  shows "mag t \<le> deadline_limit" "mag (float_add now t) \<le> deadline_limit"
proof -
  define D N where "D = decode_mag 52 (mag d)" and "N = decode_mag 52 (mag now)"
  have D: "D \<le> 2 ^ 1200" using limit_value [OF assms(1)] by (simp add: D_def)
  have N: "N \<le> D" using decode_mag_mono [of "mag now" "mag d" 52] assms(2) by (simp add: D_def N_def)
  have "round64 (D - N) \<le> deadline_limit" using D by (intro limit_encode) linarith
  then show lt: "mag t \<le> deadline_limit" by (simp add: t D_def N_def)
  have "mag t = round64 (D - N)" by (simp add: t D_def N_def)
  then have mt: "mag t = encode_mag 52 0 (D - N)"
    using limit_finite [OF lt] by (simp add: round64_def min_def split: if_splits)
  have "N + decode_mag 52 (mag t) \<le> 2 ^ 1200 + 2 ^ 1146"
  proof (cases "N = 0")
    case True
    then have "decode_mag 52 (mag t) = D" using mt encode_decode_mag [of 52 0 "mag d"] by (simp add: D_def)
    then show ?thesis using D True by simp
  next
    case False
    then have "D - N < 2 ^ 1200" using D N by linarith
    then have "decode_mag 52 (mag t) \<le> (D - N) + 2 ^ 1146"
      using decode_encode_above [of "D - N" 1200 52] by (simp add: mt)
    then show ?thesis using D N by linarith
  qed
  then have "round64 (N + decode_mag 52 (mag t)) \<le> deadline_limit" by (rule limit_encode)
  moreover have "mag now < inf64" using assms limit_finite by (meson le_less_trans less_imp_le)
  ultimately show "mag (float_add now t) \<le> deadline_limit"
    using limit_finite [OF lt] by (simp add: float_add_def is_nan_def N_def)
qed

lemma timeout_fits_later:
  assumes "timeout_fits r" "later now r"
  defines "r' \<equiv> set_deadline now (deadline r) r"
  shows "timeout_fits r' \<and> pack_f (rq_timeout r') \<noteq> None"
proof -
  have ts: "rq_timestamp r' = now" "mag now < inf64" "mag (rq_timestamp r) < inf64"
    using assms by (auto simp: set_deadline_def seconds_remaining_def later_def timeout_fits_def)
  have z: "timeout_fits r' \<and> pack_f (rq_timeout r') \<noteq> None" if "mag (rq_timeout r') = 0"
    using that ts pack_limit [of "rq_timeout r'"] by (simp add: timeout_fits_def)
  have b: "timeout_fits r' \<and> pack_f (rq_timeout r') \<noteq> None" if "inf64 \<le> mag (rq_timeout r')"
    using that ts pack_not_finite by (auto simp: timeout_fits_def)
  consider (big) "inf64 \<le> mag (rq_timeout r)" | (zero) "mag (rq_timeout r) = 0"
    | (limit) "mag (deadline r) \<le> deadline_limit"
    using assms(1) by (auto simp: timeout_fits_def)
  then show ?thesis
  proof cases
    case big
    have "inf64 \<le> mag (rq_timeout r')"
      using big ts(3)
      by (auto simp: r'_def set_deadline_def seconds_remaining_def deadline_def float_add_def is_nan_def
          is_inf_def float_sub_max0_def py_inf_def inf64_def)
    then show ?thesis by (rule b)
  next
    case zero
    have "mag (deadline r) \<le> mag now" "\<not> is_inf (deadline r)"
      using deadline_zero [OF ts(3) zero] assms(2) ts(3) by (simp_all add: later_def is_inf_def)
    then have "rq_timeout r' = (if is_nan (deadline r) then deadline r else py_zero)"
      by (simp add: r'_def set_deadline_def seconds_remaining_def float_sub_max0_def)
    moreover have "\<not> is_nan (deadline r)" using deadline_zero [OF ts(3) zero] ts(3) by (simp add: is_nan_def)
    ultimately show ?thesis by (intro z) (simp add: py_zero_def mag_def)
  next
    case limit
    have fin: "\<not> is_inf (deadline r)" "\<not> is_nan (deadline r)"
      using limit_finite [OF limit] by (simp_all add: is_inf_def is_nan_def)
    have left: "rq_timeout r' = float_sub_max0 (deadline r) now"
      using fin by (simp add: r'_def set_deadline_def seconds_remaining_def)
    show ?thesis
    proof (cases "negative (deadline r) \<or> mag (deadline r) \<le> mag now")
      case True
      then have "mag (rq_timeout r') = 0" using fin by (simp add: left float_sub_max0_def py_zero_def mag_def)
      then show ?thesis by (rule z)
    next
      case False
      then have "mag (rq_timeout r') \<le> deadline_limit \<and> mag (float_add now (rq_timeout r')) \<le> deadline_limit"
        using deadline_stays [OF limit _ refl, of now] fin by (simp add: left float_sub_max0_def)
      then show ?thesis using ts pack_limit [of "rq_timeout r'"] by (simp add: timeout_fits_def deadline_def)
    qed
  qed
qed

section \<open>Messages that can be written whenever they are sent\<close>

text \<open>The message without its deadline; a message that cannot be written even then never can.\<close>

fun forever :: "message \<Rightarrow> message" where
  "forever (Req r) = Req (map_base (\<lambda>b. b\<lparr>rq_timestamp := 0, rq_timeout := py_inf\<rparr>) r)"
| "forever m = m"

fun timely :: "pyfloat \<Rightarrow> message \<Rightarrow> bool" where
  "timely now (Req r) = later now (rq_base r)"
| "timely now m = True"

fun deadline_fits :: "message \<Rightarrow> bool" where
  "deadline_fits (Req r) = timeout_fits (rq_base r)"
| "deadline_fits m = True"

definition fits_wire :: "message \<Rightarrow> bool" where
  "fits_wire m \<longleftrightarrow> sendable (forever m) \<and> deadline_fits m"

lemma pack_inf [simp]: "pack_f py_inf \<noteq> None" "\<exists>bs. pack_f py_inf = Some bs"
  using pack_not_finite [of py_inf] by (auto simp: py_inf_def inf64_def)

lemma sendable_forever:
  "sendable (Req r) \<longleftrightarrow> sendable (forever (Req r)) \<and> pack_f (rq_timeout (rq_base r)) \<noteq> None"
  by (cases r) (auto simp: sendable_def request_io_def send_io_def request_values_def send_values_def)

lemma forever_normalize [simp]: "forever (normalize_deadline now m) = forever m"
  proof (cases m)
  case (Req r)
  then show ?thesis by (cases r) (simp_all add: set_deadline_def seconds_remaining_def)
qed simp_all

lemma rq_base_map_base [simp]: "rq_base (map_base f r) = f (rq_base r)"
  by (cases r) simp_all

lemma fits_wire_later:
  assumes "fits_wire m" "timely now m"
  shows "sendable (normalize_deadline now m) \<and> fits_wire (normalize_deadline now m)"
proof (cases m)
  case (Req r)
  then show ?thesis
    using assms timeout_fits_later [of "rq_base r" now] forever_normalize [of now m]
      sendable_forever [of "map_base (\<lambda>b. set_deadline now (deadline b) b) r"]
    by (simp add: fits_wire_def)
qed (use assms in \<open>simp_all add: fits_wire_def\<close>)

lemma not_forever_sendable: "\<not> sendable (forever m) \<Longrightarrow> \<not> sendable m"
proof (cases m)
  case (Req r)
  then show "\<not> sendable (forever m) \<Longrightarrow> \<not> sendable m" using sendable_forever [of r] by blast
qed simp_all

end
