(* ===== verification/Network.thy ===== *)
theory Network
  imports Deadlines
begin

text \<open>
  Transports that exchange messages over connections that may break at any moment: what was
  written last on a broken connection may be lost, in whole or in part, and the message whose
  writing failed is sent again over another connection.  The step relation interleaves the
  coroutines of \<open>transport/tcp/transport.py\<close> of all nodes; the invariant says what a node can
  rely on as long as every message fits the wire format, and what it cannot when one does not.
\<close>

section \<open>Framing\<close>

text \<open>
  What the network relies on of the wire format: messages follow one another on a stream, and a
  part of a message is not a message.
\<close>

locale framing =
  fixes ok :: "'m \<Rightarrow> bool"
    and enc :: "'m \<Rightarrow> bytes"
    and dec :: "'c \<Rightarrow> 'n reader"
    and view :: "'c \<Rightarrow> 'm \<Rightarrow> 'n"
  assumes dec_Nil: "dec now [] = (Inl IncompleteReadError, [])"
    and dec_enc: "ok m \<Longrightarrow> dec now (enc m @ rest) = (Inr (view now m), rest)"
    and dec_part: "ok m \<Longrightarrow> enc m = p @ q \<Longrightarrow> q \<noteq> [] \<Longrightarrow> dec now p = (Inl IncompleteReadError, [])"
begin

definition torn :: "bytes \<Rightarrow> bool" where
  "torn p \<longleftrightarrow> p = [] \<or> (\<exists>m q. ok m \<and> enc m = p @ q \<and> q \<noteq> [])"

definition whole :: "'m list \<Rightarrow> bytes \<Rightarrow> bool" where
  "whole ms bs \<longleftrightarrow> (\<forall>m\<in>set ms. ok m) \<and> bs = concat (map enc ms)"

definition carries :: "'m list \<Rightarrow> bytes \<Rightarrow> bool" where
  "carries ms bs \<longleftrightarrow> (\<exists>p. torn p \<and> (\<forall>m\<in>set ms. ok m) \<and> bs = concat (map enc ms) @ p)"

lemma whole_carries: "whole ms bs \<Longrightarrow> carries ms bs"
  by (auto simp: whole_def carries_def torn_def)

lemma whole_Nil [simp]: "whole [] []"
  by (simp add: whole_def)

lemma carries_Nil [simp]: "carries [] []"
  by (rule whole_carries) simp

lemma whole_snoc: "whole ms bs \<Longrightarrow> ok m \<Longrightarrow> whole (ms @ [m]) (bs @ enc m)"
  by (auto simp: whole_def)

lemma torn_take:
  assumes "torn p"
  shows "torn (take k p)"
proof (cases "p = []")
  case False
  then obtain m q where "ok m" "enc m = p @ q" "q \<noteq> []" using assms by (auto simp: torn_def)
  then have "ok m \<and> enc m = take k p @ (drop k p @ q) \<and> drop k p @ q \<noteq> []" by simp
  then show ?thesis unfolding torn_def by blast
qed (simp add: torn_def)

lemma torn_dec: "torn p \<Longrightarrow> dec now p = (Inl IncompleteReadError, [])"
  unfolding torn_def using dec_Nil dec_part by blast

lemma carries_take: "carries ms bs \<Longrightarrow> \<exists>ns. carries ns (take k bs) \<and> set ns \<subseteq> set ms"
proof (induction ms arbitrary: bs k)
  case Nil
  then obtain p where p: "torn p" "bs = p" by (auto simp: carries_def)
  show ?case using torn_take [OF p(1)] p by (intro exI [of _ "[]"]) (auto simp: carries_def)
next
  case (Cons m ms)
  then obtain p where p: "torn p" "ok m" "\<forall>m\<in>set ms. ok m" "bs = enc m @ concat (map enc ms) @ p"
    by (auto simp: carries_def)
  have rest: "carries ms (concat (map enc ms) @ p)" using p by (auto simp: carries_def)
  show ?case
  proof (cases "length (enc m) \<le> k")
    case True
    obtain ns where "carries ns (take (k - length (enc m)) (concat (map enc ms) @ p))" "set ns \<subseteq> set ms"
      using Cons.IH [OF rest] by blast
    then show ?thesis using True p(2)
      by (intro exI [of _ "m # ns"]) (auto simp: carries_def p(4))
  next
    case False
    then have "torn (take k (enc m))"
      using p(2) unfolding torn_def by (metis append_take_drop_id drop_eq_Nil)
    then show ?thesis using False
      by (intro exI [of _ "[]"]) (auto simp: carries_def p(4))
  qed
qed

lemma whole_broken:
  assumes "whole ms bs" "ok m"
  shows "\<exists>ns. carries ns (bs @ take k (enc m)) \<and> set ns \<subseteq> insert m (set ms)"
  using carries_take [OF whole_carries [OF whole_snoc [OF assms]], of "length bs + k"] by simp

lemma carries_dec:
  assumes "carries ms bs" "dec now bs = (Inr n, rest)"
  shows "\<exists>m ns. ms = m # ns \<and> n = view now m \<and> carries ns rest"
proof (cases ms)
  case Nil
  then show ?thesis using assms torn_dec by (auto simp: carries_def)
next
  case (Cons m ns)
  then show ?thesis using assms dec_enc [of m now] by (auto simp: carries_def)
qed

lemma whole_dec:
  assumes "whole ms bs" "dec now bs = (Inr n, rest)"
  shows "\<exists>m ns. ms = m # ns \<and> n = view now m \<and> whole ns rest"
  using assms dec_Nil dec_enc by (cases ms) (auto simp: whole_def)

end


definition encoding :: "message \<Rightarrow> bytes" where
  "encoding m = snd (write_message m [])"

lemma encoding_written: "sendable m \<Longrightarrow> write_message m [] = (Inr (), encoding m)"
  using write_message_ok [of m] by (auto simp: encoding_def)

interpretation stream: framing sendable encoding read_message received
proof
  show "read_message now [] = (Inl IncompleteReadError, [])" for now
    by (simp add: read_message_def readexactly_def bnd_apply)
  show "read_message now (encoding m @ rest) = (Inr (received now m), rest)" if "sendable m" for m now rest
    by (rule read_message_write_message [OF encoding_written [OF that]])
  show "read_message now p = (Inl IncompleteReadError, [])"
    if "sendable m" "encoding m = p @ q" "q \<noteq> []" for m p q now
    using read_message_part [of m p q now] encoding_written [OF that(1)] that by simp
qed

text \<open>After the handshake a node knows the address of its peer, and has read nothing else.\<close>

lemma handshake_learns_address:
  assumes "do_handshake_write a [] = (Inr (), data)"
  shows "do_handshake_read now (data @ rest) = (Inr a, rest)"
proof -
  obtain p where p: "port a = Some p" using assms by (cases "port a") (auto simp: do_handshake_write_def hello_def bnd_apply)
  obtain m where m: "hello a = Inr m" "received now m = m" "from_hello m = Inr a"
    using p by (cases a; cases "host a") (auto simp: hello_def)
  then have "write_message m [] = (Inr (), data)"
    using assms by (simp add: do_handshake_write_def bnd_apply)
  then show ?thesis using read_message_write_message [of m data now rest] m
    by (simp add: do_handshake_read_def bnd_apply)
qed

section \<open>The network\<close>

text \<open>
  One direction of a connection: the bytes written and not read yet, and whether its writer still
  uses it.
\<close>

record line =
  ln_bytes :: bytes
  ln_open :: bool

text \<open>
  \<open>n_lines a b\<close> are the connections over which \<open>a\<close> writes to \<open>b\<close>.  Three logs are kept for the
  statements only: the requests written (from, to, request), the requests accepted (from, at,
  request) and the responses written (from, to, response).
\<close>

record net =
  n_peer :: "address \<Rightarrow> transport"
  n_lines :: "address \<Rightarrow> address \<Rightarrow> line list"
  n_sent :: "(address \<times> address \<times> request) set"
  n_got :: "(address \<times> address \<times> request) list"
  n_answers :: "(address \<times> address \<times> response) set"

definition init_net :: net where
  "init_net = \<lparr>n_peer = new_transport, n_lines = (\<lambda>_ _. []), n_sent = {}, n_got = [], n_answers = {}\<rparr>"

definition set_peer :: "address \<Rightarrow> transport \<Rightarrow> net \<Rightarrow> net" where
  "set_peer a t s = s\<lparr>n_peer := (n_peer s)(a := t)\<rparr>"

definition set_lines :: "address \<Rightarrow> address \<Rightarrow> line list \<Rightarrow> net \<Rightarrow> net" where
  "set_lines a b ls s = s\<lparr>n_lines := (n_lines s)(a := (n_lines s a)(b := ls))\<rparr>"

text \<open>The requests a transport accepts while it handles a message, for the log.\<close>

definition accepted :: "address \<Rightarrow> transport \<Rightarrow> transport \<Rightarrow> (address \<times> address \<times> request) list" where
  "accepted b t t' = map (\<lambda>(r, a). (a, b, r)) (drop (length (tr_requests t)) (tr_requests t'))"

text \<open>
  A node writes a request; a sender writes the next message of a mailbox on an open connection,
  which may raise: \<open>_do_send\<close> puts the message back and ends, \<open>run_forever\<close> starts it again, and
  what was written of the message stays on the connection, which remains open; the connection
  breaks while a message is written, with some part of it on the connection; a broken connection
  loses what was written last; a connection is made; a receiver reads a message, or meets an error,
  which is the end of a broken connection or bytes that are no message, and goes on with what
  follows; the server takes a request, and answers a request that was accepted.  The clock of a
  sender is not behind the time that a request carries.
\<close>

inductive net_step :: "net \<Rightarrow> net \<Rightarrow> bool" where
  request: "write_request req b (n_peer s a) = (n, t) \<Longrightarrow>
    net_step s ((set_peer a t s)
      \<lparr>n_sent := insert (a, b, map_base (\<lambda>r. r\<lparr>rq_seqno := Some n\<rparr>) req) (n_sent s),
       n_got := n_got s @ accepted a (n_peer s a) t\<rparr>)"
| send: "\<lbrakk>do_send now b (n_peer s a) = Some (Inr (), data, t); timely now (hd (tr_mailboxes (n_peer s a) b));
     i < length (n_lines s a b); l = n_lines s a b ! i; ln_open l\<rbrakk> \<Longrightarrow>
    net_step s (set_peer a t (set_lines a b ((n_lines s a b)[i := l\<lparr>ln_bytes := ln_bytes l @ data\<rparr>]) s))"
| failed: "\<lbrakk>do_send now b (n_peer s a) = Some (Inl e, data, t); timely now (hd (tr_mailboxes (n_peer s a) b));
     i < length (n_lines s a b); l = n_lines s a b ! i; ln_open l\<rbrakk> \<Longrightarrow>
    net_step s (set_peer a t (set_lines a b ((n_lines s a b)[i := l\<lparr>ln_bytes := ln_bytes l @ data\<rparr>]) s))"
| broken: "\<lbrakk>do_send_broken now k b (n_peer s a) = Some (part, t); timely now (hd (tr_mailboxes (n_peer s a) b));
     i < length (n_lines s a b); l = n_lines s a b ! i; ln_open l\<rbrakk> \<Longrightarrow>
    net_step s (set_peer a t (set_lines a b
      ((n_lines s a b)[i := l\<lparr>ln_bytes := ln_bytes l @ part, ln_open := False\<rparr>]) s))"
| lose: "\<lbrakk>i < length (n_lines s a b); l = n_lines s a b ! i\<rbrakk> \<Longrightarrow>
    net_step s (set_lines a b ((n_lines s a b)[i := l\<lparr>ln_bytes := take k (ln_bytes l), ln_open := False\<rparr>]) s)"
| connect: "net_step s (set_lines a b (n_lines s a b @ [\<lparr>ln_bytes = [], ln_open = True\<rparr>]) s)"
| recv: "\<lbrakk>i < length (n_lines s a b); l = n_lines s a b ! i; a \<noteq> b;
     read_message now (ln_bytes l) = (Inr m, rest); t = handle_recv m a (n_peer s b)\<rbrakk> \<Longrightarrow>
    net_step s ((set_peer b t (set_lines a b ((n_lines s a b)[i := l\<lparr>ln_bytes := rest\<rparr>]) s))
      \<lparr>n_got := n_got s @ accepted b (n_peer s b) t\<rparr>)"
| skip: "\<lbrakk>i < length (n_lines s a b); l = n_lines s a b ! i;
     read_message now (ln_bytes l) = (Inl e, rest); \<not> ln_open l \<or> e \<noteq> IncompleteReadError\<rbrakk> \<Longrightarrow>
    net_step s (set_lines a b ((n_lines s a b)[i := l\<lparr>ln_bytes := rest\<rparr>]) s)"
| serve: "read_request (n_peer s b) = Some ((req, a), t) \<Longrightarrow> net_step s (set_peer b t s)"
| respond: "\<lbrakk>(a, b, req) \<in> set (n_got s); rp_seqno resp = rq_seqno (rq_base req)\<rbrakk> \<Longrightarrow>
    net_step s ((set_peer b (write_response resp a (n_peer s b)) s)
      \<lparr>n_answers := insert (b, a, resp) (n_answers s)\<rparr>)"

definition net_run :: "net \<Rightarrow> net \<Rightarrow> bool" where
  "net_run = net_step\<^sup>*\<^sup>*"

text \<open>
  The steps of a network in which no write raises, whatever the clocks show: a sender that is
  interrupted was writing a message that can be encoded, and only a broken connection ends in the
  middle of a message.
\<close>

inductive clean_step :: "net \<Rightarrow> net \<Rightarrow> bool" where
  request: "write_request req b (n_peer s a) = (n, t) \<Longrightarrow>
    clean_step s ((set_peer a t s)
      \<lparr>n_sent := insert (a, b, map_base (\<lambda>r. r\<lparr>rq_seqno := Some n\<rparr>) req) (n_sent s),
       n_got := n_got s @ accepted a (n_peer s a) t\<rparr>)"
| send: "\<lbrakk>do_send now b (n_peer s a) = Some (Inr (), data, t); i < length (n_lines s a b);
     l = n_lines s a b ! i; ln_open l\<rbrakk> \<Longrightarrow>
    clean_step s (set_peer a t (set_lines a b ((n_lines s a b)[i := l\<lparr>ln_bytes := ln_bytes l @ data\<rparr>]) s))"
| broken: "\<lbrakk>do_send_broken now k b (n_peer s a) = Some (part, t); sendable (normalize_deadline now (hd (tr_mailboxes (n_peer s a) b)));
     i < length (n_lines s a b); l = n_lines s a b ! i; ln_open l\<rbrakk> \<Longrightarrow>
    clean_step s (set_peer a t (set_lines a b
      ((n_lines s a b)[i := l\<lparr>ln_bytes := ln_bytes l @ part, ln_open := False\<rparr>]) s))"
| lose: "\<lbrakk>i < length (n_lines s a b); l = n_lines s a b ! i\<rbrakk> \<Longrightarrow>
    clean_step s (set_lines a b ((n_lines s a b)[i := l\<lparr>ln_bytes := take k (ln_bytes l), ln_open := False\<rparr>]) s)"
| connect: "clean_step s (set_lines a b (n_lines s a b @ [\<lparr>ln_bytes = [], ln_open = True\<rparr>]) s)"
| recv: "\<lbrakk>i < length (n_lines s a b); l = n_lines s a b ! i; a \<noteq> b;
     read_message now (ln_bytes l) = (Inr m, rest); t = handle_recv m a (n_peer s b)\<rbrakk> \<Longrightarrow>
    clean_step s ((set_peer b t (set_lines a b ((n_lines s a b)[i := l\<lparr>ln_bytes := rest\<rparr>]) s))
      \<lparr>n_got := n_got s @ accepted b (n_peer s b) t\<rparr>)"
| eof: "\<lbrakk>i < length (n_lines s a b); l = n_lines s a b ! i; \<not> ln_open l;
     read_message now (ln_bytes l) = (Inl e, rest)\<rbrakk> \<Longrightarrow>
    clean_step s (set_lines a b ((n_lines s a b)[i := l\<lparr>ln_bytes := rest\<rparr>]) s)"
| serve: "read_request (n_peer s b) = Some ((req, a), t) \<Longrightarrow> clean_step s (set_peer b t s)"
| respond: "\<lbrakk>(a, b, req) \<in> set (n_got s); rp_seqno resp = rq_seqno (rq_base req)\<rbrakk> \<Longrightarrow>
    clean_step s ((set_peer b (write_response resp a (n_peer s b)) s)
      \<lparr>n_answers := insert (b, a, resp) (n_answers s)\<rparr>)"

section \<open>What travels\<close>

text \<open>A request without the parts that change on its way.\<close>

fun content :: "request \<Rightarrow> request" where
  "content (SendRequest r s) = SendRequest (r\<lparr>rq_timestamp := 0, rq_timeout := 0\<rparr>) (received_send s)"
| "content (SendMemoryRequest r s m) = SendMemoryRequest (r\<lparr>rq_timestamp := 0, rq_timeout := 0\<rparr>) (received_send s) m"
| "content (RecvRequest r) = RecvRequest (r\<lparr>rq_timestamp := 0, rq_timeout := 0\<rparr>)"
| "content (EventRequest r m) = EventRequest (r\<lparr>rq_timestamp := 0, rq_timeout := 0\<rparr>) m"

lemma content_received [simp]: "content (received_request now r) = content r"
  by (cases r) (simp_all add: received_base_def received_send_def)

lemma content_deadline [simp]:
  "content (map_base (\<lambda>b. set_deadline now (deadline b) b) r) = content r"
  by (cases r) (simp_all add: set_deadline_def seconds_remaining_def)

lemma content_seqno: "content r = content r' \<Longrightarrow> rq_seqno (rq_base r) = rq_seqno (rq_base r')"
  by (cases r; cases r') (auto simp: base_request.defs dest: arg_cong [where f = rq_seqno])

text \<open>What a node may have sent to another: a request it wrote, or a response it wrote.\<close>

fun genuine :: "net \<Rightarrow> address \<Rightarrow> address \<Rightarrow> message \<Rightarrow> bool" where
  "genuine s a b (Req r) \<longleftrightarrow> (\<exists>r0. (a, b, r0) \<in> n_sent s \<and> content r0 = content r)"
| "genuine s a b (Resp p) \<longleftrightarrow> (a, b, p) \<in> n_answers s"
| "genuine s a b _ \<longleftrightarrow> False"

lemma genuine_received [simp]: "genuine s a b (received now m) = genuine s a b m"
  by (cases m) simp_all

lemma genuine_normalize [simp]: "genuine s a b (normalize_deadline now m) = genuine s a b m"
  by (cases m) simp_all

lemma genuine_mono:
  "genuine s a b m \<Longrightarrow> n_sent s \<subseteq> n_sent s' \<Longrightarrow> n_answers s \<subseteq> n_answers s' \<Longrightarrow> genuine s' a b m"
  by (cases m) auto

section \<open>What the operations of a transport leave alone\<close>

named_theorems tr_simps \<open>the attributes an operation of a transport does not change\<close>

lemma recv_response_frame [tr_simps]:
  "tr_addr (recv_response p a t) = tr_addr t"
  "tr_seqno (recv_response p a t) = tr_seqno t"
  "tr_last_request (recv_response p a t) = tr_last_request t"
  "tr_requests (recv_response p a t) = tr_requests t"
  "tr_mailboxes (recv_response p a t) = tr_mailboxes t"
  by (simp_all add: recv_response_def split: option.split)

lemma recv_request_frame [tr_simps]:
  "tr_addr (recv_request r a t) = tr_addr t"
  "tr_seqno (recv_request r a t) = tr_seqno t"
  "tr_responses (recv_request r a t) = tr_responses t"
  "tr_futures (recv_request r a t) = tr_futures t"
  "tr_mailboxes (recv_request r a t) = tr_mailboxes t"
  by (simp_all add: recv_request_def)

lemma enqueue_frame [tr_simps]:
  "tr_addr (enqueue m a t) = tr_addr t"
  "tr_seqno (enqueue m a t) = tr_seqno t"
  "tr_responses (enqueue m a t) = tr_responses t"
  "tr_futures (enqueue m a t) = tr_futures t"
  "tr_last_request (enqueue m a t) = tr_last_request t"
  "tr_requests (enqueue m a t) = tr_requests t"
  by (simp_all add: enqueue_def)

text \<open>The futures a response may complete: the one with its number, if it is pending.\<close>

lemma recv_response_futures:
  "tr_futures (recv_response p a t) n =
     (if rp_seqno p = Some n \<and> n \<in> tr_responses t then Some (p, a) else tr_futures t n)"
  "tr_responses (recv_response p a t) = tr_responses t - set_option (rp_seqno p)"
  by (auto simp: recv_response_def split: option.split)

lemma write_response_frame [tr_simps]:
  "tr_addr (write_response p a t) = tr_addr t"
  "tr_seqno (write_response p a t) = tr_seqno t"
  "tr_last_request (write_response p a t) = tr_last_request t"
  "tr_requests (write_response p a t) = tr_requests t"
  by (simp_all add: write_response_def tr_simps)

lemma sent_frame [tr_simps]:
  "tr_addr (sent m t) = tr_addr t"
  "tr_seqno (sent m t) = tr_seqno t"
  "tr_last_request (sent m t) = tr_last_request t"
  "tr_requests (sent m t) = tr_requests t"
  "tr_mailboxes (sent m t) = tr_mailboxes t"
  by (simp_all add: sent_def tr_simps)

lemma unget_frame [tr_simps]:
  "tr_addr (unget m a t) = tr_addr t"
  "tr_seqno (unget m a t) = tr_seqno t"
  "tr_responses (unget m a t) = tr_responses t"
  "tr_futures (unget m a t) = tr_futures t"
  "tr_last_request (unget m a t) = tr_last_request t"
  "tr_requests (unget m a t) = tr_requests t"
  by (simp_all add: unget_def)

text \<open>Accepting appends to the queue of requests, so the log grows by what was accepted.\<close>

lemma accepted_none [simp]: "tr_requests t' = tr_requests t \<Longrightarrow> accepted b t t' = []"
  by (simp add: accepted_def)

lemma accepted_request:
  "tr_requests t = tr_requests t0 \<Longrightarrow> accepted b t0 (recv_request r a t) =
     (if seqno_of r \<le> tr_last_request t a then [] else [(a, b, r)])"
  by (simp add: accepted_def recv_request_def)

text \<open>The requests that one node accepted from another, in order.\<close>

definition got_from :: "address \<Rightarrow> address \<Rightarrow> net \<Rightarrow> request list" where
  "got_from a b s = map (\<lambda>(_, _, r). r) (filter (\<lambda>(x, y, _). x = a \<and> y = b) (n_got s))"

lemma in_got_from [simp]: "r \<in> set (got_from a b s) \<longleftrightarrow> (a, b, r) \<in> set (n_got s)"
  by (force simp: got_from_def)

text \<open>
  What a step does to a transport: the attributes that only grow, and the effect of a message that
  it handles itself.
\<close>

lemma write_request_cases:
  assumes "write_request req b t = (n, t')"
  defines "r \<equiv> map_base (\<lambda>x. x\<lparr>rq_seqno := Some n\<rparr>) req"
  defines "t1 \<equiv> t\<lparr>tr_seqno := tr_seqno t + 1, tr_responses := insert n (tr_responses t)\<rparr>"
  defines "t2 \<equiv> recv_response (SendResponse (Some n)) (tr_addr t) t1"
  shows "n = tr_seqno t"
    and "b = tr_addr t \<Longrightarrow>
      t' = recv_request r b (if send_mode (Req r) \<in> {Some IMMEDIATELY, Some WHEN_BUFFERED} then t2 else t1)"
    and "b \<noteq> tr_addr t \<Longrightarrow>
      t' = enqueue (Req r) b (if send_mode (Req r) = Some IMMEDIATELY then t2 else t1)"
proof -
  have q: "rq_seqno (rq_base r) = Some n" by (cases req) (simp_all add: r_def)
  show n: "n = tr_seqno t"
    using assms(1) by (simp add: write_request_def Let_def)
  have t': "t' = handle_send (Req r) b t1"
    using assms(1) unfolding write_request_def r_def t1_def by (auto simp: Let_def)
  have a: "tr_addr t1 = tr_addr t" by (simp add: t1_def)
  show "b = tr_addr t \<Longrightarrow>
      t' = recv_request r b (if send_mode (Req r) \<in> {Some IMMEDIATELY, Some WHEN_BUFFERED} then t2 else t1)"
    by (simp add: t' handle_send_def loopback_send_def a q t2_def Let_def)
  show "b \<noteq> tr_addr t \<Longrightarrow>
      t' = enqueue (Req r) b (if send_mode (Req r) = Some IMMEDIATELY then t2 else t1)"
    by (simp add: t' handle_send_def a q t2_def Let_def)
qed

section \<open>The invariant\<close>

definition line_ok :: "net \<Rightarrow> address \<Rightarrow> address \<Rightarrow> line \<Rightarrow> bool" where
  "line_ok s a b l \<longleftrightarrow> (\<exists>ms. (\<forall>m\<in>set ms. genuine s a b m) \<and>
     (if ln_open l then stream.whole ms (ln_bytes l) else stream.carries ms (ln_bytes l)))"

definition mail_ok :: "net \<Rightarrow> bool" where
  "mail_ok s \<longleftrightarrow> (\<forall>a b. (\<forall>m\<in>set (tr_mailboxes (n_peer s a) b). genuine s a b m) \<and>
     (\<forall>l\<in>set (n_lines s a b). line_ok s a b l))"

definition got_ok :: "net \<Rightarrow> bool" where
  "got_ok s \<longleftrightarrow> (\<forall>a b. sorted_wrt (<) (map seqno_of (got_from a b s)) \<and>
     (\<forall>r\<in>set (got_from a b s). seqno_of r \<le> tr_last_request (n_peer s b) a \<and> genuine s a b (Req r)))"

definition sent_ok :: "net \<Rightarrow> bool" where
  "sent_ok s \<longleftrightarrow> (\<forall>a b r. (a, b, r) \<in> n_sent s \<longrightarrow>
     (\<exists>n. rq_seqno (rq_base r) = Some n \<and> n < tr_seqno (n_peer s a) \<and>
       (\<forall>b' r'. (a, b', r') \<in> n_sent s \<longrightarrow> rq_seqno (rq_base r') = Some n \<longrightarrow> b' = b \<and> r' = r)))"

definition answers_ok :: "net \<Rightarrow> bool" where
  "answers_ok s \<longleftrightarrow> (\<forall>a b p. (b, a, p) \<in> n_answers s \<longrightarrow>
     (\<exists>r. (a, b, r) \<in> set (n_got s) \<and> rq_seqno (rq_base r) = rp_seqno p))"

text \<open>
  A send that does not wait for the receiver is answered by the sender's own transport.
\<close>

definition local_answer :: "net \<Rightarrow> address \<Rightarrow> int \<Rightarrow> response \<Rightarrow> address \<Rightarrow> bool" where
  "local_answer s a n p c \<longleftrightarrow> c = a \<and> p = SendResponse (Some n) \<and>
     (\<exists>b r. (a, b, r) \<in> n_sent s \<and> rq_seqno (rq_base r) = Some n \<and>
        send_mode (Req r) \<in> {Some IMMEDIATELY, Some WHEN_BUFFERED})"

definition futures_ok :: "net \<Rightarrow> bool" where
  "futures_ok s \<longleftrightarrow> (\<forall>a n. (n \<in> tr_responses (n_peer s a) \<longrightarrow>
        n < tr_seqno (n_peer s a) \<and> tr_futures (n_peer s a) n = None) \<and>
     (\<forall>p c. tr_futures (n_peer s a) n = Some (p, c) \<longrightarrow> n < tr_seqno (n_peer s a) \<and>
        rp_seqno p = Some n \<and> ((c, a, p) \<in> n_answers s \<or> local_answer s a n p c)))"

definition addr_ok :: "net \<Rightarrow> bool" where
  "addr_ok s \<longleftrightarrow> (\<forall>a. tr_addr (n_peer s a) = a)"

definition net_inv :: "net \<Rightarrow> bool" where
  "net_inv s \<longleftrightarrow> addr_ok s \<and> mail_ok s \<and> got_ok s \<and> sent_ok s \<and> answers_ok s \<and> futures_ok s"

lemmas net_inv_defs = net_inv_def addr_ok_def mail_ok_def got_ok_def sent_ok_def answers_ok_def futures_ok_def

lemma net_inv_init: "net_inv init_net"
  by (simp add: net_inv_defs init_net_def new_transport_def got_from_def)

lemma set_peer_simps [simp]:
  "n_peer (set_peer a t s) b = (if b = a then t else n_peer s b)"
  "n_lines (set_peer a t s) = n_lines s" "n_sent (set_peer a t s) = n_sent s"
  "n_got (set_peer a t s) = n_got s" "n_answers (set_peer a t s) = n_answers s"
  by (simp_all add: set_peer_def)

lemma set_lines_simps [simp]:
  "n_lines (set_lines a b ls s) x y = (if x = a \<and> y = b then ls else n_lines s x y)"
  "n_peer (set_lines a b ls s) = n_peer s" "n_sent (set_lines a b ls s) = n_sent s"
  "n_got (set_lines a b ls s) = n_got s" "n_answers (set_lines a b ls s) = n_answers s"
  by (simp_all add: set_lines_def)


lemma genuine_cong:
  "n_sent s' = n_sent s \<Longrightarrow> n_answers s' = n_answers s \<Longrightarrow> genuine s' a b m = genuine s a b m"
  by (cases m) simp_all

lemma line_ok_mono:
  "line_ok s a b l \<Longrightarrow> n_sent s \<subseteq> n_sent s' \<Longrightarrow> n_answers s \<subseteq> n_answers s' \<Longrightarrow> line_ok s' a b l"
  unfolding line_ok_def using genuine_mono by metis

lemma line_ok_cong:
  "n_sent s' = n_sent s \<Longrightarrow> n_answers s' = n_answers s \<Longrightarrow> line_ok s' a b l = line_ok s a b l"
  by (simp add: line_ok_def genuine_cong [of s' s])

lemma local_answer_mono: "local_answer s a n p c \<Longrightarrow> n_sent s \<subseteq> n_sent s' \<Longrightarrow> local_answer s' a n p c"
  by (auto simp: local_answer_def)

lemma got_from_same: "n_got s' = n_got s \<Longrightarrow> got_from a b s' = got_from a b s"
  by (simp add: got_from_def)

text \<open>Each part of the invariant depends on a few attributes only.\<close>

lemma mail_ok_frame:
  assumes "mail_ok s" "n_sent s' = n_sent s" "n_answers s' = n_answers s" "n_lines s' = n_lines s"
    "\<And>a. tr_mailboxes (n_peer s' a) = tr_mailboxes (n_peer s a)"
  shows "mail_ok s'"
  using assms by (simp add: mail_ok_def genuine_cong [of s' s] line_ok_cong [of s' s])

lemma got_ok_frame:
  assumes "got_ok s" "n_sent s' = n_sent s" "n_got s' = n_got s"
    "\<And>a. tr_last_request (n_peer s' a) = tr_last_request (n_peer s a)"
  shows "got_ok s'"
  using assms by (simp add: got_ok_def got_from_same [of s' s])

lemma sent_ok_frame:
  assumes "sent_ok s" "n_sent s' = n_sent s" "\<And>a. tr_seqno (n_peer s' a) = tr_seqno (n_peer s a)"
  shows "sent_ok s'"
  using assms by (simp add: sent_ok_def)

lemma answers_ok_frame:
  assumes "answers_ok s" "n_answers s' = n_answers s" "set (n_got s) \<subseteq> set (n_got s')"
  shows "answers_ok s'"
  using assms unfolding answers_ok_def by (metis subsetD)

lemma futures_ok_frame:
  assumes "futures_ok s" "n_sent s \<subseteq> n_sent s'" "n_answers s \<subseteq> n_answers s'"
    "\<And>a. tr_seqno (n_peer s' a) = tr_seqno (n_peer s a)"
    "\<And>a. tr_responses (n_peer s' a) = tr_responses (n_peer s a)"
    "\<And>a. tr_futures (n_peer s' a) = tr_futures (n_peer s a)"
  shows "futures_ok s'"
  using assms unfolding futures_ok_def by (metis local_answer_mono subsetD)

lemma addr_ok_frame:
  assumes "addr_ok s" "\<And>a. tr_addr (n_peer s' a) = tr_addr (n_peer s a)"
  shows "addr_ok s'"
  using assms by (simp add: addr_ok_def)

lemmas net_frames = mail_ok_frame got_ok_frame sent_ok_frame answers_ok_frame futures_ok_frame addr_ok_frame

text \<open>The pieces that steps are made of keep the invariant.\<close>

lemma inv_lines:
  assumes "net_inv s" "\<forall>l\<in>set ls. line_ok s a b l"
  shows "net_inv (set_lines a b ls s)" (is "net_inv ?s")
proof -
  have "mail_ok ?s" using assms
    by (simp add: net_inv_def mail_ok_def genuine_cong [of ?s s] line_ok_cong [of ?s s])
  then show ?thesis using assms(1) unfolding net_inv_def by (auto split: if_splits elim!: net_frames)
qed

lemma inv_mail:
  assumes "net_inv s" "\<forall>m\<in>set ms. genuine s a b m"
  shows "net_inv (set_peer a ((n_peer s a)\<lparr>tr_mailboxes := (tr_mailboxes (n_peer s a))(b := ms)\<rparr>) s)"
    (is "net_inv ?s")
proof -
  have "mail_ok ?s" using assms
    by (simp add: net_inv_def mail_ok_def genuine_cong [of ?s s] line_ok_cong [of ?s s])
  then show ?thesis using assms(1) unfolding net_inv_def by (auto split: if_splits elim!: net_frames)
qed

lemma inv_response:
  assumes "net_inv s"
    and "\<And>n. rp_seqno p = Some n \<Longrightarrow> (c, a, p) \<in> n_answers s \<or> local_answer s a n p c"
  shows "net_inv (set_peer a (recv_response p c (n_peer s a)) s)" (is "net_inv ?s")
proof -
  have "futures_ok ?s"
    using assms by (auto simp: net_inv_def futures_ok_def recv_response_futures tr_simps local_answer_def)
  then show ?thesis using assms(1) unfolding net_inv_def by (auto simp: tr_simps split: if_splits elim!: net_frames)
qed

lemma inv_request:
  assumes "net_inv s" "genuine s c a (Req r)"
  defines "t \<equiv> recv_request r c (n_peer s a)"
  shows "net_inv ((set_peer a t s)\<lparr>n_got := n_got s @ accepted a (n_peer s a) t\<rparr>)"
proof (cases "seqno_of r \<le> tr_last_request (n_peer s a) c")
  case True
  then have "t = n_peer s a" by (simp add: t_def recv_request_def)
  then have "(set_peer a t s)\<lparr>n_got := n_got s @ accepted a (n_peer s a) t\<rparr> = s" by (simp add: set_peer_def)
  then show ?thesis using assms(1) by simp
next
  case False
  define s' where "s' = (set_peer a t s)\<lparr>n_got := n_got s @ accepted a (n_peer s a) t\<rparr>"
  have acc: "accepted a (n_peer s a) t = [(c, a, r)]" using False by (simp add: t_def accepted_request)
  have s': "n_sent s' = n_sent s" "n_answers s' = n_answers s" "n_lines s' = n_lines s"
    "n_got s' = n_got s @ [(c, a, r)]"
    "n_peer s' x = (if x = a then t else n_peer s x)" for x
    by (simp_all add: s'_def acc)
  have g: "got_from x y s' = got_from x y s @ (if x = c \<and> y = a then [r] else [])" for x y
    by (simp add: got_from_def s')
  have l: "tr_last_request t = (tr_last_request (n_peer s a))(c := seqno_of r)"
    using False by (simp add: t_def recv_request_def)
  have "got_ok s'"
    using assms(1,2) False
    by (fastforce simp: net_inv_def got_ok_def g s' l genuine_cong [of s' s] sorted_wrt_append
        simp del: genuine.simps in_got_from)
  then show ?thesis using assms(1) unfolding s'_def [symmetric] net_inv_def
    by (auto simp: s' t_def tr_simps split: if_splits elim!: net_frames)
qed

text \<open>A request gets a number that no other request of the node has.\<close>

lemma inv_note:
  assumes "net_inv s" "rq_seqno (rq_base r) = Some (tr_seqno (n_peer s a))"
  defines "t \<equiv> (n_peer s a)\<lparr>tr_seqno := tr_seqno (n_peer s a) + 1,
                 tr_responses := insert (tr_seqno (n_peer s a)) (tr_responses (n_peer s a))\<rparr>"
  shows "net_inv ((set_peer a t s)\<lparr>n_sent := insert (a, b, r) (n_sent s)\<rparr>)"
proof -
  define s' where "s' = (set_peer a t s)\<lparr>n_sent := insert (a, b, r) (n_sent s)\<rparr>"
  have s': "n_sent s' = insert (a, b, r) (n_sent s)" "n_answers s' = n_answers s" "n_lines s' = n_lines s"
    "n_got s' = n_got s" "n_peer s' x = (if x = a then t else n_peer s x)" for x
    by (simp_all add: s'_def)
  have gen: "genuine s' x y m" if "genuine s x y m" for x y m
    using genuine_mono [OF that] by (simp add: s' subset_insertI)
  have lin: "line_ok s' x y l" if "line_ok s x y l" for x y l
    using line_ok_mono [OF that] by (simp add: s' subset_insertI)
  have "mail_ok s'" using assms(1) gen lin
    by (auto simp: net_inv_def mail_ok_def s' t_def)
  moreover have "got_ok s'" using assms(1) gen
    by (simp add: net_inv_def got_ok_def s' t_def got_from_same [of s' s] del: genuine.simps)
  moreover have "sent_ok s'"
    unfolding sent_ok_def
  proof (intro allI impI)
    fix x y q
    assume q: "(x, y, q) \<in> n_sent s'"
    have old: "\<exists>n. rq_seqno (rq_base q) = Some n \<and> n < tr_seqno (n_peer s x) \<and>
       (\<forall>b' r'. (x, b', r') \<in> n_sent s \<longrightarrow> rq_seqno (rq_base r') = Some n \<longrightarrow> b' = y \<and> r' = q)"
      if "(x, y, q) \<in> n_sent s" for x y q
      using assms(1) that unfolding net_inv_def sent_ok_def by blast
    have fresh: "rq_seqno (rq_base r') \<noteq> Some (tr_seqno (n_peer s a))" if "(a, b', r') \<in> n_sent s" for b' r'
      using old [OF that] by auto
    show "\<exists>n. rq_seqno (rq_base q) = Some n \<and> n < tr_seqno (n_peer s' x) \<and>
       (\<forall>b' r'. (x, b', r') \<in> n_sent s' \<longrightarrow> rq_seqno (rq_base r') = Some n \<longrightarrow> b' = y \<and> r' = q)"
    proof (cases "(x, y, q) = (a, b, r)")
      case True
      then show ?thesis using assms(2) fresh by (auto simp: s' t_def)
    next
      case False
      then have xs: "(x, y, q) \<in> n_sent s" using q s'(1) by blast
      obtain n where n: "rq_seqno (rq_base q) = Some n" "n < tr_seqno (n_peer s x)"
        "\<And>b' r'. (x, b', r') \<in> n_sent s \<Longrightarrow> rq_seqno (rq_base r') = Some n \<Longrightarrow> b' = y \<and> r' = q"
        using old [OF xs] by blast
      have "n < tr_seqno (n_peer s' x)" using n(2) by (auto simp: s' t_def)
      moreover have "b' = y \<and> r' = q" if "(x, b', r') \<in> n_sent s'" "rq_seqno (rq_base r') = Some n" for b' r'
        using that n(2,3) assms(2) by (auto simp: s'(1))
      ultimately show ?thesis using n(1) by blast
    qed
  qed
  moreover have "futures_ok s'"
  proof -
    have f: "futures_ok s" using assms(1) by (simp add: net_inv_def)
    have "tr_futures (n_peer s a) (tr_seqno (n_peer s a)) = None"
      using f unfolding futures_ok_def by (metis option.exhaust order_less_irrefl surj_pair)
    moreover have "local_answer s' x n p c" if "local_answer s x n p c" for x n p c
      using local_answer_mono [OF that] by (simp add: s' subset_insertI)
    ultimately show ?thesis
      using f unfolding futures_ok_def s'(2,5) t_def
      by (auto split: if_splits dest: order.strict_implies_order) force+
  qed
  moreover have "addr_ok s'" "answers_ok s'"
    using assms(1) by (simp_all add: net_inv_def addr_ok_def answers_ok_def s' t_def)
  ultimately show ?thesis by (simp add: net_inv_def flip: s'_def)
qed

lemma inv_answer:
  assumes "net_inv s" "(a, b, r) \<in> set (n_got s)" "rp_seqno p = rq_seqno (rq_base r)"
  shows "net_inv (s\<lparr>n_answers := insert (b, a, p) (n_answers s)\<rparr>)" (is "net_inv ?s")
proof -
  have gen: "genuine ?s x y m" if "genuine s x y m" for x y m
    using genuine_mono [OF that] by (simp add: subset_insertI)
  have lin: "line_ok ?s x y l" if "line_ok s x y l" for x y l
    using line_ok_mono [OF that] by (simp add: subset_insertI)
  have "mail_ok ?s" using assms(1) gen lin by (auto simp: net_inv_def mail_ok_def)
  moreover have "futures_ok ?s"
    using assms(1) by (fastforce simp: net_inv_def futures_ok_def local_answer_def)
  moreover have "answers_ok ?s"
    using assms by (auto simp: net_inv_def answers_ok_def)
  ultimately show ?thesis
    using assms(1) unfolding net_inv_def by (auto elim!: net_frames)
qed

lemma inv_local:
  assumes "net_inv s" "(a, b, r) \<in> n_sent s" "rq_seqno (rq_base r) = Some n"
    "send_mode (Req r) \<in> {Some IMMEDIATELY, Some WHEN_BUFFERED}"
  shows "net_inv (set_peer a (recv_response (SendResponse (Some n)) a (n_peer s a)) s)"
  by (rule inv_response [OF assms(1)]) (use assms in \<open>auto simp: local_answer_def\<close>)

lemma set_peer_twice [simp]: "set_peer a t (set_peer a u s) = set_peer a t s"
  by (simp add: set_peer_def)

lemma set_peer_log:
  "(set_peer a t s)\<lparr>n_sent := x\<rparr> = set_peer a t (s\<lparr>n_sent := x\<rparr>)"
  "(set_peer a t s)\<lparr>n_got := y\<rparr> = set_peer a t (s\<lparr>n_got := y\<rparr>)"
  "(set_peer a t s)\<lparr>n_answers := z\<rparr> = set_peer a t (s\<lparr>n_answers := z\<rparr>)"
  by (cases s; simp add: set_peer_def)+

lemma inv_step_request:
  assumes inv: "net_inv s" and w: "write_request req b (n_peer s a) = (n, t)"
  defines "r \<equiv> map_base (\<lambda>x. x\<lparr>rq_seqno := Some n\<rparr>) req"
  shows "net_inv ((set_peer a t s)\<lparr>n_sent := insert (a, b, r) (n_sent s),
     n_got := n_got s @ accepted a (n_peer s a) t\<rparr>)"
proof -
  define t1 where "t1 = (n_peer s a)\<lparr>tr_seqno := tr_seqno (n_peer s a) + 1,
     tr_responses := insert n (tr_responses (n_peer s a))\<rparr>"
  define t2 where "t2 = recv_response (SendResponse (Some n)) a t1"
  define s1 where "s1 = (set_peer a t1 s)\<lparr>n_sent := insert (a, b, r) (n_sent s)\<rparr>"
  have addr: "tr_addr (n_peer s a) = a" using inv by (simp add: net_inv_def addr_ok_def)
  have n: "n = tr_seqno (n_peer s a)" by (rule write_request_cases(1) [OF w])
  have q: "rq_seqno (rq_base r) = Some n" by (cases req) (simp_all add: r_def)
  have i1: "net_inv s1" unfolding s1_def t1_def n by (rule inv_note [OF inv]) (simp add: q n)
  have p1: "n_peer s1 a = t1" "(a, b, r) \<in> n_sent s1" "n_got s1 = n_got s" by (simp_all add: s1_def)
  have i2: "net_inv (set_peer a t2 s1)" if "send_mode (Req r) \<in> {Some IMMEDIATELY, Some WHEN_BUFFERED}"
    using inv_local [OF i1 p1(2) q that] by (simp add: t2_def p1)
  define u where "u = (if send_mode (Req r) \<in> (if b = a then {Some IMMEDIATELY, Some WHEN_BUFFERED} else {Some IMMEDIATELY})
     then t2 else t1)"
  have "set_peer a t1 s1 = s1" by (simp add: s1_def set_peer_def)
  then have i3: "net_inv (set_peer a u s1)" using i1 i2 by (auto simp: u_def)
  have gen: "genuine (set_peer a u s1) a b (Req r)" using p1(2) by auto
  have rq: "tr_requests u = tr_requests (n_peer s a)" by (simp add: u_def t2_def t1_def tr_simps)
  show ?thesis
  proof (cases "b = a")
    case True
    then have t: "t = recv_request r a u"
      using write_request_cases(2) [OF w] addr by (simp add: r_def u_def t1_def t2_def)
    have "accepted a u t = accepted a (n_peer s a) t" by (simp add: accepted_def rq)
    then show ?thesis
      using inv_request [OF i3, of a a r] gen True by (simp add: t s1_def set_peer_log)
  next
    case False
    then have t: "t = enqueue (Req r) b u"
      using write_request_cases(3) [OF w] addr by (simp add: r_def u_def t1_def t2_def)
    have "accepted a (n_peer s a) t = []" by (simp add: t tr_simps rq)
    moreover have "\<forall>m\<in>set (tr_mailboxes u b @ [Req r]). genuine (set_peer a u s1) a b m"
      using i3 gen by (fastforce simp: net_inv_def mail_ok_def simp del: genuine.simps)
    ultimately show ?thesis
      using inv_mail [OF i3, of "tr_mailboxes u b @ [Req r]" a b] by (simp add: t enqueue_def s1_def set_peer_log)
  qed
qed

lemma line_ok_update:
  assumes "net_inv s" "line_ok s a b l"
  shows "net_inv (set_lines a b ((n_lines s a b)[i := l]) s)"
proof (rule inv_lines [OF assms(1)])
  have "\<forall>l\<in>set (n_lines s a b). line_ok s a b l"
    using assms(1) by (simp add: net_inv_def mail_ok_def)
  then show "\<forall>l'\<in>set ((n_lines s a b)[i := l]). line_ok s a b l'"
    using assms(2) set_update_subset_insert [of "n_lines s a b" i l] by blast
qed

lemma line_okD: "net_inv s \<Longrightarrow> i < length (n_lines s a b) \<Longrightarrow> line_ok s a b (n_lines s a b ! i)"
  by (simp add: net_inv_def mail_ok_def)

lemma set_peer_lines: "set_peer a t (set_lines x y ls s) = set_lines x y ls (set_peer a t s)"
  by (cases s) (simp add: set_peer_def set_lines_def)

lemma set_lines_log: "(set_lines a b ls s)\<lparr>n_got := n_got s\<rparr> = set_lines a b ls s"
  by (cases s) (simp add: set_lines_def)

lemma mailbox_genuine:
  "net_inv s \<Longrightarrow> tr_mailboxes (n_peer s a) b = m # ms \<Longrightarrow>
     genuine s a b m \<and> (\<forall>m\<in>set ms. genuine s a b m)"
  unfolding net_inv_def mail_ok_def by (metis list.set_intros(1) list.set_intros(2))

lemma send_mode_content: "content r = content r' \<Longrightarrow> send_mode (Req r) = send_mode (Req r')"
  by (cases r; cases r') (auto simp: received_send_def send_fields.defs dest: arg_cong [where f = sr_return_mode])

text \<open>A message leaves the mailbox: if it is a buffered send, its future is completed.\<close>

lemma inv_step_sent:
  assumes inv: "net_inv s" and mb: "tr_mailboxes (n_peer s a) b = m # ms"
  shows "net_inv (set_peer a (sent (normalize_deadline now m)
     ((n_peer s a)\<lparr>tr_mailboxes := (tr_mailboxes (n_peer s a))(b := ms)\<rparr>)) s)"
proof -
  define t1 where "t1 = (n_peer s a)\<lparr>tr_mailboxes := (tr_mailboxes (n_peer s a))(b := ms)\<rparr>"
  have g: "genuine s a b m" using mailbox_genuine [OF inv mb] by blast
  have i1: "net_inv (set_peer a t1 s)"
    unfolding t1_def by (rule inv_mail [OF inv]) (use mailbox_genuine [OF inv mb] in blast)
  have addr: "tr_addr t1 = a" using inv by (simp add: t1_def net_inv_def addr_ok_def)
  show ?thesis
  proof (cases "send_mode (normalize_deadline now m) = Some WHEN_BUFFERED")
    case True
    then obtain r where r: "normalize_deadline now m = Req r" by (cases m) auto
    then have "genuine s a b (Req r)" using g by (metis genuine_normalize)
    then obtain r0 where r0: "(a, b, r0) \<in> n_sent s" "content r0 = content r" by auto
    obtain n where n: "rq_seqno (rq_base r0) = Some n"
      using inv r0(1) unfolding net_inv_def sent_ok_def by blast
    have "msg_seqno (normalize_deadline now m) = Some n" using n content_seqno [OF r0(2)] by (simp add: r)
    moreover have "send_mode (Req r0) = Some WHEN_BUFFERED" using True r send_mode_content [OF r0(2)] by simp
    ultimately show ?thesis
      using inv_local [OF i1, of a b r0 n] True r0(1) n addr by (simp add: sent_def flip: t1_def)
  qed (use i1 in \<open>simp add: sent_def flip: t1_def\<close>)
qed

lemma inv_step_unget:
  assumes inv: "net_inv s" and mb: "tr_mailboxes (n_peer s a) b = m # ms"
  shows "net_inv (set_peer a (unget (normalize_deadline now m) b
     ((n_peer s a)\<lparr>tr_mailboxes := (tr_mailboxes (n_peer s a))(b := ms)\<rparr>)) s)"
  using inv_mail [OF inv, of "normalize_deadline now m # ms" a b] mailbox_genuine [OF inv mb]
  by (simp add: unget_def)

lemma do_send_Inr:
  assumes "do_send now b t = Some (Inr (), data, t')"
  obtains m ms where "tr_mailboxes t b = m # ms" "write_message (normalize_deadline now m) [] = (Inr (), data)"
    "t' = sent (normalize_deadline now m) (t\<lparr>tr_mailboxes := (tr_mailboxes t)(b := ms)\<rparr>)"
  using assms by (auto simp: do_send_def Let_def split: list.splits prod.splits sum.splits)

lemma do_send_broken_Some:
  assumes "do_send_broken now k b t = Some (part, t')"
  obtains m ms where "tr_mailboxes t b = m # ms" "part = take k (encoding (normalize_deadline now m))"
    "t' = unget (normalize_deadline now m) b (t\<lparr>tr_mailboxes := (tr_mailboxes t)(b := ms)\<rparr>)"
  using assms by (auto simp: do_send_broken_def encoding_def Let_def split: list.splits)

text \<open>What may be written on a line and what is left of it.\<close>

lemma line_ok_send:
  assumes "line_ok s a b l" "ln_open l" "genuine s a b m" "write_message m [] = (Inr (), data)"
  shows "line_ok s a b (l\<lparr>ln_bytes := ln_bytes l @ data\<rparr>)"
proof -
  have m: "sendable m" "encoding m = data"
    using assms(4) write_message_ok [of m] by (auto simp: encoding_def)
  obtain ms where "\<forall>m\<in>set ms. genuine s a b m" "stream.whole ms (ln_bytes l)"
    using assms(1,2) by (auto simp: line_ok_def)
  then show ?thesis using assms(2,3) stream.whole_snoc [of ms "ln_bytes l" m] m
    unfolding line_ok_def by (intro exI [of _ "ms @ [m]"]) auto
qed

lemma line_ok_broken:
  assumes "line_ok s a b l" "ln_open l" "genuine s a b m" "sendable m"
  shows "line_ok s a b (l\<lparr>ln_bytes := ln_bytes l @ take k (encoding m), ln_open := False\<rparr>)"
proof -
  obtain ms where ms: "\<forall>m\<in>set ms. genuine s a b m" "stream.whole ms (ln_bytes l)"
    using assms(1,2) by (auto simp: line_ok_def)
  obtain ns where "stream.carries ns (ln_bytes l @ take k (encoding m))" "set ns \<subseteq> insert m (set ms)"
    using stream.whole_broken [OF ms(2) assms(4)] by blast
  then show ?thesis using ms(1) assms(3) unfolding line_ok_def by (intro exI [of _ ns]) auto
qed

lemma line_ok_lose:
  assumes "line_ok s a b l"
  shows "line_ok s a b (l\<lparr>ln_bytes := take k (ln_bytes l), ln_open := False\<rparr>)"
proof -
  obtain ms where ms: "\<forall>m\<in>set ms. genuine s a b m" "stream.carries ms (ln_bytes l)"
    using assms stream.whole_carries by (auto simp: line_ok_def split: if_splits)
  obtain ns where "stream.carries ns (take k (ln_bytes l))" "set ns \<subseteq> set ms"
    using stream.carries_take [OF ms(2)] by blast
  then show ?thesis using ms(1) unfolding line_ok_def by (intro exI [of _ ns]) auto
qed

lemma line_ok_recv:
  assumes "line_ok s a b l" "read_message now (ln_bytes l) = (Inr m, rest)"
  shows "genuine s a b m \<and> line_ok s a b (l\<lparr>ln_bytes := rest\<rparr>)"
proof -
  obtain ms where ms: "\<forall>m\<in>set ms. genuine s a b m"
    "if ln_open l then stream.whole ms (ln_bytes l) else stream.carries ms (ln_bytes l)"
    using assms(1) by (auto simp: line_ok_def)
  then obtain m0 ns where "ms = m0 # ns" "m = received now m0"
    "if ln_open l then stream.whole ns rest else stream.carries ns rest"
    using stream.whole_dec [OF _ assms(2)] stream.carries_dec [OF _ assms(2)] by (metis (full_types))
  then show ?thesis using ms(1) unfolding line_ok_def by auto
qed

lemma line_ok_eof:
  assumes "line_ok s a b l" "\<not> ln_open l" "read_message now (ln_bytes l) = (Inl e, rest)"
  shows "line_ok s a b (l\<lparr>ln_bytes := rest\<rparr>)"
proof -
  obtain ms where ms: "stream.carries ms (ln_bytes l)" using assms(1,2) by (auto simp: line_ok_def)
  have "rest = []"
  proof (cases ms)
    case Nil
    then show ?thesis using ms assms(3) stream.torn_dec by (auto simp: stream.carries_def)
  next
    case (Cons m ns)
    then show ?thesis using ms assms(3) stream.dec_enc [of m now] by (auto simp: stream.carries_def)
  qed
  then show ?thesis using assms(2) by (auto simp: line_ok_def intro: exI [of _ "[]"])
qed

lemma net_inv_step:
  assumes "clean_step s s'" "net_inv s"
  shows "net_inv s'"
  using assms
proof (cases rule: clean_step.cases)
  case (request req b a n t)
  then show ?thesis using inv_step_request [OF assms(2)] by simp
next
  case (send now b a data t i l)
  then obtain m ms where m: "tr_mailboxes (n_peer s a) b = m # ms"
    "write_message (normalize_deadline now m) [] = (Inr (), data)"
    "t = sent (normalize_deadline now m) ((n_peer s a)\<lparr>tr_mailboxes := (tr_mailboxes (n_peer s a))(b := ms)\<rparr>)"
    by (elim do_send_Inr)
  have "line_ok s a b (l\<lparr>ln_bytes := ln_bytes l @ data\<rparr>)"
    using line_ok_send [OF _ _ _ m(2)] line_okD [OF assms(2)] mailbox_genuine [OF assms(2) m(1)] send by simp
  then have "line_ok (set_peer a t s) a b (l\<lparr>ln_bytes := ln_bytes l @ data\<rparr>)"
    by (simp add: line_ok_cong [of "set_peer a t s" s])
  then show ?thesis
    using line_ok_update [OF inv_step_sent [OF assms(2) m(1)]] m(3) send(1)
    by (simp add: set_peer_lines)
next
  case (broken now k b a part t i l)
  then obtain m ms where m: "tr_mailboxes (n_peer s a) b = m # ms"
    "part = take k (encoding (normalize_deadline now m))"
    "t = unget (normalize_deadline now m) b ((n_peer s a)\<lparr>tr_mailboxes := (tr_mailboxes (n_peer s a))(b := ms)\<rparr>)"
    by (elim do_send_broken_Some)
  have "line_ok s a b (l\<lparr>ln_bytes := ln_bytes l @ part, ln_open := False\<rparr>)"
    using line_ok_broken [of s a b l "normalize_deadline now m"] line_okD [OF assms(2)]
      mailbox_genuine [OF assms(2) m(1)] broken m by simp
  then have "line_ok (set_peer a t s) a b (l\<lparr>ln_bytes := ln_bytes l @ part, ln_open := False\<rparr>)"
    by (simp add: line_ok_cong [of "set_peer a t s" s])
  then show ?thesis
    using line_ok_update [OF inv_step_unget [OF assms(2) m(1)]] m(3) broken(1)
    by (simp add: set_peer_lines)
next
  case (lose i a b l k)
  then show ?thesis using line_ok_update [OF assms(2) line_ok_lose [OF line_okD [OF assms(2)]]] by simp
next
  case (connect a b)
  have "line_ok s a b \<lparr>ln_bytes = [], ln_open = True\<rparr>" by (auto simp: line_ok_def intro: exI [of _ "[]"])
  then show ?thesis
    using connect inv_lines [OF assms(2)] assms(2) by (auto simp: net_inv_def mail_ok_def)
next
  case (recv i a b l now m rest t)
  have lk: "genuine s a b m" "line_ok s a b (l\<lparr>ln_bytes := rest\<rparr>)"
    using line_ok_recv [OF line_okD [OF assms(2)]] recv by auto
  have i1: "net_inv (set_lines a b ((n_lines s a b)[i := l\<lparr>ln_bytes := rest\<rparr>]) s)" (is "net_inv ?s1")
    using line_ok_update [OF assms(2)] lk(2) by simp
  have g1: "genuine ?s1 a b m" using lk(1) by (simp add: genuine_cong [of ?s1 s])
  show ?thesis
  proof (cases m)
    case (Req r)
    then show ?thesis using inv_request [OF i1] g1 recv by simp
  next
    case (Resp p)
    have "n_got s @ accepted b (n_peer s b) t = n_got s"
      using recv Resp by (simp add: tr_simps)
    then show ?thesis using inv_response [OF i1, of p a b] g1 recv Resp
      by (simp add: set_peer_log set_lines_log)
  qed (use lk in simp_all)
next
  case (eof i a b l now e rest)
  then show ?thesis using line_ok_update [OF assms(2) line_ok_eof [OF line_okD [OF assms(2)]]] by simp
next
  case (serve b req a t)
  then have t: "t = (n_peer s b)\<lparr>tr_requests := tl (tr_requests (n_peer s b))\<rparr>"
    by (auto simp: read_request_def split: list.splits)
  show ?thesis using assms(2) serve(1) unfolding net_inv_def
    by (auto simp: t split: if_splits elim!: net_frames)
next
  case (respond a b req resp)
  define s1 where "s1 = s\<lparr>n_answers := insert (b, a, resp) (n_answers s)\<rparr>"
  have i1: "net_inv s1" unfolding s1_def by (rule inv_answer [OF assms(2)]) (use respond in auto)
  have p: "n_peer s1 = n_peer s" by (simp add: s1_def)
  have addr: "tr_addr (n_peer s b) = b" using assms(2) by (simp add: net_inv_def addr_ok_def)
  show ?thesis
  proof (cases "a = b")
    case True
    then show ?thesis
      using inv_response [OF i1, of resp b b] addr respond(1)
      by (simp add: set_peer_log write_response_def p flip: s1_def) (simp add: s1_def)
  next
    case False
    have "genuine s1 b a (Resp resp)" by (simp add: s1_def)
    then have "\<forall>m\<in>set (tr_mailboxes (n_peer s1 b) a @ [Resp resp]). genuine s1 b a m"
      using i1 by (auto simp: net_inv_def mail_ok_def)
    then show ?thesis
      using inv_mail [OF i1, of "tr_mailboxes (n_peer s1 b) a @ [Resp resp]" b a] False addr respond(1)
      by (simp add: set_peer_log write_response_def enqueue_def p flip: s1_def)
  qed
qed

definition reachable :: "net \<Rightarrow> net \<Rightarrow> bool" where
  "reachable = clean_step\<^sup>*\<^sup>*"

lemma net_inv_reachable: "reachable s s' \<Longrightarrow> net_inv s \<Longrightarrow> net_inv s'"
  unfolding reachable_def by (induction rule: rtranclp_induct) (auto intro: net_inv_step)

section \<open>Requests that are lost\<close>

text \<open>
  The logs do not influence what happens: a run from a state is also a run from the state with
  another log of requests written.
\<close>

lemma set_log_comm:
  "(set_lines a b ls s)\<lparr>n_sent := x\<rparr> = set_lines a b ls (s\<lparr>n_sent := x\<rparr>)"
  "(s\<lparr>n_got := y\<rparr>)\<lparr>n_sent := x\<rparr> = (s\<lparr>n_sent := x\<rparr>)\<lparr>n_got := y\<rparr>"
  "(s\<lparr>n_answers := z\<rparr>)\<lparr>n_sent := x\<rparr> = (s\<lparr>n_sent := x\<rparr>)\<lparr>n_answers := z\<rparr>"
  by (cases s; simp add: set_lines_def)+

lemma step_without_log:
  assumes "clean_step s s'"
  shows "\<exists>y. clean_step (s\<lparr>n_sent := x\<rparr>) (s'\<lparr>n_sent := y\<rparr>) \<and>
     y \<subseteq> x \<union> {(a, b, r) | a b r. rq_seqno (rq_base r) = Some (tr_seqno (n_peer s a))}"
  using assms
proof (cases rule: clean_step.cases)
  case (request req b a n t)
  let ?r = "map_base (\<lambda>r. r\<lparr>rq_seqno := Some n\<rparr>) req"
  have q: "rq_seqno (rq_base ?r) = Some (tr_seqno (n_peer s a))"
    using write_request_cases(1) [OF request(2)] by (cases req) simp_all
  have "clean_step (s\<lparr>n_sent := x\<rparr>) (s'\<lparr>n_sent := insert (a, b, ?r) x\<rparr>)"
    using clean_step.request [of req b "s\<lparr>n_sent := x\<rparr>" a n t] request
    by (simp add: set_peer_log set_log_comm)
  then show ?thesis using q by (intro exI [of _ "insert (a, b, ?r) x"]) auto
next
  case (send now b a data t i l)
  then show ?thesis
    using clean_step.send [of now b "s\<lparr>n_sent := x\<rparr>" a data t i l]
    by (intro exI [of _ x]) (simp add: set_peer_log set_log_comm)
next
  case (broken now k b a part t i l)
  then show ?thesis
    using clean_step.broken [of now k b "s\<lparr>n_sent := x\<rparr>" a part t i l]
    by (intro exI [of _ x]) (simp add: set_peer_log set_log_comm)
next
  case (lose i a b l k)
  then show ?thesis
    using clean_step.lose [of i "s\<lparr>n_sent := x\<rparr>" a b l k]
    by (intro exI [of _ x]) (simp add: set_log_comm)
next
  case (connect a b)
  then show ?thesis
    using clean_step.connect [of "s\<lparr>n_sent := x\<rparr>" a b]
    by (intro exI [of _ x]) (simp add: set_log_comm)
next
  case (recv i a b l now m rest t)
  then show ?thesis
    using clean_step.recv [of i "s\<lparr>n_sent := x\<rparr>" a b l now m rest t]
    by (intro exI [of _ x]) (simp add: set_peer_log set_log_comm)
next
  case (eof i a b l now e rest)
  then show ?thesis
    using clean_step.eof [of i "s\<lparr>n_sent := x\<rparr>" a b l now e rest]
    by (intro exI [of _ x]) (simp add: set_log_comm)
next
  case (serve b req a t)
  then show ?thesis
    using clean_step.serve [of "s\<lparr>n_sent := x\<rparr>" b req a t]
    by (intro exI [of _ x]) (simp add: set_peer_log)
next
  case (respond a b req resp)
  then show ?thesis
    using clean_step.respond [of a b req "s\<lparr>n_sent := x\<rparr>" resp]
    by (intro exI [of _ x]) (simp add: set_peer_log set_log_comm)
qed

text \<open>A future is pending or has a result, from its creation on.\<close>

definition issued :: "int \<Rightarrow> transport \<Rightarrow> bool" where
  "issued n t \<longleftrightarrow> n \<in> tr_responses t \<or> tr_futures t n \<noteq> None"

lemma issued_recv_response [simp]: "issued n (recv_response p c t) \<longleftrightarrow> issued n t"
  by (auto simp: issued_def recv_response_futures)

lemma issued_same:
  "tr_responses t' = tr_responses t \<Longrightarrow> tr_futures t' = tr_futures t \<Longrightarrow> issued n t' = issued n t"
  by (simp add: issued_def)

lemma issued_frame [simp]:
  "issued n (recv_request r c t) = issued n t"
  "issued n (enqueue m c t) = issued n t"
  "issued n (unget m c t) = issued n t"
  by (rule issued_same; simp add: tr_simps)+

lemma issued_sent [simp]: "issued n (sent m t) = issued n t"
  by (simp add: sent_def)

lemma issued_write_response [simp]: "issued n (write_response p c t) = issued n t"
  by (simp add: write_response_def)

lemma issued_handle_recv [simp]: "issued n (handle_recv m c t) = issued n t"
  by (cases m) simp_all

lemma issued_mail [simp]: "issued n (t\<lparr>tr_mailboxes := x\<rparr>) = issued n t" "issued n (t\<lparr>tr_requests := q\<rparr>) = issued n t"
  by (simp_all add: issued_def)

lemma issued_handle_send [simp]: "issued n (handle_send m a t) = issued n t"
  by (simp add: handle_send_def loopback_send_def Let_def)

lemma issued_write_request: "write_request req b t = (m, t') \<Longrightarrow> issued n t \<Longrightarrow> issued n t'"
  by (clarsimp simp: write_request_def Let_def) (auto simp: issued_def)

lemma step_issued:
  assumes "clean_step s s'" "issued n (n_peer s a)"
  shows "issued n (n_peer s' a)"
  using assms
proof (cases rule: clean_step.cases)
  case (request req b a' m t)
  then show ?thesis using assms(2) issued_write_request by auto
next
  case (send now b a' data t i l)
  then show ?thesis using assms(2) by (auto elim!: do_send_Inr)
next
  case (broken now k b a' part t i l)
  then show ?thesis using assms(2) by (auto elim!: do_send_broken_Some)
next
  case (serve b req a' t)
  then show ?thesis using assms(2) by (auto simp: read_request_def split: list.splits)
qed (use assms(2) in auto)

lemma step_seqno:
  assumes "clean_step s s'"
  shows "tr_seqno (n_peer s a) \<le> tr_seqno (n_peer s' a)"
  using assms
proof (cases rule: clean_step.cases)
  case (request req b a' m t)
  then show ?thesis
    using write_request_cases [OF request(2)] by (cases "b = tr_addr (n_peer s a')") (auto simp: tr_simps)
next
  case (send now b a' data t i l)
  then show ?thesis by (auto simp: tr_simps elim!: do_send_Inr)
next
  case (broken now k b a' part t i l)
  then show ?thesis by (auto simp: tr_simps elim!: do_send_broken_Some)
next
  case (recv i a' b l now m rest t)
  then show ?thesis by (cases m) (auto simp: tr_simps)
next
  case (serve b req a' t)
  then show ?thesis by (auto simp: read_request_def split: list.splits)
qed (auto simp: tr_simps)

text \<open>
  The number \<open>n\<close> of node \<open>a\<close> is lost: its future exists, and the network could be explained
  without the request that was written with it.
\<close>

definition lost :: "address \<Rightarrow> int \<Rightarrow> net \<Rightarrow> bool" where
  "lost a n s \<longleftrightarrow> issued n (n_peer s a) \<and> n < tr_seqno (n_peer s a) \<and>
     (\<exists>x. net_inv (s\<lparr>n_sent := x\<rparr>) \<and> (\<forall>b r. (a, b, r) \<in> x \<longrightarrow> rq_seqno (rq_base r) \<noteq> Some n))"

lemma lost_step:
  assumes "clean_step s s'" "lost a n s"
  shows "lost a n s'"
proof -
  obtain x where x: "net_inv (s\<lparr>n_sent := x\<rparr>)" "\<forall>b r. (a, b, r) \<in> x \<longrightarrow> rq_seqno (rq_base r) \<noteq> Some n"
    using assms(2) by (auto simp: lost_def)
  obtain y where y: "clean_step (s\<lparr>n_sent := x\<rparr>) (s'\<lparr>n_sent := y\<rparr>)"
     "y \<subseteq> x \<union> {(a, b, r) | a b r. rq_seqno (rq_base r) = Some (tr_seqno (n_peer s a))}"
    using step_without_log [OF assms(1)] by blast
  have n: "n < tr_seqno (n_peer s a)" using assms(2) by (simp add: lost_def)
  have "rq_seqno (rq_base r) \<noteq> Some n" if "(a, b, r) \<in> y" for b r
    using that x(2) y(2) n by auto
  then show ?thesis
    using net_inv_step [OF y(1) x(1)] step_issued [OF assms(1), of n a] step_seqno [OF assms(1), of a] assms(2)
    by (auto simp: lost_def)
qed

lemma net_inv_answer:
  "net_inv s \<Longrightarrow> (b, a, p) \<in> n_answers s \<Longrightarrow>
     \<exists>r. (a, b, r) \<in> set (n_got s) \<and> rq_seqno (rq_base r) = rp_seqno p"
  by (simp add: net_inv_def answers_ok_def)

lemma net_inv_got:
  assumes "net_inv s" "(a, b, r) \<in> set (n_got s)"
  shows "\<exists>r0. (a, b, r0) \<in> n_sent s \<and> content r0 = content r"
proof -
  have "r \<in> set (got_from a b s)" using assms(2) by simp
  then have "genuine s a b (Req r)" using assms(1) unfolding net_inv_def got_ok_def by blast
  then show ?thesis by simp
qed

lemma lost_pending:
  assumes "lost a n s"
  shows "n \<in> tr_responses (n_peer s a)"
proof (rule ccontr)
  assume "n \<notin> tr_responses (n_peer s a)"
  then obtain p c where f: "tr_futures (n_peer s a) n = Some (p, c)"
    using assms by (auto simp: lost_def issued_def)
  obtain x where x: "net_inv (s\<lparr>n_sent := x\<rparr>)" "\<forall>b r. (a, b, r) \<in> x \<longrightarrow> rq_seqno (rq_base r) \<noteq> Some n"
    using assms by (auto simp: lost_def)
  then have "rp_seqno p = Some n" "(c, a, p) \<in> n_answers s \<or> local_answer (s\<lparr>n_sent := x\<rparr>) a n p c"
    using f by (auto simp: net_inv_def futures_ok_def)
  moreover have False if ans: "(c, a, p) \<in> n_answers s" and sq: "rp_seqno p = Some n"
  proof -
    obtain r where r: "(a, c, r) \<in> set (n_got s)" "rq_seqno (rq_base r) = Some n"
      using net_inv_answer [OF x(1), of c a p] ans sq by auto
    obtain r0 where "(a, c, r0) \<in> x" "content r0 = content r"
      using net_inv_got [OF x(1), of a c r] r(1) by auto
    then show False using x(2) r(2) content_seqno [of r0 r] by simp
  qed
  ultimately show False using x(2) by (auto simp: local_answer_def)
qed

lemma lost_for_ever: "reachable s s' \<Longrightarrow> lost a n s \<Longrightarrow> n \<in> tr_responses (n_peer s' a)"
  unfolding reachable_def
  by (rule lost_pending) (induction rule: rtranclp_induct, auto intro: lost_step)

section \<open>Runs in which every message fits\<close>

text \<open>
  Every request written to another node fits the wire format whenever it may be sent, and so does
  every response given.
\<close>

definition all_fit :: "net \<Rightarrow> bool" where
  "all_fit s \<longleftrightarrow> (\<forall>a b r. (a, b, r) \<in> n_sent s \<longrightarrow> a \<noteq> b \<longrightarrow> fits_wire (Req r)) \<and>
     (\<forall>a b p. (b, a, p) \<in> n_answers s \<longrightarrow> a \<noteq> b \<longrightarrow> sendable (Resp p))"

definition mail_fits :: "net \<Rightarrow> bool" where
  "mail_fits s \<longleftrightarrow> (\<forall>a b. list_all fits_wire (tr_mailboxes (n_peer s a) b))"

lemma all_fit_mono:
  "all_fit s' \<Longrightarrow> n_sent s \<subseteq> n_sent s' \<Longrightarrow> n_answers s \<subseteq> n_answers s' \<Longrightarrow> all_fit s"
  unfolding all_fit_def by blast

lemma net_step_logs: "net_step s s' \<Longrightarrow> n_sent s \<subseteq> n_sent s' \<and> n_answers s \<subseteq> n_answers s'"
  by (induction rule: net_step.induct) auto

lemma mail_fits_peer:
  assumes "mail_fits s" "\<And>b. list_all fits_wire (tr_mailboxes t b)"
    "n_peer s' = (n_peer s)(a := t)"
  shows "mail_fits s'"
  using assms by (simp add: mail_fits_def)

lemma mail_fits_same:
  assumes "mail_fits s" "\<And>a. tr_mailboxes (n_peer s' a) = tr_mailboxes (n_peer s a)"
  shows "mail_fits s'"
  using assms by (simp add: mail_fits_def)

lemma mail_fits_tail:
  assumes "mail_fits s" "tr_mailboxes (n_peer s a) b = m # ms"
  shows "fits_wire m" "list_all fits_wire ms"
  using assms unfolding mail_fits_def by (metis list.pred_inject(2))+

lemma mail_fits_enqueue:
  "mail_fits s \<Longrightarrow> fits_wire m \<Longrightarrow> tr_mailboxes t = tr_mailboxes (n_peer s a) \<Longrightarrow>
     list_all fits_wire (tr_mailboxes (enqueue m b t) c)"
  by (simp add: mail_fits_def enqueue_def)

lemma mail_fits_unget:
  assumes "mail_fits s" "tr_mailboxes (n_peer s a) b = m # ms" "fits_wire m'"
  shows "list_all fits_wire (tr_mailboxes (unget m' b
     ((n_peer s a)\<lparr>tr_mailboxes := (tr_mailboxes (n_peer s a))(b := ms)\<rparr>)) c)"
  using assms mail_fits_tail [OF assms(1,2)] by (simp add: mail_fits_def unget_def)

lemma do_send_sendable:
  assumes "tr_mailboxes t b = m # ms" "sendable (normalize_deadline now m)"
  shows "do_send now b t = Some (Inr (), encoding (normalize_deadline now m),
     sent (normalize_deadline now m) (t\<lparr>tr_mailboxes := (tr_mailboxes t)(b := ms)\<rparr>))"
  using assms encoding_written [OF assms(2)] by (simp add: do_send_def Let_def)

text \<open>Such a run has clean steps only: no write raises in it.\<close>

lemma fitting_no_failure:
  assumes "mail_fits s" "timely now (hd (tr_mailboxes (n_peer s a) b))"
  shows "do_send now b (n_peer s a) \<noteq> Some (Inl e, data, t)"
proof
  assume fail: "do_send now b (n_peer s a) = Some (Inl e, data, t)"
  then obtain m ms where m: "tr_mailboxes (n_peer s a) b = m # ms"
    by (auto simp: do_send_def split: list.splits)
  then have "sendable (normalize_deadline now m)"
    using fits_wire_later [OF mail_fits_tail(1) [OF assms(1) m]] assms(2) by simp
  then show False using do_send_sendable [OF m] fail by simp
qed

lemma fitting_step_clean:
  assumes "net_step s s'" "net_inv s" "mail_fits s"
  shows "clean_step s s'"
  using assms(1)
proof (cases rule: net_step.cases)
  case (failed now b a e data t i l)
  then show ?thesis using fitting_no_failure [OF assms(3)] by blast
next
  case (broken now k b a part t i l)
  then obtain m ms where m: "tr_mailboxes (n_peer s a) b = m # ms" by (elim do_send_broken_Some)
  then have "sendable (normalize_deadline now (hd (tr_mailboxes (n_peer s a) b)))"
    using fits_wire_later [OF mail_fits_tail(1) [OF assms(3) m]] broken(3) by simp
  then show ?thesis using clean_step.broken [OF broken(2)] broken by simp
next
  case (skip i a b l now e rest)
  have "\<not> ln_open l"
  proof
    assume "ln_open l"
    then obtain ms where ms: "stream.whole ms (ln_bytes l)"
      using line_okD [OF assms(2) skip(2)] skip(3) by (auto simp: line_ok_def)
    show False
    proof (cases ms)
      case Nil
      then show ?thesis using ms skip stream.dec_Nil \<open>ln_open l\<close> by (simp add: stream.whole_def)
    next
      case (Cons m ns)
      then show ?thesis using ms skip(4) stream.dec_enc [of m now] by (auto simp: stream.whole_def)
    qed
  qed
  then show ?thesis using clean_step.eof [OF skip(2,3) _ skip(4)] skip(1) by simp
qed (auto intro: clean_step.intros)

lemma fitting_step_mail:
  assumes "net_step s s'" "net_inv s" "mail_fits s" "all_fit s'"
  shows "mail_fits s'"
  using assms(1)
proof (cases rule: net_step.cases)
  case (request req b a n t)
  let ?r = "map_base (\<lambda>r. r\<lparr>rq_seqno := Some n\<rparr>) req"
  have addr: "tr_addr (n_peer s a) = a" using assms(2) by (simp add: net_inv_def addr_ok_def)
  have "list_all fits_wire (tr_mailboxes t c)" for c
  proof (cases "b = a")
    case True
    then have "tr_mailboxes t = tr_mailboxes (n_peer s a)"
      using write_request_cases(2) [OF request(2)] addr by (simp add: tr_simps)
    then show ?thesis using assms(3) by (simp add: mail_fits_def)
  next
    case False
    have "fits_wire (Req ?r)" using assms(4) False unfolding all_fit_def request(1) by auto
    then show ?thesis
      using write_request_cases(3) [OF request(2)] addr False mail_fits_enqueue [OF assms(3)]
      by (auto simp: tr_simps)
  qed
  then show ?thesis using mail_fits_peer [OF assms(3), of t] request(1) by (simp add: set_peer_def)
next
  case (send now b a data t i l)
  then obtain m ms where m: "tr_mailboxes (n_peer s a) b = m # ms"
    "t = sent (normalize_deadline now m) ((n_peer s a)\<lparr>tr_mailboxes := (tr_mailboxes (n_peer s a))(b := ms)\<rparr>)"
    by (elim do_send_Inr)
  then have "list_all fits_wire (tr_mailboxes t c)" for c
    using assms(3) mail_fits_tail [OF assms(3) m(1)] by (simp add: tr_simps mail_fits_def)
  then show ?thesis using mail_fits_peer [OF assms(3), of t] send(1) by (simp add: set_peer_def set_lines_def)
next
  case (failed now b a e data t i l)
  then show ?thesis using fitting_no_failure [OF assms(3)] by blast
next
  case (broken now k b a part t i l)
  then obtain m ms where m: "tr_mailboxes (n_peer s a) b = m # ms"
    "t = unget (normalize_deadline now m) b ((n_peer s a)\<lparr>tr_mailboxes := (tr_mailboxes (n_peer s a))(b := ms)\<rparr>)"
    by (elim do_send_broken_Some)
  have "fits_wire (normalize_deadline now m)"
    using fits_wire_later [OF mail_fits_tail(1) [OF assms(3) m(1)]] broken(3) m(1) by simp
  then have "list_all fits_wire (tr_mailboxes t c)" for c
    using mail_fits_unget [OF assms(3) m(1)] m(2) by simp
  then show ?thesis using mail_fits_peer [OF assms(3), of t] broken(1) by (simp add: set_peer_def set_lines_def)
next
  case (recv i a b l now m rest t)
  have "genuine s a b m" using line_ok_recv [OF line_okD [OF assms(2)]] recv by auto
  then have "tr_mailboxes t = tr_mailboxes (n_peer s b)" using recv by (cases m) (auto simp: tr_simps)
  then show ?thesis by (intro mail_fits_same [OF assms(3)]) (simp add: recv(1))
next
  case (serve b req a t)
  then show ?thesis by (intro mail_fits_same [OF assms(3)]) (auto simp: read_request_def split: list.splits)
next
  case (respond a b req resp)
  have addr: "tr_addr (n_peer s b) = b" using assms(2) by (simp add: net_inv_def addr_ok_def)
  have "list_all fits_wire (tr_mailboxes (write_response resp a (n_peer s b)) c)" for c
  proof (cases "a = b")
    case True
    then show ?thesis using addr assms(3) by (simp add: write_response_def tr_simps mail_fits_def)
  next
    case False
    then have "fits_wire (Resp resp)" using assms(4) respond(1) by (auto simp: all_fit_def fits_wire_def)
    then show ?thesis using False addr mail_fits_enqueue [OF assms(3)] by (simp add: write_response_def)
  qed
  then show ?thesis
    using mail_fits_peer [OF assms(3), of "write_response resp a (n_peer s b)" s' b] respond(1)
    by (simp add: set_peer_def)
qed (use assms(3) in \<open>auto intro: mail_fits_same [OF assms(3)]\<close>)

lemma fitting_run_clean:
  assumes "net_run s s'" "all_fit s'" "net_inv s" "mail_fits s"
  shows "reachable s s' \<and> mail_fits s'"
  using assms unfolding net_run_def
proof (induction rule: rtranclp_induct)
  case base
  then show ?case by (simp add: reachable_def)
next
  case (step t s')
  have "all_fit t" using all_fit_mono [OF step.prems(1)] net_step_logs [OF step.hyps(2)] by blast
  then have i: "reachable s t" "mail_fits t" using step.IH step.prems by auto
  have inv: "net_inv t" by (rule net_inv_reachable [OF i(1) step.prems(2)])
  have "clean_step t s'" by (rule fitting_step_clean [OF step.hyps(2) inv i(2)])
  then have "reachable s s'" using i(1) unfolding reachable_def by (rule rtranclp.rtrancl_into_rtrancl [rotated])
  then show ?case using fitting_step_mail [OF step.hyps(2) inv i(2) step.prems(1)] by blast
qed

lemma fitting_run_reachable: "net_run init_net s \<Longrightarrow> all_fit s \<Longrightarrow> reachable init_net s \<and> mail_fits s"
  using fitting_run_clean [of init_net s] net_inv_init by (simp add: mail_fits_def init_net_def new_transport_def)

section \<open>Properties\<close>

text \<open>
  C11: Whatever connections break and however the senders are interrupted, a node accepts the
  requests of another in the order in which they were written, each at most once, and each as it
  was written but for its timeout: the numbers it accepted from one sender increase strictly.  This
  holds in every run in which the requests and responses that nodes exchange fit the wire format.
\<close>

theorem requests_arrive_once:
  assumes "net_run init_net s" "all_fit s"
  shows "sorted_wrt (<) (map seqno_of (got_from a b s)) \<and>
     content ` set (got_from a b s) \<subseteq> content ` {r. (a, b, r) \<in> n_sent s}"
proof -
  have inv: "net_inv s" using fitting_run_reachable [OF assms] net_inv_reachable net_inv_init by blast
  then have "sorted_wrt (<) (map seqno_of (got_from a b s))" by (simp add: net_inv_def got_ok_def)
  moreover have "content ` set (got_from a b s) \<subseteq> content ` {r. (a, b, r) \<in> n_sent s}"
  proof (intro image_subsetI)
    fix r
    assume "r \<in> set (got_from a b s)"
    then obtain r0 where "(a, b, r0) \<in> n_sent s" "content r0 = content r"
      using net_inv_got [OF inv, of a b r] by auto
    then show "content r \<in> content ` {r. (a, b, r) \<in> n_sent s}"
      by (intro image_eqI [of _ _ r0]) simp_all
  qed
  ultimately show ?thesis ..
qed

text \<open>
  C12: A request is answered by the node it was written to: when a future has a result, the request
  with its number had been written, and the result is a response which the server of that node
  gave for the request as it was written, or it is the transport's own answer to a send that does
  not wait for the receiver.  This holds in every run in which the requests and responses that
  nodes exchange fit the wire format.
\<close>

theorem answered_by_recipient:
  assumes "net_run init_net s" "all_fit s" "tr_futures (n_peer s a) n = Some (p, c)"
  shows "rp_seqno p = Some n \<and> (\<exists>b r. (a, b, r) \<in> n_sent s \<and> rq_seqno (rq_base r) = Some n \<and>
     (c = b \<and> (b, a, p) \<in> n_answers s \<and> (\<exists>r'. (a, b, r') \<in> set (n_got s) \<and> content r' = content r) \<or>
      c = a \<and> p = SendResponse (Some n) \<and> send_mode (Req r) \<in> {Some IMMEDIATELY, Some WHEN_BUFFERED}))"
proof -
  have inv: "net_inv s" using fitting_run_reachable [OF assms(1,2)] net_inv_reachable net_inv_init by blast
  then have p: "rp_seqno p = Some n" "(c, a, p) \<in> n_answers s \<or> local_answer s a n p c"
    using assms(3) by (auto simp: net_inv_def futures_ok_def)
  from p(2) show ?thesis
  proof
    assume ans: "(c, a, p) \<in> n_answers s"
    then obtain r where r: "(a, c, r) \<in> set (n_got s)" "rq_seqno (rq_base r) = Some n"
      using net_inv_answer [OF inv ans] p(1) by auto
    then show ?thesis using net_inv_got [OF inv r(1)] ans p(1) content_seqno by metis
  qed (use p(1) in \<open>auto simp: local_answer_def\<close>)
qed

fun drain :: "pyfloat \<Rightarrow> address \<Rightarrow> nat \<Rightarrow> transport \<Rightarrow> bytes \<times> transport" where
  "drain now b 0 t = ([], t)"
| "drain now b (Suc k) t =
     (case do_send now b t of
        None \<Rightarrow> ([], t)
      | Some (_, data, t') \<Rightarrow> (let (rest, u) = drain now b k t' in (data @ rest, u)))"

lemma do_recv_encoding:
  assumes "sendable m"
  shows "do_recv now a (encoding m @ rest) t = do_recv now a rest (handle_recv (received now m) a t)"
proof -
  have "encoding m \<noteq> []" using stream.dec_enc [OF assms, of now "[]"] stream.dec_Nil [of now] by auto
  then show ?thesis using stream.dec_enc [OF assms, of now rest] by (subst do_recv.simps) simp
qed

text \<open>
  C22: The bytes that a sender writes for the messages of a mailbox make the receiver handle these
  messages, one after the other and as if they had been handed over directly, except for their
  normalized timeouts and the bytes of their payloads; the mailbox is empty then.
\<close>

theorem mailbox_delivered:
  assumes "tr_mailboxes t b = ms" "list_all (\<lambda>m. sendable (normalize_deadline now m)) ms"
    and "drain now b (length ms) t = (data, t')"
  shows "do_recv now' a data u = fold (\<lambda>m. handle_recv (received now' (normalize_deadline now m)) a) ms u \<and>
     tr_mailboxes t' b = []"
  using assms
proof (induction ms arbitrary: t data u)
  case (Cons m ms)
  let ?t = "sent (normalize_deadline now m) (t\<lparr>tr_mailboxes := (tr_mailboxes t)(b := ms)\<rparr>)"
  have s: "sendable (normalize_deadline now m)" using Cons.prems by simp
  obtain d where d: "drain now b (length ms) ?t = (d, t')" "data = encoding (normalize_deadline now m) @ d"
    using Cons.prems(3) do_send_sendable [OF Cons.prems(1) s] by (auto split: prod.splits)
  have "tr_mailboxes ?t b = ms" by (simp add: tr_simps)
  then show ?case
    using Cons.IH [OF _ _ d(1)] Cons.prems(2) do_recv_encoding [OF s] by (simp add: d(2))
qed (simp add: do_recv.simps)

definition numbered :: "int \<Rightarrow> request \<Rightarrow> request" where
  "numbered n req = map_base (\<lambda>x. x\<lparr>rq_seqno := Some n\<rparr>) req"

definition lost_net :: "address \<Rightarrow> address \<Rightarrow> request \<Rightarrow> net" where
  "lost_net a b req = set_peer a ((new_transport a)\<lparr>tr_seqno := 2, tr_responses := {1}\<rparr>)
     (set_lines a b [\<lparr>ln_bytes = [], ln_open = False\<rparr>] (init_net\<lparr>n_sent := {(a, b, numbered 1 req)}\<rparr>))"

lemma set_lines_twice [simp]: "set_lines a b ls (set_lines a b ks s) = set_lines a b ls s"
  by (simp add: set_lines_def)

lemma lost_net_reachable:
  assumes "a \<noteq> b" "send_mode (Req req) \<notin> {Some IMMEDIATELY, Some WHEN_BUFFERED}"
    "sendable (normalize_deadline now (Req (numbered 1 req)))"
  shows "reachable init_net (lost_net a b req)"
proof -
  let ?r = "numbered 1 req"
  define m where "m = normalize_deadline now (Req ?r)"
  have mode: "send_mode (Req ?r) \<notin> {Some IMMEDIATELY, Some WHEN_BUFFERED}"
    using assms(2) by (cases req) (simp_all add: numbered_def)
  have mode': "send_mode m \<notin> {Some IMMEDIATELY, Some WHEN_BUFFERED}"
    using mode unfolding m_def by (cases ?r) simp_all
  define t1 where "t1 = (new_transport a)\<lparr>tr_seqno := 2, tr_responses := {1}\<rparr>"
  define t2 where "t2 = enqueue (Req ?r) b t1"
  define s1 where "s1 = set_lines a b [\<lparr>ln_bytes = [], ln_open = True\<rparr>] init_net"
  define s2 where "s2 = (set_peer a t2 s1)\<lparr>n_sent := {(a, b, ?r)}\<rparr>"
  define s3 where "s3 = set_peer a t1 (set_lines a b [\<lparr>ln_bytes = encoding m, ln_open = True\<rparr>] s2)"
  have c: "clean_step init_net s1"
    using clean_step.connect [of init_net a b] by (simp add: s1_def init_net_def)
  have "write_request req b (new_transport a) = (1, t2)"
    using assms(1) mode
    by (simp add: write_request_def handle_send_def Let_def t2_def t1_def new_transport_def flip: numbered_def)
  then have w: "clean_step s1 s2"
    using clean_step.request [of req b s1 a 1 t2]
    by (simp add: s2_def s1_def init_net_def t2_def t1_def tr_simps new_transport_def set_peer_log set_lines_def
        flip: numbered_def)
  have mb: "tr_mailboxes (n_peer s2 a) b = [Req ?r]" by (simp add: s2_def t2_def t1_def enqueue_def new_transport_def)
  have t2': "n_peer s2 a = t2" by (simp add: s2_def)
  have "t2\<lparr>tr_mailboxes := (tr_mailboxes t2)(b := [])\<rparr> = t1"
    by (simp add: t2_def t1_def enqueue_def new_transport_def fun_eq_iff)
  then have ds: "do_send now b (n_peer s2 a) = Some (Inr (), encoding m, t1)"
    using do_send_sendable [OF mb assms(3), folded m_def] mode' by (simp add: sent_def t2')
  have ln: "n_lines s2 a b = [\<lparr>ln_bytes = [], ln_open = True\<rparr>]" by (simp add: s2_def s1_def)
  have d: "clean_step s2 s3"
    using clean_step.send [OF ds, of 0 "\<lparr>ln_bytes = [], ln_open = True\<rparr>"] unfolding s3_def ln by simp
  have s3: "s3 = set_lines a b [\<lparr>ln_bytes = encoding m, ln_open = True\<rparr>] (set_peer a t1 (init_net\<lparr>n_sent := {(a, b, ?r)}\<rparr>))"
    by (simp add: s3_def s2_def s1_def set_peer_log set_log_comm set_peer_lines)
  have ln3: "n_lines s3 a b = [\<lparr>ln_bytes = encoding m, ln_open = True\<rparr>]" by (simp add: s3)
  have "clean_step s3 (set_lines a b [\<lparr>ln_bytes = [], ln_open = False\<rparr>] s3)"
    using clean_step.lose [of 0 s3 a b "\<lparr>ln_bytes = encoding m, ln_open = True\<rparr>" 0] unfolding ln3 by simp
  moreover have "lost_net a b req = set_lines a b [\<lparr>ln_bytes = [], ln_open = False\<rparr>] s3"
    by (simp add: s3 lost_net_def t1_def set_peer_lines)
  ultimately have l: "clean_step s3 (lost_net a b req)" by (simp only:)
  show ?thesis
    using c w d l unfolding reachable_def by (meson converse_rtranclp_into_rtranclp rtranclp.rtrancl_refl)
qed

lemma lost_net_mail: "mail_fits (lost_net a b req)"
  by (simp add: mail_fits_def lost_net_def init_net_def new_transport_def)

lemma lost_net_lost: "lost a 1 (lost_net a b req)"
proof -
  have "net_inv ((lost_net a b req)\<lparr>n_sent := {}\<rparr>)"
    by (auto simp: net_inv_defs lost_net_def init_net_def new_transport_def got_from_def line_ok_def
        intro: exI [of _ "[]"] split: if_splits)
  then show ?thesis by (auto simp: lost_def issued_def lost_net_def new_transport_def intro: exI [of _ "{}"])
qed

text \<open>
  C23: A request that was written without an error may still be lost with its connection, and is
  then never sent again: there is a run after which the future of the request stays pending,
  whatever happens, as long as no write raises; and no write raises as long as all messages fit the
  wire format.
\<close>

theorem written_request_can_be_lost:
  assumes "a \<noteq> b" "send_mode (Req req) \<notin> {Some IMMEDIATELY, Some WHEN_BUFFERED}"
    "sendable (normalize_deadline now (Req (numbered 1 req)))"
  shows "\<exists>s. reachable init_net s \<and> (a, b, numbered 1 req) \<in> n_sent s \<and>
     (\<forall>s'. reachable s s' \<longrightarrow> 1 \<in> tr_responses (n_peer s' a)) \<and>
     (\<forall>s'. net_run s s' \<longrightarrow> all_fit s' \<longrightarrow> 1 \<in> tr_responses (n_peer s' a))"
proof (intro exI conjI allI impI)
  show "reachable init_net (lost_net a b req)" by (rule lost_net_reachable [OF assms])
  show "(a, b, numbered 1 req) \<in> n_sent (lost_net a b req)" by (simp add: lost_net_def)
  show "1 \<in> tr_responses (n_peer s' a)" if "reachable (lost_net a b req) s'" for s'
    by (rule lost_for_ever [OF that lost_net_lost])
  have inv: "net_inv (lost_net a b req)" by (rule net_inv_reachable [OF lost_net_reachable [OF assms] net_inv_init])
  show "1 \<in> tr_responses (n_peer s' a)" if "net_run (lost_net a b req) s'" "all_fit s'" for s'
    using lost_for_ever [OF _ lost_net_lost] fitting_run_clean [OF that inv lost_net_mail] by blast
qed

fun attempts :: "pyfloat list \<Rightarrow> address \<Rightarrow> transport \<Rightarrow> bytes \<times> transport" where
  "attempts [] b t = ([], t)"
| "attempts (now # nows) b t =
     (case do_send now b t of
        None \<Rightarrow> ([], t)
      | Some (_, data, t') \<Rightarrow> (let (rest, u) = attempts nows b t' in (data @ rest, u)))"

text \<open>
  The message cannot be written at any of these times, each attempt leaving it with the timeout
  that it has then.
\<close>

fun refused :: "pyfloat list \<Rightarrow> message \<Rightarrow> bool" where
  "refused [] m \<longleftrightarrow> True"
| "refused (now # nows) m \<longleftrightarrow>
     \<not> sendable (normalize_deadline now m) \<and> refused nows (normalize_deadline now m)"

lemma unwritable_refused: "\<not> sendable (forever m) \<Longrightarrow> refused nows m"
proof (induction nows arbitrary: m)
  case (Cons now nows)
  then have "\<not> sendable (forever (normalize_deadline now m))" by simp
  then show ?case using Cons.IH not_forever_sendable by simp
qed simp

lemma do_send_refused:
  assumes "tr_mailboxes t b = m # ms" "\<not> sendable (normalize_deadline now m)"
  obtains e d data where "do_send now b t = Some (Inl e, d # data,
     t\<lparr>tr_mailboxes := (tr_mailboxes t)(b := normalize_deadline now m # ms)\<rparr>)"
proof -
  obtain e data where "write_message (normalize_deadline now m) [] =
      (Inl e, typeid (class_of (normalize_deadline now m)) # data)"
    using write_message_torn [OF assms(2)] by metis
  then show ?thesis using that assms(1) by (simp add: do_send_def unget_def Let_def)
qed

text \<open>
  C24: A message that does not fit the wire format is never given up.  If an attribute other than
  the timeout does not fit, a sequence number, descriptor, mask, client id, hint, payload or error
  number for instance, or if the timeout is too large at each attempt, then however often the
  sender tries, the message stays at the head of the mailbox, nothing behind it is sent, no future
  is completed, and every attempt leaves a part of the message on the connection.
\<close>

theorem unwritable_request_blocks:
  assumes "tr_mailboxes t b = m # ms" "\<not> sendable (forever m) \<or> refused nows m"
  shows "\<exists>data. length nows \<le> length data \<and>
     attempts nows b t = (data, t\<lparr>tr_mailboxes := (tr_mailboxes t)(b := fold normalize_deadline nows m # ms)\<rparr>)"
proof -
  have "refused nows m" using assms(2) unwritable_refused by blast
  with assms(1) show ?thesis
  proof (induction nows arbitrary: t m)
    case Nil
    then show ?case by (intro exI [of _ "[]"]) (auto simp: fun_upd_idem)
  next
    case (Cons now nows)
    let ?m = "normalize_deadline now m"
    let ?t = "t\<lparr>tr_mailboxes := (tr_mailboxes t)(b := ?m # ms)\<rparr>"
    obtain e d data where 1: "do_send now b t = Some (Inl e, d # data, ?t)"
      using do_send_refused [of t b m ms now] Cons.prems by auto
    have m: "tr_mailboxes ?t b = ?m # ms" by simp
    obtain rest where 2: "length nows \<le> length rest"
      "attempts nows b ?t = (rest, ?t\<lparr>tr_mailboxes := (tr_mailboxes ?t)(b := fold normalize_deadline nows ?m # ms)\<rparr>)"
      using Cons.IH [OF m] Cons.prems(2) by (auto simp del: fun_upd_apply)
    then show ?case using 1 by (intro exI [of _ "(d # data) @ rest"]) (simp del: fun_upd_apply)
  qed
qed

section \<open>What is read after a write that raised\<close>

text \<open>
  A mask that does not fit its format is the last attribute of its message, so everything before it
  is on the connection already, and the next attempt begins with the two bytes that complete it.
\<close>

lemma be_bytes_one: "be_bytes 8 1 = [0, 0, 0, 0, 0, 0, 0, 1]"
  by code_simp

lemma be_bytes_1024: "be_bytes 2 1024 = [4, 0]"
  by code_simp

lemma event_written:
  assumes "rq_seqno r = Some 1" "length (rq_channel_sd r) < 65536" "pack_f (rq_timeout r) = Some bs"
  defines "d \<equiv> [0, 0, 0, 0, 0, 0, 1] @ bs @ be_bytes 2 (length (rq_channel_sd r)) @ rq_channel_sd r"
  shows "write_message (Req (EventRequest r j)) [] =
      (if fits 2 j then (Inr (), (4 # 0 # d) @ be_bytes 2 (nat j)) else (Inl StructError, 4 # 0 # d))"
proof -
  have seq: "struct_write FmtQ 1 out = (Inr (), out @ [0, 0, 0, 0, 0, 0, 0, 1])" for out
    using be_bytes_one by (simp add: struct_write_def fixed_write_def stream_write_def)
  have sd: "var_write FmtH (rq_channel_sd r) out =
      (Inr (), out @ be_bytes 2 (length (rq_channel_sd r)) @ rq_channel_sd r)" for out
    using assms(2) by (simp add: var_write_def struct_write_def fixed_write_def stream_write_def sq_apply)
  have timeout: "fixed_write 4 bs out = (Inr (), out @ bs)" for out
    using pack_f_length [OF assms(3)] by (simp add: fixed_write_def stream_write_def)
  have mask: "struct_write FmtH j out = (if fits 2 j then (Inr (), out @ be_bytes 2 (nat j)) else (Inl StructError, out))" for out
    by (auto simp: struct_write_def fixed_write_def stream_write_def fits_def)
  show ?thesis
    by (simp add: write_message_def request_io_def request_values_def sq_apply assms(1,3) seq sd timeout mask d_def
        stream_write_def del: be_bytes.simps)
qed

lemma event_torn:
  assumes "rq_seqno r = Some 1" "length (rq_channel_sd r) < 65536" "pack_f (rq_timeout r) \<noteq> None" "\<not> fits 2 k"
  obtains e d where "write_message (Req (EventRequest r k)) [] = (Inl e, 4 # 0 # d)"
    and "\<And>rest. (4 # 0 # d) @ 4 # 0 # rest = encoding (Req (EventRequest r 1024)) @ rest"
    and "sendable (Req (EventRequest r 1024))"
proof -
  obtain bs where bs: "pack_f (rq_timeout r) = Some bs" using assms(3) by blast
  note w = event_written [OF assms(1,2) bs]
  have f: "fits 2 1024" by (simp add: fits_def)
  show ?thesis
  proof (rule that)
    show "write_message (Req (EventRequest r k)) [] = (Inl StructError, 4 # 0 # [0, 0, 0, 0, 0, 0, 1] @ bs @
        be_bytes 2 (length (rq_channel_sd r)) @ rq_channel_sd r)"
      using w [of k] assms(4) by simp
    show "sendable (Req (EventRequest r 1024))"
      using w [of 1024] f write_message_ok by auto
    show "(4 # 0 # [0, 0, 0, 0, 0, 0, 1] @ bs @ be_bytes 2 (length (rq_channel_sd r)) @ rq_channel_sd r) @ 4 # 0 # rest =
        encoding (Req (EventRequest r 1024)) @ rest" for rest
      using w [of 1024] f by (simp add: encoding_def be_bytes_1024)
  qed
qed

lemma event_torn_twice:
  assumes "rq_seqno r = Some 1" "length (rq_channel_sd r) < 65536" "pack_f (rq_timeout r) \<noteq> None"
    and "rq_seqno r' = Some 1" "length (rq_channel_sd r') < 65536" "pack_f (rq_timeout r') \<noteq> None" "\<not> fits 2 k"
  obtains e e' d d' rest where "write_message (Req (EventRequest r k)) [] = (Inl e, d)"
    and "write_message (Req (EventRequest r' k)) [] = (Inl e', d')"
    and "read_message now (d @ d') = (Inr (Req (EventRequest (received_base now r) 1024)), rest)"
proof -
  obtain e d where d: "write_message (Req (EventRequest r k)) [] = (Inl e, 4 # 0 # d)"
    "\<And>rest. (4 # 0 # d) @ 4 # 0 # rest = encoding (Req (EventRequest r 1024)) @ rest"
    "sendable (Req (EventRequest r 1024))"
    using event_torn [OF assms(1,2,3,7)] by metis
  obtain e' d' where d': "write_message (Req (EventRequest r' k)) [] = (Inl e', 4 # 0 # d')"
    using event_torn [OF assms(4-7)] by metis
  have "read_message now ((4 # 0 # d) @ 4 # 0 # d') = (Inr (Req (EventRequest (received_base now r) 1024)), d')"
    unfolding d(2) using stream.dec_enc [OF d(3), of now d'] by simp
  then show ?thesis using that d(1) d' by blast
qed

text \<open>Node \<open>a\<close> has written one request to \<open>b\<close>; the mailbox and the only connection hold these.\<close>

definition one_request :: "address \<Rightarrow> address \<Rightarrow> request \<Rightarrow> message list \<Rightarrow> bytes \<Rightarrow> net" where
  "one_request a b r ms bs = set_lines a b [\<lparr>ln_bytes = bs, ln_open = True\<rparr>]
     (set_peer a ((new_transport a)\<lparr>tr_seqno := 2, tr_responses := {1}, tr_mailboxes := (\<lambda>_. [])(b := ms)\<rparr>)
       (init_net\<lparr>n_sent := {(a, b, r)}\<rparr>))"

lemma one_request_run:
  assumes "a \<noteq> b" "send_mode (Req req) = None"
  shows "net_run init_net (one_request a b (numbered 1 req) [Req (numbered 1 req)] [])"
proof -
  let ?r = "numbered 1 req"
  define s1 where "s1 = set_lines a b [\<lparr>ln_bytes = [], ln_open = True\<rparr>] init_net"
  define t where "t = (new_transport a)\<lparr>tr_seqno := 2, tr_responses := {1}, tr_mailboxes := (\<lambda>_. [])(b := [Req ?r])\<rparr>"
  have mode: "send_mode (Req ?r) = None" using assms(2) by (cases req) (simp_all add: numbered_def)
  have c: "net_step init_net s1" using net_step.connect [of init_net a b] by (simp add: s1_def init_net_def)
  have w: "write_request req b (n_peer s1 a) = (1, t)"
    using assms(1) mode
    by (simp add: s1_def init_net_def write_request_def handle_send_def Let_def t_def new_transport_def enqueue_def
        fun_eq_iff flip: numbered_def)
  have "accepted a (n_peer s1 a) t = []"
    by (rule accepted_none) (simp add: t_def s1_def init_net_def new_transport_def)
  then have "net_step s1 (one_request a b ?r [Req ?r] [])"
    using net_step.request [OF w]
    by (simp add: one_request_def t_def s1_def init_net_def set_peer_def set_lines_def flip: numbered_def)
  then show ?thesis using c unfolding net_run_def by (meson converse_rtranclp_into_rtranclp rtranclp.rtrancl_refl)
qed

lemma one_request_failed:
  assumes "write_message (normalize_deadline now m) [] = (Inl e, data)" "timely now m"
  shows "net_step (one_request a b r [m] bs) (one_request a b r [normalize_deadline now m] (bs @ data))"
proof -
  let ?s = "one_request a b r [m] bs"
  let ?t = "(new_transport a)\<lparr>tr_seqno := 2, tr_responses := {1}, tr_mailboxes := (\<lambda>_. [])(b := [normalize_deadline now m])\<rparr>"
  have mb: "tr_mailboxes (n_peer ?s a) b = [m]" "n_lines ?s a b = [\<lparr>ln_bytes = bs, ln_open = True\<rparr>]"
    by (simp_all add: one_request_def)
  have "do_send now b (n_peer ?s a) = Some (Inl e, data, ?t)"
    using assms(1) by (simp add: one_request_def do_send_def unget_def Let_def new_transport_def)
  then have "net_step ?s (set_peer a ?t (set_lines a b [\<lparr>ln_bytes = bs @ data, ln_open = True\<rparr>] ?s))"
    using net_step.failed [of now b ?s a e data ?t 0 "\<lparr>ln_bytes = bs, ln_open = True\<rparr>"] assms(2)
    unfolding mb by simp
  then show ?thesis by (simp add: one_request_def set_peer_lines)
qed

lemma one_request_read:
  assumes "a \<noteq> b" "read_message now bs = (Inr (Req q), rest)" "seqno_of q = 1"
  obtains s where "net_step (one_request a b r ms bs) s" "n_sent s = {(a, b, r)}" "got_from a b s = [q]"
proof -
  let ?s = "one_request a b r ms bs"
  let ?t = "handle_recv (Req q) a (n_peer ?s b)"
  let ?u = "(set_peer b ?t (set_lines a b ((n_lines ?s a b)[0 := \<lparr>ln_bytes = rest, ln_open = True\<rparr>]) ?s))
      \<lparr>n_got := n_got ?s @ accepted b (n_peer ?s b) ?t\<rparr>"
  have ln: "n_lines ?s a b = [\<lparr>ln_bytes = bs, ln_open = True\<rparr>]" by (simp add: one_request_def)
  have "tr_last_request (n_peer ?s b) a = 0" "n_got ?s = []"
    using assms(1) by (simp_all add: one_request_def init_net_def new_transport_def)
  then have acc: "n_got ?s @ accepted b (n_peer ?s b) ?t = [(a, b, q)]"
    using assms(3) by (simp add: accepted_request)
  have "net_step ?s ?u"
    using net_step.recv [of 0 ?s a b "\<lparr>ln_bytes = bs, ln_open = True\<rparr>" now "Req q" rest ?t] assms(1,2)
    unfolding ln by simp
  moreover have "got_from a b ?u = [q]" unfolding acc by (simp add: got_from_def)
  moreover have "n_sent ?u = {(a, b, r)}" by (simp add: one_request_def)
  ultimately show ?thesis using that by blast
qed

text \<open>
  C25: A request that does not fit the wire format can reach the peer as another one.  When the mask
  of an event request is out of range, two attempts to write it on one connection make the peer
  accept an event request with the mask \<open>1024\<close>, which no node wrote: the parts that the failed
  attempts leave on the connection are read as a message.
\<close>

theorem torn_request_is_altered:
  assumes "a \<noteq> b" "length (rq_channel_sd r) < 65536" "timeout_fits r" "later now r" "\<not> fits 2 k"
  shows "\<exists>s r'. net_run init_net s \<and> n_sent s = {(a, b, numbered 1 (EventRequest r k))} \<and>
     got_from a b s = [EventRequest r' 1024] \<and> rq_seqno r' = Some 1 \<and> rq_channel_sd r' = rq_channel_sd r"
proof -
  define step where "step = (\<lambda>b. set_deadline now (deadline b) b)"
  define r0 where "r0 = r\<lparr>rq_seqno := Some 1\<rparr>"
  define r1 r2 where "r1 = step r0" and "r2 = step r1"
  have same: "rq_seqno (step x) = rq_seqno x" "rq_channel_sd (step x) = rq_channel_sd x" "rq_timestamp (step x) = now" for x
    by (simp_all add: step_def set_deadline_def seconds_remaining_def)
  have l0: "later now r0" "timeout_fits r0"
    using assms(3,4) by (simp_all add: r0_def later_def timeout_fits_def deadline_def)
  have l1: "later now r1" "timeout_fits r1" "pack_f (rq_timeout r1) \<noteq> None"
    using timeout_fits_later [OF l0(2,1)] assms(4) by (auto simp: r1_def same later_def) (auto simp: step_def)
  have p2: "pack_f (rq_timeout r2) \<noteq> None"
    using timeout_fits_later [OF l1(2,1)] by (simp add: r2_def step_def)
  have n: "numbered 1 (EventRequest r k) = EventRequest r0 k" by (simp add: numbered_def r0_def)
  have sq: "rq_seqno r1 = Some 1" "rq_seqno r2 = Some 1" "rq_channel_sd r1 = rq_channel_sd r" "rq_channel_sd r2 = rq_channel_sd r"
    by (simp_all add: r1_def r2_def same r0_def)
  obtain e1 e2 d1 d2 rest where d: "write_message (Req (EventRequest r1 k)) [] = (Inl e1, d1)"
    "write_message (Req (EventRequest r2 k)) [] = (Inl e2, d2)"
    "read_message now (d1 @ d2) = (Inr (Req (EventRequest (received_base now r1) 1024)), rest)"
    using event_torn_twice [of r1 r2 k now] sq assms(2,5) l1(3) p2 by metis
  let ?one = "one_request a b (EventRequest r0 k)"
  have s0: "net_run init_net (?one [Req (EventRequest r0 k)] [])"
    using one_request_run [OF assms(1), of "EventRequest r k"] by (simp add: n)
  have s1: "net_step (?one [Req (EventRequest r0 k)] []) (?one [Req (EventRequest r1 k)] d1)"
    using one_request_failed [of now "Req (EventRequest r0 k)" e1 d1 a b "EventRequest r0 k" "[]"] d(1) l0(1)
    by (simp add: r1_def step_def)
  have s2: "net_step (?one [Req (EventRequest r1 k)] d1) (?one [Req (EventRequest r2 k)] (d1 @ d2))"
    using one_request_failed [of now "Req (EventRequest r1 k)" e2 d2 a b "EventRequest r0 k" d1] d(2) l1(1)
    by (simp add: r2_def step_def)
  have "seqno_of (EventRequest (received_base now r1) 1024) = 1"
    using sq by (simp add: seqno_of_def received_base_def)
  then obtain s where s: "net_step (?one [Req (EventRequest r2 k)] (d1 @ d2)) s"
    "n_sent s = {(a, b, EventRequest r0 k)}" "got_from a b s = [EventRequest (received_base now r1) 1024]"
    using one_request_read [OF assms(1) d(3)] by metis
  have "net_run init_net s"
    using s0 s1 s2 s(1) unfolding net_run_def by (meson rtranclp.rtrancl_into_rtrancl)
  then show ?thesis
    using sq s n by (intro exI [of _ s] exI [of _ "received_base now r1"]) (simp add: received_base_def)
qed

section \<open>Concrete runs\<close>

definition node_a :: address where "node_a = Address (IPv4Address 1) (Some 8000)"
definition node_b :: address where "node_b = Address (IPv4Address 2) (Some 8000)"

definition poll_request :: request where
  "poll_request = EventRequest \<lparr>rq_seqno = None, rq_timestamp = 0, rq_timeout = py_inf, rq_channel_sd = [7]\<rparr> 1"

definition quick_send :: request where
  "quick_send = SendRequest \<lparr>rq_seqno = None, rq_timestamp = 0, rq_timeout = py_inf, rq_channel_sd = [7]\<rparr>
     \<lparr>sr_return_mode = IMMEDIATELY, sr_sendhid = 5, sr_clientid = 0, sr_hints = 0, sr_payload = Payload [1, 2]\<rparr>"

text \<open>The network after its first request.\<close>

definition first_request :: "address \<Rightarrow> address \<Rightarrow> request \<Rightarrow> net" where
  "first_request a b req = (let (n, t) = write_request req b (new_transport a) in
     (set_peer a t init_net)\<lparr>n_sent := {(a, b, numbered n req)}, n_got := accepted a (new_transport a) t\<rparr>)"

lemma first_request_run: "net_run init_net (first_request a b req)"
proof -
  obtain n t where w: "write_request req b (new_transport a) = (n, t)"
    by (cases "write_request req b (new_transport a)")
  have "net_step init_net (first_request a b req)"
    using net_step.request [of req b init_net a n t] w
    by (simp add: first_request_def init_net_def set_peer_def numbered_def)
  then show ?thesis unfolding net_run_def by blast
qed

lemma py_inf_parts [simp]: "mag py_inf = inf64" "negative py_inf = False"
  by (simp_all add: py_inf_def inf64_def)

lemma poll_sendable: "sendable (normalize_deadline 0 (Req (numbered 1 poll_request)))"
  by (simp add: numbered_def poll_request_def set_deadline_def deadline_def seconds_remaining_def float_add_def
      is_nan_def mag_def [of 0] is_inf_def sendable_def request_io_def request_values_def fits_def
      pack_f_def narrow_mag_def inf64_def inf32_def)

definition loop_net :: net where "loop_net = first_request node_a node_a poll_request"
definition quick_net :: net where "quick_net = first_request node_a node_b quick_send"

lemma loop_net_fits: "all_fit (first_request node_a node_a poll_request)"
  by (auto simp: all_fit_def first_request_def init_net_def set_peer_def split: prod.splits)

lemma quick_send_fits: "fits_wire (Req (numbered 1 quick_send))"
  by (simp add: fits_wire_def numbered_def quick_send_def timeout_fits_def sendable_def send_io_def request_io_def
      send_values_def request_values_def fits_def mag_def [of 0] inf64_def)

lemma quick_net_fits: "all_fit (first_request node_a node_b quick_send)"
  using quick_send_fits
  by (auto simp: all_fit_def first_request_def init_net_def set_peer_def write_request_def Let_def new_transport_def)

theorem requests_arrive_once_witness:
  "map seqno_of (got_from node_a node_a loop_net) = [1] \<and>
   sorted_wrt (<) (map seqno_of (got_from node_a node_a loop_net)) \<and>
   content ` set (got_from node_a node_a loop_net) \<subseteq> content ` {r. (node_a, node_a, r) \<in> n_sent loop_net}"
proof -
  have "map seqno_of (got_from node_a node_a loop_net) = [1]"
    by (simp add: loop_net_def first_request_def write_request_def handle_send_def loopback_send_def
        poll_request_def new_transport_def recv_request_def seqno_of_def accepted_def got_from_def)
  then show ?thesis
    using requests_arrive_once [OF first_request_run [of node_a node_a poll_request] loop_net_fits, of node_a node_a]
    by (simp add: loop_net_def)
qed

theorem answered_by_recipient_witness:
  "tr_futures (n_peer quick_net node_a) 1 = Some (SendResponse (Some 1), node_a) \<and>
   (\<exists>b r. (node_a, b, r) \<in> n_sent quick_net \<and> rq_seqno (rq_base r) = Some 1)"
proof -
  have f: "tr_futures (n_peer quick_net node_a) 1 = Some (SendResponse (Some 1), node_a)"
    by (simp add: quick_net_def first_request_def write_request_def handle_send_def quick_send_def
        new_transport_def node_a_def node_b_def recv_response_def tr_simps)
  then show ?thesis
    using answered_by_recipient [OF first_request_run [of node_a node_b quick_send] quick_net_fits, of node_a 1]
    by (auto simp: quick_net_def)
qed

definition poll_mail :: transport where
  "poll_mail = (new_transport node_a)\<lparr>tr_mailboxes := (\<lambda>_. [])(node_b := [Req (numbered 1 poll_request)])\<rparr>"

theorem mailbox_delivered_witness:
  "do_recv 0 node_a (fst (drain 0 node_b 1 poll_mail)) (new_transport node_b) =
     handle_recv (received 0 (normalize_deadline 0 (Req (numbered 1 poll_request)))) node_a (new_transport node_b) \<and>
   tr_mailboxes (snd (drain 0 node_b 1 poll_mail)) node_b = []"
  using mailbox_delivered [of poll_mail node_b "[Req (numbered 1 poll_request)]" 0
      "fst (drain 0 node_b 1 poll_mail)" "snd (drain 0 node_b 1 poll_mail)" 0 node_a "new_transport node_b"]
    poll_sendable by (simp add: poll_mail_def del: drain.simps normalize_deadline.simps)

theorem written_request_can_be_lost_witness:
  "\<exists>s. reachable init_net s \<and> (node_a, node_b, numbered 1 poll_request) \<in> n_sent s \<and>
     {s'. reachable s s'} \<subseteq> {s'. 1 \<in> tr_responses (n_peer s' node_a)}"
proof -
  have "send_mode (Req poll_request) \<notin> {Some IMMEDIATELY, Some WHEN_BUFFERED}"
    by (simp add: poll_request_def)
  then show ?thesis
    using written_request_can_be_lost [of node_a node_b poll_request 0] poll_sendable
    by (auto simp: node_a_def node_b_def)
qed

definition wide_poll :: request where
  "wide_poll = EventRequest \<lparr>rq_seqno = Some 1, rq_timestamp = 0, rq_timeout = py_inf, rq_channel_sd = [7]\<rparr> 65536"

definition stuck_mail :: transport where
  "stuck_mail = (new_transport node_a)\<lparr>tr_mailboxes := (\<lambda>_. [])(node_b := [Req wide_poll, Req (numbered 2 poll_request)])\<rparr>"

theorem torn_request_is_altered_witness:
  "\<exists>s r'. net_run init_net s \<and> n_sent s = {(node_a, node_b, wide_poll)} \<and>
     got_from node_a node_b s = [EventRequest r' 1024]"
proof -
  have "numbered 1 (EventRequest (rq_base wide_poll) 65536) = wide_poll" by (simp add: numbered_def wide_poll_def)
  moreover have "timeout_fits (rq_base wide_poll)" "later 0 (rq_base wide_poll)" "\<not> fits 2 65536"
    by (simp_all add: timeout_fits_def later_def wide_poll_def fits_def mag_def [of 0] negative_def inf64_def)
  ultimately show ?thesis
    using torn_request_is_altered [of node_a node_b "rq_base wide_poll" 0 65536]
    by (auto simp: node_a_def node_b_def wide_poll_def)
qed

theorem unwritable_request_blocks_witness:
  "\<exists>r' data. 3 \<le> length data \<and> attempts [0, 0, 0] node_b stuck_mail =
     (data, stuck_mail\<lparr>tr_mailboxes := (\<lambda>_. [])(node_b := [r', Req (numbered 2 poll_request)])\<rparr>)"
proof -
  have "\<not> sendable (forever (Req wide_poll))"
    by (simp add: wide_poll_def sendable_def request_io_def request_values_def fits_def)
  then show ?thesis
    using unwritable_request_blocks [of stuck_mail node_b "Req wide_poll" "[Req (numbered 2 poll_request)]" "[0, 0, 0]"]
    by (auto simp: stuck_mail_def simp del: attempts.simps)
qed

end
