(* ===== verification/Gateway.thy ===== *)
theory Gateway
  imports Network
begin

text \<open>
  The two ends of the TCP transport: \<open>transport/tcp/client.py\<close> turns gateway messages into requests
  and completes them with the responses, \<open>transport/tcp/server.py\<close> performs requests on the
  channels of its node.  The calls into the channels library (attaching, handles, sending,
  receiving, polling) are the attributes of a record of parameters; the \<open>GatewayMessage\<close> of
  \<open>pydragon_channels.pyx\<close> is modelled with its flags and the completions it reports.  A call that
  runs in another thread (\<open>asyncio.to_thread\<close>) is one step here: two sends that use the tables of
  handles at the same time are taken one after the other, though the code has no lock for them.
\<close>

section \<open>Gateway messages\<close>

datatype gw_kind = SendKind | GetKind | EventKind | OtherKind

text \<open>What is reported to the process that waits at the gateway.\<close>

datatype completion = SendCmplt int | GetCmplt "(bytes \<times> int \<times> int) option" int | EventCmplt int int

record gateway =
  gm_kind :: gw_kind
  gm_mode :: "send_return_mode option"
  gm_hostid :: int
  gm_ch_ser :: bytes
  gm_deadline :: pyfloat
  gm_payload :: bytes
  gm_sendhid :: bytes
  gm_clientid :: int
  gm_hints :: int
  gm_mem_sd :: "bytes option"
  gm_event_mask :: int
  gm_payload_sent :: bool
  gm_completion_called :: bool
  gm_error_state :: bool
  gm_destroyed :: bool
  gm_log :: "completion list"

text \<open>An argument declared \<open>int\<close> in Cython: other integers raise \<open>OverflowError\<close>.\<close>

definition c_int :: "int \<Rightarrow> bool" where
  "c_int n \<longleftrightarrow> - (2 ^ 31) \<le> n \<and> n < 2 ^ 31"

text \<open>
  \<open>destroy\<close> waits for the payload to be sent and for a completion.  The completion of the
  library may fail; \<open>lib_ok\<close> says whether it does.
\<close>

definition gm_destroy :: "gateway \<Rightarrow> gateway" where
  "gm_destroy g =
     (if gm_destroyed g then g
      else if gm_kind g = SendKind \<and> \<not> gm_payload_sent g \<and> \<not> gm_error_state g then g
      else if \<not> gm_completion_called g \<and> \<not> gm_error_state g then g
      else g\<lparr>gm_destroyed := True\<rparr>)"

definition complete_with :: "bool \<Rightarrow> completion \<Rightarrow> (gateway, unit) pym" where
  "complete_with lib_ok c =
     (if lib_ok then modify (\<lambda>g. g\<lparr>gm_log := gm_log g @ [c]\<rparr>)
      else sq (modify (\<lambda>g. g\<lparr>gm_error_state := True\<rparr>)) (raise ChannelError))"

definition send_complete :: "bool \<Rightarrow> int \<Rightarrow> (gateway, unit) pym" where
  "send_complete lib_ok err =
     sq (modify (\<lambda>g. g\<lparr>gm_completion_called := True\<rparr>))
     (bnd (gets gm_mode) (\<lambda>m.
      whenM (m \<in> {Some IMMEDIATELY, Some WHEN_BUFFERED, Some WHEN_DEPOSITED})
        (complete_with lib_ok (SendCmplt err))))"

definition get_complete :: "bool \<Rightarrow> (bytes \<times> int \<times> int) option \<Rightarrow> int \<Rightarrow> (gateway, unit) pym" where
  "get_complete lib_ok m err =
     sq (modify (\<lambda>g. g\<lparr>gm_completion_called := True\<rparr>)) (complete_with lib_ok (GetCmplt m err))"

definition event_complete :: "bool \<Rightarrow> int \<Rightarrow> int \<Rightarrow> (gateway, unit) pym" where
  "event_complete lib_ok res err =
     (if \<not> c_int res \<or> \<not> c_int err then raise OverflowError
      else sq (modify (\<lambda>g. g\<lparr>gm_completion_called := True\<rparr>)) (complete_with lib_ok (EventCmplt res err)))"

text \<open>\<open>error_complete\<close>: \<open>None\<close> cannot be converted to the type of its argument.\<close>

definition error_complete :: "bool \<Rightarrow> int option \<Rightarrow> (gateway, unit) pym" where
  "error_complete lib_ok op_err = (case op_err of
       None \<Rightarrow> raise TypeError
     | Some err \<Rightarrow>
         if \<not> c_int err then raise OverflowError
         else if err = 0 then raise AssertionError
         else bnd (gets gm_kind) (\<lambda>k. case k of
             SendKind \<Rightarrow> send_complete lib_ok err
           | GetKind \<Rightarrow> get_complete lib_ok None err
           | EventKind \<Rightarrow> event_complete lib_ok 0 err
           | OtherKind \<Rightarrow> sq (modify (\<lambda>g. g\<lparr>gm_error_state := True\<rparr>)) (raise ValueError)))"

section \<open>Requests\<close>

text \<open>\<open>create_request\<close> at time \<open>now\<close>.\<close>

definition base_of :: "pyfloat \<Rightarrow> gateway \<Rightarrow> base_request" where
  "base_of now g = set_deadline now (gm_deadline g)
     \<lparr>rq_seqno = None, rq_timestamp = now, rq_timeout = py_zero, rq_channel_sd = gm_ch_ser g\<rparr>"

definition create_request :: "pyfloat \<Rightarrow> gateway \<Rightarrow> request res" where
  "create_request now g =
     (case gm_kind g of
        SendKind \<Rightarrow> (case gm_mode g of
            None \<Rightarrow> Inl ValueError
          | Some m \<Rightarrow>
              if length (gm_sendhid g) \<noteq> 16 then Inl ValueError
              else let s = \<lparr>sr_return_mode = m, sr_sendhid = word_of_nat (be_nat (gm_sendhid g)),
                            sr_clientid = gm_clientid g, sr_hints = gm_hints g, sr_payload = Payload (gm_payload g)\<rparr> in
                   Inr (case gm_mem_sd g of
                          None \<Rightarrow> SendRequest (base_of now g) s
                        | Some sd \<Rightarrow> SendMemoryRequest (base_of now g) s sd))
      | GetKind \<Rightarrow> Inr (RecvRequest (base_of now g))
      | EventKind \<Rightarrow> Inr (EventRequest (base_of now g) (gm_event_mask g))
      | OtherKind \<Rightarrow> Inl ValueError)"

text \<open>
  \<open>Client.process\<close>: the address of the target node and the request to write, and the transport
  after writing it.
\<close>

definition process_gateway :: "(int \<rightharpoonup> address) \<Rightarrow> pyfloat \<Rightarrow> gateway \<Rightarrow> (transport, int) pym" where
  "process_gateway nodes now g =
     (case nodes (gm_hostid g) of
        None \<Rightarrow> raise ValueError
      | Some a \<Rightarrow> (case create_request now g of
            Inl e \<Rightarrow> raise e
          | Inr req \<Rightarrow> (\<lambda>t. let (n, t') = write_request req a t in (Inr n, t'))))"

section \<open>Responses\<close>

text \<open>
  \<open>get_errno\<close>.  \<open>lib\<close> is the \<open>lib_err\<close> attribute of the exceptions that have it: every exception of
  the library has, with \<open>None\<close> for one that was raised without an error code.
\<close>

definition get_errno :: "(exn \<rightharpoonup> int option) \<Rightarrow> exn \<Rightarrow> int option" where
  "get_errno lib e = (case lib e of Some n \<Rightarrow> n | None \<Rightarrow>
     Some (if e \<in> {ValueError, UnicodeError} then DRAGON_INVALID_ARGUMENT
      else if e = NotImplementedError then DRAGON_NOT_IMPLEMENTED
      else if e = TimeoutError then DRAGON_TIMEOUT
      else DRAGON_FAILURE))"

text \<open>
  \<open>Client.handle_response\<close>; \<open>made\<close> is the outcome of \<open>create_msg\<close>, the message for the data of a
  receive.
\<close>

fun handle_response :: "(exn \<rightharpoonup> int option) \<Rightarrow> bool \<Rightarrow> unit res \<Rightarrow> response \<Rightarrow> (gateway, unit) pym" where
  "handle_response lib lib_ok made (ErrorResponse _ err _) = error_complete lib_ok err"
| "handle_response lib lib_ok made (SendResponse _) =
     bnd (gets gm_kind) (\<lambda>k. if k \<noteq> SendKind then raise AssertionError else send_complete lib_ok 0)"
| "handle_response lib lib_ok made (RecvResponse _ clientid hints data) =
     bnd (gets gm_kind) (\<lambda>k. if k \<noteq> GetKind then raise AssertionError
       else (case made of
           Inl e \<Rightarrow> sq (try_except (error_complete lib_ok (get_errno lib e)) (\<lambda>_. ret ())) (raise e)
         | Inr _ \<Rightarrow> get_complete lib_ok (Some (data, clientid, hints)) 0))"
| "handle_response lib lib_ok made (EventResponse _ err res) =
     bnd (gets gm_kind) (\<lambda>k. if k \<noteq> EventKind then raise AssertionError else event_complete lib_ok res err)"

definition CHANNEL_CLEANUP :: int where "CHANNEL_CLEANUP = 19"

text \<open>
  \<open>Client.wait_for_response\<close>, once the future has a result: errors are logged, and the gateway
  message is destroyed if it can be.
\<close>

definition finish_gateway :: "(exn \<rightharpoonup> int option) \<Rightarrow> bool \<Rightarrow> unit res \<Rightarrow> response \<Rightarrow> gateway \<Rightarrow> gateway" where
  "finish_gateway lib lib_ok made resp g =
     gm_destroy (if gm_kind g = EventKind \<and> gm_event_mask g = CHANNEL_CLEANUP then g
       else snd (try_except (handle_response lib lib_ok made resp) (\<lambda>_. ret ()) g))"

section \<open>The server\<close>

text \<open>The calls into the channels library; a handle and a channel are named by numbers.\<close>

type_synonym cuid = int
type_synonym handle = int
type_synonym handle_key = "cuid \<times> 128 word"

record channels =
  ch_attach :: "bytes \<Rightarrow> cuid res"
  ch_serialized_uid :: "bytes \<Rightarrow> cuid res"
  ch_sendh :: "cuid \<Rightarrow> handle res"
  ch_notify_on_destroy :: "cuid \<Rightarrow> unit res"
  ch_open :: "handle \<Rightarrow> unit res"
  ch_mem_size :: "bytes \<Rightarrow> nat res"
  ch_create_alloc :: "nat \<Rightarrow> pyfloat \<Rightarrow> unit res"
  ch_create_from_mem :: "bytes \<Rightarrow> unit res"
  ch_send :: "handle \<Rightarrow> bytes \<Rightarrow> int \<Rightarrow> int \<Rightarrow> pyfloat \<Rightarrow> unit res"
  ch_recv :: "cuid \<Rightarrow> (int \<times> int \<times> bytes) res"
  ch_poll :: "cuid \<Rightarrow> int \<Rightarrow> (bool \<times> int \<times> int) res"

text \<open>\<open>_send_handles\<close>, \<open>_cuid_to_send_handles\<close> and the queues of \<open>_requests\<close>.\<close>

datatype queue_key = SendQueue bytes "128 word" | RecvQueue bytes | EventQueue bytes

record server =
  sv_send_handles :: "(handle_key, handle) pydict"
  sv_cuid_to_send_handles :: "(cuid, (handle \<times> handle_key) list) pydict"
  sv_queues :: "queue_key \<Rightarrow> (request \<times> address) list"

definition new_server :: server where
  "new_server = \<lparr>sv_send_handles = [], sv_cuid_to_send_handles = [], sv_queues = (\<lambda>_. [])\<rparr>"

text \<open>\<open>Server.run\<close>: requests are queued by channel, sends also by the handle they were sent with.\<close>

fun request_key :: "request \<Rightarrow> queue_key" where
  "request_key (SendRequest r s) = SendQueue (rq_channel_sd r) (sr_sendhid s)"
| "request_key (SendMemoryRequest r s _) = SendQueue (rq_channel_sd r) (sr_sendhid s)"
| "request_key (RecvRequest r) = RecvQueue (rq_channel_sd r)"
| "request_key (EventRequest r _) = EventQueue (rq_channel_sd r)"

definition queue_request :: "request \<Rightarrow> address \<Rightarrow> server \<Rightarrow> server" where
  "queue_request req a s = s\<lparr>sv_queues := (sv_queues s)
     (request_key req := sv_queues s (request_key req) @ [(req, a)])\<rparr>"

definition next_request :: "queue_key \<Rightarrow> server \<Rightarrow> ((request \<times> address) \<times> server) option" where
  "next_request k s = (case sv_queues s k of [] \<Rightarrow> None
     | x # xs \<Rightarrow> Some (x, s\<lparr>sv_queues := (sv_queues s)(k := xs)\<rparr>))"

text \<open>\<open>get_send_handle\<close>: a new handle is remembered before it is opened.\<close>

definition get_send_handle :: "channels \<Rightarrow> cuid \<Rightarrow> 128 word \<Rightarrow> (server, handle) pym" where
  "get_send_handle ch c hid = bnd (gets sv_send_handles) (\<lambda>hs.
     case map_of hs (c, hid) of
       Some h \<Rightarrow> ret h
     | None \<Rightarrow> bnd (lift_res (\<lambda>_. ch_sendh ch c)) (\<lambda>h.
         sq (modify (\<lambda>s. s\<lparr>sv_send_handles := AList.update (c, hid) h (sv_send_handles s)\<rparr>))
         (sq (bnd (gets sv_cuid_to_send_handles) (\<lambda>cs.
            case map_of cs c of
              Some ks \<Rightarrow> modify (\<lambda>s. s\<lparr>sv_cuid_to_send_handles :=
                AList.update c (List.insert (h, (c, hid)) ks) (sv_cuid_to_send_handles s)\<rparr>)
            | None \<Rightarrow> sq (modify (\<lambda>s. s\<lparr>sv_cuid_to_send_handles :=
                  AList.update c [(h, (c, hid))] (sv_cuid_to_send_handles s)\<rparr>))
                (lift_res (\<lambda>_. ch_notify_on_destroy ch c))))
         (sq (lift_res (\<lambda>_. ch_open ch h)) (ret h)))))"

text \<open>\<open>send_msg\<close>, \<open>recv_msg\<close> and \<open>poll_channel\<close> of \<open>util.py\<close>.\<close>

text \<open>
  \<open>create_msg\<close>: a message from the pool of the channel, or from the memory a descriptor names.
  The assignment \<open>v[:] = data\<close> to the view of a memory raises \<open>ValueError\<close> unless the sizes are
  equal; a memory of size zero stands for its pool.
\<close>

definition mem_descr_msg :: "channels \<Rightarrow> bytes \<Rightarrow> pyfloat \<Rightarrow> bytes \<Rightarrow> unit res" where
  "mem_descr_msg ch sd d data =
     (case ch_mem_size ch sd of
        Inl e \<Rightarrow> Inl e
      | Inr sz \<Rightarrow>
          if sz = 0 then ch_create_alloc ch (length data) d
          else if sz < length data then Inl ValueError
          else if sz \<noteq> length data then Inl ValueError
          else ch_create_from_mem ch sd)"

definition create_msg :: "channels \<Rightarrow> bytes option \<Rightarrow> pyfloat \<Rightarrow> bytes \<Rightarrow> unit res" where
  "create_msg ch sd d data =
     (case sd of None \<Rightarrow> ch_create_alloc ch (length data) d | Some m \<Rightarrow> mem_descr_msg ch m d data)"

definition send_msg :: "channels \<Rightarrow> base_request \<Rightarrow> send_fields \<Rightarrow> bytes option \<Rightarrow> (server, unit) pym" where
  "send_msg ch r s sd = bnd (lift_res (\<lambda>_. ch_attach ch (rq_channel_sd r))) (\<lambda>c.
     bnd (get_send_handle ch c (sr_sendhid s)) (\<lambda>h.
     sq (lift_res (\<lambda>_. create_msg ch sd (deadline r) (payload_data (sr_payload s))))
        (lift_res (\<lambda>_. ch_send ch h (payload_data (sr_payload s)) (sr_clientid s) (sr_hints s) (deadline r)))))"

definition recv_msg :: "channels \<Rightarrow> base_request \<Rightarrow> (server, int \<times> int \<times> bytes) pym" where
  "recv_msg ch r = bnd (lift_res (\<lambda>_. ch_attach ch (rq_channel_sd r))) (\<lambda>c. lift_res (\<lambda>_. ch_recv ch c))"

text \<open>\<open>close_send_handles\<close>: errors of \<open>close\<close> are ignored, a missing entry is an error.\<close>

definition forget_handle :: "handle \<times> handle_key \<Rightarrow> (server, unit) pym" where
  "forget_handle x = bnd (gets sv_send_handles) (\<lambda>hs.
     case d_del (snd x) hs of
       Inl e \<Rightarrow> raise e
     | Inr hs' \<Rightarrow> modify (\<lambda>s. s\<lparr>sv_send_handles := hs'\<rparr>))"

definition close_send_handles :: "cuid \<Rightarrow> (server, unit) pym" where
  "close_send_handles c = bnd (gets sv_cuid_to_send_handles) (\<lambda>cs.
     case map_of cs c of
       None \<Rightarrow> ret ()
     | Some ks \<Rightarrow>
         sq (for_each ks forget_handle)
            (modify (\<lambda>s. s\<lparr>sv_cuid_to_send_handles := AList.delete c (sv_cuid_to_send_handles s)\<rparr>)))"

definition poll_channel :: "channels \<Rightarrow> base_request \<Rightarrow> int \<Rightarrow> (server, bool \<times> bool \<times> int \<times> int) pym" where
  "poll_channel ch r k =
     (if k = CHANNEL_CLEANUP
      then bnd (lift_res (\<lambda>_. ch_serialized_uid ch (rq_channel_sd r))) (\<lambda>c.
           sq (close_send_handles c) (ret (False, True, 0, 0)))
      else bnd (lift_res (\<lambda>_. ch_attach ch (rq_channel_sd r))) (\<lambda>c.
           bnd (lift_res (\<lambda>_. ch_poll ch c k)) (\<lambda>(ok, val, rc). ret (True, ok, val, rc))))"

text \<open>
  \<open>Server.handle_request\<close>: the responses it writes.  A send that fails is logged, no more.
\<close>

definition handle_send_request :: "channels \<Rightarrow> base_request \<Rightarrow> send_fields \<Rightarrow> bytes option \<Rightarrow> (server, response list) pym" where
  "handle_send_request ch r s sd =
     sq (try_except (send_msg ch r s sd) (\<lambda>_. ret ()))
        (ret (if sr_return_mode s \<in> {WHEN_DEPOSITED, WHEN_RECEIVED} then [SendResponse (rq_seqno r)] else []))"

fun handle_request :: "channels \<Rightarrow> request \<Rightarrow> (server, response list) pym" where
  "handle_request ch (SendRequest r s) = handle_send_request ch r s None"
| "handle_request ch (SendMemoryRequest r s sd) = handle_send_request ch r s (Some sd)"
| "handle_request ch (RecvRequest r) = bnd (recv_msg ch r) (\<lambda>(clientid, hints, data).
     ret [RecvResponse (rq_seqno r) clientid hints data])"
| "handle_request ch (EventRequest r k) = bnd (poll_channel ch r k) (\<lambda>(send_resp, ok, val, rc).
     ret (if send_resp then
            [if ok then EventResponse (rq_seqno r) rc val
             else ErrorResponse (rq_seqno r) (Some DRAGON_TIMEOUT) (text_of ''Poll timed out'')]
          else []))"

text \<open>One round of \<open>Server.process\<close>: an exception becomes an error response.\<close>

definition process_request :: "(exn \<rightharpoonup> int option) \<Rightarrow> (exn \<Rightarrow> pystr) \<Rightarrow> channels \<Rightarrow> request \<Rightarrow> server \<Rightarrow> response list \<times> server" where
  "process_request lib tb ch req s =
     (case handle_request ch req s of
        (Inr rs, s') \<Rightarrow> (rs, s')
      | (Inl e, s') \<Rightarrow> ([ErrorResponse (rq_seqno (rq_base req)) (get_errno lib e)
          (text_of ''Error while handling request: '' @ tb e)], s'))"

section \<open>The tables of handles\<close>

text \<open>
  Both tables describe the same handles: every handle that is remembered for a channel is the one
  its key leads to, and every key of a channel is remembered for it.
\<close>

definition tables_ok :: "server \<Rightarrow> bool" where
  "tables_ok s \<longleftrightarrow>
     (\<forall>c hid h. map_of (sv_send_handles s) (c, hid) = Some h \<longleftrightarrow>
        (\<exists>ks. map_of (sv_cuid_to_send_handles s) c = Some ks \<and> (h, (c, hid)) \<in> set ks)) \<and>
     (\<forall>c ks. map_of (sv_cuid_to_send_handles s) c = Some ks \<longrightarrow>
        distinct (map snd ks) \<and> (\<forall>(h, k)\<in>set ks. fst k = c))"

lemma tables_ok_new: "tables_ok new_server"
  by (simp add: tables_ok_def new_server_def)

definition remember :: "cuid \<Rightarrow> 128 word \<Rightarrow> handle \<Rightarrow> server \<Rightarrow> server" where
  "remember c hid h s =
     s\<lparr>sv_send_handles := AList.update (c, hid) h (sv_send_handles s),
       sv_cuid_to_send_handles := AList.update c
         (case map_of (sv_cuid_to_send_handles s) c of
            Some ks \<Rightarrow> List.insert (h, (c, hid)) ks | None \<Rightarrow> [(h, (c, hid))]) (sv_cuid_to_send_handles s)\<rparr>"

lemma get_send_handle_cases:
  obtains h where "get_send_handle ch c hid s = (Inr h, s)" "map_of (sv_send_handles s) (c, hid) = Some h"
  | e where "get_send_handle ch c hid s = (Inl e, s)" "map_of (sv_send_handles s) (c, hid) = None"
  | h r where "get_send_handle ch c hid s = (r, remember c hid h s)" "map_of (sv_send_handles s) (c, hid) = None"
      "ch_sendh ch c = Inr h"
proof (cases "map_of (sv_send_handles s) (c, hid)")
  case (Some h)
  then show ?thesis using that(1) [of h] by (simp add: get_send_handle_def bnd_apply)
next
  case None
  show ?thesis
  proof (cases "ch_sendh ch c")
    case (Inl e)
    then show ?thesis using None that(2) [of e] by (simp add: get_send_handle_def bnd_apply)
  next
    case (Inr h)
    then have "snd (get_send_handle ch c hid s) = remember c hid h s"
      using None
      by (cases "ch_notify_on_destroy ch c"; cases "ch_open ch h")
        (simp_all add: get_send_handle_def bnd_apply sq_apply remember_def split: option.split)
    then show ?thesis using that(3) [of _ h] None Inr by (metis prod.collapse)
  qed
qed

lemma tables_ok_remember:
  assumes "tables_ok s" "map_of (sv_send_handles s) (c, hid) = None"
  shows "tables_ok (remember c hid h s)"
proof -
  have old: "map_of (sv_send_handles s) (x, y) = Some k \<longleftrightarrow>
      (\<exists>ks. map_of (sv_cuid_to_send_handles s) x = Some ks \<and> (k, (x, y)) \<in> set ks)" for x y k
    using assms(1) unfolding tables_ok_def by blast
  have ks: "distinct (map snd ks)" "\<forall>(h, k)\<in>set ks. fst k = x"
    if "map_of (sv_cuid_to_send_handles s) x = Some ks" for x ks
    using assms(1) that unfolding tables_ok_def by blast+
  have new: "(c, hid) \<notin> snd ` set ks" if "map_of (sv_cuid_to_send_handles s) c = Some ks" for ks
    using that assms(2) old [of c hid] by (force simp: image_iff)
  show ?thesis
    unfolding tables_ok_def
  proof (intro conjI allI impI)
    fix x y k
    show "map_of (sv_send_handles (remember c hid h s)) (x, y) = Some k \<longleftrightarrow>
      (\<exists>ks. map_of (sv_cuid_to_send_handles (remember c hid h s)) x = Some ks \<and> (k, (x, y)) \<in> set ks)"
      using old [of x y k] old [of c hid] assms(2)
      by (cases "map_of (sv_cuid_to_send_handles s) c") (auto simp: remember_def)
  next
    fix x ks
    assume a: "map_of (sv_cuid_to_send_handles (remember c hid h s)) x = Some ks"
    show "distinct (map snd ks)" "\<forall>(h, k)\<in>set ks. fst k = x"
      using a ks [of x] new
      by (cases "map_of (sv_cuid_to_send_handles s) c"; force simp: remember_def List.insert_def split: if_splits)+
  qed
qed

lemma get_send_handle_ok:
  "tables_ok s \<Longrightarrow> tables_ok (snd (get_send_handle ch c hid s))"
  by (rule get_send_handle_cases [of ch c hid s]) (simp_all add: tables_ok_remember)

lemma forget_handles_run:
  assumes "distinct (map snd ks)" "\<forall>k\<in>snd ` set ks. map_of (sv_send_handles s) k \<noteq> None"
  shows "\<exists>hs. for_each ks forget_handle s = (Inr (), s\<lparr>sv_send_handles := hs\<rparr>) \<and>
     map_of hs = (\<lambda>k. if k \<in> snd ` set ks then None else map_of (sv_send_handles s) k)"
  using assms
proof (induction ks arbitrary: s)
  case Nil
  then show ?case by (intro exI [of _ "sv_send_handles s"]) simp
next
  case (Cons x ks)
  let ?s = "s\<lparr>sv_send_handles := AList.delete (snd x) (sv_send_handles s)\<rparr>"
  have d: "distinct (map snd ks)" using Cons.prems(1) by simp
  have "\<forall>k\<in>snd ` set ks. map_of (sv_send_handles ?s) k \<noteq> None"
  proof
    fix k
    assume k: "k \<in> snd ` set ks"
    moreover have "snd x \<notin> snd ` set ks" using Cons.prems(1) by simp
    ultimately have "k \<noteq> snd x" by blast
    then show "map_of (sv_send_handles ?s) k \<noteq> None" using Cons.prems(2) k by force
  qed
  then obtain hs where hs: "for_each ks forget_handle ?s = (Inr (), ?s\<lparr>sv_send_handles := hs\<rparr>)"
     "map_of hs = (\<lambda>k. if k \<in> snd ` set ks then None else map_of (sv_send_handles ?s) k)"
    using Cons.IH [OF d] by blast
  have "forget_handle x s = (Inr (), ?s)"
    using Cons.prems(2) by (auto simp: forget_handle_def bnd_apply d_del_def)
  then have "for_each (x # ks) forget_handle s = (Inr (), s\<lparr>sv_send_handles := hs\<rparr>)"
    using hs(1) by (simp add: sq_apply)
  moreover have "map_of hs = (\<lambda>k. if k \<in> snd ` set (x # ks) then None else map_of (sv_send_handles s) k)"
    using hs(2) by (auto simp: fun_eq_iff)
  ultimately show ?case by blast
qed

lemma close_send_handles_run:
  assumes "tables_ok s"
  shows "\<exists>t. close_send_handles c s = (Inr (), t) \<and> tables_ok t \<and> sv_queues t = sv_queues s \<and>
     (\<forall>x hid. map_of (sv_send_handles t) (x, hid) =
        (if x = c then None else map_of (sv_send_handles s) (x, hid)))"
proof (cases "map_of (sv_cuid_to_send_handles s) c")
  case None
  then have "map_of (sv_send_handles s) (c, hid) = None" for hid
    using assms unfolding tables_ok_def by (metis not_None_eq)
  then show ?thesis using None assms
    by (intro exI [of _ s]) (simp add: close_send_handles_def bnd_apply)
next
  case (Some ks)
  have tab: "map_of (sv_send_handles s) (x, y) = Some k \<longleftrightarrow>
      (\<exists>ks. map_of (sv_cuid_to_send_handles s) x = Some ks \<and> (k, (x, y)) \<in> set ks)" for x y k
    using assms unfolding tables_ok_def by blast
  have ks: "distinct (map snd ks)" "\<forall>(h, k)\<in>set ks. fst k = c"
    using assms Some unfolding tables_ok_def by blast+
  have "\<forall>k\<in>snd ` set ks. map_of (sv_send_handles s) k \<noteq> None"
  proof
    fix k assume "k \<in> snd ` set ks"
    then obtain h where "(h, k) \<in> set ks" by force
    then show "map_of (sv_send_handles s) k \<noteq> None"
      using ks(2) tab [of c "snd k" h] Some by (cases k) auto
  qed
  then obtain hs where hs: "for_each ks forget_handle s = (Inr (), s\<lparr>sv_send_handles := hs\<rparr>)"
     "map_of hs = (\<lambda>k. if k \<in> snd ` set ks then None else map_of (sv_send_handles s) k)"
    using forget_handles_run [OF ks(1)] by blast
  define t where "t = s\<lparr>sv_send_handles := hs, sv_cuid_to_send_handles := AList.delete c (sv_cuid_to_send_handles s)\<rparr>"
  have run: "close_send_handles c s = (Inr (), t)"
    using Some hs(1) by (simp add: close_send_handles_def bnd_apply sq_apply t_def)
  have look: "map_of (sv_send_handles t) (x, hid) = (if x = c then None else map_of (sv_send_handles s) (x, hid))" for x hid
  proof (cases "(x, hid) \<in> snd ` set ks")
    case True
    then have "x = c" using ks(2) by force
    then show ?thesis using True by (simp add: t_def hs(2))
  next
    case False
    then have "map_of (sv_send_handles s) (c, hid) = None" if "x = c"
      using tab [of c hid] Some that by (cases "map_of (sv_send_handles s) (c, hid)") force+
    then show ?thesis using False by (auto simp: t_def hs(2))
  qed
  moreover have "tables_ok t"
    using assms look unfolding tables_ok_def by (auto simp: t_def)
  ultimately show ?thesis using run by (auto simp: t_def)
qed

lemma send_msg_ok: "tables_ok s \<Longrightarrow> tables_ok (snd (send_msg ch r f sd s))"
  using get_send_handle_ok [of s ch _ "sr_sendhid f"]
  by (auto simp: send_msg_def bnd_apply sq_apply split: sum.splits prod.splits) (metis snd_conv)+

lemma try_ignore: "try_except m (\<lambda>_. ret ()) s = (Inr (), snd (m s))"
  by (simp add: try_except_apply split: prod.split sum.split)

lemma handle_send_request_run:
  "handle_send_request ch r f sd s = (Inr (if sr_return_mode f \<in> {WHEN_DEPOSITED, WHEN_RECEIVED}
     then [SendResponse (rq_seqno r)] else []), snd (send_msg ch r f sd s))"
  by (simp add: handle_send_request_def sq_apply try_ignore)

text \<open>
  The requests to which the server gives no response: the sends which the sender's transport
  answers, and the notice that a channel is gone, if its descriptor can be read.
\<close>

definition unanswered :: "channels \<Rightarrow> request \<Rightarrow> bool" where
  "unanswered ch req \<longleftrightarrow> send_mode (Req req) \<in> {Some IMMEDIATELY, Some WHEN_BUFFERED} \<or>
     (case req of EventRequest r k \<Rightarrow> k = CHANNEL_CLEANUP \<and> \<not> isl (ch_serialized_uid ch (rq_channel_sd r)) | _ \<Rightarrow> False)"

section \<open>Properties\<close>

text \<open>
  C26: The server answers a request with exactly one response that carries its number, an error
  response when an exception was raised; it gives no response to the sends that the sender's
  transport answers itself and to the notice that a channel is gone, unless the descriptor in that
  notice cannot be read.  The tables of send handles stay consistent, whatever the channels library
  raises, and after such a notice no handle of the channel is left.
\<close>

theorem server_answers_once:
  assumes "tables_ok s" "process_request lib tb ch req s = (rs, t)"
  shows "tables_ok t \<and> (if unanswered ch req then rs = [] else \<exists>p. rs = [p] \<and> rp_seqno p = rq_seqno (rq_base req)) \<and>
     (\<forall>r c. req = EventRequest r CHANNEL_CLEANUP \<longrightarrow> ch_serialized_uid ch (rq_channel_sd r) = Inr c \<longrightarrow>
        (\<forall>hid. map_of (sv_send_handles t) (c, hid) = None))"
proof (cases req)
  case (SendRequest r f)
  then show ?thesis
    using assms send_msg_ok [OF assms(1)] by (cases "sr_return_mode f")
      (auto simp: process_request_def handle_send_request_run unanswered_def)
next
  case (SendMemoryRequest r f sd)
  then show ?thesis
    using assms send_msg_ok [OF assms(1)] by (cases "sr_return_mode f")
      (auto simp: process_request_def handle_send_request_run unanswered_def)
next
  case (RecvRequest r)
  then show ?thesis using assms
    by (auto simp: process_request_def recv_msg_def bnd_apply unanswered_def split: sum.splits prod.splits)
next
  case (EventRequest r k)
  show ?thesis
  proof (cases "k = CHANNEL_CLEANUP")
    case True
    show ?thesis
    proof (cases "ch_serialized_uid ch (rq_channel_sd r)")
      case (Inl e)
      then show ?thesis using assms EventRequest True
        by (auto simp: process_request_def poll_channel_def bnd_apply unanswered_def)
    next
      case (Inr c)
      then show ?thesis
        using assms EventRequest True close_send_handles_run [OF assms(1), of c]
        by (auto simp: process_request_def poll_channel_def bnd_apply sq_apply unanswered_def)
    qed
  next
    case False
    then show ?thesis using assms EventRequest
      by (auto simp: process_request_def poll_channel_def bnd_apply unanswered_def split: sum.splits prod.splits)
  qed
qed

text \<open>The kind of completion a gateway message waits for.\<close>

fun completes :: "gw_kind \<Rightarrow> completion \<Rightarrow> bool" where
  "completes SendKind (SendCmplt _) = True"
| "completes GetKind (GetCmplt _ _) = True"
| "completes EventKind (EventCmplt _ _) = True"
| "completes _ _ = False"

text \<open>
  The completion that a response stands for.  There is none for an error without a code.
\<close>

fun error_report :: "gw_kind \<Rightarrow> int \<Rightarrow> completion" where
  "error_report SendKind err = SendCmplt err"
| "error_report GetKind err = GetCmplt None err"
| "error_report _ err = EventCmplt 0 err"

fun report :: "(exn \<rightharpoonup> int option) \<Rightarrow> unit res \<Rightarrow> gw_kind \<Rightarrow> response \<Rightarrow> completion option" where
  "report lib made k (ErrorResponse _ err _) = map_option (error_report k) err"
| "report lib made k (SendResponse _) = Some (SendCmplt 0)"
| "report lib made k (RecvResponse _ clientid hints data) = (case made of
       Inl e \<Rightarrow> map_option (error_report k) (get_errno lib e)
     | Inr _ \<Rightarrow> Some (GetCmplt (Some (data, clientid, hints)) 0))"
| "report lib made k (EventResponse _ err res) = Some (EventCmplt res err)"

text \<open>
  The library does not report to a sender that waits for the receiver, nor may it fail, and
  nobody waits for the notice that a channel is gone.
\<close>

definition reporting :: "bool \<Rightarrow> gateway \<Rightarrow> bool" where
  "reporting lib_ok g \<longleftrightarrow> lib_ok \<and> \<not> (gm_kind g = SendKind \<and> gm_mode g = Some WHEN_RECEIVED) \<and>
     \<not> (gm_kind g = EventKind \<and> gm_event_mask g = CHANNEL_CLEANUP)"

text \<open>
  What the library promises: an error code is not zero, and codes and the results of polls are
  values of the C type \<open>int\<close>.
\<close>

definition codes_ok :: "(exn \<rightharpoonup> int option) \<Rightarrow> bool" where
  "codes_ok lib \<longleftrightarrow> (\<forall>e n. lib e = Some (Some n) \<longrightarrow> n \<noteq> 0 \<and> c_int n)"

definition polls_ok :: "channels \<Rightarrow> bool" where
  "polls_ok ch \<longleftrightarrow> (\<forall>c k ok v rc. ch_poll ch c k = Inr (ok, v, rc) \<longrightarrow> c_int v \<and> c_int rc)"

text \<open>The kinds of response that fit a kind of gateway message.\<close>

fun fits_kind :: "gw_kind \<Rightarrow> response \<Rightarrow> bool" where
  "fits_kind _ (ErrorResponse _ err _) = (\<forall>n. err = Some n \<longrightarrow> n \<noteq> 0 \<and> c_int n)"
| "fits_kind k (SendResponse _) = (k = SendKind)"
| "fits_kind k (RecvResponse _ _ _ _) = (k = GetKind)"
| "fits_kind k (EventResponse _ err res) = (k = EventKind \<and> c_int err \<and> c_int res)"

lemma content_cases:
  "content r = content (SendRequest b f) \<Longrightarrow> \<exists>b' f'. r = SendRequest b' f' \<and> sr_return_mode f' = sr_return_mode f"
  "content r = content (SendMemoryRequest b f m) \<Longrightarrow>
     \<exists>b' f'. r = SendMemoryRequest b' f' m \<and> sr_return_mode f' = sr_return_mode f"
  "content r = content (RecvRequest b) \<Longrightarrow> \<exists>b'. r = RecvRequest b'"
  "content r = content (EventRequest b k) \<Longrightarrow> \<exists>b'. r = EventRequest b' k"
  by (cases r; auto simp: received_send_def send_fields.defs dest: arg_cong [where f = sr_return_mode])+

lemma get_errno_code:
  "codes_ok lib \<Longrightarrow> get_errno lib e = Some n \<Longrightarrow> n \<noteq> 0 \<and> c_int n"
  by (auto simp: codes_ok_def get_errno_def c_int_def DRAGON_INVALID_ARGUMENT_def DRAGON_NOT_IMPLEMENTED_def
      DRAGON_TIMEOUT_def DRAGON_FAILURE_def split: option.splits if_splits)

text \<open>A response that fits leads to the completion it stands for.\<close>

lemma handle_response_reports:
  assumes "fits_kind (gm_kind g) p" "gm_kind g \<noteq> OtherKind" "gm_kind g = SendKind \<Longrightarrow> gm_mode g \<noteq> None" "codes_ok lib"
  shows "gm_log (snd (handle_response lib lib_ok made p g)) = gm_log g @
     (if lib_ok \<and> \<not> (gm_kind g = SendKind \<and> gm_mode g = Some WHEN_RECEIVED)
      then (case report lib made (gm_kind g) p of None \<Rightarrow> [] | Some c \<Rightarrow> [c]) else [])"
proof -
  have err: "gm_log (snd (error_complete lib_ok err g)) = gm_log g @
     (if lib_ok \<and> \<not> (gm_kind g = SendKind \<and> gm_mode g = Some WHEN_RECEIVED)
      then (case map_option (error_report (gm_kind g)) err of None \<Rightarrow> [] | Some c \<Rightarrow> [c]) else [])"
    if "\<And>n. err = Some n \<Longrightarrow> n \<noteq> 0 \<and> c_int n" for err
    using that assms(2,3) by (cases err; cases "gm_kind g"; cases "gm_mode g"; cases "the (gm_mode g)")
      (simp_all add: error_complete_def send_complete_def get_complete_def event_complete_def
        complete_with_def c_int_def py_simps)
  show ?thesis
  proof (cases p)
    case (RecvResponse q c h d)
    show ?thesis
    proof (cases made)
      case (Inl e)
      have "gm_log (snd (error_complete lib_ok (get_errno lib e) g)) = gm_log g @
        (if lib_ok then (case map_option (error_report (gm_kind g)) (get_errno lib e) of None \<Rightarrow> [] | Some c \<Rightarrow> [c]) else [])"
        using err [of "get_errno lib e"] get_errno_code [OF assms(4)] assms(1) RecvResponse by simp
      then show ?thesis using RecvResponse Inl assms(1)
        by (simp add: bnd_apply sq_apply try_ignore)
    next
      case (Inr u)
      then show ?thesis using RecvResponse assms(1)
        by (simp add: get_complete_def complete_with_def py_simps)
    qed
  next
    case (SendResponse q)
    then show ?thesis using assms(1,3) by (cases "gm_mode g"; cases "the (gm_mode g)")
      (simp_all add: send_complete_def complete_with_def py_simps)
  next
    case (ErrorResponse q e t)
    then show ?thesis using err [of e] assms(1)
      by (simp only: handle_response.simps report.simps fits_kind.simps) blast
  qed (use assms(1) in \<open>simp_all add: event_complete_def complete_with_def py_simps\<close>)
qed

lemma report_completes:
  assumes "fits_kind k p" "k \<noteq> OtherKind" "report lib made k p = Some c"
  shows "completes k c"
  using assms by (cases p; cases k; cases made) auto

lemma process_request_fits:
  assumes "create_request now g = Inr req" "content r = content (numbered n req)"
    "process_request lib tb ch r s = ([p], t)" "codes_ok lib" "polls_ok ch"
  shows "fits_kind (gm_kind g) p"
proof -
  note code = get_errno_code [OF assms(4)]
  consider (send) b f where "gm_kind g = SendKind" "req = SendRequest b f"
    | (mem) b f m where "gm_kind g = SendKind" "req = SendMemoryRequest b f m"
    | (get) b where "gm_kind g = GetKind" "req = RecvRequest b"
    | (event) b k where "gm_kind g = EventKind" "req = EventRequest b k"
    using assms(1) by (auto simp: create_request_def Let_def split: gw_kind.splits option.splits if_splits)
  then show ?thesis
  proof cases
    case send
    then show ?thesis using assms(2,3) content_cases(1) [of r "b\<lparr>rq_seqno := Some n\<rparr>" f]
      by (auto simp: numbered_def process_request_def handle_send_request_run split: if_splits)
  next
    case mem
    then show ?thesis using assms(2,3) content_cases(2) [of r "b\<lparr>rq_seqno := Some n\<rparr>" f m]
      by (auto simp: numbered_def process_request_def handle_send_request_run split: if_splits)
  next
    case get
    then show ?thesis using assms(2,3) content_cases(3) [of r "b\<lparr>rq_seqno := Some n\<rparr>"] code
      by (auto simp: numbered_def process_request_def bnd_apply split: sum.splits prod.splits)
  next
    case event
    then obtain b' where r: "r = EventRequest b' k"
      using assms(2) content_cases(4) [of r "b\<lparr>rq_seqno := Some n\<rparr>" k] by (auto simp: numbered_def)
    have poll: "c_int v \<and> c_int rc" if "poll_channel ch b' k s = (Inr (x, ok, v, rc), u)" for x ok v rc u
      using that assms(5)
      by (auto simp: poll_channel_def polls_ok_def bnd_apply sq_apply c_int_def split: if_splits sum.splits prod.splits)
    show ?thesis using assms(3) event(1) code poll
      by (auto simp: r process_request_def bnd_apply c_int_def DRAGON_TIMEOUT_def split: sum.splits prod.splits if_splits)
  qed
qed

text \<open>
  C27: A gateway message is completed at most once, and with what the response says.  When the
  server has answered the request that was made of it, as it was written or as it was read from a
  stream, the client reports exactly one completion, of the kind the message waits for: the data or
  result of the response, or the error code of the server or of the client.  Nothing is reported
  when the exception behind an error was raised without an error code, when the library fails to
  complete, to a sender that asked to wait for the receiver, and for the notice that a channel is
  gone.
\<close>

theorem gateway_completed_once:
  assumes "create_request now g = Inr req" "content r = content (numbered n req)"
    "process_request lib tb ch r s = ([p], t)" "codes_ok lib" "polls_ok ch" "codes_ok lib'"
  shows "gm_log (finish_gateway lib' lib_ok made p g) = gm_log g @
      (if reporting lib_ok g then (case report lib' made (gm_kind g) p of None \<Rightarrow> [] | Some c \<Rightarrow> [c]) else []) \<and>
     pred_option (completes (gm_kind g)) (report lib' made (gm_kind g) p)"
proof -
  have fit: "fits_kind (gm_kind g) p" by (rule process_request_fits [OF assms(1-5)])
  have kind: "gm_kind g \<noteq> OtherKind" "gm_kind g = SendKind \<Longrightarrow> gm_mode g \<noteq> None"
    using assms(1) by (auto simp: create_request_def split: option.splits)
  have log: "gm_log (gm_destroy x) = gm_log x" for x by (simp add: gm_destroy_def)
  show ?thesis
    using handle_response_reports [OF fit kind assms(6)] report_completes [OF fit kind(1)]
    by (auto simp: finish_gateway_def log try_ignore reporting_def option.pred_set)
qed

text \<open>The outcome of the send that a request asks for.\<close>

fun send_outcome :: "channels \<Rightarrow> request \<Rightarrow> server \<Rightarrow> unit res" where
  "send_outcome ch (SendRequest b f) s = fst (send_msg ch b f None s)"
| "send_outcome ch (SendMemoryRequest b f m) s = fst (send_msg ch b f (Some m) s)"
| "send_outcome ch _ s = Inr ()"

text \<open>
  C28: A send that fails at the server is reported as a success to a sender that waits until the
  message is deposited: whatever exception attaching the channel, opening a handle, creating the
  message or sending it raises, the server logs it and answers the request as if it had sent, and
  the client completes the gateway message with error code 0.
\<close>

theorem failed_send_reported_done:
  assumes "gm_kind g = SendKind" "gm_mode g = Some WHEN_DEPOSITED" "create_request now g = Inr req"
    "content r = content (numbered n req)" "send_outcome ch r s = Inl e"
  shows "\<exists>p t. process_request lib tb ch r s = ([p], t) \<and> rp_seqno p = rq_seqno (rq_base r) \<and>
     gm_log (finish_gateway lib' True made p g) = gm_log g @ [SendCmplt 0]"
proof -
  have fin: "gm_log (finish_gateway lib' True made (SendResponse q) g) = gm_log g @ [SendCmplt 0]" for q
    using assms(1,2) by (simp add: finish_gateway_def gm_destroy_def send_complete_def complete_with_def py_simps)
  consider (send) b f where "req = SendRequest b f" "sr_return_mode f = WHEN_DEPOSITED"
    | (mem) b f m where "req = SendMemoryRequest b f m" "sr_return_mode f = WHEN_DEPOSITED"
    using assms(1-3) by (auto simp: create_request_def Let_def split: option.splits if_splits)
  then show ?thesis
  proof cases
    case send
    then show ?thesis using assms(4) content_cases(1) [of r "b\<lparr>rq_seqno := Some n\<rparr>" f] fin
      by (auto simp: numbered_def process_request_def handle_send_request_run)
  next
    case mem
    then show ?thesis using assms(4) content_cases(2) [of r "b\<lparr>rq_seqno := Some n\<rparr>" f m] fin
      by (auto simp: numbered_def process_request_def handle_send_request_run)
  qed
qed

text \<open>Requests of one queue are taken in the order in which they were queued.\<close>

lemma queue_requests:
  "sv_queues (fold (\<lambda>(r, a). queue_request r a) xs s) k =
     sv_queues s k @ filter (\<lambda>(r, a). request_key r = k) xs"
  by (induction xs arbitrary: s) (auto simp: queue_request_def)

lemma queue_request_handles:
  "tables_ok (queue_request r a s) = tables_ok s"
  by (simp add: queue_request_def tables_ok_def)

section \<open>Concrete runs\<close>

text \<open>A library in which every call succeeds, and one in which sending raises.\<close>

definition demo_channels :: channels where
  "demo_channels = \<lparr>ch_attach = (\<lambda>_. Inr 4), ch_serialized_uid = (\<lambda>_. Inr 4), ch_sendh = (\<lambda>_. Inr 9),
     ch_notify_on_destroy = (\<lambda>_. Inr ()), ch_open = (\<lambda>_. Inr ()), ch_mem_size = (\<lambda>_. Inr 0),
     ch_create_alloc = (\<lambda>_ _. Inr ()), ch_create_from_mem = (\<lambda>_. Inr ()), ch_send = (\<lambda>_ _ _ _ _. Inr ()),
     ch_recv = (\<lambda>_. Inr (0, 0, [1, 2])), ch_poll = (\<lambda>_ _. Inr (True, 1, 0))\<rparr>"

definition broken_channels :: channels where
  "broken_channels = demo_channels\<lparr>ch_send := (\<lambda>_ _ _ _ _. Inl ChannelError)\<rparr>"

definition demo_gateway :: gateway where
  "demo_gateway = \<lparr>gm_kind = SendKind, gm_mode = Some WHEN_DEPOSITED, gm_hostid = 1, gm_ch_ser = [7],
     gm_deadline = py_inf, gm_payload = [1, 2], gm_sendhid = replicate 16 0, gm_clientid = 0, gm_hints = 0,
     gm_mem_sd = None, gm_event_mask = 0, gm_payload_sent = False, gm_completion_called = False,
     gm_error_state = False, gm_destroyed = False, gm_log = []\<rparr>"

definition demo_request :: request where
  "demo_request = (case create_request 0 demo_gateway of Inr r \<Rightarrow> r | Inl _ \<Rightarrow> poll_request)"

lemma demo_request: "create_request 0 demo_gateway = Inr demo_request"
  by (simp add: demo_request_def create_request_def demo_gateway_def)

definition cleanup_request :: request where
  "cleanup_request = EventRequest \<lparr>rq_seqno = Some 2, rq_timestamp = 0, rq_timeout = py_inf, rq_channel_sd = [7]\<rparr> CHANNEL_CLEANUP"

definition used_server :: server where
  "used_server = snd (process_request Map.empty (\<lambda>_. []) demo_channels (numbered 1 demo_request) new_server)"

lemma used_server_ok: "tables_ok used_server"
proof -
  obtain b f where "numbered 1 demo_request = SendRequest b f"
    by (simp add: numbered_def demo_request_def create_request_def demo_gateway_def)
  then show ?thesis
    using send_msg_ok [OF tables_ok_new, of demo_channels b f None]
    by (simp add: used_server_def process_request_def handle_send_request_run)
qed

theorem server_answers_once_witness:
  "map_of (sv_send_handles used_server) (4, 0) = Some 9 \<and>
   fst (process_request Map.empty (\<lambda>_. []) demo_channels cleanup_request used_server) = [] \<and>
   map_of (sv_send_handles (snd (process_request Map.empty (\<lambda>_. []) demo_channels cleanup_request used_server))) (4, 0) = None"
proof -
  have "map_of (sv_send_handles used_server) (4, 0) = Some 9"
    by (simp add: used_server_def process_request_def numbered_def demo_request_def create_request_def
        demo_gateway_def handle_send_request_run send_msg_def get_send_handle_def demo_channels_def
        new_server_def create_msg_def bnd_apply sq_apply be_nat_def numeral_eq_Suc)
  moreover have "unanswered demo_channels cleanup_request" by (simp add: unanswered_def cleanup_request_def demo_channels_def)
  moreover have "cleanup_request = EventRequest \<lparr>rq_seqno = Some 2, rq_timestamp = 0, rq_timeout = py_inf, rq_channel_sd = [7]\<rparr> CHANNEL_CLEANUP"
    by (simp add: cleanup_request_def)
  moreover have "ch_serialized_uid demo_channels [7] = Inr 4" by (simp add: demo_channels_def)
  ultimately show ?thesis
    using server_answers_once [OF used_server_ok, of Map.empty "\<lambda>_. []" demo_channels cleanup_request
        "fst (process_request Map.empty (\<lambda>_. []) demo_channels cleanup_request used_server)"
        "snd (process_request Map.empty (\<lambda>_. []) demo_channels cleanup_request used_server)"]
    by fastforce
qed

theorem gateway_completed_once_witness:
  "gm_log (finish_gateway Map.empty True (Inr ()) (SendResponse (Some 1)) demo_gateway) = [SendCmplt 0] \<and>
   completes SendKind (SendCmplt 0)"
proof -
  have p: "process_request Map.empty (\<lambda>_. []) demo_channels (numbered 1 demo_request) new_server =
      ([SendResponse (Some 1)], used_server)"
    unfolding used_server_def by (simp add: process_request_def numbered_def demo_request_def create_request_def
        demo_gateway_def base_of_def set_deadline_def seconds_remaining_def handle_send_request_run)
  have lib: "codes_ok Map.empty" "polls_ok demo_channels"
    by (simp_all add: codes_ok_def polls_ok_def demo_channels_def c_int_def)
  show ?thesis
    using gateway_completed_once [OF demo_request refl p lib lib(1), of True "Inr ()"]
    by (simp add: demo_gateway_def reporting_def)
qed

theorem failed_send_reported_done_witness:
  "\<exists>p t. process_request Map.empty (\<lambda>_. []) broken_channels (numbered 1 demo_request) new_server = ([p], t) \<and>
     gm_log (finish_gateway Map.empty True (Inr ()) p demo_gateway) = [SendCmplt 0]"
proof -
  have "send_outcome broken_channels (numbered 1 demo_request) new_server = Inl ChannelError"
    by (simp add: numbered_def demo_request_def create_request_def demo_gateway_def send_msg_def get_send_handle_def
        broken_channels_def demo_channels_def new_server_def create_msg_def bnd_apply sq_apply)
  then show ?thesis
    using failed_send_reported_done [OF _ _ demo_request refl, of broken_channels 1 new_server ChannelError Map.empty
        "\<lambda>_. []" Map.empty "Inr ()"]
    by (auto simp: demo_gateway_def)
qed

end
