(* ===== verification/Timeouts.thy ===== *)
theory Timeouts
  imports Prelude Heapq
begin

text \<open>
  Class \<open>PriorityMultiMap\<close> of \<open>infrastructure/util.py\<close>, in which global services keeps the requests
  that wait for something with a time limit.  The sets of values are lists in the order of
  insertion, a time is an integer, and entries of the heap are compared by their deadlines.
\<close>

section \<open>The class\<close>

record ('k, 'v) pmm =
  pm_items :: "('k, 'v list) pydict"
  pm_dead_keys :: "'k set"
  pm_timeout_keys :: "'k set"
  pm_timeout_pq :: "(int \<times> 'k \<times> 'v) list"
  pm_deadlines :: "'k \<times> 'v \<rightharpoonup> int"

definition new_pmm :: "('k, 'v) pmm" where
  "new_pmm = \<lparr>pm_items = [], pm_dead_keys = {}, pm_timeout_keys = {}, pm_timeout_pq = [], pm_deadlines = Map.empty\<rparr>"

definition sooner :: "int \<times> 'k \<times> 'v \<Rightarrow> int \<times> 'k \<times> 'v \<Rightarrow> bool" where
  "sooner x y \<longleftrightarrow> fst x < fst y"

definition held :: "('k, 'v) pmm \<Rightarrow> 'k \<Rightarrow> 'v list" where
  "held m k = (case map_of (pm_items m) k of None \<Rightarrow> [] | Some vs \<Rightarrow> vs)"

definition pm_put :: "int \<Rightarrow> 'k \<Rightarrow> 'v \<Rightarrow> int option \<Rightarrow> ('k, 'v) pmm \<Rightarrow> ('k, 'v) pmm" where
  "pm_put now k v timeout m =
     (let m1 = m\<lparr>pm_items := AList.update k (case map_of (pm_items m) k of
                     None \<Rightarrow> [v] | Some vs \<Rightarrow> if v \<in> set vs then vs else vs @ [v]) (pm_items m)\<rparr> in
      case timeout of
        None \<Rightarrow> m1
      | Some t \<Rightarrow> m1\<lparr>pm_deadlines := (pm_deadlines m1)((k, v) \<mapsto> now + t),
                     pm_timeout_pq := heappush sooner (pm_timeout_pq m1) (now + t, k, v),
                     pm_timeout_keys := insert k (pm_timeout_keys m1),
                     pm_dead_keys := pm_dead_keys m1 - {k}\<rparr>)"

definition pm_time_left :: "'k \<Rightarrow> 'v \<Rightarrow> ('k, 'v) pmm \<Rightarrow> int option" where
  "pm_time_left k v m = pm_deadlines m (k, v)"

definition pm_get :: "'k \<Rightarrow> ('k, 'v) pmm \<Rightarrow> 'v list res" where
  "pm_get k m = d_item k (pm_items m)"

definition next_deadline :: "('k, 'v) pmm \<Rightarrow> int option" where
  "next_deadline m = (case pm_timeout_pq m of [] \<Rightarrow> None | e # _ \<Rightarrow> Some (fst e))"

lemma heappop_shorter [termination_simp]:
  assumes "heappop lt h = Some (x, h')"
  shows "length h' < length h"
  using arg_cong [OF mset_heappop [OF assms], of size] by simp

text \<open>The loop of \<open>get_timed_out\<close>: the entries that are due leave the heap, soonest first.\<close>

function expire :: "int \<Rightarrow> (int \<times> 'k \<times> 'v) list \<Rightarrow> (int \<times> 'k \<times> 'v) list \<times> (int \<times> 'k \<times> 'v) list" where
  "expire now pq =
     (case heappop sooner pq of
        None \<Rightarrow> ([], pq)
      | Some (e, pq') \<Rightarrow>
          if fst e \<le> now then (let (out, rest) = expire now pq' in (e # out, rest)) else ([], pq))"
  by pat_completeness auto
termination expire
  by (relation "measure (\<lambda>(_, pq). length pq)") (auto dest: heappop_shorter)

declare expire.simps [simp del]

text \<open>Entries of dead keys are dropped, the others are returned; their deadlines are forgotten.\<close>

definition get_timed_out :: "int \<Rightarrow> ('k, 'v) pmm \<Rightarrow> ('k \<times> 'v) list \<times> ('k, 'v) pmm" where
  "get_timed_out now m =
     (let (out, pq) = expire now (pm_timeout_pq m) in
      (map snd (filter (\<lambda>e. fst (snd e) \<notin> pm_dead_keys m) out),
       m\<lparr>pm_timeout_pq := pq,
         pm_deadlines := (\<lambda>kv. if kv \<in> snd ` set out then None else pm_deadlines m kv),
         pm_dead_keys := (if pq = [] then {} else pm_dead_keys m)\<rparr>))"

definition pm_remove :: "'k \<Rightarrow> ('k, 'v) pmm \<Rightarrow> ('k, 'v) pmm" where
  "pm_remove k m =
     (let m1 = m\<lparr>pm_deadlines := (\<lambda>(k', v). if k' = k \<and> v \<in> set (held m k) then None else pm_deadlines m (k', v)),
                 pm_items := AList.delete k (pm_items m)\<rparr> in
      if k \<in> pm_timeout_keys m1
      then m1\<lparr>pm_dead_keys := insert k (pm_dead_keys m1), pm_timeout_keys := pm_timeout_keys m1 - {k}\<rparr>
      else m1)"

definition pm_remove_one :: "'k \<Rightarrow> 'v \<Rightarrow> ('k, 'v) pmm \<Rightarrow> ('k, 'v) pmm res" where
  "pm_remove_one k v m =
     (case map_of (pm_items m) k of
        None \<Rightarrow> Inl KeyError
      | Some vs \<Rightarrow>
          let m1 = (if v \<in> set vs
                    then let m0 = m\<lparr>pm_items := AList.update k (removeAll v vs) (pm_items m)\<rparr> in
                         if removeAll v vs = [] then pm_remove k m0 else m0
                    else m) in
          Inr (m1\<lparr>pm_deadlines := (pm_deadlines m1)((k, v) := None)\<rparr>))"

section \<open>What is due\<close>

lemma weak_order_sooner: "weak_order sooner"
  by (auto simp: weak_order_def sooner_def)

lemma set_heappop: "heappop lt h = Some (x, h') \<Longrightarrow> set h = insert x (set h')"
  using mset_heappop [of lt h x h'] by (metis set_mset_mset set_mset_add_mset_insert)

lemma expire_spec:
  assumes "heap_ordered sooner pq" "expire now pq = (out, rest)"
  shows "mset pq = mset out + mset rest \<and> heap_ordered sooner rest \<and> sorted (map fst out) \<and>
     (\<forall>e\<in>set out. fst e \<le> now) \<and> (\<forall>e\<in>set rest. now < fst e)"
  using assms
proof (induction now pq arbitrary: out rule: expire.induct)
  case (1 now pq)
  show ?case
  proof (cases "heappop sooner pq")
    case None
    then show ?thesis using 1(2,3) by (auto simp: expire.simps)
  next
    case (Some p)
    obtain e pq' where p: "heappop sooner pq = Some (e, pq')" using Some by (cases p) simp
    have least: "fst e \<le> fst x" if "x \<in> set pq" for x
      using heappop_least [OF weak_order_sooner 1(2) p that] by (simp add: sooner_def)
    show ?thesis
    proof (cases "fst e \<le> now")
      case False
      then show ?thesis using 1(2,3) p least by (force simp: expire.simps [of now pq])
    next
      case True
      obtain out' where o: "expire now pq' = (out', rest)" "out = e # out'"
        using 1(3) p True by (auto simp: expire.simps [of now pq] split: prod.splits)
      have hp: "heap_ordered sooner pq'" by (rule heap_ordered_heappop [OF weak_order_sooner 1(2) p])
      from 1(1) [OF p refl True hp o(1)] have ih: "mset pq' = mset out' + mset rest \<and> heap_ordered sooner rest \<and>
        sorted (map fst out') \<and> (\<forall>e\<in>set out'. fst e \<le> now) \<and> (\<forall>e\<in>set rest. now < fst e)" .
      have "set out' \<subseteq> set pq" using ih set_heappop [OF p] by (metis Un_upper1 set_mset_mset set_mset_union subset_insertI2)
      then have "\<forall>x\<in>set out'. fst e \<le> fst x" using least by blast
      then show ?thesis using ih True mset_heappop [OF p] o(2) by simp
    qed
  qed
qed

section \<open>The invariant\<close>

text \<open>The values of a key are distinct, and a key without values is not kept.\<close>

definition items_ok :: "('k, 'v) pmm \<Rightarrow> bool" where
  "items_ok m \<longleftrightarrow> distinct (d_keys (pm_items m)) \<and>
     (\<forall>k vs. map_of (pm_items m) k = Some vs \<longrightarrow> vs \<noteq> [] \<and> distinct vs)"

text \<open>
  An entry of the heap whose key is not dead belongs to a value that is held with this deadline,
  and a deadline of a held value has its entry.  The keys in \<open>K\<close> are exempt: they are about to be
  removed.
\<close>

definition pq_ok :: "'k set \<Rightarrow> ('k, 'v) pmm \<Rightarrow> bool" where
  "pq_ok K m \<longleftrightarrow> heap_ordered sooner (pm_timeout_pq m) \<and>
     (\<forall>d k v. (d, k, v) \<in> set (pm_timeout_pq m) \<longrightarrow> k \<notin> pm_dead_keys m \<longrightarrow> k \<in> pm_timeout_keys m \<and>
        (k \<notin> K \<longrightarrow> v \<in> set (held m k) \<and> pm_deadlines m (k, v) = Some d \<and>
           count (mset (pm_timeout_pq m)) (d, k, v) = 1))"

definition deadlines_ok :: "('k, 'v) pmm \<Rightarrow> bool" where
  "deadlines_ok m \<longleftrightarrow> (\<forall>k v d. pm_deadlines m (k, v) = Some d \<longrightarrow>
     v \<in> set (held m k) \<and> (d, k, v) \<in> set (pm_timeout_pq m) \<and> k \<notin> pm_dead_keys m)"

definition pm_inv_but :: "'k set \<Rightarrow> ('k, 'v) pmm \<Rightarrow> bool" where
  "pm_inv_but K m \<longleftrightarrow> items_ok m \<and> pq_ok K m \<and> deadlines_ok m"

abbreviation pm_inv :: "('k, 'v) pmm \<Rightarrow> bool" where
  "pm_inv \<equiv> pm_inv_but {}"

lemma deadlines_okD:
  "deadlines_ok m \<Longrightarrow> pm_deadlines m (k, v) = Some d \<Longrightarrow>
     v \<in> set (held m k) \<and> (d, k, v) \<in> set (pm_timeout_pq m) \<and> k \<notin> pm_dead_keys m"
  by (simp add: deadlines_ok_def)

lemma no_deadline: "deadlines_ok m \<Longrightarrow> v \<notin> set (held m k) \<Longrightarrow> pm_deadlines m (k, v) = None"
  using deadlines_okD [of m k v] by (cases "pm_deadlines m (k, v)") auto

lemma pq_okD:
  "pq_ok K m \<Longrightarrow> (d, k, v) \<in> set (pm_timeout_pq m) \<Longrightarrow> k \<notin> pm_dead_keys m \<Longrightarrow> k \<in> pm_timeout_keys m \<and>
     (k \<notin> K \<longrightarrow> v \<in> set (held m k) \<and> pm_deadlines m (k, v) = Some d \<and> count (mset (pm_timeout_pq m)) (d, k, v) = 1)"
  by (auto simp: pq_ok_def)

lemma new_pmm_inv [simp]: "pm_inv new_pmm"
  by (simp add: pm_inv_but_def items_ok_def pq_ok_def deadlines_ok_def new_pmm_def heap_ordered_def)

subsection \<open>Putting\<close>

text \<open>A key may be used again only when no entry of its earlier use is left in the heap.\<close>

definition no_stale :: "'k \<Rightarrow> ('k, 'v) pmm \<Rightarrow> bool" where
  "no_stale k m \<longleftrightarrow> k \<notin> pm_dead_keys m \<or> (\<forall>d v. (d, k, v) \<notin> set (pm_timeout_pq m))"

lemma pm_items_put: "pm_items (pm_put now k v t m) = AList.update k (case map_of (pm_items m) k of
    None \<Rightarrow> [v] | Some vs \<Rightarrow> if v \<in> set vs then vs else vs @ [v]) (pm_items m)"
  by (simp add: pm_put_def Let_def split: option.splits)

lemma held_put: "v \<notin> set (held m k) \<Longrightarrow>
  held (pm_put now k v t m) k' = (if k' = k then held m k @ [v] else held m k')"
  by (auto simp: held_def pm_items_put split: option.splits)

lemma items_ok_put: "items_ok m \<Longrightarrow> items_ok (pm_put now k v t m)"
  by (auto simp: items_ok_def pm_items_put distinct_d_keys_update split: option.splits if_splits)

lemma set_heappush [simp]: "set (heappush lt h x) = insert x (set h)"
  using mset_heappush [of lt h x] by (metis set_mset_mset set_mset_add_mset_insert)

lemma put_None_fields:
  "pm_timeout_pq (pm_put now k v None m) = pm_timeout_pq m" "pm_deadlines (pm_put now k v None m) = pm_deadlines m"
  "pm_timeout_keys (pm_put now k v None m) = pm_timeout_keys m" "pm_dead_keys (pm_put now k v None m) = pm_dead_keys m"
  by (simp_all add: pm_put_def)

lemma put_Some_fields:
  "pm_timeout_pq (pm_put now k v (Some t) m) = heappush sooner (pm_timeout_pq m) (now + t, k, v)"
  "pm_deadlines (pm_put now k v (Some t) m) = (pm_deadlines m)((k, v) \<mapsto> now + t)"
  "pm_timeout_keys (pm_put now k v (Some t) m) = insert k (pm_timeout_keys m)"
  "pm_dead_keys (pm_put now k v (Some t) m) = pm_dead_keys m - {k}"
  by (simp_all add: pm_put_def Let_def)

lemma put_inv:
  assumes inv: "pm_inv_but K m" and new: "v \<notin> set (held m k)" "k \<notin> K" and key: "no_stale k m"
  shows "pm_inv_but K (pm_put now k v timeout m)"
proof -
  have ok: "pq_ok K m" "deadlines_ok m" using inv by (simp_all add: pm_inv_but_def)
  note h = held_put [OF new(1)]
  have dl: "pm_deadlines m (k, v) = None" by (rule no_deadline [OF ok(2) new(1)])
  have none: "(d, k, v) \<notin> set (pm_timeout_pq m)" for d
    using pq_okD [OF ok(1), of d k v] new key dl by (auto simp: no_stale_def)
  have "pq_ok K (pm_put now k v timeout m) \<and> deadlines_ok (pm_put now k v timeout m)"
  proof (cases timeout)
    case None
    have "set (held m k') \<subseteq> set (held (pm_put now k v None m) k')" for k' by (auto simp: h)
    then show ?thesis using ok unfolding None pq_ok_def deadlines_ok_def put_None_fields by blast
  next
    case (Some t)
    have "k' \<in> insert k (pm_timeout_keys m) \<and> (k' \<notin> K \<longrightarrow> v' \<in> set (if k' = k then held m k @ [v] else held m k') \<and>
        ((pm_deadlines m)((k, v) \<mapsto> now + t)) (k', v') = Some d \<and>
        count (mset (heappush sooner (pm_timeout_pq m) (now + t, k, v))) (d, k', v') = 1)"
      if a: "(d, k', v') \<in> set (heappush sooner (pm_timeout_pq m) (now + t, k, v))" "k' \<notin> pm_dead_keys m - {k}" for d k' v'
    proof (cases "(k', v') = (k, v)")
      case True
      then show ?thesis using a none [of d] none [of "now + t"] by (simp add: mset_heappush not_in_iff)
    next
      case False
      then have i: "(d, k', v') \<in> set (pm_timeout_pq m)" using a by auto
      then have "k' \<notin> pm_dead_keys m" using a key by (auto simp: no_stale_def)
      from pq_okD [OF ok(1) i this] False show ?thesis by (auto simp: mset_heappush)
    qed
    then have "pq_ok K (pm_put now k v timeout m)"
      using ok(1) heap_ordered_heappush [OF weak_order_sooner, of "pm_timeout_pq m"]
      unfolding pq_ok_def Some put_Some_fields h by blast
    moreover have "deadlines_ok (pm_put now k v timeout m)"
      using ok(2) by (auto simp: deadlines_ok_def Some put_Some_fields h)
    ultimately show ?thesis ..
  qed
  then show ?thesis using inv by (simp add: pm_inv_but_def items_ok_put)
qed

subsection \<open>Removing\<close>

lemma remove_fields:
  "pm_items (pm_remove k m) = AList.delete k (pm_items m)"
  "pm_timeout_pq (pm_remove k m) = pm_timeout_pq m"
  "pm_deadlines (pm_remove k m) = (\<lambda>(k', v). if k' = k \<and> v \<in> set (held m k) then None else pm_deadlines m (k', v))"
  "pm_dead_keys (pm_remove k m) = (if k \<in> pm_timeout_keys m then insert k (pm_dead_keys m) else pm_dead_keys m)"
  "pm_timeout_keys (pm_remove k m) = pm_timeout_keys m - {k}"
  by (auto simp: pm_remove_def Let_def)

lemma held_remove [simp]: "held (pm_remove k m) k' = (if k' = k then [] else held m k')"
  by (simp add: held_def remove_fields)

lemma items_ok_remove: "items_ok m \<Longrightarrow> items_ok (pm_remove k m)"
  by (auto simp: items_ok_def remove_fields distinct_d_keys_delete split: if_splits)

lemma remove_inv:
  assumes inv: "pm_inv_but K m"
  shows "pm_inv_but (K - {k}) (pm_remove k m)"
proof -
  have ok: "items_ok m" "pq_ok K m" "deadlines_ok m" using inv by (simp_all add: pm_inv_but_def)
  have live: "k' \<noteq> k \<and> k' \<notin> pm_dead_keys m" if "(d, k', v) \<in> set (pm_timeout_pq m)" "k' \<notin> pm_dead_keys (pm_remove k m)" for d k' v
    using that pq_okD [OF ok(2) that(1)] by (auto simp: remove_fields split: if_splits)
  have "pq_ok (K - {k}) (pm_remove k m)"
    unfolding pq_ok_def
  proof (intro conjI allI impI)
    show "heap_ordered sooner (pm_timeout_pq (pm_remove k m))" using ok(2) by (simp add: pq_ok_def remove_fields)
  next
    fix d k' v
    assume "(d, k', v) \<in> set (pm_timeout_pq (pm_remove k m))" and dead: "k' \<notin> pm_dead_keys (pm_remove k m)"
    then have i: "(d, k', v) \<in> set (pm_timeout_pq m)" by (simp add: remove_fields)
    note l = live [OF i dead]
    have p: "k' \<in> pm_timeout_keys m \<and> (k' \<notin> K \<longrightarrow> v \<in> set (held m k') \<and> pm_deadlines m (k', v) = Some d \<and>
       count (mset (pm_timeout_pq m)) (d, k', v) = 1)"
      using pq_okD [OF ok(2) i] l by blast
    then show "k' \<in> pm_timeout_keys (pm_remove k m)" using l by (simp add: remove_fields)
    assume "k' \<notin> K - {k}"
    with p l show "v \<in> set (held (pm_remove k m) k')" "pm_deadlines (pm_remove k m) (k', v) = Some d"
      "count (mset (pm_timeout_pq (pm_remove k m))) (d, k', v) = 1"
      by (simp_all add: remove_fields)
  qed
  moreover have "deadlines_ok (pm_remove k m)"
    using deadlines_okD [OF ok(3)] no_deadline [OF ok(3)]
    by (fastforce simp: deadlines_ok_def remove_fields split: if_splits)
  ultimately show ?thesis using ok(1) by (simp add: pm_inv_but_def items_ok_remove)
qed

lemma held_update: "held (m\<lparr>pm_items := AList.update k vs (pm_items m)\<rparr>) k' = (if k' = k then vs else held m k')"
  by (simp add: held_def)

lemma held_Some: "v \<in> set (held m k) \<Longrightarrow> map_of (pm_items m) k = Some (held m k)"
  by (cases "map_of (pm_items m) k") (simp_all add: held_def)

lemma pm_inv_but_mono: "pm_inv_but K m \<Longrightarrow> K \<subseteq> L \<Longrightarrow> pm_inv_but L m"
  unfolding pm_inv_but_def pq_ok_def by blast

text \<open>A value that has no deadline any more, or whose key is about to be removed, may leave.\<close>

lemma drop_value_inv:
  assumes inv: "pm_inv_but K m" and v: "v \<in> set (held m k)" and free: "pm_deadlines m (k, v) = None \<or> k \<in> K"
    and rest: "removeAll v (held m k) \<noteq> []"
  shows "pm_inv_but K (m\<lparr>pm_items := AList.update k (removeAll v (held m k)) (pm_items m),
     pm_deadlines := (pm_deadlines m)((k, v) := None)\<rparr>)" (is "pm_inv_but K ?m")
proof -
  have ok: "items_ok m" "pq_ok K m" "deadlines_ok m" using inv by (simp_all add: pm_inv_but_def)
  have h: "held ?m k' = (if k' = k then removeAll v (held m k) else held m k')" for k' by (simp add: held_def)
  have "distinct (held m k)" using ok(1) held_Some [OF v] by (simp add: items_ok_def)
  then have "items_ok ?m" using ok(1) rest
    by (auto simp: items_ok_def distinct_d_keys_update distinct_removeAll split: if_splits)
  moreover have "pq_ok K ?m" unfolding pq_ok_def
  proof (intro conjI allI impI)
    show "heap_ordered sooner (pm_timeout_pq ?m)" using ok(2) by (simp add: pq_ok_def)
  next
    fix d k' v'
    assume "(d, k', v') \<in> set (pm_timeout_pq ?m)" "k' \<notin> pm_dead_keys ?m"
    then have p: "k' \<in> pm_timeout_keys m \<and> (k' \<notin> K \<longrightarrow> v' \<in> set (held m k') \<and> pm_deadlines m (k', v') = Some d \<and>
       count (mset (pm_timeout_pq m)) (d, k', v') = 1)"
      using pq_okD [OF ok(2)] by simp
    then show "k' \<in> pm_timeout_keys ?m" by simp
    assume "k' \<notin> K"
    with p free show "v' \<in> set (held ?m k')" "pm_deadlines ?m (k', v') = Some d"
      "count (mset (pm_timeout_pq ?m)) (d, k', v') = 1" by (auto simp: h)
  qed
  moreover have "deadlines_ok ?m"
    using deadlines_okD [OF ok(3)] by (fastforce simp: deadlines_ok_def h split: if_splits)
  ultimately show ?thesis by (simp add: pm_inv_but_def)
qed

lemma remove_one_inv:
  assumes inv: "pm_inv_but K m" and v: "v \<in> set (held m k)" and free: "pm_deadlines m (k, v) = None \<or> k \<in> K"
  obtains m' where "pm_remove_one k v m = Inr m'" "pm_inv_but K m'"
    "held m' = (held m)(k := removeAll v (held m k))" "pm_deadlines m' = (pm_deadlines m)((k, v) := None)"
    "pm_timeout_pq m' = pm_timeout_pq m"
proof (cases "removeAll v (held m k) = []")
  case False
  define m' where "m' = m\<lparr>pm_items := AList.update k (removeAll v (held m k)) (pm_items m),
     pm_deadlines := (pm_deadlines m)((k, v) := None)\<rparr>"
  have "pm_remove_one k v m = Inr m'" using False held_Some [OF v] v by (simp add: pm_remove_one_def m'_def)
  moreover have "pm_inv_but K m'" unfolding m'_def by (rule drop_value_inv [OF inv v free False])
  moreover have "held m' = (held m)(k := removeAll v (held m k))" by (auto simp: m'_def held_def)
  ultimately show ?thesis by (rule that) (simp_all add: m'_def)
next
  case True
  have "distinct (held m k)" using inv held_Some [OF v] by (simp add: pm_inv_but_def items_ok_def)
  then have one: "held m k = [v]" using True v by (cases "held m k") (auto simp: removeAll_id split: if_splits)
  have "pm_remove_one k v m = Inr (pm_remove k m)"
    using held_Some [OF v] v one
    by (simp add: pm_remove_one_def pm_remove_def Let_def held_def delete_update_same fun_eq_iff)
  moreover have "pm_inv_but K (pm_remove k m)"
    by (rule pm_inv_but_mono [OF remove_inv [OF inv]]) auto
  moreover have "held (pm_remove k m) = (held m)(k := removeAll v (held m k))" by (auto simp: one)
  moreover have "pm_deadlines (pm_remove k m) = (pm_deadlines m)((k, v) := None)"
    by (auto simp: remove_fields one)
  ultimately show ?thesis by (rule that) (simp add: remove_fields)
qed

subsection \<open>Timing out\<close>

text \<open>\<open>get_timed_out\<close> returns what is due, each value once and the soonest first.\<close>

lemma get_timed_out_spec:
  assumes inv: "pm_inv m" and run: "get_timed_out now m = (rv, m')"
  shows "pm_inv m'" and "distinct rv" and "set rv = {kv. \<exists>d \<le> now. pm_deadlines m kv = Some d}"
    and "sorted (map (\<lambda>kv. the (pm_deadlines m kv)) rv)"
    and "pm_items m' = pm_items m"
    and "pm_deadlines m' = (\<lambda>kv. if kv \<in> set rv then None else pm_deadlines m kv)"
    and "set (pm_timeout_pq m') \<subseteq> set (pm_timeout_pq m)" and "pm_dead_keys m' \<subseteq> pm_dead_keys m"
proof -
  have ok: "items_ok m" "pq_ok {} m" "deadlines_ok m" using inv by (simp_all add: pm_inv_but_def)
  obtain out pq where e: "expire now (pm_timeout_pq m) = (out, pq)" by force
  have sp: "mset (pm_timeout_pq m) = mset out + mset pq" "heap_ordered sooner pq" "sorted (map fst out)"
    "\<forall>e\<in>set out. fst e \<le> now" "\<forall>e\<in>set pq. now < fst e"
    using expire_spec [OF _ e] ok(2) by (auto simp: pq_ok_def)
  have st: "set (pm_timeout_pq m) = set out \<union> set pq" using sp(1) by (metis set_mset_mset set_mset_union)
  let ?live = "filter (\<lambda>e. fst (snd e) \<notin> pm_dead_keys m) out"
  have rv: "rv = map snd ?live" using run e by (auto simp: get_timed_out_def)
  have live: "pm_deadlines m (snd x) = Some (fst x) \<and> count (mset (pm_timeout_pq m)) x = 1" if "x \<in> set ?live" for x
    using that pq_okD [OF ok(2), of "fst x" "fst (snd x)" "snd (snd x)"] st by auto
  show 1: "set rv = {kv. \<exists>d \<le> now. pm_deadlines m kv = Some d}"
  proof (intro set_eqI iffI)
    fix kv
    assume "kv \<in> set rv"
    then show "kv \<in> {kv. \<exists>d \<le> now. pm_deadlines m kv = Some d}" using live sp(4) by (auto simp: rv)
  next
    fix kv
    assume "kv \<in> {kv. \<exists>d \<le> now. pm_deadlines m kv = Some d}"
    then obtain d where d: "d \<le> now" "pm_deadlines m kv = Some d" by auto
    then have "(d, kv) \<in> set out" "fst kv \<notin> pm_dead_keys m"
      using deadlines_okD [OF ok(3), of "fst kv" "snd kv" d] st sp(5) by auto
    then show "kv \<in> set rv" by (force simp: rv)
  qed
  show "sorted (map (\<lambda>kv. the (pm_deadlines m kv)) rv)"
  proof -
    have "map (\<lambda>kv. the (pm_deadlines m kv)) rv = map fst ?live" using live by (auto simp: rv comp_def)
    then show ?thesis using sorted_filter [OF sp(3)] by simp
  qed
  show "pm_items m' = pm_items m" using run e by (auto simp: get_timed_out_def)
  have m': "m' = m\<lparr>pm_timeout_pq := pq, pm_dead_keys := (if pq = [] then {} else pm_dead_keys m),
      pm_deadlines := (\<lambda>kv. if kv \<in> snd ` set out then None else pm_deadlines m kv)\<rparr>"
    using run e by (auto simp: get_timed_out_def)
  have "pm_deadlines m kv = None" if "kv \<in> snd ` set out" "kv \<notin> set rv" for kv
    using that deadlines_okD [OF ok(3), of "fst kv" "snd kv"]
    by (cases "pm_deadlines m kv") (force simp: rv)+
  moreover have "set rv \<subseteq> snd ` set out" by (auto simp: rv)
  ultimately show dl: "pm_deadlines m' = (\<lambda>kv. if kv \<in> set rv then None else pm_deadlines m kv)"
    by (auto simp: m' fun_eq_iff)
  have "count (mset ?live) x = (if x \<in> set ?live then 1 else 0)" for x
  proof (cases "x \<in> set ?live")
    case True
    then have "count (mset out) x \<noteq> 0" by (simp add: count_eq_zero_iff)
    moreover have "count (mset ?live) x = count (mset out) x" using True by (simp add: mset_filter)
    moreover have "count (mset out) x + count (mset pq) x = 1" using live [OF True] sp(1) by simp
    ultimately show ?thesis using True by presburger
  next
    case False
    then show ?thesis by (simp only: count_mset_0_iff if_False) simp
  qed
  then have "distinct ?live" by (simp only: distinct_count_atmost_1) simp
  moreover have "inj_on snd (set ?live)" using live by (metis (no_types, lifting) inj_onI option.inject prod_eqI)
  ultimately show "distinct rv" by (simp add: rv distinct_map)
  show "set (pm_timeout_pq m') \<subseteq> set (pm_timeout_pq m)" "pm_dead_keys m' \<subseteq> pm_dead_keys m"
    using st by (auto simp: m')
  have h: "held m' = held m" by (simp add: held_def m' fun_eq_iff)
  have "pq_ok {} m'" unfolding pq_ok_def
  proof (intro conjI allI impI)
    show "heap_ordered sooner (pm_timeout_pq m')" using sp(2) by (simp add: m')
  next
    fix d k v
    assume a: "(d, k, v) \<in> set (pm_timeout_pq m')" "k \<notin> pm_dead_keys m'"
    then have i: "(d, k, v) \<in> set pq" "k \<notin> pm_dead_keys m" by (auto simp: m' split: if_splits)
    then have p: "k \<in> pm_timeout_keys m" "v \<in> set (held m k)" "pm_deadlines m (k, v) = Some d"
      "count (mset (pm_timeout_pq m)) (d, k, v) = 1" using pq_okD [OF ok(2), of d k v] st by auto
    then show "k \<in> pm_timeout_keys m'" by (simp add: m')
    show "v \<in> set (held m' k)" using p(2) by (simp add: h)
    show "pm_deadlines m' (k, v) = Some d" using p(3) sp(5) i(1) by (auto simp: dl 1)
    have "count (mset pq) (d, k, v) \<noteq> 0" using i(1) by (simp add: count_eq_zero_iff)
    moreover have "count (mset out) (d, k, v) + count (mset pq) (d, k, v) = 1" using p(4) sp(1) by simp
    ultimately have "count (mset pq) (d, k, v) = 1" by presburger
    then show "count (mset (pm_timeout_pq m')) (d, k, v) = 1" by (simp add: m')
  qed
  moreover have "deadlines_ok m'" unfolding deadlines_ok_def
  proof (intro allI impI)
    fix k v d
    assume "pm_deadlines m' (k, v) = Some d"
    then have d: "pm_deadlines m (k, v) = Some d" "now < d" by (auto simp: dl 1 split: if_splits)
    then show "v \<in> set (held m' k) \<and> (d, k, v) \<in> set (pm_timeout_pq m') \<and> k \<notin> pm_dead_keys m'"
      using deadlines_okD [OF ok(3) d(1)] st sp(4) h by (auto simp: m')
  qed
  moreover have "items_ok m'" using ok(1) by (simp add: items_ok_def m')
  ultimately show "pm_inv m'" by (simp add: pm_inv_but_def)
qed

section \<open>The abstract map of waiting values\<close>

text \<open>
  Abstractly the class is a map from the pairs that wait to their deadlines.  Its clients put a
  pair, remove a key, or let the pairs that are due time out, as \<open>do_timeouts\<close> does: each is
  answered and removed.
\<close>

definition waiting :: "('k, 'v) pmm \<Rightarrow> 'k \<times> 'v \<rightharpoonup> int option" where
  "waiting m = (\<lambda>(k, v). if v \<in> set (held m k) then Some (pm_deadlines m (k, v)) else None)"

datatype ('k, 'v) pm_op = Put int 'k 'v "int option" | Remove 'k | Expire int

fun drop_all :: "('k \<times> 'v) list \<Rightarrow> ('k, 'v) pmm \<Rightarrow> ('k, 'v) pmm res" where
  "drop_all [] m = Inr m"
| "drop_all ((k, v) # kvs) m = (case pm_remove_one k v m of Inl e \<Rightarrow> Inl e | Inr m' \<Rightarrow> drop_all kvs m')"

fun pm_step :: "('k, 'v) pm_op \<Rightarrow> ('k, 'v) pmm \<Rightarrow> (('k \<times> 'v) list \<times> ('k, 'v) pmm) res" where
  "pm_step (Put now k v t) m = Inr ([], pm_put now k v t m)"
| "pm_step (Remove k) m = Inr ([], pm_remove k m)"
| "pm_step (Expire now) m =
     (let (out, m1) = get_timed_out now m in
      case drop_all out m1 of Inl e \<Rightarrow> Inl e | Inr m2 \<Rightarrow> Inr (out, m2))"

fun pm_run :: "('k, 'v) pm_op list \<Rightarrow> ('k, 'v) pmm \<Rightarrow> (('k \<times> 'v) list list \<times> ('k, 'v) pmm) res" where
  "pm_run [] m = Inr ([], m)"
| "pm_run (x # xs) m = (case pm_step x m of Inl e \<Rightarrow> Inl e
     | Inr (out, m1) \<Rightarrow> (case pm_run xs m1 of Inl e \<Rightarrow> Inl e | Inr (outs, m2) \<Rightarrow> Inr (out # outs, m2)))"

text \<open>The specification: what times out, and the map afterwards.\<close>

fun spec_out :: "('k, 'v) pm_op \<Rightarrow> ('k \<times> 'v \<rightharpoonup> int option) \<Rightarrow> ('k \<times> 'v) set" where
  "spec_out (Expire now) A = {kv. case A kv of Some (Some d) \<Rightarrow> d \<le> now | _ \<Rightarrow> False}"
| "spec_out _ A = {}"

fun spec_step :: "('k, 'v) pm_op \<Rightarrow> ('k \<times> 'v \<rightharpoonup> int option) \<Rightarrow> ('k \<times> 'v \<rightharpoonup> int option)" where
  "spec_step (Put now k v t) A = A((k, v) \<mapsto> map_option (\<lambda>x. now + x) t)"
| "spec_step (Remove k) A = (\<lambda>kv. if fst kv = k then None else A kv)"
| "spec_step (Expire now) A = (\<lambda>kv. if kv \<in> spec_out (Expire now) A then None else A kv)"

text \<open>No pair is put twice, and no key is used again after it was removed.\<close>

fun legal :: "('k, 'v) pm_op list \<Rightarrow> 'k set \<Rightarrow> ('k \<times> 'v \<rightharpoonup> int option) \<Rightarrow> bool" where
  "legal [] R A \<longleftrightarrow> True"
| "legal (Put now k v t # xs) R A \<longleftrightarrow> k \<notin> R \<and> A (k, v) = None \<and> legal xs R (spec_step (Put now k v t) A)"
| "legal (Remove k # xs) R A \<longleftrightarrow> legal xs (insert k R) (spec_step (Remove k) A)"
| "legal (Expire now # xs) R A \<longleftrightarrow> legal xs R (spec_step (Expire now) A)"

fun spec_run :: "('k, 'v) pm_op list \<Rightarrow> ('k \<times> 'v \<rightharpoonup> int option) \<Rightarrow> ('k \<times> 'v) set list \<times> ('k \<times> 'v \<rightharpoonup> int option)" where
  "spec_run [] A = ([], A)"
| "spec_run (x # xs) A = (let (outs, B) = spec_run xs (spec_step x A) in (spec_out x A # outs, B))"

text \<open>Left-over entries of a dead key are there only when the key was removed.\<close>

definition stale_in :: "'k set \<Rightarrow> ('k, 'v) pmm \<Rightarrow> bool" where
  "stale_in R m \<longleftrightarrow> (\<forall>k\<in>pm_dead_keys m. k \<in> R \<or> (\<forall>d v. (d, k, v) \<notin> set (pm_timeout_pq m)))"

lemma waiting_None: "waiting m (k, v) = None \<longleftrightarrow> v \<notin> set (held m k)"
  by (simp add: waiting_def)

lemma put_refines:
  assumes "pm_inv m" "stale_in R m" "k \<notin> R" "v \<notin> set (held m k)"
  shows "pm_inv (pm_put now k v t m) \<and> stale_in R (pm_put now k v t m) \<and>
     waiting (pm_put now k v t m) = spec_step (Put now k v t) (waiting m)"
proof -
  have "no_stale k m" using assms(2,3) by (auto simp: no_stale_def stale_in_def)
  then have "pm_inv (pm_put now k v t m)" using put_inv [OF assms(1,4)] by simp
  moreover have "stale_in R (pm_put now k v t m)"
    using assms(2,3) by (cases t) (auto simp: stale_in_def put_None_fields put_Some_fields)
  moreover have "pm_deadlines m (k, v) = None"
    using assms(1,4) by (auto simp: pm_inv_but_def intro: no_deadline)
  then have "waiting (pm_put now k v t m) = spec_step (Put now k v t) (waiting m)"
    by (cases t) (auto simp: waiting_def held_put [OF assms(4)] put_None_fields put_Some_fields fun_eq_iff)
  ultimately show ?thesis by blast
qed

lemma remove_refines:
  assumes "pm_inv m" "stale_in R m"
  shows "pm_inv (pm_remove k m) \<and> stale_in (insert k R) (pm_remove k m) \<and>
     waiting (pm_remove k m) = spec_step (Remove k) (waiting m)"
  using remove_inv [OF assms(1), of k] assms(2)
  by (auto simp: stale_in_def remove_fields waiting_def fun_eq_iff)

lemma remove_one_stale:
  assumes inv: "pm_inv m" and s: "stale_in R m" and v: "v \<in> set (held m k)" "pm_deadlines m (k, v) = None"
    and run: "pm_remove_one k v m = Inr m'"
  shows "stale_in R m'"
proof -
  have none: "(d, k, v') \<notin> set (pm_timeout_pq m)" if "removeAll v (held m k) = []" "k \<notin> pm_dead_keys m" for d v'
  proof
    assume "(d, k, v') \<in> set (pm_timeout_pq m)"
    then have "v' \<in> set (held m k)" "pm_deadlines m (k, v') = Some d"
      using inv that(2) pq_okD [of "{}" m d k v'] by (auto simp: pm_inv_but_def)
    moreover have "set (held m k) \<subseteq> {v}" using that(1) by (metis Diff_eq_empty_iff set_empty set_removeAll)
    ultimately show False using v(2) by auto
  qed
  let ?m0 = "m\<lparr>pm_items := AList.update k (removeAll v (held m k)) (pm_items m)\<rparr>"
  show ?thesis
  proof (cases "removeAll v (held m k) = []")
    case True
    then have "m' = (pm_remove k ?m0)\<lparr>pm_deadlines := (pm_deadlines (pm_remove k ?m0))((k, v) := None)\<rparr>"
      using run held_Some [OF v(1)] v(1) by (simp add: pm_remove_one_def Let_def)
    then show ?thesis using s none [OF True] by (auto simp: stale_in_def remove_fields)
  next
    case False
    then show ?thesis using run held_Some [OF v(1)] v(1) s by (auto simp: pm_remove_one_def stale_in_def)
  qed
qed

lemma drop_all_refines:
  assumes "pm_inv m" "stale_in R m" "distinct kvs" "\<forall>(k, v)\<in>set kvs. v \<in> set (held m k) \<and> pm_deadlines m (k, v) = None"
  shows "\<exists>m'. drop_all kvs m = Inr m' \<and> pm_inv m' \<and> stale_in R m' \<and>
     waiting m' = (\<lambda>kv. if kv \<in> set kvs then None else waiting m kv)"
  using assms
proof (induction kvs arbitrary: m)
  case (Cons kv kvs)
  obtain k v where kv: "kv = (k, v)" by force
  have v: "v \<in> set (held m k)" "pm_deadlines m (k, v) = None" using Cons.prems(4) by (auto simp: kv)
  obtain m' where m': "pm_remove_one k v m = Inr m'" "pm_inv m'"
    "held m' = (held m)(k := removeAll v (held m k))" "pm_deadlines m' = (pm_deadlines m)((k, v) := None)"
    by (rule remove_one_inv [OF Cons.prems(1) v(1)]) (use v(2) in auto)
  have w: "waiting m' = (waiting m)((k, v) := None)" using m'(3,4) by (auto simp: waiting_def fun_eq_iff)
  have "\<exists>m''. drop_all kvs m' = Inr m'' \<and> pm_inv m'' \<and> stale_in R m'' \<and>
     waiting m'' = (\<lambda>kv. if kv \<in> set kvs then None else waiting m' kv)"
    by (rule Cons.IH [OF m'(2) remove_one_stale [OF Cons.prems(1,2) v m'(1)]])
      (use Cons.prems(3,4) in \<open>auto simp: kv m'(3,4)\<close>)
  then show ?case by (auto simp: kv m'(1) w fun_eq_iff)
qed auto

lemma expire_refines:
  assumes "pm_inv m" "stale_in R m"
  shows "\<exists>out m'. pm_step (Expire now) m = Inr (out, m') \<and> pm_inv m' \<and> stale_in R m' \<and>
     waiting m' = spec_step (Expire now) (waiting m) \<and> distinct out \<and> set out = spec_out (Expire now) (waiting m)"
proof -
  obtain rv m1 where g: "get_timed_out now m = (rv, m1)" by force
  note sp = get_timed_out_spec [OF assms(1) g]
  have ok: "deadlines_ok m" using assms(1) by (simp add: pm_inv_but_def)
  have h: "held m1 = held m" by (simp add: held_def sp(5) fun_eq_iff)
  have rv: "set rv = spec_out (Expire now) (waiting m)"
    using deadlines_okD [OF ok] by (fastforce simp: sp(3) waiting_def split: if_splits option.splits)
  have s: "stale_in R m1" using assms(2) sp(7,8) unfolding stale_in_def by blast
  have all: "\<forall>(k, v)\<in>set rv. v \<in> set (held m1 k) \<and> pm_deadlines m1 (k, v) = None"
    using deadlines_okD [OF ok] by (fastforce simp: h sp(6) sp(3))
  obtain m' where m': "drop_all rv m1 = Inr m'" "pm_inv m'" "stale_in R m'"
    "waiting m' = (\<lambda>kv. if kv \<in> set rv then None else waiting m1 kv)"
    using drop_all_refines [OF sp(1) s sp(2) all] by blast
  have "waiting m1 kv = waiting m kv" if "kv \<notin> set rv" for kv
    using that by (cases kv) (simp add: waiting_def h sp(6))
  then have "waiting m' = spec_step (Expire now) (waiting m)" by (auto simp: m'(4) rv fun_eq_iff simp del: spec_out.simps)
  then show ?thesis using m' g rv sp(2) by simp
qed

lemma pm_run_refines:
  assumes "pm_inv m" "stale_in R m" "legal xs R (waiting m)"
  shows "\<exists>outs m'. pm_run xs m = Inr (outs, m') \<and> waiting m' = snd (spec_run xs (waiting m)) \<and>
     list_all2 (\<lambda>out due. distinct out \<and> set out = due) outs (fst (spec_run xs (waiting m)))"
  using assms
proof (induction xs arbitrary: m R)
  case (Cons x xs)
  have step: "\<exists>outs m'. pm_run (x # xs) m = Inr (outs, m') \<and> waiting m' = snd (spec_run (x # xs) (waiting m)) \<and>
     list_all2 (\<lambda>out due. distinct out \<and> set out = due) outs (fst (spec_run (x # xs) (waiting m)))"
    if a: "pm_step x m = Inr (out, m1)" "pm_inv m1" "stale_in R' m1" "waiting m1 = spec_step x (waiting m)"
      "legal xs R' (spec_step x (waiting m))" "distinct out" "set out = spec_out x (waiting m)" for out m1 R'
  proof -
    obtain outs m' where "pm_run xs m1 = Inr (outs, m')" "waiting m' = snd (spec_run xs (waiting m1))"
      "list_all2 (\<lambda>out due. distinct out \<and> set out = due) outs (fst (spec_run xs (waiting m1)))"
      using Cons.IH [OF a(2,3)] a(4,5) by auto
    with a show ?thesis by (simp add: split_beta Let_def)
  qed
  show ?case
  proof (cases x)
    case (Put now k v t)
    then have "k \<notin> R" "v \<notin> set (held m k)" "legal xs R (spec_step x (waiting m))"
      using Cons.prems(3) by (simp_all add: waiting_None)
    then show ?thesis using put_refines [OF Cons.prems(1,2), of k v now t] Put by (intro step) auto
  next
    case (Remove k)
    then show ?thesis using remove_refines [OF Cons.prems(1,2), of k] Cons.prems(3) by (intro step) auto
  next
    case (Expire now)
    then show ?thesis using expire_refines [OF Cons.prems(1,2), of now] Cons.prems(3) step by auto
  qed
qed simp

section \<open>Property\<close>

text \<open>
  C13: A \<open>PriorityMultiMap\<close> behaves like a map from the waiting pairs to their deadlines: for
  every sequence of operations in which no pair is put twice and no removed key is used again,
  the pairs that time out are at every point exactly those that wait and whose deadline has
  passed, each returned once, and nothing else is lost or kept.
\<close>

theorem timeouts_exact:
  assumes "legal xs {} Map.empty"
  shows "\<exists>outs m. pm_run xs new_pmm = Inr (outs, m) \<and> waiting m = snd (spec_run xs Map.empty) \<and>
     list_all2 (\<lambda>out due. distinct out \<and> set out = due) outs (fst (spec_run xs Map.empty))"
proof -
  have w: "waiting new_pmm = Map.empty" by (auto simp: waiting_def held_def new_pmm_def fun_eq_iff)
  have "stale_in {} new_pmm" by (simp add: stale_in_def new_pmm_def)
  from pm_run_refines [OF new_pmm_inv this] assms show ?thesis by (simp add: w)
qed

definition demo_ops :: "(nat, nat) pm_op list" where
  "demo_ops = [Put 0 1 10 (Some 5), Put 1 1 11 (Some 2), Put 1 2 20 None, Put 2 3 30 (Some 9), Expire 4, Remove 3, Expire 20]"

theorem timeouts_exact_witness:
  "\<exists>outs m. pm_run demo_ops new_pmm = Inr (outs, m) \<and> waiting m = [(2, 20) \<mapsto> None] \<and>
     map set outs = [{}, {}, {}, {}, {(1, 11)}, {}, {(1, 10)}]"
proof -
  have l: "legal demo_ops {} Map.empty" by (simp add: demo_ops_def)
  obtain outs m where o: "pm_run demo_ops new_pmm = Inr (outs, m)" "waiting m = snd (spec_run demo_ops Map.empty)"
    "list_all2 (\<lambda>out due. distinct out \<and> set out = due) outs (fst (spec_run demo_ops Map.empty))"
    using timeouts_exact [OF l] by blast
  have "fst (spec_run demo_ops Map.empty) = [{}, {}, {}, {}, {(1, 11)}, {}, {(1, 10)}]"
    "snd (spec_run demo_ops Map.empty) = [(2, 20) \<mapsto> None]"
    by (auto simp: demo_ops_def fun_eq_iff split: if_splits option.splits)
  moreover from o(3) have "map set outs = fst (spec_run demo_ops Map.empty)"
    by (induction rule: list_all2_induct) auto
  ultimately show ?thesis using o(1,2) by simp
qed

end
