(* ===== verification/GSState.thy ===== *)
theory GSState
  imports PolicyEval FileNames Timeouts
begin

text \<open>
  Global services (\<open>globalservices/\<close>): the data.  The contexts of pools, channels and processes
  are objects that tables, continuations and other contexts refer to; every identifier is given
  out once, so the object of a resource is named by its identifier, and a table is the list of its
  keys.  Here are the descriptors, messages and answers, the class \<open>GlobalContext\<close> with its tables,
  and the support functions of \<open>server.py\<close>.  Command lines, environments, texts of errors and log
  messages are left out, and there are no groups.
\<close>

section \<open>Identifiers\<close>

definition FIRST_PUID :: int where "FIRST_PUID = 2 ^ 32"
definition FIRST_CUID :: int where "FIRST_CUID = 2 ^ 63"
definition FIRST_MUID :: int where "FIRST_MUID = 2 ^ 63"
definition FIRST_LOGGING_MUID :: int where "FIRST_LOGGING_MUID = 2 ^ 61"
definition FIRST_DEFAULT_MUID :: int where "FIRST_DEFAULT_MUID = 2 ^ 62"
definition BASE_BE_CUID :: int where "BASE_BE_CUID = 2 ^ 57"
definition BASE_LS_CUID :: int where "BASE_LS_CUID = 2 ^ 62"
definition GS_INPUT_CUID :: int where "GS_INPUT_CUID = 2"
definition GS_PUID :: int where "GS_PUID = 1"

definition is_pre_defined_pool :: "int \<Rightarrow> bool res" where
  "is_pre_defined_pool m = (if m < 0 then Inl AssertionError else Inr (m < FIRST_MUID))"

definition index_from_default_pool_muid :: "int \<Rightarrow> int res" where
  "index_from_default_pool_muid m =
     (if FIRST_DEFAULT_MUID \<le> m \<and> m < FIRST_MUID then Inr (m - FIRST_DEFAULT_MUID) else Inl AssertionError)"

definition index_from_infrastructure_pool_muid :: "int \<Rightarrow> int res" where
  "index_from_infrastructure_pool_muid m = (if m < FIRST_DEFAULT_MUID then Inr m else Inl AssertionError)"

definition infrastructure_pool_muid_from_index :: "int \<Rightarrow> int res" where
  "infrastructure_pool_muid_from_index i = (if 0 \<le> i then Inr i else Inl AssertionError)"

definition default_pool_muid_from_index :: "int \<Rightarrow> int res" where
  "default_pool_muid_from_index i = (if 0 \<le> i then Inr (FIRST_DEFAULT_MUID + i) else Inl AssertionError)"

section \<open>Descriptors\<close>

datatype dstate = PENDING | ACTIVE | DEAD

record pool_desc =
  pd_m_uid :: int
  pd_name :: string
  pd_node :: int
  pd_state :: dstate
  pd_sdesc :: string

record chan_desc =
  cd_m_uid :: int
  cd_c_uid :: int
  cd_name :: string
  cd_node :: int
  cd_state :: dstate
  cd_sdesc :: string

record proc_desc =
  pr_p_uid :: int
  pr_p_p_uid :: int
  pr_name :: string
  pr_node :: int
  pr_h_uid :: int
  pr_state :: dstate
  pr_ecode :: "int option"
  pr_live_children :: "int set"
  pr_gs_ret_cuid :: "int option"
  pr_stdin_sdesc :: "string option"
  pr_stdout_sdesc :: "string option"
  pr_stderr_sdesc :: "string option"

section \<open>Messages\<close>

text \<open>The tag of a request, the process it comes from and the channel its answer goes to.\<close>

record hdr =
  h_tag :: int
  h_p_uid :: int
  h_r_c_uid :: int

record pool_create =
  pc_hdr :: hdr
  pc_user_name :: string
  pc_size :: int

record chan_create =
  cc_hdr :: hdr
  cc_user_name :: string
  cc_m_uid :: int
  cc_ref_count :: bool
  cc_capacity :: "int option"
  cc_policy :: "policy option"

record proc_create =
  pp_hdr :: hdr
  pp_user_name :: string
  pp_policy :: "policy option"
  pp_layout :: "resource_layout option"
  pp_head_proc :: bool
  pp_resilient :: bool
  pp_make_inf_channels :: bool
  pp_pipesize :: "int option"
  pp_stdin_pipe :: bool
  pp_stdout_pipe :: bool
  pp_stderr_pipe :: bool

text \<open>Requests that name a resource by name, or by identifier when the name is empty.\<close>

record named =
  nm_hdr :: hdr
  nm_user_name :: string
  nm_uid :: int

record join_req =
  jr_named :: named
  jr_timeout :: int

record join_list_req =
  jl_hdr :: hdr
  jl_uids :: "int list"
  jl_names :: "string list"
  jl_timeout :: int
  jl_join_all :: bool
  jl_return_on_bad_exit :: bool

record chan_join_req =
  cj_hdr :: hdr
  cj_name :: string
  cj_timeout :: int

text \<open>What local services answers, and the messages sent to it.\<close>

datatype ls_result = LSSuccess string | LSFail

record chan_resps =
  cr_gs_ret :: "ls_result option"
  cr_stdin :: "ls_result option"
  cr_stdout :: "ls_result option"
  cr_stderr :: "ls_result option"

type_synonym ls_chan = "int \<times> int \<times> int \<times> int option"  \<comment> \<open>tag, pool, channel, capacity\<close>

datatype ls_msg =
    LSPoolCreate int int int string
  | LSPoolDestroy int int
  | LSChannelCreate ls_chan
  | LSChannelDestroy int int
  | LSProcessCreate int int "resource_layout option" "ls_chan option" "ls_chan option" "ls_chan option" "ls_chan option"
  | LSProcessKill int int int bool

datatype gs_msg =
    GSPoolCreate pool_create
  | GSPoolDestroy named
  | GSPoolList hdr
  | GSPoolQuery named
  | GSChannelCreate chan_create
  | GSChannelDestroy named bool bool  \<comment> \<open>\<open>reply_req\<close>, \<open>dec_ref\<close>\<close>
  | GSChannelList hdr
  | GSChannelQuery named bool  \<comment> \<open>\<open>inc_refcnt\<close>\<close>
  | GSChannelJoin chan_join_req
  | GSProcessCreate proc_create
  | GSProcessKill named int bool
  | GSProcessList hdr
  | GSProcessQuery named
  | GSProcessJoin join_req
  | GSProcessJoinList join_list_req
  | GSNodeList hdr
  | GSNodeQuery named
  | GSNodeQueryAll hdr
  | GSNodeQueryTotalCPUCount hdr
  | GSRebootRuntime hdr int
  | LSPingGS int string node_descriptor  \<comment> \<open>index, name of the node\<close>
  | GSTeardown
  | LSPoolCreateResponse int ls_result
  | LSPoolDestroyResponse int bool
  | LSChannelCreateResponse int ls_result
  | LSChannelDestroyResponse int bool
  | LSProcessCreateResponse int bool chan_resps
  | LSProcessKillResponse int bool
  | LSProcessExit int int int  \<comment> \<open>process, exit code, tag of the creation\<close>

text \<open>The answers; a handle is where an answer is put.\<close>

datatype hdl = Stdout | Bela | LsIn int | TestConn int | ChanQ int | Absorb

datatype reply_kind = PoolCreateR | PoolDestroyR | PoolListR | PoolQueryR | ChannelCreateR | ChannelDestroyR
  | ChannelListR | ChannelQueryR | ChannelJoinR | ProcessCreateR | ProcessKillR | ProcessListR | ProcessQueryR
  | ProcessJoinR | ProcessJoinListR | NodeListR | NodeQueryR | NodeQueryAllR | NodeQueryTotalCPUCountR
  | RebootRuntimeR

datatype gs_err = SUCCESS | FAIL | ALREADY | UNKNOWN | GONE | ERR_PENDING | BUSY | ERR_DEAD | TIMEOUT | SELF | FAIL_KILL

datatype jkey = PUid int | PName string

datatype gs_info = NoInfo | PoolInfo pool_desc | ChanInfo chan_desc | ProcInfo proc_desc | NodeInfo node_descriptor
  | NodeInfos "node_descriptor list" | Uids "int list" | Count int | ExitCode "int option"
  | JoinStatus "(jkey, gs_err \<times> int option) pydict"

datatype gs_reply = Reply reply_kind int int gs_err gs_info  \<comment> \<open>tag, tag of the request\<close>
  | GSHeadExit int int | GSIsUp int | GSPingProc int | RebootRuntime int int

section \<open>Contexts\<close>

record pool_ctx =
  px_request :: pool_create
  px_reply_queue :: "hdl option"
  px_destroy_request :: "named option"
  px_desc :: pool_desc

record chan_ctx =
  cx_request :: chan_create
  cx_reply_queue :: "hdl option"
  cx_destroy_request :: "named option"
  cx_refcnt :: int
  cx_ls_msg :: "ls_chan option"
  cx_attached :: bool
  cx_desc :: chan_desc

record proc_ctx =
  pz_request :: proc_create
  pz_reply_queue :: hdl
  pz_destroy_request :: "named option"
  pz_gs_ret :: "int option"
  pz_stdin :: "int option"
  pz_stdout :: "int option"
  pz_stderr :: "int option"
  pz_desc :: proc_desc

text \<open>The descriptors of nodes do not carry their number of placements; the evaluators count them.\<close>

record node_ctx =
  nx_ls_index :: int
  nx_name :: string
  nx_desc :: node_descriptor

datatype run_state = STARTING | WAITING_FOR_HEAD | HAS_HEAD | SHUTTING_DOWN

text \<open>What is kept for a tag until local services answers.\<close>

datatype cont = PoolConstruct int | PoolDestruct int | ChanConstruct int | ChanDestruct int
  | ProcConstruct int | ProcKill int

record gs =
  gs_tag :: int
  gs_next_puid :: int
  gs_next_cuid :: int
  gs_next_muid :: int
  gs_pool :: "int \<Rightarrow> pool_ctx"
  gs_pool_table :: "int list"
  gs_pool_names :: "(string, int) pydict"
  gs_chan :: "int \<Rightarrow> chan_ctx"
  gs_chan_table :: "int list"
  gs_chan_names :: "(string, int) pydict"
  gs_proc :: "int \<Rightarrow> proc_ctx"
  gs_proc_table :: "int list"
  gs_proc_names :: "(string, int) pydict"
  gs_node_table :: "(int, node_ctx) pydict"
  gs_node_names :: "(string, int) pydict"
  gs_node_idx_to_huid :: "(int, int) pydict"
  gs_pending :: "(int, cont) pydict"
  gs_pending_exits :: "(int, int \<times> int) pydict"
  gs_pending_sends :: "(int \<times> ls_msg) list"
  gs_sent :: "(int \<times> ls_msg) list"
  gs_pending_join :: "(int, join_req) pmm"
  gs_pending_join_list :: "(int set, join_list_req) pmm"
  gs_pending_channel_joins :: "(string, chan_join_req) pmm"
  gs_join_status :: "(int \<times> int, (jkey, gs_err \<times> int option) pydict) pydict"
  gs_head_puid :: "int set"
  gs_state :: run_state
  gs_ls_inputs :: int
  gs_num_nodes :: int
  gs_ls_pings :: int
  gs_circ_index :: int
  gs_proc_eval :: "evaluator option"
  gs_chan_eval :: "evaluator option"
  gs_resilient :: bool
  gs_test_conns :: "int set"
  gs_attach :: "string \<Rightarrow> unit res"
  gs_out :: "(hdl \<times> gs_reply) list"

section \<open>Support functions\<close>

definition tag_inc :: "(gs, int) pym" where
  "tag_inc = (\<lambda>s. (Inr (gs_tag s), s\<lparr>gs_tag := gs_tag s + 1\<rparr>))"

definition put_reply :: "hdl \<Rightarrow> gs_reply \<Rightarrow> (gs, unit) pym" where
  "put_reply h r = modify (\<lambda>s. s\<lparr>gs_out := gs_out s @ [(h, r)]\<rparr>)"

definition respond :: "hdl \<Rightarrow> reply_kind \<Rightarrow> int \<Rightarrow> gs_err \<Rightarrow> gs_info \<Rightarrow> (gs, unit) pym" where
  "respond h k ref err i = bnd tag_inc (\<lambda>t. put_reply h (Reply k t ref err i))"

definition respond_opt :: "hdl option \<Rightarrow> reply_kind \<Rightarrow> int \<Rightarrow> gs_err \<Rightarrow> gs_info \<Rightarrow> (gs, unit) pym" where
  "respond_opt h k ref err i = bnd tag_inc (\<lambda>t. case h of
     None \<Rightarrow> raise AttributeError | Some q \<Rightarrow> put_reply q (Reply k t ref err i))"

definition new_puid_and_default_name :: "(gs, int \<times> string) pym" where
  "new_puid_and_default_name = (\<lambda>s. (Inr (gs_next_puid s, ''dragon_process_'' @ str_int (gs_next_puid s)),
     s\<lparr>gs_next_puid := gs_next_puid s + 1\<rparr>))"

definition new_cuid_and_default_name :: "(gs, int \<times> string) pym" where
  "new_cuid_and_default_name = (\<lambda>s. (Inr (gs_next_cuid s, ''dragon_channel_'' @ str_int (gs_next_cuid s)),
     s\<lparr>gs_next_cuid := gs_next_cuid s + 1\<rparr>))"

definition new_muid_and_default_name :: "(gs, int \<times> string) pym" where
  "new_muid_and_default_name = (\<lambda>s. (Inr (gs_next_muid s, ''D'' @ str_int (gs_next_muid s)),
     s\<lparr>gs_next_muid := gs_next_muid s + 1\<rparr>))"

text \<open>\<open>ls_inputs[i]\<close>, with Python's negative indices.\<close>

definition ls_input :: "int \<Rightarrow> (gs, int) pym" where
  "ls_input i = lift_res (\<lambda>s. if 0 \<le> i \<and> i < gs_ls_inputs s then Inr i
     else if - gs_ls_inputs s \<le> i \<and> i < 0 then Inr (i + gs_ls_inputs s) else Inl IndexError)"

definition send_ls :: "int \<Rightarrow> ls_msg \<Rightarrow> (gs, unit) pym" where
  "send_ls l m = modify (\<lambda>s. s\<lparr>gs_pending_sends := gs_pending_sends s @ [(l, m)]\<rparr>)"

definition set_pending :: "int \<Rightarrow> cont \<Rightarrow> (gs, unit) pym" where
  "set_pending t k = modify (\<lambda>s. s\<lparr>gs_pending := AList.update t k (gs_pending s)\<rparr>)"

definition upd_pool :: "int \<Rightarrow> (pool_ctx \<Rightarrow> pool_ctx) \<Rightarrow> (gs, unit) pym" where
  "upd_pool u f = modify (\<lambda>s. s\<lparr>gs_pool := (gs_pool s)(u := f (gs_pool s u))\<rparr>)"

definition upd_chan :: "int \<Rightarrow> (chan_ctx \<Rightarrow> chan_ctx) \<Rightarrow> (gs, unit) pym" where
  "upd_chan u f = modify (\<lambda>s. s\<lparr>gs_chan := (gs_chan s)(u := f (gs_chan s u))\<rparr>)"

definition upd_proc :: "int \<Rightarrow> (proc_ctx \<Rightarrow> proc_ctx) \<Rightarrow> (gs, unit) pym" where
  "upd_proc u f = modify (\<lambda>s. s\<lparr>gs_proc := (gs_proc s)(u := f (gs_proc s u))\<rparr>)"

text \<open>\<open>_resolve_uid\<close>: a name takes precedence; a name without its table entry is an error.\<close>

definition resolve_uid :: "string \<Rightarrow> int \<Rightarrow> (string, int) pydict \<Rightarrow> int list \<Rightarrow> (int \<times> bool) res" where
  "resolve_uid name uid names table =
     (if name \<noteq> [] then (case map_of names name of
          None \<Rightarrow> Inr (uid, False)
        | Some u \<Rightarrow> if u \<in> set table then Inr (u, True) else Inl AssertionError)
      else Inr (uid, uid \<in> set table))"

definition resolve_muid :: "named \<Rightarrow> (gs, int \<times> bool) pym" where
  "resolve_muid m = lift_res (\<lambda>s. resolve_uid (nm_user_name m) (nm_uid m) (gs_pool_names s) (gs_pool_table s))"

definition resolve_cuid :: "string \<Rightarrow> int \<Rightarrow> (gs, int \<times> bool) pym" where
  "resolve_cuid n u = lift_res (\<lambda>s. resolve_uid n u (gs_chan_names s) (gs_chan_table s))"

definition resolve_puid :: "string \<Rightarrow> int \<Rightarrow> (gs, int \<times> bool) pym" where
  "resolve_puid n u = lift_res (\<lambda>s. resolve_uid n u (gs_proc_names s) (gs_proc_table s))"

definition resolve_huid :: "named \<Rightarrow> (gs, int \<times> bool) pym" where
  "resolve_huid m = lift_res (\<lambda>s. resolve_uid (nm_user_name m) (nm_uid m) (gs_node_names s) (d_keys (gs_node_table s)))"

text \<open>
  \<open>get_reply_handle\<close>.  A channel is attached when the first answer goes to it; attaching may fail.
\<close>

definition is_be_cuid :: "int \<Rightarrow> bool" where
  "is_be_cuid r \<longleftrightarrow> BASE_BE_CUID \<le> r \<and> r < 2 * BASE_BE_CUID"

definition is_ls_cuid :: "int \<Rightarrow> bool" where
  "is_ls_cuid r \<longleftrightarrow> BASE_LS_CUID \<le> r \<and> r < 2 * BASE_LS_CUID"

definition get_reply_handle :: "hdr \<Rightarrow> (gs, hdl) pym" where
  "get_reply_handle m = (let r = h_r_c_uid m in
     if r = 1 then ret Stdout
     else if r = GS_INPUT_CUID then raise ServerError
     else if is_be_cuid r then ret Bela
     else if is_ls_cuid r then bnd (ls_input (r - BASE_LS_CUID)) (\<lambda>i. ret (LsIn i))
     else bnd (gets (\<lambda>s. (gs_test_conns s, gs_chan_table s, gs_chan s r))) (\<lambda>(test, table, c).
       if r \<in> test then ret (TestConn r)
       else if r \<in> set table then
         (if cx_attached c then ret (ChanQ r)
          else sq (lift_res (\<lambda>s. gs_attach s (cd_sdesc (cx_desc c))))
              (sq (upd_chan r (\<lambda>c. c\<lparr>cx_attached := True\<rparr>)) (ret (ChanQ r))))
       else raise ServerError))"

text \<open>
  \<open>choose_pool_node\<close> and \<open>choose_channel_node\<close>.  The policy evaluator always returns
  (\<open>evaluate_returns\<close>), so the branch for a search without end is never taken.
\<close>

definition choose_pool_node :: "int \<Rightarrow> (gs, int) pym" where
  "choose_pool_node p = gets (\<lambda>s. if p \<in> set (gs_proc_table s) then pr_node (pz_desc (gs_proc s p)) else 0)"

definition evaluate_with :: "(gs \<Rightarrow> evaluator option) \<Rightarrow> (evaluator \<Rightarrow> gs \<Rightarrow> gs) \<Rightarrow> policy \<Rightarrow> (gs, resource_layout) pym" where
  "evaluate_with ev upd p = (\<lambda>s. case ev s of
     None \<Rightarrow> (Inl AttributeError, s)
   | Some e \<Rightarrow> (case evaluate [p] e of
         None \<Rightarrow> (Inl RuntimeError, s)
       | Some (Inl x, e') \<Rightarrow> (Inl x, upd e' s)
       | Some (Inr ls, e') \<Rightarrow> (Inr (hd ls), upd e' s)))"

text \<open>Both evaluators are made with the same list of nodes, so each counts the placements of both.\<close>

definition share_nodes :: "evaluator \<Rightarrow> evaluator option \<Rightarrow> evaluator option" where
  "share_nodes e = map_option (\<lambda>e'. e'\<lparr>nodes := nodes e\<rparr>)"

definition set_chan_eval :: "evaluator \<Rightarrow> gs \<Rightarrow> gs" where
  "set_chan_eval e s = s\<lparr>gs_proc_eval := share_nodes e (gs_proc_eval s), gs_chan_eval := Some e\<rparr>"

definition set_proc_eval :: "evaluator \<Rightarrow> gs \<Rightarrow> gs" where
  "set_proc_eval e s = s\<lparr>gs_proc_eval := Some e, gs_chan_eval := share_nodes e (gs_chan_eval s)\<rparr>"

definition node_of_pool :: "int \<Rightarrow> int \<Rightarrow> (gs, int) pym" where
  "node_of_pool m p =
     (if m < FIRST_LOGGING_MUID then
        bnd (gets (\<lambda>s. p \<in> set (gs_proc_table s))) (\<lambda>known.
          if known then gets (\<lambda>s. pr_node (pz_desc (gs_proc s p)))
          else lift_res (\<lambda>_. index_from_infrastructure_pool_muid m))
      else bnd (gets (\<lambda>s. m \<in> set (gs_pool_table s))) (\<lambda>mine.
        if mine then gets (\<lambda>s. pd_node (px_desc (gs_pool s m)))
        else bnd (lift_res (\<lambda>_. is_pre_defined_pool m)) (\<lambda>pre.
          if pre then lift_res (\<lambda>_. index_from_default_pool_muid m) else raise ValueError)))"

text \<open>The node, and the pool that the message names afterwards.\<close>

definition choose_channel_node :: "chan_create \<Rightarrow> (gs, int \<times> int) pym" where
  "choose_channel_node m = bnd (gets gs_chan_eval) (\<lambda>ev.
     let by_pool = bnd (node_of_pool (cc_m_uid m) (h_p_uid (cc_hdr m))) (\<lambda>n. ret (n, cc_m_uid m)) in
     case cc_policy m of
       Some p \<Rightarrow> if ev = None then by_pool
         else bnd (evaluate_with gs_chan_eval set_chan_eval p) (\<lambda>l.
           if node_specified l then
             bnd (lift_res (\<lambda>s. d_item (rl_h_uid l) (gs_node_table s))) (\<lambda>n.
             bnd (lift_res (\<lambda>_. default_pool_muid_from_index (nx_ls_index n))) (\<lambda>mu. ret (nx_ls_index n, mu)))
           else by_pool)
     | None \<Rightarrow> by_pool)"

definition choose_localservices :: "resource_layout option \<Rightarrow> (gs, int \<times> int) pym" where
  "choose_localservices layout =
     bnd (case layout of
         None \<Rightarrow> bnd (gets gs_circ_index) (\<lambda>i. bnd (gets gs_ls_inputs) (\<lambda>n.
           if n = 0 then raise ZeroDivisionError
           else sq (modify (\<lambda>s. s\<lparr>gs_circ_index := (i + 1) mod n\<rparr>)) (ret i)))
       | Some l \<Rightarrow> bnd (gets gs_node_table) (\<lambda>ns.
           case map_of ns (rl_h_uid l) of None \<Rightarrow> raise AssertionError | Some n \<Rightarrow> ret (nx_ls_index n)))
       (\<lambda>i. bnd (lift_res (\<lambda>s. d_item i (gs_node_idx_to_huid s))) (\<lambda>h. ret (i, h)))"

end
