(* ===== verification/GSContexts.thy ===== *)
theory GSContexts
  imports GSState
begin

text \<open>
  The contexts of global services: \<open>PoolContext\<close> (\<open>pool_int.py\<close>), \<open>ChannelContext\<close>
  (\<open>channel_int.py\<close>) and \<open>ProcessContext\<close> (\<open>process_int.py\<close>).  \<open>construct\<close> registers a context
  and queues a message to local services, \<open>complete_construction\<close> handles the answer; likewise
  for destruction and for killing a process.  A \<open>construct\<close> that caught an exception returns
  \<open>None\<close>; otherwise it returns the tag and the identifier if a message was issued.
\<close>

section \<open>Pools\<close>

definition new_pool :: "pool_create \<Rightarrow> hdl \<Rightarrow> int \<Rightarrow> int \<Rightarrow> pool_ctx" where
  "new_pool m h u n = \<lparr>px_request = m, px_reply_queue = Some h, px_destroy_request = None,
     px_desc = \<lparr>pd_m_uid = u, pd_name = pc_user_name m, pd_node = n, pd_state = PENDING, pd_sdesc = []\<rparr>\<rparr>"

definition set_pool_state :: "dstate \<Rightarrow> pool_ctx \<Rightarrow> pool_ctx" where
  "set_pool_state st c = c\<lparr>px_desc := (px_desc c)\<lparr>pd_state := st\<rparr>\<rparr>"

definition pool_construct :: "pool_create \<Rightarrow> hdl \<Rightarrow> (gs, (int \<times> int) option option) pym" where
  "pool_construct m h = try_except
     (bnd (gets gs_pool_names) (\<lambda>names. case map_of names (pc_user_name m) of
        Some u \<Rightarrow> bnd (lift_res (\<lambda>s. if u \<in> set (gs_pool_table s) then Inr (px_desc (gs_pool s u)) else Inl KeyError))
          (\<lambda>d. sq (respond h PoolCreateR (h_tag (pc_hdr m)) ALREADY (PoolInfo d)) (ret (Some None)))
      | None \<Rightarrow> bnd new_muid_and_default_name (\<lambda>(u, auto_name).
          let m' = (if pc_user_name m = [] then m\<lparr>pc_user_name := auto_name\<rparr> else m) in
          bnd (choose_pool_node (h_p_uid (pc_hdr m'))) (\<lambda>n.
          sq (modify (\<lambda>s. s\<lparr>gs_pool := (gs_pool s)(u := new_pool m' h u n),
                 gs_pool_names := AList.update (pc_user_name m') u (gs_pool_names s),
                 gs_pool_table := List.insert u (gs_pool_table s)\<rparr>))
          (bnd (ls_input n) (\<lambda>l.
           bnd tag_inc (\<lambda>t.
           sq (send_ls l (LSPoolCreate t u (pc_size m') (pc_user_name m')))
              (ret (Some (Some (t, u)))))))))))
     (\<lambda>_. sq (respond h PoolCreateR (h_tag (pc_hdr m)) FAIL NoInfo) (ret None))"

definition del_pool :: "int \<Rightarrow> (gs, unit) pym" where
  "del_pool u =
     sq (bnd (gets gs_pool_table) (\<lambda>t. if u \<in> set t then modify (\<lambda>s. s\<lparr>gs_pool_table := removeAll u (gs_pool_table s)\<rparr>)
         else raise KeyError))
     (bnd (lift_res (\<lambda>s. d_del (pc_user_name (px_request (gs_pool s u))) (gs_pool_names s))) (\<lambda>ns.
        modify (\<lambda>s. s\<lparr>gs_pool_names := ns\<rparr>)))"

definition pool_complete_construction :: "int \<Rightarrow> ls_result \<Rightarrow> (gs, bool) pym" where
  "pool_complete_construction u r =
     bnd (case r of
         LSSuccess d \<Rightarrow>
           sq (upd_pool u (\<lambda>c. c\<lparr>px_desc := (px_desc c)\<lparr>pd_state := ACTIVE, pd_sdesc := d\<rparr>\<rparr>))
           (bnd (gets (\<lambda>s. gs_pool s u)) (\<lambda>c.
            sq (respond_opt (px_reply_queue c) PoolCreateR (h_tag (pc_hdr (px_request c))) SUCCESS (PoolInfo (px_desc c)))
               (ret True)))
       | LSFail \<Rightarrow>
           sq (upd_pool u (set_pool_state DEAD))
           (bnd (gets (\<lambda>s. gs_pool s u)) (\<lambda>c.
            bnd tag_inc (\<lambda>t.
            sq (del_pool u)
            (sq (case px_reply_queue c of None \<Rightarrow> raise AttributeError
                 | Some q \<Rightarrow> put_reply q (Reply PoolCreateR t (h_tag (pc_hdr (px_request c))) FAIL NoInfo))
                (ret False))))))
       (\<lambda>ok. sq (upd_pool u (\<lambda>c. c\<lparr>px_reply_queue := None\<rparr>)) (ret ok))"

definition pool_destroy :: "named \<Rightarrow> hdl \<Rightarrow> (gs, bool) pym" where
  "pool_destroy m h = bnd (resolve_muid m) (\<lambda>(u, found).
     if \<not> found then sq (respond h PoolDestroyR (h_tag (nm_hdr m)) UNKNOWN NoInfo) (ret False)
     else bnd (gets (\<lambda>s. px_desc (gs_pool s u))) (\<lambda>d. case pd_state d of
         DEAD \<Rightarrow> sq (respond h PoolDestroyR (h_tag (nm_hdr m)) GONE NoInfo) (ret False)
       | PENDING \<Rightarrow> sq (respond h PoolDestroyR (h_tag (nm_hdr m)) ERR_PENDING NoInfo) (ret False)
       | ACTIVE \<Rightarrow> bnd tag_inc (\<lambda>t.
           sq (upd_pool u (\<lambda>c. set_pool_state PENDING (c\<lparr>px_reply_queue := Some h, px_destroy_request := Some m\<rparr>)))
           (sq (set_pending t (PoolDestruct u))
           (bnd (ls_input (pd_node d)) (\<lambda>l. sq (send_ls l (LSPoolDestroy t u)) (ret True)))))))"

text \<open>A failed destruction leaves the pool pending.\<close>

definition pool_complete_destruction :: "int \<Rightarrow> bool \<Rightarrow> (gs, bool) pym" where
  "pool_complete_destruction u ok =
     sq (whenM ok (upd_pool u (set_pool_state DEAD)))
     (bnd (gets (\<lambda>s. gs_pool s u)) (\<lambda>c. case px_destroy_request c of
        None \<Rightarrow> raise AttributeError
      | Some m \<Rightarrow> sq (respond_opt (px_reply_queue c) PoolDestroyR (h_tag (nm_hdr m)) (if ok then SUCCESS else FAIL) NoInfo)
          (ret ok)))"

section \<open>Channels\<close>

definition new_chan :: "chan_create \<Rightarrow> hdl \<Rightarrow> int \<Rightarrow> int \<Rightarrow> int \<Rightarrow> chan_ctx" where
  "new_chan m h u n t = \<lparr>cx_request = m, cx_reply_queue = Some h, cx_destroy_request = None, cx_refcnt = 0,
     cx_ls_msg = Some (t, cc_m_uid m, u, cc_capacity m), cx_attached = False,
     cx_desc = \<lparr>cd_m_uid = cc_m_uid m, cd_c_uid = u, cd_name = cc_user_name m, cd_node = n, cd_state = PENDING, cd_sdesc = []\<rparr>\<rparr>"

definition set_chan_state :: "dstate \<Rightarrow> chan_ctx \<Rightarrow> chan_ctx" where
  "set_chan_state st c = c\<lparr>cx_desc := (cx_desc c)\<lparr>cd_state := st\<rparr>\<rparr>"

text \<open>The node of a new channel; a \<open>ValueError\<close> of the choice is answered and ends the construction.\<close>

definition channel_node :: "chan_create \<Rightarrow> int option \<Rightarrow> (gs, (int \<times> int) option) pym" where
  "channel_node m node_override = (case node_override of
     Some n \<Rightarrow> ret (Some (n, cc_m_uid m))
   | None \<Rightarrow> try_except (bnd (choose_channel_node m) (\<lambda>x. ret (Some x)))
       (\<lambda>e. if e = ValueError then ret None else raise e))"

definition chan_answer :: "chan_create \<Rightarrow> hdl \<Rightarrow> bool \<Rightarrow> gs_err \<Rightarrow> gs_info \<Rightarrow> (gs, (int \<times> int) option option) pym" where
  "chan_answer m h send_msg err i =
     sq (whenM send_msg (respond h ChannelCreateR (h_tag (cc_hdr m)) err i)) (ret (Some None))"

text \<open>With node and pool chosen, the channel is registered when the pool is known.\<close>

definition chan_register :: "chan_create \<Rightarrow> hdl \<Rightarrow> bool \<Rightarrow> int \<Rightarrow> int \<Rightarrow> (gs, (int \<times> int) option option) pym" where
  "chan_register m h send_msg n mu =
     bnd (lift_res (\<lambda>s. case is_pre_defined_pool mu of Inl e \<Rightarrow> Inl e
         | Inr pre \<Rightarrow> Inr (pre \<or> mu \<in> set (gs_pool_table s)))) (\<lambda>known.
     if \<not> known then chan_answer m h send_msg FAIL NoInfo
     else bnd new_cuid_and_default_name (\<lambda>(u, auto_name).
       bnd tag_inc (\<lambda>t.
       let m' = m\<lparr>cc_m_uid := mu, cc_user_name := (if cc_user_name m = [] then auto_name else cc_user_name m)\<rparr> in
       sq (modify (\<lambda>s. s\<lparr>gs_chan := (gs_chan s)(u := new_chan m' h u n t),
              gs_chan_names := AList.update (cc_user_name m') u (gs_chan_names s),
              gs_chan_table := List.insert u (gs_chan_table s)\<rparr>))
       (sq (whenM send_msg (bnd (ls_input n) (\<lambda>l. send_ls l (LSChannelCreate (t, mu, u, cc_capacity m')))))
           (ret (Some (Some (t, u))))))))"

definition chan_construct :: "chan_create \<Rightarrow> hdl \<Rightarrow> int option \<Rightarrow> bool \<Rightarrow> (gs, (int \<times> int) option option) pym" where
  "chan_construct m h node_override send_msg = try_except
     (bnd (gets gs_chan_names) (\<lambda>names. case map_of names (cc_user_name m) of
        Some u \<Rightarrow> if send_msg then
            bnd (lift_res (\<lambda>s. if u \<in> set (gs_chan_table s) then Inr (cx_desc (gs_chan s u)) else Inl KeyError))
              (\<lambda>d. chan_answer m h True ALREADY (ChanInfo d))
          else ret (Some None)
      | None \<Rightarrow> bnd (channel_node m node_override) (\<lambda>x. case x of
          None \<Rightarrow> chan_answer m h send_msg FAIL NoInfo
        | Some (n, mu) \<Rightarrow> chan_register m h send_msg n mu)))
     (\<lambda>_. sq (respond h ChannelCreateR (h_tag (cc_hdr m)) FAIL NoInfo) (ret None))"

definition del_chan :: "int \<Rightarrow> (gs, unit) pym" where
  "del_chan u =
     sq (bnd (gets gs_chan_table) (\<lambda>t. if u \<in> set t then modify (\<lambda>s. s\<lparr>gs_chan_table := removeAll u (gs_chan_table s)\<rparr>)
         else raise KeyError))
     (bnd (lift_res (\<lambda>s. d_del (cc_user_name (cx_request (gs_chan s u))) (gs_chan_names s))) (\<lambda>ns.
        modify (\<lambda>s. s\<lparr>gs_chan_names := ns\<rparr>)))"

text \<open>The joins that wait for the name are answered, but stay where they are.\<close>

definition answer_join :: "chan_desc \<Rightarrow> chan_join_req \<Rightarrow> (gs, unit) pym" where
  "answer_join d j = bnd (get_reply_handle (cj_hdr j)) (\<lambda>h. respond h ChannelJoinR (h_tag (cj_hdr j)) SUCCESS (ChanInfo d))"

definition chan_complete_construction :: "int \<Rightarrow> ls_result option \<Rightarrow> (gs, bool) pym" where
  "chan_complete_construction u res = (case res of None \<Rightarrow> raise AssertionError | Some r \<Rightarrow>
     bnd (case r of
         LSSuccess d \<Rightarrow>
           sq (upd_chan u (\<lambda>c. c\<lparr>cx_desc := (cx_desc c)\<lparr>cd_state := ACTIVE, cd_sdesc := d\<rparr>\<rparr>))
           (bnd (gets (\<lambda>s. gs_chan s u)) (\<lambda>c.
            sq (respond_opt (cx_reply_queue c) ChannelCreateR (h_tag (cc_hdr (cx_request c))) SUCCESS (ChanInfo (cx_desc c)))
            (sq (whenM (cc_ref_count (cx_request c)) (upd_chan u (\<lambda>c. c\<lparr>cx_refcnt := 1\<rparr>)))
            (sq (bnd (gets (\<lambda>s. held (gs_pending_channel_joins s) (cd_name (cx_desc c)))) (\<lambda>js.
                  for_each js (answer_join (cx_desc c))))
                (ret True)))))
       | LSFail \<Rightarrow>
           sq (upd_chan u (set_chan_state DEAD))
           (bnd (gets (\<lambda>s. gs_chan s u)) (\<lambda>c.
            bnd tag_inc (\<lambda>t.
            sq (del_chan u)
            (sq (case cx_reply_queue c of None \<Rightarrow> raise AttributeError
                 | Some q \<Rightarrow> put_reply q (Reply ChannelCreateR t (h_tag (cc_hdr (cx_request c))) FAIL NoInfo))
                (ret False))))))
       (\<lambda>ok. sq (upd_chan u (\<lambda>c. c\<lparr>cx_reply_queue := None\<rparr>)) (ret ok)))"

definition chan_destroy :: "named \<Rightarrow> bool \<Rightarrow> hdl \<Rightarrow> (gs, bool) pym" where
  "chan_destroy m dec_ref h = bnd (resolve_cuid (nm_user_name m) (nm_uid m)) (\<lambda>(u, found).
     if \<not> found then sq (respond h ChannelDestroyR (h_tag (nm_hdr m)) UNKNOWN NoInfo) (ret False)
     else bnd (gets (\<lambda>s. gs_chan s u)) (\<lambda>c. case cd_state (cx_desc c) of
         DEAD \<Rightarrow> sq (respond h ChannelDestroyR (h_tag (nm_hdr m)) BUSY NoInfo) (ret False)
       | PENDING \<Rightarrow> sq (respond h ChannelDestroyR (h_tag (nm_hdr m)) BUSY NoInfo) (ret False)
       | ACTIVE \<Rightarrow>
           (let counted = cc_ref_count (cx_request c) \<and> dec_ref;
                n = (if counted then cx_refcnt c - 1 else cx_refcnt c) in
            sq (upd_chan u (\<lambda>c. c\<lparr>cx_destroy_request := Some m, cx_reply_queue := Some h, cx_refcnt := n\<rparr>))
            (if counted \<and> n \<noteq> 0 then sq (respond h ChannelDestroyR (h_tag (nm_hdr m)) SUCCESS NoInfo) (ret False)
             else sq (upd_chan u (set_chan_state PENDING))
                 (bnd tag_inc (\<lambda>t.
                  sq (set_pending t (ChanDestruct u))
                  (bnd (ls_input (cd_node (cx_desc c))) (\<lambda>l. sq (send_ls l (LSChannelDestroy t u)) (ret True)))))))))"

definition chan_complete_destruction :: "int \<Rightarrow> bool \<Rightarrow> (gs, bool) pym" where
  "chan_complete_destruction u ok =
     sq (whenM ok (upd_chan u (set_chan_state DEAD)))
     (bnd (gets (\<lambda>s. gs_chan s u)) (\<lambda>c. case cx_destroy_request c of
        None \<Rightarrow> raise AttributeError
      | Some m \<Rightarrow> sq (respond_opt (cx_reply_queue c) ChannelDestroyR (h_tag (nm_hdr m)) (if ok then SUCCESS else UNKNOWN) NoInfo)
          (ret ok)))"

section \<open>Processes\<close>

definition new_proc :: "proc_create \<Rightarrow> hdl \<Rightarrow> int \<Rightarrow> int \<Rightarrow> int \<Rightarrow> proc_ctx" where
  "new_proc m h u n hu = \<lparr>pz_request = m, pz_reply_queue = h, pz_destroy_request = None,
     pz_gs_ret = None, pz_stdin = None, pz_stdout = None, pz_stderr = None,
     pz_desc = \<lparr>pr_p_uid = u, pr_p_p_uid = h_p_uid (pp_hdr m), pr_name = pp_user_name m, pr_node = n, pr_h_uid = hu,
       pr_state = PENDING, pr_ecode = None, pr_live_children = {}, pr_gs_ret_cuid = None,
       pr_stdin_sdesc = None, pr_stdout_sdesc = None, pr_stderr_sdesc = None\<rparr>\<rparr>"

definition set_proc_state :: "dstate \<Rightarrow> proc_ctx \<Rightarrow> proc_ctx" where
  "set_proc_state st c = c\<lparr>pz_desc := (pz_desc c)\<lparr>pr_state := st\<rparr>\<rparr>"

text \<open>A channel that is created together with its process: no message of its own, one reference.\<close>

definition inner_channel :: "chan_create \<Rightarrow> int \<Rightarrow> (gs, int) pym" where
  "inner_channel m node = bnd (chan_construct m Absorb (Some node) False) (\<lambda>r. case r of
       None \<Rightarrow> raise TypeError
     | Some None \<Rightarrow> raise AttributeError
     | Some (Some (_, u)) \<Rightarrow> sq (upd_chan u (\<lambda>c. c\<lparr>cx_refcnt := cx_refcnt c + 1\<rparr>)) (ret u))"

definition pipe_channel :: "string \<Rightarrow> int \<Rightarrow> int \<Rightarrow> int option \<Rightarrow> (gs, int) pym" where
  "pipe_channel base puid node capacity = bnd tag_inc (\<lambda>t.
     bnd (lift_res (\<lambda>_. infrastructure_pool_muid_from_index node)) (\<lambda>mu.
     inner_channel \<lparr>cc_hdr = \<lparr>h_tag = t, h_p_uid = puid, h_r_c_uid = GS_INPUT_CUID\<rparr>, cc_user_name = base @ str_int puid,
       cc_m_uid = mu, cc_ref_count = True, cc_capacity = capacity, cc_policy = None\<rparr> node))"

definition ls_chan_of :: "int option \<Rightarrow> gs \<Rightarrow> ls_chan option" where
  "ls_chan_of u s = (case u of None \<Rightarrow> None | Some c \<Rightarrow> cx_ls_msg (gs_chan s c))"

definition optional :: "bool \<Rightarrow> (gs, int) pym \<Rightarrow> (int option \<Rightarrow> proc_ctx \<Rightarrow> proc_ctx) \<Rightarrow> int \<Rightarrow> (gs, unit) pym" where
  "optional b mk upd u = whenM b (bnd mk (\<lambda>c. upd_proc u (upd (Some c))))"

definition mk_ls_proc_create :: "int \<Rightarrow> int \<Rightarrow> (gs, ls_msg) pym" where
  "mk_ls_proc_create u t = bnd (gets (\<lambda>s. gs_proc s u)) (\<lambda>p.
     let m = pz_request p; node = pr_node (pz_desc p);
         capacity = (case pp_pipesize m of Some c \<Rightarrow> if c \<le> 0 then None else Some c | None \<Rightarrow> None) in
     sq (optional (pp_make_inf_channels m)
          (bnd tag_inc (\<lambda>t'. bnd (lift_res (\<lambda>_. infrastructure_pool_muid_from_index node)) (\<lambda>mu.
             inner_channel \<lparr>cc_hdr = \<lparr>h_tag = t', h_p_uid = 0, h_r_c_uid = 0\<rparr>, cc_user_name = [], cc_m_uid = mu,
               cc_ref_count = False, cc_capacity = None, cc_policy = None\<rparr> node)))
          (\<lambda>c p. p\<lparr>pz_gs_ret := c\<rparr>) u)
     (sq (optional (pp_stdin_pipe m) (pipe_channel ''stdin_'' u node capacity) (\<lambda>c p. p\<lparr>pz_stdin := c\<rparr>) u)
     (sq (optional (pp_stdout_pipe m) (pipe_channel ''stdout_'' u node capacity) (\<lambda>c p. p\<lparr>pz_stdout := c\<rparr>) u)
     (sq (optional (pp_stderr_pipe m) (pipe_channel ''stderr_'' u node capacity) (\<lambda>c p. p\<lparr>pz_stderr := c\<rparr>) u)
     (gets (\<lambda>s. let p = gs_proc s u in LSProcessCreate t u (pp_layout m)
        (ls_chan_of (pz_gs_ret p) s) (ls_chan_of (pz_stdin p) s) (ls_chan_of (pz_stdout p) s) (ls_chan_of (pz_stderr p) s)))))))"

definition send_start :: "int \<Rightarrow> (gs, int) pym" where
  "send_start u = bnd tag_inc (\<lambda>t. bnd (mk_ls_proc_create u t) (\<lambda>msg.
     bnd (gets (\<lambda>s. pr_node (pz_desc (gs_proc s u)))) (\<lambda>n.
     bnd (ls_input n) (\<lambda>l. sq (send_ls l msg) (ret t)))))"

text \<open>The policy of a request is evaluated unless it comes with a layout, and merged with the global one.\<close>

definition place_request :: "proc_create \<Rightarrow> (gs, proc_create) pym" where
  "place_request m =
     bnd (case (pp_layout m, pp_policy m) of
         (None, Some p) \<Rightarrow> bnd (evaluate_with gs_proc_eval set_proc_eval p) (\<lambda>l. ret (m\<lparr>pp_layout := Some l\<rparr>))
       | _ \<Rightarrow> ret m) (\<lambda>m1.
     sq (modify (\<lambda>s. s\<lparr>gs_resilient := (gs_resilient s \<or> pp_resilient m1)\<rparr>))
     (bnd (lift_res (\<lambda>_. case global_policy of Inl e \<Rightarrow> Inl e
        | Inr g \<Rightarrow> (case pp_policy m1 of None \<Rightarrow> Inr g | Some p \<Rightarrow> merge (Some g) p))) (\<lambda>p.
      ret (m1\<lparr>pp_policy := Some p\<rparr>))))"

definition proc_enter :: "proc_create \<Rightarrow> hdl \<Rightarrow> int \<Rightarrow> int \<Rightarrow> int \<Rightarrow> (gs, unit) pym" where
  "proc_enter m h u n hu =
     sq (modify (\<lambda>s. s\<lparr>gs_proc := (gs_proc s)(u := new_proc m h u n hu),
            gs_proc_names := AList.update (pp_user_name m) u (gs_proc_names s),
            gs_proc_table := List.insert u (gs_proc_table s)\<rparr>))
     (bnd (send_start u) (\<lambda>t. set_pending t (ProcConstruct u)))"

definition proc_construct :: "proc_create \<Rightarrow> hdl \<Rightarrow> (gs, unit) pym" where
  "proc_construct m h = try_except
     (bnd (gets gs_proc_names) (\<lambda>names. case map_of names (pp_user_name m) of
        Some u \<Rightarrow> bnd (lift_res (\<lambda>s. if u \<in> set (gs_proc_table s) then Inr (pz_desc (gs_proc s u)) else Inl KeyError))
          (\<lambda>d. respond h ProcessCreateR (h_tag (pp_hdr m)) ALREADY (ProcInfo d))
      | None \<Rightarrow> bnd new_puid_and_default_name (\<lambda>(u, auto_name).
          sq (whenM (pp_head_proc m) (modify (\<lambda>s. s\<lparr>gs_head_puid := insert u (gs_head_puid s), gs_state := HAS_HEAD\<rparr>)))
          (let m1 = (if pp_user_name m = [] then m\<lparr>pp_user_name := auto_name\<rparr> else m) in
           bnd (place_request m1) (\<lambda>m2. bnd (choose_localservices (pp_layout m2)) (\<lambda>(n, hu). proc_enter m2 h u n hu))))))
     (\<lambda>_. respond h ProcessCreateR (h_tag (pp_hdr m)) FAIL NoInfo)"

text \<open>
  \<open>complete_construction\<close> of a process whose start succeeded: its channels one after the other;
  the first that failed ends it.  A pipe gets a second reference, for the parent.
\<close>

definition fail_construction :: "int \<Rightarrow> (gs, bool) pym" where
  "fail_construction u =
     sq (upd_proc u (set_proc_state DEAD))
     (bnd (gets (\<lambda>s. gs_proc s u)) (\<lambda>p.
      sq (respond (pz_reply_queue p) ProcessCreateR (h_tag (pp_hdr (pz_request p))) FAIL NoInfo) (ret False)))"

definition complete_pipe :: "int option \<Rightarrow> ls_result option \<Rightarrow> (string option \<Rightarrow> (gs, bool) pym) \<Rightarrow> int \<Rightarrow> (gs, bool) pym" where
  "complete_pipe c r rest u = (case c of
     None \<Rightarrow> rest None
   | Some cu \<Rightarrow> bnd (chan_complete_construction cu r) (\<lambda>ok.
       if \<not> ok then fail_construction u
       else sq (upd_chan cu (\<lambda>c. c\<lparr>cx_refcnt := cx_refcnt c + 1\<rparr>))
            (bnd (gets (\<lambda>s. cd_sdesc (cx_desc (gs_chan s cu)))) (\<lambda>d. rest (Some d)))))"

text \<open>\<open>_send_gspingproc\<close>: the return channel is attached and gets the first message.\<close>

definition send_gspingproc :: "int \<Rightarrow> (gs, unit) pym" where
  "send_gspingproc u = bnd (gets (\<lambda>s. gs_proc s u)) (\<lambda>p. case pz_gs_ret p of
     None \<Rightarrow> raise AttributeError
   | Some cu \<Rightarrow>
       sq (upd_proc u (\<lambda>p. p\<lparr>pz_desc := (pz_desc p)\<lparr>pr_gs_ret_cuid := Some cu\<rparr>\<rparr>))
       (bnd tag_inc (\<lambda>t.
        sq (lift_res (\<lambda>s. gs_attach s (cd_sdesc (cx_desc (gs_chan s cu)))))
        (sq (upd_chan cu (\<lambda>c. c\<lparr>cx_attached := True\<rparr>))
            (put_reply (ChanQ cu) (GSPingProc t))))))"

definition finish_construction :: "int \<Rightarrow> string option \<Rightarrow> string option \<Rightarrow> string option \<Rightarrow> (gs, bool) pym" where
  "finish_construction u sin sout serr =
     sq (upd_proc u (\<lambda>p. p\<lparr>pz_desc := (pz_desc p)\<lparr>pr_stdin_sdesc := sin, pr_stdout_sdesc := sout, pr_stderr_sdesc := serr\<rparr>\<rparr>))
     (bnd (gets (\<lambda>s. pr_p_p_uid (pz_desc (gs_proc s u)))) (\<lambda>par.
      sq (bnd (gets gs_proc_table) (\<lambda>t. whenM (par \<in> set t) (upd_proc par
           (\<lambda>p. p\<lparr>pz_desc := (pz_desc p)\<lparr>pr_live_children := insert u (pr_live_children (pz_desc p))\<rparr>\<rparr>))))
      (sq (bnd (gets (\<lambda>s. pp_make_inf_channels (pz_request (gs_proc s u)))) (\<lambda>b. whenM b (send_gspingproc u)))
      (bnd (gets (\<lambda>s. gs_proc s u)) (\<lambda>p.
       sq (respond (pz_reply_queue p) ProcessCreateR (h_tag (pp_hdr (pz_request p))) SUCCESS (ProcInfo (pz_desc p)))
          (ret True))))))"

definition del_proc :: "int \<Rightarrow> (gs, unit) pym" where
  "del_proc u =
     sq (bnd (gets gs_proc_table) (\<lambda>t. if u \<in> set t then modify (\<lambda>s. s\<lparr>gs_proc_table := removeAll u (gs_proc_table s)\<rparr>)
         else raise KeyError))
     (bnd (lift_res (\<lambda>s. d_del (pp_user_name (pz_request (gs_proc s u))) (gs_proc_names s))) (\<lambda>ns.
        modify (\<lambda>s. s\<lparr>gs_proc_names := ns\<rparr>)))"

definition drop_head :: "int \<Rightarrow> (gs, unit) pym" where
  "drop_head u = modify (\<lambda>s. s\<lparr>gs_head_puid := gs_head_puid s - {u},
     gs_state := (if gs_head_puid s - {u} = {} then WAITING_FOR_HEAD else gs_state s)\<rparr>)"

text \<open>
  When the start failed, only the destruction of the return channel is asked for; it is still
  pending, so that the request is refused.
\<close>

definition start_failed :: "int \<Rightarrow> (gs, bool) pym" where
  "start_failed u =
     sq (upd_proc u (set_proc_state DEAD))
     (sq (bnd (gets gs_head_puid) (\<lambda>hs. whenM (u \<in> hs) (drop_head u)))
     (sq (del_proc u)
     (bnd (gets (\<lambda>s. gs_proc s u)) (\<lambda>p.
      sq (whenM (pp_make_inf_channels (pz_request p)) (bnd tag_inc (\<lambda>t. case pz_gs_ret p of
           None \<Rightarrow> raise AttributeError
         | Some cu \<Rightarrow> sq (chan_destroy \<lparr>nm_hdr = \<lparr>h_tag = t, h_p_uid = GS_PUID, h_r_c_uid = 0\<rparr>, nm_user_name = [], nm_uid = cu\<rparr> False Absorb)
             (ret ()))))
      (sq (respond (pz_reply_queue p) ProcessCreateR (h_tag (pp_hdr (pz_request p))) FAIL NoInfo) (ret False))))))"

definition proc_complete_construction :: "int \<Rightarrow> bool \<Rightarrow> chan_resps \<Rightarrow> (gs, bool) pym" where
  "proc_complete_construction u ok r =
     (if ok then
        sq (upd_proc u (set_proc_state ACTIVE))
        (bnd (gets (\<lambda>s. gs_proc s u)) (\<lambda>p.
         bnd (case pz_gs_ret p of None \<Rightarrow> ret True | Some cu \<Rightarrow> chan_complete_construction cu (cr_gs_ret r)) (\<lambda>made.
         if \<not> made then fail_construction u
         else complete_pipe (pz_stdin p) (cr_stdin r) (\<lambda>sin.
              complete_pipe (pz_stdout p) (cr_stdout r) (\<lambda>sout.
              complete_pipe (pz_stderr p) (cr_stderr r) (\<lambda>serr.
                finish_construction u sin sout serr) u) u) u)))
      else start_failed u)"

definition proc_kill :: "named \<Rightarrow> int \<Rightarrow> bool \<Rightarrow> hdl \<Rightarrow> (gs, unit) pym" where
  "proc_kill m sig hide_stderr h = bnd (resolve_puid (nm_user_name m) (nm_uid m)) (\<lambda>(u, found).
     if \<not> found then respond h ProcessKillR (h_tag (nm_hdr m)) UNKNOWN NoInfo
     else bnd (gets (\<lambda>s. pz_desc (gs_proc s u))) (\<lambda>d. case pr_state d of
         DEAD \<Rightarrow> respond h ProcessKillR (h_tag (nm_hdr m)) ERR_DEAD (ExitCode (pr_ecode d))
       | PENDING \<Rightarrow> respond h ProcessKillR (h_tag (nm_hdr m)) ERR_PENDING NoInfo
       | ACTIVE \<Rightarrow>
           sq (upd_proc u (\<lambda>p. set_proc_state PENDING (p\<lparr>pz_destroy_request := Some m, pz_reply_queue := h\<rparr>)))
           (bnd tag_inc (\<lambda>t.
            sq (set_pending t (ProcKill u))
            (bnd (ls_input (pr_node d)) (\<lambda>l. send_ls l (LSProcessKill t u sig hide_stderr)))))))"

definition proc_complete_kill :: "int \<Rightarrow> bool \<Rightarrow> (gs, unit) pym" where
  "proc_complete_kill u ok = bnd (gets (\<lambda>s. gs_proc s u)) (\<lambda>p. case pz_destroy_request p of
     None \<Rightarrow> raise AttributeError
   | Some m \<Rightarrow> bnd tag_inc (\<lambda>t.
       sq (whenM (pr_state (pz_desc p) = PENDING) (upd_proc u (set_proc_state ACTIVE)))
          (put_reply (pz_reply_queue p) (Reply ProcessKillR t (h_tag (nm_hdr m)) (if ok then SUCCESS else FAIL_KILL) NoInfo))))"

end
