(* ===== verification/GSServer.thy ===== *)
theory GSServer
  imports GSContexts
begin

text \<open>
  Global services (\<open>globalservices/server.py\<close>): the handlers of class \<open>GlobalContext\<close>, one
  definition each, the handling of timeouts and the main loop.  The time of day is an argument.
  An exception of a handler ends the loop.
\<close>

section \<open>The initial state\<close>

text \<open>
  \<open>GlobalContext()\<close> for \<open>n\<close> nodes: the number of nodes and the queues of local services are set by
  \<open>run_startup\<close>; connections for tests and the outcome of attaching to a channel are parameters.
\<close>

definition new_gs :: "int \<Rightarrow> int set \<Rightarrow> (string \<Rightarrow> unit res) \<Rightarrow> gs" where
  "new_gs n test attach = \<lparr>gs_tag = 0, gs_next_puid = FIRST_PUID, gs_next_cuid = FIRST_CUID, gs_next_muid = FIRST_MUID,
     gs_pool = (\<lambda>_. undefined), gs_pool_table = [], gs_pool_names = [],
     gs_chan = (\<lambda>_. undefined), gs_chan_table = [], gs_chan_names = [],
     gs_proc = (\<lambda>_. undefined), gs_proc_table = [], gs_proc_names = [],
     gs_node_table = [], gs_node_names = [], gs_node_idx_to_huid = [],
     gs_pending = [], gs_pending_exits = [], gs_pending_sends = [], gs_sent = [],
     gs_pending_join = new_pmm, gs_pending_join_list = new_pmm, gs_pending_channel_joins = new_pmm, gs_join_status = [],
     gs_head_puid = {}, gs_state = STARTING, gs_ls_inputs = n, gs_num_nodes = n, gs_ls_pings = 0, gs_circ_index = 0,
     gs_proc_eval = None, gs_chan_eval = None, gs_resilient = False, gs_test_conns = test, gs_attach = attach, gs_out = []\<rparr>"

section \<open>Pools and channels\<close>

definition handle_pool_create :: "pool_create \<Rightarrow> (gs, unit) pym" where
  "handle_pool_create m = bnd (get_reply_handle (pc_hdr m)) (\<lambda>h. bnd (pool_construct m h) (\<lambda>r. case r of
     None \<Rightarrow> raise TypeError
   | Some None \<Rightarrow> ret ()
   | Some (Some (t, u)) \<Rightarrow> set_pending t (PoolConstruct u)))"

definition handle_pool_list :: "hdr \<Rightarrow> (gs, unit) pym" where
  "handle_pool_list m = bnd (get_reply_handle m) (\<lambda>h. bnd (gets gs_pool_table) (\<lambda>t.
     respond h PoolListR (h_tag m) SUCCESS (Uids t)))"

definition handle_pool_query :: "named \<Rightarrow> (gs, unit) pym" where
  "handle_pool_query m = bnd (get_reply_handle (nm_hdr m)) (\<lambda>h. bnd (resolve_muid m) (\<lambda>(u, found).
     if \<not> found then respond h PoolQueryR (h_tag (nm_hdr m)) UNKNOWN NoInfo
     else bnd (gets (\<lambda>s. px_desc (gs_pool s u))) (\<lambda>d. respond h PoolQueryR (h_tag (nm_hdr m)) SUCCESS (PoolInfo d))))"

definition handle_pool_destroy :: "named \<Rightarrow> (gs, unit) pym" where
  "handle_pool_destroy m = bnd (get_reply_handle (nm_hdr m)) (\<lambda>h. sq (pool_destroy m h) (ret ()))"

definition handle_channel_create :: "chan_create \<Rightarrow> (gs, unit) pym" where
  "handle_channel_create m = bnd (get_reply_handle (cc_hdr m)) (\<lambda>h. bnd (chan_construct m h None True) (\<lambda>r. case r of
     None \<Rightarrow> raise TypeError
   | Some None \<Rightarrow> ret ()
   | Some (Some (t, u)) \<Rightarrow> set_pending t (ChanConstruct u)))"

definition handle_channel_destroy :: "named \<Rightarrow> bool \<Rightarrow> bool \<Rightarrow> (gs, unit) pym" where
  "handle_channel_destroy m reply_req dec_ref =
     bnd (if reply_req then get_reply_handle (nm_hdr m) else ret Absorb) (\<lambda>h. sq (chan_destroy m dec_ref h) (ret ()))"

definition handle_channel_list :: "hdr \<Rightarrow> (gs, unit) pym" where
  "handle_channel_list m = bnd (get_reply_handle m) (\<lambda>h. bnd (gets gs_chan_table) (\<lambda>t.
     respond h ChannelListR (h_tag m) SUCCESS (Uids t)))"

definition handle_channel_query :: "named \<Rightarrow> bool \<Rightarrow> (gs, unit) pym" where
  "handle_channel_query m inc_refcnt = bnd (get_reply_handle (nm_hdr m)) (\<lambda>h.
     bnd (resolve_cuid (nm_user_name m) (nm_uid m)) (\<lambda>(u, found).
     if \<not> found then respond h ChannelQueryR (h_tag (nm_hdr m)) UNKNOWN NoInfo
     else bnd (gets (\<lambda>s. gs_chan s u)) (\<lambda>c.
       sq (whenM (cc_ref_count (cx_request c) \<and> inc_refcnt \<and> cd_state (cx_desc c) = ACTIVE)
             (upd_chan u (\<lambda>c. c\<lparr>cx_refcnt := cx_refcnt c + 1\<rparr>)))
          (respond h ChannelQueryR (h_tag (nm_hdr m)) SUCCESS (ChanInfo (cx_desc c))))))"

text \<open>
  \<open>msg.timeout\<close> is in microseconds; negative means no limit.  A join of a channel that is not
  there yet, or pending, waits for the name.
\<close>

definition limit :: "int \<Rightarrow> int option" where
  "limit t = (if t < 0 then None else Some t)"

definition handle_channel_join :: "int \<Rightarrow> chan_join_req \<Rightarrow> (gs, unit) pym" where
  "handle_channel_join now m = bnd (resolve_cuid (cj_name m) (- 1)) (\<lambda>(u, found).
     bnd (gets (\<lambda>s. cx_desc (gs_chan s u))) (\<lambda>d.
     if found \<and> cd_state d \<noteq> PENDING then bnd (get_reply_handle (cj_hdr m)) (\<lambda>h.
       respond h ChannelJoinR (h_tag (cj_hdr m)) (if cd_state d = ACTIVE then SUCCESS else ERR_DEAD) (ChanInfo d))
     else modify (\<lambda>s. s\<lparr>gs_pending_channel_joins :=
       pm_put now (cj_name m) m (limit (cj_timeout m)) (gs_pending_channel_joins s)\<rparr>)))"

section \<open>Answers of local services\<close>

definition pop_pending :: "int \<Rightarrow> (gs, cont) pym" where
  "pop_pending t = bnd (gets gs_pending) (\<lambda>p. case map_of p t of
     None \<Rightarrow> raise AssertionError
   | Some k \<Rightarrow> sq (modify (\<lambda>s. s\<lparr>gs_pending := AList.delete t (gs_pending s)\<rparr>)) (ret k))"

text \<open>
  A continuation is given the answer.  Only answers to the message that it waits for come with its
  tag, so that no other combination occurs; the first step of each would raise.
\<close>

datatype ls_answer = PoolMade ls_result | PoolGone bool | ChanMade ls_result | ChanGone bool
  | ProcMade bool chan_resps | ProcKilled bool

definition run_cont :: "cont \<Rightarrow> ls_answer \<Rightarrow> (gs, unit) pym" where
  "run_cont k a = (case (k, a) of
     (PoolConstruct u, PoolMade r) \<Rightarrow> sq (pool_complete_construction u r) (ret ())
   | (PoolDestruct u, PoolGone ok) \<Rightarrow> sq (pool_complete_destruction u ok) (ret ())
   | (ChanConstruct u, ChanMade r) \<Rightarrow> sq (chan_complete_construction u (Some r)) (ret ())
   | (ChanDestruct u, ChanGone ok) \<Rightarrow> sq (chan_complete_destruction u ok) (ret ())
   | (ProcConstruct u, ProcMade ok r) \<Rightarrow> sq (proc_complete_construction u ok r) (ret ())
   | (ProcKill u, ProcKilled ok) \<Rightarrow> proc_complete_kill u ok
   | _ \<Rightarrow> raise AssertionError)"

definition handle_ls_answer :: "int \<Rightarrow> ls_answer \<Rightarrow> (gs, unit) pym" where
  "handle_ls_answer ref a = bnd (pop_pending ref) (\<lambda>k. run_cont k a)"

section \<open>Processes\<close>

definition handle_process_create :: "proc_create \<Rightarrow> (gs, unit) pym" where
  "handle_process_create m = bnd (get_reply_handle (pp_hdr m)) (\<lambda>h. proc_construct m h)"

definition handle_process_list :: "hdr \<Rightarrow> (gs, unit) pym" where
  "handle_process_list m = bnd (get_reply_handle m) (\<lambda>h. bnd (gets gs_proc_table) (\<lambda>t.
     respond h ProcessListR (h_tag m) SUCCESS (Uids t)))"

definition handle_process_query :: "named \<Rightarrow> (gs, unit) pym" where
  "handle_process_query m = bnd (get_reply_handle (nm_hdr m)) (\<lambda>h.
     bnd (resolve_puid (nm_user_name m) (nm_uid m)) (\<lambda>(u, found).
     if \<not> found then respond h ProcessQueryR (h_tag (nm_hdr m)) UNKNOWN NoInfo
     else bnd (gets (\<lambda>s. pz_desc (gs_proc s u))) (\<lambda>d. respond h ProcessQueryR (h_tag (nm_hdr m)) SUCCESS (ProcInfo d))))"

definition handle_process_kill :: "named \<Rightarrow> int \<Rightarrow> bool \<Rightarrow> (gs, unit) pym" where
  "handle_process_kill m sig hide = bnd (get_reply_handle (nm_hdr m)) (\<lambda>h. proc_kill m sig hide h)"

text \<open>A limit of at most 100 microseconds is over at once.\<close>

definition handle_process_join :: "int \<Rightarrow> join_req \<Rightarrow> (gs, unit) pym" where
  "handle_process_join now m = (let n = jr_named m in
     bnd (get_reply_handle (nm_hdr n)) (\<lambda>h.
     bnd (resolve_puid (nm_user_name n) (nm_uid n)) (\<lambda>(u, found).
     if \<not> found then respond h ProcessJoinR (h_tag (nm_hdr n)) UNKNOWN NoInfo
     else if u = h_p_uid (nm_hdr n) then respond h ProcessJoinR (h_tag (nm_hdr n)) SELF NoInfo
     else bnd (gets (\<lambda>s. pz_desc (gs_proc s u))) (\<lambda>d.
       if pr_state d = DEAD then respond h ProcessJoinR (h_tag (nm_hdr n)) SUCCESS (ExitCode (pr_ecode d))
       else if 0 \<le> jr_timeout m \<and> jr_timeout m \<le> 100 then respond h ProcessJoinR (h_tag (nm_hdr n)) TIMEOUT NoInfo
       else modify (\<lambda>s. s\<lparr>gs_pending_join := pm_put now u m (limit (jr_timeout m)) (gs_pending_join s)\<rparr>)))))"

text \<open>
  Joining a list: the status of every process is noted; \<open>nonzero_exit\<close> is that of the last item
  of the list, and undefined when there is none.
\<close>

definition set_status :: "int \<times> int \<Rightarrow> jkey \<Rightarrow> gs_err \<times> int option \<Rightarrow> (gs, unit) pym" where
  "set_status k j v = bnd (lift_res (\<lambda>s. d_item k (gs_join_status s))) (\<lambda>d.
     modify (\<lambda>s. s\<lparr>gs_join_status := AList.update k (AList.update j v d) (gs_join_status s)\<rparr>))"

definition join_item :: "join_list_req \<Rightarrow> jkey \<Rightarrow> nat \<times> int list \<times> bool option \<Rightarrow> (gs, nat \<times> int list \<times> bool option) pym" where
  "join_item m j acc = (let (succ, pend, _) = acc; k = (h_tag (jl_hdr m), h_p_uid (jl_hdr m)) in
     bnd (case j of PUid u \<Rightarrow> resolve_puid [] u | PName n \<Rightarrow> resolve_puid n 0) (\<lambda>(u, found).
     if \<not> found then sq (set_status k j (UNKNOWN, None)) (ret (succ, pend, Some False))
     else if u = h_p_uid (jl_hdr m) then sq (set_status k (PUid u) (SELF, None)) (ret (succ, pend, Some False))
     else bnd (gets (\<lambda>s. pz_desc (gs_proc s u))) (\<lambda>d.
       if pr_state d = DEAD then sq (set_status k (PUid u) (SUCCESS, pr_ecode d))
         (ret (Suc succ, pend, Some (pr_ecode d \<noteq> Some 0)))
       else if 0 \<le> jl_timeout m \<and> jl_timeout m \<le> 100 then
         sq (set_status k (PUid u) (TIMEOUT, None)) (ret (succ, pend, Some False))
       else sq (set_status k (PUid u) (ERR_PENDING, None)) (ret (succ, pend @ [u], Some False)))))"

fun join_items :: "join_list_req \<Rightarrow> jkey list \<Rightarrow> nat \<times> int list \<times> bool option \<Rightarrow> (gs, nat \<times> int list \<times> bool option) pym" where
  "join_items m [] acc = ret acc"
| "join_items m (j # js) acc = bnd (join_item m j acc) (join_items m js)"

definition handle_process_join_list :: "int \<Rightarrow> join_list_req \<Rightarrow> (gs, unit) pym" where
  "handle_process_join_list now m = (let k = (h_tag (jl_hdr m), h_p_uid (jl_hdr m)) in
     bnd (get_reply_handle (jl_hdr m)) (\<lambda>h.
     sq (modify (\<lambda>s. s\<lparr>gs_join_status := AList.update k [] (gs_join_status s)\<rparr>))
     (bnd (join_items m (map PUid (jl_uids m) @ map PName (jl_names m)) (0, [], None)) (\<lambda>(succ, pend, bad).
      case bad of
        None \<Rightarrow> raise UnboundLocalError
      | Some nonzero_exit \<Rightarrow>
          if \<not> (jl_return_on_bad_exit m \<and> nonzero_exit) \<and> pend \<noteq> [] \<and> (jl_join_all m \<or> succ = 0)
          then modify (\<lambda>s. s\<lparr>gs_pending_join_list := pm_put now (set pend) m (limit (jl_timeout m)) (gs_pending_join_list s)\<rparr>)
          else bnd (lift_res (\<lambda>s. d_item k (gs_join_status s))) (\<lambda>d.
               sq (respond h ProcessJoinListR (h_tag (jl_hdr m)) SUCCESS (JoinStatus d))
                  (modify (\<lambda>s. s\<lparr>gs_join_status := AList.delete k (gs_join_status s)\<rparr>)))))))"

section \<open>The exit of a process\<close>

text \<open>The channels of the process are destroyed; nobody gets the answers.\<close>

definition clean_channel :: "int option \<Rightarrow> bool \<Rightarrow> (gs, unit) pym" where
  "clean_channel c dec_ref = (case c of None \<Rightarrow> ret () | Some u \<Rightarrow> bnd tag_inc (\<lambda>t.
     sq (chan_destroy \<lparr>nm_hdr = \<lparr>h_tag = t, h_p_uid = GS_PUID, h_r_c_uid = 0\<rparr>, nm_user_name = [], nm_uid = u\<rparr> dec_ref Absorb)
        (ret ())))"

text \<open>The return channel is the one of the descriptor; asking for \<open>None\<close> finds no channel.\<close>

definition clean_ret_channel :: "proc_ctx \<Rightarrow> (gs, unit) pym" where
  "clean_ret_channel p = (case pr_gs_ret_cuid (pz_desc p) of
     Some u \<Rightarrow> clean_channel (Some u) False
   | None \<Rightarrow> bnd tag_inc (\<lambda>t. respond Absorb ChannelDestroyR t UNKNOWN NoInfo))"

definition answer_process_join :: "int option \<Rightarrow> join_req \<Rightarrow> (gs, unit) pym" where
  "answer_process_join ecode j = bnd (get_reply_handle (nm_hdr (jr_named j))) (\<lambda>h.
     respond h ProcessJoinR (h_tag (nm_hdr (jr_named j))) SUCCESS (ExitCode ecode))"

definition answer_joins :: "int \<Rightarrow> int option \<Rightarrow> (gs, unit) pym" where
  "answer_joins u ecode = bnd (gets gs_pending_join) (\<lambda>m. whenM (u \<in> set (d_keys (pm_items m)))
     (sq (for_each (held m u) (answer_process_join ecode))
         (modify (\<lambda>s. s\<lparr>gs_pending_join := pm_remove u (gs_pending_join s)\<rparr>))))"

text \<open>
  The joins of lists that contain the process: a join is answered, or goes on with the smaller
  set and the time that is left.
\<close>

definition join_ends :: "join_list_req \<Rightarrow> int set \<Rightarrow> int option \<Rightarrow> bool" where
  "join_ends j us ecode \<longleftrightarrow> \<not> jl_join_all j \<or> card us = 1 \<or> (jl_return_on_bad_exit j \<and> ecode \<noteq> Some 0)"

definition update_join_list :: "int \<Rightarrow> int option \<Rightarrow> int set \<times> join_list_req \<Rightarrow> (gs, unit) pym" where
  "update_join_list u ecode x = (let (us, j) = x; k = (h_tag (jl_hdr j), h_p_uid (jl_hdr j)) in
     sq (set_status k (PUid u) (SUCCESS, ecode))
     (whenM (join_ends j us ecode) (bnd (get_reply_handle (jl_hdr j)) (\<lambda>h.
        bnd (lift_res (\<lambda>s. d_item k (gs_join_status s))) (\<lambda>d.
        sq (respond h ProcessJoinListR (h_tag (jl_hdr j)) SUCCESS (JoinStatus d))
           (modify (\<lambda>s. s\<lparr>gs_join_status := AList.delete k (gs_join_status s)\<rparr>)))))))"

definition shrink_join_list :: "int \<Rightarrow> int \<Rightarrow> int set \<times> join_list_req \<Rightarrow> (gs, unit) pym" where
  "shrink_join_list now u x = (let (us, j) = x in
     bnd (gets gs_pending_join_list) (\<lambda>m.
     bnd (if jl_timeout j < 0 then ret None else if jl_timeout j = 0 then ret (Some 0)
          else (case pm_time_left us j m of None \<Rightarrow> raise TypeError | Some d \<Rightarrow> ret (Some (d - now)))) (\<lambda>t.
     modify (\<lambda>s. s\<lparr>gs_pending_join_list := pm_put now (us - {u}) j t (gs_pending_join_list s)\<rparr>))))"

definition erase_join_list :: "int set \<times> join_list_req \<Rightarrow> (gs, unit) pym" where
  "erase_join_list x = bnd (lift_res (\<lambda>s. pm_remove_one (fst x) (snd x) (gs_pending_join_list s))) (\<lambda>m.
     modify (\<lambda>s. s\<lparr>gs_pending_join_list := m\<rparr>))"

definition exit_join_lists :: "int \<Rightarrow> int \<Rightarrow> int option \<Rightarrow> (gs, unit) pym" where
  "exit_join_lists now u ecode = bnd (gets gs_pending_join_list) (\<lambda>m.
     let keys = filter (\<lambda>us. u \<in> us) (d_keys (pm_items m));
         reqs = concat (map (\<lambda>us. map (\<lambda>j. (us, j)) (held m us)) keys) in
     sq (for_each reqs (update_join_list u ecode))
     (sq (for_each (filter (\<lambda>(us, j). \<not> join_ends j us ecode) reqs) (shrink_join_list now u))
     (sq (for_each (filter (\<lambda>(us, j). join_ends j us ecode) reqs) erase_join_list)
         (for_each keys (\<lambda>us. modify (\<lambda>s. s\<lparr>gs_pending_join_list := pm_remove us (gs_pending_join_list s)\<rparr>))))))"

definition handle_process_exit :: "int \<Rightarrow> int \<Rightarrow> int \<Rightarrow> int \<Rightarrow> (gs, unit) pym" where
  "handle_process_exit now u code creation_tag = bnd (gets gs_pending) (\<lambda>p.
     if creation_tag \<in> set (d_keys p)
     then modify (\<lambda>s. s\<lparr>gs_pending_exits := AList.update creation_tag (u, code) (gs_pending_exits s)\<rparr>)
     else bnd (gets gs_proc_table) (\<lambda>table. if u \<notin> set table then raise KeyError else
       sq (upd_proc u (\<lambda>p. p\<lparr>pz_desc := (pz_desc p)\<lparr>pr_state := DEAD, pr_ecode := Some code\<rparr>\<rparr>))
       (bnd (gets (\<lambda>s. gs_proc s u)) (\<lambda>p.
        sq (whenM (pp_make_inf_channels (pz_request p)) (clean_ret_channel p))
        (sq (clean_channel (pz_stdin p) True)
        (sq (clean_channel (pz_stdout p) True)
        (sq (clean_channel (pz_stderr p) True)
        (sq (whenM (pr_p_p_uid (pz_desc p) \<in> set table) (upd_proc (pr_p_p_uid (pz_desc p))
              (\<lambda>q. q\<lparr>pz_desc := (pz_desc q)\<lparr>pr_live_children := pr_live_children (pz_desc q) - {u}\<rparr>\<rparr>)))
        (sq (answer_joins u (Some code))
        (sq (exit_join_lists now u (Some code))
            (bnd (gets gs_head_puid) (\<lambda>hs. whenM (u \<in> hs)
              (sq (bnd tag_inc (\<lambda>t. put_reply Bela (GSHeadExit t code))) (drop_head u))))))))))))))"

text \<open>The exit of a process may be reported before its creation; it is handled after it.\<close>

definition handle_process_create_response :: "int \<Rightarrow> int \<Rightarrow> bool \<Rightarrow> chan_resps \<Rightarrow> (gs, unit) pym" where
  "handle_process_create_response now ref ok r =
     sq (handle_ls_answer ref (ProcMade ok r))
     (bnd (gets gs_pending_exits) (\<lambda>ex. case map_of ex ref of
        None \<Rightarrow> ret ()
      | Some (u, code) \<Rightarrow>
          sq (modify (\<lambda>s. s\<lparr>gs_pending_exits := AList.delete ref (gs_pending_exits s)\<rparr>))
             (handle_process_exit now u code ref)))"

section \<open>Nodes and control\<close>

definition handle_node_list :: "hdr \<Rightarrow> (gs, unit) pym" where
  "handle_node_list m = bnd (get_reply_handle m) (\<lambda>h. bnd (gets gs_node_table) (\<lambda>t.
     respond h NodeListR (h_tag m) SUCCESS (Uids (d_keys t))))"

definition handle_node_query_total_cpu_count :: "hdr \<Rightarrow> (gs, unit) pym" where
  "handle_node_query_total_cpu_count m = bnd (get_reply_handle m) (\<lambda>h. bnd (gets gs_node_table) (\<lambda>t.
     respond h NodeQueryTotalCPUCountR (h_tag m) SUCCESS (Count (sum_list (map (\<lambda>x. num_cpus (nx_desc (snd x))) t)))))"

text \<open>The descriptor is read before it is known whether there is one.\<close>

definition handle_node_query :: "named \<Rightarrow> (gs, unit) pym" where
  "handle_node_query m = bnd (get_reply_handle (nm_hdr m)) (\<lambda>h. bnd (resolve_huid m) (\<lambda>(u, found).
     bnd (lift_res (\<lambda>s. d_item u (gs_node_table s))) (\<lambda>n.
     if \<not> found then respond h NodeQueryR (h_tag (nm_hdr m)) UNKNOWN NoInfo
     else respond h NodeQueryR (h_tag (nm_hdr m)) SUCCESS (NodeInfo (nx_desc n)))))"

definition handle_node_query_all :: "hdr \<Rightarrow> (gs, unit) pym" where
  "handle_node_query_all m = bnd (get_reply_handle m) (\<lambda>h. bnd (gets gs_node_table) (\<lambda>t.
     if t = [] then respond h NodeQueryAllR (h_tag m) UNKNOWN NoInfo
     else respond h NodeQueryAllR (h_tag m) SUCCESS (NodeInfos (map (\<lambda>x. nx_desc (snd x)) t))))"

definition handle_reboot_runtime :: "hdr \<Rightarrow> int \<Rightarrow> (gs, unit) pym" where
  "handle_reboot_runtime m hu = bnd (get_reply_handle m) (\<lambda>h.
     sq (bnd tag_inc (\<lambda>t. put_reply Bela (RebootRuntime t hu)))
        (respond h RebootRuntimeR (h_tag m) SUCCESS NoInfo))"

definition handle_ls_ping :: "int \<Rightarrow> string \<Rightarrow> node_descriptor \<Rightarrow> (gs, unit) pym" where
  "handle_ls_ping idx name d =
     sq (modify (\<lambda>s. s\<lparr>gs_node_table := AList.update (h_uid d)
              \<lparr>nx_ls_index = idx, nx_name = name, nx_desc = d\<lparr>num_policies := 0\<rparr>\<rparr> (gs_node_table s),
            gs_node_idx_to_huid := AList.update idx (h_uid d) (gs_node_idx_to_huid s),
            gs_node_names := AList.update name (h_uid d) (gs_node_names s),
            gs_ls_pings := gs_ls_pings s + 1\<rparr>))
     (bnd (gets (\<lambda>s. gs_ls_pings s = gs_num_nodes s)) (\<lambda>full. whenM full
        (sq (bnd tag_inc (\<lambda>t. put_reply Bela (GSIsUp t)))
        (sq (modify (\<lambda>s. s\<lparr>gs_state := WAITING_FOR_HEAD\<rparr>))
        (bnd (lift_res (\<lambda>_. global_policy)) (\<lambda>g.
         modify (\<lambda>s. let ev = make_evaluator (map (\<lambda>x. nx_desc (snd x)) (gs_node_table s)) (Some g) in
           s\<lparr>gs_proc_eval := Some ev, gs_chan_eval := Some ev\<rparr>)))))))"

definition dispatch_gs :: "int \<Rightarrow> gs_msg \<Rightarrow> (gs, unit) pym" where
  "dispatch_gs now msg = (case msg of
     GSPoolCreate m \<Rightarrow> handle_pool_create m
   | GSPoolDestroy m \<Rightarrow> handle_pool_destroy m
   | GSPoolList h \<Rightarrow> handle_pool_list h
   | GSPoolQuery m \<Rightarrow> handle_pool_query m
   | GSChannelCreate m \<Rightarrow> handle_channel_create m
   | GSChannelDestroy m reply_req dec_ref \<Rightarrow> handle_channel_destroy m reply_req dec_ref
   | GSChannelList h \<Rightarrow> handle_channel_list h
   | GSChannelQuery m i \<Rightarrow> handle_channel_query m i
   | GSChannelJoin m \<Rightarrow> handle_channel_join now m
   | GSProcessCreate m \<Rightarrow> handle_process_create m
   | GSProcessKill m sig hide \<Rightarrow> handle_process_kill m sig hide
   | GSProcessList h \<Rightarrow> handle_process_list h
   | GSProcessQuery m \<Rightarrow> handle_process_query m
   | GSProcessJoin m \<Rightarrow> handle_process_join now m
   | GSProcessJoinList m \<Rightarrow> handle_process_join_list now m
   | GSNodeList h \<Rightarrow> handle_node_list h
   | GSNodeQuery m \<Rightarrow> handle_node_query m
   | GSNodeQueryAll h \<Rightarrow> handle_node_query_all h
   | GSNodeQueryTotalCPUCount h \<Rightarrow> handle_node_query_total_cpu_count h
   | GSRebootRuntime h hu \<Rightarrow> handle_reboot_runtime h hu
   | LSPingGS i n d \<Rightarrow> handle_ls_ping i n d
   | GSTeardown \<Rightarrow> modify (\<lambda>s. s\<lparr>gs_state := SHUTTING_DOWN\<rparr>)
   | LSPoolCreateResponse ref r \<Rightarrow> handle_ls_answer ref (PoolMade r)
   | LSPoolDestroyResponse ref ok \<Rightarrow> handle_ls_answer ref (PoolGone ok)
   | LSChannelCreateResponse ref r \<Rightarrow> handle_ls_answer ref (ChanMade r)
   | LSChannelDestroyResponse ref ok \<Rightarrow> handle_ls_answer ref (ChanGone ok)
   | LSProcessCreateResponse ref ok r \<Rightarrow> handle_process_create_response now ref ok r
   | LSProcessKillResponse ref ok \<Rightarrow> handle_ls_answer ref (ProcKilled ok)
   | LSProcessExit u code ct \<Rightarrow> handle_process_exit now u code ct)"

section \<open>Timeouts and the loop\<close>

definition timed_out_join :: "int \<times> join_req \<Rightarrow> (gs, unit) pym" where
  "timed_out_join x = (let (u, j) = x; n = jr_named j in
     bnd (get_reply_handle (nm_hdr n)) (\<lambda>h.
     sq (respond h ProcessJoinR (h_tag (nm_hdr n)) TIMEOUT NoInfo)
     (bnd (lift_res (\<lambda>s. pm_remove_one u j (gs_pending_join s))) (\<lambda>m.
      modify (\<lambda>s. s\<lparr>gs_pending_join := m\<rparr>)))))"

text \<open>The members of the set in some order, as the loop over a frozen set takes them.\<close>

definition timed_out_join_list :: "int set \<times> join_list_req \<Rightarrow> (gs, unit) pym" where
  "timed_out_join_list x = (let (us, j) = x; k = (h_tag (jl_hdr j), h_p_uid (jl_hdr j)) in
     bnd (get_reply_handle (jl_hdr j)) (\<lambda>h.
     sq (for_each (sorted_list_of_set us) (\<lambda>u. set_status k (PUid u) (TIMEOUT, None)))
     (bnd (lift_res (\<lambda>s. d_item k (gs_join_status s))) (\<lambda>d.
      sq (respond h ProcessJoinListR (h_tag (jl_hdr j)) SUCCESS (JoinStatus d))
      (sq (erase_join_list x)
          (modify (\<lambda>s. s\<lparr>gs_join_status := AList.delete k (gs_join_status s)\<rparr>)))))))"

definition timed_out_chan_join :: "string \<times> chan_join_req \<Rightarrow> (gs, unit) pym" where
  "timed_out_chan_join x = (let (n, j) = x in
     bnd (get_reply_handle (cj_hdr j)) (\<lambda>h.
     sq (respond h ChannelJoinR (h_tag (cj_hdr j)) TIMEOUT NoInfo)
     (bnd (lift_res (\<lambda>s. pm_remove_one n j (gs_pending_channel_joins s))) (\<lambda>m.
      modify (\<lambda>s. s\<lparr>gs_pending_channel_joins := m\<rparr>)))))"

definition do_timeouts :: "int \<Rightarrow> (gs, unit) pym" where
  "do_timeouts now =
     sq (bnd (\<lambda>s. let (rv, m) = get_timed_out now (gs_pending_join s) in (Inr rv, s\<lparr>gs_pending_join := m\<rparr>))
          (\<lambda>rv. for_each rv timed_out_join))
     (sq (bnd (\<lambda>s. let (rv, m) = get_timed_out now (gs_pending_join_list s) in (Inr rv, s\<lparr>gs_pending_join_list := m\<rparr>))
          (\<lambda>rv. for_each rv timed_out_join_list))
     (bnd (\<lambda>s. let (rv, m) = get_timed_out now (gs_pending_channel_joins s) in (Inr rv, s\<lparr>gs_pending_channel_joins := m\<rparr>))
          (\<lambda>rv. for_each rv timed_out_chan_join)))"

text \<open>The nearest deadline, as the time to wait.\<close>

definition earliest :: "int option \<Rightarrow> int option \<Rightarrow> int option" where
  "earliest a b = (case a of None \<Rightarrow> b | Some x \<Rightarrow> (case b of None \<Rightarrow> a | Some y \<Rightarrow> Some (min x y)))"

definition next_timeout :: "int \<Rightarrow> gs \<Rightarrow> int option" where
  "next_timeout now s = map_option (\<lambda>d. max 0 (d - now))
     (earliest (next_deadline (gs_pending_join s))
        (earliest (next_deadline (gs_pending_join_list s)) (next_deadline (gs_pending_channel_joins s))))"

text \<open>
  One turn of \<open>run_global_server\<close>: with a head process, \<open>k\<close> of the queued messages are sent
  before something arrives, and timeouts are handled; then the next message, if one came.
\<close>

definition flush_sends :: "nat \<Rightarrow> (gs, unit) pym" where
  "flush_sends k = modify (\<lambda>s. s\<lparr>gs_sent := gs_sent s @ take k (gs_pending_sends s),
     gs_pending_sends := drop k (gs_pending_sends s)\<rparr>)"

definition gs_turn :: "nat \<Rightarrow> int \<Rightarrow> int \<Rightarrow> gs_msg option \<Rightarrow> (gs, unit) pym" where
  "gs_turn k now now' msg = bnd (gets gs_state) (\<lambda>st.
     sq (whenM (st = HAS_HEAD) (sq (flush_sends k) (do_timeouts now)))
        (case msg of None \<Rightarrow> ret () | Some m \<Rightarrow> dispatch_gs now' m))"

fun run_global_server :: "(nat \<times> int \<times> int \<times> gs_msg option) list \<Rightarrow> (gs, unit) pym" where
  "run_global_server [] = ret ()"
| "run_global_server ((k, now, now', msg) # evs) = bnd (gets gs_state) (\<lambda>st.
     if st = SHUTTING_DOWN then ret () else sq (gs_turn k now now' msg) (run_global_server evs))"

end
