(* ===== verification/Triples.thy ===== *)
theory Triples
  imports Prelude
begin

text \<open>
  Weakest preconditions for methods: \<open>wp m Q E s\<close> says that \<open>m\<close>, run in \<open>s\<close>, ends in a state with
  \<open>Q\<close> when it returns, and in one with \<open>E\<close> when it raises.  The rules compute it for the control
  structures; a method that was analysed once is used through its triple.
\<close>

definition wp :: "('s, 'a) pym \<Rightarrow> ('a \<Rightarrow> 's \<Rightarrow> bool) \<Rightarrow> (exn \<Rightarrow> 's \<Rightarrow> bool) \<Rightarrow> 's \<Rightarrow> bool" where
  "wp m Q E s \<longleftrightarrow> (case m s of (Inr x, t) \<Rightarrow> Q x t | (Inl e, t) \<Rightarrow> E e t)"

named_theorems wp_rules

lemma wp_basic [wp_rules]:
  "wp (ret y) R E s \<longleftrightarrow> R y s"
  "wp (raise e) R' E s \<longleftrightarrow> E e s"
  "wp (gets f) R'' E s \<longleftrightarrow> R'' (f s) s"
  "wp (modify g) P E s \<longleftrightarrow> P () (g s)"
  "wp (lift_res h) Q E s \<longleftrightarrow> (case h s of Inr x \<Rightarrow> Q x s | Inl e \<Rightarrow> E e s)"
  by (simp_all add: wp_def split: sum.splits)

lemma wp_bnd [wp_rules]: "wp (bnd m f) Q E s \<longleftrightarrow> wp m (\<lambda>x. wp (f x) Q E) E s"
  by (simp add: wp_def bnd_apply split: sum.splits prod.splits)

lemma wp_sq [wp_rules]: "wp (sq m n) Q E s \<longleftrightarrow> wp m (\<lambda>_. wp n Q E) E s"
  by (simp add: sq_def wp_bnd)

lemma wp_try_except [wp_rules]: "wp (try_except m h) Q E s \<longleftrightarrow> wp m Q (\<lambda>e. wp (h e) Q E) s"
  by (simp add: wp_def try_except_apply split: sum.splits prod.splits)

lemma wp_whenM [wp_rules]: "wp (whenM b m) Q E s \<longleftrightarrow> (if b then wp m Q E s else Q () s)"
  by (simp add: whenM_def wp_def)

lemma wp_if [wp_rules]: "wp (if b then m else n) Q E s \<longleftrightarrow> (if b then wp m Q E s else wp n Q E s)"
  by simp

lemma wp_mono:
  assumes "wp m Q E s" "\<And>x t. Q x t \<Longrightarrow> Q' x t" "\<And>e t. E e t \<Longrightarrow> E' e t"
  shows "wp m Q' E' s"
  using assms by (auto simp: wp_def split: sum.splits prod.splits)

lemma wp_run: "wp m Q E s \<Longrightarrow> m s = (Inr x, t) \<Longrightarrow> Q x t"
  by (simp add: wp_def)

lemma wpI: "(\<And>x t. m s = (Inr x, t) \<Longrightarrow> Q x t) \<Longrightarrow> (\<And>e t. m s = (Inl e, t) \<Longrightarrow> E e t) \<Longrightarrow> wp m Q E s"
  by (auto simp: wp_def split: sum.splits prod.splits)

text \<open>A loop: the invariant speaks of what is left to do.\<close>

lemma wp_for_each:
  assumes "I xs s" "\<And>x xs s. I (x # xs) s \<Longrightarrow> wp (f x) (\<lambda>_. I xs) E s"
  shows "wp (for_each xs f) (\<lambda>_. I []) E s"
  using assms(1)
proof (induction xs arbitrary: s)
  case Nil
  then show ?case by (simp add: wp_def)
next
  case (Cons x xs)
  have "wp (f x) (\<lambda>_. wp (for_each xs f) (\<lambda>_. I []) E) E s"
    by (rule wp_mono [OF assms(2) [OF Cons.prems]]) (simp_all add: Cons.IH)
  then show ?case by (simp add: wp_sq)
qed

lemma wp_then:
  assumes "wp m (\<lambda>_. P) E s" "\<And>t. P t \<Longrightarrow> wp n Q E t"
  shows "wp (sq m n) Q E s"
  unfolding wp_sq by (rule wp_mono [OF assms(1)]) (use assms(2) in auto)

lemma wp_bind:
  assumes "wp m (\<lambda>_. P) E s" "\<And>x t. P t \<Longrightarrow> wp (f x) Q E t"
  shows "wp (bnd m f) Q E s"
  unfolding wp_bnd by (rule wp_mono [OF assms(1)]) (use assms(2) in auto)

lemma wp_conj: "wp m Q E s \<Longrightarrow> wp m R F s \<Longrightarrow> wp m (\<lambda>x t. Q x t \<and> R x t) (\<lambda>e t. E e t \<and> F e t) s"
  by (auto simp: wp_def split: sum.splits prod.splits)

lemma wp_True: "wp m (\<lambda>_ _. True) (\<lambda>_ _. True) s"
  by (auto simp: wp_def split: sum.splits prod.splits)

lemma wp_eqs:
  "wp (ret y) R E = R y" "wp (bnd m f) Q E = wp m (\<lambda>x. wp (f x) Q E) E" "wp (sq m' n) Q' E = wp m' (\<lambda>_. wp n Q' E) E"
  by (intro ext, simp add: wp_rules)+

section \<open>Methods that stay within a relation\<close>

text \<open>A method that relates its first state to its last one, from states with \<open>I\<close>, when it returns.\<close>

definition within :: "('s \<Rightarrow> bool) \<Rightarrow> ('s \<Rightarrow> 's \<Rightarrow> bool) \<Rightarrow> ('s, 'a) pym \<Rightarrow> bool" where
  "within I R m \<longleftrightarrow> (\<forall>s. I s \<longrightarrow> wp m (\<lambda>_. R s) (\<lambda>_ _. True) s)"

lemma withinD: "within I R m \<Longrightarrow> I s \<Longrightarrow> wp m (\<lambda>_. R s) (\<lambda>_ _. True) s"
  by (simp add: within_def)

lemma within_modify: "(\<And>s. I s \<Longrightarrow> R s (f s)) \<Longrightarrow> within I R (modify f)"
  by (simp add: within_def wp_basic)

locale preorder_logic =
  fixes I :: "'s \<Rightarrow> bool" and R :: "'s \<Rightarrow> 's \<Rightarrow> bool"
  assumes refl_R: "I s \<Longrightarrow> R s s"
    and trans_R: "R s t \<Longrightarrow> R t u \<Longrightarrow> R s u"
    and keep_I: "I s \<Longrightarrow> R s t \<Longrightarrow> I t"
begin

lemma basic: "within I R (ret x)" "within I R (raise e)" "within I R (gets f)" "within I R (lift_res g)"
  by (auto simp: within_def wp_basic refl_R split: sum.splits)

lemma bnd:
  assumes "within I R m" "\<And>x. within I R (f x)"
  shows "within I R (bnd m f)"
  unfolding within_def
proof (intro allI impI)
  fix s
  assume inv: "I s"
  show "wp (bnd m f) (\<lambda>_. R s) (\<lambda>_ _. True) s"
  proof (rule wp_bind [OF withinD [OF assms(1) inv]])
    fix x t
    assume t: "R s t"
    show "wp (f x) (\<lambda>_. R s) (\<lambda>_ _. True) t"
      by (rule wp_mono [OF withinD [OF assms(2) keep_I [OF inv t]]]) (use trans_R [OF t] in auto)
  qed
qed

lemma sq: "within I R m \<Longrightarrow> within I R n \<Longrightarrow> within I R (sq m n)"
  by (simp add: sq_def bnd)

lemma control:
  "within I R m \<Longrightarrow> within I R (whenM b m)"
  "(b \<Longrightarrow> within I R k) \<Longrightarrow> (\<not> b \<Longrightarrow> within I R l) \<Longrightarrow> within I R (if b then k else l)"
  by (auto simp: whenM_def basic)

lemma for_each: "(\<And>x. within I R (f x)) \<Longrightarrow> within I R (for_each xs f)"
  by (induction xs) (simp_all add: sq basic)

lemma option: "within I R m \<Longrightarrow> (\<And>x. within I R (f x)) \<Longrightarrow> within I R (case y of None \<Rightarrow> m | Some x \<Rightarrow> f x)"
  by (cases y) simp_all

lemma pair: "(\<And>x y. within I R (f x y)) \<Longrightarrow> within I R (case z of (x, y) \<Rightarrow> f x y)"
  by (cases z) simp

lemmas rules = basic bnd sq control for_each option pair

end

end
