(* ===== verification/GSAccount.thy ===== *)
theory GSAccount
  imports GSServer Triples
begin

text \<open>
  Every request that global services accepts is answered exactly once, or it is held in exactly
  one place: in the continuation of a message to local services, or among the waiting joins.
\<close>

section \<open>The account\<close>

definition cnt :: "hdl \<Rightarrow> int \<Rightarrow> (hdl \<times> int) multiset" where
  "cnt h ref = (if h = Absorb then {#} else {#(h, ref)#})"

text \<open>Joins of lists and of channel names are kept out of the account.\<close>

fun counted :: "hdl \<times> gs_reply \<Rightarrow> (hdl \<times> int) multiset" where
  "counted (h, Reply k t ref e i) = (if k = ChannelJoinR \<or> k = ProcessJoinListR then {#} else cnt h ref)"
| "counted (h, _) = {#}"

definition answered :: "gs \<Rightarrow> (hdl \<times> int) multiset" where
  "answered s = sum_list (map counted (gs_out s))"

definition cnt_opt :: "hdl option \<Rightarrow> int \<Rightarrow> (hdl \<times> int) multiset" where
  "cnt_opt h ref = (case h of None \<Rightarrow> {#} | Some q \<Rightarrow> cnt q ref)"

definition req_tag :: "named option \<Rightarrow> int" where
  "req_tag m = (case m of None \<Rightarrow> 0 | Some n \<Rightarrow> h_tag (nm_hdr n))"

fun owed_of :: "gs \<Rightarrow> cont \<Rightarrow> (hdl \<times> int) multiset" where
  "owed_of s (PoolConstruct u) = cnt_opt (px_reply_queue (gs_pool s u)) (h_tag (pc_hdr (px_request (gs_pool s u))))"
| "owed_of s (PoolDestruct u) = cnt_opt (px_reply_queue (gs_pool s u)) (req_tag (px_destroy_request (gs_pool s u)))"
| "owed_of s (ChanConstruct u) = cnt_opt (cx_reply_queue (gs_chan s u)) (h_tag (cc_hdr (cx_request (gs_chan s u))))"
| "owed_of s (ChanDestruct u) = cnt_opt (cx_reply_queue (gs_chan s u)) (req_tag (cx_destroy_request (gs_chan s u)))"
| "owed_of s (ProcConstruct u) = cnt (pz_reply_queue (gs_proc s u)) (h_tag (pp_hdr (pz_request (gs_proc s u))))"
| "owed_of s (ProcKill u) = cnt (pz_reply_queue (gs_proc s u)) (req_tag (pz_destroy_request (gs_proc s u)))"

definition owed_conts :: "gs \<Rightarrow> (hdl \<times> int) multiset" where
  "owed_conts s = sum_list (map (\<lambda>x. owed_of s (snd x)) (gs_pending s))"

definition handle_of :: "int set \<Rightarrow> int \<Rightarrow> hdl" where
  "handle_of test r = (if r = 1 then Stdout
     else if is_be_cuid r then Bela
     else if is_ls_cuid r then LsIn (r - BASE_LS_CUID)
     else if r \<in> test then TestConn r else ChanQ r)"

definition owed_join :: "int set \<Rightarrow> join_req \<Rightarrow> hdl \<times> int" where
  "owed_join test j = (handle_of test (h_r_c_uid (nm_hdr (jr_named j))), h_tag (nm_hdr (jr_named j)))"

definition owed_joins :: "int set \<Rightarrow> (int, join_req) pmm \<Rightarrow> (hdl \<times> int) multiset" where
  "owed_joins test m = sum_list (map (\<lambda>x. image_mset (owed_join test) (mset (snd x))) (pm_items m))"

definition account :: "gs \<Rightarrow> (hdl \<times> int) multiset" where
  "account s = answered s + owed_conts s + owed_joins (gs_test_conns s) (gs_pending_join s)"

section \<open>The invariant\<close>

datatype resource = RPool int | RChan int | RProc int

fun about :: "cont \<Rightarrow> resource" where
  "about (PoolConstruct u) = RPool u"
| "about (PoolDestruct u) = RPool u"
| "about (ChanConstruct u) = RChan u"
| "about (ChanDestruct u) = RChan u"
| "about (ProcConstruct u) = RProc u"
| "about (ProcKill u) = RProc u"

definition inner :: "proc_ctx \<Rightarrow> int set" where
  "inner p = set_option (pz_gs_ret p) \<union> set_option (pz_stdin p) \<union> set_option (pz_stdout p) \<union> set_option (pz_stderr p)"

definition conts :: "gs \<Rightarrow> cont set" where
  "conts s = ran (map_of (gs_pending s))"

fun cont_ok :: "gs \<Rightarrow> cont \<Rightarrow> bool" where
  "cont_ok s (PoolConstruct u) \<longleftrightarrow> pd_state (px_desc (gs_pool s u)) = PENDING \<and> u < gs_next_muid s"
| "cont_ok s (PoolDestruct u) \<longleftrightarrow> pd_state (px_desc (gs_pool s u)) = PENDING \<and> u < gs_next_muid s"
| "cont_ok s (ChanConstruct u) \<longleftrightarrow> cd_state (cx_desc (gs_chan s u)) = PENDING \<and> u < gs_next_cuid s"
| "cont_ok s (ChanDestruct u) \<longleftrightarrow> cd_state (cx_desc (gs_chan s u)) = PENDING \<and> u < gs_next_cuid s"
| "cont_ok s (ProcConstruct u) \<longleftrightarrow> pr_state (pz_desc (gs_proc s u)) = PENDING \<and> u < gs_next_puid s \<and>
     (\<forall>c\<in>inner (gs_proc s u). cd_state (cx_desc (gs_chan s c)) = PENDING \<and> cx_reply_queue (gs_chan s c) = Some Absorb \<and>
        c < gs_next_cuid s \<and> RChan c \<notin> about ` conts s)"
| "cont_ok s (ProcKill u) \<longleftrightarrow> pr_state (pz_desc (gs_proc s u)) \<noteq> ACTIVE \<and> u < gs_next_puid s"

text \<open>Nothing is pending twice, and no two processes that start share a channel.\<close>

definition tags_ok :: "gs \<Rightarrow> bool" where
  "tags_ok s \<longleftrightarrow> distinct (d_keys (gs_pending s)) \<and> (\<forall>t\<in>set (d_keys (gs_pending s)). t < gs_tag s)"

definition uniq_ok :: "gs \<Rightarrow> bool" where
  "uniq_ok s \<longleftrightarrow> (\<forall>t t' k k'. map_of (gs_pending s) t = Some k \<longrightarrow> map_of (gs_pending s) t' = Some k' \<longrightarrow>
     about k = about k' \<longrightarrow> t = t')"

definition inner_ok :: "gs \<Rightarrow> bool" where
  "inner_ok s \<longleftrightarrow> (\<forall>u u'. ProcConstruct u \<in> conts s \<longrightarrow> ProcConstruct u' \<in> conts s \<longrightarrow> u \<noteq> u' \<longrightarrow>
     inner (gs_proc s u) \<inter> inner (gs_proc s u') = {})"

definition conts_ok :: "gs \<Rightarrow> bool" where
  "conts_ok s \<longleftrightarrow> (\<forall>k\<in>conts s. cont_ok s k)"

definition pending_ok :: "gs \<Rightarrow> bool" where
  "pending_ok s \<longleftrightarrow> tags_ok s \<and> conts_ok s \<and> uniq_ok s \<and> inner_ok s"

definition tables_in_range :: "gs \<Rightarrow> bool" where
  "tables_in_range s \<longleftrightarrow> (\<forall>u\<in>set (gs_pool_table s). u < gs_next_muid s) \<and>
     (\<forall>u\<in>set (gs_chan_table s). u < gs_next_cuid s) \<and> (\<forall>u\<in>set (gs_proc_table s). u < gs_next_puid s)"

definition exits_ok :: "gs \<Rightarrow> bool" where
  "exits_ok s \<longleftrightarrow> (\<forall>ct u code. map_of (gs_pending_exits s) ct = Some (u, code) \<longrightarrow>
     map_of (gs_pending s) ct = Some (ProcConstruct u))"

definition joins_ok :: "gs \<Rightarrow> bool" where
  "joins_ok s \<longleftrightarrow> pm_inv (gs_pending_join s) \<and>
     stale_in {u. u < gs_next_puid s \<and> pr_state (pz_desc (gs_proc s u)) = DEAD} (gs_pending_join s)"

definition gs_inv :: "gs \<Rightarrow> bool" where
  "gs_inv s \<longleftrightarrow> pending_ok s \<and> tables_in_range s \<and> joins_ok s"

section \<open>How the account moves\<close>

lemma sum_update_fresh:
  "k \<notin> set (d_keys d) \<Longrightarrow> sum_list (map f (AList.update k v d)) = sum_list (map f d) + (f (k, v) :: 'a multiset)"
  by (induction d) (auto simp: d_keys_def ac_simps)

lemma sum_delete:
  "distinct (d_keys d) \<Longrightarrow> map_of d k = Some v \<Longrightarrow>
     sum_list (map f d) = sum_list (map f (AList.delete k d)) + (f (k, v) :: 'a multiset)"
proof (induction d)
  case (Cons x d)
  have *: "AList.delete k d = d" if "k \<notin> set (d_keys d)" using that by (auto simp: d_keys_def delete_id)
  show ?case using Cons by (cases x) (auto simp: d_keys_def ac_simps map_of_eq_None_iff * dest: map_of_SomeD)
qed simp

lemma owed_conts_cong:
  assumes "gs_pending t = gs_pending s" "distinct (d_keys (gs_pending s))"
    "\<And>k. k \<in> conts s \<Longrightarrow> owed_of t k = owed_of s k"
  shows "owed_conts t = owed_conts s"
proof -
  have "owed_of t (snd x) = owed_of s (snd x)" if "x \<in> set (gs_pending s)" for x
  proof (rule assms(3))
    have "map_of (gs_pending s) (fst x) = Some (snd x)"
      using that assms(2) by (simp add: d_keys_def map_of_is_SomeI)
    then show "snd x \<in> conts s" by (auto simp: conts_def ran_def)
  qed
  then show ?thesis unfolding owed_conts_def assms(1) by (intro arg_cong [of _ _ sum_list] map_cong) auto
qed

section \<open>What the invariant and the account look at\<close>

definition owed :: "gs \<Rightarrow> (hdl \<times> int) multiset" where
  "owed s = owed_conts s + owed_joins (gs_test_conns s) (gs_pending_join s)"

lemma account_eq: "account s = answered s + owed s"
  by (simp add: account_def owed_def)

definition pool_view :: "pool_ctx \<Rightarrow> hdl option \<times> int \<times> named option \<times> dstate" where
  "pool_view c = (px_reply_queue c, h_tag (pc_hdr (px_request c)), px_destroy_request c, pd_state (px_desc c))"

definition chan_view :: "chan_ctx \<Rightarrow> hdl option \<times> int \<times> named option \<times> dstate" where
  "chan_view c = (cx_reply_queue c, h_tag (cc_hdr (cx_request c)), cx_destroy_request c, cd_state (cx_desc c))"

definition proc_view :: "proc_ctx \<Rightarrow> hdl \<times> int \<times> named option \<times> int set" where
  "proc_view p = (pz_reply_queue p, h_tag (pp_hdr (pz_request p)), pz_destroy_request p, inner p)"

lemmas view_defs = pool_view_def chan_view_def proc_view_def

definition busy :: "gs \<Rightarrow> resource set" where
  "busy s = about ` conts s"

text \<open>
  A change is harmless when it leaves alone the resources that something is pending for, and the
  channels of processes that start.  A process that is being killed may exit.
\<close>

definition frame :: "gs \<Rightarrow> gs \<Rightarrow> bool" where
  "frame s t \<longleftrightarrow> gs_pending t = gs_pending s \<and> gs_tag s \<le> gs_tag t \<and>
     gs_next_muid s \<le> gs_next_muid t \<and> gs_next_cuid s \<le> gs_next_cuid t \<and> gs_next_puid s \<le> gs_next_puid t \<and>
     tables_in_range t \<and>
     (\<forall>u. RPool u \<in> busy s \<longrightarrow> pool_view (gs_pool t u) = pool_view (gs_pool s u)) \<and>
     (\<forall>u. RChan u \<in> busy s \<longrightarrow> chan_view (gs_chan t u) = chan_view (gs_chan s u)) \<and>
     (\<forall>u. RProc u \<in> busy s \<longrightarrow> proc_view (gs_proc t u) = proc_view (gs_proc s u)) \<and>
     (\<forall>u. ProcConstruct u \<in> conts s \<longrightarrow> pr_state (pz_desc (gs_proc t u)) = PENDING \<and>
        (\<forall>c\<in>inner (gs_proc s u). chan_view (gs_chan t c) = chan_view (gs_chan s c))) \<and>
     (\<forall>u. ProcKill u \<in> conts s \<longrightarrow> pr_state (pz_desc (gs_proc t u)) \<noteq> ACTIVE) \<and>
     (\<forall>u < gs_next_puid s. pr_state (pz_desc (gs_proc s u)) = DEAD \<longrightarrow> pr_state (pz_desc (gs_proc t u)) = DEAD) \<and>
     gs_pending_exits t = gs_pending_exits s \<and> gs_pending_join t = gs_pending_join s \<and> gs_test_conns t = gs_test_conns s"

lemma in_busy: "k \<in> conts s \<Longrightarrow> about k \<in> busy s"
  by (simp add: busy_def)

lemma frameD:
  assumes "frame s t"
  shows "gs_pending t = gs_pending s" "gs_tag s \<le> gs_tag t" "conts t = conts s" "tables_in_range t"
    "gs_next_muid s \<le> gs_next_muid t" "gs_next_cuid s \<le> gs_next_cuid t" "gs_next_puid s \<le> gs_next_puid t"
    "RPool u \<in> busy s \<Longrightarrow> pool_view (gs_pool t u) = pool_view (gs_pool s u)"
    "RChan u \<in> busy s \<Longrightarrow> chan_view (gs_chan t u) = chan_view (gs_chan s u)"
    "RProc u \<in> busy s \<Longrightarrow> proc_view (gs_proc t u) = proc_view (gs_proc s u)"
    "ProcConstruct u \<in> conts s \<Longrightarrow> pr_state (pz_desc (gs_proc t u)) = PENDING"
    "ProcConstruct u \<in> conts s \<Longrightarrow> c \<in> inner (gs_proc s u) \<Longrightarrow> chan_view (gs_chan t c) = chan_view (gs_chan s c)"
    "ProcKill u \<in> conts s \<Longrightarrow> pr_state (pz_desc (gs_proc t u)) \<noteq> ACTIVE"
    "u < gs_next_puid s \<Longrightarrow> pr_state (pz_desc (gs_proc s u)) = DEAD \<Longrightarrow> pr_state (pz_desc (gs_proc t u)) = DEAD"
    "gs_pending_exits t = gs_pending_exits s" "gs_pending_join t = gs_pending_join s" "gs_test_conns t = gs_test_conns s"
  using assms by (simp_all add: frame_def conts_def)

lemma frame_cont_ok:
  assumes f: "frame s t" and k: "k \<in> conts s" "cont_ok s k"
  shows "cont_ok t k"
proof (cases k)
  case (PoolConstruct u)
  then show ?thesis using k in_busy [OF k(1)] frameD(8) [OF f, of u] frameD(5) [OF f] by (simp add: view_defs)
next
  case (PoolDestruct u)
  then show ?thesis using k in_busy [OF k(1)] frameD(8) [OF f, of u] frameD(5) [OF f] by (simp add: view_defs)
next
  case (ChanConstruct u)
  then show ?thesis using k in_busy [OF k(1)] frameD(9) [OF f, of u] frameD(6) [OF f] by (simp add: view_defs)
next
  case (ChanDestruct u)
  then show ?thesis using k in_busy [OF k(1)] frameD(9) [OF f, of u] frameD(6) [OF f] by (simp add: view_defs)
next
  case (ProcConstruct u)
  then have "inner (gs_proc t u) = inner (gs_proc s u)"
    using in_busy [OF k(1)] frameD(10) [OF f, of u] by (simp add: view_defs)
  then show ?thesis
    using ProcConstruct k frameD(11,12) [OF f, of u] frameD(6,7) [OF f] frameD(3) [OF f] by (fastforce simp: chan_view_def)
next
  case (ProcKill u)
  then show ?thesis using k frameD(13) [OF f, of u] frameD(7) [OF f] by simp
qed

lemma frame_owed_of:
  assumes f: "frame s t" and k: "k \<in> conts s"
  shows "owed_of t k = owed_of s k"
  using in_busy [OF k] frameD(8-10) [OF f] by (cases k) (auto simp: view_defs)

lemma stale_in_mono: "stale_in R m \<Longrightarrow> R \<subseteq> R' \<Longrightarrow> stale_in R' m"
  unfolding stale_in_def by blast

lemma frame_inv:
  assumes f: "frame s t" and inv: "gs_inv s"
  shows "gs_inv t"
proof -
  have c: "conts t = conts s" and p: "gs_pending t = gs_pending s" and tg: "gs_tag s \<le> gs_tag t"
    using f by (simp_all add: frame_def conts_def)
  have "tags_ok t" using inv tg by (fastforce simp: gs_inv_def pending_ok_def tags_ok_def p)
  moreover have "conts_ok t" using inv frame_cont_ok [OF f] by (simp add: gs_inv_def pending_ok_def conts_ok_def c)
  moreover have "uniq_ok t" using inv by (simp add: gs_inv_def pending_ok_def uniq_ok_def p)
  moreover have "inner (gs_proc t u) = inner (gs_proc s u)" if "ProcConstruct u \<in> conts s" for u
    using f in_busy [OF that] by (simp add: frame_def view_defs)
  then have "inner_ok t" using inv by (simp add: gs_inv_def pending_ok_def inner_ok_def c)
  ultimately have "pending_ok t" by (simp add: pending_ok_def)
  moreover have "joins_ok t"
  proof -
    let ?D = "\<lambda>s. {u. u < gs_next_puid s \<and> pr_state (pz_desc (gs_proc s u)) = DEAD}"
    have "?D s \<subseteq> ?D t"
    proof
      fix u
      assume "u \<in> ?D s"
      then show "u \<in> ?D t" using frameD(7) [OF f] frameD(14) [OF f, of u] by simp
    qed
    moreover have "stale_in (?D s) (gs_pending_join s)" "pm_inv (gs_pending_join s)"
      using inv by (simp_all add: gs_inv_def joins_ok_def)
    ultimately show ?thesis unfolding joins_ok_def frameD(16) [OF f] by (blast intro: stale_in_mono)
  qed
  ultimately show ?thesis using frameD(4) [OF f] by (simp add: gs_inv_def)
qed

lemma frame_owed:
  assumes f: "frame s t" and inv: "gs_inv s"
  shows "owed t = owed s"
proof -
  have "owed_conts t = owed_conts s"
    by (rule owed_conts_cong) (use f inv frame_owed_of [OF f] in
      \<open>auto simp: frame_def gs_inv_def pending_ok_def tags_ok_def\<close>)
  then show ?thesis using f by (simp add: owed_def frame_def)
qed

lemma frame_self:
  assumes "gs_inv s"
  shows "frame s s"
proof -
  have "cont_ok s k" if "k \<in> conts s" for k using assms that by (simp add: gs_inv_def pending_ok_def conts_ok_def)
  from this [of "ProcConstruct _"] this [of "ProcKill _"] show ?thesis
    using assms by (auto simp: frame_def gs_inv_def)
qed

section \<open>Moves\<close>

text \<open>What is pending stays so; what is new has a new tag, and a start is that of a new process.\<close>

definition grows :: "gs \<Rightarrow> gs \<Rightarrow> bool" where
  "grows s t \<longleftrightarrow> map_of (gs_pending s) \<subseteq>\<^sub>m map_of (gs_pending t) \<and> gs_tag s \<le> gs_tag t \<and> gs_next_puid s \<le> gs_next_puid t \<and>
     (\<forall>tg k. map_of (gs_pending t) tg = Some k \<longrightarrow> map_of (gs_pending s) tg = Some k \<or>
        gs_tag s \<le> tg \<and> (\<forall>u. k = ProcConstruct u \<longrightarrow> gs_next_puid s \<le> u))"

lemma growsD:
  assumes "grows s t" "map_of (gs_pending t) tg = Some k"
  shows "map_of (gs_pending s) tg = Some k \<or> gs_tag s \<le> tg \<and> (\<forall>u. k = ProcConstruct u \<longrightarrow> gs_next_puid s \<le> u)"
  using assms by (simp add: grows_def)

lemma grows_trans:
  assumes st: "grows s t" and tu: "grows t u"
  shows "grows s u"
proof -
  have le: "gs_tag s \<le> gs_tag t" "gs_next_puid s \<le> gs_next_puid t" "gs_tag t \<le> gs_tag u" "gs_next_puid t \<le> gs_next_puid u"
    using assms by (simp_all add: grows_def)
  have "map_of (gs_pending s) tg = Some k \<or> gs_tag s \<le> tg \<and> (\<forall>u. k = ProcConstruct u \<longrightarrow> gs_next_puid s \<le> u)"
    if "map_of (gs_pending u) tg = Some k" for tg k
    using growsD [OF tu that]
  proof (elim disjE conjE)
    assume "gs_tag t \<le> tg" "\<forall>u. k = ProcConstruct u \<longrightarrow> gs_next_puid t \<le> u"
    then show ?thesis using le by fastforce
  qed (rule growsD [OF st])
  moreover have "map_of (gs_pending s) \<subseteq>\<^sub>m map_of (gs_pending u)" using assms map_le_trans unfolding grows_def by blast
  ultimately show ?thesis using le by (simp add: grows_def)
qed

lemma frame_grows: "frame s t \<Longrightarrow> grows s t"
  using frameD [of s t] by (simp add: grows_def)

text \<open>A step keeps the invariant and adds \<open>x\<close> to the account.\<close>

definition moves :: "gs \<Rightarrow> (hdl \<times> int) multiset \<Rightarrow> gs \<Rightarrow> bool" where
  "moves s x t \<longleftrightarrow> gs_inv t \<and> account t = account s + x \<and> gs_pending_exits t = gs_pending_exits s \<and>
     grows s t \<and> gs_test_conns t = gs_test_conns s"

lemma moves_trans: "moves s x t \<Longrightarrow> moves t y u \<Longrightarrow> moves s (x + y) u"
  by (auto simp: moves_def intro: grows_trans)

lemma moves_inv: "moves s x t \<Longrightarrow> gs_inv t"
  by (simp add: moves_def)

lemma frame_moves:
  assumes "gs_inv s" "frame s t" "answered t = answered s + x"
  shows "moves s x t"
  using frame_inv [OF assms(2,1)] frame_owed [OF assms(2,1)] frame_grows [OF assms(2)] assms(3) frameD [OF assms(2)]
  by (simp add: moves_def account_eq)

lemma moves_refl: "gs_inv s \<Longrightarrow> moves s {#} s"
  by (simp add: moves_def grows_def)

section \<open>Elementary methods\<close>

lemma wp_elem [wp_rules]:
  "wp tag_inc P E s = P (gs_tag s) (s\<lparr>gs_tag := gs_tag s + 1\<rparr>)"
  "wp (put_reply h r) Q E s = Q () (s\<lparr>gs_out := gs_out s @ [(h, r)]\<rparr>)"
  "wp (send_ls l m) Q E s = Q () (s\<lparr>gs_pending_sends := gs_pending_sends s @ [(l, m)]\<rparr>)"
  "wp (set_pending t k) Q E s = Q () (s\<lparr>gs_pending := AList.update t k (gs_pending s)\<rparr>)"
  "wp (upd_pool u f) Q E s = Q () (s\<lparr>gs_pool := (gs_pool s)(u := f (gs_pool s u))\<rparr>)"
  "wp (upd_chan u g) Q E s = Q () (s\<lparr>gs_chan := (gs_chan s)(u := g (gs_chan s u))\<rparr>)"
  "wp (upd_proc u h') Q E s = Q () (s\<lparr>gs_proc := (gs_proc s)(u := h' (gs_proc s u))\<rparr>)"
  "wp (respond h kd ref e i) Q E s = Q () (s\<lparr>gs_tag := gs_tag s + 1, gs_out := gs_out s @ [(h, Reply kd (gs_tag s) ref e i)]\<rparr>)"
  by (simp_all add: tag_inc_def put_reply_def send_ls_def set_pending_def upd_pool_def upd_chan_def upd_proc_def
      respond_def wp_def bnd_apply)

lemma wp_ls_input: "(\<And>l. Q l s) \<Longrightarrow> E IndexError s \<Longrightarrow> wp (ls_input i) Q E s"
  by (simp add: ls_input_def wp_rules)

lemma answered_simps [simp]:
  "answered (s\<lparr>gs_out := gs_out s @ [x]\<rparr>) = answered s + counted x"
  "answered (s\<lparr>gs_tag := n\<rparr>) = answered s"
  "answered (s\<lparr>gs_tag := n, gs_out := gs_out s @ [x]\<rparr>) = answered s + counted x"
  "answered (s\<lparr>gs_pending := p\<rparr>) = answered s"
  "answered (s\<lparr>gs_pool := f\<rparr>) = answered s" "answered (s\<lparr>gs_chan := g\<rparr>) = answered s" "answered (s\<lparr>gs_proc := h\<rparr>) = answered s"
  by (simp_all add: answered_def)

definition counts :: "reply_kind \<Rightarrow> bool" where
  "counts k \<longleftrightarrow> k \<noteq> ChannelJoinR \<and> k \<noteq> ProcessJoinListR"

lemma respond_moves:
  assumes "gs_inv s"
  shows "moves s (if counts k then cnt h ref else {#})
     (s\<lparr>gs_tag := gs_tag s + 1, gs_out := gs_out s @ [(h, Reply k (gs_tag s) ref e i)]\<rparr>)"
proof (rule frame_moves [OF assms])
  show "frame s (s\<lparr>gs_tag := gs_tag s + 1, gs_out := gs_out s @ [(h, Reply k (gs_tag s) ref e i)]\<rparr>)"
    using frame_self [OF assms] by (simp add: frame_def tables_in_range_def)
qed (simp add: counts_def)

text \<open>The handle of a request, and the state up to attached channels.\<close>

lemma wp_get_reply_handle:
  assumes "\<And>b. Q (handle_of (gs_test_conns s) (h_r_c_uid m))
      (s\<lparr>gs_chan := (gs_chan s)(h_r_c_uid m := (gs_chan s (h_r_c_uid m))\<lparr>cx_attached := b\<rparr>)\<rparr>)"
    and "\<And>e. E e s"
  shows "wp (get_reply_handle m) Q E s"
proof -
  let ?r = "h_r_c_uid m"
  have q: "Q (handle_of (gs_test_conns s) ?r) s" using assms(1) [of "cx_attached (gs_chan s ?r)"] by simp
  have ls: "is_ls_cuid ?r \<Longrightarrow> 0 \<le> ?r - BASE_LS_CUID \<and> ?r \<noteq> 1 \<and> ?r \<noteq> GS_INPUT_CUID \<and> \<not> is_be_cuid ?r"
    and be: "is_be_cuid ?r \<Longrightarrow> ?r \<noteq> 1 \<and> ?r \<noteq> GS_INPUT_CUID"
    by (auto simp: is_ls_cuid_def is_be_cuid_def BASE_BE_CUID_def BASE_LS_CUID_def GS_INPUT_CUID_def)
  show ?thesis
  proof (cases "is_ls_cuid ?r")
    case True
    have "handle_of (gs_test_conns s) ?r = LsIn (?r - BASE_LS_CUID)" using True ls by (simp add: handle_of_def)
    moreover have "get_reply_handle m = bnd (ls_input (?r - BASE_LS_CUID)) (\<lambda>i. ret (LsIn i))"
      using True ls by (simp add: get_reply_handle_def Let_def)
    ultimately show ?thesis using q True ls assms(2) by (simp add: wp_rules ls_input_def)
  next
    case False
    have one: "GS_INPUT_CUID \<noteq> 1" by (simp add: GS_INPUT_CUID_def)
    show ?thesis using assms q be False one
      by (cases "?r = 1"; cases "?r = GS_INPUT_CUID"; cases "is_be_cuid ?r"; cases "?r \<in> gs_test_conns s";
          cases "?r \<in> set (gs_chan_table s)"; cases "cx_attached (gs_chan s ?r)")
        (simp_all add: get_reply_handle_def handle_of_def wp_rules Let_def split: sum.splits)
  qed
qed

lemma attach_frame: "gs_inv s \<Longrightarrow> frame s (s\<lparr>gs_chan := (gs_chan s)(r := (gs_chan s r)\<lparr>cx_attached := b\<rparr>)\<rparr>)"
  using frame_self [of s] by (auto simp: frame_def view_defs tables_in_range_def)

section \<open>Continuations come and go\<close>

lemma owed_of_pending [simp]: "owed_of (s\<lparr>gs_pending := p\<rparr>) k = owed_of s k"
  by (cases k) simp_all

lemma cont_ok_subset:
  assumes "cont_ok s k" "about ` conts (s\<lparr>gs_pending := p\<rparr>) \<subseteq> insert r (about ` conts s)"
    "\<And>u c. k = ProcConstruct u \<Longrightarrow> r = RChan c \<Longrightarrow> c \<notin> inner (gs_proc s u)"
  shows "cont_ok (s\<lparr>gs_pending := p\<rparr>) k"
proof (cases k)
  case (ProcConstruct u)
  have "RChan c \<notin> about ` conts (s\<lparr>gs_pending := p\<rparr>)" if "c \<in> inner (gs_proc s u)" for c
    using that assms ProcConstruct by (metis cont_ok.simps(5) insertE subsetD)
  then show ?thesis using assms(1) ProcConstruct by simp
qed (use assms(1) in simp_all)

lemma conts_I: "map_of (gs_pending s) t = Some k \<Longrightarrow> k \<in> conts s"
  by (auto simp: conts_def ran_def)

lemma add_cont:
  assumes inv: "gs_inv s" and t: "map_of (gs_pending s) t = None" "t < gs_tag s" and k: "cont_ok s k" "about k \<notin> busy s"
    and chan: "\<And>u c. about k = RChan c \<Longrightarrow> ProcConstruct u \<in> conts s \<Longrightarrow> c \<notin> inner (gs_proc s u)"
    and proc: "\<And>u u'. k = ProcConstruct u \<Longrightarrow> ProcConstruct u' \<in> conts s \<Longrightarrow> inner (gs_proc s u) \<inter> inner (gs_proc s u') = {}"
  shows "gs_inv (s\<lparr>gs_pending := AList.update t k (gs_pending s)\<rparr>)"
    and "account (s\<lparr>gs_pending := AList.update t k (gs_pending s)\<rparr>) = account s + owed_of s k"
proof -
  let ?s = "s\<lparr>gs_pending := AList.update t k (gs_pending s)\<rparr>"
  have fresh: "t \<notin> set (d_keys (gs_pending s))" using t(1) by simp
  have c: "conts ?s = insert k (conts s)" using t(1) by (simp add: conts_def ran_map_upd)
  have ok: "tags_ok s" "conts_ok s" "uniq_ok s" "inner_ok s" using inv by (simp_all add: gs_inv_def pending_ok_def)
  have "tags_ok ?s" using ok(1) t(2) by (auto simp: tags_ok_def distinct_d_keys_update)
  moreover have "cont_ok ?s k'" if "k' \<in> insert k (conts s)" for k'
  proof (cases "k' = k")
    case True
    show ?thesis unfolding True by (rule cont_ok_subset [OF k(1), where r = "about k"]) (auto simp: c)
  next
    case False
    then have k': "k' \<in> conts s" "cont_ok s k'" using that ok(2) by (auto simp: conts_ok_def)
    show ?thesis by (rule cont_ok_subset [OF k'(2), where r = "about k"]) (use chan k' in \<open>auto simp: c\<close>)
  qed
  then have "conts_ok ?s" by (simp add: conts_ok_def c)
  moreover have "uniq_ok ?s"
  proof -
    have "about k' \<noteq> about k" if "map_of (gs_pending s) t' = Some k'" for t' k'
      using in_busy [OF conts_I [OF that]] k(2) by auto
    then show ?thesis using ok(3) unfolding uniq_ok_def by (simp add: fun_upd_def) metis
  qed
  moreover have "inner_ok ?s" using ok(4) proc by (simp add: inner_ok_def c) blast
  ultimately show "gs_inv ?s" using inv by (simp add: gs_inv_def pending_ok_def tables_in_range_def joins_ok_def)
  have "owed_conts ?s = owed_conts s + owed_of s k"
    using sum_update_fresh [OF fresh, of "\<lambda>x. owed_of s (snd x)" k] by (simp add: owed_conts_def)
  then show "account ?s = account s + owed_of s k" by (simp add: account_def answered_def)
qed

definition starting :: "gs \<Rightarrow> int set" where
  "starting s = (\<Union>u\<in>{u. ProcConstruct u \<in> conts s}. inner (gs_proc s u))"

lemma pop_cont:
  assumes inv: "gs_inv s" and t: "map_of (gs_pending s) t = Some k"
  defines "s' \<equiv> s\<lparr>gs_pending := AList.delete t (gs_pending s)\<rparr>"
  shows "gs_inv s'" and "account s = account s' + owed_of s' k" and "about k \<notin> busy s'" and "cont_ok s' k"
    and "k = ProcConstruct u \<Longrightarrow> inner (gs_proc s' u) \<inter> starting s' = {}"
    and "about k = RChan c \<Longrightarrow> c \<notin> starting s'"
proof -
  have ok: "tags_ok s" "conts_ok s" "uniq_ok s" "inner_ok s" using inv by (simp_all add: gs_inv_def pending_ok_def)
  have mp: "map_of (gs_pending s') = (map_of (gs_pending s))(t := None)" by (simp add: s'_def)
  have sub: "conts s' \<subseteq> conts s" by (auto simp: conts_def mp ran_def)
  have k: "k \<in> conts s" using t by (auto simp: conts_def ran_def)
  show b: "about k \<notin> busy s'"
  proof
    assume "about k \<in> busy s'"
    then obtain t' k' where "map_of (gs_pending s') t' = Some k'" "about k' = about k"
      by (auto simp: busy_def conts_def ran_def)
    then show False using ok(3) t unfolding uniq_ok_def mp by (metis fun_upd_apply option.distinct(1))
  qed
  have good: "cont_ok s' k'" if "k' \<in> conts s" for k'
  proof -
    have "cont_ok s k'" using that ok(2) by (simp add: conts_ok_def)
    then show ?thesis unfolding s'_def
      by (rule cont_ok_subset [where r = "RPool 0"]) (use sub in \<open>auto simp: s'_def\<close>)
  qed
  then show "cont_ok s' k" using k .
  show "about k = RChan c \<Longrightarrow> c \<notin> starting s'"
  proof -
    assume c: "about k = RChan c"
    have "c \<notin> inner (gs_proc s p)" if "ProcConstruct p \<in> conts s'" for p
      using ok(2) that sub c k unfolding conts_ok_def by (metis cont_ok.simps(5) image_eqI subsetD)
    then show ?thesis by (auto simp: starting_def s'_def)
  qed
  show "k = ProcConstruct u \<Longrightarrow> inner (gs_proc s' u) \<inter> starting s' = {}"
  proof -
    assume u: "k = ProcConstruct u"
    have "inner (gs_proc s u) \<inter> inner (gs_proc s u') = {}" if "ProcConstruct u' \<in> conts s'" for u'
    proof -
      have "u \<noteq> u'" using b u in_busy [OF that] by auto
      then show ?thesis using ok(4) that sub k u unfolding inner_ok_def by blast
    qed
    then show ?thesis by (auto simp: starting_def s'_def)
  qed
  have "tags_ok s'" using ok(1) by (auto simp: tags_ok_def s'_def distinct_d_keys_delete)
  moreover have "conts_ok s'" using good sub by (auto simp: conts_ok_def)
  moreover have "uniq_ok s'" using ok(3) unfolding uniq_ok_def mp by simp
  moreover have "inner_ok s'" using ok(4) sub unfolding inner_ok_def s'_def by auto
  ultimately show "gs_inv s'" using inv
    by (simp add: gs_inv_def pending_ok_def tables_in_range_def joins_ok_def s'_def)
  have "owed_conts s = owed_conts s' + owed_of s' k"
    using sum_delete [of "gs_pending s" t k "\<lambda>x. owed_of s (snd x)"] ok(1) t
    by (simp add: owed_conts_def s'_def tags_ok_def)
  then show "account s = account s' + owed_of s' k"
    by (simp add: account_def answered_def s'_def ac_simps)
qed

section \<open>Harmless changes\<close>

lemma conts_okD: "gs_inv s \<Longrightarrow> k \<in> conts s \<Longrightarrow> cont_ok s k"
  by (simp add: gs_inv_def pending_ok_def conts_ok_def)

lemma starting_pending:
  assumes "gs_inv s" "c \<in> starting s"
  shows "cd_state (cx_desc (gs_chan s c)) = PENDING" "c < gs_next_cuid s" "RChan c \<notin> busy s"
  using assms conts_okD [OF assms(1), of "ProcConstruct _"] by (auto simp: starting_def busy_def)

lemma frameI:
  assumes inv: "gs_inv s" and "gs_pending t = gs_pending s" "gs_tag s \<le> gs_tag t"
    "gs_next_muid s \<le> gs_next_muid t" "gs_next_cuid s \<le> gs_next_cuid t" "gs_next_puid s \<le> gs_next_puid t" "tables_in_range t"
    "\<And>u. RPool u \<in> busy s \<Longrightarrow> gs_pool t u = gs_pool s u"
    "\<And>u. RChan u \<in> busy s \<or> u \<in> starting s \<Longrightarrow> chan_view (gs_chan t u) = chan_view (gs_chan s u)"
    "\<And>u. RProc u \<in> busy s \<Longrightarrow> proc_view (gs_proc t u) = proc_view (gs_proc s u) \<and>
       pr_state (pz_desc (gs_proc t u)) = pr_state (pz_desc (gs_proc s u))"
    "\<And>u. u < gs_next_puid s \<Longrightarrow> pr_state (pz_desc (gs_proc s u)) = DEAD \<Longrightarrow> pr_state (pz_desc (gs_proc t u)) = DEAD"
    "gs_pending_exits t = gs_pending_exits s" "gs_pending_join t = gs_pending_join s" "gs_test_conns t = gs_test_conns s"
  shows "frame s t"
proof -
  have "pr_state (pz_desc (gs_proc t u)) = PENDING \<and> (\<forall>c\<in>inner (gs_proc s u). chan_view (gs_chan t c) = chan_view (gs_chan s c))"
    if "ProcConstruct u \<in> conts s" for u
  proof -
    have "cont_ok s (ProcConstruct u)" by (rule conts_okD [OF inv that])
    moreover have "c \<in> starting s" if "c \<in> inner (gs_proc s u)" for c
      using that \<open>ProcConstruct u \<in> conts s\<close> by (auto simp: starting_def)
    moreover have "RProc u \<in> busy s" using in_busy [OF that] by simp
    ultimately show ?thesis using assms(9) assms(10) by simp
  qed
  moreover have "pr_state (pz_desc (gs_proc t u)) \<noteq> ACTIVE" if "ProcKill u \<in> conts s" for u
    using conts_okD [OF inv that] in_busy [OF that] assms(10) by simp
  ultimately show ?thesis using assms by (simp add: frame_def)
qed

lemma inv_tables: "gs_inv s \<Longrightarrow> tables_in_range s"
  by (simp add: gs_inv_def)

lemma fresh_tag: "gs_inv s \<Longrightarrow> gs_tag s \<le> t \<Longrightarrow> map_of (gs_pending s) t = None"
  using in_d_keys [of t "gs_pending s"] by (auto simp: gs_inv_def pending_ok_def tags_ok_def simp del: in_d_keys)

lemma fresh_busy:
  assumes "gs_inv s"
  shows "gs_next_muid s \<le> u \<Longrightarrow> RPool u \<notin> busy s" "gs_next_cuid s \<le> u \<Longrightarrow> RChan u \<notin> busy s"
    "gs_next_cuid s \<le> u \<Longrightarrow> u \<notin> starting s" "gs_next_puid s \<le> u \<Longrightarrow> RProc u \<notin> busy s"
proof -
  have ok: "cont_ok s k" if "k \<in> conts s" for k by (rule conts_okD [OF assms that])
  have *: "r \<notin> busy s" if "\<And>k. k \<in> conts s \<Longrightarrow> about k \<noteq> r" for r using that by (auto simp: busy_def)
  show "gs_next_muid s \<le> u \<Longrightarrow> RPool u \<notin> busy s"
    by (rule *) (use ok in \<open>case_tac k; force\<close>)
  show "gs_next_cuid s \<le> u \<Longrightarrow> RChan u \<notin> busy s"
    by (rule *) (use ok in \<open>case_tac k; force\<close>)
  show "gs_next_puid s \<le> u \<Longrightarrow> RProc u \<notin> busy s"
    by (rule *) (use ok in \<open>case_tac k; force\<close>)
  show "gs_next_cuid s \<le> u \<Longrightarrow> u \<notin> starting s"
    using starting_pending(2) [OF assms, of u] by force
qed

end
