(* ===== verification/GSAnswers.thy ===== *)
theory GSAnswers
  imports GSAccount
begin

text \<open>
  What the methods of the contexts and the handlers of global services do to the account, and the
  theorem that every request is answered exactly once.
\<close>

section \<open>Pools\<close>

lemma wp_respond_opt [wp_rules]:
  "wp (respond_opt h k ref e i) Q E s = (case h of
     None \<Rightarrow> E AttributeError (s\<lparr>gs_tag := gs_tag s + 1\<rparr>)
   | Some q \<Rightarrow> Q () (s\<lparr>gs_tag := gs_tag s + 1, gs_out := gs_out s @ [(q, Reply k (gs_tag s) ref e i)]\<rparr>))"
  by (simp add: respond_opt_def wp_rules split: option.splits)

lemma pool_complete_moves:
  assumes inv: "gs_inv s" and free: "RPool u \<notin> busy s"
  shows "wp (pool_complete_construction u r) (\<lambda>_. moves s (owed_of s (PoolConstruct u))) (\<lambda>_ _. True) s"
proof (cases "px_reply_queue (gs_pool s u)")
  case None
  then show ?thesis
    by (simp add: pool_complete_construction_def del_pool_def set_pool_state_def wp_rules split: ls_result.splits sum.splits)
next
  case (Some q)
  show ?thesis
    using Some free inv_tables [OF inv]
    by (auto simp: pool_complete_construction_def del_pool_def set_pool_state_def wp_rules cnt_opt_def answered_def tables_in_range_def
        intro!: frame_moves [OF inv] frameI [OF inv] split: ls_result.splits sum.splits)
qed

lemma pool_destroyed_moves:
  assumes inv: "gs_inv s" and free: "RPool u \<notin> busy s"
  shows "wp (pool_complete_destruction u ok) (\<lambda>_. moves s (owed_of s (PoolDestruct u))) (\<lambda>_ _. True) s"
  using free inv_tables [OF inv]
  by (auto simp: pool_complete_destruction_def set_pool_state_def wp_rules cnt_opt_def answered_def tables_in_range_def req_tag_def
      intro!: frame_moves [OF inv] frameI [OF inv] split: option.splits)

lemma active_free:
  assumes "gs_inv s"
  shows "pd_state (px_desc (gs_pool s u)) = ACTIVE \<Longrightarrow> RPool u \<notin> busy s"
    and "cd_state (cx_desc (gs_chan s u)) = ACTIVE \<Longrightarrow> RChan u \<notin> busy s"
    and "cd_state (cx_desc (gs_chan s u)) = ACTIVE \<Longrightarrow> u \<notin> starting s"
    and "pr_state (pz_desc (gs_proc s u)) = ACTIVE \<Longrightarrow> RProc u \<notin> busy s"
proof -
  have ok: "cont_ok s k" if "k \<in> conts s" for k by (rule conts_okD [OF assms that])
  have *: "r \<notin> busy s" if "\<And>k. k \<in> conts s \<Longrightarrow> about k \<noteq> r" for r using that by (auto simp: busy_def)
  show "pd_state (px_desc (gs_pool s u)) = ACTIVE \<Longrightarrow> RPool u \<notin> busy s"
    by (rule *) (use ok in \<open>case_tac k; force\<close>)
  show "cd_state (cx_desc (gs_chan s u)) = ACTIVE \<Longrightarrow> RChan u \<notin> busy s"
    by (rule *) (use ok in \<open>case_tac k; force\<close>)
  show "pr_state (pz_desc (gs_proc s u)) = ACTIVE \<Longrightarrow> RProc u \<notin> busy s"
    by (rule *) (use ok in \<open>case_tac k; force\<close>)
  show "cd_state (cx_desc (gs_chan s u)) = ACTIVE \<Longrightarrow> u \<notin> starting s"
    using starting_pending(1) [OF assms, of u] by force
qed

text \<open>A harmless change together with a new continuation; \<open>t\<close> is the state without it.\<close>

lemma issue:
  assumes inv: "gs_inv s" and p: "gs_pending u = AList.update tg k (gs_pending s)"
  defines "t \<equiv> u\<lparr>gs_pending := gs_pending s\<rparr>"
  assumes f: "frame s t" "answered u = answered s" and tg: "gs_tag s \<le> tg" "tg < gs_tag u"
    and k: "cont_ok t k" "about k \<notin> busy s"
    and chan: "\<And>c. about k = RChan c \<Longrightarrow> c \<notin> starting s"
    and proc: "\<And>q. k = ProcConstruct q \<Longrightarrow> inner (gs_proc u q) \<inter> starting s = {}"
    and new: "\<And>q. k = ProcConstruct q \<Longrightarrow> gs_next_puid s \<le> q"
    and x: "x = owed_of u k"
  shows "moves s x u"
proof -
  have u: "u = t\<lparr>gs_pending := AList.update tg k (gs_pending t)\<rparr>" using p by (simp add: t_def)
  have o: "owed_of t k = owed_of u k" by (simp add: t_def)
  have m: "moves s {#} t" by (rule frame_moves [OF inv f(1)]) (use f(2) in \<open>simp add: answered_def t_def\<close>)
  have c: "conts t = conts s" by (rule frameD(3) [OF f(1)])
  have i: "inner (gs_proc t p) = inner (gs_proc s p)" if "ProcConstruct p \<in> conts s" for p
    using frameD(10) [OF f(1)] in_busy [OF that] by (simp add: view_defs)
  have new_tag: "map_of (gs_pending t) tg = None" "tg < gs_tag t" using fresh_tag [OF inv tg(1)] tg(2) by (simp_all add: t_def)
  have busy: "about k \<notin> busy t" using k(2) by (simp add: busy_def c)
  have ch: "d \<notin> inner (gs_proc t p)" if "about k = RChan d" "ProcConstruct p \<in> conts t" for p d
    using that chan i by (auto simp: c starting_def)
  have pr: "inner (gs_proc t p) \<inter> inner (gs_proc t p') = {}" if "k = ProcConstruct p" "ProcConstruct p' \<in> conts t" for p p'
    using that proc [OF that(1)] i [of p'] unfolding c starting_def by (auto simp: t_def)
  note add = add_cont [OF moves_inv [OF m] new_tag k(1) busy ch pr, folded u]
  have "grows s u" using frame_grows [OF f(1)] new tg fresh_tag [OF inv tg(1)]
    unfolding grows_def by (auto simp: p t_def map_le_def split: if_splits)
  then show ?thesis using add m o f(1) frameD(15,17) [OF f(1)] by (simp add: moves_def x t_def)
qed

text \<open>The parts of the state that neither a pool nor its continuations touch.\<close>

definition rest_same :: "gs \<Rightarrow> gs \<Rightarrow> bool" where
  "rest_same s t \<longleftrightarrow> gs_proc t = gs_proc s \<and> gs_proc_table t = gs_proc_table s \<and> gs_next_puid t = gs_next_puid s \<and>
     gs_pending_exits t = gs_pending_exits s \<and> gs_pending_join t = gs_pending_join s \<and> gs_test_conns t = gs_test_conns s"

definition pools_same :: "gs \<Rightarrow> gs \<Rightarrow> bool" where
  "pools_same s t \<longleftrightarrow> gs_pool t = gs_pool s \<and> gs_pool_table t = gs_pool_table s \<and> gs_next_muid t = gs_next_muid s"

definition chans_same :: "gs \<Rightarrow> gs \<Rightarrow> bool" where
  "chans_same s t \<longleftrightarrow> gs_chan t = gs_chan s \<and> gs_chan_table t = gs_chan_table s \<and> gs_next_cuid t = gs_next_cuid s"

lemmas same_defs = rest_same_def pools_same_def chans_same_def

lemma issue_pool:
  assumes inv: "gs_inv s" and k: "k = PoolConstruct p \<or> k = PoolDestruct p" and free: "RPool p \<notin> busy s"
    and t: "gs_pending t = AList.update (gs_tag s) k (gs_pending s)" "gs_tag s < gs_tag t" "gs_out t = gs_out s"
      "\<And>q. q \<noteq> p \<Longrightarrow> gs_pool t q = gs_pool s q" "pd_state (px_desc (gs_pool t p)) = PENDING" "p < gs_next_muid t"
      "gs_next_muid s \<le> gs_next_muid t" "set (gs_pool_table t) \<subseteq> insert p (set (gs_pool_table s))" "rest_same s t" "chans_same s t"
    and x: "x = owed_of t k"
  shows "moves s x t"
proof (rule issue [OF inv, where tg = "gs_tag s" and k = k])
  show "frame s (t\<lparr>gs_pending := gs_pending s\<rparr>)"
  proof (rule frameI [OF inv])
    show "tables_in_range (t\<lparr>gs_pending := gs_pending s\<rparr>)"
      using t(6-10) inv_tables [OF inv] by (fastforce simp: tables_in_range_def same_defs)
    show "gs_pool (t\<lparr>gs_pending := gs_pending s\<rparr>) u = gs_pool s u" if "RPool u \<in> busy s" for u
      using that free t(4) [of u] by (cases "u = p") simp_all
  qed (use t in \<open>simp_all add: same_defs\<close>)
qed (use assms in \<open>auto simp: answered_def\<close>)

lemma pool_destroy_moves:
  assumes inv: "gs_inv s"
  shows "wp (pool_destroy m h) (\<lambda>_. moves s (cnt h (h_tag (nm_hdr m)))) (\<lambda>_ _. True) s"
proof -
  have r: "moves s (cnt h (h_tag (nm_hdr m))) (s\<lparr>gs_tag := gs_tag s + 1,
      gs_out := gs_out s @ [(h, Reply PoolDestroyR (gs_tag s) (h_tag (nm_hdr m)) e i)]\<rparr>)" for e i
    using respond_moves [OF inv, of PoolDestroyR h "h_tag (nm_hdr m)" e i] by (simp add: counts_def)
  have a: "moves s (cnt h (h_tag (nm_hdr m))) (t u ps)"
    if "pd_state (px_desc (gs_pool s u)) = ACTIVE" "u < gs_next_muid s"
      "t = (\<lambda>u ps. s\<lparr>gs_tag := gs_tag s + 1,
      gs_pool := (gs_pool s)(u := set_pool_state PENDING (gs_pool s u\<lparr>px_reply_queue := Some h, px_destroy_request := Some m\<rparr>)),
      gs_pending := AList.update (gs_tag s) (PoolDestruct u) (gs_pending s), gs_pending_sends := ps\<rparr>)" for t u ps
    by (rule issue_pool [OF inv, where k = "PoolDestruct u" and p = u])
      (use that active_free(1) [OF inv that(1)] in \<open>auto simp: set_pool_state_def cnt_opt_def req_tag_def same_defs\<close>)
  show ?thesis
    unfolding pool_destroy_def resolve_muid_def resolve_uid_def
    using r a [OF _ _ refl] inv_tables [OF inv] by (auto simp: wp_rules ls_input_def tables_in_range_def split: dstate.splits option.splits sum.splits)
qed

lemma wp_frames [wp_rules]:
  "wp new_muid_and_default_name Q E s = Q (gs_next_muid s, ''D'' @ str_int (gs_next_muid s)) (s\<lparr>gs_next_muid := gs_next_muid s + 1\<rparr>)"
  "wp new_cuid_and_default_name Q E s =
     Q (gs_next_cuid s, ''dragon_channel_'' @ str_int (gs_next_cuid s)) (s\<lparr>gs_next_cuid := gs_next_cuid s + 1\<rparr>)"
  "wp new_puid_and_default_name Q E s =
     Q (gs_next_puid s, ''dragon_process_'' @ str_int (gs_next_puid s)) (s\<lparr>gs_next_puid := gs_next_puid s + 1\<rparr>)"
  by (simp_all add: new_muid_and_default_name_def new_cuid_and_default_name_def new_puid_and_default_name_def wp_def)

text \<open>A resource that was registered and waits for local services.\<close>

definition registered :: "gs \<Rightarrow> (hdl \<times> int) multiset \<Rightarrow> (int \<Rightarrow> cont) \<Rightarrow> (int \<times> int) option option \<Rightarrow> gs \<Rightarrow> bool" where
  "registered s x k r t \<longleftrightarrow> (case r of
     None \<Rightarrow> True
   | Some None \<Rightarrow> moves s x t
   | Some (Some (tg, u)) \<Rightarrow> moves s x (t\<lparr>gs_pending := AList.update tg (k u) (gs_pending t)\<rparr>))"

lemma pool_construct_registers:
  assumes inv: "gs_inv s"
  shows "wp (pool_construct m h) (registered s (cnt h (h_tag (pc_hdr m))) PoolConstruct) (\<lambda>_ _. True) s"
proof -
  let ?x = "cnt h (h_tag (pc_hdr m))" and ?u = "gs_next_muid s"
  have r: "moves s ?x (s\<lparr>gs_tag := gs_tag s + 1, gs_out := gs_out s @ [(h, Reply PoolCreateR (gs_tag s) (h_tag (pc_hdr m)) e i)]\<rparr>)" for e i
    using respond_moves [OF inv, of PoolCreateR h "h_tag (pc_hdr m)" e i] by (simp add: counts_def)
  have a: "moves s ?x t"
    if "gs_pending t = AList.update (gs_tag s) (PoolConstruct ?u) (gs_pending s)" "gs_tag t = gs_tag s + 1" "gs_out t = gs_out s"
      "\<And>q. q \<noteq> ?u \<Longrightarrow> gs_pool t q = gs_pool s q" "pool_view (gs_pool t ?u) = (Some h, h_tag (pc_hdr m), None, PENDING)"
      "gs_next_muid t = ?u + 1" "gs_pool_table t = List.insert ?u (gs_pool_table s)" "rest_same s t" "chans_same s t" for t
    by (rule issue_pool [OF inv, where k = "PoolConstruct ?u" and p = ?u])
      (use that fresh_busy(1) [OF inv, of ?u] in \<open>auto simp: pool_view_def cnt_opt_def\<close>)
  show ?thesis
    unfolding pool_construct_def using r
    by (auto simp: wp_rules ls_input_def registered_def choose_pool_node_def Let_def same_defs new_pool_def pool_view_def intro!: a split: option.splits sum.splits)
qed

lemma with_handle:
  assumes inv: "gs_inv s"
    and f: "\<And>h s1. gs_inv s1 \<Longrightarrow> frame s s1 \<Longrightarrow> answered s1 = answered s \<Longrightarrow> h = handle_of (gs_test_conns s) (h_r_c_uid m) \<Longrightarrow>
      wp (f h) (\<lambda>_. moves s1 (x h)) (\<lambda>_ _. True) s1"
  shows "wp (bnd (get_reply_handle m) f) (\<lambda>_. moves s (x (handle_of (gs_test_conns s) (h_r_c_uid m)))) (\<lambda>_ _. True) s"
  unfolding wp_bnd
proof (rule wp_get_reply_handle)
  fix b
  let ?r = "h_r_c_uid m"
  let ?s = "s\<lparr>gs_chan := (gs_chan s)(?r := gs_chan s ?r\<lparr>cx_attached := b\<rparr>)\<rparr>"
  let ?h = "handle_of (gs_test_conns s) ?r"
  have fr: "frame s ?s" by (rule attach_frame [OF inv])
  have an: "answered ?s = answered s" by simp
  have m: "moves s {#} ?s" by (rule frame_moves [OF inv fr]) (simp add: an)
  have "wp (f ?h) (\<lambda>_. moves ?s (x ?h)) (\<lambda>_ _. True) ?s" by (rule f [OF moves_inv [OF m] fr an refl])
  then show "wp (f ?h) (\<lambda>_. moves s (x ?h)) (\<lambda>_ _. True) ?s"
    by (rule wp_mono) (use moves_trans [OF m] in \<open>simp_all\<close>)
qed simp

section \<open>Channels\<close>

lemma evaluate_with_wp:
  assumes "\<And>l e. Q l (upd e s)" "\<And>x e. E x (upd e s)" "\<And>x. E x s"
  shows "wp (evaluate_with ev upd p) Q E s"
  using assms by (auto simp: evaluate_with_def wp_def split: option.splits sum.splits prod.splits)

lemma evals_frame: "gs_inv s \<Longrightarrow> frame s (s\<lparr>gs_proc_eval := a, gs_chan_eval := b\<rparr>)"
  using frame_self [of s] by (simp add: frame_def tables_in_range_def)

lemma node_of_pool_wp: "(\<And>n. Q n s) \<Longrightarrow> (\<And>e. E e s) \<Longrightarrow> wp (node_of_pool m p) Q E s"
  by (auto simp: node_of_pool_def wp_rules split: sum.splits)

lemma choose_channel_node_wp:
  assumes "\<And>n a b. Q n (s\<lparr>gs_proc_eval := a, gs_chan_eval := b\<rparr>)" "\<And>e a b. E e (s\<lparr>gs_proc_eval := a, gs_chan_eval := b\<rparr>)"
  shows "wp (choose_channel_node m) Q E s"
proof -
  have self: "Q n s" "E e s" for n e
    using assms [where a = "gs_proc_eval s" and b = "gs_chan_eval s"] by simp_all
  have np: "wp (bnd (node_of_pool mu p) (\<lambda>n. ret (n, mu))) Q E t" if "\<And>n. Q n t" "\<And>e. E e t" for mu p t
    unfolding wp_bnd by (rule node_of_pool_wp) (simp_all add: wp_rules that)
  show ?thesis unfolding choose_channel_node_def wp_bnd wp_basic
  proof (cases "cc_policy m")
    case (Some p)
    have "wp (evaluate_with gs_chan_eval set_chan_eval p) R E s"
      if "\<And>l a b. R l (s\<lparr>gs_proc_eval := a, gs_chan_eval := b\<rparr>)" for R
      by (rule evaluate_with_wp) (simp_all add: set_chan_eval_def that assms self)
    then show "wp (let by_pool = bnd (node_of_pool (cc_m_uid m) (h_p_uid (cc_hdr m))) (\<lambda>n. ret (n, cc_m_uid m)) in
       case cc_policy m of
         Some p \<Rightarrow> if gs_chan_eval s = None then by_pool
           else bnd (evaluate_with gs_chan_eval set_chan_eval p) (\<lambda>l.
             if node_specified l then
               bnd (lift_res (\<lambda>s. d_item (rl_h_uid l) (gs_node_table s))) (\<lambda>n.
               bnd (lift_res (\<lambda>_. default_pool_muid_from_index (nx_ls_index n))) (\<lambda>mu. ret (nx_ls_index n, mu)))
             else by_pool)
       | None \<Rightarrow> by_pool) Q E s"
      using Some np self assms by (simp add: wp_bnd wp_basic Let_def split: sum.splits)
  qed (simp add: np self)
qed

lemma channel_node_wp:
  assumes "\<And>n a b. Q n (s\<lparr>gs_proc_eval := a, gs_chan_eval := b\<rparr>)" "\<And>e a b. E e (s\<lparr>gs_proc_eval := a, gs_chan_eval := b\<rparr>)"
  shows "wp (channel_node m no) Q E s"
  using assms(1) [where a = "gs_proc_eval s" and b = "gs_chan_eval s"] assms
  by (auto simp: channel_node_def wp_rules intro!: choose_channel_node_wp split: option.splits)

lemma issue_chan:
  assumes inv: "gs_inv s" and k: "k = ChanConstruct p \<or> k = ChanDestruct p" and free: "RChan p \<notin> busy s" "p \<notin> starting s"
    and t: "gs_pending t = AList.update (gs_tag s) k (gs_pending s)" "gs_tag s < gs_tag t" "gs_out t = gs_out s"
      "\<And>q. q \<noteq> p \<Longrightarrow> gs_chan t q = gs_chan s q" "cd_state (cx_desc (gs_chan t p)) = PENDING" "p < gs_next_cuid t"
      "gs_next_cuid s \<le> gs_next_cuid t" "set (gs_chan_table t) \<subseteq> insert p (set (gs_chan_table s))" "rest_same s t" "pools_same s t"
    and x: "x = owed_of t k"
  shows "moves s x t"
proof (rule issue [OF inv, where tg = "gs_tag s" and k = k])
  show "frame s (t\<lparr>gs_pending := gs_pending s\<rparr>)"
  proof (rule frameI [OF inv])
    show "tables_in_range (t\<lparr>gs_pending := gs_pending s\<rparr>)"
      using t(6-10) inv_tables [OF inv] by (fastforce simp: tables_in_range_def same_defs)
    show "chan_view (gs_chan (t\<lparr>gs_pending := gs_pending s\<rparr>) u) = chan_view (gs_chan s u)" if "RChan u \<in> busy s \<or> u \<in> starting s" for u
      using that free t(4) [of u] by (cases "u = p") simp_all
  qed (use t in \<open>simp_all add: same_defs\<close>)
qed (use assms in \<open>auto simp: answered_def\<close>)

lemma chan_register_registers:
  assumes inv: "gs_inv s"
  shows "wp (chan_register m h True n mu) (registered s (cnt h (h_tag (cc_hdr m))) ChanConstruct) (\<lambda>_ _. True) s"
proof -
  let ?x = "cnt h (h_tag (cc_hdr m))" and ?u = "gs_next_cuid s"
  have r: "moves s ?x (s\<lparr>gs_tag := gs_tag s + 1, gs_out := gs_out s @ [(h, Reply ChannelCreateR (gs_tag s) (h_tag (cc_hdr m)) e i)]\<rparr>)" for e i
    using respond_moves [OF inv, of ChannelCreateR h "h_tag (cc_hdr m)" e i] by (simp add: counts_def)
  have a: "moves s ?x t"
    if "gs_pending t = AList.update (gs_tag s) (ChanConstruct ?u) (gs_pending s)" "gs_tag t = gs_tag s + 1" "gs_out t = gs_out s"
      "\<And>q. q \<noteq> ?u \<Longrightarrow> gs_chan t q = gs_chan s q" "chan_view (gs_chan t ?u) = (Some h, h_tag (cc_hdr m), None, PENDING)"
      "gs_next_cuid t = ?u + 1" "gs_chan_table t = List.insert ?u (gs_chan_table s)" "rest_same s t" "pools_same s t" for t
    by (rule issue_chan [OF inv, where k = "ChanConstruct ?u" and p = ?u])
      (use that fresh_busy(2,3) [OF inv, of ?u] in \<open>auto simp: chan_view_def cnt_opt_def\<close>)
  show ?thesis
    unfolding chan_register_def chan_answer_def using r
    by (auto simp: wp_rules ls_input_def registered_def Let_def same_defs new_chan_def chan_view_def intro!: a split: option.splits sum.splits)
qed

lemma registered_trans:
  assumes "moves s {#} s1" "registered s1 x k r t"
  shows "registered s x k r t"
  using assms moves_trans [OF assms(1)] by (auto simp: registered_def split: option.splits)

lemma chan_construct_registers:
  assumes inv: "gs_inv s"
  shows "wp (chan_construct m h None True) (registered s (cnt h (h_tag (cc_hdr m))) ChanConstruct) (\<lambda>_ _. True) s"
proof -
  let ?Q = "registered s (cnt h (h_tag (cc_hdr m))) ChanConstruct"
  have r: "moves s (cnt h (h_tag (cc_hdr m)))
      (s\<lparr>gs_tag := gs_tag s + 1, gs_out := gs_out s @ [(h, Reply ChannelCreateR (gs_tag s) (h_tag (cc_hdr m)) e i)]\<rparr>)"
    if "gs_inv s" for s e i
    using respond_moves [OF that, of ChannelCreateR h "h_tag (cc_hdr m)" e i] by (simp add: counts_def)
  have m: "moves s {#} (s\<lparr>gs_proc_eval := a, gs_chan_eval := b\<rparr>)" for a b
    by (rule frame_moves [OF inv evals_frame [OF inv]]) (simp add: answered_def)
  have c: "wp (case x of None \<Rightarrow> chan_answer m h True FAIL NoInfo | Some (n, mu) \<Rightarrow> chan_register m h True n mu)
      ?Q (\<lambda>_. wp (sq (respond h ChannelCreateR (h_tag (cc_hdr m)) FAIL NoInfo) (ret None)) ?Q (\<lambda>_ _. True))
      (s\<lparr>gs_proc_eval := a, gs_chan_eval := b\<rparr>)" for x a b
  proof (cases x)
    case None
    have "moves s (cnt h (h_tag (cc_hdr m))) (s1\<lparr>gs_tag := gs_tag s1 + 1,
        gs_out := gs_out s1 @ [(h, Reply ChannelCreateR (gs_tag s1) (h_tag (cc_hdr m)) FAIL NoInfo)]\<rparr>)"
      if "s1 = s\<lparr>gs_proc_eval := a, gs_chan_eval := b\<rparr>" for s1
      using moves_trans [OF m r [OF moves_inv [OF m]]] unfolding that by simp
    from this [OF refl] show ?thesis by (simp add: None chan_answer_def wp_rules registered_def)
  next
    case (Some nm)
    obtain n mu where nm: "nm = (n, mu)" by (cases nm)
    show ?thesis unfolding Some nm
      using wp_mono [OF chan_register_registers [OF moves_inv [OF m]], where Q' = ?Q] registered_trans [OF m]
      by (simp add: wp_rules registered_def [where r = None])
  qed
  show ?thesis
    unfolding chan_construct_def wp_try_except wp_bnd wp_basic
  proof (cases "map_of (gs_chan_names s) (cc_user_name m)")
    case None
    then show "wp (case map_of (gs_chan_names s) (cc_user_name m) of
        Some u \<Rightarrow> if True then
            bnd (lift_res (\<lambda>s. if u \<in> set (gs_chan_table s) then Inr (cx_desc (gs_chan s u)) else Inl KeyError))
              (\<lambda>d. chan_answer m h True ALREADY (ChanInfo d))
          else ret (Some None)
      | None \<Rightarrow> bnd (channel_node m None) (\<lambda>x. case x of
          None \<Rightarrow> chan_answer m h True FAIL NoInfo
        | Some (n, mu) \<Rightarrow> chan_register m h True n mu))
      ?Q (\<lambda>_. wp (sq (respond h ChannelCreateR (h_tag (cc_hdr m)) FAIL NoInfo) (ret None)) ?Q (\<lambda>_ _. True)) s"
      by (simp add: wp_bnd) (rule channel_node_wp, rule c, simp add: wp_rules registered_def)
  qed (use r [OF inv] in \<open>simp add: wp_rules registered_def chan_answer_def\<close>)
qed

lemma frame_trans:
  assumes "frame s t" "frame t u"
  shows "frame s u"
proof -
  have b: "busy t = busy s" and c: "conts t = conts s" using frameD(3) [OF assms(1)] by (simp_all add: busy_def)
  have i: "inner (gs_proc t p) = inner (gs_proc s p)" if "ProcConstruct p \<in> conts s" for p
    using frameD(10) [OF assms(1)] in_busy [OF that] by (simp add: view_defs)
  show ?thesis unfolding frame_def
    using frameD [OF assms(1)] frameD [OF assms(2)] i by (auto simp: b c)
qed

text \<open>A channel that changes without changing anything else that counts.\<close>

definition quiet :: "gs \<Rightarrow> int \<Rightarrow> (hdl \<times> int) multiset \<Rightarrow> gs \<Rightarrow> bool" where
  "quiet s u x t \<longleftrightarrow> frame s t \<and> answered t = answered s + x \<and> gs_proc t = gs_proc s \<and>
     (\<forall>c. c \<noteq> u \<longrightarrow> chan_view (gs_chan t c) = chan_view (gs_chan s c))"

lemma quiet_step:
  assumes "gs_inv s" "quiet s u x t" "frame t t'" "answered t' = answered t + y" "gs_proc t' = gs_proc t"
    "\<And>c. c \<noteq> u \<Longrightarrow> chan_view (gs_chan t' c) = chan_view (gs_chan t c)"
  shows "quiet s u (x + y) t'"
  using assms frame_trans [OF _ assms(3), of s] by (auto simp: quiet_def)

lemma quiet_inv: "gs_inv s \<Longrightarrow> quiet s u x t \<Longrightarrow> gs_inv t"
  using frame_inv by (auto simp: quiet_def)

lemma frame_out: "gs_inv s \<Longrightarrow> frame s (s\<lparr>gs_tag := gs_tag s + 1, gs_out := out\<rparr>)"
  using frame_self [of s] by (simp add: frame_def tables_in_range_def)

lemma answer_join_quiet:
  assumes "gs_inv s" "quiet s u x t"
  shows "wp (answer_join d j) (\<lambda>_. quiet s u x) (\<lambda>_ _. True) t"
  unfolding answer_join_def wp_bnd
proof (rule wp_get_reply_handle)
  fix b
  let ?r = "h_r_c_uid (cj_hdr j)"
  let ?t = "t\<lparr>gs_chan := (gs_chan t)(?r := gs_chan t ?r\<lparr>cx_attached := b\<rparr>)\<rparr>"
  have inv: "gs_inv t" by (rule quiet_inv [OF assms])
  have "quiet s u (x + {#}) ?t"
    by (rule quiet_step [OF assms attach_frame [OF inv]]) (simp_all add: chan_view_def)
  then have q: "quiet s u x ?t" by simp
  have "quiet s u (x + {#}) (?t\<lparr>gs_tag := gs_tag ?t + 1, gs_out := gs_out ?t @ [(h, Reply ChannelJoinR (gs_tag ?t) ref e i)]\<rparr>)" for h ref e i
    by (rule quiet_step [OF assms(1) q frame_out [OF quiet_inv [OF assms(1) q]]]) (simp_all add: answered_def)
  then show "wp (respond (handle_of (gs_test_conns t) ?r) ChannelJoinR (h_tag (cj_hdr j)) SUCCESS (ChanInfo d))
    (\<lambda>_. quiet s u x) (\<lambda>_ _. True) ?t" by (simp add: wp_rules)
qed simp

lemma answer_joins_quiet:
  assumes "gs_inv s" "quiet s u x t"
  shows "wp (for_each js (answer_join d)) (\<lambda>_. quiet s u x) (\<lambda>_ _. True) t"
  by (rule wp_for_each [where I = "\<lambda>_. quiet s u x"]) (simp_all add: assms answer_join_quiet)

lemma chan_frame:
  assumes "gs_inv s" "RChan u \<notin> busy s" "u \<notin> starting s"
  shows "frame s (s\<lparr>gs_chan := (gs_chan s)(u := c)\<rparr>)"
  by (rule frameI [OF assms(1)]) (use assms(2,3) inv_tables [OF assms(1)] in \<open>auto simp: tables_in_range_def\<close>)

lemma chan_quiet:
  assumes "gs_inv s" "RChan u \<notin> busy s" "u \<notin> starting s" "quiet s u x t"
  shows "quiet s u x (t\<lparr>gs_chan := (gs_chan t)(u := c)\<rparr>)"
proof -
  have f: "frame s t" using assms(4) by (simp add: quiet_def)
  have "busy t = busy s" using frameD(3) [OF f] by (simp add: busy_def)
  moreover have "starting t = starting s"
    using frameD(3) [OF f] assms(4) by (simp add: starting_def quiet_def)
  ultimately have "quiet s u (x + {#}) (t\<lparr>gs_chan := (gs_chan t)(u := c)\<rparr>)"
    using assms by (intro quiet_step [OF assms(1,4) chan_frame]) (simp_all add: quiet_inv [OF assms(1,4)])
  then show ?thesis by simp
qed

lemma wp_upd_eqs:
  "wp (upd_chan u f) R E = (\<lambda>s. R () (s\<lparr>gs_chan := (gs_chan s)(u := f (gs_chan s u))\<rparr>))"
  "wp (upd_proc u g) R E = (\<lambda>s. R () (s\<lparr>gs_proc := (gs_proc s)(u := g (gs_proc s u))\<rparr>))"
  by (intro ext, simp add: wp_rules)+

lemmas wp_eta = wp_eqs wp_upd_eqs

lemma quiet_out:
  assumes "gs_inv s" "quiet s u x t"
  shows "quiet s u (x + counted (h, r)) (t\<lparr>gs_tag := gs_tag t + 1, gs_out := gs_out t @ [(h, r)]\<rparr>)"
  by (rule quiet_step [OF assms frame_out [OF quiet_inv [OF assms]]]) (simp_all add: answered_def)

lemma quiet_refl: "gs_inv s \<Longrightarrow> quiet s u {#} s"
  using frame_self [of s] by (simp add: quiet_def)

lemma chan_complete_quiet:
  assumes inv: "gs_inv s" and free: "RChan u \<notin> busy s" "u \<notin> starting s"
  shows "wp (chan_complete_construction u res) (\<lambda>_. quiet s u (owed_of s (ChanConstruct u))) (\<lambda>_ _. True) s"
proof (cases res)
  case (Some r)
  let ?x = "owed_of s (ChanConstruct u)"
  note cq = chan_quiet [OF inv free]
  have tail: "wp (sq (bnd (gets (\<lambda>s. held (gs_pending_channel_joins s) n)) (\<lambda>js. for_each js (answer_join d))) (ret True))
      (\<lambda>_ t. quiet s u ?x (t\<lparr>gs_chan := (gs_chan t)(u := gs_chan t u\<lparr>cx_reply_queue := None\<rparr>)\<rparr>)) (\<lambda>_ _. True) t"
    if "quiet s u ?x t" for t n d
    unfolding wp_sq wp_bnd wp_basic
    by (rule wp_mono [OF answer_joins_quiet [OF inv that]]) (simp_all add: cq)
  show ?thesis
  proof (cases "cx_reply_queue (gs_chan s u)")
    case None
    then show ?thesis using Some
      by (simp add: chan_complete_construction_def set_chan_state_def del_chan_def wp_rules split: ls_result.splits sum.splits)
  next
    case (Some q)
    have a: "quiet s u ?x (s\<lparr>gs_chan := (gs_chan s)(u := c), gs_tag := gs_tag s + 1,
        gs_out := gs_out s @ [(q, Reply ChannelCreateR (gs_tag s) (h_tag (cc_hdr (cx_request (gs_chan s u)))) e i)]\<rparr>)" for c e i
      using quiet_out [OF inv cq [OF quiet_refl [OF inv]], of q "Reply ChannelCreateR (gs_tag s) (h_tag (cc_hdr (cx_request (gs_chan s u)))) e i" c]
        Some by (simp add: cnt_opt_def)
    show ?thesis
    proof (cases r)
      case LSSuccess
      show ?thesis using a [THEN tail] cq [OF a, THEN tail] Some \<open>res = Some r\<close> LSSuccess
        by (simp add: chan_complete_construction_def wp_rules wp_eta)
    next
      case LSFail
      show ?thesis using Some \<open>res = Some r\<close> LSFail free inv_tables [OF inv]
        by (auto simp: chan_complete_construction_def set_chan_state_def del_chan_def wp_rules quiet_def answered_def cnt_opt_def
            tables_in_range_def intro!: frameI [OF inv] split: sum.splits)
    qed
  qed
qed (simp add: chan_complete_construction_def wp_rules)

lemma chan_destroyed_moves:
  assumes inv: "gs_inv s" and free: "RChan u \<notin> busy s" "u \<notin> starting s"
  shows "wp (chan_complete_destruction u ok) (\<lambda>_. moves s (owed_of s (ChanDestruct u))) (\<lambda>_ _. True) s"
  using free inv_tables [OF inv]
  by (auto simp: chan_complete_destruction_def set_chan_state_def wp_rules cnt_opt_def answered_def tables_in_range_def req_tag_def
      intro!: frame_moves [OF inv] frameI [OF inv] split: option.splits)

text \<open>A channel that is asked for destruction: it loses a reference and that is answered, or it is to go.\<close>

lemma chan_released:
  assumes inv: "gs_inv s" and act: "cd_state (cx_desc (gs_chan s u)) = ACTIVE"
    and t: "gs_tag t = gs_tag s + 1" "gs_pending t = gs_pending s" "gs_out t = gs_out s @ [x]"
      "\<And>q. q \<noteq> u \<Longrightarrow> gs_chan t q = gs_chan s q" "gs_chan_table t = gs_chan_table s" "gs_next_cuid t = gs_next_cuid s"
      "pools_same s t" "rest_same s t"
  shows "moves s (counted x) t"
proof (rule frame_moves [OF inv])
  show "frame s t"
  proof (rule frameI [OF inv])
    show "chan_view (gs_chan t c) = chan_view (gs_chan s c)" if "RChan c \<in> busy s \<or> c \<in> starting s" for c
      using that active_free(2,3) [OF inv act] t(4) by (cases "c = u") simp_all
  qed (use t inv_tables [OF inv] in \<open>simp_all add: same_defs tables_in_range_def\<close>)
qed (use t in \<open>simp add: answered_def\<close>)

lemma chan_condemned:
  assumes inv: "gs_inv s" and act: "cd_state (cx_desc (gs_chan s u)) = ACTIVE" and u: "u < gs_next_cuid s"
    and t: "gs_tag t = gs_tag s + 1" "gs_pending t = AList.update (gs_tag s) (ChanDestruct u) (gs_pending s)" "gs_out t = gs_out s"
      "\<And>q. q \<noteq> u \<Longrightarrow> gs_chan t q = gs_chan s q" "gs_chan_table t = gs_chan_table s" "gs_next_cuid t = gs_next_cuid s"
      "cx_reply_queue (gs_chan t u) = Some h" "cx_destroy_request (gs_chan t u) = Some m" "cd_state (cx_desc (gs_chan t u)) = PENDING"
      "pools_same s t" "rest_same s t"
  shows "moves s (cnt h (h_tag (nm_hdr m))) t"
  by (rule issue_chan [OF inv, where k = "ChanDestruct u" and p = u])
    (use t u active_free(2,3) [OF inv act] in \<open>auto simp: cnt_opt_def req_tag_def\<close>)

lemma chan_destroy_moves:
  assumes inv: "gs_inv s"
  shows "wp (chan_destroy m dec_ref h) (\<lambda>_. moves s (cnt h (h_tag (nm_hdr m)))) (\<lambda>_ _. True) s"
proof -
  let ?x = "cnt h (h_tag (nm_hdr m))"
  have r: "moves s ?x (s\<lparr>gs_tag := gs_tag s + 1,
      gs_out := gs_out s @ [(h, Reply ChannelDestroyR (gs_tag s) (h_tag (nm_hdr m)) e i)]\<rparr>)" for e i
    using respond_moves [OF inv, of ChannelDestroyR h "h_tag (nm_hdr m)" e i] by (simp add: counts_def)
  have aq: "moves s ?x t"
    if "cd_state (cx_desc (gs_chan s u)) = ACTIVE" "u < gs_next_cuid s" "gs_tag t = gs_tag s + 1"
      "gs_pending t = AList.update (gs_tag s) (ChanDestruct u) (gs_pending s) \<and> gs_out t = gs_out s \<and>
         cd_state (cx_desc (gs_chan t u)) = PENDING \<or>
       gs_pending t = gs_pending s \<and> gs_out t = gs_out s @ [(h, Reply ChannelDestroyR (gs_tag s) (h_tag (nm_hdr m)) SUCCESS NoInfo)]"
      "\<And>q. q \<noteq> u \<Longrightarrow> gs_chan t q = gs_chan s q" "gs_chan_table t = gs_chan_table s" "gs_next_cuid t = gs_next_cuid s"
      "cx_reply_queue (gs_chan t u) = Some h" "cx_destroy_request (gs_chan t u) = Some m"
      "pools_same s t" "rest_same s t" for t u
    using that(4)
  proof (elim disjE conjE)
    assume "gs_out t = gs_out s @ [(h, Reply ChannelDestroyR (gs_tag s) (h_tag (nm_hdr m)) SUCCESS NoInfo)]" "gs_pending t = gs_pending s"
    from chan_released [OF inv that(1,3) this(2,1)] that show ?thesis by simp
  qed (rule chan_condemned [OF inv that(1,2)]; use that in simp)
  have range: "u < gs_next_cuid s" if "u \<in> set (gs_chan_table s)" for u
    using that inv_tables [OF inv] by (simp add: tables_in_range_def)
  have body: "wp (case cd_state (cx_desc (gs_chan s u)) of
         DEAD \<Rightarrow> sq (respond h ChannelDestroyR (h_tag (nm_hdr m)) BUSY NoInfo) (ret False)
       | PENDING \<Rightarrow> sq (respond h ChannelDestroyR (h_tag (nm_hdr m)) BUSY NoInfo) (ret False)
       | ACTIVE \<Rightarrow>
           (let counted = cc_ref_count (cx_request (gs_chan s u)) \<and> dec_ref;
                n = (if counted then cx_refcnt (gs_chan s u) - 1 else cx_refcnt (gs_chan s u)) in
            sq (upd_chan u (\<lambda>c. c\<lparr>cx_destroy_request := Some m, cx_reply_queue := Some h, cx_refcnt := n\<rparr>))
            (if counted \<and> n \<noteq> 0 then sq (respond h ChannelDestroyR (h_tag (nm_hdr m)) SUCCESS NoInfo) (ret False)
             else sq (upd_chan u (set_chan_state PENDING))
                 (bnd tag_inc (\<lambda>t.
                  sq (set_pending t (ChanDestruct u))
                  (bnd (ls_input (cd_node (cx_desc (gs_chan s u)))) (\<lambda>l. sq (send_ls l (LSChannelDestroy t u)) (ret True))))))))
      (\<lambda>_. moves s ?x) (\<lambda>_ _. True) s" if "u \<in> set (gs_chan_table s)" for u
    using r range [OF that]
    by (cases "cd_state (cx_desc (gs_chan s u))")
      (auto simp: wp_rules ls_input_def Let_def set_chan_state_def same_defs intro!: aq [of u])
  show ?thesis
    unfolding chan_destroy_def resolve_cuid_def resolve_uid_def using r body
    by (auto simp: wp_rules split: option.splits)
qed

end
