(* ===== verification/GSProcesses.thy ===== *)
theory GSProcesses
  imports GSAnswers
begin

text \<open>
  What starting, killing and the end of a process do to the account of requests.
\<close>

section \<open>Starting a process\<close>

text \<open>Harmless and silent.\<close>

definition silent :: "gs \<Rightarrow> gs \<Rightarrow> bool" where
  "silent s t \<longleftrightarrow> frame s t \<and> answered t = answered s"

lemma silent_trans: "silent s t \<Longrightarrow> silent t u \<Longrightarrow> silent s u"
  using frame_trans by (auto simp: silent_def)

lemma silent_inv: "gs_inv s \<Longrightarrow> silent s t \<Longrightarrow> gs_inv t"
  using frame_inv by (auto simp: silent_def)

lemma silent_refl: "gs_inv s \<Longrightarrow> silent s s"
  using frame_self by (simp add: silent_def)

definition inner_made :: "gs \<Rightarrow> int \<Rightarrow> gs \<Rightarrow> bool" where
  "inner_made s u t \<longleftrightarrow> silent s t \<and> u = gs_next_cuid s \<and> gs_next_cuid t = gs_next_cuid s + 1 \<and> gs_proc t = gs_proc s \<and>
     (\<forall>c. c \<noteq> u \<longrightarrow> gs_chan t c = gs_chan s c) \<and> cd_state (cx_desc (gs_chan t u)) = PENDING \<and> cx_reply_queue (gs_chan t u) = Some Absorb"

lemma chan_born:
  assumes inv: "gs_inv s" and t: "gs_pending t = gs_pending s" "gs_tag s \<le> gs_tag t" "gs_next_cuid t = gs_next_cuid s + 1"
    "\<And>c. c \<noteq> gs_next_cuid s \<Longrightarrow> gs_chan t c = gs_chan s c" "set (gs_chan_table t) \<subseteq> insert (gs_next_cuid s) (set (gs_chan_table s))"
    "pools_same s t" "rest_same s t"
  shows "frame s t"
proof (rule frameI [OF inv])
  show "tables_in_range t" using t inv_tables [OF inv] by (fastforce simp: tables_in_range_def same_defs)
  show "chan_view (gs_chan t c) = chan_view (gs_chan s c)" if "RChan c \<in> busy s \<or> c \<in> starting s" for c
    using that t(4) fresh_busy(2,3) [OF inv, of c] by (cases "c = gs_next_cuid s") auto
qed (use t in \<open>simp_all add: same_defs\<close>)

lemma absorbed:
  assumes "gs_inv s"
  shows "silent s (s\<lparr>gs_tag := gs_tag s + 1, gs_out := gs_out s @ [(Absorb, Reply k (gs_tag s) ref e i)]\<rparr>)"
  using frame_out [OF assms] by (simp add: silent_def cnt_def)

lemma inner_channel_made:
  assumes inv: "gs_inv s"
  shows "wp (inner_channel m node) (inner_made s) (\<lambda>_. silent s) s"
proof -
  have b: "silent s t" if "gs_pending t = gs_pending s" "gs_tag t = gs_tag s + 1" "gs_next_cuid t = gs_next_cuid s + 1" "gs_out t = gs_out s"
    "\<And>c. c \<noteq> gs_next_cuid s \<Longrightarrow> gs_chan t c = gs_chan s c" "gs_chan_table t = List.insert (gs_next_cuid s) (gs_chan_table s)"
    "pools_same s t" "rest_same s t" for t
    using chan_born [OF inv, of t] that by (auto simp: silent_def answered_def)
  show ?thesis
    using absorbed [OF inv] silent_refl [OF inv]
    by (simp add: inner_channel_def chan_construct_def channel_node_def chan_register_def chan_answer_def wp_rules Let_def inner_made_def
        new_chan_def split: option.splits sum.splits) (auto simp: same_defs intro!: b)
qed

lemma tag_silent: "gs_inv s \<Longrightarrow> silent s (s\<lparr>gs_tag := gs_tag s + 1\<rparr>)"
  using frame_self [of s] by (simp add: silent_def frame_def tables_in_range_def)

lemma inner_made_after_tag: "gs_inv s \<Longrightarrow> inner_made (s\<lparr>gs_tag := gs_tag s + 1\<rparr>) u t \<Longrightarrow> inner_made s u t"
  using silent_trans [OF tag_silent] by (auto simp: inner_made_def)

lemma pipe_made:
  assumes inv: "gs_inv s"
  shows "wp (bnd tag_inc (\<lambda>t. bnd (lift_res (\<lambda>_. r)) (\<lambda>mu. inner_channel (m t mu) node))) (inner_made s) (\<lambda>_. silent s) s"
proof -
  let ?s = "s\<lparr>gs_tag := gs_tag s + 1\<rparr>"
  have i: "gs_inv ?s" and si: "silent s ?s" using tag_silent [OF inv] silent_inv [OF inv] by blast+
  have "wp (inner_channel (m (gs_tag s) mu) node) (inner_made s) (\<lambda>_. silent s) ?s" for mu
    by (rule wp_mono [OF inner_channel_made [OF i]]) (use inner_made_after_tag [OF inv] silent_trans [OF si] in auto)
  then show ?thesis using si by (simp add: wp_rules split: sum.splits)
qed

text \<open>A process whose channels are being made; they are new, pending and answer to nobody.\<close>

definition started :: "gs \<Rightarrow> int \<Rightarrow> (hdl \<times> int) \<Rightarrow> int \<Rightarrow> gs \<Rightarrow> bool" where
  "started s u x n t \<longleftrightarrow> silent s t \<and> n \<le> gs_tag t \<and> gs_next_puid s \<le> u \<and> RProc u \<notin> busy s \<and> u < gs_next_puid t \<and> pr_state (pz_desc (gs_proc t u)) = PENDING \<and>
     (pz_reply_queue (gs_proc t u), h_tag (pp_hdr (pz_request (gs_proc t u)))) = x \<and>
     (\<forall>c\<in>inner (gs_proc t u). gs_next_cuid s \<le> c \<and> c < gs_next_cuid t \<and>
        cd_state (cx_desc (gs_chan t c)) = PENDING \<and> cx_reply_queue (gs_chan t c) = Some Absorb)"

definition adds_channel :: "(int option \<Rightarrow> proc_ctx \<Rightarrow> proc_ctx) \<Rightarrow> bool" where
  "adds_channel f \<longleftrightarrow> (\<forall>c p. inner (f (Some c) p) \<subseteq> insert c (inner p) \<and> pz_desc (f (Some c) p) = pz_desc p \<and>
     pz_request (f (Some c) p) = pz_request p \<and> pz_reply_queue (f (Some c) p) = pz_reply_queue p)"

lemma adds_channel_fields [simp]:
  "adds_channel (\<lambda>c p. p\<lparr>pz_gs_ret := c\<rparr>)" "adds_channel (\<lambda>c p. p\<lparr>pz_stdin := c\<rparr>)"
  "adds_channel (\<lambda>c p. p\<lparr>pz_stdout := c\<rparr>)" "adds_channel (\<lambda>c p. p\<lparr>pz_stderr := c\<rparr>)"
  by (auto simp: adds_channel_def inner_def)

lemma proc_frame:
  assumes inv: "gs_inv s" and "RProc u \<notin> busy s" "pr_state (pz_desc (gs_proc s u)) = DEAD \<Longrightarrow> u < gs_next_puid s \<Longrightarrow> pr_state (pz_desc p) = DEAD"
  shows "frame s (s\<lparr>gs_proc := (gs_proc s)(u := p)\<rparr>)"
  by (rule frameI [OF inv]) (use assms inv_tables [OF inv] in \<open>auto simp: tables_in_range_def\<close>)

lemma frame_busy: "frame s t \<Longrightarrow> busy t = busy s"
  using frameD(3) by (simp add: busy_def)

lemma started_optional:
  assumes inv: "gs_inv s" and st: "started s u x n t" and f: "adds_channel f"
    and mk: "\<And>s. gs_inv s \<Longrightarrow> wp mk (inner_made s) (\<lambda>_. silent s) s"
  shows "wp (optional b mk f u) (\<lambda>_. started s u x n) (\<lambda>_. silent s) t"
proof (cases b)
  case True
  have si: "silent s t" using st by (simp add: started_def)
  have it: "gs_inv t" by (rule silent_inv [OF inv si])
  have "started s u x n (t'\<lparr>gs_proc := (gs_proc t')(u := f (Some c) (gs_proc t' u))\<rparr>)" if c: "inner_made t c t'" for c t'
  proof -
    have si': "silent s t'" using si c silent_trans by (auto simp: inner_made_def)
    have i': "gs_inv t'" by (rule silent_inv [OF inv si'])
    have fp: "inner (f (Some c) p) \<subseteq> insert c (inner p)" "pz_desc (f (Some c) p) = pz_desc p" "pz_request (f (Some c) p) = pz_request p"
      "pz_reply_queue (f (Some c) p) = pz_reply_queue p" for p using f by (auto simp: adds_channel_def)
    have "RProc u \<notin> busy t'" using st si' frame_busy by (auto simp: started_def silent_def)
    from proc_frame [OF i' this, of "f (Some c) (gs_proc t' u)"] have "silent t' (t'\<lparr>gs_proc := (gs_proc t')(u := f (Some c) (gs_proc t' u))\<rparr>)"
      by (simp add: silent_def fp)
    from silent_trans [OF si' this] have "silent s (t'\<lparr>gs_proc := (gs_proc t')(u := f (Some c) (gs_proc t' u))\<rparr>)" .
    moreover have le: "gs_next_cuid s \<le> gs_next_cuid t" "gs_next_puid t \<le> gs_next_puid t'" "gs_tag t \<le> gs_tag t'"
      using si c frameD(6) [of s t] frameD(2,7) [of t t'] by (auto simp: silent_def inner_made_def)
    moreover have "gs_next_cuid s \<le> d \<and> d < gs_next_cuid t' \<and> cd_state (cx_desc (gs_chan t' d)) = PENDING \<and>
        cx_reply_queue (gs_chan t' d) = Some Absorb" if "d \<in> inner (f (Some c) (gs_proc t' u))" for d
    proof (cases "d = c")
      case True
      then show ?thesis using c le by (auto simp: inner_made_def)
    next
      case False
      then have "d \<in> inner (gs_proc t u)" "gs_chan t' d = gs_chan t d"
        using that fp(1) [of "gs_proc t' u"] c by (auto simp: inner_made_def)
      then show ?thesis using st c by (auto simp: started_def inner_made_def)
    qed
    ultimately show ?thesis using st c f by (auto simp: started_def inner_made_def adds_channel_def)
  qed
  then have "wp mk (\<lambda>c t'. started s u x n (t'\<lparr>gs_proc := (gs_proc t')(u := f (Some c) (gs_proc t' u))\<rparr>)) (\<lambda>_. silent s) t"
    by (rule wp_mono [OF mk [OF it]]) (use silent_trans [OF si] in auto)
  then show ?thesis using True by (simp add: optional_def wp_rules wp_eta)
qed (use st in \<open>simp add: optional_def wp_rules\<close>)

lemma mk_ls_proc_create_started:
  assumes inv: "gs_inv s" and st: "started s u x n t"
  shows "wp (mk_ls_proc_create u tg) (\<lambda>_. started s u x n) (\<lambda>_. silent s) t"
proof -
  have "wp (sq (optional b1 (bnd tag_inc (\<lambda>t. bnd (lift_res (\<lambda>_. r)) (\<lambda>mu. inner_channel (m t mu) node))) (\<lambda>c p. p\<lparr>pz_gs_ret := c\<rparr>) u)
       (sq (optional b2 (pipe_channel s1 u node cap) (\<lambda>c p. p\<lparr>pz_stdin := c\<rparr>) u)
       (sq (optional b3 (pipe_channel s2 u node cap) (\<lambda>c p. p\<lparr>pz_stdout := c\<rparr>) u)
       (sq (optional b4 (pipe_channel s3 u node cap) (\<lambda>c p. p\<lparr>pz_stderr := c\<rparr>) u) (gets g)))))
     (\<lambda>_. started s u x n) (\<lambda>_. silent s) t" for b1 b2 b3 b4 r m node cap s1 s2 s3 and g :: "gs \<Rightarrow> ls_msg"
    by (intro wp_then [where P = "started s u x n"] started_optional [OF inv]) (simp_all add: pipe_channel_def pipe_made st wp_basic)
  then show ?thesis by (simp add: mk_ls_proc_create_def wp_bnd wp_basic Let_def)
qed

lemma sends_silent: "gs_inv s \<Longrightarrow> silent s (s\<lparr>gs_pending_sends := ps\<rparr>)"
  using frame_self [of s] by (simp add: silent_def frame_def tables_in_range_def answered_def)

lemma started_tag: "gs_inv s \<Longrightarrow> started s u x n t \<Longrightarrow> started s u x n (t\<lparr>gs_tag := gs_tag t + 1\<rparr>)"
  using silent_trans [OF _ tag_silent, of s t] silent_inv [of s t] by (simp add: started_def)

lemma started_sends: "gs_inv s \<Longrightarrow> started s u x n t \<Longrightarrow> started s u x n (t\<lparr>gs_pending_sends := ps\<rparr>)"
  using silent_trans [OF _ sends_silent, of s t] silent_inv [of s t] by (simp add: started_def)

lemma started_silent: "started s u x n t \<Longrightarrow> silent s t"
  by (simp add: started_def)

lemma send_start_started:
  assumes inv: "gs_inv s" and st: "started s u x n t"
  shows "wp (send_start u) (\<lambda>tg t'. tg = gs_tag t \<and> gs_tag t < gs_tag t' \<and> started s u x n t') (\<lambda>_. silent s) t"
proof -
  let ?n = "gs_tag t + 1"
  have "started s u x ?n (t\<lparr>gs_tag := ?n\<rparr>)"
    using started_tag [OF inv st] by (simp add: started_def)
  from mk_ls_proc_create_started [OF inv this] show ?thesis unfolding send_start_def wp_bnd wp_elem(1) wp_basic
  proof (rule wp_mono)
    fix m t'
    assume t': "started s u x ?n t'"
    then have "gs_tag t < gs_tag t'" "started s u x n t'" using st by (auto simp: started_def)
    then show "wp (ls_input (pr_node (pz_desc (gs_proc t' u))))
        (\<lambda>l. wp (sq (send_ls l m) (ret (gs_tag t))) (\<lambda>tg t'. tg = gs_tag t \<and> gs_tag t < gs_tag t' \<and> started s u x n t') (\<lambda>_. silent s))
        (\<lambda>_. silent s) t'"
      by (simp add: ls_input_def wp_rules started_sends [OF inv] started_silent)
  qed
qed

lemma started_issue:
  assumes inv: "gs_inv s" and st: "started s u (h, ref) n t" and tg: "gs_tag s \<le> tg" "tg < gs_tag t"
  shows "moves s (cnt h ref) (t\<lparr>gs_pending := AList.update tg (ProcConstruct u) (gs_pending t)\<rparr>)"
proof (rule issue [OF inv, where tg = tg and k = "ProcConstruct u"])
  have f: "frame s t" "answered t = answered s" using st by (simp_all add: started_def silent_def)
  have p: "gs_pending t = gs_pending s" and c: "conts t = conts s" by (rule frameD [OF f(1)])+
  let ?t = "t\<lparr>gs_pending := AList.update tg (ProcConstruct u) (gs_pending t)\<rparr>"
  have t: "?t\<lparr>gs_pending := gs_pending s\<rparr> = t" using p by simp
  show "frame s (?t\<lparr>gs_pending := gs_pending s\<rparr>)" unfolding t by (rule f)
  show "cont_ok (?t\<lparr>gs_pending := gs_pending s\<rparr>) (ProcConstruct u)"
    unfolding t using st fresh_busy(2) [OF inv] by (auto simp: started_def busy_def c)
  show "inner (gs_proc ?t q) \<inter> starting s = {}" if "ProcConstruct u = ProcConstruct q" for q
    using that st fresh_busy(3) [OF inv] by (auto simp: started_def)
qed (use assms frameD(1) [of s t] in \<open>auto simp: started_def silent_def answered_def\<close>)

lemma other_silent:
  assumes "gs_inv s"
  shows "silent s (s\<lparr>gs_proc_eval := a, gs_chan_eval := b\<rparr>)" "silent s (s\<lparr>gs_resilient := r\<rparr>)" "silent s (s\<lparr>gs_circ_index := i\<rparr>)"
    "silent s (s\<lparr>gs_head_puid := hs, gs_state := st\<rparr>)" "silent s (s\<lparr>gs_next_puid := gs_next_puid s + 1\<rparr>)"
  using frame_self [OF assms] by (auto simp: silent_def frame_def tables_in_range_def answered_def)

definition placed :: "gs \<Rightarrow> gs \<Rightarrow> bool" where
  "placed s t \<longleftrightarrow> silent s t \<and> gs_next_puid t = gs_next_puid s \<and> gs_proc t = gs_proc s"

lemma placed_trans: "placed s t \<Longrightarrow> placed t u \<Longrightarrow> placed s u"
  using silent_trans by (auto simp: placed_def)

lemma place_request_placed:
  assumes inv: "gs_inv s"
  shows "wp (place_request m) (\<lambda>m' t. placed s t \<and> pp_hdr m' = pp_hdr m) (\<lambda>_. silent s) s"
proof -
  have "wp (case (pp_layout m, pp_policy m) of
       (None, Some p) \<Rightarrow> bnd (evaluate_with gs_proc_eval set_proc_eval p) (\<lambda>l. ret (m\<lparr>pp_layout := Some l\<rparr>))
     | _ \<Rightarrow> ret m) (\<lambda>m1 t. placed s t \<and> pp_hdr m1 = pp_hdr m) (\<lambda>_. silent s) s"
    using silent_refl [OF inv] other_silent(1) [OF inv]
    by (auto simp: wp_rules wp_eta set_proc_eval_def placed_def intro!: evaluate_with_wp split: option.splits)
  then show ?thesis unfolding place_request_def wp_bnd
  proof (rule wp_mono)
    fix m1 t
    assume a: "placed s t \<and> pp_hdr m1 = pp_hdr m"
    let ?t = "t\<lparr>gs_resilient := (gs_resilient t \<or> pp_resilient m1)\<rparr>"
    have "placed s ?t" using a other_silent(2) [OF silent_inv [OF inv]] placed_trans [of s t ?t] by (simp add: placed_def)
    then show "wp (sq (modify (\<lambda>s. s\<lparr>gs_resilient := (gs_resilient s \<or> pp_resilient m1)\<rparr>))
       (bnd (lift_res (\<lambda>_. case global_policy of Inl e \<Rightarrow> Inl e
          | Inr g \<Rightarrow> (case pp_policy m1 of None \<Rightarrow> Inr g | Some p \<Rightarrow> merge (Some g) p))) (\<lambda>p.
        ret (m1\<lparr>pp_policy := Some p\<rparr>)))) (\<lambda>m' t. placed s t \<and> pp_hdr m' = pp_hdr m) (\<lambda>_. silent s) t"
      using a by (simp add: wp_rules placed_def split: sum.splits)
  qed
qed

lemma choose_localservices_placed:
  assumes inv: "gs_inv s"
  shows "wp (choose_localservices l) (\<lambda>_. placed s) (\<lambda>_. silent s) s"
  using silent_refl [OF inv] other_silent(3) [OF inv]
  by (auto simp: choose_localservices_def wp_rules placed_def split: option.splits sum.splits)

lemma registered_started:
  assumes inv: "gs_inv s" and t: "silent s t" "gs_next_puid t = gs_next_puid s + 1" "gs_proc t = gs_proc s"
  defines "u \<equiv> gs_next_puid s"
  shows "started s u (h, h_tag (pp_hdr m)) (gs_tag t) (t\<lparr>gs_proc := (gs_proc t)(u := new_proc m h u n hu), gs_proc_names := ns,
     gs_proc_table := List.insert u (gs_proc_table t)\<rparr>)"
proof -
  have free: "RProc u \<notin> busy s" using fresh_busy(4) [OF inv] by (simp add: u_def)
  have pc: "ProcConstruct u \<notin> conts s" "ProcKill u \<notin> conts s" using free in_busy [of _ s] by force+
  have "silent s (t\<lparr>gs_proc := (gs_proc t)(u := new_proc m h u n hu), gs_proc_names := ns, gs_proc_table := List.insert u (gs_proc_table t)\<rparr>)"
    using t free pc by (auto simp: silent_def frame_def tables_in_range_def answered_def u_def)
  then show ?thesis using free t(2) by (simp add: started_def new_proc_def inner_def u_def)
qed

lemma silent_moves: "gs_inv s \<Longrightarrow> silent s t \<Longrightarrow> moves s {#} t"
  by (rule frame_moves) (simp_all add: silent_def)

lemma silent_respond:
  assumes inv: "gs_inv s" and t: "silent s t" and k: "counts k"
  shows "moves s (cnt h ref) (t\<lparr>gs_tag := gs_tag t + 1, gs_out := gs_out t @ [(h, Reply k (gs_tag t) ref e i)]\<rparr>)"
  using moves_trans [OF silent_moves [OF inv t] respond_moves [OF silent_inv [OF inv t], of k h ref e i]] k by simp

lemma proc_enter_moves:
  assumes inv: "gs_inv s" and t: "silent s t" "gs_next_puid t = gs_next_puid s + 1" "gs_proc t = gs_proc s"
  shows "wp (proc_enter m h (gs_next_puid s) n hu) (\<lambda>_. moves s (cnt h (h_tag (pp_hdr m)))) (\<lambda>_. silent s) t"
proof -
  let ?u = "gs_next_puid s"
  let ?t = "t\<lparr>gs_proc := (gs_proc t)(?u := new_proc m h ?u n hu), gs_proc_names := AList.update (pp_user_name m) ?u (gs_proc_names t),
     gs_proc_table := List.insert ?u (gs_proc_table t)\<rparr>"
  have st: "started s ?u (h, h_tag (pp_hdr m)) (gs_tag t) ?t" by (rule registered_started [OF inv t])
  have le: "gs_tag s \<le> gs_tag t" using t frameD(2) [of s t] by (simp add: silent_def)
  show ?thesis unfolding proc_enter_def wp_sq wp_basic wp_bnd
    by (rule wp_mono [OF send_start_started [OF inv st]]) (use started_issue [OF inv] le in \<open>auto simp: wp_rules\<close>)
qed

lemma launch_moves:
  assumes inv: "gs_inv s" and t: "silent s t" "gs_next_puid t = gs_next_puid s + 1" "gs_proc t = gs_proc s"
  shows "wp (bnd (place_request m) (\<lambda>m2. bnd (choose_localservices (pp_layout m2)) (\<lambda>(n, hu). proc_enter m2 h (gs_next_puid s) n hu)))
     (\<lambda>_. moves s (cnt h (h_tag (pp_hdr m)))) (\<lambda>_. silent s) t"
proof -
  let ?Q = "\<lambda>_. moves s (cnt h (h_tag (pp_hdr m)))" and ?E = "\<lambda>_::exn. silent s"
  have pl: "silent s t'" "gs_next_puid t' = gs_next_puid s + 1" "gs_proc t' = gs_proc s" if "placed t t'" for t'
    using that t silent_trans by (auto simp: placed_def)
  have c: "wp (choose_localservices (pp_layout m2)) (\<lambda>x. wp (case x of (n, hu) \<Rightarrow> proc_enter m2 h (gs_next_puid s) n hu) ?Q ?E) ?E t2"
    if "placed t t2" "pp_hdr m2 = pp_hdr m" for m2 t2
    by (rule wp_mono [OF choose_localservices_placed [OF silent_inv [OF inv pl(1) [OF that(1)]]]])
      (use proc_enter_moves [OF inv pl [OF placed_trans [OF that(1)]], of _ m2] silent_trans [OF pl(1) [OF that(1)]] that(2)
        in \<open>auto split: prod.splits\<close>)
  show ?thesis unfolding wp_bnd
    by (rule wp_mono [OF place_request_placed [OF silent_inv [OF inv t(1)]]])
      (use c silent_trans [OF t(1)] in auto)
qed

lemma proc_construct_moves:
  assumes inv: "gs_inv s"
  shows "wp (proc_construct m h) (\<lambda>_. moves s (cnt h (h_tag (pp_hdr m)))) (\<lambda>_ _. True) s"
proof -
  let ?x = "cnt h (h_tag (pp_hdr m))" and ?u = "gs_next_puid s"
  have resp: "moves s ?x (t\<lparr>gs_tag := gs_tag t + 1, gs_out := gs_out t @ [(h, Reply ProcessCreateR (gs_tag t) (h_tag (pp_hdr m)) e i)]\<rparr>)"
    if "silent s t" for t e i by (rule silent_respond [OF inv that]) (simp add: counts_def)
  have si: "silent s (s\<lparr>gs_next_puid := ?u + 1\<rparr>)" "silent s (s\<lparr>gs_next_puid := ?u + 1, gs_head_puid := hs, gs_state := rs\<rparr>)" for hs rs
    using frame_self [OF inv] by (auto simp: silent_def frame_def tables_in_range_def answered_def)
  have fin: "wp (bnd (place_request m1) (\<lambda>m2. bnd (choose_localservices (pp_layout m2)) (\<lambda>(n, hu). proc_enter m2 h ?u n hu)))
     (\<lambda>_. moves s ?x) (\<lambda>_. wp (respond h ProcessCreateR (h_tag (pp_hdr m)) FAIL NoInfo) (\<lambda>_. moves s ?x) (\<lambda>_ _. True)) t"
    if "silent s t" "gs_next_puid t = ?u + 1" "gs_proc t = gs_proc s" "pp_hdr m1 = pp_hdr m" for m1 t
    by (rule wp_mono [OF launch_moves [OF inv that(1-3)]]) (simp_all add: that(4) wp_rules resp)
  show ?thesis
    unfolding proc_construct_def wp_try_except
    using fin [OF si(1)] fin [OF si(2)] resp [OF silent_refl [OF inv]]
    by (auto simp: wp_sq wp_whenM wp_bnd wp_basic wp_frames wp_elem Let_def split: option.splits)
qed

section \<open>The end of a start\<close>

lemma silent_busy:
  assumes "silent s t"
  shows "busy t = busy s" "starting t = starting s"
proof -
  have f: "frame s t" using assms by (simp add: silent_def)
  show "busy t = busy s" by (rule frame_busy [OF f])
  have "inner (gs_proc t p) = inner (gs_proc s p)" if "ProcConstruct p \<in> conts s" for p
    using frameD(10) [OF f] in_busy [OF that] by (simp add: view_defs)
  then show "starting t = starting s" by (simp add: starting_def frameD(3) [OF f])
qed

lemma silent_upd_proc:
  assumes "silent s t" "RProc u \<notin> busy s" "pr_state (pz_desc (gs_proc s u)) \<noteq> DEAD"
  shows "silent s (t\<lparr>gs_proc := (gs_proc t)(u := p)\<rparr>)"
proof -
  have "ProcConstruct u \<notin> conts s" "ProcKill u \<notin> conts s" using assms(2) in_busy [of _ s] by force+
  then show ?thesis using assms by (auto simp: silent_def frame_def tables_in_range_def answered_def)
qed

definition running :: "gs \<Rightarrow> int \<Rightarrow> gs \<Rightarrow> bool" where
  "running s u t \<longleftrightarrow> silent s t \<and> pz_reply_queue (gs_proc t u) = pz_reply_queue (gs_proc s u) \<and>
     pz_request (gs_proc t u) = pz_request (gs_proc s u) \<and>
     (\<forall>c\<in>inner (gs_proc s u). cx_reply_queue (gs_chan t c) = None \<or> cx_reply_queue (gs_chan t c) = Some Absorb)"

definition startable :: "gs \<Rightarrow> int \<Rightarrow> bool" where
  "startable s u \<longleftrightarrow> gs_inv s \<and> RProc u \<notin> busy s \<and> cont_ok s (ProcConstruct u) \<and> inner (gs_proc s u) \<inter> starting s = {}"

lemma startableD:
  assumes "startable s u"
  shows "gs_inv s" "RProc u \<notin> busy s" "pr_state (pz_desc (gs_proc s u)) = PENDING"
    "c \<in> inner (gs_proc s u) \<Longrightarrow> RChan c \<notin> busy s" "c \<in> inner (gs_proc s u) \<Longrightarrow> c \<notin> starting s"
  using assms by (auto simp: startable_def busy_def)

lemma running_upd:
  assumes "startable s u" "running s u t" "pz_reply_queue p = pz_reply_queue (gs_proc t u)" "pz_request p = pz_request (gs_proc t u)"
  shows "running s u (t\<lparr>gs_proc := (gs_proc t)(u := p)\<rparr>)"
  using assms silent_upd_proc [OF _ startableD(2) [OF assms(1)], of t p] startableD(3) [OF assms(1)] by (simp add: running_def)

lemma chan_complete_queue: "wp (chan_complete_construction u res) (\<lambda>_ t. cx_reply_queue (gs_chan t u) = None) (\<lambda>_ _. True) s"
proof (cases res)
  case (Some r)
  show ?thesis unfolding chan_complete_construction_def Some option.case wp_bnd
    by (rule wp_mono [OF wp_True]) (simp_all add: wp_rules)
qed (simp add: chan_complete_construction_def wp_rules)

lemma running_chan:
  assumes st: "startable s u" and run: "running s u t" and c: "c \<in> inner (gs_proc s u)"
  shows "wp (chan_complete_construction c res) (\<lambda>_. running s u) (\<lambda>_ _. True) t"
proof -
  note inv = startableD(1) [OF st]
  have si: "silent s t" using run by (simp add: running_def)
  have it: "gs_inv t" by (rule silent_inv [OF inv si])
  have free: "RChan c \<notin> busy t" "c \<notin> starting t" using startableD(4,5) [OF st c] silent_busy [OF si] by simp_all
  have o: "owed_of t (ChanConstruct c) = {#}" using run c by (auto simp: running_def cnt_opt_def cnt_def)
  have "running s u t'" if q: "quiet t c (owed_of t (ChanConstruct c)) t'" and n: "cx_reply_queue (gs_chan t' c) = None" for t'
  proof -
    have "silent s t'" using q o by (intro silent_trans [OF si]) (simp add: quiet_def silent_def)
    moreover have "cx_reply_queue (gs_chan t' d) = cx_reply_queue (gs_chan t d)" if "d \<noteq> c" for d
      using q that by (simp add: quiet_def chan_view_def)
    then have "cx_reply_queue (gs_chan t' d) = None \<or> cx_reply_queue (gs_chan t' d) = cx_reply_queue (gs_chan t d)" for d
      using n by (cases "d = c") simp_all
    ultimately show ?thesis using run q by (fastforce simp: running_def quiet_def)
  qed
  then show ?thesis by (intro wp_mono [OF wp_conj [OF chan_complete_quiet [OF it free] chan_complete_queue]]) auto
qed

lemma running_refcnt: "running s u t \<Longrightarrow> startable s u \<Longrightarrow> c \<in> inner (gs_proc s u) \<Longrightarrow>
    running s u (t\<lparr>gs_chan := (gs_chan t)(c := gs_chan t c\<lparr>cx_refcnt := n\<rparr>)\<rparr>)"
  using silent_trans [of s t] silent_busy [of s t] startableD(4,5) [of s u c] silent_inv [of s t] startableD(1) [of s u]
    chan_frame [of t c "gs_chan t c\<lparr>cx_refcnt := n\<rparr>"] by (auto simp: running_def silent_def)

lemma running_respond:
  assumes st: "startable s u" and run: "running s u t"
  shows "wp (respond (pz_reply_queue (gs_proc t u)) ProcessCreateR (h_tag (pp_hdr (pz_request (gs_proc t u)))) e i)
     (\<lambda>_. moves s (owed_of s (ProcConstruct u))) (\<lambda>_ _. True) t"
  using silent_respond [OF startableD(1) [OF st], of t ProcessCreateR] run by (simp add: wp_rules running_def counts_def)

lemma fail_moves:
  assumes st: "startable s u" and run: "running s u t"
  shows "wp (fail_construction u) (\<lambda>_. moves s (owed_of s (ProcConstruct u))) (\<lambda>_ _. True) t"
proof -
  have "running s u (t\<lparr>gs_proc := (gs_proc t)(u := set_proc_state DEAD (gs_proc t u))\<rparr>)"
    by (rule running_upd [OF st run]) (simp_all add: set_proc_state_def)
  from running_respond [OF st this] show ?thesis by (simp add: fail_construction_def wp_rules)
qed

lemma complete_pipe_moves:
  assumes st: "startable s u" and run: "running s u t" and c: "set_option c \<subseteq> inner (gs_proc s u)"
    and rest: "\<And>d t. running s u t \<Longrightarrow> wp (rest d) (\<lambda>_. moves s (owed_of s (ProcConstruct u))) (\<lambda>_ _. True) t"
  shows "wp (complete_pipe c r rest u) (\<lambda>_. moves s (owed_of s (ProcConstruct u))) (\<lambda>_ _. True) t"
proof (cases c)
  case (Some cu)
  have cu: "cu \<in> inner (gs_proc s u)" using c Some by simp
  show ?thesis unfolding complete_pipe_def Some option.case wp_bnd
    by (rule wp_mono [OF running_chan [OF st run cu]])
      (use fail_moves [OF st] rest running_refcnt [OF _ st cu] in \<open>auto simp: wp_sq wp_elem wp_bnd wp_basic\<close>)
qed (use rest run in \<open>simp add: complete_pipe_def\<close>)

lemma children_silent:
  assumes "gs_inv s"
  shows "silent s (s\<lparr>gs_proc := (gs_proc s)(p := gs_proc s p\<lparr>pz_desc := pz_desc (gs_proc s p)\<lparr>pr_live_children := ch\<rparr>\<rparr>)\<rparr>)"
  using inv_tables [OF assms]
  by (auto simp: silent_def proc_view_def inner_def tables_in_range_def intro!: frameI [OF assms])

lemma ping_moves:
  assumes st: "startable s u" and run: "running s u t"
  shows "wp (send_gspingproc u) (\<lambda>_. running s u) (\<lambda>_ _. True) t"
proof (cases "pz_gs_ret (gs_proc t u)")
  case (Some cu)
  note inv = startableD(1) [OF st]
  let ?t = "t\<lparr>gs_proc := (gs_proc t)(u := gs_proc t u\<lparr>pz_desc := pz_desc (gs_proc t u)\<lparr>pr_gs_ret_cuid := Some cu\<rparr>\<rparr>)\<rparr>"
  have r: "running s u ?t" by (rule running_upd [OF st run]) simp_all
  have i: "gs_inv ?t" by (rule silent_inv [OF inv]) (use r in \<open>simp add: running_def\<close>)
  have "frame ?t (?t\<lparr>gs_tag := gs_tag ?t + 1, gs_chan := (gs_chan ?t)(cu := gs_chan ?t cu\<lparr>cx_attached := True\<rparr>), gs_out := out\<rparr>)" for out
    by (rule frameI [OF i]) (use inv_tables [OF i] in \<open>auto simp: tables_in_range_def chan_view_def\<close>)
  then have "silent ?t (?t\<lparr>gs_tag := gs_tag ?t + 1, gs_chan := (gs_chan ?t)(cu := gs_chan ?t cu\<lparr>cx_attached := True\<rparr>),
      gs_out := gs_out ?t @ [(ChanQ cu, GSPingProc (gs_tag t))]\<rparr>)" by (simp add: silent_def answered_def)
  from silent_trans [OF _ this, of s] r have "running s u (?t\<lparr>gs_tag := gs_tag ?t + 1,
      gs_chan := (gs_chan ?t)(cu := gs_chan ?t cu\<lparr>cx_attached := True\<rparr>), gs_out := gs_out ?t @ [(ChanQ cu, GSPingProc (gs_tag t))]\<rparr>)"
    by (simp add: running_def)
  then show ?thesis using Some by (simp add: send_gspingproc_def wp_rules split: sum.splits)
qed (simp add: send_gspingproc_def wp_rules)

lemma running_child:
  assumes st: "startable s u" and run: "running s u t"
  shows "running s u (t\<lparr>gs_proc := (gs_proc t)(p := gs_proc t p\<lparr>pz_desc := pz_desc (gs_proc t p)\<lparr>pr_live_children := ch\<rparr>\<rparr>)\<rparr>)"
  using silent_trans [of s t] children_silent [OF silent_inv [OF startableD(1) [OF st]], of t p ch] run by (auto simp: running_def)

lemma finish_moves:
  assumes st: "startable s u" and run: "running s u t"
  shows "wp (finish_construction u sin sout serr) (\<lambda>_. moves s (owed_of s (ProcConstruct u))) (\<lambda>_ _. True) t"
proof -
  let ?Q = "\<lambda>_. moves s (owed_of s (ProcConstruct u))" and ?E = "\<lambda>(_::exn) (_::gs). True"
  have a: "running s u (t\<lparr>gs_proc := (gs_proc t)(u := gs_proc t u\<lparr>pz_desc := d\<rparr>)\<rparr>)" for d
    by (rule running_upd [OF st run]) simp_all
  have tail: "wp (sq (bnd (gets (\<lambda>s. pp_make_inf_channels (pz_request (gs_proc s u)))) (\<lambda>b. whenM b (send_gspingproc u)))
      (bnd (gets (\<lambda>s. gs_proc s u)) (\<lambda>p.
       sq (respond (pz_reply_queue p) ProcessCreateR (h_tag (pp_hdr (pz_request p))) SUCCESS (ProcInfo (pz_desc p))) (ret True)))) ?Q ?E t"
    if "running s u t" for t
    using ping_moves [OF st that] that running_respond [OF st]
    by (intro wp_then [where P = "running s u"]) (simp_all add: wp_bnd wp_basic wp_whenM wp_sq wp_eta)
  show ?thesis unfolding finish_construction_def
  proof (rule wp_then [where P = "running s u"])
    fix t1
    assume r: "running s u t1"
    show "wp (bnd (gets (\<lambda>s. pr_p_p_uid (pz_desc (gs_proc s u)))) (\<lambda>par.
      sq (bnd (gets gs_proc_table) (\<lambda>t. whenM (par \<in> set t) (upd_proc par
           (\<lambda>p. p\<lparr>pz_desc := (pz_desc p)\<lparr>pr_live_children := insert u (pr_live_children (pz_desc p))\<rparr>\<rparr>))))
      (sq (bnd (gets (\<lambda>s. pp_make_inf_channels (pz_request (gs_proc s u)))) (\<lambda>b. whenM b (send_gspingproc u)))
      (bnd (gets (\<lambda>s. gs_proc s u)) (\<lambda>p.
       sq (respond (pz_reply_queue p) ProcessCreateR (h_tag (pp_hdr (pz_request p))) SUCCESS (ProcInfo (pz_desc p)))
          (ret True)))))) ?Q ?E t1"
      unfolding wp_bnd [of "gets _"] wp_basic
      by (rule wp_then [where P = "running s u"]) (use r running_child [OF st r] tail in \<open>simp_all add: wp_bnd wp_basic wp_whenM wp_elem\<close>)
  qed (use a in \<open>simp add: wp_elem\<close>)
qed

lemma start_failed_moves:
  assumes st: "startable s u"
  shows "wp (start_failed u) (\<lambda>_. moves s (owed_of s (ProcConstruct u))) (\<lambda>_ _. True) s"
proof -
  note inv = startableD(1) [OF st]
  let ?s = "s\<lparr>gs_proc := (gs_proc s)(u := set_proc_state DEAD (gs_proc s u))\<rparr>" and ?q = "pz_reply_queue (gs_proc s u)"
  let ?ref = "h_tag (pp_hdr (pz_request (gs_proc s u)))"
  have s1: "silent s ?s" by (rule silent_upd_proc [OF silent_refl [OF inv] startableD(2) [OF st]]) (simp add: startableD(3) [OF st])
  have s2: "silent s (t\<lparr>gs_head_puid := hs, gs_state := rs\<rparr>)" if "silent s t" for t hs rs
    by (rule silent_trans [OF that other_silent(4) [OF silent_inv [OF inv that]]])
  have s3: "silent s (t\<lparr>gs_proc_table := removeAll u (gs_proc_table t), gs_proc_names := ns\<rparr>)" if "silent s t" for t ns
    using that inv_tables [OF silent_inv [OF inv that]] by (auto simp: silent_def frame_def tables_in_range_def answered_def)
  have resp: "moves s (owed_of s (ProcConstruct u))
      (t\<lparr>gs_tag := gs_tag t + 1, gs_out := gs_out t @ [(?q, Reply ProcessCreateR (gs_tag t) ?ref e i)]\<rparr>)" if "moves s {#} t" for t e i
    using moves_trans [OF that respond_moves [OF moves_inv [OF that], of ProcessCreateR ?q ?ref e i]] by (simp add: counts_def)
  have destroy: "wp (chan_destroy m False Absorb) (\<lambda>_ t. moves s (owed_of s (ProcConstruct u))
      (t\<lparr>gs_tag := gs_tag t + 1, gs_out := gs_out t @ [(?q, Reply ProcessCreateR (gs_tag t) ?ref e i)]\<rparr>)) (\<lambda>_ _. True) (t\<lparr>gs_tag := gs_tag t + 1\<rparr>)"
    if "silent s t" for t m e i
  proof -
    have m: "moves s {#} (t\<lparr>gs_tag := gs_tag t + 1\<rparr>)"
      by (rule silent_moves [OF inv silent_trans [OF that tag_silent [OF silent_inv [OF inv that]]]])
    show ?thesis by (rule wp_mono [OF chan_destroy_moves [OF moves_inv [OF m]]])
      (use resp moves_trans [OF m] in \<open>auto simp: cnt_def\<close>)
  qed
  have tail: "wp (sq (del_proc u) (bnd (gets (\<lambda>s. gs_proc s u)) (\<lambda>p.
      sq (whenM (pp_make_inf_channels (pz_request p)) (bnd tag_inc (\<lambda>t. case pz_gs_ret p of
           None \<Rightarrow> raise AttributeError
         | Some cu \<Rightarrow> sq (chan_destroy \<lparr>nm_hdr = \<lparr>h_tag = t, h_p_uid = GS_PUID, h_r_c_uid = 0\<rparr>, nm_user_name = [], nm_uid = cu\<rparr> False Absorb)
             (ret ()))))
      (sq (respond (pz_reply_queue p) ProcessCreateR (h_tag (pp_hdr (pz_request p))) FAIL NoInfo) (ret False)))))
      (\<lambda>_. moves s (owed_of s (ProcConstruct u))) (\<lambda>_ _. True) t"
    if "silent s t" "pz_reply_queue (gs_proc t u) = ?q" "h_tag (pp_hdr (pz_request (gs_proc t u))) = ?ref" for t
    using destroy [OF s3 [OF that(1)]] resp [OF silent_moves [OF inv s3 [OF that(1)]]] that
    by (simp add: del_proc_def wp_sq wp_bnd wp_basic wp_whenM wp_elem wp_eta split: option.splits sum.splits)
  show ?thesis unfolding start_failed_def
    using tail [OF s1] tail [OF s2 [OF s1]]
    by (simp add: wp_sq wp_elem wp_bnd wp_basic wp_whenM drop_head_def set_proc_state_def)
qed

lemma proc_complete_moves:
  assumes st: "startable s u"
  shows "wp (proc_complete_construction u ok r) (\<lambda>_. moves s (owed_of s (ProcConstruct u))) (\<lambda>_ _. True) s"
proof (cases ok)
  case True
  note inv = startableD(1) [OF st]
  let ?Q = "\<lambda>_. moves s (owed_of s (ProcConstruct u))" and ?E = "\<lambda>(_::exn) (_::gs). True"
  let ?p = "set_proc_state ACTIVE (gs_proc s u)"
  let ?s = "s\<lparr>gs_proc := (gs_proc s)(u := ?p)\<rparr>"
  have "running s u s" using silent_refl [OF inv] st by (auto simp: running_def startable_def)
  from running_upd [OF st this, of ?p] have run: "running s u ?s" by (simp add: set_proc_state_def)
  have sub: "set_option (pz_gs_ret ?p) \<subseteq> inner (gs_proc s u)" "set_option (pz_stdin ?p) \<subseteq> inner (gs_proc s u)"
    "set_option (pz_stdout ?p) \<subseteq> inner (gs_proc s u)" "set_option (pz_stderr ?p) \<subseteq> inner (gs_proc s u)"
    by (auto simp: inner_def set_proc_state_def)
  have pipes: "wp (complete_pipe (pz_stdin ?p) (cr_stdin r) (\<lambda>sin.
              complete_pipe (pz_stdout ?p) (cr_stdout r) (\<lambda>sout.
              complete_pipe (pz_stderr ?p) (cr_stderr r) (\<lambda>serr.
                finish_construction u sin sout serr) u) u) u) ?Q ?E t" if "running s u t" for t
    by (intro complete_pipe_moves [OF st _ sub(2)] complete_pipe_moves [OF st _ sub(3)] complete_pipe_moves [OF st _ sub(4)]
        finish_moves [OF st] that)
  have "wp (case pz_gs_ret ?p of None \<Rightarrow> ret True | Some cu \<Rightarrow> chan_complete_construction cu (cr_gs_ret r)) (\<lambda>_. running s u) ?E ?s"
    using run running_chan [OF st run] sub(1) by (auto simp: wp_basic split: option.splits)
  then have "wp (bnd (case pz_gs_ret ?p of None \<Rightarrow> ret True | Some cu \<Rightarrow> chan_complete_construction cu (cr_gs_ret r)) (\<lambda>made.
         if \<not> made then fail_construction u
         else complete_pipe (pz_stdin ?p) (cr_stdin r) (\<lambda>sin.
              complete_pipe (pz_stdout ?p) (cr_stdout r) (\<lambda>sout.
              complete_pipe (pz_stderr ?p) (cr_stderr r) (\<lambda>serr.
                finish_construction u sin sout serr) u) u) u)) ?Q ?E ?s"
    by (rule wp_bind) (use pipes fail_moves [OF st] in \<open>simp only: wp_if split: if_split, blast\<close>)
  then show ?thesis unfolding proc_complete_construction_def using True by (simp add: wp_sq wp_elem wp_bnd [of "gets _"] wp_basic cong: if_cong)
qed (use start_failed_moves [OF st] in \<open>simp add: proc_complete_construction_def\<close>)

section \<open>Killing a process\<close>

lemma proc_condemned:
  assumes inv: "gs_inv s" and act: "pr_state (pz_desc (gs_proc s u)) = ACTIVE" "u < gs_next_puid s"
    and t: "gs_tag t = gs_tag s + 1" "gs_pending t = AList.update (gs_tag s) (ProcKill u) (gs_pending s)" "gs_out t = gs_out s"
      "gs_proc t = (gs_proc s)(u := p)" "pr_state (pz_desc p) = PENDING" "pz_reply_queue p = h" "pz_destroy_request p = Some m"
      "chans_same s t" "pools_same s t" "gs_proc_table t = gs_proc_table s" "gs_next_puid t = gs_next_puid s"
      "gs_pending_exits t = gs_pending_exits s" "gs_pending_join t = gs_pending_join s" "gs_test_conns t = gs_test_conns s"
  shows "moves s (cnt h (h_tag (nm_hdr m))) t"
proof (rule issue [OF inv, where tg = "gs_tag s" and k = "ProcKill u"])
  have free: "RProc u \<notin> busy s" by (rule active_free(4) [OF inv act(1)])
  show "frame s (t\<lparr>gs_pending := gs_pending s\<rparr>)"
    by (rule frameI [OF inv]) (use t act free inv_tables [OF inv] in \<open>auto simp: same_defs tables_in_range_def\<close>)
  show "about (ProcKill u) \<notin> busy s" using free by simp
qed (use t act in \<open>auto simp: answered_def req_tag_def\<close>)

lemma proc_kill_moves:
  assumes inv: "gs_inv s"
  shows "wp (proc_kill m sig hide h) (\<lambda>_. moves s (cnt h (h_tag (nm_hdr m)))) (\<lambda>_ _. True) s"
proof -
  have r: "moves s (cnt h (h_tag (nm_hdr m))) (s\<lparr>gs_tag := gs_tag s + 1,
      gs_out := gs_out s @ [(h, Reply ProcessKillR (gs_tag s) (h_tag (nm_hdr m)) e i)]\<rparr>)" for e i
    by (rule silent_respond [OF inv silent_refl [OF inv]]) (simp add: counts_def)
  have range: "u < gs_next_puid s" if "u \<in> set (gs_proc_table s)" for u
    using that inv_tables [OF inv] by (simp add: tables_in_range_def)
  have k: "wp (case pr_state (pz_desc (gs_proc s u)) of
         DEAD \<Rightarrow> respond h ProcessKillR (h_tag (nm_hdr m)) ERR_DEAD (ExitCode (pr_ecode (pz_desc (gs_proc s u))))
       | PENDING \<Rightarrow> respond h ProcessKillR (h_tag (nm_hdr m)) ERR_PENDING NoInfo
       | ACTIVE \<Rightarrow>
           sq (upd_proc u (\<lambda>p. set_proc_state PENDING (p\<lparr>pz_destroy_request := Some m, pz_reply_queue := h\<rparr>)))
           (bnd tag_inc (\<lambda>t.
            sq (set_pending t (ProcKill u))
            (bnd (ls_input (pr_node (pz_desc (gs_proc s u)))) (\<lambda>l. send_ls l (LSProcessKill t u sig hide))))))
      (\<lambda>_. moves s (cnt h (h_tag (nm_hdr m)))) (\<lambda>_ _. True) s" if "u \<in> set (gs_proc_table s)" for u
    using r range [OF that]
    by (cases "pr_state (pz_desc (gs_proc s u))")
      (auto simp: wp_rules ls_input_def set_proc_state_def same_defs intro!: proc_condemned [OF inv, where u = u])
  show ?thesis unfolding proc_kill_def resolve_puid_def resolve_uid_def
    using r k by (auto simp: wp_rules split: option.splits)
qed

lemma proc_killed_moves:
  assumes inv: "gs_inv s" and free: "RProc u \<notin> busy s"
  shows "wp (proc_complete_kill u ok) (\<lambda>_. moves s (owed_of s (ProcKill u))) (\<lambda>_ _. True) s"
  using free inv_tables [OF inv]
  by (auto simp: proc_complete_kill_def set_proc_state_def wp_rules req_tag_def answered_def tables_in_range_def
      intro!: frame_moves [OF inv] frameI [OF inv] split: option.splits)

end
