(* ===== verification/GSOnce.thy ===== *)
theory GSOnce
  imports GSProcesses
begin

text \<open>
  Every request that global services takes in is answered exactly once, or it is held exactly once:
  the joins, the exit of a process, all handlers, the timeouts and the turns of the main loop.
\<close>

section \<open>Answers of local services\<close>

lemma run_cont_moves:
  assumes inv: "gs_inv s" and free: "about k \<notin> busy s" and ok: "cont_ok s k"
    and chan: "\<And>c. about k = RChan c \<Longrightarrow> c \<notin> starting s"
    and proc: "\<And>u. k = ProcConstruct u \<Longrightarrow> inner (gs_proc s u) \<inter> starting s = {}"
  shows "wp (run_cont k a) (\<lambda>_ t. moves s (owed_of s k) t \<and> ((\<exists>u. k = ProcConstruct u) \<longleftrightarrow> (\<exists>m r. a = ProcMade m r))) (\<lambda>_ _. True) s"
proof -
  have drop: "wp (sq m (ret ())) Q (\<lambda>_ _. True) s" if "wp m (\<lambda>_. Q ()) (\<lambda>_ _. True) s" for Q and m :: "(gs, bool) pym"
    using that by (simp add: wp_sq wp_eta)
  have quiet: "wp (chan_complete_construction u res) (\<lambda>_. moves s (owed_of s (ChanConstruct u))) (\<lambda>_ _. True) s"
    if "k = ChanConstruct u" for u res
    by (rule wp_mono [OF chan_complete_quiet [OF inv]]) (use free chan that in \<open>auto simp: quiet_def intro!: frame_moves [OF inv]\<close>)
  show ?thesis
  proof (cases k)
    case (ProcConstruct u)
    have "startable s u" using assms ProcConstruct by (simp add: startable_def)
    from proc_complete_moves [OF this] show ?thesis using ProcConstruct
      by (cases a) (auto simp: run_cont_def wp_basic intro!: drop)
  qed (use pool_complete_moves [OF inv] pool_destroyed_moves [OF inv] chan_destroyed_moves [OF inv] proc_killed_moves [OF inv] quiet
      free chan in \<open>cases a; auto simp: run_cont_def wp_basic intro!: drop\<close>)+
qed

lemma handle_ls_answer_moves:
  assumes inv: "gs_inv s"
  shows "wp (handle_ls_answer ref a) (\<lambda>_ t. \<exists>k. map_of (gs_pending s) ref = Some k \<and>
      ((\<exists>u. k = ProcConstruct u) \<longleftrightarrow> (\<exists>m r. a = ProcMade m r)) \<and> about k \<notin> busy (s\<lparr>gs_pending := AList.delete ref (gs_pending s)\<rparr>) \<and>
      moves (s\<lparr>gs_pending := AList.delete ref (gs_pending s)\<rparr>) (owed_of s k) t) (\<lambda>_ _. True) s"
proof (cases "map_of (gs_pending s) ref")
  case (Some k)
  let ?s = "s\<lparr>gs_pending := AList.delete ref (gs_pending s)\<rparr>"
  note pc = pop_cont [OF inv Some]
  have "wp (run_cont k a) (\<lambda>_ t. moves ?s (owed_of ?s k) t \<and> ((\<exists>u. k = ProcConstruct u) \<longleftrightarrow> (\<exists>m r. a = ProcMade m r))) (\<lambda>_ _. True) ?s"
    by (rule run_cont_moves [OF pc(1,3,4)]) (use pc(5,6) in auto)
  then have "wp (run_cont k a) (\<lambda>_ t. \<exists>k'. k = k' \<and> ((\<exists>u. k' = ProcConstruct u) \<longleftrightarrow> (\<exists>m r. a = ProcMade m r)) \<and>
      about k' \<notin> busy ?s \<and> moves ?s (owed_of s k') t) (\<lambda>_ _. True) ?s"
    by (rule wp_mono) (use pc(3) in auto)
  then show ?thesis using Some by (simp add: handle_ls_answer_def pop_pending_def wp_bnd wp_sq wp_basic)
qed (simp add: handle_ls_answer_def pop_pending_def wp_rules)

section \<open>The waiting joins\<close>

lemma owed_joins_sum:
  assumes "items_ok m" "finite D" "set (d_keys (pm_items m)) \<subseteq> D"
  shows "owed_joins test m = (\<Sum>k\<in>D. image_mset (owed_join test) (mset (held m k)))"
proof -
  let ?f = "\<lambda>vs. image_mset (owed_join test) (mset vs)"
  have d: "distinct (map fst (pm_items m))" using assms(1) by (simp add: items_ok_def d_keys_def)
  have "owed_joins test m = (\<Sum>x\<in>set (pm_items m). ?f (snd x))"
    unfolding owed_joins_def using d by (simp add: sum_list_distinct_conv_sum_set distinct_map)
  also have "\<dots> = (\<Sum>x\<in>set (pm_items m). ?f (held m (fst x)))"
    using d by (intro sum.cong) (auto simp: held_def map_of_is_SomeI)
  also have "\<dots> = (\<Sum>k\<in>fst ` set (pm_items m). ?f (held m k))"
    using d by (simp add: sum.reindex distinct_map)
  also have "\<dots> = (\<Sum>k\<in>D. ?f (held m k))"
  proof (rule sum.mono_neutral_left)
    show "\<forall>k\<in>D - fst ` set (pm_items m). ?f (held m k) = {#}"
    proof
      fix k
      assume "k \<in> D - fst ` set (pm_items m)"
      then have "map_of (pm_items m) k = None" by (simp add: map_of_eq_None_iff)
      then show "?f (held m k) = {#}" by (simp add: held_def)
    qed
  qed (use assms(2,3) in \<open>auto simp: d_keys_def\<close>)
  finally show ?thesis .
qed

lemma owed_joins_update:
  assumes ok: "items_ok m" "items_ok m'" and h: "held m' = (held m)(k := vs)"
  shows "owed_joins test m' + image_mset (owed_join test) (mset (held m k)) = owed_joins test m + image_mset (owed_join test) (mset vs)"
proof -
  let ?D = "insert k (set (d_keys (pm_items m)) \<union> set (d_keys (pm_items m')))" and ?g = "\<lambda>h. image_mset (owed_join test) (mset h)"
  have fin: "finite (?D - {k})" by simp
  have "owed_joins test m = (\<Sum>i\<in>?D. ?g (held m i))" "owed_joins test m' = (\<Sum>i\<in>?D. ?g (held m' i))"
    by (rule owed_joins_sum [OF ok(1)]; auto)+ (rule owed_joins_sum [OF ok(2)]; auto)
  then have "owed_joins test m = ?g (held m k) + (\<Sum>i\<in>?D - {k}. ?g (held m i))"
    "owed_joins test m' = ?g (held m' k) + (\<Sum>i\<in>?D - {k}. ?g (held m' i))" by (simp_all add: sum.insert_remove)
  moreover have "(\<Sum>i\<in>?D - {k}. ?g (held m' i)) = (\<Sum>i\<in>?D - {k}. ?g (held m i))" by (rule sum.cong) (auto simp: h)
  ultimately show ?thesis by (simp add: h ac_simps)
qed

definition dead :: "gs \<Rightarrow> int set" where
  "dead s = {u. u < gs_next_puid s \<and> pr_state (pz_desc (gs_proc s u)) = DEAD}"

lemma set_joins:
  assumes inv: "gs_inv s" and f: "frame s t" "answered t = answered s + y" and m: "pm_inv m" "stale_in (dead t) m"
    and e: "owed_joins (gs_test_conns s) (gs_pending_join s) + x = owed_joins (gs_test_conns s) m + y"
  shows "moves s x (t\<lparr>gs_pending_join := m\<rparr>)"
proof -
  have it: "gs_inv t" by (rule frame_inv [OF f(1) inv])
  have "gs_inv (t\<lparr>gs_pending_join := m\<rparr>)"
  proof -
    have "conts (t\<lparr>gs_pending_join := m\<rparr>) = conts t" by (simp add: conts_def)
    moreover have "cont_ok (t\<lparr>gs_pending_join := m\<rparr>) k = cont_ok t k" for k by (cases k) (simp_all add: conts_def)
    ultimately have "pending_ok (t\<lparr>gs_pending_join := m\<rparr>)" using it
      by (simp add: gs_inv_def pending_ok_def tags_ok_def conts_ok_def uniq_ok_def inner_ok_def)
    then show ?thesis using it m by (simp add: gs_inv_def tables_in_range_def joins_ok_def dead_def)
  qed
  moreover have "owed_conts (t\<lparr>gs_pending_join := m\<rparr>) = owed_conts s"
  proof -
    have "owed_of (t\<lparr>gs_pending_join := m\<rparr>) k = owed_of t k" for k by (cases k) simp_all
    then have "owed_conts (t\<lparr>gs_pending_join := m\<rparr>) = owed_conts t" by (simp add: owed_conts_def)
    moreover have "owed t = owed s" by (rule frame_owed [OF f(1) inv])
    ultimately show ?thesis using frameD(16,17) [OF f(1)] by (simp add: owed_def)
  qed
  then have "account (t\<lparr>gs_pending_join := m\<rparr>) = account s + x"
    using f(2) e frameD(17) [OF f(1)] by (simp add: account_def answered_def ac_simps)
  moreover have "grows s (t\<lparr>gs_pending_join := m\<rparr>)" using frame_grows [OF f(1)] by (simp add: grows_def)
  ultimately show ?thesis using frameD(15,17) [OF f(1)] by (simp add: moves_def)
qed

lemma joins_okD:
  assumes "gs_inv s"
  shows "pm_inv (gs_pending_join s)" "stale_in (dead s) (gs_pending_join s)" "items_ok (gs_pending_join s)"
  using assms by (simp_all add: gs_inv_def joins_ok_def dead_def pm_inv_but_def)

lemma handle_not_absorb: "handle_of test r \<noteq> Absorb"
  by (simp add: handle_of_def)

lemma cnt_handle: "cnt (handle_of test r) ref = {#(handle_of test r, ref)#}"
  using handle_not_absorb by (simp add: cnt_def)

text \<open>A join that comes in is not one that waits already.\<close>

definition fresh_join :: "gs \<Rightarrow> join_req \<Rightarrow> bool" where
  "fresh_join s m \<longleftrightarrow> (\<forall>x\<in>set (pm_items (gs_pending_join s)). m \<notin> set (snd x))"

lemma fresh_joinD: "fresh_join s m \<Longrightarrow> m \<notin> set (held (gs_pending_join s) u)"
  by (cases "map_of (pm_items (gs_pending_join s)) u") (fastforce simp: fresh_join_def held_def dest: map_of_SomeD)+

lemma put_join_moves:
  assumes inv: "gs_inv s" and u: "u \<in> set (gs_proc_table s)" "pr_state (pz_desc (gs_proc s u)) \<noteq> DEAD"
    and m: "m \<notin> set (held (gs_pending_join s) u)"
  shows "moves s {#owed_join (gs_test_conns s) m#} (s\<lparr>gs_pending_join := pm_put now u m l (gs_pending_join s)\<rparr>)"
proof (rule set_joins [OF inv frame_self [OF inv], where y = "{#}"])
  let ?j = "gs_pending_join s"
  note j = joins_okD [OF inv]
  have "u \<notin> dead s" using u(2) by (simp add: dead_def)
  from put_refines [OF j(1,2) this m, of now l] show "pm_inv (pm_put now u m l ?j)" "stale_in (dead s) (pm_put now u m l ?j)" by simp_all
  have h: "held (pm_put now u m l ?j) = (held ?j)(u := held ?j u @ [m])" by (rule ext) (simp add: held_put [OF m])
  from owed_joins_update [OF j(3) items_ok_put [OF j(3)] h, of "gs_test_conns s"]
  show "owed_joins (gs_test_conns s) ?j + {#owed_join (gs_test_conns s) m#} = owed_joins (gs_test_conns s) (pm_put now u m l ?j) + {#}"
    by simp
qed simp

lemma handle_process_join_moves:
  assumes inv: "gs_inv s" and fr: "fresh_join s m"
  shows "wp (handle_process_join now m) (\<lambda>_. moves s {#owed_join (gs_test_conns s) m#}) (\<lambda>_ _. True) s"
proof -
  let ?n = "jr_named m"
  let ?tg = "h_tag (nm_hdr ?n)"
  have "wp (bnd (get_reply_handle (nm_hdr ?n)) (\<lambda>h.
     bnd (resolve_puid (nm_user_name ?n) (nm_uid ?n)) (\<lambda>(u, found).
     if \<not> found then respond h ProcessJoinR ?tg UNKNOWN NoInfo
     else if u = h_p_uid (nm_hdr ?n) then respond h ProcessJoinR ?tg SELF NoInfo
     else bnd (gets (\<lambda>s. pz_desc (gs_proc s u))) (\<lambda>d.
       if pr_state d = DEAD then respond h ProcessJoinR ?tg SUCCESS (ExitCode (pr_ecode d))
       else if 0 \<le> jr_timeout m \<and> jr_timeout m \<le> 100 then respond h ProcessJoinR ?tg TIMEOUT NoInfo
       else modify (\<lambda>s. s\<lparr>gs_pending_join := pm_put now u m (limit (jr_timeout m)) (gs_pending_join s)\<rparr>)))))
     (\<lambda>_. moves s (cnt (handle_of (gs_test_conns s) (h_r_c_uid (nm_hdr ?n))) ?tg)) (\<lambda>_ _. True) s"
  proof (rule with_handle [OF inv, where x = "\<lambda>h. cnt h ?tg"])
    fix h s1
    assume i: "gs_inv s1" and f: "frame s s1" and h: "h = handle_of (gs_test_conns s) (h_r_c_uid (nm_hdr ?n))"
      and an: "answered s1 = answered s"
    have r: "moves s1 (cnt h ?tg) (s1\<lparr>gs_tag := gs_tag s1 + 1, gs_out := gs_out s1 @ [(h, Reply ProcessJoinR (gs_tag s1) ?tg e i)]\<rparr>)" for e i
      by (rule silent_respond [OF i silent_refl [OF i]]) (simp add: counts_def)
    have p: "moves s1 (cnt h ?tg) (s1\<lparr>gs_pending_join := pm_put now u m l (gs_pending_join s1)\<rparr>)"
      if "u \<in> set (gs_proc_table s1)" "pr_state (pz_desc (gs_proc s1 u)) \<noteq> DEAD" for u l
    proof -
      have "m \<notin> set (held (gs_pending_join s1) u)" using fresh_joinD [OF fr] frameD(16) [OF f] by simp
      from put_join_moves [OF i that this, of now l] show ?thesis
        using frameD(17) [OF f] by (simp add: h cnt_handle owed_join_def)
    qed
    show "wp (bnd (resolve_puid (nm_user_name ?n) (nm_uid ?n)) (\<lambda>(u, found).
     if \<not> found then respond h ProcessJoinR ?tg UNKNOWN NoInfo
     else if u = h_p_uid (nm_hdr ?n) then respond h ProcessJoinR ?tg SELF NoInfo
     else bnd (gets (\<lambda>s. pz_desc (gs_proc s u))) (\<lambda>d.
       if pr_state d = DEAD then respond h ProcessJoinR ?tg SUCCESS (ExitCode (pr_ecode d))
       else if 0 \<le> jr_timeout m \<and> jr_timeout m \<le> 100 then respond h ProcessJoinR ?tg TIMEOUT NoInfo
       else modify (\<lambda>s. s\<lparr>gs_pending_join := pm_put now u m (limit (jr_timeout m)) (gs_pending_join s)\<rparr>))))
     (\<lambda>_. moves s1 (cnt h ?tg)) (\<lambda>_ _. True) s1"
      using r p unfolding resolve_puid_def resolve_uid_def by (auto simp: wp_rules split: option.splits)
  qed
  then show ?thesis by (simp add: handle_process_join_def Let_def cnt_handle owed_join_def)
qed

text \<open>A waiting join is answered.\<close>

definition answering :: "gs \<Rightarrow> (hdl \<times> int) multiset \<Rightarrow> gs \<Rightarrow> bool" where
  "answering s y t \<longleftrightarrow> frame s t \<and> answered t = answered s + y \<and> dead t = dead s"

lemma answering_inv: "gs_inv s \<Longrightarrow> answering s y t \<Longrightarrow> gs_inv t"
  using frame_inv by (auto simp: answering_def)

lemma answer_one:
  assumes inv: "gs_inv s" and a: "answering s y t"
  shows "wp (bnd (get_reply_handle (nm_hdr (jr_named j))) (\<lambda>h. respond h ProcessJoinR (h_tag (nm_hdr (jr_named j))) e i))
     (\<lambda>_. answering s (y + {#owed_join (gs_test_conns s) j#})) (\<lambda>_ _. True) t"
  unfolding wp_bnd
proof (rule wp_get_reply_handle)
  fix b
  let ?r = "h_r_c_uid (nm_hdr (jr_named j))"
  let ?t = "t\<lparr>gs_chan := (gs_chan t)(?r := gs_chan t ?r\<lparr>cx_attached := b\<rparr>)\<rparr>"
  have it: "gs_inv t" and f: "frame s t" using a answering_inv [OF inv a] by (simp_all add: answering_def)
  have f1: "frame s ?t" by (rule frame_trans [OF f attach_frame [OF it]])
  have "frame s (?t\<lparr>gs_tag := gs_tag ?t + 1, gs_out := out\<rparr>)" for out
    by (rule frame_trans [OF f1 frame_out [OF frame_inv [OF f1 inv]]])
  then show "wp (respond (handle_of (gs_test_conns t) ?r) ProcessJoinR (h_tag (nm_hdr (jr_named j))) e i)
      (\<lambda>_. answering s (y + {#owed_join (gs_test_conns s) j#})) (\<lambda>_ _. True) ?t"
    using a frameD(17) [OF f] by (simp add: wp_rules answering_def answered_def cnt_handle owed_join_def dead_def)
qed simp

lemma answer_joins_moves:
  assumes inv: "gs_inv s" and u: "u \<in> dead s"
  shows "wp (answer_joins u e) (\<lambda>_. moves s {#}) (\<lambda>_ _. True) s"
proof -
  let ?j = "gs_pending_join s" and ?o = "owed_join (gs_test_conns s)"
  note j = joins_okD [OF inv]
  have loop: "wp (for_each js (answer_process_join e)) (\<lambda>_. answering s (y + image_mset ?o (mset js))) (\<lambda>_ _. True) t"
    if "answering s y t" for js y t
    using that
  proof (induction js arbitrary: y t)
    case (Cons x js)
    have "wp (answer_process_join e x) (\<lambda>_. answering s (y + {#?o x#})) (\<lambda>_ _. True) t"
      unfolding answer_process_join_def by (rule answer_one [OF inv Cons.prems])
    then show ?case unfolding for_each.simps by (rule wp_then) (use Cons.IH in \<open>fastforce simp: ac_simps\<close>)
  qed (simp add: wp_basic)
  have fin: "moves s {#} (t\<lparr>gs_pending_join := pm_remove u (gs_pending_join t)\<rparr>)"
    if a: "answering s (image_mset ?o (mset (held ?j u))) t" for t
  proof -
    have f: "frame s t" "gs_pending_join t = ?j" using a frameD(16) [of s t] by (auto simp: answering_def)
    have "pm_inv (pm_remove u ?j)" using remove_inv [OF j(1), of u] by simp
    moreover have "stale_in (dead t) (pm_remove u ?j)"
      using j(2) u a by (auto simp: stale_in_def remove_fields answering_def)
    moreover have "held (pm_remove u ?j) = (held ?j)(u := [])" by (rule ext) simp
    from owed_joins_update [OF j(3) items_ok_remove [OF j(3)] this, of "gs_test_conns s"]
    have "owed_joins (gs_test_conns s) ?j + {#} = owed_joins (gs_test_conns s) (pm_remove u ?j) + image_mset ?o (mset (held ?j u))" by simp
    ultimately show ?thesis using a unfolding f(2)
      by (intro set_joins [OF inv f(1), where y = "image_mset ?o (mset (held ?j u))"]) (simp_all add: answering_def)
  qed
  have "answering s {#} s" using frame_self [OF inv] by (simp add: answering_def)
  then have "wp (for_each (held ?j u) (answer_process_join e)) (\<lambda>_. answering s (image_mset ?o (mset (held ?j u)))) (\<lambda>_ _. True) s"
    using loop [of "{#}" s "held ?j u"] by simp
  then have "wp (sq (for_each (held ?j u) (answer_process_join e))
      (modify (\<lambda>s. s\<lparr>gs_pending_join := pm_remove u (gs_pending_join s)\<rparr>))) (\<lambda>_. moves s {#}) (\<lambda>_ _. True) s"
    by (rule wp_then) (use fin in \<open>simp add: wp_basic\<close>)
  then show ?thesis using moves_refl [OF inv] by (simp add: answer_joins_def wp_bnd wp_basic wp_whenM)
qed

section \<open>Timeouts\<close>

text \<open>The timed-out joins that are left are held, without a deadline.\<close>

definition overdue :: "(int \<times> join_req) list \<Rightarrow> gs \<Rightarrow> bool" where
  "overdue xs t \<longleftrightarrow> distinct xs \<and> (\<forall>(u, j)\<in>set xs. j \<in> set (held (gs_pending_join t) u) \<and> pm_deadlines (gs_pending_join t) (u, j) = None)"

lemma timed_out_join_moves:
  assumes inv: "gs_inv s" and m: "moves s {#} t" and od: "overdue (x # xs) t"
  shows "wp (timed_out_join x) (\<lambda>_ t'. moves s {#} t' \<and> overdue xs t') (\<lambda>_ _. True) t"
proof -
  obtain u j where x: "x = (u, j)" by (cases x)
  let ?n = "jr_named j" and ?j = "gs_pending_join t" and ?o = "owed_join (gs_test_conns t)"
  have it: "gs_inv t" by (rule moves_inv [OF m])
  note jo = joins_okD [OF it]
  have v: "j \<in> set (held ?j u)" "pm_deadlines ?j (u, j) = None" using od by (simp_all add: overdue_def x)
  obtain m' where m': "pm_remove_one u j ?j = Inr m'" "pm_inv m'" "held m' = (held ?j)(u := removeAll j (held ?j u))"
    "pm_deadlines m' = (pm_deadlines ?j)((u, j) := None)" by (rule remove_one_inv [OF jo(1) v(1)]) (use v(2) in auto)
  have dist: "distinct (held ?j u)" using jo(3) by (auto simp: items_ok_def held_def split: option.splits)
  have ms: "mset (held ?j u) = add_mset j (mset (removeAll j (held ?j u)))"
    using v(1) by (simp flip: distinct_remove1_removeAll [OF dist])
  have fin: "moves s {#} (t1\<lparr>gs_pending_join := m'\<rparr>) \<and> overdue xs (t1\<lparr>gs_pending_join := m'\<rparr>)" if a: "answering t {#?o j#} t1" for t1
  proof -
    have "owed_joins (gs_test_conns t) ?j + {#} = owed_joins (gs_test_conns t) m' + {#?o j#}"
      using owed_joins_update [OF jo(3) _ m'(3), of "gs_test_conns t"] m'(2) by (simp add: ms pm_inv_but_def)
    from set_joins [OF it _ _ m'(2) _ this, of t1] have "moves t {#} (t1\<lparr>gs_pending_join := m'\<rparr>)"
      using a remove_one_stale [OF jo(1,2) v m'(1)] by (simp add: answering_def)
    with moves_trans [OF m] have "moves s {#} (t1\<lparr>gs_pending_join := m'\<rparr>)" by fastforce
    moreover have "overdue xs (t1\<lparr>gs_pending_join := m'\<rparr>)" using od by (auto simp: overdue_def x m'(3,4))
    ultimately show ?thesis ..
  qed
  have "answering t {#} t" using frame_self [OF it] by (simp add: answering_def)
  from answer_one [OF it this, of j TIMEOUT NoInfo]
  have a: "wp (bnd (get_reply_handle (nm_hdr ?n)) (\<lambda>h. respond h ProcessJoinR (h_tag (nm_hdr ?n)) TIMEOUT NoInfo))
     (\<lambda>_. answering t {#?o j#}) (\<lambda>_ _. True) t" by simp
  have j1: "gs_pending_join t1 = ?j" if "answering t {#?o j#} t1" for t1 using that frameD(16) [of t t1] by (simp add: answering_def)
  have "wp (sq (bnd (get_reply_handle (nm_hdr ?n)) (\<lambda>h. respond h ProcessJoinR (h_tag (nm_hdr ?n)) TIMEOUT NoInfo))
     (bnd (lift_res (\<lambda>s. pm_remove_one u j (gs_pending_join s))) (\<lambda>m. modify (\<lambda>s. s\<lparr>gs_pending_join := m\<rparr>))))
     (\<lambda>_ t'. moves s {#} t' \<and> overdue xs t') (\<lambda>_ _. True) t"
    by (rule wp_then [OF a]) (use fin m'(1) j1 in \<open>simp add: wp_bnd wp_basic\<close>)
  then show ?thesis by (simp add: timed_out_join_def x Let_def wp_eqs)
qed

lemma timed_out_joins_moves:
  assumes inv: "gs_inv s"
  shows "wp (bnd (\<lambda>s. let (rv, m) = get_timed_out now (gs_pending_join s) in (Inr rv, s\<lparr>gs_pending_join := m\<rparr>))
      (\<lambda>rv. for_each rv timed_out_join)) (\<lambda>_. moves s {#}) (\<lambda>_ _. True) s"
proof -
  obtain rv m where g: "get_timed_out now (gs_pending_join s) = (rv, m)" by (cases "get_timed_out now (gs_pending_join s)")
  note jo = joins_okD [OF inv]
  note sp = get_timed_out_spec [OF jo(1) g]
  let ?s = "s\<lparr>gs_pending_join := m\<rparr>"
  have "stale_in (dead s) m" using jo(2) sp(7,8) unfolding stale_in_def by blast
  moreover have "owed_joins (gs_test_conns s) m = owed_joins (gs_test_conns s) (gs_pending_join s)" using sp(5) by (simp add: owed_joins_def)
  ultimately have m: "moves s {#} ?s" by (intro set_joins [OF inv frame_self [OF inv], where y = "{#}"]) (simp_all add: sp(1))
  have h: "held m = held (gs_pending_join s)" using sp(5) by (simp add: held_def fun_eq_iff)
  have "j \<in> set (held m u) \<and> pm_deadlines m (u, j) = None" if "(u, j) \<in> set rv" for u j
    using that sp(3,6) h jo(1) deadlines_okD [of "gs_pending_join s" u j] by (auto simp: pm_inv_but_def)
  then have od: "overdue rv ?s" using sp(2) by (auto simp: overdue_def)
  have "wp (for_each rv timed_out_join) (\<lambda>_ t. moves s {#} t \<and> overdue [] t) (\<lambda>_ _. True) ?s"
    by (rule wp_for_each [where I = "\<lambda>xs t. moves s {#} t \<and> overdue xs t"]) (use m od timed_out_join_moves [OF inv] in auto)
  then have "wp (for_each rv timed_out_join) (\<lambda>_. moves s {#}) (\<lambda>_ _. True) ?s" by (rule wp_mono) auto
  then show ?thesis unfolding wp_bnd by (simp add: wp_def g)
qed

section \<open>Methods that leave the account alone\<close>

abbreviation hush :: "(gs, 'a) pym \<Rightarrow> bool" where
  "hush \<equiv> within gs_inv silent"

interpretation si: preorder_logic gs_inv silent
  using silent_refl silent_trans silent_inv by unfold_locales blast+

interpretation rs: preorder_logic "\<lambda>_. True" rest_same
  by unfold_locales (auto simp: rest_same_def)

named_theorems hushed

lemmas [hushed] = si.rules

lemma hush_get_reply_handle [hushed]: "hush (get_reply_handle m)"
  unfolding within_def
proof (intro allI impI)
  fix s
  assume inv: "gs_inv s"
  show "wp (get_reply_handle m) (\<lambda>_. silent s) (\<lambda>_ _. True) s"
    by (rule wp_get_reply_handle) (simp_all add: silent_def attach_frame [OF inv])
qed

lemma hush_respond [hushed]: "\<not> counts k \<Longrightarrow> hush (respond h k ref e i)"
  using frame_out by (auto simp: within_def wp_elem silent_def counts_def)

lemma hush_tag_inc [hushed]: "hush tag_inc"
  by (simp add: within_def wp_elem tag_silent)

lemma hush_put_reply [hushed]: "counted (h, r) = {#} \<Longrightarrow> hush (put_reply h r)"
  using frame_self by (auto simp: within_def wp_elem silent_def frame_def tables_in_range_def)

lemma hush_tables [hushed]:
  "hush (modify (\<lambda>s. s\<lparr>gs_join_status := f s\<rparr>))" "hush (modify (\<lambda>s. s\<lparr>gs_pending_join_list := g s\<rparr>))"
  "hush (modify (\<lambda>s. s\<lparr>gs_pending_channel_joins := h s\<rparr>))"
  using frame_self by (auto simp: within_def wp_basic silent_def frame_def tables_in_range_def answered_def)

lemma hush_resolve [hushed]: "hush (resolve_puid n u)" "hush (resolve_cuid n u)"
  by (simp_all add: resolve_puid_def resolve_cuid_def si.basic)

lemma hush_set_status [hushed]: "hush (set_status k j v)"
  unfolding set_status_def by (intro hushed)

lemma hush_erase [hushed]: "hush (erase_join_list x)"
  unfolding erase_join_list_def by (intro hushed)

lemma hush_update [hushed]: "hush (update_join_list u e x)"
  by (cases x) (simp add: update_join_list_def Let_def hushed counts_def)

lemma hush_shrink [hushed]: "hush (shrink_join_list now u x)"
  by (cases x) (simp add: shrink_join_list_def Let_def hushed)

lemma hush_exit_join_lists [hushed]: "hush (exit_join_lists now u e)"
  unfolding exit_join_lists_def Let_def by (intro hushed)

lemma hush_timed_out [hushed]: "hush (timed_out_join_list x)" "hush (timed_out_chan_join y)"
  by (cases x, simp add: timed_out_join_list_def Let_def hushed counts_def)
    (cases y, simp add: timed_out_chan_join_def Let_def hushed counts_def)

lemma hush_join_items [hushed]: "hush (join_items m js acc)"
proof (induction js arbitrary: acc)
  case (Cons j js)
  have "hush (join_item m j acc)"
    by (cases acc; cases j) (auto simp: join_item_def Let_def intro!: hushed split: prod.splits)
  then show ?case by (simp add: si.bnd Cons)
qed (simp add: hushed)

lemma hush_handle_process_join_list: "hush (handle_process_join_list now m)"
  unfolding handle_process_join_list_def Let_def
  by (intro hushed) (auto simp: counts_def intro!: hushed split: prod.splits)

lemma hush_handle_channel_join: "hush (handle_channel_join now m)"
  unfolding handle_channel_join_def by (intro hushed) (auto simp: counts_def intro!: hushed split: prod.splits)

section \<open>The exit of a process\<close>

definition ended :: "gs \<Rightarrow> int \<Rightarrow> gs \<Rightarrow> bool" where
  "ended s u t \<longleftrightarrow> moves s {#} t \<and> u \<in> dead t"

lemma ended_step:
  assumes "ended s u t" "moves t {#} t'" "u \<in> dead t'"
  shows "ended s u t'"
  using assms moves_trans [of s "{#}" t "{#}" t'] by (simp add: ended_def)

lemma rest_elem:
  "within (\<lambda>_. True) rest_same tag_inc" "within (\<lambda>_. True) rest_same (respond h k ref e i)" "within (\<lambda>_. True) rest_same (upd_chan c f)"
  "within (\<lambda>_. True) rest_same (set_pending tg q)" "within (\<lambda>_. True) rest_same (send_ls l m)" "within (\<lambda>_. True) rest_same (ls_input n)"
  by (simp_all add: within_def wp_rules ls_input_def rest_same_def)

lemma rest_dstate: "within I R k \<Longrightarrow> within I R l \<Longrightarrow> within I R m \<Longrightarrow> within I R (case d of PENDING \<Rightarrow> k | ACTIVE \<Rightarrow> l | DEAD \<Rightarrow> m)"
  by (cases d) simp_all

lemma chan_destroy_rest: "within (\<lambda>_. True) rest_same (chan_destroy m b h)"
  unfolding chan_destroy_def resolve_cuid_def Let_def by (intro rs.rules rest_elem rest_dstate)

lemma clean_channel_ended:
  assumes "ended s u t"
  shows "wp (clean_channel c b) (\<lambda>_. ended s u) (\<lambda>_ _. True) t"
proof (cases c)
  case (Some cu)
  have it: "gs_inv t" using assms moves_inv by (auto simp: ended_def)
  let ?t = "t\<lparr>gs_tag := gs_tag t + 1\<rparr>"
  have si: "silent t ?t" by (rule tag_silent [OF it])
  have e: "ended s u ?t" by (rule ended_step [OF assms silent_moves [OF it si]]) (use assms in \<open>simp add: ended_def dead_def\<close>)
  have "wp (chan_destroy m b Absorb) (\<lambda>_. ended s u) (\<lambda>_ _. True) ?t" for m
    by (rule wp_mono [OF wp_conj [OF chan_destroy_moves [OF silent_inv [OF it si]] withinD [OF chan_destroy_rest]]])
      (use e ended_step [OF e] in \<open>auto simp: cnt_def rest_same_def ended_def dead_def\<close>)
  then show ?thesis by (simp add: clean_channel_def Some wp_bnd wp_sq wp_elem wp_eta)
qed (use assms in \<open>simp add: clean_channel_def wp_basic\<close>)

lemma clean_ret_channel_ended:
  assumes "ended s u t"
  shows "wp (clean_ret_channel p) (\<lambda>_. ended s u) (\<lambda>_ _. True) t"
proof (cases "pr_gs_ret_cuid (pz_desc p)")
  case None
  have it: "gs_inv t" using assms moves_inv by (auto simp: ended_def)
  have "silent (t\<lparr>gs_tag := gs_tag t + 1\<rparr>) (t\<lparr>gs_tag := gs_tag t + 1 + 1, gs_out := gs_out t @ [(Absorb, Reply ChannelDestroyR (gs_tag t + 1) r e i)]\<rparr>)" for r e i
    using absorbed [OF silent_inv [OF it tag_silent [OF it]], of ChannelDestroyR r e i] by simp
  from silent_trans [OF tag_silent [OF it] this] silent_moves [OF it]
  have "moves t {#} (t\<lparr>gs_tag := gs_tag t + 1 + 1, gs_out := gs_out t @ [(Absorb, Reply ChannelDestroyR (gs_tag t + 1) r e i)]\<rparr>)" for r e i by blast
  from ended_step [OF assms this] assms show ?thesis
    by (simp add: clean_ret_channel_def None wp_bnd wp_elem ended_def dead_def)
qed (use clean_channel_ended [OF assms] in \<open>simp add: clean_ret_channel_def\<close>)

lemma process_dies:
  assumes inv: "gs_inv s" and u: "u \<in> set (gs_proc_table s)" "ProcConstruct u \<notin> conts s"
  shows "ended s u (s\<lparr>gs_proc := (gs_proc s)(u := gs_proc s u\<lparr>pz_desc := pz_desc (gs_proc s u)\<lparr>pr_state := DEAD, pr_ecode := c\<rparr>\<rparr>)\<rparr>)"
proof -
  have "silent s (s\<lparr>gs_proc := (gs_proc s)(u := gs_proc s u\<lparr>pz_desc := pz_desc (gs_proc s u)\<lparr>pr_state := DEAD, pr_ecode := c\<rparr>\<rparr>)\<rparr>)"
    using frame_self [OF inv] u by (auto simp: silent_def frame_def tables_in_range_def proc_view_def inner_def)
  from silent_moves [OF inv this] show ?thesis using inv_tables [OF inv] u(1) by (simp add: ended_def dead_def tables_in_range_def)
qed

lemma ended_hush:
  assumes "moves s {#} t" "hush m"
  shows "wp m (\<lambda>_. moves s {#}) (\<lambda>_ _. True) t"
proof -
  have it: "gs_inv t" by (rule moves_inv [OF assms(1)])
  then have "wp m (\<lambda>_. silent t) (\<lambda>_ _. True) t" using assms(2) by (simp add: within_def)
  then show ?thesis by (rule wp_mono) (use moves_trans [OF assms(1) silent_moves [OF it]] in auto)
qed

lemma hush_drop_head: "hush (drop_head u)"
  unfolding drop_head_def by (rule within_modify) (rule other_silent(4))

lemma handle_process_exit_moves:
  assumes inv: "gs_inv s" and ct: "ct \<notin> set (d_keys (gs_pending s))" and u: "ProcConstruct u \<notin> conts s"
  shows "wp (handle_process_exit now u code ct) (\<lambda>_. moves s {#}) (\<lambda>_ _. True) s"
proof (cases "u \<in> set (gs_proc_table s)")
  case True
  let ?E = "\<lambda>(_::exn) (_::gs). True"
  have children: "wp (whenM b (upd_proc p (\<lambda>q. q\<lparr>pz_desc := (pz_desc q)\<lparr>pr_live_children := pr_live_children (pz_desc q) - {u}\<rparr>\<rparr>)))
      (\<lambda>_. ended s u) ?E t" if e: "ended s u t" for b p t
  proof -
    have it: "gs_inv t" using e moves_inv by (auto simp: ended_def)
    have "ended s u (t\<lparr>gs_proc := (gs_proc t)(p := gs_proc t p\<lparr>pz_desc := pz_desc (gs_proc t p)\<lparr>pr_live_children := ch\<rparr>\<rparr>)\<rparr>)" for ch
      by (rule ended_step [OF e silent_moves [OF it children_silent [OF it]]]) (use e in \<open>auto simp: ended_def dead_def\<close>)
    then show ?thesis using e by (simp add: wp_whenM wp_elem)
  qed
  have joins: "wp (answer_joins u c) (\<lambda>_. moves s {#}) ?E t" if e: "ended s u t" for c t
    by (rule wp_mono [OF answer_joins_moves [of t u]])
      (use e moves_inv moves_trans [of s "{#}" t] in \<open>auto simp: ended_def\<close>)
  have tail: "wp (sq (exit_join_lists now u (Some code)) (bnd (gets gs_head_puid) (\<lambda>hs. whenM (u \<in> hs)
      (sq (bnd tag_inc (\<lambda>t. put_reply Bela (GSHeadExit t code))) (drop_head u))))) (\<lambda>_. moves s {#}) ?E t" if "moves s {#} t" for t
    by (rule ended_hush [OF that]) (intro hushed hush_drop_head, simp)
  have dies: "wp (upd_proc u (\<lambda>p. p\<lparr>pz_desc := (pz_desc p)\<lparr>pr_state := DEAD, pr_ecode := Some code\<rparr>\<rparr>)) (\<lambda>_. ended s u) ?E s"
    using process_dies [OF inv True u] by (simp add: wp_elem)
  have ret: "wp (whenM b (clean_ret_channel p)) (\<lambda>_. ended s u) ?E t" if "ended s u t" for b p t
    using clean_ret_channel_ended [OF that] that by (simp add: wp_whenM)
  show ?thesis unfolding handle_process_exit_def
    using ct True by (auto simp: wp_bnd wp_basic intro!: wp_then [where P = "ended s u"] dies ret clean_channel_ended children
        wp_then [OF joins] tail)
qed (use ct in \<open>simp add: handle_process_exit_def wp_rules\<close>)

section \<open>One message\<close>

definition one :: "int set \<Rightarrow> hdr \<Rightarrow> (hdl \<times> int) multiset" where
  "one test h = {#(handle_of test (h_r_c_uid h), h_tag h)#}"

text \<open>The answers that a message calls for; joins of lists and channels are left out.\<close>

fun expects :: "int set \<Rightarrow> gs_msg \<Rightarrow> (hdl \<times> int) multiset" where
  "expects test (GSPoolCreate m) = one test (pc_hdr m)"
| "expects test (GSPoolDestroy m) = one test (nm_hdr m)"
| "expects test (GSPoolList h) = one test h"
| "expects test (GSPoolQuery m) = one test (nm_hdr m)"
| "expects test (GSChannelCreate m) = one test (cc_hdr m)"
| "expects test (GSChannelDestroy m reply_req dec_ref) = (if reply_req then one test (nm_hdr m) else {#})"
| "expects test (GSChannelList h) = one test h"
| "expects test (GSChannelQuery m i) = one test (nm_hdr m)"
| "expects test (GSProcessCreate m) = one test (pp_hdr m)"
| "expects test (GSProcessKill m sig hide) = one test (nm_hdr m)"
| "expects test (GSProcessList h) = one test h"
| "expects test (GSProcessQuery m) = one test (nm_hdr m)"
| "expects test (GSProcessJoin m) = one test (nm_hdr (jr_named m))"
| "expects test (GSNodeList h) = one test h"
| "expects test (GSNodeQuery m) = one test (nm_hdr m)"
| "expects test (GSNodeQueryAll h) = one test h"
| "expects test (GSNodeQueryTotalCPUCount h) = one test h"
| "expects test (GSRebootRuntime h hu) = one test h"
| "expects test _ = {#}"

text \<open>
  What is asked of the senders: a join request is not one that waits already, and local services
  reports the exit of a process with the tag of its creation.
\<close>

fun admissible :: "gs \<Rightarrow> gs_msg \<Rightarrow> bool" where
  "admissible s (GSProcessJoin m) \<longleftrightarrow> fresh_join s m"
| "admissible s (LSProcessExit u code ct) \<longleftrightarrow> (case map_of (gs_pending s) ct of
     Some k \<Rightarrow> k = ProcConstruct u | None \<Rightarrow> ProcConstruct u \<notin> snd ` set (gs_pending s))"
| "admissible s _ \<longleftrightarrow> True"

definition books :: "gs \<Rightarrow> (hdl \<times> int) multiset \<Rightarrow> gs \<Rightarrow> bool" where
  "books s x t \<longleftrightarrow> gs_inv t \<and> exits_ok t \<and> account t = account s + x \<and> gs_test_conns t = gs_test_conns s"

lemma moves_books: "exits_ok s \<Longrightarrow> moves s x t \<Longrightarrow> books s x t"
  by (auto simp: books_def moves_def grows_def exits_ok_def map_le_def dom_def)

lemma books_trans: "books s x t \<Longrightarrow> books t y u \<Longrightarrow> books s (x + y) u"
  by (simp add: books_def)

lemma plain_answer:
  assumes "gs_inv s" and f: "\<And>h t. gs_inv t \<Longrightarrow> wp (f h) (\<lambda>_. moves t (cnt h (h_tag m))) (\<lambda>_ _. True) t"
  shows "wp (bnd (get_reply_handle m) f) (\<lambda>_. moves s (one (gs_test_conns s) m)) (\<lambda>_ _. True) s"
  unfolding one_def cnt_handle [symmetric] by (rule with_handle [OF assms(1), where x = "\<lambda>h. cnt h (h_tag m)"]) (rule f)

text \<open>A silent part, then the answer.\<close>

lemma hush_then:
  assumes "hush m" "gs_inv s" "\<And>x t. gs_inv t \<Longrightarrow> wp (f x) (\<lambda>_. moves t y) (\<lambda>_ _. True) t"
  shows "wp (bnd m f) (\<lambda>_. moves s y) (\<lambda>_ _. True) s"
proof (rule wp_bind [OF withinD [OF assms(1,2)]])
  fix x t
  assume t: "silent s t"
  show "wp (f x) (\<lambda>_. moves s y) (\<lambda>_ _. True) t"
    by (rule wp_mono [OF assms(3) [OF silent_inv [OF assms(2) t]]])
      (use moves_trans [OF silent_moves [OF assms(2) t]] in auto)
qed

lemma respond_answers: "counts k \<Longrightarrow> gs_inv s \<Longrightarrow> wp (respond h k ref e i) (\<lambda>_. moves s (cnt h ref)) (\<lambda>_ _. True) s"
  using respond_moves [of s k h ref e i] by (simp add: wp_elem)

lemma registered_answers:
  assumes "gs_inv s" "wp m (registered s x k) (\<lambda>_ _. True) s"
  shows "wp (bnd m (\<lambda>r. case r of None \<Rightarrow> raise TypeError | Some None \<Rightarrow> ret () | Some (Some (t, u)) \<Rightarrow> set_pending t (k u)))
     (\<lambda>_. moves s x) (\<lambda>_ _. True) s"
  unfolding wp_bnd by (rule wp_mono [OF assms(2)]) (auto simp: registered_def wp_basic wp_elem split: option.splits)

named_theorems answering_rules

lemma list_answers [answering_rules]:
  "counts k \<Longrightarrow> gs_inv s \<Longrightarrow> wp (bnd (gets f) (\<lambda>t. respond h k ref (e t) (i t))) (\<lambda>_. moves s (cnt h ref)) (\<lambda>_ _. True) s"
  by (simp add: wp_bnd wp_basic respond_answers)

lemma destroy_answers [answering_rules]:
  "gs_inv s \<Longrightarrow> wp (sq (pool_destroy n h) (ret ())) (\<lambda>_. moves s (cnt h (h_tag (nm_hdr n)))) (\<lambda>_ _. True) s"
  "gs_inv s \<Longrightarrow> wp (sq (chan_destroy n b h) (ret ())) (\<lambda>_. moves s (cnt h (h_tag (nm_hdr n)))) (\<lambda>_ _. True) s"
  by (simp_all add: wp_sq wp_eta pool_destroy_moves chan_destroy_moves)

lemma query_answers [answering_rules]:
  assumes "gs_inv s" "counts k"
  shows "wp (bnd (lift_res g) (\<lambda>(u, found). if \<not> found then respond h k ref e NoInfo
     else bnd (gets (d u)) (\<lambda>x. respond h k ref e' (i x)))) (\<lambda>_. moves s (cnt h ref)) (\<lambda>_ _. True) s"
  using respond_answers [OF assms(2,1)] by (simp add: wp_bnd wp_basic split: sum.splits prod.splits)

lemmas [answering_rules] = proc_construct_moves proc_kill_moves registered_answers [OF _ pool_construct_registers]
  registered_answers [OF _ chan_construct_registers]

lemma simple_handlers:
  assumes inv: "gs_inv s"
  shows "wp (handle_pool_create pc) (\<lambda>_. moves s (one (gs_test_conns s) (pc_hdr pc))) (\<lambda>_ _. True) s"
    "wp (handle_pool_destroy n) (\<lambda>_. moves s (one (gs_test_conns s) (nm_hdr n))) (\<lambda>_ _. True) s"
    "wp (handle_pool_list h) (\<lambda>_. moves s (one (gs_test_conns s) h)) (\<lambda>_ _. True) s"
    "wp (handle_pool_query n) (\<lambda>_. moves s (one (gs_test_conns s) (nm_hdr n))) (\<lambda>_ _. True) s"
    "wp (handle_channel_create cc) (\<lambda>_. moves s (one (gs_test_conns s) (cc_hdr cc))) (\<lambda>_ _. True) s"
    "wp (handle_channel_destroy n True b) (\<lambda>_. moves s (one (gs_test_conns s) (nm_hdr n))) (\<lambda>_ _. True) s"
    "wp (handle_channel_list h) (\<lambda>_. moves s (one (gs_test_conns s) h)) (\<lambda>_ _. True) s"
    "wp (handle_process_create pp) (\<lambda>_. moves s (one (gs_test_conns s) (pp_hdr pp))) (\<lambda>_ _. True) s"
    "wp (handle_process_kill n sig hide) (\<lambda>_. moves s (one (gs_test_conns s) (nm_hdr n))) (\<lambda>_ _. True) s"
    "wp (handle_process_list h) (\<lambda>_. moves s (one (gs_test_conns s) h)) (\<lambda>_ _. True) s"
    "wp (handle_process_query n) (\<lambda>_. moves s (one (gs_test_conns s) (nm_hdr n))) (\<lambda>_ _. True) s"
    "wp (handle_node_list h) (\<lambda>_. moves s (one (gs_test_conns s) h)) (\<lambda>_ _. True) s"
    "wp (handle_node_query_total_cpu_count h) (\<lambda>_. moves s (one (gs_test_conns s) h)) (\<lambda>_ _. True) s"
  unfolding handle_pool_create_def handle_pool_destroy_def handle_pool_list_def handle_channel_create_def handle_channel_destroy_def
    handle_channel_list_def handle_process_create_def handle_process_kill_def handle_process_list_def handle_node_list_def
    handle_node_query_total_cpu_count_def if_True handle_pool_query_def handle_process_query_def resolve_muid_def resolve_puid_def
  by (rule plain_answer [OF inv], rule answering_rules; simp add: counts_def)+

lemma handle_channel_query_moves:
  assumes inv: "gs_inv s"
  shows "wp (handle_channel_query n b) (\<lambda>_. moves s (one (gs_test_conns s) (nm_hdr n))) (\<lambda>_ _. True) s"
  unfolding handle_channel_query_def
proof (rule plain_answer [OF inv])
  fix h t
  assume t: "gs_inv t"
  have "frame t (t\<lparr>gs_chan := (gs_chan t)(u := gs_chan t u\<lparr>cx_refcnt := k\<rparr>)\<rparr>)" for u k
    by (rule frameI [OF t]) (use inv_tables [OF t] in \<open>auto simp: tables_in_range_def chan_view_def\<close>)
  then have si: "silent t (t\<lparr>gs_chan := (gs_chan t)(u := gs_chan t u\<lparr>cx_refcnt := k\<rparr>)\<rparr>)" for u k by (simp add: silent_def)
  have r: "moves t (cnt h ref) (t'\<lparr>gs_tag := gs_tag t' + 1, gs_out := gs_out t' @ [(h, Reply ChannelQueryR (gs_tag t') ref e i)]\<rparr>)"
    if "silent t t'" for t' ref e i by (rule silent_respond [OF t that]) (simp add: counts_def)
  show "wp (bnd (resolve_cuid (nm_user_name n) (nm_uid n)) (\<lambda>(u, found).
     if \<not> found then respond h ChannelQueryR (h_tag (nm_hdr n)) UNKNOWN NoInfo
     else bnd (gets (\<lambda>s. gs_chan s u)) (\<lambda>c.
       sq (whenM (cc_ref_count (cx_request c) \<and> b \<and> cd_state (cx_desc c) = ACTIVE)
             (upd_chan u (\<lambda>c. c\<lparr>cx_refcnt := cx_refcnt c + 1\<rparr>)))
          (respond h ChannelQueryR (h_tag (nm_hdr n)) SUCCESS (ChanInfo (cx_desc c))))))
     (\<lambda>_. moves t (cnt h (h_tag (nm_hdr n)))) (\<lambda>_ _. True) t"
    using r [OF si] r [OF silent_refl [OF t]]
    by (simp add: resolve_cuid_def wp_rules split: sum.splits prod.splits)
qed

lemma node_handlers:
  assumes inv: "gs_inv s"
  shows "wp (handle_node_query n) (\<lambda>_. moves s (one (gs_test_conns s) (nm_hdr n))) (\<lambda>_ _. True) s"
    "wp (handle_node_query_all h) (\<lambda>_. moves s (one (gs_test_conns s) h)) (\<lambda>_ _. True) s"
  unfolding handle_node_query_def handle_node_query_all_def
  by (rule plain_answer [OF inv]; use respond_answers in \<open>auto simp: wp_bnd wp_basic resolve_huid_def counts_def split: sum.splits\<close>)+

lemma handle_reboot_moves:
  assumes inv: "gs_inv s"
  shows "wp (handle_reboot_runtime h hu) (\<lambda>_. moves s (one (gs_test_conns s) h)) (\<lambda>_ _. True) s"
  unfolding handle_reboot_runtime_def sq_def
  by (rule plain_answer [OF inv], rule hush_then) (auto intro!: hushed respond_answers simp: counts_def)

lemma hush_handle_ls_ping: "hush (handle_ls_ping i n d)"
proof -
  have "hush (modify (\<lambda>s. s\<lparr>gs_node_table := a s, gs_node_idx_to_huid := b s, gs_node_names := c s, gs_ls_pings := p s\<rparr>))" for a b c p
    using frame_self by (auto simp: within_def wp_basic silent_def frame_def tables_in_range_def answered_def)
  moreover have "hush (modify (\<lambda>s. s\<lparr>gs_state := st\<rparr>))" for st
    using frame_self by (auto simp: within_def wp_basic silent_def frame_def tables_in_range_def answered_def)
  moreover have "hush (modify (\<lambda>s. let ev = f s in s\<lparr>gs_proc_eval := Some ev, gs_chan_eval := Some ev\<rparr>))" for f
    by (rule within_modify) (simp add: Let_def other_silent(1))
  ultimately show ?thesis unfolding handle_ls_ping_def by (intro hushed) auto
qed

lemma hush_teardown: "hush (modify (\<lambda>s. s\<lparr>gs_state := st\<rparr>))"
  using frame_self by (auto simp: within_def wp_basic silent_def frame_def tables_in_range_def answered_def)

lemma hush_moves: "hush m \<Longrightarrow> gs_inv s \<Longrightarrow> wp m (\<lambda>_. moves s {#}) (\<lambda>_ _. True) s"
  using ended_hush [OF moves_refl] by blast

lemma handle_channel_destroy_moves:
  assumes "gs_inv s"
  shows "wp (handle_channel_destroy n b d) (\<lambda>_. moves s (expects (gs_test_conns s) (GSChannelDestroy n b d))) (\<lambda>_ _. True) s"
proof (cases b)
  case False
  then show ?thesis using chan_destroy_moves [OF assms, of n d Absorb]
    by (simp add: handle_channel_destroy_def wp_bnd wp_sq wp_basic wp_eta cnt_def)
qed (use simple_handlers(6) [OF assms] in simp)

lemma ls_answer_books:
  assumes inv: "gs_inv s" "exits_ok s" and a: "\<And>m r. a \<noteq> ProcMade m r"
  shows "wp (handle_ls_answer ref a) (\<lambda>_. books s {#}) (\<lambda>_ _. True) s"
proof (rule wp_mono [OF handle_ls_answer_moves [OF inv(1)]])
  fix x t
  let ?s = "s\<lparr>gs_pending := AList.delete ref (gs_pending s)\<rparr>"
  assume "\<exists>k. map_of (gs_pending s) ref = Some k \<and> ((\<exists>u. k = ProcConstruct u) \<longleftrightarrow> (\<exists>m r. a = ProcMade m r)) \<and>
      about k \<notin> busy ?s \<and> moves ?s (owed_of s k) t"
  then obtain k where k: "map_of (gs_pending s) ref = Some k" "\<And>u. k \<noteq> ProcConstruct u" "moves ?s (owed_of s k) t" using a by blast
  have "exits_ok ?s" using inv(2) k(1,2) by (fastforce simp: exits_ok_def)
  from moves_books [OF this k(3)] show "books s {#} t"
    using pop_cont(2) [OF inv(1) k(1)] by (simp add: books_def)
qed simp

lemma exits_irrelevant [simp]:
  "gs_inv (s\<lparr>gs_pending_exits := e\<rparr>) = gs_inv s" "account (s\<lparr>gs_pending_exits := e\<rparr>) = account s"
  "conts (s\<lparr>gs_pending_exits := e\<rparr>) = conts s"
proof -
  let ?s = "s\<lparr>gs_pending_exits := e\<rparr>"
  show c: "conts ?s = conts s" by (simp add: conts_def)
  have "cont_ok ?s k = cont_ok s k" "owed_of ?s k = owed_of s k" for k by (cases k; simp add: c)+
  then show "gs_inv ?s = gs_inv s" "account ?s = account s"
    by (simp_all add: gs_inv_def pending_ok_def tags_ok_def conts_ok_def uniq_ok_def inner_ok_def tables_in_range_def joins_ok_def c
        account_def answered_def owed_conts_def)
qed

lemma exit_books:
  assumes inv: "gs_inv s" "exits_ok s" and ok: "admissible s (LSProcessExit u code ct)"
  shows "wp (handle_process_exit now u code ct) (\<lambda>_. books s {#}) (\<lambda>_ _. True) s"
proof (cases "map_of (gs_pending s) ct")
  case None
  then have "ProcConstruct u \<notin> conts s" using ok by (fastforce simp: conts_def ran_def image_iff dest: map_of_SomeD)
  from handle_process_exit_moves [OF inv(1) _ this] show ?thesis
    by (rule wp_mono) (use None moves_books [OF inv(2)] in auto)
next
  case (Some k)
  let ?s = "s\<lparr>gs_pending_exits := AList.update ct (u, code) (gs_pending_exits s)\<rparr>"
  have "exits_ok ?s" using inv(2) ok Some by (simp add: exits_ok_def)
  then have "books s {#} ?s" using inv(1) by (simp add: books_def)
  then show ?thesis using Some by (simp add: handle_process_exit_def wp_bnd wp_basic)
qed

lemma create_response_books:
  assumes inv: "gs_inv s" "exits_ok s"
  shows "wp (handle_process_create_response now ref ok r) (\<lambda>_. books s {#}) (\<lambda>_ _. True) s"
  unfolding handle_process_create_response_def
proof (rule wp_then [OF handle_ls_answer_moves [OF inv(1)]])
  fix t
  let ?s = "s\<lparr>gs_pending := AList.delete ref (gs_pending s)\<rparr>"
  assume "\<exists>k. map_of (gs_pending s) ref = Some k \<and> ((\<exists>u. k = ProcConstruct u) \<longleftrightarrow> (\<exists>m q. ProcMade ok r = ProcMade m q)) \<and>
      about k \<notin> busy ?s \<and> moves ?s (owed_of s k) t"
  then obtain u where u: "map_of (gs_pending s) ref = Some (ProcConstruct u)" "RProc u \<notin> busy ?s"
    and m: "moves ?s (owed_of s (ProcConstruct u)) t" by fastforce
  have g: "grows ?s t" and it: "gs_inv t" and ex: "gs_pending_exits t = gs_pending_exits s" using m by (simp_all add: moves_def)
  have ref: "ref < gs_tag s" using u(1) fresh_tag [OF inv(1), of ref] by (cases "ref < gs_tag s") simp_all
  have range: "u < gs_next_puid s" using conts_okD [OF inv(1) conts_I [OF u(1)]] by simp
  have gone: "map_of (gs_pending t) ref = None"
    using growsD [OF g, of ref] ref by (cases "map_of (gs_pending t) ref") auto
  have notu: "ProcConstruct u \<notin> conts t"
  proof
    assume "ProcConstruct u \<in> conts t"
    then obtain tg where "map_of (gs_pending t) tg = Some (ProcConstruct u)" by (auto simp: conts_def ran_def)
    from growsD [OF g this] show False
    proof (elim disjE conjE)
      assume "map_of (gs_pending ?s) tg = Some (ProcConstruct u)"
      then show False using u(2) in_busy [OF conts_I, of ?s tg "ProcConstruct u"] by simp
    qed (use range in auto)
  qed
  have acc: "account t = account s" "gs_test_conns t = gs_test_conns s"
    using m pop_cont(2) [OF inv(1) u(1)] by (simp_all add: moves_def)
  have exok: "exits_ok (t\<lparr>gs_pending_exits := AList.delete ref (gs_pending_exits t)\<rparr>)"
    using inv(2) g by (auto simp: exits_ok_def ex grows_def map_le_def dom_def)
  show "wp (bnd (gets gs_pending_exits) (\<lambda>ex. case map_of ex ref of None \<Rightarrow> ret ()
      | Some (u, code) \<Rightarrow> sq (modify (\<lambda>s. s\<lparr>gs_pending_exits := AList.delete ref (gs_pending_exits s)\<rparr>))
             (handle_process_exit now u code ref))) (\<lambda>_. books s {#}) (\<lambda>_ _. True) t"
  proof (cases "map_of (gs_pending_exits t) ref")
    case None
    then have "exits_ok t" using exok by (simp add: exits_ok_def) (metis option.distinct(1))
    then show ?thesis using None it acc by (simp add: wp_bnd wp_basic books_def)
  next
    case (Some x)
    let ?t = "t\<lparr>gs_pending_exits := AList.delete ref (gs_pending_exits t)\<rparr>"
    obtain code where x: "x = (u, code)" using inv(2) Some u(1) by (cases x) (auto simp: exits_ok_def ex)
    have "wp (handle_process_exit now u code ref) (\<lambda>_. moves ?t {#}) (\<lambda>_ _. True) ?t"
      by (rule handle_process_exit_moves) (use it gone notu in simp_all)
    then have "wp (handle_process_exit now u code ref) (\<lambda>_. books s {#}) (\<lambda>_ _. True) ?t"
      by (rule wp_mono) (use moves_books [OF exok] acc in \<open>auto simp: books_def\<close>)
    then show ?thesis using Some x by (simp add: wp_bnd wp_sq wp_basic)
  qed
qed

section \<open>The main loop\<close>

lemma dispatch_books:
  assumes inv: "gs_inv s" "exits_ok s" and ok: "admissible s msg"
  shows "wp (dispatch_gs now msg) (\<lambda>_. books s (expects (gs_test_conns s) msg)) (\<lambda>_ _. True) s"
proof -
  have mv: "wp m (\<lambda>_. books s x) (\<lambda>_ _. True) s" if "wp m (\<lambda>_. moves s x) (\<lambda>_ _. True) s" for x and m :: "(gs, unit) pym"
    by (rule wp_mono [OF that]) (use moves_books [OF inv(2)] in auto)
  note h = simple_handlers [OF inv(1), THEN mv] handle_channel_query_moves [OF inv(1), THEN mv] node_handlers [OF inv(1), THEN mv]
    handle_reboot_moves [OF inv(1), THEN mv] hush_moves [OF hush_handle_ls_ping inv(1), THEN mv] hush_moves [OF hush_teardown inv(1), THEN mv]
    hush_moves [OF hush_handle_process_join_list inv(1), THEN mv] hush_moves [OF hush_handle_channel_join inv(1), THEN mv]
    ls_answer_books [OF inv] create_response_books [OF inv]
  show ?thesis
  proof (cases msg)
    case (GSChannelDestroy n b d)
    then show ?thesis using handle_channel_destroy_moves [OF inv(1), THEN mv] by (simp add: dispatch_gs_def)
  next
    case (GSProcessJoin m)
    then show ?thesis using handle_process_join_moves [OF inv(1), THEN mv, of m now] ok
      by (simp add: dispatch_gs_def one_def owed_join_def)
  next
    case (LSProcessExit u code ct)
    then show ?thesis using exit_books [OF inv] ok by (simp add: dispatch_gs_def)
  qed (use h in \<open>simp_all add: dispatch_gs_def\<close>)
qed

lemma hush_expire [hushed]:
  "hush (\<lambda>s. let (rv, m) = get_timed_out now (gs_pending_join_list s) in (Inr rv, s\<lparr>gs_pending_join_list := m\<rparr>))"
  "hush (\<lambda>s. let (rv, m) = get_timed_out now (gs_pending_channel_joins s) in (Inr rv, s\<lparr>gs_pending_channel_joins := m\<rparr>))"
  using frame_self by (auto simp: within_def wp_def silent_def frame_def tables_in_range_def answered_def split: prod.splits)

lemma do_timeouts_moves:
  assumes "gs_inv s"
  shows "wp (do_timeouts now) (\<lambda>_. moves s {#}) (\<lambda>_ _. True) s"
  unfolding do_timeouts_def
  by (rule wp_then [OF timed_out_joins_moves [OF assms]]) (rule ended_hush, assumption, intro hushed)

lemma hush_flush [hushed]: "hush (flush_sends k)"
  unfolding flush_sends_def
  using frame_self by (auto simp: within_def wp_basic silent_def frame_def tables_in_range_def answered_def)

text \<open>One turn up to the message, and the demands on the messages of a run.\<close>

definition tend :: "nat \<Rightarrow> int \<Rightarrow> (gs, unit) pym" where
  "tend k now = bnd (gets gs_state) (\<lambda>st. whenM (st = HAS_HEAD) (sq (flush_sends k) (do_timeouts now)))"

fun polite :: "(nat \<times> int \<times> int \<times> gs_msg option) list \<Rightarrow> gs \<Rightarrow> bool" where
  "polite [] s \<longleftrightarrow> True"
| "polite ((k, now, now', msg) # evs) s \<longleftrightarrow> gs_state s = SHUTTING_DOWN \<or> (case tend k now s of
     (Inl _, _) \<Rightarrow> True
   | (Inr _, s1) \<Rightarrow> (case msg of
        None \<Rightarrow> polite evs s1
      | Some m \<Rightarrow> admissible s1 m \<and> (case dispatch_gs now' m s1 of (Inl _, _) \<Rightarrow> True | (Inr _, s2) \<Rightarrow> polite evs s2)))"

lemma tend_moves:
  assumes "gs_inv s"
  shows "wp (tend k now) (\<lambda>_. moves s {#}) (\<lambda>_ _. True) s"
proof -
  have "wp (sq (flush_sends k) (do_timeouts now)) (\<lambda>_. moves s {#}) (\<lambda>_ _. True) s"
    unfolding sq_def by (rule hush_then [OF hush_flush assms]) (rule do_timeouts_moves)
  then show ?thesis using moves_refl [OF assms] by (simp add: tend_def wp_bnd wp_basic wp_whenM)
qed

lemma gs_turn_tend: "gs_turn k now now' msg = sq (tend k now) (case msg of None \<Rightarrow> ret () | Some m \<Rightarrow> dispatch_gs now' m)"
  by (rule ext) (simp add: gs_turn_def tend_def sq_def bnd_apply split: sum.splits prod.splits)

definition msg_of :: "nat \<times> int \<times> int \<times> gs_msg option \<Rightarrow> gs_msg option" where
  "msg_of ev = snd (snd (snd ev))"

definition demand :: "int set \<Rightarrow> (nat \<times> int \<times> int \<times> gs_msg option) list \<Rightarrow> (hdl \<times> int) multiset" where
  "demand test evs = sum_list (map (\<lambda>ev. case msg_of ev of None \<Rightarrow> {#} | Some m \<Rightarrow> expects test m) evs)"

lemma run_books:
  assumes "gs_inv s" "exits_ok s" "polite evs s" "run_global_server evs s = (Inr x, t)"
  shows "\<exists>n\<le>length evs. books s (demand (gs_test_conns s) (take n evs)) t \<and> (n = length evs \<or> gs_state t = SHUTTING_DOWN)"
  using assms
proof (induction evs arbitrary: s)
  case Nil
  then show ?case by (simp add: books_def demand_def)
next
  case (Cons ev evs)
  obtain k now now' msg where ev: "ev = (k, now, now', msg)" by (cases ev)
  let ?test = "gs_test_conns s"
  show ?case
  proof (cases "gs_state s = SHUTTING_DOWN")
    case True
    then have "t = s" using Cons.prems(4) by (simp add: ev bnd_apply)
    then show ?thesis using True Cons.prems by (intro exI [of _ 0]) (simp add: books_def demand_def)
  next
    case False
    obtain s1 where s1: "tend k now s = (Inr (), s1)"
      using False Cons.prems(4) by (cases "tend k now s") (auto simp: ev bnd_apply gs_turn_tend sq_def split: sum.splits)
    have b1: "books s {#} s1" using moves_books [OF Cons.prems(2) wp_run [OF tend_moves [OF Cons.prems(1)] s1]] .
    obtain s2 where s2: "(case msg of None \<Rightarrow> ret () | Some m \<Rightarrow> dispatch_gs now' m) s1 = (Inr (), s2)"
      and run: "run_global_server evs s2 = (Inr x, t)"
      using False Cons.prems(4) s1
      by (cases "(case msg of None \<Rightarrow> ret () | Some m \<Rightarrow> dispatch_gs now' m) s1")
        (auto simp: ev bnd_apply gs_turn_tend sq_def split: sum.splits)
    have b2: "books s1 (case msg of None \<Rightarrow> {#} | Some m \<Rightarrow> expects ?test m) s2 \<and> polite evs s2"
    proof (cases msg)
      case None
      then show ?thesis using s2 b1 Cons.prems(3) False s1 by (simp add: books_def ev)
    next
      case (Some m)
      have adm: "admissible s1 m" "polite evs s2" using Cons.prems(3) False s1 s2 Some by (simp_all add: ev)
      have "books s1 (expects (gs_test_conns s1) m) s2"
        using wp_run [OF dispatch_books [OF _ _ adm(1), of now']] b1 s2 Some by (simp add: books_def)
      then show ?thesis using adm b1 Some by (simp add: books_def)
    qed
    then obtain n where n: "n \<le> length evs" "books s2 (demand (gs_test_conns s2) (take n evs)) t" "n = length evs \<or> gs_state t = SHUTTING_DOWN"
      using Cons.IH [of s2] run by (auto simp: books_def)
    have te: "gs_test_conns s2 = ?test" using b1 b2 by (simp add: books_def)
    have "books s (demand ?test (take (Suc n) (ev # evs))) t"
      using books_trans [OF books_trans [OF b1 conjunct1 [OF b2]] n(2) [unfolded te]] by (simp add: demand_def msg_of_def ev ac_simps)
    then show ?thesis using n by (intro exI [of _ "Suc n"]) auto
  qed
qed

lemma new_gs_ok: "gs_inv (new_gs n test attach)" "exits_ok (new_gs n test attach)" "account (new_gs n test attach) = {#}"
  "gs_test_conns (new_gs n test attach) = test"
proof -
  have "stale_in R new_pmm" "owed_joins test new_pmm = {#}" for R by (simp_all add: stale_in_def owed_joins_def new_pmm_def)
  then show "gs_inv (new_gs n test attach)" "exits_ok (new_gs n test attach)" "account (new_gs n test attach) = {#}"
    "gs_test_conns (new_gs n test attach) = test"
    by (simp_all add: new_gs_def gs_inv_def pending_ok_def tags_ok_def conts_ok_def uniq_ok_def inner_ok_def conts_def tables_in_range_def
        joins_ok_def exits_ok_def account_def answered_def owed_conts_def)
qed

text \<open>
  A run for the witness: one node starts, a head process with a pipe and a pool are asked for; a
  join of the process times out; local services answers the first request but not the second.
\<close>

definition demo_hdr :: "int \<Rightarrow> hdr" where
  "demo_hdr t = \<lparr>h_tag = t, h_p_uid = 0, h_r_c_uid = 1\<rparr>"

definition demo_node :: node_descriptor where
  "demo_node = \<lparr>h_uid = 7, nd_host_name = ''n0'', num_cpus = 4, cpu_devices = None, accelerators = None, num_policies = 0\<rparr>"

definition demo_proc :: proc_create where
  "demo_proc = \<lparr>pp_hdr = demo_hdr 41, pp_user_name = ''head'', pp_policy = None, pp_layout = None, pp_head_proc = True,
     pp_resilient = False, pp_make_inf_channels = False, pp_pipesize = None, pp_stdin_pipe = False, pp_stdout_pipe = True, pp_stderr_pipe = False\<rparr>"

definition demo_join :: join_req where
  "demo_join = \<lparr>jr_named = \<lparr>nm_hdr = demo_hdr 43, nm_user_name = ''head'', nm_uid = 0\<rparr>, jr_timeout = 500\<rparr>"

definition demo_events :: "(nat \<times> int \<times> int \<times> gs_msg option) list" where
  "demo_events = [(0, 0, 0, Some (LSPingGS 0 ''node-0'' demo_node)),
     (0, 1, 1, Some (GSProcessCreate demo_proc)),
     (1, 2, 2, Some (GSPoolCreate \<lparr>pc_hdr = demo_hdr 42, pc_user_name = ''pool'', pc_size = 4096\<rparr>)),
     (1, 3, 3, Some (GSProcessJoin demo_join)),
     (0, 4, 4, Some (LSProcessCreateResponse 1 True \<lparr>cr_gs_ret = None, cr_stdin = None, cr_stdout = Some (LSSuccess ''c''), cr_stderr = None\<rparr>)),
     (0, 900, 900, None)]"

lemmas demo_defs = demo_events_def demo_hdr_def demo_node_def demo_proc_def demo_join_def new_gs_def

lemma get_timed_out_small:
  "get_timed_out now \<lparr>pm_items = i, pm_dead_keys = d, pm_timeout_keys = t, pm_timeout_pq = [], pm_deadlines = l\<rparr> =
     ([], \<lparr>pm_items = i, pm_dead_keys = {}, pm_timeout_keys = t, pm_timeout_pq = [], pm_deadlines = l\<rparr>)"
  "get_timed_out now' \<lparr>pm_items = i', pm_dead_keys = {}, pm_timeout_keys = t', pm_timeout_pq = [e], pm_deadlines = l'\<rparr> =
     (if fst e \<le> now' then ([snd e], \<lparr>pm_items = i', pm_dead_keys = {}, pm_timeout_keys = t', pm_timeout_pq = [], pm_deadlines = l'(snd e := None)\<rparr>)
      else ([], \<lparr>pm_items = i', pm_dead_keys = {}, pm_timeout_keys = t', pm_timeout_pq = [e], pm_deadlines = l'\<rparr>))"
  "heappush sooner [] y = [y]"
  by (auto simp: get_timed_out_def expire.simps heappop_def heappush_def siftdown.simps fun_eq_iff)

lemmas run_defs = gs_turn_def tend_def dispatch_gs_def handle_pool_create_def handle_ls_answer_def pop_pending_def run_cont_def
   get_reply_handle_def pool_construct_def respond_def tag_inc_def put_reply_def
    set_pending_def send_ls_def ls_input_def new_muid_and_default_name_def new_puid_and_default_name_def new_cuid_and_default_name_def choose_pool_node_def upd_pool_def upd_chan_def upd_proc_def respond_opt_def resolve_puid_def resolve_uid_def
    new_pool_def  bnd_apply sq_def try_except_apply Let_def handle_ls_ping_def handle_process_create_def
    proc_construct_def place_request_def choose_localservices_def proc_enter_def new_proc_def send_start_def mk_ls_proc_create_def optional_def
    pipe_channel_def inner_channel_def chan_construct_def channel_node_def chan_register_def new_chan_def is_pre_defined_pool_def
    infrastructure_pool_muid_from_index_def FIRST_MUID_def FIRST_PUID_def FIRST_CUID_def ls_chan_of_def whenM_def
    flush_sends_def do_timeouts_def new_pmm_def get_timed_out_small handle_process_join_def limit_def pm_put_def
    handle_process_create_response_def proc_complete_construction_def set_proc_state_def complete_pipe_def chan_complete_construction_def held_def
    finish_construction_def timed_out_join_def pm_remove_one_def pm_remove_def fresh_join_def

lemma global_policy_fine: "\<not> isl global_policy"
  by code_simp

lemma demo_runs:
  "polite demo_events (new_gs 1 {} (\<lambda>_. Inr ()))"
  "fst (run_global_server demo_events (new_gs 1 {} (\<lambda>_. Inr ()))) = Inr ()"
proof -
  obtain g where g: "global_policy = Inr g" using global_policy_fine by (metis sum.collapse(2))
  show "polite demo_events (new_gs 1 {} (\<lambda>_. Inr ()))" unfolding demo_defs by (simp add: run_defs g)
  show "fst (run_global_server demo_events (new_gs 1 {} (\<lambda>_. Inr ()))) = Inr ()" unfolding demo_defs by (simp add: run_defs g)
qed

text \<open>
  C4: Requests for pools (create, destroy, list, query), channels (create, destroy, list, query),
  processes (create, kill, list, query, join of one process), nodes and a reboot are answered
  exactly once or held exactly once.  After every run of the server that raises no exception, from
  its start, with any messages, nodes, failures of local services and delays, the answers of these
  kinds that were put into reply channels, together with the requests that wait for local services
  or for a process to end, are exactly the requests of these kinds that were taken in up to the
  shutdown, each with its reply channel and tag.  The run is one in which no join is equal to one
  that waits already, and in which local services report an exit with the tag of the creation.
  Joins of lists of processes, joins of channel names and the requests for groups are not counted.
\<close>

theorem requests_answered_once:
  assumes "polite evs (new_gs n test attach)" "run_global_server evs (new_gs n test attach) = (Inr x, t)"
  shows "\<exists>k\<le>length evs. answered t + owed_conts t + owed_joins (gs_test_conns t) (gs_pending_join t) = demand test (take k evs) \<and>
     (k = length evs \<or> gs_state t = SHUTTING_DOWN)"
  unfolding account_def [symmetric] using run_books [OF new_gs_ok(1,2) assms] by (fastforce simp: books_def new_gs_ok)

theorem requests_answered_once_witness:
  "\<exists>k\<le>6. answered (snd (run_global_server demo_events (new_gs 1 {} (\<lambda>_. Inr ())))) +
       owed_conts (snd (run_global_server demo_events (new_gs 1 {} (\<lambda>_. Inr ())))) +
       owed_joins (gs_test_conns (snd (run_global_server demo_events (new_gs 1 {} (\<lambda>_. Inr ())))))
         (gs_pending_join (snd (run_global_server demo_events (new_gs 1 {} (\<lambda>_. Inr ()))))) =
       demand {} (take k demo_events) \<and>
     (k = 6 \<or> gs_state (snd (run_global_server demo_events (new_gs 1 {} (\<lambda>_. Inr ())))) = SHUTTING_DOWN)"
proof -
  have l: "length demo_events = 6" by (simp add: demo_events_def)
  show ?thesis
    using requests_answered_once [OF demo_runs(1), of "()" "snd (run_global_server demo_events (new_gs 1 {} (\<lambda>_. Inr ())))"]
      demo_runs(2) unfolding l by (cases "run_global_server demo_events (new_gs 1 {} (\<lambda>_. Inr ()))") simp
qed

end
