(* ===== verification/Spec2Isabelle.thy ===== *)
theory Spec2Isabelle
  imports PolicyEval Popping PutRequest Cluster Relaunch Teardown Requests Filtering Gateway GSOnce
begin

text \<open>
  \<^bold>\<open>A verification library for the Python part of the Dragon runtime.\<close>

  Dragon runs distributed Python programs.  This library models the parts of it that carry its own logic and
  keep state: global services with the placement of processes on nodes, the distributed dictionary, and the TCP
  transport that carries channel operations between nodes.  All source paths below are under \<open>src/src/dragon/\<close>.

  \<^bold>\<open>The program.\<close>  \<^emph>\<open>Global services\<close> (\<open>globalservices/\<close>) keep the tables of pools, channels, processes and
  nodes of the whole runtime.  One loop (\<open>server.py\<close>) takes requests and the answers of the local services on
  the nodes: a request to create or destroy something is passed on to a node and a continuation kept under the
  tag of the message, a join waits for a process to end or for its time limit, everything else is answered at
  once.  The contexts (\<open>pool_int.py\<close>, \<open>channel_int.py\<close>, \<open>process_int.py\<close>) hold what belongs to one resource.
  A \<^emph>\<open>distributed dictionary\<close> (\<open>data/ddict/\<close>) is served by managers, one or more per node.
  A manager (\<open>manager.py\<close>) owns a memory pool and a \<^emph>\<open>working set\<close>, a window of checkpoints; each checkpoint is
  a layer of keys and values over the older ones.  Clients send a manager requests and, for puts, stream keys
  and values after them; a request that has to wait for a checkpoint to retire is deferred.  When the oldest
  checkpoint retires, what the newer ones do not override is handed down, the rest is freed by a thread, which
  also persists the checkpoint (\<open>CheckpointPersister\<close> in \<open>ddict.py\<close>).  Requests to all managers spread over
  trees of managers.  An \<^emph>\<open>orchestrator\<close> (\<open>orchestrator.py\<close>) starts the managers, collects their
  registrations, hands managers out to clients and tears the dictionary down.  \<^emph>\<open>Placement\<close> of processes is
  decided by policies (\<open>infrastructure/policy.py\<close>) and their evaluator
  (\<open>globalservices/policy_eval.py\<close>).  An operation on a channel of another node reaches that node through
  \<^emph>\<open>transport agents\<close> (\<open>transport/tcp/\<close>): the client of one agent turns a gateway message into a request,
  the transport numbers it, writes it on a connection and waits for the response with the same number, and the
  server of the other agent performs it.

  \<^bold>\<open>The theories.\<close>

  \<^item> \<open>Prelude\<close>: Python methods as functions from a state to a result and a state, with exceptions as values;
    dictionaries that keep insertion order.  \<open>Keeping\<close>: what a method leaves unchanged, lifted through its
    control structures.

  \<^item> \<open>Policy\<close> (class \<open>Policy\<close>: defaults, serialisation, merge, the thread's stack of policies) and
    \<open>PolicyEval\<close> (class \<open>PolicyEvaluator\<close>: node selection and CPU and GPU affinity).  Shown: merging keeps
    what the stronger policy sets; a policy survives serialisation; a \<open>with\<close> block restores the stack;
    evaluation terminates, gives every policy its layout and counts it on its node.

  \<^item> \<open>Timeouts\<close> (class \<open>PriorityMultiMap\<close> of \<open>infrastructure/util.py\<close>): it refines a map from what waits to its
    deadline.  \<open>GSState\<close> (identifiers, descriptors, messages, the tables of \<open>GlobalContext\<close> and its support
    functions), \<open>GSContexts\<close> (\<open>PoolContext\<close>, \<open>ChannelContext\<close>, \<open>ProcessContext\<close>), \<open>GSServer\<close> (the handlers, the
    time-outs and the loop).

  \<^item> \<open>Triples\<close> (preconditions of methods; the locale \<open>preorder_logic\<close> carries an invariant and a reflexive and
    transitive relation between states through methods; it is interpreted on the invariant of global services
    with the methods that answer nothing, and on what the methods that answer leave alone), \<open>GSAccount\<close> (the
    invariant; answers given and answers owed), \<open>GSAnswers\<close>, \<open>GSProcesses\<close>, \<open>GSOnce\<close>: for every handler, the
    answers given and owed after it are those before it and the ones of its request, so that over a run that does
    not raise no request is answered twice and none is lost.  Joins of lists of processes and of channel names are
    modelled but not counted: a channel join that was answered stays in its table, and is answered once more when
    its time is over.

  \<^item> \<open>Memory\<close> (allocations, byte strings, dictionaries and sets with memory keys), \<open>Checkpoint\<close> (class
    \<open>Checkpoint\<close>), \<open>WorkingSet\<close> (class \<open>WorkingSet\<close>).  The abstract specification of the window is a view:
    what a read of a key at a checkpoint sees.  Shown: reading through the layers implements the view;
    retiring changes no read at a checkpoint that stays, makes nothing unreachable that is kept and keeps
    nothing unreachable; the window stays well-formed and its moves terminate.

  \<^item> \<open>FileNames\<close> and \<open>Persister\<close> (\<open>NULLCheckpointPersister\<close>, \<open>PosixCheckpointPersister\<close>): names of
    checkpoint files, what is on disk, how many files there may be.

  \<^item> \<open>DDState\<close> (state of class \<open>Manager\<close>, pool memory, value lists, messages), \<open>DictOps\<close> (the classes
    \<open>PutOp\<close> to \<open>ClearOp\<close> with their error handlers), \<open>Ownership\<close> (the invariant: no allocation has two
    owners, every stored handle is alive), \<open>PutGet\<close>, \<open>Reading\<close>, \<open>Popping\<close> (what the operations do to the
    view and that they keep the invariant).

  \<^item> \<open>Manager\<close>, \<open>BatchPut\<close>, \<open>Restoring\<close> (the request handlers, one definition each), \<open>Frames\<close> (what they
    leave alone), \<open>Deferral\<close> (deferred operations and freezing), \<open>PutRequest\<close> (what a put request does from the
    client's stream to the answer, and that it leaks its memory at a retired checkpoint), \<open>Server\<close> (dispatch
    table and receive loop),
    \<open>Broadcast\<close> and \<open>Cluster\<close> (requests that spread over the managers; the locale \<open>spreading\<close> is
    interpreted on the heap order of \<open>_send_dmsg_to_children\<close> and on the halving of \<open>_bput\<close>, the locale
    \<open>tree_request\<close> on the freeze and unfreeze handlers).

  \<^item> \<open>Orchestrator\<close> (class \<open>Orchestrator\<close>), \<open>Coordination\<close> (its tables, the creation protocol, the hand-out of
    managers), \<open>Relaunch\<close> (placement on a restart), \<open>Teardown\<close> (destruction).

  \<^item> \<open>Client\<close> (class \<open>DDict\<close>: which manager a key goes to, requests and answers, batches, broadcasts) and
    \<open>Requests\<close>: a batch delivers every pair to its manager; late answers are tossed where answers are buffered
    and put every later get out of step where they are streamed; a failed batch spoils the next.

  \<^item> \<open>Heapq\<close> (the standard library's heap, with the locale \<open>priority_queue\<close> that states what is relied on) and
    \<open>Filtering\<close> (\<open>SentinelQueue\<close>, \<open>filter_aggregator\<close>, \<open>DDict.filter\<close>): the tree of aggregators merges what the
    managers' filters write, losing nothing, best first; the locale \<open>merging\<close> is interpreted on the heap.

  \<^item> \<open>Floats\<close> (Python's floats as IEEE bit patterns, and their conversion to single precision and back) and
    \<open>Wire\<close> (\<open>transport/tcp/io.py\<close> and \<open>messages.py\<close>): which messages can be written, and that they are read back.
    The locale \<open>codec\<close> states what a reader and a writer of fields promise and is interpreted on \<open>io_read\<close> and
    \<open>io_write\<close>.

  \<^item> \<open>Transport\<close> (\<open>transport.py\<close>: classes \<open>Address\<close>, \<open>Transport\<close>, \<open>StreamTransport\<close>), \<open>Deadlines\<close> (which requests
    fit the wire format at every time at which a sender may come to them: the timeout is infinite, zero or ends
    before \<open>2 ^ 126\<close> seconds, and everything else fits) and \<open>Network\<close>: the nodes with their connections as a step
    relation, where a connection may break at any moment, between messages or inside one, and a write may raise
    and leave a part of its message on a connection that stays open.  Shown by an invariant over all runs in which
    the messages fit: requests arrive in order and at most once, answers reach the request they were given for;
    and what is not guaranteed, that a request arrives, and that one which does not fit arrives as it was written.
    The relation \<open>clean_step\<close> has the steps of the runs in which no write raises; the invariant is about them,
    and the runs of \<open>net_step\<close> in which every message fits are shown to consist of them.  The locale \<open>framing\<close>
    says how messages are found in a stream; it is interpreted on \<open>write_message\<close> and \<open>read_message\<close>.

  \<^item> \<open>Gateway\<close> (\<open>client.py\<close>, \<open>server.py\<close>, \<open>util.py\<close>, \<open>errno.py\<close> and the class \<open>GatewayMessage\<close> of
    \<open>pydragon_channels.pyx\<close>): every request gets one response, a gateway message is completed once with what the
    response says, or never when an error has no code, and the server's tables of send handles stay consistent
    whatever the channels library raises.

  \<^bold>\<open>How code corresponds to definitions.\<close>  A class is a record, a method a definition on it; a raise is
  \<open>Inl\<close> of an exception, and the state reached when it was raised is kept.  Nested \<open>try\<close> blocks are
  \<^const>\<open>try_except\<close> and \<^const>\<open>try_finally\<close>.  Faults of the code are modelled as they are: where a handler reads
  an attribute that does not exist, the definition raises \<open>AttributeError\<close>.  The shared mutable lists of values
  are an explicit store (\<open>mg_lists\<close>), because operations alias them.

  A context of global services is named by its identifier, which is given out once; tables are the lists of
  their keys.

  \<^bold>\<open>Parameters.\<close>  What is not Python of this repository is a parameter held in the state: when the pool has
  room and which allocation it gives, when it counts as full, the pickler of integers, what closing a receive
  handle raises, which connections fail, the nodes of the allocation, which element \<open>set.pop\<close> takes.  The
  server's calls of the channels library (attach, handles, send, receive, poll) are the fields of the record
  \<open>channels\<close>, each of which may raise.  For global services, whether attaching to a channel succeeds and which
  connections of a test there are.

  \<^bold>\<open>Simplifications.\<close>  A manager's handlers run one after the other, as its loop runs them, so its locks are
  left out; a thread it starts (retiring, streaming answers, a batched put) runs as one step, at the latest
  when it is joined, and a join ends within its timeout.  Log messages, timings and the texts of error
  messages are left out.  Integers are unbounded, as Python's are.  Loops are structural or have a
  termination proof.  The one place with fuel is the tree of aggregators, where it counts levels of the tree: one
  more than there are managers is shown to be enough for a branching factor of at least two, and no number is
  for one.

  In global services a time is an integer that is compared with others only, so entries of a heap are ordered by
  deadline; sets of requests are kept in the order of insertion; the launch mode is one of the modes that have reply
  channels; command lines, environments and options that are only passed on are left out.

  In the transport, one turn of a task of the event loop is one step; the events that tell when a payload was
  copied (\<open>_io_event\<close>) and the idle time-outs are left out, and the clock is an argument.  A call that the server
  runs in another thread (\<open>asyncio.to_thread\<close>) is one step too, so that races of two sends for the tables of
  handles, which the code does not exclude, are not among the runs.  Timeouts and times are not negative.

  In the client of a dictionary a string has code points below 256; in a filter's queue no value is equal to the
  string that ends the queue.

  \<^bold>\<open>Not modelled, and why.\<close>  The DAOS persister (calls of the DAOS client library); the byte encoding of
  checkpoint files (cloudpickle); the copying of a manager's state to another one
  (\<open>manager_sync\<close>, \<open>manager_set_state\<close>), which serialises the pool; the release of resources after the
  loops; the views of values and items and the cloning of dictionaries in the client; of global services the
  groups of processes (\<open>group_int.py\<close>), start-up and tear-down; local services, launcher, the start and stop of the
  transport agent's tasks, native API,
  workflows and the multiprocessing bridge, which are for the greater part system calls, process management
  or glue.
\<close>

end
